(* ===== verification/Prelude.thy ===== *)
theory Prelude
  imports Main "HOL-Library.List_Lexorder" "HOL-Library.Char_ord" "HOL-Library.Product_Lexorder" "HOL-Library.Multiset"
begin

text \<open>
  What the component theories share: results of fallible code as a sum with the sequencing
  combinator \<open>rbind\<close>, JavaScript strings and numbers as text, half-open time ranges, and the
  lemmas on lists that several components use. The collections \<open>result_simps\<close> and
  \<open>range_simps\<close> gather the rewrite rules the component proofs name.
\<close>

named_theorems result_simps "rewrite rules for sequenced fallible code"
named_theorems range_simps "rewrite rules for half-open ranges"

section \<open>Results\<close>

text \<open>\<open>Inl e\<close> is a thrown error, \<open>Inr x\<close> a returned value. A statement sequence is \<open>rbind\<close>.\<close>

definition rbind :: "'e + 'a \<Rightarrow> ('a \<Rightarrow> 'e + 'b) \<Rightarrow> 'e + 'b" where
  "rbind m f = (case m of Inl e \<Rightarrow> Inl e | Inr x \<Rightarrow> f x)"

definition throw_if :: "bool \<Rightarrow> 'e \<Rightarrow> 'e + unit" where
  "throw_if b e = (if b then Inl e else Inr ())"

lemma rbind_simps [simp]: "rbind (Inl e) f = Inl e" "rbind (Inr x) f = f x"
  by (simp_all add: rbind_def)

lemma rbind_eq_Inr [result_simps]: "rbind m f = Inr y \<longleftrightarrow> (\<exists>x. m = Inr x \<and> f x = Inr y)"
  by (cases m) auto

lemma rbind_eq_Inl [result_simps]:
  "rbind m f = Inl e \<longleftrightarrow> m = Inl e \<or> (\<exists>x. m = Inr x \<and> f x = Inl e)"
  by (cases m) auto

lemma throw_if_eq [simp]:
  "throw_if b e = Inr u \<longleftrightarrow> \<not> b" "throw_if b e = Inl e' \<longleftrightarrow> b \<and> e' = e"
  by (auto simp: throw_if_def)

lemma rbind_throw_if: "rbind (throw_if b e) f = (if b then Inl e else f ())"
  by (simp add: throw_if_def)

text \<open>A loop whose body may throw: \<open>for (const x of xs) s = f(x, s)\<close>.\<close>

fun rfold :: "('x \<Rightarrow> 's \<Rightarrow> 'e + 's) \<Rightarrow> 'x list \<Rightarrow> 's \<Rightarrow> 'e + 's" where
  "rfold f [] s = Inr s"
| "rfold f (x # xs) s = rbind (f x s) (rfold f xs)"

lemma rfold_invariant:
  assumes "rfold f xs s = Inr s'" and "P s"
    and "\<And>x t t'. x \<in> set xs \<Longrightarrow> P t \<Longrightarrow> f x t = Inr t' \<Longrightarrow> P t'"
  shows "P s'"
  using assms
proof (induction xs arbitrary: s)
  case Nil
  then show ?case by simp
next
  case (Cons x xs)
  from Cons.prems(1) obtain t where t: "f x s = Inr t" "rfold f xs t = Inr s'"
    by (auto simp: rbind_eq_Inr)
  have "P t" using Cons.prems(2,3) t(1) by auto
  with t(2) show ?case using Cons.IH Cons.prems(3) by auto
qed

section \<open>Strings and numbers as text\<close>

text \<open>
  A JavaScript string is a list of UTF-16 code units; the model's \<open>char\<close> holds the units 0 to
  255. \<open>toLowerCase\<close> on those units: the ASCII capitals and the Latin-1 capitals move by 32.
\<close>

definition lower_char :: "char \<Rightarrow> char" where
  "lower_char c = (let n = (of_char c :: nat) in
     if (65 \<le> n \<and> n \<le> 90) \<or> (192 \<le> n \<and> n \<le> 222 \<and> n \<noteq> 215) then char_of (n + 32) else c)"

definition lower :: "string \<Rightarrow> string" where
  "lower s = map lower_char s"

lemma lower_char_idem: "lower_char (lower_char c) = lower_char c"
proof -
  show ?thesis
    by (auto simp: lower_char_def Let_def of_char_of take_bit_eq_mod)
qed

lemma lower_idem [simp]: "lower (lower s) = lower s"
  by (simp add: lower_def lower_char_idem)

lemma lower_Nil [simp]: "lower [] = []"
  by (simp add: lower_def)

text \<open>\<open>String(n)\<close> of an integer, in decimal.\<close>

definition digit_char :: "nat \<Rightarrow> char" where
  "digit_char d = char_of (48 + d mod 10)"

fun show_nat :: "nat \<Rightarrow> string" where
  "show_nat n = (if n < 10 then [digit_char n] else show_nat (n div 10) @ [digit_char n])"

declare show_nat.simps [simp del]

definition show_int :: "int \<Rightarrow> string" where
  "show_int i = (if i < 0 then CHR ''-'' # show_nat (nat (- i)) else show_nat (nat i))"

lemma of_char_digit: "of_char (digit_char d) = (48 + d mod 10 :: nat)"
  by (simp add: digit_char_def of_char_of take_bit_eq_mod)

lemma digit_char_inj: "digit_char a = digit_char b \<Longrightarrow> a mod 10 = b mod 10"
  by (metis of_char_digit add_left_cancel)

lemma show_nat_not_Nil [simp]: "show_nat n \<noteq> []"
  by (subst show_nat.simps) simp

lemma Nil_not_show_nat [simp]: "[] \<noteq> show_nat n"
  by (metis show_nat_not_Nil)

lemma show_nat_inj: "show_nat m = show_nat n \<Longrightarrow> m = n"
proof (induction m arbitrary: n rule: show_nat.induct)
  case (1 m)
  have m: "show_nat m = (if m < 10 then [digit_char m] else show_nat (m div 10) @ [digit_char m])"
    by (rule show_nat.simps)
  have n: "show_nat n = (if n < 10 then [digit_char n] else show_nat (n div 10) @ [digit_char n])"
    by (rule show_nat.simps)
  have "last (show_nat m) = digit_char m" "last (show_nat n) = digit_char n"
    by (simp_all add: m n)
  then have last: "m mod 10 = n mod 10"
    using "1.prems" by (auto intro: digit_char_inj)
  show ?case
  proof (cases "m < 10")
    case True
    then show ?thesis using "1.prems" m n last by (auto split: if_splits)
  next
    case False
    then have "\<not> n < 10" using "1.prems" m n by (auto split: if_splits)
    with False have "show_nat (m div 10) = show_nat (n div 10)" using "1.prems" m n by auto
    then have "m div 10 = n div 10" by (rule "1.IH" [OF False])
    with last show ?thesis by (metis mult_div_mod_eq)
  qed
qed

lemma digit_char_range: "48 \<le> (of_char (digit_char d) :: nat) \<and> (of_char (digit_char d) :: nat) \<le> 57"
  unfolding of_char_digit by (simp add: less_Suc_eq_le [symmetric])

lemma show_nat_digits: "c \<in> set (show_nat n) \<Longrightarrow> \<exists>d. c = digit_char d"
proof (induction n rule: show_nat.induct)
  case (1 n)
  show ?case
  proof (cases "n < 10")
    case True
    with "1.prems" show ?thesis by (auto simp: show_nat.simps [of n])
  next
    case False
    with "1.prems" have "c \<in> set (show_nat (n div 10)) \<or> c = digit_char n"
      by (auto simp: show_nat.simps [of n])
    then show ?thesis using "1.IH" [OF False] by blast
  qed
qed

lemma show_int_inj: "show_int i = show_int j \<Longrightarrow> i = j"
proof -
  have minus: "CHR ''-'' # s \<noteq> show_nat n" for s n
  proof
    assume "CHR ''-'' # s = show_nat n"
    then have "CHR ''-'' \<in> set (show_nat n)" by (metis list.set_intros(1))
    then obtain d where "CHR ''-'' = digit_char d" using show_nat_digits by blast
    then have "of_char (CHR ''-'') = (of_char (digit_char d) :: nat)" by simp
    moreover have "of_char (CHR ''-'') = (45 :: nat)" by code_simp
    ultimately show False using digit_char_range [of d] by simp
  qed
  assume "show_int i = show_int j"
  then show "i = j"
    using minus [of "show_nat (nat (- i))" "nat j"] minus [of "show_nat (nat (- j))" "nat i"]
    by (auto simp: show_int_def split: if_splits dest!: show_nat_inj)
qed

section \<open>Half-open ranges of instants\<close>

text \<open>
  An instant is its milliseconds since the epoch. A range \<open>[from, to)\<close> is a pair; it is empty
  unless \<open>from < to\<close>. \<open>overlaps\<close> is the operator \<open>&&\<close> of Postgres: an empty range
  overlaps nothing.
\<close>

type_synonym instant = int
type_synonym range = "instant \<times> instant"

definition range_empty :: "range \<Rightarrow> bool" where
  "range_empty r \<longleftrightarrow> \<not> fst r < snd r"

definition overlaps :: "range \<Rightarrow> range \<Rightarrow> bool" where
  "overlaps a b \<longleftrightarrow> fst a < snd a \<and> fst b < snd b \<and> fst a < snd b \<and> fst b < snd a"

lemma overlaps_sym: "overlaps a b \<longleftrightarrow> overlaps b a"
  by (auto simp: overlaps_def)

lemma overlaps_iff_shared [range_simps]:
  "overlaps a b \<longleftrightarrow> (\<exists>t. fst a \<le> t \<and> t < snd a \<and> fst b \<le> t \<and> t < snd b)"
proof
  assume "overlaps a b"
  then have "fst a \<le> max (fst a) (fst b) \<and> max (fst a) (fst b) < snd a \<and>
      fst b \<le> max (fst a) (fst b) \<and> max (fst a) (fst b) < snd b"
    by (auto simp: overlaps_def)
  then show "\<exists>t. fst a \<le> t \<and> t < snd a \<and> fst b \<le> t \<and> t < snd b" by blast
next
  assume "\<exists>t. fst a \<le> t \<and> t < snd a \<and> fst b \<le> t \<and> t < snd b"
  then show "overlaps a b" by (auto simp: overlaps_def)
qed

section \<open>Lists\<close>

lemma sorted_wrt_map_update:
  assumes "sorted_wrt P xs" and "\<And>x y. x \<in> set xs \<Longrightarrow> y \<in> set xs \<Longrightarrow> P x y \<Longrightarrow> P (f x) (f y)"
  shows "sorted_wrt P (map f xs)"
  using assms by (auto simp: sorted_wrt_map intro: sorted_wrt_mono_rel)

lemma sorted_wrt_snoc:
  "sorted_wrt P (xs @ [x]) \<longleftrightarrow> sorted_wrt P xs \<and> (\<forall>y\<in>set xs. P y x)"
  by (simp add: sorted_wrt_append)

text \<open>In a list with distinct keys the key finds its element, and a replacement by key keeps the keys.\<close>

lemma find_distinct_key: "distinct (map k xs) \<Longrightarrow> x \<in> set xs \<Longrightarrow> find (\<lambda>y. k y = k x) xs = Some x"
  by (induction xs) (auto simp: rev_image_eqI)

lemma distinct_key_eq: "distinct (map k xs) \<Longrightarrow> x \<in> set xs \<Longrightarrow> y \<in> set xs \<Longrightarrow> k x = k y \<Longrightarrow> x = y"
  by (auto simp: distinct_map dest: inj_onD)

lemma map_replace_key:
  "k new = i \<Longrightarrow> map k (map (\<lambda>x. if k x = i then new else x) xs) = map k xs"
  by (induction xs) auto

lemma set_replace_key:
  "x \<in> set (map (\<lambda>y. if k y = i then new else y) xs) \<Longrightarrow> x = new \<or> (x \<in> set xs \<and> k x \<noteq> i)"
  by (auto split: if_splits)

text \<open>A symmetric pairwise relation does not depend on the order of the list.\<close>

lemma sorted_wrt_sym_perm:
  assumes sym: "\<And>x y. P x y \<Longrightarrow> P y x"
  shows "mset xs = mset ys \<Longrightarrow> sorted_wrt P xs \<Longrightarrow> sorted_wrt P ys"
proof (induction xs arbitrary: ys)
  case Nil
  then show ?case by simp
next
  case (Cons x xs)
  then have "x \<in> set ys" by (metis list.set_intros(1) set_mset_mset)
  then obtain l1 l2 where ys: "ys = l1 @ x # l2" by (meson split_list)
  with Cons.prems have m: "mset xs = mset (l1 @ l2)" by simp
  then have "set xs = set l1 \<union> set l2" by (metis set_append set_mset_mset)
  with Cons.prems have "\<forall>y\<in>set l1 \<union> set l2. P x y" by simp
  moreover have "sorted_wrt P (l1 @ l2)" using Cons.IH m Cons.prems(2) by simp
  ultimately show ?case using sym by (auto simp: ys sorted_wrt_append)
qed

lemma set_takeWhile_imp: "x \<in> set (takeWhile P xs) \<Longrightarrow> x \<in> set xs \<and> P x"
  by (auto dest: set_takeWhileD)

lemma find_Some_D: "find P xs = Some x \<Longrightarrow> x \<in> set xs \<and> P x"
  by (auto simp: find_Some_iff)

lemma find_None_D: "find P xs = None \<Longrightarrow> x \<in> set xs \<Longrightarrow> \<not> P x"
  by (auto simp: find_None_iff)

end
