(* ===== verification/CoreErrors.thy ===== *)
theory CoreErrors
  imports Prelude
begin

text \<open>
  \<open>packages/core/src/errors.ts\<close> and \<open>packages/core/src/bounds.ts\<close>: the error codes of the engine,
  the error value, the set of stored outcomes, and the workload bounds.
\<close>

section \<open>Error codes\<close>

text \<open>The union \<open>DastarErrorCode\<close>, a constructor per code; \<open>code_text\<close> is the code as the string it is.\<close>

datatype DastarErrorCode =
    Hold_conflict | Hold_expired | Idempotency_replay | Idempotency_mismatch
  | Party_does_not_fit | Audit_immutable | Invalid_transition | Unit_rows_immutable
  | Actor_required | Range_mismatch | Blackout | Assignment_mismatch
  | Combo_immutable | Capacity_conflict | Token_requires_held | Forbidden_write
  | Serialization_conflict | Timeout | Duration_out_of_range | Combo_too_large
  | Version_conflict | Not_found | Forbidden | Too_many_live_holds
  | Overlap_set_too_large | Assignment_inactive | Pool_timeout | Venue_scope_violation
  | Blackout_conflict | Window_too_large | Outside_schedule | Assignment_in_use
  | Reservation_in_progress | Force_too_large | Invalid_timezone | Invalid_input
  | Internal

fun code_text :: "DastarErrorCode \<Rightarrow> string" where
  "code_text Hold_conflict = ''hold_conflict''"
| "code_text Hold_expired = ''hold_expired''"
| "code_text Idempotency_replay = ''idempotency_replay''"
| "code_text Idempotency_mismatch = ''idempotency_mismatch''"
| "code_text Party_does_not_fit = ''party_does_not_fit''"
| "code_text Audit_immutable = ''audit_immutable''"
| "code_text Invalid_transition = ''invalid_transition''"
| "code_text Unit_rows_immutable = ''unit_rows_immutable''"
| "code_text Actor_required = ''actor_required''"
| "code_text Range_mismatch = ''range_mismatch''"
| "code_text Blackout = ''blackout''"
| "code_text Assignment_mismatch = ''assignment_mismatch''"
| "code_text Combo_immutable = ''combo_immutable''"
| "code_text Capacity_conflict = ''capacity_conflict''"
| "code_text Token_requires_held = ''token_requires_held''"
| "code_text Forbidden_write = ''forbidden_write''"
| "code_text Serialization_conflict = ''serialization_conflict''"
| "code_text Timeout = ''timeout''"
| "code_text Duration_out_of_range = ''duration_out_of_range''"
| "code_text Combo_too_large = ''combo_too_large''"
| "code_text Version_conflict = ''version_conflict''"
| "code_text Not_found = ''not_found''"
| "code_text Forbidden = ''forbidden''"
| "code_text Too_many_live_holds = ''too_many_live_holds''"
| "code_text Overlap_set_too_large = ''overlap_set_too_large''"
| "code_text Assignment_inactive = ''assignment_inactive''"
| "code_text Pool_timeout = ''pool_timeout''"
| "code_text Venue_scope_violation = ''venue_scope_violation''"
| "code_text Blackout_conflict = ''blackout_conflict''"
| "code_text Window_too_large = ''window_too_large''"
| "code_text Outside_schedule = ''outside_schedule''"
| "code_text Assignment_in_use = ''assignment_in_use''"
| "code_text Reservation_in_progress = ''reservation_in_progress''"
| "code_text Force_too_large = ''force_too_large''"
| "code_text Invalid_timezone = ''invalid_timezone''"
| "code_text Invalid_input = ''invalid_input''"
| "code_text Internal = ''internal''"

text \<open>
  \<open>class DastarError\<close>. The optional \<open>detail\<close> is carried as the code carries it; \<open>sqlstate\<close> is set
  only by the mapping of a Postgres error.
\<close>

record DastarError =
  code :: DastarErrorCode
  message :: string
  detail :: "string option"
  retryable :: bool
  sqlstate :: "string option"

definition dastar_error :: "DastarErrorCode \<Rightarrow> string \<Rightarrow> DastarError" where
  "dastar_error c m = \<lparr>code = c, message = m, detail = None, retryable = False, sqlstate = None\<rparr>"

definition dastar_error_retryable :: "DastarErrorCode \<Rightarrow> string \<Rightarrow> DastarError" where
  "dastar_error_retryable c m = \<lparr>code = c, message = m, detail = None, retryable = True, sqlstate = None\<rparr>"

definition STORED_OUTCOMES :: "DastarErrorCode list" where
  "STORED_OUTCOMES = [Hold_conflict, Party_does_not_fit, Blackout]"

section \<open>Bounds\<close>

definition BOUNDS_comboUnits_min :: nat where "BOUNDS_comboUnits_min = 2"
definition BOUNDS_comboUnits_max :: nat where "BOUNDS_comboUnits_max = 6"
definition BOUNDS_durationMinutes_min :: int where "BOUNDS_durationMinutes_min = 5"
definition BOUNDS_durationMinutes_max :: int where "BOUNDS_durationMinutes_max = 720"
definition BOUNDS_overlapSet :: nat where "BOUNDS_overlapSet = 64"
definition BOUNDS_holdTtlSeconds_min :: int where "BOUNDS_holdTtlSeconds_min = 60"
definition BOUNDS_holdTtlSeconds_max :: int where "BOUNDS_holdTtlSeconds_max = 3600"
definition BOUNDS_liveHoldsPerActor_default :: int where "BOUNDS_liveHoldsPerActor_default = 5"
definition BOUNDS_liveHoldsPerActor_max :: int where "BOUNDS_liveHoldsPerActor_max = 100"
definition BOUNDS_availabilityResults_default :: int where "BOUNDS_availabilityResults_default = 100"
definition BOUNDS_availabilityResults_max :: int where "BOUNDS_availabilityResults_max = 500"
definition BOUNDS_availabilityStartsExamined :: int where "BOUNDS_availabilityStartsExamined = 10000"
definition BOUNDS_forceCancellations :: nat where "BOUNDS_forceCancellations = 200"
definition BOUNDS_blackoutListing_windowDays :: int where "BOUNDS_blackoutListing_windowDays = 400"
definition BOUNDS_blackoutListing_rows :: nat where "BOUNDS_blackoutListing_rows = 500"

lemmas bounds_defs =
  BOUNDS_holdTtlSeconds_min_def BOUNDS_holdTtlSeconds_max_def BOUNDS_liveHoldsPerActor_default_def
  BOUNDS_liveHoldsPerActor_max_def
  BOUNDS_comboUnits_min_def BOUNDS_comboUnits_max_def BOUNDS_durationMinutes_min_def
  BOUNDS_durationMinutes_max_def BOUNDS_overlapSet_def BOUNDS_availabilityResults_default_def
  BOUNDS_availabilityResults_max_def BOUNDS_forceCancellations_def
  BOUNDS_blackoutListing_windowDays_def BOUNDS_blackoutListing_rows_def

lemma dastar_error_sel [simp]:
  "code (dastar_error c m) = c" "message (dastar_error c m) = m"
  "retryable (dastar_error c m) = False" "sqlstate (dastar_error c m) = None"
  "code (dastar_error_retryable c m) = c" "retryable (dastar_error_retryable c m) = True"
  "sqlstate (dastar_error_retryable c m) = None"
  by (simp_all add: dastar_error_def dastar_error_retryable_def)

end
