(* ===== verification/JsDate.thy ===== *)
theory JsDate
  imports Prelude "HOL-Library.Monad_Syntax"
begin

text \<open>
  What the source uses of JavaScript's \<open>Date\<close>: a time value in milliseconds, \<open>toISOString\<close>, and
  the parsing of ISO 8601 date-times with an offset. The proleptic Gregorian calendar is computed
  on years that start in March, by 400-year eras. A string outside the ISO format reads as an
  invalid date, \<open>None\<close>; ECMAScript leaves such strings to the implementation.
\<close>

section \<open>The calendar\<close>

definition DAY_MS :: int where "DAY_MS = 86400000"

definition civil_from_days :: "int \<Rightarrow> int \<times> int \<times> int" where
  "civil_from_days z =
    (let z' = z + 719468;
         era = z' div 146097; doe = z' mod 146097;
         c = min 3 (doe div 36524); r = doe - c * 36524;
         q = min 24 (r div 1461); r2 = r - q * 1461;
         a = min 3 (r2 div 365); doy = r2 - a * 365;
         y = era * 400 + 100 * c + 4 * q + a;
         mp = (5 * doy + 2) div 153;
         d = doy - (153 * mp + 2) div 5 + 1;
         m = (if mp < 10 then mp + 3 else mp - 9)
     in (if m \<le> 2 then y + 1 else y, m, d))"

definition days_from_civil :: "int \<Rightarrow> int \<Rightarrow> int \<Rightarrow> int" where
  "days_from_civil y m d =
    (let y' = (if m \<le> 2 then y - 1 else y);
         era = y' div 400; yoe = y' mod 400;
         mp = (if m > 2 then m - 3 else m + 9);
         doy = (153 * mp + 2) div 5 + d - 1
     in era * 146097 + yoe * 365 + yoe div 4 - yoe div 100 + doy - 719468)"

text \<open>The era arithmetic, on day-of-era values.\<close>

lemma era_split:
  fixes doe c r q r2 a doy :: int
  assumes "0 \<le> doe" "doe < 146097"
    and "c = min 3 (doe div 36524)" "r = doe - c * 36524"
    and "q = min 24 (r div 1461)" "r2 = r - q * 1461"
    and "a = min 3 (r2 div 365)" "doy = r2 - a * 365"
  shows "0 \<le> c \<and> c \<le> 3 \<and> 0 \<le> q \<and> q \<le> 24 \<and> 0 \<le> a \<and> a \<le> 3 \<and> 0 \<le> doy \<and> doy \<le> 365"
proof -
  have c: "0 \<le> c" "c \<le> 3" "0 \<le> r" "r \<le> 36524" using assms(1-4) by (simp_all add: min_def split: if_splits; linarith)+
  then have q: "0 \<le> q" "q \<le> 24" "0 \<le> r2" "r2 \<le> 1460" using assms(5,6) by (simp_all add: min_def split: if_splits; linarith)+
  then have "0 \<le> a" "a \<le> 3" "0 \<le> doy" "doy \<le> 365" using assms(7,8) by (simp_all add: min_def split: if_splits; linarith)+
  with c q show ?thesis by simp
qed

lemma days_from_civil_from_days:
  assumes "civil_from_days z = (y, m, d)"
  shows "days_from_civil y m d = z"
proof -
  define z' where "z' = z + 719468"
  define era where "era = z' div 146097"
  define doe where "doe = z' mod 146097"
  define c where "c = min 3 (doe div 36524)"
  define r where "r = doe - c * 36524"
  define q where "q = min 24 (r div 1461)"
  define r2 where "r2 = r - q * 1461"
  define a where "a = min 3 (r2 div 365)"
  define doy where "doy = r2 - a * 365"
  define mp where "mp = (5 * doy + 2) div 153"
  have doe: "0 \<le> doe" "doe < 146097" by (simp_all add: doe_def)
  note b = era_split [OF doe c_def r_def q_def r2_def a_def doy_def]
  have mp: "0 \<le> mp" "mp \<le> 11" using b by (simp_all add: mp_def; linarith)+
  have e: "civil_from_days z =
    (if (if mp < 10 then mp + 3 else mp - 9) \<le> 2 then era * 400 + 100 * c + 4 * q + a + 1
       else era * 400 + 100 * c + 4 * q + a,
     (if mp < 10 then mp + 3 else mp - 9), doy - (153 * mp + 2) div 5 + 1)"
    unfolding civil_from_days_def Let_def z'_def era_def doe_def c_def r_def q_def r2_def a_def doy_def mp_def ..
  from e assms have m: "m = (if mp < 10 then mp + 3 else mp - 9)" by (simp only: prod.inject)
  from e assms have d: "d = doy - (153 * mp + 2) div 5 + 1" by (simp only: prod.inject)
  from e assms have y: "y = (if m \<le> 2 then era * 400 + 100 * c + 4 * q + a + 1 else era * 400 + 100 * c + 4 * q + a)"
    by (simp only: prod.inject)
  define yoe where "yoe = 100 * c + 4 * q + a"
  have yoe: "0 \<le> yoe" "yoe < 400" using b by (auto simp: yoe_def)
  have y': "(if m \<le> 2 then y - 1 else y) = era * 400 + yoe" by (simp add: y yoe_def)
  have mp': "(if m > 2 then m - 3 else m + 9) = mp" using mp by (auto simp: m)
  have dv: "(era * 400 + yoe) div 400 = era" "(era * 400 + yoe) mod 400 = yoe"
    using yoe by (simp_all add: div_add1_eq mod_add_eq)
  have d4: "yoe div 4 = 25 * c + q" using b by (simp add: yoe_def; linarith)
  have d100: "yoe div 100 = c" using b by (simp add: yoe_def; linarith)
  have "doe = 36524 * c + 1461 * q + 365 * a + doy"
    by (simp add: doy_def r2_def r_def)
  moreover have "z' = era * 146097 + doe" by (simp add: era_def doe_def)
  ultimately have "z = era * 146097 + yoe * 365 + yoe div 4 - yoe div 100 + doy - 719468"
    unfolding d4 d100 by (simp add: z'_def yoe_def)
  moreover have "(153 * mp + 2) div 5 + d - 1 = doy" by (simp add: d)
  ultimately show ?thesis
    unfolding days_from_civil_def Let_def y' mp' dv by simp
qed

lemma civil_from_days_bounds:
  assumes "civil_from_days z = (y, m, d)"
  shows "1 \<le> m \<and> m \<le> 12 \<and> 1 \<le> d \<and> d \<le> 31"
proof -
  define doe where "doe = (z + 719468) mod 146097"
  define c where "c = min 3 (doe div 36524)"
  define r where "r = doe - c * 36524"
  define q where "q = min 24 (r div 1461)"
  define r2 where "r2 = r - q * 1461"
  define a where "a = min 3 (r2 div 365)"
  define doy where "doy = r2 - a * 365"
  define mp where "mp = (5 * doy + 2) div 153"
  have doe: "0 \<le> doe" "doe < 146097" by (simp_all add: doe_def)
  note b = era_split [OF doe c_def r_def q_def r2_def a_def doy_def]
  have mp: "0 \<le> mp" "mp \<le> 11" using b by (simp_all add: mp_def; linarith)+
  have e: "snd (civil_from_days z) =
    ((if mp < 10 then mp + 3 else mp - 9), doy - (153 * mp + 2) div 5 + 1)"
    unfolding civil_from_days_def Let_def doe_def c_def r_def q_def r2_def a_def doy_def mp_def snd_conv ..
  have m: "m = (if mp < 10 then mp + 3 else mp - 9)" and d: "d = doy - (153 * mp + 2) div 5 + 1"
    using e assms by (simp_all only: snd_conv prod.inject)
  have "153 * mp \<le> 5 * doy + 2" "5 * doy + 2 < 153 * mp + 153" by (simp_all add: mp_def; linarith)+
  then have "1 \<le> d" "d \<le> 31" by (simp_all add: d; linarith)+
  with m mp show ?thesis by auto
qed

section \<open>Printing: \<open>toISOString\<close>\<close>

definition pad :: "nat \<Rightarrow> int \<Rightarrow> string" where
  "pad n i = (let s = show_nat (nat i) in replicate (n - length s) CHR ''0'' @ s)"

definition year_text :: "int \<Rightarrow> string" where
  "year_text y = (if 0 \<le> y \<and> y \<le> 9999 then pad 4 y
     else (if y < 0 then CHR ''-'' else CHR ''+'') # pad 6 \<bar>y\<bar>)"

definition toISOString :: "instant \<Rightarrow> string" where
  "toISOString t =
    (let ms = t mod DAY_MS
     in case civil_from_days (t div DAY_MS) of (y, m, d) \<Rightarrow>
       year_text y @ ''-'' @ pad 2 m @ ''-'' @ pad 2 d @ ''T''
       @ pad 2 (ms div 3600000) @ '':'' @ pad 2 (ms div 60000 mod 60) @ '':''
       @ pad 2 (ms div 1000 mod 60) @ ''.'' @ pad 3 (ms mod 1000) @ ''Z'')"

section \<open>Parsing: \<open>new Date(text)\<close>\<close>

definition is_digit :: "char \<Rightarrow> bool" where
  "is_digit c \<longleftrightarrow> (let n = (of_char c :: nat) in 48 \<le> n \<and> n \<le> 57)"

definition digit_val :: "char \<Rightarrow> int" where
  "digit_val c = int (of_char c) - 48"

definition digits_val :: "string \<Rightarrow> int" where
  "digits_val s = foldl (\<lambda>n c. 10 * n + digit_val c) 0 s"

text \<open>\<open>n\<close> digits off the front, as a number, with what follows.\<close>

definition take_digits :: "nat \<Rightarrow> string \<Rightarrow> (int \<times> string) option" where
  "take_digits n s = (if length (take n s) = n \<and> list_all is_digit (take n s)
     then Some (digits_val (take n s), drop n s) else None)"

fun expect :: "char \<Rightarrow> string \<Rightarrow> string option" where
  "expect c (x # s) = (if x = c then Some s else None)"
| "expect c [] = None"

definition take_year :: "string \<Rightarrow> (int \<times> string) option" where
  "take_year s = (case s of
      CHR ''+'' # r \<Rightarrow> take_digits 6 r
    | CHR ''-'' # r \<Rightarrow> map_option (\<lambda>(y, r'). (- y, r')) (take_digits 6 r)
    | _ \<Rightarrow> take_digits 4 s)"

text \<open>Seconds and their fraction are optional; of the fraction the first three digits count.\<close>

definition take_fraction :: "string \<Rightarrow> (int \<times> string) option" where
  "take_fraction s = (case s of
      CHR ''.'' # r \<Rightarrow> (let ds = takeWhile is_digit r in
        if ds = [] then None
        else Some (digits_val (take 3 (ds @ ''00'')), dropWhile is_digit r))
    | _ \<Rightarrow> Some (0, s))"

definition take_seconds :: "string \<Rightarrow> (int \<times> int \<times> string) option" where
  "take_seconds s = (case s of
      CHR '':'' # r \<Rightarrow> do { (sec, r1) \<leftarrow> take_digits 2 r; (ms, r2) \<leftarrow> take_fraction r1; Some (sec, ms, r2) }
    | _ \<Rightarrow> Some (0, 0, s))"

text \<open>The zone: \<open>Z\<close>, or a signed hour and minute, as minutes east of UTC; nothing may follow.\<close>

definition take_zone :: "string \<Rightarrow> int option" where
  "take_zone s = (case s of
      [] \<Rightarrow> None
    | c # r \<Rightarrow>
        if c = CHR ''Z'' then (if r = [] then Some 0 else None)
        else if c = CHR ''+'' \<or> c = CHR ''-'' then do {
          (h, r1) \<leftarrow> take_digits 2 r; r2 \<leftarrow> expect (CHR '':'') r1; (m, r3) \<leftarrow> take_digits 2 r2;
          if r3 = [] \<and> h \<le> 23 \<and> m \<le> 59 then Some ((if c = CHR ''-'' then -1 else 1) * (60 * h + m)) else None }
        else None)"

definition date_parse :: "string \<Rightarrow> instant option" where
  "date_parse s = do {
     (y, s1) \<leftarrow> take_year s; s2 \<leftarrow> expect (CHR ''-'') s1;
     (mo, s3) \<leftarrow> take_digits 2 s2; s4 \<leftarrow> expect (CHR ''-'') s3;
     (d, s5) \<leftarrow> take_digits 2 s4; s6 \<leftarrow> expect (CHR ''T'') s5;
     (h, s7) \<leftarrow> take_digits 2 s6; s8 \<leftarrow> expect (CHR '':'') s7;
     (mi, s9) \<leftarrow> take_digits 2 s8; (sec, ms, s10) \<leftarrow> take_seconds s9;
     off \<leftarrow> take_zone s10;
     if 1 \<le> mo \<and> mo \<le> 12 \<and> 1 \<le> d \<and> d \<le> 31 \<and> mi \<le> 59 \<and> sec \<le> 59
        \<and> (h \<le> 23 \<or> h = 24 \<and> mi = 0 \<and> sec = 0 \<and> ms = 0)
     then Some ((days_from_civil y mo 1 + d - 1) * DAY_MS
            + h * 3600000 + mi * 60000 + sec * 1000 + ms - off * 60000)
     else None }"

section \<open>Different instants print differently\<close>

lemma digit_val_digit_char [simp]: "digit_val (digit_char d) = int (d mod 10)"
  by (simp add: digit_val_def of_char_digit)

lemma digits_val_snoc: "digits_val (s @ [c]) = 10 * digits_val s + digit_val c"
  by (simp add: digits_val_def)

lemma digits_val_show_nat [simp]: "digits_val (show_nat n) = int n"
proof (induction n rule: show_nat.induct)
  case (1 n)
  show ?case
  proof (cases "n < 10")
    case True
    then show ?thesis by (simp add: show_nat.simps [of n] digits_val_def)
  next
    case False
    then have "digits_val (show_nat n) = 10 * int (n div 10) + int (n mod 10)"
      using "1.IH" by (simp add: show_nat.simps [of n] digits_val_snoc)
    also have "\<dots> = int n" using mult_div_mod_eq [of 10 n] by linarith
    finally show ?thesis .
  qed
qed

lemma digits_val_zeros: "digits_val (replicate k CHR ''0'' @ s) = digits_val s"
proof -
  have "digit_val (CHR ''0'') = 0" by code_simp
  then have "foldl (\<lambda>n c. 10 * n + digit_val c) 0 (replicate k CHR ''0'') = 0" by (induction k) simp_all
  then show ?thesis by (simp add: digits_val_def)
qed

lemma digits_val_pad [simp]: "0 \<le> i \<Longrightarrow> digits_val (pad n i) = i"
  by (simp add: pad_def Let_def digits_val_zeros)

lemma pad_inj: "pad n i = pad n j \<Longrightarrow> 0 \<le> i \<Longrightarrow> 0 \<le> j \<Longrightarrow> i = j"
  by (metis digits_val_pad)

lemma length_show_nat: "0 < n \<Longrightarrow> k < 10 ^ n \<Longrightarrow> length (show_nat k) \<le> n"
proof (induction n arbitrary: k)
  case 0
  then show ?case by simp
next
  case (Suc n)
  show ?case
  proof (cases "k < 10")
    case True
    then show ?thesis by (simp add: show_nat.simps [of k])
  next
    case False
    then have "0 < n" using Suc.prems(2) by (cases n) auto
    moreover have "k div 10 < 10 ^ n" using Suc.prems(2) by (simp add: div_less_iff_less_mult mult.commute)
    ultimately show ?thesis using Suc.IH False by (simp add: show_nat.simps [of k])
  qed
qed

lemma length_pad: "0 < n \<Longrightarrow> 0 \<le> i \<Longrightarrow> i < 10 ^ n \<Longrightarrow> length (pad n i) = n"
proof -
  assume "0 < n" "0 \<le> i" "i < 10 ^ n"
  then have "nat i < 10 ^ n" by (simp add: nat_less_iff)
  then show ?thesis using length_show_nat [OF \<open>0 < n\<close>, of "nat i"] by (simp add: pad_def Let_def)
qed

lemma length_pad2 [simp]: "0 \<le> i \<Longrightarrow> i < 100 \<Longrightarrow> length (pad 2 i) = 2"
  by (rule length_pad) auto

lemma length_pad3 [simp]: "0 \<le> i \<Longrightarrow> i < 1000 \<Longrightarrow> length (pad 3 i) = 3"
  by (rule length_pad) auto

lemma pad_digits: "c \<in> set (pad n i) \<Longrightarrow> \<exists>d. c = digit_char d"
proof -
  assume "c \<in> set (pad n i)"
  then have "c = CHR ''0'' \<or> c \<in> set (show_nat (nat i))" by (auto simp: pad_def Let_def)
  moreover have "digit_char 0 = CHR ''0''" by code_simp
  ultimately show ?thesis using show_nat_digits by metis
qed

lemma pad_not_Nil [simp]: "pad n i \<noteq> []"
  by (simp add: pad_def Let_def)

lemma year_text_inj: "year_text y = year_text y' \<Longrightarrow> y = y'"
proof -
  have sign: "c # s \<noteq> pad 4 i" if "c = CHR ''-'' \<or> c = CHR ''+''" for c s i
  proof
    assume "c # s = pad 4 i"
    then have "c \<in> set (pad 4 i)" by (metis list.set_intros(1))
    then obtain d where "c = digit_char d" using pad_digits by blast
    then have "48 \<le> (of_char c :: nat)" using digit_char_range by simp
    moreover have "of_char (CHR ''-'') = (45 :: nat)" "of_char (CHR ''+'') = (43 :: nat)" by code_simp+
    ultimately show False using that by auto
  qed
  assume "year_text y = year_text y'"
  then show ?thesis
    by (auto simp: year_text_def sign sign [symmetric] split: if_splits dest!: pad_inj)
qed

lemma fields_split:
  assumes "''-'' @ m @ ''-'' @ d @ ''T'' @ h @ '':'' @ mi @ '':'' @ sc @ ''.'' @ ms @ ''Z''
         = ''-'' @ m' @ ''-'' @ d' @ ''T'' @ h' @ '':'' @ mi' @ '':'' @ sc' @ ''.'' @ ms' @ ''Z''"
    and "length m = length m'" "length d = length d'" "length h = length h'"
    "length mi = length mi'" "length sc = length sc'" "length ms = length ms'"
  shows "m = m' \<and> d = d' \<and> h = h' \<and> mi = mi' \<and> sc = sc' \<and> ms = ms'"
  using assms by simp

text \<open>The part after the year always has the same length, and each field a fixed width.\<close>

lemma toISOString_inj: "toISOString s = toISOString t \<Longrightarrow> s = t"
proof -
  assume eq: "toISOString s = toISOString t"
  obtain y m d where c: "civil_from_days (s div DAY_MS) = (y, m, d)" by (cases "civil_from_days (s div DAY_MS)") auto
  obtain y' m' d' where c': "civil_from_days (t div DAY_MS) = (y', m', d')" by (cases "civil_from_days (t div DAY_MS)") auto
  note b = civil_from_days_bounds [OF c] civil_from_days_bounds [OF c']
  define a where "a = s mod DAY_MS"
  define a' where "a' = t mod DAY_MS"
  have a: "0 \<le> a" "a < 86400000" "0 \<le> a'" "a' < 86400000" by (simp_all add: a_def a'_def DAY_MS_def)
  have fields: "0 \<le> x div 3600000 \<and> x div 3600000 < 100 \<and> 0 \<le> x div 60000 mod 60 \<and> x div 60000 mod 60 < 100
      \<and> 0 \<le> x div 1000 mod 60 \<and> x div 1000 mod 60 < 100 \<and> 0 \<le> x mod 1000 \<and> x mod 1000 < 1000"
    if "0 \<le> x" "x < 86400000" for x :: int
  proof (intro conjI)
    have m60: "n mod 60 < 100" for n :: int using pos_mod_bound [of 60 n] by linarith
    show "x div 60000 mod 60 < 100" "x div 1000 mod 60 < 100" by (rule m60)+
    show "x div 3600000 < 100" using that by linarith
  qed (use that in simp_all)
  note w = fields [OF a(1,2)] fields [OF a(3,4)]
  have md: "0 \<le> m \<and> m < 100" "0 \<le> d \<and> d < 100" "0 \<le> m' \<and> m' < 100" "0 \<le> d' \<and> d' < 100"
    using b by simp_all
  have p2: "length (pad 2 x) = 2" if "0 \<le> x \<and> x < 100" for x using that by simp
  have p3: "length (pad 3 x) = 3" if "0 \<le> x \<and> x < 1000" for x using that by simp
  have Lmd: "length (pad 2 m) = 2" "length (pad 2 d) = 2" "length (pad 2 m') = 2" "length (pad 2 d') = 2"
    by (rule p2, rule md)+
  have La: "length (pad 2 (x div 3600000)) = 2 \<and> length (pad 2 (x div 60000 mod 60)) = 2
      \<and> length (pad 2 (x div 1000 mod 60)) = 2 \<and> length (pad 3 (x mod 1000)) = 3"
    if "0 \<le> x" "x < 86400000" for x :: int
    using fields [OF that] by (intro conjI p2 p3) blast+
  have L2: "length (pad 2 (a div 3600000)) = 2" "length (pad 2 (a div 60000 mod 60)) = 2"
    "length (pad 2 (a div 1000 mod 60)) = 2" "length (pad 3 (a mod 1000)) = 3"
    "length (pad 2 (a' div 3600000)) = 2" "length (pad 2 (a' div 60000 mod 60)) = 2"
    "length (pad 2 (a' div 1000 mod 60)) = 2" "length (pad 3 (a' mod 1000)) = 3"
    using La [OF a(1,2)] La [OF a(3,4)] by blast+
  note L = Lmd L2
  have eqs: "year_text y @ (''-'' @ pad 2 m @ ''-'' @ pad 2 d @ ''T'' @ pad 2 (a div 3600000) @ '':'' @
        pad 2 (a div 60000 mod 60) @ '':'' @ pad 2 (a div 1000 mod 60) @ ''.'' @ pad 3 (a mod 1000) @ ''Z'')
      = year_text y' @ (''-'' @ pad 2 m' @ ''-'' @ pad 2 d' @ ''T'' @ pad 2 (a' div 3600000) @ '':'' @
        pad 2 (a' div 60000 mod 60) @ '':'' @ pad 2 (a' div 1000 mod 60) @ ''.'' @ pad 3 (a' mod 1000) @ ''Z'')"
    (is "_ @ ?u = _ @ ?v")
    using eq by (simp only: toISOString_def Let_def c c' a_def a'_def prod.case)
  have "length ?u = length ?v" by (simp only: length_append L)
  with eqs have split: "year_text y = year_text y' \<and> ?u = ?v"
    using append_eq_append_conv [of "year_text y" "year_text y'" ?u ?v] by blast
  then have yt: "year_text y = year_text y'" and uv: "?u = ?v" by (rule conjunct1, rule conjunct2)
  have rest: "pad 2 m = pad 2 m'" "pad 2 d = pad 2 d'"
      "pad 2 (a div 3600000) = pad 2 (a' div 3600000)" "pad 2 (a div 60000 mod 60) = pad 2 (a' div 60000 mod 60)"
      "pad 2 (a div 1000 mod 60) = pad 2 (a' div 1000 mod 60)" "pad 3 (a mod 1000) = pad 3 (a' mod 1000)"
    using fields_split [OF uv, unfolded L, OF refl refl refl refl refl refl] by blast+
  from yt have y: "y = y'" by (rule year_text_inj)
  have f: "m = m'" "d = d'" "a div 3600000 = a' div 3600000"
      "a div 60000 mod 60 = a' div 60000 mod 60" "a div 1000 mod 60 = a' div 1000 mod 60" "a mod 1000 = a' mod 1000"
    using rest [THEN pad_inj] md w by blast+
  have "s div DAY_MS = t div DAY_MS"
    using days_from_civil_from_days [OF c] days_from_civil_from_days [OF c'] unfolding y f(1,2) by (rule trans [OF sym])
  moreover have "a = a'"
  proof -
    have nest: "x div 3600000 = (x div 60000) div 60" "x div 60000 = (x div 1000) div 60" for x :: int
      using zdiv_zmult2_eq [of 60 x 60000] zdiv_zmult2_eq [of 60 x 1000] by simp_all
    have eq: "p div k = q div k \<Longrightarrow> p mod k = q mod k \<Longrightarrow> p = q" for p q k :: int
      by (metis mult_div_mod_eq)
    have "a div 60000 = a' div 60000" by (rule eq [OF f(3) [unfolded nest(1)] f(4)])
    then have "a div 1000 = a' div 1000" by (intro eq [OF _ f(5)]) (simp only: nest(2))
    then show ?thesis by (rule eq [OF _ f(6)])
  qed
  ultimately show "s = t" unfolding a_def a'_def by (metis mult_div_mod_eq)
qed

end
