(* ===== verification/CoreReservation.thy ===== *)
theory CoreReservation
  imports CoreErrors JsDate
begin

text \<open>
  \<open>packages/core/src/reservation.ts\<close> and \<open>units.ts\<close>: the statuses and the state table, the hold
  request and its canonical form, receipts and outcomes, and the sorted unit ids that every lock
  and every insert uses.
\<close>

section \<open>Statuses and transitions\<close>

datatype ReservationStatus = Held | Confirmed | Seated | Completed | Cancelled | Expired

definition STATUSES :: "ReservationStatus list" where
  "STATUSES = [Held, Confirmed, Seated, Completed, Cancelled, Expired]"

fun status_text :: "ReservationStatus \<Rightarrow> string" where
  "status_text Held = ''held''"
| "status_text Confirmed = ''confirmed''"
| "status_text Seated = ''seated''"
| "status_text Completed = ''completed''"
| "status_text Cancelled = ''cancelled''"
| "status_text Expired = ''expired''"

fun TRANSITIONS :: "ReservationStatus \<Rightarrow> ReservationStatus list" where
  "TRANSITIONS Held = [Confirmed, Cancelled, Expired]"
| "TRANSITIONS Confirmed = [Seated, Cancelled]"
| "TRANSITIONS Seated = [Completed, Cancelled]"
| "TRANSITIONS Completed = []"
| "TRANSITIONS Cancelled = []"
| "TRANSITIONS Expired = []"

definition canTransition :: "ReservationStatus \<Rightarrow> ReservationStatus \<Rightarrow> bool" where
  "canTransition from to \<longleftrightarrow> to \<in> set (TRANSITIONS from)"

definition isTerminal :: "ReservationStatus \<Rightarrow> bool" where
  "isTerminal status \<longleftrightarrow> length (TRANSITIONS status) = 0"

lemma status_text_inj: "status_text a = status_text b \<longleftrightarrow> a = b"
  by (cases a; cases b) auto

lemma set_STATUSES: "set STATUSES = UNIV"
  using ReservationStatus.exhaust by (auto simp: STATUSES_def)

lemma canTransition_simps [simp]:
  "canTransition Held s \<longleftrightarrow> s = Confirmed \<or> s = Cancelled \<or> s = Expired"
  "canTransition Confirmed s \<longleftrightarrow> s = Seated \<or> s = Cancelled"
  "canTransition Seated s \<longleftrightarrow> s = Completed \<or> s = Cancelled"
  "\<not> canTransition Completed s" "\<not> canTransition Cancelled s" "\<not> canTransition Expired s"
  by (auto simp: canTransition_def)

lemma isTerminal_iff: "isTerminal s \<longleftrightarrow> (\<forall>t. \<not> canTransition s t)"
  by (cases s) (auto simp: isTerminal_def)

text \<open>How far a status is along its life; every transition advances it.\<close>

fun status_rank :: "ReservationStatus \<Rightarrow> nat" where
  "status_rank Held = 0"
| "status_rank Confirmed = 1"
| "status_rank Seated = 2"
| "status_rank Completed = 3"
| "status_rank Cancelled = 3"
| "status_rank Expired = 3"

lemma canTransition_rank: "canTransition a b \<Longrightarrow> status_rank a < status_rank b"
  by (cases a) auto

section \<open>Assignments, requests, outcomes\<close>

datatype assignment_kind = Unit | Combo

fun kind_text :: "assignment_kind \<Rightarrow> string" where
  "kind_text Unit = ''unit''"
| "kind_text Combo = ''combo''"

lemma kind_text_inj: "kind_text a = kind_text b \<longleftrightarrow> a = b"
  by (cases a; cases b) auto

record Assignment =
  a_kind :: assignment_kind
  a_id :: string

record HoldInput =
  hi_venueId :: string
  hi_actor :: string
  hi_traceId :: string
  hi_idempotencyKey :: string
  hi_partySize :: int
  hi_startsAt :: string
  hi_durationMinutes :: int
  hi_assignment :: Assignment
  hi_externalRef :: "string option"
  hi_enforceSchedule :: bool

record Receipt =
  rc_reservationId :: string
  rc_status :: ReservationStatus
  rc_version :: int
  rc_auditId :: nat
  rc_traceId :: string

text \<open>The tagged union \<open>HoldOutcome\<close>; \<open>replayed\<close> is its last field in both cases.\<close>

datatype HoldOutcome =
    HoldOk (ho_receipt: Receipt) (ho_holdExpiresAt: string) (ho_replayed: bool)
  | HoldRefused (ho_code: DastarErrorCode) (ho_message: string) (ho_replayed: bool)

section \<open>The canonical form of a hold request\<close>

text \<open>\<open>JSON.stringify\<close> of a string: quotes, backslashes and control characters are escaped.\<close>

definition hex_char :: "nat \<Rightarrow> char" where
  "hex_char n = (if n < 10 then char_of (48 + n) else char_of (87 + n))"

definition json_escape :: "char \<Rightarrow> string" where
  "json_escape c = (let n = (of_char c :: nat) in
     if c = CHR 0x22 then [CHR 0x5C, CHR 0x22]
     else if c = CHR 0x5C then [CHR 0x5C, CHR 0x5C]
     else if n = 8 then [CHR 0x5C, CHR ''b'']
     else if n = 9 then [CHR 0x5C, CHR ''t'']
     else if n = 10 then [CHR 0x5C, CHR ''n'']
     else if n = 12 then [CHR 0x5C, CHR ''f'']
     else if n = 13 then [CHR 0x5C, CHR ''r'']
     else if n < 32 then [CHR 0x5C, CHR ''u'', CHR ''0'', CHR ''0'', hex_char (n div 16), hex_char (n mod 16)]
     else [c])"

definition json_string :: "string \<Rightarrow> string" where
  "json_string s = CHR 0x22 # concat (map json_escape s) @ [CHR 0x22]"

definition json_field :: "string \<Rightarrow> string \<Rightarrow> string" where
  "json_field k v = json_string k @ '':'' @ v"

fun json_commas :: "string list \<Rightarrow> string" where
  "json_commas [] = []"
| "json_commas [f] = f"
| "json_commas (f # fs) = f @ '','' @ json_commas fs"

definition json_object :: "string list \<Rightarrow> string" where
  "json_object fs = CHR ''{'' # json_commas fs @ ''}''"

text \<open>
  \<open>new Date(i.startsAt).toISOString()\<close> throws a RangeError on an invalid date, which leaves the
  function: the \<open>None\<close> of the model.
\<close>

definition canonicalHoldRequest :: "HoldInput \<Rightarrow> string option" where
  "canonicalHoldRequest i = (case date_parse (hi_startsAt i) of
      None \<Rightarrow> None
    | Some t \<Rightarrow> Some (json_object
        [json_field ''assignment'' (json_object
           [json_field ''id'' (json_string (lower (a_id (hi_assignment i)))),
            json_field ''kind'' (json_string (kind_text (a_kind (hi_assignment i))))]),
         json_field ''durationMinutes'' (show_int (hi_durationMinutes i)),
         json_field ''externalRef'' (case hi_externalRef i of None \<Rightarrow> ''null'' | Some s \<Rightarrow> json_string s),
         json_field ''partySize'' (show_int (hi_partySize i)),
         json_field ''startsAt'' (json_string (toISOString t)),
         json_field ''venueId'' (json_string (lower (hi_venueId i)))]))"

subsection \<open>Distinct requests have distinct canonical forms\<close>

lemma hex_char_inj: "hex_char m = hex_char n \<Longrightarrow> m < 16 \<Longrightarrow> n < 16 \<Longrightarrow> m = n"
proof -
  assume e: "hex_char m = hex_char n" and b: "m < 16" "n < 16"
  have v: "of_char (hex_char k) = (if k < 10 then 48 + k else 87 + k)" if "k < 16" for k
    using that by (simp add: hex_char_def of_char_of take_bit_eq_mod)
  from e have "of_char (hex_char m) = (of_char (hex_char n) :: nat)" by simp
  then show "m = n" unfolding v [OF b(1)] v [OF b(2)] using b by (simp split: if_splits)
qed

lemma json_escape_prefix:
  assumes "json_escape c @ x = json_escape d @ y"
  shows "c = d \<and> x = y"
proof -
  have hex: "m = n" if "hex_char (m div 16) = hex_char (n div 16)" "hex_char (m mod 16) = hex_char (n mod 16)"
      "m < 32" "n < 32" for m n :: nat
  proof -
    have "m div 16 = n div 16" using that by (intro hex_char_inj) simp_all
    moreover have "m mod 16 = n mod 16" using that by (intro hex_char_inj) simp_all
    ultimately show ?thesis by (metis mult_div_mod_eq)
  qed
  have ch: "c = d" if "(of_char c :: nat) = of_char d" using that by simp
  show ?thesis
    using assms by (auto simp: json_escape_def Let_def split: if_splits intro: ch dest: hex)
qed

lemma json_escape_no_quote: "json_escape c @ x \<noteq> CHR 0x22 # y"
  by (auto simp: json_escape_def Let_def)

lemma json_string_prefix:
  assumes "json_string a @ x = json_string b @ y"
  shows "a = b \<and> x = y"
proof -
  have "concat (map json_escape a) @ CHR 0x22 # x = concat (map json_escape b) @ CHR 0x22 # y"
    using assms by (simp add: json_string_def)
  then show ?thesis
  proof (induction a arbitrary: b)
    case Nil
    then show ?case by (cases b) (use json_escape_no_quote in \<open>auto dest: sym\<close>)
  next
    case (Cons c a)
    show ?case
    proof (cases b)
      case Nil
      with Cons.prems have "json_escape c @ (concat (map json_escape a) @ CHR 0x22 # x) = CHR 0x22 # y" by simp
      then show ?thesis using json_escape_no_quote by blast
    next
      case (Cons d b')
      with Cons.prems have "json_escape c @ (concat (map json_escape a) @ CHR 0x22 # x)
          = json_escape d @ (concat (map json_escape b') @ CHR 0x22 # y)" by simp
      then have "c = d" "concat (map json_escape a) @ CHR 0x22 # x = concat (map json_escape b') @ CHR 0x22 # y"
        using json_escape_prefix by blast+
      then show ?thesis using Cons.IH Cons by simp
    qed
  qed
qed

lemma upto_comma: "CHR '','' \<notin> set a \<Longrightarrow> CHR '','' \<notin> set b \<Longrightarrow> a @ CHR '','' # x = b @ CHR '','' # y \<Longrightarrow> a = b \<and> x = y"
  by (auto simp: append_eq_append_conv2 Cons_eq_append_conv append_eq_Cons_conv)

lemma show_int_no_comma: "CHR '','' \<notin> set (show_int i)"
proof
  have n: "CHR '','' \<notin> set (show_nat n)" for n
  proof
    assume "CHR '','' \<in> set (show_nat n)"
    then obtain d where "CHR '','' = digit_char d" using show_nat_digits by blast
    then have "48 \<le> (of_char (CHR '','') :: nat)" using digit_char_range by simp
    moreover have "of_char (CHR '','') = (44 :: nat)" by code_simp
    ultimately show False by simp
  qed
  assume "CHR '','' \<in> set (show_int i)"
  then show False using n by (auto simp: show_int_def split: if_splits)
qed

lemma show_int_comma: "show_int a @ CHR '','' # x = show_int b @ CHR '','' # y \<Longrightarrow> a = b \<and> x = y"
  by (metis upto_comma show_int_no_comma show_int_inj)

definition ref_text :: "string option \<Rightarrow> string" where
  "ref_text r = (case r of None \<Rightarrow> ''null'' | Some s \<Rightarrow> json_string s)"

lemma ref_text_prefix: "ref_text a @ x = ref_text b @ y \<Longrightarrow> a = b \<and> x = y"
proof -
  assume e: "ref_text a @ x = ref_text b @ y"
  have "json_string s @ u \<noteq> ''null'' @ v" "''null'' @ v \<noteq> json_string s @ u" for s u v
    by (simp_all add: json_string_def)
  with e show ?thesis
    by (cases a; cases b) (auto simp: ref_text_def dest: json_string_prefix)
qed

text \<open>
  The object's fields one after the other: the form \<open>canonicalHoldRequest\<close> prints, read left to
  right, gives back each field.
\<close>

definition canonical_text :: "string \<Rightarrow> assignment_kind \<Rightarrow> int \<Rightarrow> string option \<Rightarrow> int \<Rightarrow> instant \<Rightarrow> string \<Rightarrow> string" where
  "canonical_text i k d r p t v =
     ''{'' @ json_string ''assignment'' @ '':{'' @ json_string ''id'' @ '':'' @ json_string i
     @ '','' @ json_string ''kind'' @ '':'' @ json_string (kind_text k)
     @ ''},'' @ json_string ''durationMinutes'' @ '':'' @ show_int d
     @ '','' @ json_string ''externalRef'' @ '':'' @ ref_text r
     @ '','' @ json_string ''partySize'' @ '':'' @ show_int p
     @ '','' @ json_string ''startsAt'' @ '':'' @ json_string (toISOString t)
     @ '','' @ json_string ''venueId'' @ '':'' @ json_string v @ ''}''"

lemma canonicalHoldRequest_text:
  "canonicalHoldRequest i = map_option (\<lambda>t. canonical_text (lower (a_id (hi_assignment i)))
     (a_kind (hi_assignment i)) (hi_durationMinutes i) (hi_externalRef i) (hi_partySize i) t (lower (hi_venueId i)))
     (date_parse (hi_startsAt i))"
  by (simp add: canonicalHoldRequest_def canonical_text_def json_object_def json_field_def ref_text_def
      split: option.split)

lemma canonical_text_inj:
  assumes "canonical_text i k d r p t v = canonical_text i' k' d' r' p' t' v'"
  shows "i = i' \<and> k = k' \<and> d = d' \<and> r = r' \<and> p = p' \<and> t = t' \<and> v = v'"
proof -
  note e = assms [unfolded canonical_text_def, simplified same_append_eq append_Cons append_Nil list.inject simp_thms]
  from json_string_prefix [OF e] have i: "i = i'"
    and e2: "json_string (kind_text k) @ CHR ''}'' # CHR '','' # json_string ''durationMinutes'' @ CHR '':'' # show_int d
       @ CHR '','' # json_string ''externalRef'' @ CHR '':'' # ref_text r
       @ CHR '','' # json_string ''partySize'' @ CHR '':'' # show_int p
       @ CHR '','' # json_string ''startsAt'' @ CHR '':'' # json_string (toISOString t)
       @ CHR '','' # json_string ''venueId'' @ CHR '':'' # json_string v @ ''}''
     = json_string (kind_text k') @ CHR ''}'' # CHR '','' # json_string ''durationMinutes'' @ CHR '':'' # show_int d'
       @ CHR '','' # json_string ''externalRef'' @ CHR '':'' # ref_text r'
       @ CHR '','' # json_string ''partySize'' @ CHR '':'' # show_int p'
       @ CHR '','' # json_string ''startsAt'' @ CHR '':'' # json_string (toISOString t')
       @ CHR '','' # json_string ''venueId'' @ CHR '':'' # json_string v' @ ''}''"
    by simp_all
  from json_string_prefix [OF e2] have k: "k = k'" by (simp add: kind_text_inj)
  from json_string_prefix [OF e2] have e3: "show_int d @ CHR '','' # json_string ''externalRef'' @ CHR '':'' # ref_text r
       @ CHR '','' # json_string ''partySize'' @ CHR '':'' # show_int p
       @ CHR '','' # json_string ''startsAt'' @ CHR '':'' # json_string (toISOString t)
       @ CHR '','' # json_string ''venueId'' @ CHR '':'' # json_string v @ ''}''
     = show_int d' @ CHR '','' # json_string ''externalRef'' @ CHR '':'' # ref_text r'
       @ CHR '','' # json_string ''partySize'' @ CHR '':'' # show_int p'
       @ CHR '','' # json_string ''startsAt'' @ CHR '':'' # json_string (toISOString t')
       @ CHR '','' # json_string ''venueId'' @ CHR '':'' # json_string v' @ ''}''" by simp
  from show_int_comma [OF e3] have d: "d = d'" by simp
  from show_int_comma [OF e3] have e4: "ref_text r @ CHR '','' # json_string ''partySize'' @ CHR '':'' # show_int p
       @ CHR '','' # json_string ''startsAt'' @ CHR '':'' # json_string (toISOString t)
       @ CHR '','' # json_string ''venueId'' @ CHR '':'' # json_string v @ ''}''
     = ref_text r' @ CHR '','' # json_string ''partySize'' @ CHR '':'' # show_int p'
       @ CHR '','' # json_string ''startsAt'' @ CHR '':'' # json_string (toISOString t')
       @ CHR '','' # json_string ''venueId'' @ CHR '':'' # json_string v' @ ''}''" by simp
  from ref_text_prefix [OF e4] have r: "r = r'" by simp
  from ref_text_prefix [OF e4] have e5: "show_int p @ CHR '','' # json_string ''startsAt'' @ CHR '':'' # json_string (toISOString t)
       @ CHR '','' # json_string ''venueId'' @ CHR '':'' # json_string v @ ''}''
     = show_int p' @ CHR '','' # json_string ''startsAt'' @ CHR '':'' # json_string (toISOString t')
       @ CHR '','' # json_string ''venueId'' @ CHR '':'' # json_string v' @ ''}''" by simp
  from show_int_comma [OF e5] have p: "p = p'" by simp
  from show_int_comma [OF e5] have e6: "json_string (toISOString t) @ CHR '','' # json_string ''venueId'' @ CHR '':'' # json_string v @ ''}''
     = json_string (toISOString t') @ CHR '','' # json_string ''venueId'' @ CHR '':'' # json_string v' @ ''}''" by simp
  from json_string_prefix [OF e6] have t: "t = t'" by (auto dest: toISOString_inj)
  from json_string_prefix [OF e6] have e7: "json_string v @ ''}'' = json_string v' @ ''}''" by simp
  from json_string_prefix [OF e7] i k d r p t show ?thesis by simp
qed

section \<open>Unit ids in lock order\<close>

definition sortUnitIds :: "string list \<Rightarrow> string list" where
  "sortUnitIds ids = sort (remdups (map lower ids))"

lemma set_sortUnitIds [simp]: "set (sortUnitIds ids) = lower ` set ids"
  by (simp add: sortUnitIds_def)

lemma sorted_sortUnitIds [simp]: "sorted (sortUnitIds ids)"
  by (simp add: sortUnitIds_def)

lemma distinct_sortUnitIds [simp]: "distinct (sortUnitIds ids)"
  by (simp add: sortUnitIds_def)

lemma sortUnitIds_idem [simp]: "sortUnitIds (sortUnitIds ids) = sortUnitIds ids"
  by (rule sorted_distinct_set_unique) (auto simp: image_image)

lemma sortUnitIds_Nil [simp]: "sortUnitIds ids = [] \<longleftrightarrow> ids = []"
  by (metis set_sortUnitIds image_is_empty set_empty)

section \<open>Properties\<close>

text \<open>
  C20: two hold requests have the same canonical form, the text their idempotency hash is taken over,
  exactly when they book the same thing: the same ids however cased, the same start however spelled, and
  the same party, duration, kind and reference. No other field (actor, trace, key, policy) enters it.
\<close>

theorem canonicalHoldRequest_exact:
  assumes "date_parse (hi_startsAt i) \<noteq> None" and "date_parse (hi_startsAt j) \<noteq> None"
  shows "canonicalHoldRequest i = canonicalHoldRequest j \<longleftrightarrow>
      date_parse (hi_startsAt i) = date_parse (hi_startsAt j) \<and> lower (hi_venueId i) = lower (hi_venueId j)
    \<and> a_kind (hi_assignment i) = a_kind (hi_assignment j) \<and> lower (a_id (hi_assignment i)) = lower (a_id (hi_assignment j))
    \<and> hi_partySize i = hi_partySize j \<and> hi_durationMinutes i = hi_durationMinutes j \<and> hi_externalRef i = hi_externalRef j"
  using assms by (auto simp: canonicalHoldRequest_text dest: canonical_text_inj)

theorem canonicalHoldRequest_exact_witness:
  "\<exists>i j. hi_startsAt i \<noteq> hi_startsAt j \<and> canonicalHoldRequest i = canonicalHoldRequest j"
proof -
  let ?i = "\<lparr>hi_venueId = ''AB'', hi_actor = ''x'', hi_traceId = ''t'', hi_idempotencyKey = ''k'', hi_partySize = 2,
     hi_startsAt = ''2030-01-01T18:00:00Z'', hi_durationMinutes = 90, hi_assignment = \<lparr>a_kind = Unit, a_id = ''a''\<rparr>,
     hi_externalRef = None, hi_enforceSchedule = False\<rparr>"
  let ?j = "?i\<lparr>hi_venueId := ''ab'', hi_startsAt := ''2030-01-01T19:00:00.000+01:00''\<rparr>"
  have d: "date_parse ''2030-01-01T18:00:00Z'' = Some 1893520800000" "date_parse ''2030-01-01T19:00:00.000+01:00'' = Some 1893520800000"
    by code_simp+
  have l: "lower ''AB'' = lower ''ab''" by code_simp
  have "canonicalHoldRequest ?i = canonicalHoldRequest ?j"
    by (subst canonicalHoldRequest_exact) (simp_all add: d l)
  then show ?thesis by (intro exI [of _ ?i] exI [of _ ?j]) simp
qed

text \<open>
  The state table is a terminating machine: every transition it allows advances the reservation along
  held, confirmed, seated, end, so a reservation passes through at most three transitions, and the
  terminal statuses are exactly completed, cancelled and expired.
\<close>

theorem TRANSITIONS_terminate:
  "(canTransition a b \<longrightarrow> status_rank a < status_rank b \<and> status_rank b \<le> 3)
   \<and> (isTerminal a \<longleftrightarrow> status_rank a = 3) \<and> (isTerminal a \<longleftrightarrow> a \<in> {Completed, Cancelled, Expired})"
  by (cases a; cases b) (simp_all add: isTerminal_def)

theorem TRANSITIONS_terminate_witness: "status_rank Held < status_rank Confirmed \<and> \<not> isTerminal Held"
  using TRANSITIONS_terminate [of Held Confirmed] by simp

end
