(* ===== verification/CoreAvailability.thy ===== *)
theory CoreAvailability
  imports CoreReservation
begin

text \<open>
  \<open>packages/core/src/availability.ts\<close>: the slots a party can book. A \<open>Date\<close> is its time value in
  milliseconds. The map \<open>durationBySize\<close> is the list of its entries; \<open>Number(key)\<close> is exact on
  keys of decimal digits, which the column's CHECK constraint admits only. A ranking strategy is a
  record with a function, and the locale \<open>ranking_strategy\<close> states what \<open>computeAvailability\<close>
  relies on; \<open>restaurantHost\<close> interprets it.
\<close>

section \<open>Data\<close>

record ServicePeriod =
  sp_scheduleId :: string
  sp_startsAt :: instant
  sp_endsAt :: instant
  sp_durationBySize :: "(string \<times> int) list"
  sp_gapMinutes :: int

record UnitSnapshot =
  us_id :: string
  us_label :: string
  us_capacityMin :: int
  us_capacityMax :: int
  us_active :: bool

record ComboSnapshot =
  cs_id :: string
  cs_label :: string
  cs_unitIds :: "string list"
  cs_capacityMin :: int
  cs_capacityMax :: int
  cs_active :: bool

record Busy =
  busy_unitId :: string
  busy_startsAt :: instant
  busy_endsAt :: instant

record Closure =
  cl_startsAt :: instant
  cl_endsAt :: instant

record Slot =
  slot_startsAt :: string
  slot_durationMinutes :: int
  slot_assignment :: Assignment

record Candidate =
  cand_assignment :: Assignment
  cand_label :: string
  cand_capacityMax :: int
  cand_unitIds :: "string list"

record RankingContext =
  paddedFrom :: instant
  paddedTo :: instant
  isFree :: "string list \<Rightarrow> instant \<Rightarrow> instant \<Rightarrow> bool"
  ctx_combos :: "ComboSnapshot list"

record RankingStrategy =
  rs_name :: string
  rs_choose :: "Candidate list \<Rightarrow> RankingContext \<Rightarrow> Candidate option"

definition MINUTE :: int where "MINUTE = 60000"

lemma MINUTE_pos [simp]: "0 < MINUTE"
  by (simp add: MINUTE_def)

section \<open>Durations and the slot grid\<close>

fun digits_value :: "int \<Rightarrow> string \<Rightarrow> int option" where
  "digits_value acc [] = Some acc"
| "digits_value acc (c # s) = (let n = (of_char c :: int) in
     if 48 \<le> n \<and> n \<le> 57 then digits_value (acc * 10 + (n - 48)) s else None)"

text \<open>\<open>Number(key)\<close> where it is an integer written in decimal digits; the empty key is 0.\<close>

definition number_of_key :: "string \<Rightarrow> int option" where
  "number_of_key key = digits_value 0 key"

fun durationFor_loop :: "int \<Rightarrow> (string \<times> int) list \<Rightarrow> int option \<Rightarrow> int option \<Rightarrow> int option" where
  "durationFor_loop partySize [] best bestSize = best"
| "durationFor_loop partySize ((key, minutes) # es) best bestSize =
     (case number_of_key key of
        None \<Rightarrow> durationFor_loop partySize es best bestSize
      | Some size' \<Rightarrow>
          if partySize \<le> size' \<and> (case bestSize of None \<Rightarrow> True | Some b \<Rightarrow> size' < b)
          then durationFor_loop partySize es (Some minutes) (Some size')
          else durationFor_loop partySize es best bestSize)"

definition durationFor :: "(string \<times> int) list \<Rightarrow> int \<Rightarrow> int option" where
  "durationFor durationBySize partySize = durationFor_loop partySize durationBySize None None"

function slot_loop :: "int \<Rightarrow> instant \<Rightarrow> instant \<Rightarrow> instant list" where
  "slot_loop step t stop = (if 0 < step \<and> t \<le> stop then t # slot_loop step (t + step) stop else [])"
  by auto
termination by (relation "measure (\<lambda>(step, t, stop). nat (stop - t + 1))") auto

declare slot_loop.simps [simp del]

definition slotStarts :: "instant \<Rightarrow> instant \<Rightarrow> int \<Rightarrow> int \<Rightarrow> string + instant list" where
  "slotStarts startsAt endsAt slotMinutes durationMinutes =
     (if \<not> 0 < slotMinutes then Inl ''slotMinutes must be a positive number of minutes''
      else Inr (slot_loop (slotMinutes * MINUTE) startsAt (endsAt - durationMinutes * MINUTE)))"

section \<open>Candidates\<close>

definition usableCombos :: "UnitSnapshot list \<Rightarrow> ComboSnapshot list \<Rightarrow> ComboSnapshot list" where
  "usableCombos units combos = (let active = set (map us_id (filter us_active units)) in
     filter (\<lambda>c. cs_active c \<and> list_all (\<lambda>u. u \<in> active) (cs_unitIds c)) combos)"

definition unit_candidate :: "UnitSnapshot \<Rightarrow> Candidate" where
  "unit_candidate u = \<lparr>cand_assignment = \<lparr>a_kind = Unit, a_id = us_id u\<rparr>, cand_label = us_label u,
     cand_capacityMax = us_capacityMax u, cand_unitIds = [us_id u]\<rparr>"

definition combo_candidate :: "ComboSnapshot \<Rightarrow> Candidate" where
  "combo_candidate c = \<lparr>cand_assignment = \<lparr>a_kind = Combo, a_id = cs_id c\<rparr>, cand_label = cs_label c,
     cand_capacityMax = cs_capacityMax c, cand_unitIds = cs_unitIds c\<rparr>"

definition fittingCandidates :: "UnitSnapshot list \<Rightarrow> ComboSnapshot list \<Rightarrow> int \<Rightarrow> Candidate list" where
  "fittingCandidates units combos partySize =
     map unit_candidate (filter (\<lambda>u. us_active u \<and> us_capacityMin u \<le> partySize \<and> partySize \<le> us_capacityMax u) units)
     @ map combo_candidate (filter (\<lambda>c. cs_capacityMin c \<le> partySize \<and> partySize \<le> cs_capacityMax c)
         (usableCombos units combos))"

section \<open>The ranking\<close>

record RankKey =
  rk_capacity :: int
  rk_kind :: int
  rk_broken :: int
  rk_label :: string
  rk_id :: string

definition compareKeys :: "RankKey \<Rightarrow> RankKey \<Rightarrow> int" where
  "compareKeys a b = (
     if rk_capacity a - rk_capacity b \<noteq> 0 then rk_capacity a - rk_capacity b
     else if rk_kind a - rk_kind b \<noteq> 0 then rk_kind a - rk_kind b
     else if rk_broken a - rk_broken b \<noteq> 0 then rk_broken a - rk_broken b
     else if rk_label a \<noteq> rk_label b then (if rk_label a < rk_label b then -1 else 1)
     else if rk_id a \<noteq> rk_id b then (if rk_id a < rk_id b then -1 else 1)
     else 0)"

definition broken_combos :: "RankingContext \<Rightarrow> Candidate \<Rightarrow> int" where
  "broken_combos ctx c = (case a_kind (cand_assignment c) of
      Combo \<Rightarrow> 0
    | Unit \<Rightarrow> (case cand_unitIds c of
          [] \<Rightarrow> 0
        | u # _ \<Rightarrow> int (length (filter (\<lambda>k. u \<in> set (cs_unitIds k)
            \<and> isFree ctx (cs_unitIds k) (paddedFrom ctx) (paddedTo ctx)) (ctx_combos ctx)))))"

definition rank_key :: "RankingContext \<Rightarrow> Candidate \<Rightarrow> RankKey" where
  "rank_key ctx c = \<lparr>rk_capacity = cand_capacityMax c,
     rk_kind = (if a_kind (cand_assignment c) = Unit then 0 else 1),
     rk_broken = broken_combos ctx c, rk_label = cand_label c, rk_id = a_id (cand_assignment c)\<rparr>"

fun host_loop :: "RankingContext \<Rightarrow> Candidate list \<Rightarrow> (Candidate \<times> RankKey) option \<Rightarrow> Candidate option" where
  "host_loop ctx [] best = map_option fst best"
| "host_loop ctx (c # cs) best =
     (let key = rank_key ctx c in
      case best of
        None \<Rightarrow> host_loop ctx cs (Some (c, key))
      | Some (b, bestKey) \<Rightarrow>
          if compareKeys key bestKey < 0 then host_loop ctx cs (Some (c, key)) else host_loop ctx cs best)"

definition restaurantHost :: RankingStrategy where
  "restaurantHost = \<lparr>rs_name = ''restaurantHost'', rs_choose = (\<lambda>free ctx. host_loop ctx free None)\<rparr>"

section \<open>Busy time\<close>

type_synonym Interval = "int \<times> int"

definition indexBusy :: "Busy list \<Rightarrow> string \<Rightarrow> Interval list option" where
  "indexBusy busy = map_option (sort_key fst) \<circ>
     fold (\<lambda>b m. m(busy_unitId b \<mapsto>
       (case m (busy_unitId b) of None \<Rightarrow> [] | Some l \<Rightarrow> l) @ [(busy_startsAt b, busy_endsAt b)])) busy Map.empty"

function free_search :: "Interval list \<Rightarrow> instant \<Rightarrow> nat \<Rightarrow> nat \<Rightarrow> nat" where
  "free_search l from lo hi = (if lo < hi then
     (let mid = (lo + hi) div 2 in
      if snd (l ! mid) \<le> from then free_search l from (mid + 1) hi else free_search l from lo mid)
     else lo)"
  by auto
termination by (relation "measure (\<lambda>(l, from, lo, hi). hi - lo)") (auto simp: Let_def)

declare free_search.simps [simp del]

definition unitFree :: "Interval list option \<Rightarrow> instant \<Rightarrow> instant \<Rightarrow> bool" where
  "unitFree list from to = (case list of
      None \<Rightarrow> True
    | Some l \<Rightarrow> (let lo = free_search l from 0 (length l) in lo = length l \<or> to \<le> fst (l ! lo)))"

section \<open>The computation\<close>

record AvailabilityComputation =
  ac_partySize :: int
  ac_from :: instant
  ac_to :: instant
  ac_now :: instant
  ac_slotMinutes :: int
  ac_periods :: "ServicePeriod list"
  ac_units :: "UnitSnapshot list"
  ac_combos :: "ComboSnapshot list"
  ac_closures :: "Closure list"
  ac_busy :: "Busy list"
  ac_limit :: int
  ac_ranking :: "RankingStrategy option"

type_synonym starts = "(instant \<times> (ServicePeriod \<times> int)) list"

definition add_start :: "AvailabilityComputation \<Rightarrow> ServicePeriod \<Rightarrow> int \<Rightarrow> instant \<Rightarrow> starts \<Rightarrow> starts" where
  "add_start i p duration t byStart =
     (if t < ac_from i \<or> ac_to i \<le> t \<or> t < ac_now i then byStart
      else if t \<in> fst ` set byStart then byStart
      else byStart @ [(t, p, duration)])"

definition add_period :: "AvailabilityComputation \<Rightarrow> ServicePeriod \<Rightarrow> starts \<Rightarrow> string + starts" where
  "add_period i p byStart = (case durationFor (sp_durationBySize p) (ac_partySize i) of
      None \<Rightarrow> Inr byStart
    | Some duration \<Rightarrow> rbind (slotStarts (sp_startsAt p) (sp_endsAt p) (ac_slotMinutes i) duration)
        (\<lambda>ts. Inr (fold (add_start i p duration) ts byStart)))"

definition ordered_periods :: "AvailabilityComputation \<Rightarrow> ServicePeriod list" where
  "ordered_periods i = sort_key (\<lambda>p. (sp_startsAt p, sp_scheduleId p)) (ac_periods i)"

definition all_free :: "AvailabilityComputation \<Rightarrow> string list \<Rightarrow> instant \<Rightarrow> instant \<Rightarrow> bool" where
  "all_free i unitIds from to = list_all (\<lambda>u. unitFree (indexBusy (ac_busy i) u) from to) unitIds"

definition closed_over :: "AvailabilityComputation \<Rightarrow> instant \<Rightarrow> instant \<Rightarrow> bool" where
  "closed_over i t end' = list_ex (\<lambda>c. cl_startsAt c < end' \<and> t < cl_endsAt c) (ac_closures i)"

definition free_candidates :: "AvailabilityComputation \<Rightarrow> instant \<Rightarrow> instant \<Rightarrow> Candidate list" where
  "free_candidates i from to = filter (\<lambda>c. all_free i (cand_unitIds c) from to)
     (fittingCandidates (ac_units i) (ac_combos i) (ac_partySize i))"

definition ranking_context :: "AvailabilityComputation \<Rightarrow> instant \<Rightarrow> instant \<Rightarrow> RankingContext" where
  "ranking_context i from to = \<lparr>paddedFrom = from, paddedTo = to, isFree = all_free i,
     ctx_combos = usableCombos (ac_units i) (ac_combos i)\<rparr>"

fun scan_starts :: "AvailabilityComputation \<Rightarrow> RankingStrategy \<Rightarrow> starts \<Rightarrow> instant list \<Rightarrow> int \<Rightarrow> Slot list
    \<Rightarrow> Slot list \<times> bool" where
  "scan_starts i ranking byStart [] examined slots = (slots, False)"
| "scan_starts i ranking byStart (t # ts) examined slots =
     (if BOUNDS_availabilityStartsExamined \<le> examined then (slots, True)
      else let (period, duration) = the (map_of byStart t);
               end' = t + duration * MINUTE;
               gap = sp_gapMinutes period * MINUTE;
               free = free_candidates i (t - gap) (end' + gap) in
        if closed_over i t end' then scan_starts i ranking byStart ts (examined + 1) slots
        else if free = [] then scan_starts i ranking byStart ts (examined + 1) slots
        else if ac_limit i \<le> int (length slots) then (slots, True)
        else case rs_choose ranking free (ranking_context i (t - gap) (end' + gap)) of
            None \<Rightarrow> scan_starts i ranking byStart ts (examined + 1) slots
          | Some chosen \<Rightarrow> scan_starts i ranking byStart ts (examined + 1)
              (slots @ [\<lparr>slot_startsAt = toISOString t, slot_durationMinutes = duration,
                         slot_assignment = cand_assignment chosen\<rparr>]))"

definition computeAvailability :: "AvailabilityComputation \<Rightarrow> string + (Slot list \<times> bool)" where
  "computeAvailability i = rbind (rfold (add_period i) (ordered_periods i) []) (\<lambda>byStart.
     Inr (scan_starts i (case ac_ranking i of None \<Rightarrow> restaurantHost | Some r \<Rightarrow> r) byStart
       (sort (map fst byStart)) 0 []))"

section \<open>Durations and the grid: lemmas\<close>

lemma durationFor_loop_Some:
  "\<exists>m s'. durationFor_loop n es (Some b) (Some s) = Some m \<and> s' \<le> s
     \<and> (s' = s \<and> m = b \<or> (\<exists>k. (k, m) \<in> set es \<and> number_of_key k = Some s' \<and> n \<le> s'))
     \<and> (\<forall>k m' x. (k, m') \<in> set es \<longrightarrow> number_of_key k = Some x \<longrightarrow> n \<le> x \<longrightarrow> s' \<le> x)"
proof (induction es arbitrary: b s)
  case Nil
  then show ?case by auto
next
  case (Cons e es)
  obtain key minutes where e: "e = (key, minutes)" by (cases e)
  show ?case
  proof (cases "\<exists>x. number_of_key key = Some x \<and> n \<le> x \<and> x < s")
    case True
    then obtain x where x: "number_of_key key = Some x" "n \<le> x" "x < s" by blast
    from Cons.IH [of minutes x] obtain m s' where
      "durationFor_loop n es (Some minutes) (Some x) = Some m" "s' \<le> x"
      "s' = x \<and> m = minutes \<or> (\<exists>k. (k, m) \<in> set es \<and> number_of_key k = Some s' \<and> n \<le> s')"
      "\<forall>k m' x. (k, m') \<in> set es \<longrightarrow> number_of_key k = Some x \<longrightarrow> n \<le> x \<longrightarrow> s' \<le> x" by blast
    then show ?thesis using x e by (intro exI [of _ m] exI [of _ s']) auto
  next
    case False
    then have step: "durationFor_loop n (e # es) (Some b) (Some s) = durationFor_loop n es (Some b) (Some s)"
      by (auto simp: e split: option.split)
    from Cons.IH [of b s] obtain m s' where
      "durationFor_loop n es (Some b) (Some s) = Some m" "s' \<le> s"
      "s' = s \<and> m = b \<or> (\<exists>k. (k, m) \<in> set es \<and> number_of_key k = Some s' \<and> n \<le> s')"
      "\<forall>k m' x. (k, m') \<in> set es \<longrightarrow> number_of_key k = Some x \<longrightarrow> n \<le> x \<longrightarrow> s' \<le> x" by blast
    then show ?thesis unfolding step using False e by (intro exI [of _ m] exI [of _ s']) auto
  qed
qed

lemma durationFor_loop_None:
  "case durationFor_loop n es None None of
     None \<Rightarrow> \<forall>k m x. (k, m) \<in> set es \<longrightarrow> number_of_key k = Some x \<longrightarrow> x < n
   | Some m \<Rightarrow> \<exists>k s. (k, m) \<in> set es \<and> number_of_key k = Some s \<and> n \<le> s
       \<and> (\<forall>k' m' x. (k', m') \<in> set es \<longrightarrow> number_of_key k' = Some x \<longrightarrow> n \<le> x \<longrightarrow> s \<le> x)"
proof (induction es)
  case Nil
  then show ?case by simp
next
  case (Cons e es)
  obtain key minutes where e: "e = (key, minutes)" by (cases e)
  show ?case
  proof (cases "\<exists>x. number_of_key key = Some x \<and> n \<le> x")
    case True
    then obtain x where x: "number_of_key key = Some x" "n \<le> x" by blast
    then have step: "durationFor_loop n (e # es) None None = durationFor_loop n es (Some minutes) (Some x)"
      by (simp add: e)
    from durationFor_loop_Some [of n es minutes x] obtain m s' where
      m: "durationFor_loop n es (Some minutes) (Some x) = Some m" and s: "s' \<le> x"
      and w: "s' = x \<and> m = minutes \<or> (\<exists>k. (k, m) \<in> set es \<and> number_of_key k = Some s' \<and> n \<le> s')"
      and l: "\<forall>k m' x. (k, m') \<in> set es \<longrightarrow> number_of_key k = Some x \<longrightarrow> n \<le> x \<longrightarrow> s' \<le> x" by blast
    from w obtain k where k: "(k, m) \<in> set (e # es)" "number_of_key k = Some s'" "n \<le> s'"
      using x e by auto
    have l': "\<forall>k m' y. (k, m') \<in> set (e # es) \<longrightarrow> number_of_key k = Some y \<longrightarrow> n \<le> y \<longrightarrow> s' \<le> y"
      using l s x e by auto
    show ?thesis unfolding step m using k l' by auto
  next
    case False
    then have step: "durationFor_loop n (e # es) None None = durationFor_loop n es None None"
      by (auto simp: e split: option.split)
    show ?thesis
    proof (cases "durationFor_loop n es None None")
      case None
      with Cons.IH False show ?thesis unfolding step by (auto simp: e not_le)
    next
      case (Some m)
      with Cons.IH obtain k s where
        "(k, m) \<in> set es" "number_of_key k = Some s" "n \<le> s"
        "\<forall>k' m' x. (k', m') \<in> set es \<longrightarrow> number_of_key k' = Some x \<longrightarrow> n \<le> x \<longrightarrow> s \<le> x" by auto
      then show ?thesis unfolding step Some option.case using False e
        by (intro exI [of _ k] exI [of _ s]) auto
    qed
  qed
qed

lemma slot_loop_set:
  "0 < step \<Longrightarrow> set (slot_loop step t stop) = {x. \<exists>k::nat. x = t + int k * step \<and> x \<le> stop}"
proof (induction step t stop rule: slot_loop.induct)
  case (1 step t stop)
  show ?case
  proof (cases "t \<le> stop")
    case True
    have eq: "{x. \<exists>k::nat. x = t + int k * step \<and> x \<le> stop}
        = insert t {x. \<exists>k::nat. x = (t + step) + int k * step \<and> x \<le> stop}" (is "?l = ?r")
    proof
      show "?l \<subseteq> ?r"
      proof
        fix x assume "x \<in> ?l"
        then obtain k :: nat where k: "x = t + int k * step" "x \<le> stop" by blast
        show "x \<in> ?r"
        proof (cases k)
          case 0
          with k show ?thesis by simp
        next
          case (Suc j)
          with k have "x = (t + step) + int j * step" by (simp add: algebra_simps)
          with k show ?thesis by blast
        qed
      qed
      show "?r \<subseteq> ?l"
      proof
        fix x assume "x \<in> ?r"
        then consider "x = t" | k :: nat where "x = (t + step) + int k * step" "x \<le> stop" by blast
        then show "x \<in> ?l"
        proof cases
          case 1
          then show ?thesis using True by (auto intro: exI [of _ 0])
        next
          case 2
          then have "x = t + int (Suc k) * step" by (simp add: algebra_simps)
          with 2 show ?thesis by blast
        qed
      qed
    qed
    have "set (slot_loop step t stop) = insert t (set (slot_loop step (t + step) stop))"
      using True "1.prems" by (subst slot_loop.simps) simp
    then show ?thesis using 1 True eq by simp
  next
    case False
    then have "slot_loop step t stop = []" by (subst slot_loop.simps) simp
    moreover have "\<not> t + int k * step \<le> stop" for k :: nat
      using False "1.prems" by (smt (verit) mult_nonneg_nonneg of_nat_0_le_iff)
    ultimately show ?thesis by auto
  qed
qed

lemma slot_loop_sorted: "0 < step \<Longrightarrow> sorted_wrt (<) (slot_loop step t stop)"
proof (induction step t stop rule: slot_loop.induct)
  case (1 step t stop)
  show ?case
  proof (cases "t \<le> stop")
    case True
    have "t < x" if "x \<in> set (slot_loop step (t + step) stop)" for x
    proof -
      from that obtain k :: nat where "x = t + step + int k * step"
        using slot_loop_set [OF "1.prems"] by blast
      moreover have "0 \<le> int k * step" using "1.prems" by simp
      ultimately show ?thesis using "1.prems" by linarith
    qed
    then show ?thesis using 1 True by (subst slot_loop.simps) simp
  next
    case False
    then show ?thesis by (subst slot_loop.simps) simp
  qed
qed

section \<open>Busy time: lemmas\<close>

definition rows_of_unit :: "Busy list \<Rightarrow> string \<Rightarrow> Interval list" where
  "rows_of_unit busy u = map (\<lambda>b. (busy_startsAt b, busy_endsAt b)) (filter (\<lambda>b. busy_unitId b = u) busy)"

lemma indexBusy_fold:
  "fold (\<lambda>b m. m(busy_unitId b \<mapsto>
       (case m (busy_unitId b) of None \<Rightarrow> [] | Some l \<Rightarrow> l) @ [(busy_startsAt b, busy_endsAt b)])) busy m u
   = (case m u of None \<Rightarrow> (if rows_of_unit busy u = [] then None else Some (rows_of_unit busy u))
      | Some l \<Rightarrow> Some (l @ rows_of_unit busy u))"
  by (induction busy arbitrary: m) (auto simp: rows_of_unit_def split: option.splits)

lemma indexBusy_eq:
  "indexBusy busy u = (if rows_of_unit busy u = [] then None else Some (sort_key fst (rows_of_unit busy u)))"
  by (simp add: indexBusy_def indexBusy_fold)

text \<open>What the exclusion constraint of \<open>reservation_units\<close> gives the rows of one venue.\<close>

definition rows_disjoint :: "Interval list \<Rightarrow> bool" where
  "rows_disjoint l \<longleftrightarrow> (\<forall>r\<in>set l. fst r < snd r) \<and> sorted_wrt (\<lambda>a b. \<not> overlaps a b) l"

definition busy_disjoint :: "Busy list \<Rightarrow> bool" where
  "busy_disjoint busy \<longleftrightarrow> (\<forall>b\<in>set busy. busy_startsAt b < busy_endsAt b)
     \<and> sorted_wrt (\<lambda>a b. busy_unitId a = busy_unitId b \<longrightarrow>
         \<not> overlaps (busy_startsAt a, busy_endsAt a) (busy_startsAt b, busy_endsAt b)) busy"

lemma busy_disjoint_rows: "busy_disjoint busy \<Longrightarrow> rows_disjoint (rows_of_unit busy u)"
  by (induction busy) (auto simp: busy_disjoint_def rows_disjoint_def rows_of_unit_def)

lemma rows_disjoint_sort: "rows_disjoint l \<Longrightarrow> rows_disjoint (sort_key fst l)"
  unfolding rows_disjoint_def
  by (auto intro: sorted_wrt_sym_perm [of "\<lambda>a b. \<not> overlaps a b" l] simp: overlaps_sym)

lemma rows_disjoint_ends:
  assumes "rows_disjoint l" and "sorted (map fst l)" and "i < j" and "j < length l"
  shows "snd (l ! i) < snd (l ! j)"
proof -
  have "\<not> overlaps (l ! i) (l ! j)"
    using assms by (auto simp: rows_disjoint_def dest: sorted_wrt_nth_less)
  moreover have "fst (l ! i) \<le> fst (l ! j)"
    using assms(2-4) sorted_nth_mono [of "map fst l" i j] by simp
  moreover have "fst (l ! i) < snd (l ! i)" "fst (l ! j) < snd (l ! j)"
    using assms by (auto simp: rows_disjoint_def)
  ultimately show ?thesis by (auto simp: overlaps_def)
qed

lemma free_search_spec:
  assumes "\<And>i j. i < j \<Longrightarrow> j < length l \<Longrightarrow> snd (l ! i) < snd (l ! j)"
    and "lo \<le> hi" and "hi \<le> length l" and "\<forall>i<lo. snd (l ! i) \<le> from"
    and "\<forall>i. hi \<le> i \<longrightarrow> i < length l \<longrightarrow> from < snd (l ! i)"
  shows "free_search l from lo hi \<le> length l
    \<and> (\<forall>i < free_search l from lo hi. snd (l ! i) \<le> from)
    \<and> (\<forall>i. free_search l from lo hi \<le> i \<longrightarrow> i < length l \<longrightarrow> from < snd (l ! i))"
  using assms
proof (induction l "from" lo hi rule: free_search.induct)
  case (1 l "from" lo hi)
  note IH = "1.IH" and mono = "1.prems"(1) and le = "1.prems"(2) and len = "1.prems"(3)
    and left = "1.prems"(4) and right = "1.prems"(5)
  show ?case
  proof (cases "lo < hi")
    case False
    then have "free_search l from lo hi = lo" by (subst free_search.simps) simp
    with False le len left right show ?thesis by simp
  next
    case True
    define mid where "mid = (lo + hi) div 2"
    have mid: "lo \<le> mid" "mid < hi" using True by (simp_all add: mid_def)
    show ?thesis
    proof (cases "snd (l ! mid) \<le> from")
      case snd: True
      have "free_search l from lo hi = free_search l from (mid + 1) hi"
        using True snd by (subst free_search.simps) (simp add: Let_def mid_def)
      moreover have "\<forall>i<mid + 1. snd (l ! i) \<le> from"
      proof (intro allI impI)
        fix i assume i: "i < mid + 1"
        show "snd (l ! i) \<le> from"
        proof (cases "i = mid")
          case True
          with snd show ?thesis by simp
        next
          case False
          with i mid len have "snd (l ! i) < snd (l ! mid)" by (intro mono) auto
          with snd show ?thesis by simp
        qed
      qed
      ultimately show ?thesis using IH(1) [OF True mid_def snd mono _ len _ right] mid by simp
    next
      case snd: False
      have "free_search l from lo hi = free_search l from lo mid"
        using True snd by (subst free_search.simps) (simp add: Let_def mid_def)
      moreover have "\<forall>i. mid \<le> i \<longrightarrow> i < length l \<longrightarrow> from < snd (l ! i)"
      proof (intro allI impI)
        fix i assume i: "mid \<le> i" "i < length l"
        show "from < snd (l ! i)"
        proof (cases "i = mid")
          case True
          with snd show ?thesis by simp
        next
          case False
          with i have "snd (l ! mid) < snd (l ! i)" by (intro mono) auto
          with snd show ?thesis by simp
        qed
      qed
      ultimately show ?thesis using IH(2) [OF True mid_def snd mono mid(1) _ left] mid len by simp
    qed
  qed
qed

lemma unitFree_sorted:
  assumes "rows_disjoint l" and "sorted (map fst l)"
  shows "unitFree (Some l) from to \<longleftrightarrow> (\<forall>r\<in>set l. \<not> (fst r < to \<and> from < snd r))"
proof -
  define k where "k = free_search l from 0 (length l)"
  have k: "k \<le> length l" "\<forall>i<k. snd (l ! i) \<le> from" "\<forall>i. k \<le> i \<longrightarrow> i < length l \<longrightarrow> from < snd (l ! i)"
    using free_search_spec [of l 0 "length l" "from"] rows_disjoint_ends [OF assms] by (auto simp: k_def)
  have starts: "fst (l ! k) \<le> fst (l ! i)" if "k \<le> i" "i < length l" for i
    using assms(2) that sorted_nth_mono [of "map fst l" k i] by simp
  have "unitFree (Some l) from to \<longleftrightarrow> k = length l \<or> to \<le> fst (l ! k)"
    by (simp add: unitFree_def k_def Let_def)
  also have "\<dots> \<longleftrightarrow> (\<forall>i<length l. \<not> (fst (l ! i) < to \<and> from < snd (l ! i)))"
  proof
    assume h: "k = length l \<or> to \<le> fst (l ! k)"
    show "\<forall>i<length l. \<not> (fst (l ! i) < to \<and> from < snd (l ! i))"
    proof (intro allI impI)
      fix i assume i: "i < length l"
      show "\<not> (fst (l ! i) < to \<and> from < snd (l ! i))"
      proof (cases "i < k")
        case True
        with k(2) show ?thesis by auto
      next
        case False
        with i h starts [of i] show ?thesis by auto
      qed
    qed
  next
    assume "\<forall>i<length l. \<not> (fst (l ! i) < to \<and> from < snd (l ! i))"
    then show "k = length l \<or> to \<le> fst (l ! k)" using k(1,3) by (metis le_neq_implies_less linorder_not_le order_refl)
  qed
  also have "\<dots> \<longleftrightarrow> (\<forall>r\<in>set l. \<not> (fst r < to \<and> from < snd r))"
    by (auto simp: all_set_conv_all_nth)
  finally show ?thesis .
qed

definition unit_busy :: "Busy list \<Rightarrow> string \<Rightarrow> instant \<Rightarrow> instant \<Rightarrow> bool" where
  "unit_busy busy u from to \<longleftrightarrow>
     (\<exists>b\<in>set busy. busy_unitId b = u \<and> busy_startsAt b < to \<and> from < busy_endsAt b)"

lemma unitFree_indexBusy:
  assumes "busy_disjoint busy"
  shows "unitFree (indexBusy busy u) from to \<longleftrightarrow> \<not> unit_busy busy u from to"
proof (cases "rows_of_unit busy u = []")
  case True
  then show ?thesis
    by (auto simp: indexBusy_eq unitFree_def rows_of_unit_def unit_busy_def filter_empty_conv)
next
  case False
  have "unitFree (indexBusy busy u) from to \<longleftrightarrow>
      (\<forall>r\<in>set (sort_key fst (rows_of_unit busy u)). \<not> (fst r < to \<and> from < snd r))"
    using unitFree_sorted [OF rows_disjoint_sort [OF busy_disjoint_rows [OF assms, of u]]] False
    by (simp add: indexBusy_eq)
  then show ?thesis by (auto simp: rows_of_unit_def unit_busy_def)
qed

section \<open>The ranking: lemmas\<close>

definition rank_tuple :: "RankKey \<Rightarrow> int \<times> int \<times> int \<times> string \<times> string" where
  "rank_tuple k = (rk_capacity k, rk_kind k, rk_broken k, rk_label k, rk_id k)"

lemma compareKeys_less: "compareKeys a b < 0 \<longleftrightarrow> rank_tuple a < rank_tuple b"
  by (auto simp: compareKeys_def rank_tuple_def)

lemma host_loop_min:
  "\<exists>c. host_loop ctx cs (Some (b, rank_key ctx b)) = Some c \<and> c \<in> set (b # cs)
     \<and> (\<forall>d\<in>set (b # cs). rank_tuple (rank_key ctx c) \<le> rank_tuple (rank_key ctx d))"
proof (induction cs arbitrary: b)
  case Nil
  then show ?case by simp
next
  case (Cons x cs)
  show ?case
  proof (cases "compareKeys (rank_key ctx x) (rank_key ctx b) < 0")
    case True
    then have lt: "rank_tuple (rank_key ctx x) < rank_tuple (rank_key ctx b)" by (simp add: compareKeys_less)
    from Cons.IH [of x] obtain c where
      "host_loop ctx cs (Some (x, rank_key ctx x)) = Some c" "c \<in> set (x # cs)"
      "\<forall>d\<in>set (x # cs). rank_tuple (rank_key ctx c) \<le> rank_tuple (rank_key ctx d)" by blast
    then show ?thesis using True lt
      by (intro exI [of _ c]) (auto simp: Let_def dest: order.strict_implies_order intro: order.trans)
  next
    case False
    then have le: "rank_tuple (rank_key ctx b) \<le> rank_tuple (rank_key ctx x)"
      by (simp add: compareKeys_less)
    from Cons.IH [of b] obtain c where
      "host_loop ctx cs (Some (b, rank_key ctx b)) = Some c" "c \<in> set (b # cs)"
      "\<forall>d\<in>set (b # cs). rank_tuple (rank_key ctx c) \<le> rank_tuple (rank_key ctx d)" by blast
    then show ?thesis using False le
      by (intro exI [of _ c]) (auto simp: Let_def intro: order.trans)
  qed
qed

lemma restaurantHost_empty [simp]: "rs_choose restaurantHost [] ctx = None"
  by (simp add: restaurantHost_def)

lemma restaurantHost_min:
  assumes "free \<noteq> []"
  shows "\<exists>c. rs_choose restaurantHost free ctx = Some c \<and> c \<in> set free
     \<and> (\<forall>d\<in>set free. rank_tuple (rank_key ctx c) \<le> rank_tuple (rank_key ctx d))"
proof -
  from assms obtain b cs where "free = b # cs" by (cases free) auto
  with host_loop_min [of ctx cs b] show ?thesis by (simp add: restaurantHost_def Let_def)
qed


text \<open>Candidates that differ in assignment differ in rank, so the choice ignores their order.\<close>

lemma rank_tuple_inj:
  "rank_tuple (rank_key ctx c) = rank_tuple (rank_key ctx d) \<Longrightarrow> cand_assignment c = cand_assignment d"
proof -
  assume e: "rank_tuple (rank_key ctx c) = rank_tuple (rank_key ctx d)"
  then have "a_id (cand_assignment c) = a_id (cand_assignment d)"
    by (simp add: rank_tuple_def rank_key_def)
  moreover have "a_kind (cand_assignment c) = a_kind (cand_assignment d)"
    using e by (cases "a_kind (cand_assignment c)"; cases "a_kind (cand_assignment d)")
      (auto simp: rank_tuple_def rank_key_def)
  ultimately show ?thesis by (cases "cand_assignment c"; cases "cand_assignment d") simp
qed

lemma restaurantHost_perm:
  assumes "mset free = mset free'" and "inj_on cand_assignment (set free)"
  shows "rs_choose restaurantHost free ctx = rs_choose restaurantHost free' ctx"
proof (cases "free = []")
  case True
  with assms(1) show ?thesis by simp
next
  case False
  then have ne: "free' \<noteq> []" using assms(1) by auto
  have same: "set free = set free'" using assms(1) by (metis set_mset_mset)
  from restaurantHost_min [OF False, of ctx] obtain c where
    c: "rs_choose restaurantHost free ctx = Some c" "c \<in> set free"
    "\<forall>d\<in>set free. rank_tuple (rank_key ctx c) \<le> rank_tuple (rank_key ctx d)" by blast
  from restaurantHost_min [OF ne, of ctx] obtain c' where
    c': "rs_choose restaurantHost free' ctx = Some c'" "c' \<in> set free'"
    "\<forall>d\<in>set free'. rank_tuple (rank_key ctx c') \<le> rank_tuple (rank_key ctx d)" by blast
  have "rank_tuple (rank_key ctx c) = rank_tuple (rank_key ctx c')"
    using c c' same by (metis order.antisym)
  then have "cand_assignment c = cand_assignment c'" by (rule rank_tuple_inj)
  then have "c = c'" using assms(2) c(2) c'(2) same by (auto dest: inj_onD)
  with c c' show ?thesis by simp
qed

section \<open>The contract of a ranking\<close>

text \<open>
  \<open>computeAvailability\<close> takes any strategy. It relies on this: the strategy chooses one of the free
  candidates, and chooses when there is one.
\<close>

locale ranking_strategy =
  fixes pick :: "Candidate list \<Rightarrow> RankingContext \<Rightarrow> Candidate option"
  assumes chosen_free: "pick free ctx = Some c \<Longrightarrow> c \<in> set free"
    and chooses: "free \<noteq> [] \<Longrightarrow> pick free ctx \<noteq> None"

text \<open>What one examined start contributes, for any strategy.\<close>

definition bookable :: "AvailabilityComputation \<Rightarrow> starts \<Rightarrow> instant \<Rightarrow> bool" where
  "bookable i byStart t = (let (p, d) = the (map_of byStart t); end' = t + d * MINUTE; gap = sp_gapMinutes p * MINUTE in
     \<not> closed_over i t end' \<and> free_candidates i (t - gap) (end' + gap) \<noteq> [])"

definition slot_at :: "AvailabilityComputation \<Rightarrow> starts \<Rightarrow> instant \<Rightarrow> Slot \<Rightarrow> bool" where
  "slot_at i byStart t sl = (let (p, d) = the (map_of byStart t); end' = t + d * MINUTE; gap = sp_gapMinutes p * MINUTE in
     slot_startsAt sl = toISOString t \<and> slot_durationMinutes sl = d \<and> \<not> closed_over i t end'
     \<and> (\<exists>c. c \<in> set (free_candidates i (t - gap) (end' + gap)) \<and> slot_assignment sl = cand_assignment c))"

context ranking_strategy
begin

lemma scan_spec:
  assumes "rs_choose r = pick"
  shows "\<exists>n new tr. scan_starts i r bs ts examined slots = (slots @ new, tr)
     \<and> n \<le> length ts \<and> list_all2 (slot_at i bs) (filter (bookable i bs) (take n ts)) new
     \<and> (\<not> tr \<longrightarrow> n = length ts)
     \<and> (tr \<longrightarrow> n < length ts \<and> (examined + int n = max examined BOUNDS_availabilityStartsExamined
           \<or> bookable i bs (ts ! n) \<and> ac_limit i \<le> int (length (slots @ new))))
     \<and> int (length (slots @ new)) \<le> max (int (length slots)) (ac_limit i)"
proof (induction ts arbitrary: examined slots)
  case Nil
  show ?case by (intro exI [of _ 0] exI [of _ "[]"] exI [of _ False]) simp
next
  case (Cons t ts)
  obtain p d where pd: "the (map_of bs t) = (p, d)" by (cases "the (map_of bs t)")
  define free where "free = free_candidates i (t - sp_gapMinutes p * MINUTE) (t + d * MINUTE + sp_gapMinutes p * MINUTE)"
  define ctx where "ctx = ranking_context i (t - sp_gapMinutes p * MINUTE) (t + d * MINUTE + sp_gapMinutes p * MINUTE)"
  have book: "bookable i bs t \<longleftrightarrow> \<not> closed_over i t (t + d * MINUTE) \<and> free \<noteq> []"
    by (simp add: bookable_def pd free_def Let_def)
  consider (bound) "BOUNDS_availabilityStartsExamined \<le> examined"
    | (skip) "\<not> BOUNDS_availabilityStartsExamined \<le> examined" "\<not> bookable i bs t"
    | (full) "\<not> BOUNDS_availabilityStartsExamined \<le> examined" "bookable i bs t" "ac_limit i \<le> int (length slots)"
    | (slot) "\<not> BOUNDS_availabilityStartsExamined \<le> examined" "bookable i bs t" "\<not> ac_limit i \<le> int (length slots)"
    by blast
  then show ?case
  proof cases
    case bound
    then show ?thesis by (intro exI [of _ 0] exI [of _ "[]"] exI [of _ True]) simp
  next
    case skip
    then have step: "scan_starts i r bs (t # ts) examined slots = scan_starts i r bs ts (examined + 1) slots"
      unfolding book by (auto simp: pd Let_def free_def)
    from Cons.IH [of "examined + 1" slots] obtain n new tr where
      IH: "scan_starts i r bs ts (examined + 1) slots = (slots @ new, tr)"
      "n \<le> length ts" "list_all2 (slot_at i bs) (filter (bookable i bs) (take n ts)) new"
      "\<not> tr \<longrightarrow> n = length ts"
      "tr \<longrightarrow> n < length ts \<and> (examined + 1 + int n = max (examined + 1) BOUNDS_availabilityStartsExamined
           \<or> bookable i bs (ts ! n) \<and> ac_limit i \<le> int (length (slots @ new)))"
      "int (length (slots @ new)) \<le> max (int (length slots)) (ac_limit i)" by blast
    show ?thesis unfolding step using IH skip
      by (intro exI [of _ "Suc n"] exI [of _ new] exI [of _ tr]) auto
  next
    case full
    then have "scan_starts i r bs (t # ts) examined slots = (slots, True)"
      unfolding book by (auto simp: pd Let_def free_def)
    then show ?thesis using full by (intro exI [of _ 0] exI [of _ "[]"] exI [of _ True]) simp
  next
    case slot
    then have "free \<noteq> []" unfolding book by simp
    then obtain c where c: "pick free ctx = Some c" using chooses by blast
    then have cf: "c \<in> set free" by (rule chosen_free)
    define sl where "sl = \<lparr>slot_startsAt = toISOString t, slot_durationMinutes = d, slot_assignment = cand_assignment c\<rparr>"
    have step: "scan_starts i r bs (t # ts) examined slots = scan_starts i r bs ts (examined + 1) (slots @ [sl])"
      using slot c unfolding book by (simp add: pd Let_def free_def ctx_def assms sl_def)
    have sat: "slot_at i bs t sl"
      using slot(2) cf unfolding book by (auto simp: slot_at_def pd sl_def free_def Let_def)
    from Cons.IH [of "examined + 1" "slots @ [sl]"] obtain n new tr where
      IH: "scan_starts i r bs ts (examined + 1) (slots @ [sl]) = ((slots @ [sl]) @ new, tr)"
      "n \<le> length ts" "list_all2 (slot_at i bs) (filter (bookable i bs) (take n ts)) new"
      "\<not> tr \<longrightarrow> n = length ts"
      "tr \<longrightarrow> n < length ts \<and> (examined + 1 + int n = max (examined + 1) BOUNDS_availabilityStartsExamined
           \<or> bookable i bs (ts ! n) \<and> ac_limit i \<le> int (length ((slots @ [sl]) @ new)))"
      "int (length ((slots @ [sl]) @ new)) \<le> max (int (length (slots @ [sl]))) (ac_limit i)" by blast
    show ?thesis unfolding step using IH slot sat
      by (intro exI [of _ "Suc n"] exI [of _ "sl # new"] exI [of _ tr]) auto
  qed
qed

end

interpretation host: ranking_strategy "rs_choose restaurantHost"
proof
  show "rs_choose restaurantHost free ctx = Some c \<Longrightarrow> c \<in> set free" for free ctx c
    by (metis option.distinct(1) option.inject restaurantHost_empty restaurantHost_min)
  show "free \<noteq> [] \<Longrightarrow> rs_choose restaurantHost free ctx \<noteq> None" for free ctx
    using restaurantHost_min by fastforce
qed

section \<open>The starts: lemmas\<close>

definition in_window :: "AvailabilityComputation \<Rightarrow> instant \<Rightarrow> bool" where
  "in_window i t \<longleftrightarrow> ac_from i \<le> t \<and> t < ac_to i \<and> ac_now i \<le> t"

definition admits :: "AvailabilityComputation \<Rightarrow> instant \<Rightarrow> ServicePeriod \<Rightarrow> bool" where
  "admits i t p \<longleftrightarrow> (\<exists>d. durationFor (sp_durationBySize p) (ac_partySize i) = Some d
     \<and> (\<exists>k::nat. t = sp_startsAt p + int k * (ac_slotMinutes i * MINUTE)) \<and> t + d * MINUTE \<le> sp_endsAt p)"

text \<open>The start \<open>t\<close> belongs to period \<open>p\<close>, the first in the order of opening and id that admits it.\<close>

definition starts_in :: "AvailabilityComputation \<Rightarrow> instant \<Rightarrow> ServicePeriod \<Rightarrow> int \<Rightarrow> bool" where
  "starts_in i t p d \<longleftrightarrow> in_window i t \<and> find (admits i t) (ordered_periods i) = Some p
     \<and> durationFor (sp_durationBySize p) (ac_partySize i) = Some d"

lemma fold_add_start:
  "map_of (fold (add_start i p d) ts bs) t = (case map_of bs t of
     Some v \<Rightarrow> Some v | None \<Rightarrow> if t \<in> set ts \<and> in_window i t then Some (p, d) else None)"
proof (induction ts arbitrary: bs)
  case Nil
  then show ?case by (simp split: option.split)
next
  case (Cons x ts)
  have one: "map_of (add_start i p d x bs) t = (case map_of bs t of
      Some v \<Rightarrow> Some v | None \<Rightarrow> if t = x \<and> in_window i t then Some (p, d) else None)"
  proof -
    have "x \<in> fst ` set bs \<longleftrightarrow> map_of bs x \<noteq> None" by (simp add: map_of_eq_None_iff)
    then show ?thesis
      unfolding add_start_def in_window_def by (simp add: map_add_def split: option.split)
  qed
  show ?case by (auto simp: Cons.IH one split: option.split)
qed

lemma fold_add_start_distinct:
  "distinct (map fst bs) \<Longrightarrow> distinct (map fst (fold (add_start i p d) ts bs))"
  by (induction ts arbitrary: bs) (auto simp: add_start_def)

lemma rfold_add_period:
  assumes "0 < ac_slotMinutes i" and "distinct (map fst bs)"
  shows "\<exists>bs'. rfold (add_period i) ps bs = Inr bs' \<and> distinct (map fst bs') \<and>
    (\<forall>t. map_of bs' t = (case map_of bs t of Some v \<Rightarrow> Some v | None \<Rightarrow>
       if in_window i t then map_option (\<lambda>p. (p, the (durationFor (sp_durationBySize p) (ac_partySize i))))
         (find (admits i t) ps) else None))"
  using assms(2)
proof (induction ps arbitrary: bs)
  case Nil
  then show ?case by (simp split: option.split)
next
  case (Cons p ps)
  have "\<exists>b1. add_period i p bs = Inr b1 \<and> distinct (map fst b1) \<and> (\<forall>t. map_of b1 t = (case map_of bs t of
      Some v \<Rightarrow> Some v | None \<Rightarrow> if in_window i t \<and> admits i t p
        then Some (p, the (durationFor (sp_durationBySize p) (ac_partySize i))) else None))"
  proof (cases "durationFor (sp_durationBySize p) (ac_partySize i)")
    case None
    then show ?thesis using Cons.prems by (simp add: add_period_def admits_def split: option.split)
  next
    case (Some d)
    have pos: "0 < ac_slotMinutes i * MINUTE" using assms(1) by simp
    have mem: "t \<in> set (slot_loop (ac_slotMinutes i * MINUTE) (sp_startsAt p) (sp_endsAt p - d * MINUTE))
        \<longleftrightarrow> admits i t p" for t
      unfolding slot_loop_set [OF pos] by (auto simp: admits_def Some)
    show ?thesis using Some Cons.prems assms(1)
      by (simp add: add_period_def slotStarts_def fold_add_start mem fold_add_start_distinct
          conj_commute cong: option.case_cong if_cong)
  qed
  then obtain b1 where b1: "add_period i p bs = Inr b1" "distinct (map fst b1)"
    "\<And>t. map_of b1 t = (case map_of bs t of Some v \<Rightarrow> Some v | None \<Rightarrow> if in_window i t \<and> admits i t p
        then Some (p, the (durationFor (sp_durationBySize p) (ac_partySize i))) else None)" by blast
  from Cons.IH [OF b1(2)] obtain b2 where b2: "rfold (add_period i) ps b1 = Inr b2" "distinct (map fst b2)"
    "\<And>t. map_of b2 t = (case map_of b1 t of Some v \<Rightarrow> Some v | None \<Rightarrow>
       if in_window i t then map_option (\<lambda>p. (p, the (durationFor (sp_durationBySize p) (ac_partySize i))))
         (find (admits i t) ps) else None)" by blast
  show ?case
    using b1(1) b2(1,2) by (auto simp: b1(3) b2(3) split: option.split)
qed

lemma byStart_exists:
  assumes "0 < ac_slotMinutes i"
  shows "\<exists>bs. rfold (add_period i) (ordered_periods i) [] = Inr bs \<and> distinct (map fst bs)
    \<and> (\<forall>t p d. map_of bs t = Some (p, d) \<longleftrightarrow> starts_in i t p d)"
proof -
  from rfold_add_period [OF assms, of "[]" "ordered_periods i"] obtain bs where
    bs: "rfold (add_period i) (ordered_periods i) [] = Inr bs" "distinct (map fst bs)"
    "\<And>t. map_of bs t = (if in_window i t then map_option (\<lambda>p. (p, the (durationFor (sp_durationBySize p) (ac_partySize i))))
         (find (admits i t) (ordered_periods i)) else None)" by auto
  have "map_of bs t = Some (p, d) \<longleftrightarrow> starts_in i t p d" for t p d
  proof -
    have "\<exists>d. durationFor (sp_durationBySize q) (ac_partySize i) = Some d"
      if "find (admits i t) (ordered_periods i) = Some q" for q
      using find_Some_D [OF that] by (auto simp: admits_def)
    then show ?thesis by (auto simp: bs(3) starts_in_def)
  qed
  with bs(1,2) show ?thesis by blast
qed

lemma sorted_starts: "distinct (map fst bs) \<Longrightarrow> sorted_wrt (<) (sort (map fst bs))"
  by (simp add: strict_sorted_iff)

lemma bookable_starts:
  "map_of bs t = Some (p, d) \<Longrightarrow> bookable i bs t \<longleftrightarrow> \<not> closed_over i t (t + d * MINUTE)
    \<and> (\<exists>c. c \<in> set (free_candidates i (t - sp_gapMinutes p * MINUTE) (t + d * MINUTE + sp_gapMinutes p * MINUTE)))"
  by (auto simp: bookable_def Let_def neq_Nil_conv) (metis list.set_cases)

lemma all_free_iff:
  "busy_disjoint (ac_busy i) \<Longrightarrow> all_free i us from to \<longleftrightarrow> (\<forall>u\<in>set us. \<not> unit_busy (ac_busy i) u from to)"
  by (simp add: all_free_def list_all_iff unitFree_indexBusy)

text \<open>A start \<open>t\<close> of period \<open>p\<close> that a hold for candidate \<open>c\<close> would take, stated without the index.\<close>

definition can_book :: "AvailabilityComputation \<Rightarrow> instant \<Rightarrow> ServicePeriod \<Rightarrow> int \<Rightarrow> Candidate \<Rightarrow> bool" where
  "can_book i t p d c \<longleftrightarrow> c \<in> set (fittingCandidates (ac_units i) (ac_combos i) (ac_partySize i))
     \<and> (\<forall>cl\<in>set (ac_closures i). \<not> (cl_startsAt cl < t + d * MINUTE \<and> t < cl_endsAt cl))
     \<and> (\<forall>u\<in>set (cand_unitIds c). \<not> unit_busy (ac_busy i) u
          (t - sp_gapMinutes p * MINUTE) (t + d * MINUTE + sp_gapMinutes p * MINUTE))"

text \<open>The whole computation, for the default ranking: slots for exactly the bookable starts of a prefix.\<close>

lemma computeAvailability_slots:
  assumes "0 < ac_slotMinutes i" and "busy_disjoint (ac_busy i)" and "ac_ranking i = None"
  shows "\<exists>slots tr ts. computeAvailability i = Inr (slots, tr) \<and> sorted_wrt (<) ts
    \<and> (\<forall>t\<in>set ts. \<exists>p d c. starts_in i t p d \<and> can_book i t p d c)
    \<and> list_all2 (\<lambda>t sl. slot_startsAt sl = toISOString t \<and> (\<exists>p d c. starts_in i t p d \<and> can_book i t p d c
         \<and> slot_durationMinutes sl = d \<and> slot_assignment sl = cand_assignment c)) ts slots
    \<and> int (length slots) \<le> max 0 (ac_limit i)
    \<and> (\<not> tr \<longrightarrow> (\<forall>t p d c. starts_in i t p d \<longrightarrow> can_book i t p d c \<longrightarrow> t \<in> set ts))"
proof -
  from byStart_exists [OF assms(1)] obtain bs where
    bs: "rfold (add_period i) (ordered_periods i) [] = Inr bs" "distinct (map fst bs)"
    "\<And>t p d. map_of bs t = Some (p, d) \<longleftrightarrow> starts_in i t p d" by blast
  define all where "all = sort (map fst bs)"
  from host.scan_spec [OF refl, of i bs all 0 "[]"] obtain n new tr where
    scan: "scan_starts i restaurantHost bs all 0 [] = (new, tr)" "n \<le> length all"
      "list_all2 (slot_at i bs) (filter (bookable i bs) (take n all)) new" "\<not> tr \<longrightarrow> n = length all"
      "int (length new) \<le> max 0 (ac_limit i)" by auto
  define ts where "ts = filter (bookable i bs) (take n all)"
  have keys: "t \<in> set all \<longleftrightarrow> (\<exists>p d. map_of bs t = Some (p, d))" for t
    using map_of_eq_None_iff [of bs t] by (cases "map_of bs t") (auto simp: all_def)
  have book: "bookable i bs t \<longleftrightarrow> (\<exists>c. can_book i t p d c)" if "map_of bs t = Some (p, d)" for t p d
    using bookable_starts [OF that] assms(2)
    by (auto simp: can_book_def free_candidates_def all_free_iff closed_over_def list_ex_iff)
  have "sorted_wrt (<) ts"
    using sorted_starts [OF bs(2)] by (simp add: ts_def all_def sorted_wrt_filter sorted_wrt_take)
  moreover have sub: "t \<in> set all" if "t \<in> set ts" for t
    using that by (auto simp: ts_def dest: in_set_takeD)
  have "\<exists>p d c. starts_in i t p d \<and> can_book i t p d c" if "t \<in> set ts" for t
  proof -
    from sub [OF that] obtain p d where pd: "map_of bs t = Some (p, d)" using keys by blast
    from that have "bookable i bs t" by (simp add: ts_def)
    with pd book [OF pd] bs(3) show ?thesis by blast
  qed
  moreover have "list_all2 (\<lambda>t sl. slot_startsAt sl = toISOString t \<and> (\<exists>p d c. starts_in i t p d \<and> can_book i t p d c
         \<and> slot_durationMinutes sl = d \<and> slot_assignment sl = cand_assignment c)) ts new"
  proof (rule list.rel_mono_strong [OF scan(3) [folded ts_def]])
    fix t sl assume t: "t \<in> set ts" and "slot_at i bs t sl"
    from sub [OF t] obtain p d where pd: "map_of bs t = Some (p, d)" using keys by blast
    with \<open>slot_at i bs t sl\<close> obtain c where
      "slot_startsAt sl = toISOString t" "slot_durationMinutes sl = d" "\<not> closed_over i t (t + d * MINUTE)"
      "c \<in> set (free_candidates i (t - sp_gapMinutes p * MINUTE) (t + d * MINUTE + sp_gapMinutes p * MINUTE))"
      "slot_assignment sl = cand_assignment c" by (auto simp: slot_at_def Let_def)
    moreover from this have "can_book i t p d c"
      using assms(2) by (auto simp: can_book_def free_candidates_def all_free_iff closed_over_def list_ex_iff)
    ultimately show "slot_startsAt sl = toISOString t \<and> (\<exists>p d c. starts_in i t p d \<and> can_book i t p d c
         \<and> slot_durationMinutes sl = d \<and> slot_assignment sl = cand_assignment c)"
      using pd bs(3) by blast
  qed
  moreover have "t \<in> set ts" if "\<not> tr" "starts_in i t p d" "can_book i t p d c" for t p d c
  proof -
    from that(2) bs(3) have pd: "map_of bs t = Some (p, d)" by blast
    with keys have "t \<in> set all" by blast
    moreover from pd that(3) book have "bookable i bs t" by blast
    ultimately show ?thesis using scan(4) that(1) by (simp add: ts_def)
  qed
  moreover have "computeAvailability i = Inr (new, tr)"
    using assms(3) scan(1) by (simp add: computeAvailability_def bs(1) all_def)
  ultimately show ?thesis using scan(5) by blast
qed

section \<open>Properties\<close>

text \<open>
  \<open>durationFor\<close> returns the duration of the smallest party-size key at or above the party, and
  nothing exactly when every numeric key is smaller than the party.
\<close>

theorem durationFor_smallest:
  "case durationFor durations n of
     None \<Rightarrow> (\<forall>k m x. (k, m) \<in> set durations \<longrightarrow> number_of_key k = Some x \<longrightarrow> x < n)
   | Some m \<Rightarrow> (\<exists>k s. (k, m) \<in> set durations \<and> number_of_key k = Some s \<and> n \<le> s
       \<and> (\<forall>k' m' x. (k', m') \<in> set durations \<longrightarrow> number_of_key k' = Some x \<longrightarrow> n \<le> x \<longrightarrow> s \<le> x))"
  unfolding durationFor_def by (rule durationFor_loop_None)

theorem durationFor_smallest_witness:
  "durationFor [(''4'', 120), (''2'', 90), (''8'', 150)] 3 = Some 120 \<and> (\<exists>k s. (k, 120) \<in> set [(''4'', 120), (''2'', 90), (''8'', 150 :: int)] \<and> number_of_key k = Some s \<and> (3 :: int) \<le> s)"
proof -
  have d: "durationFor [(''4'', 120), (''2'', 90), (''8'', 150)] 3 = Some 120" by code_simp
  from durationFor_smallest [of "[(''4'', 120), (''2'', 90), (''8'', 150)]" 3]
  show ?thesis unfolding d option.case by blast
qed

text \<open>
  \<open>slotStarts\<close> returns, in increasing order, exactly the instants on the grid from the opening whose
  booking ends by the close; a grid step that is not positive is the RangeError.
\<close>

theorem slotStarts_grid:
  "case slotStarts startsAt endsAt slotMinutes durationMinutes of
     Inl e \<Rightarrow> slotMinutes \<le> 0
   | Inr ts \<Rightarrow> 0 < slotMinutes \<and> sorted_wrt (<) ts \<and> (\<forall>t. t \<in> set ts \<longleftrightarrow>
       (\<exists>k::nat. t = startsAt + int k * (slotMinutes * 60000)) \<and> t + durationMinutes * 60000 \<le> endsAt)"
proof (cases "0 < slotMinutes")
  case True
  then have pos: "0 < slotMinutes * MINUTE" by simp
  have "t \<in> set (slot_loop (slotMinutes * MINUTE) startsAt (endsAt - durationMinutes * MINUTE)) \<longleftrightarrow>
      (\<exists>k::nat. t = startsAt + int k * (slotMinutes * 60000)) \<and> t + durationMinutes * 60000 \<le> endsAt" for t
    unfolding slot_loop_set [OF pos] by (auto simp: MINUTE_def)
  with True slot_loop_sorted [OF pos] show ?thesis by (simp add: slotStarts_def)
next
  case False
  then show ?thesis by (simp add: slotStarts_def)
qed

theorem slotStarts_grid_witness:
  "slotStarts 0 7200000 30 60 = Inr [0, 1800000, 3600000] \<and> sorted_wrt (<) [0, 1800000, 3600000 :: int]"
proof -
  have s: "slotStarts 0 7200000 30 60 = Inr [0, 1800000, 3600000]" by code_simp
  from slotStarts_grid [where startsAt = 0 and endsAt = 7200000 and slotMinutes = 30 and durationMinutes = 60] show ?thesis unfolding s sum.case by blast
qed

text \<open>
  C21: on the rows of one venue, which never overlap on one unit, the indexed search of \<open>unitFree\<close> agrees
  with the plain scan: the unit is free exactly when no busy row of it overlaps \<open>[from, to)\<close>.
\<close>

theorem unitFree_exact:
  assumes "busy_disjoint busy"
  shows "unitFree (indexBusy busy u) from to \<longleftrightarrow>
    \<not> (\<exists>b\<in>set busy. busy_unitId b = u \<and> busy_startsAt b < to \<and> from < busy_endsAt b)"
  using unitFree_indexBusy [OF assms, of u "from" to] by (simp add: unit_busy_def)

theorem unitFree_exact_witness:
  "\<exists>busy. busy_disjoint busy \<and> length busy = 3 \<and> unitFree (indexBusy busy ''a'') 20 30 \<and> \<not> unitFree (indexBusy busy ''a'') 19 30"
proof -
  let ?b = "[\<lparr>busy_unitId = ''a'', busy_startsAt = 30, busy_endsAt = 40\<rparr>,
    \<lparr>busy_unitId = ''b'', busy_startsAt = 0, busy_endsAt = 90\<rparr>,
    \<lparr>busy_unitId = ''a'', busy_startsAt = 10, busy_endsAt = 20\<rparr>]"
  have d: "busy_disjoint ?b" by (simp add: busy_disjoint_def overlaps_def)
  have "unitFree (indexBusy ?b ''a'') 20 30" unfolding unitFree_exact [OF d] by simp
  moreover have "\<not> unitFree (indexBusy ?b ''a'') 19 30" unfolding unitFree_exact [OF d] by simp
  ultimately show ?thesis using d by (intro exI [of _ ?b]) simp
qed

text \<open>
  \<open>restaurantHost\<close> chooses a free candidate no other free candidate ranks before (smallest capacity, a
  unit before a combo, fewest free combos broken, label, id), and among candidates with distinct
  assignments the choice does not depend on their order.
\<close>

theorem restaurantHost_deterministic:
  assumes "free \<noteq> []" and "inj_on cand_assignment (set free)" and "mset free' = mset free"
  shows "\<exists>c. rs_choose restaurantHost free ctx = Some c \<and> rs_choose restaurantHost free' ctx = Some c \<and> c \<in> set free
     \<and> (\<forall>d\<in>set free. \<not> compareKeys (rank_key ctx d) (rank_key ctx c) < 0)"
  using restaurantHost_min [OF assms(1), of ctx] restaurantHost_perm [OF assms(3) [symmetric] assms(2), of ctx]
  by (auto simp: compareKeys_less not_less)

theorem restaurantHost_deterministic_witness:
  "\<exists>free ctx. length free = 2 \<and> (\<exists>c. rs_choose restaurantHost free ctx = Some c \<and> c \<in> set free \<and> cand_label c = ''big'')"
proof -
  let ?a = "\<lparr>cand_assignment = \<lparr>a_kind = Unit, a_id = ''a''\<rparr>, cand_label = ''corner'', cand_capacityMax = 4, cand_unitIds = [''a'']\<rparr>"
  let ?b = "\<lparr>cand_assignment = \<lparr>a_kind = Unit, a_id = ''b''\<rparr>, cand_label = ''big'', cand_capacityMax = 4, cand_unitIds = [''b'']\<rparr>"
  let ?ctx = "\<lparr>paddedFrom = 0, paddedTo = 10, isFree = (\<lambda>_ _ _. True), ctx_combos =
     [\<lparr>cs_id = ''k'', cs_label = ''k'', cs_unitIds = [''a'', ''c''], cs_capacityMin = 5, cs_capacityMax = 8, cs_active = True\<rparr>]\<rparr>"
  have "\<exists>c. rs_choose restaurantHost [?a, ?b] ?ctx = Some c \<and> rs_choose restaurantHost [?b, ?a] ?ctx = Some c \<and> c \<in> set [?a, ?b]
     \<and> (\<forall>d\<in>set [?a, ?b]. \<not> compareKeys (rank_key ?ctx d) (rank_key ?ctx c) < 0)"
    by (rule restaurantHost_deterministic) (simp_all add: inj_on_def)
  then obtain c where c: "rs_choose restaurantHost [?a, ?b] ?ctx = Some c" "c \<in> set [?a, ?b]"
    "\<not> compareKeys (rank_key ?ctx ?b) (rank_key ?ctx c) < 0" by auto
  have "compareKeys (rank_key ?ctx ?b) (rank_key ?ctx ?a) < 0"
    by (simp add: compareKeys_def rank_key_def broken_combos_def)
  with c have "c = ?b" by auto
  with c(1,2) show ?thesis by (intro exI [of _ "[?a, ?b]"] exI [of _ ?ctx]) auto
qed

text \<open>
  C6: every slot \<open>computeAvailability\<close> returns is a start in the window and not before now, on the grid of a
  service period that has room for the booking, outside every closure, with an assignment that fits the
  party and whose units have no busy time over the booking padded by the period's gap.
\<close>

theorem computeAvailability_sound:
  assumes "0 < ac_slotMinutes i" and "busy_disjoint (ac_busy i)" and "ac_ranking i = None"
    and "computeAvailability i = Inr (slots, truncated)" and "sl \<in> set slots"
  shows "\<exists>t p c. slot_startsAt sl = toISOString t \<and> ac_from i \<le> t \<and> t < ac_to i \<and> ac_now i \<le> t
    \<and> p \<in> set (ac_periods i) \<and> durationFor (sp_durationBySize p) (ac_partySize i) = Some (slot_durationMinutes sl)
    \<and> sp_startsAt p \<le> t \<and> t + slot_durationMinutes sl * MINUTE \<le> sp_endsAt p
    \<and> c \<in> set (fittingCandidates (ac_units i) (ac_combos i) (ac_partySize i)) \<and> slot_assignment sl = cand_assignment c
    \<and> (\<forall>cl\<in>set (ac_closures i). \<not> (cl_startsAt cl < t + slot_durationMinutes sl * MINUTE \<and> t < cl_endsAt cl))
    \<and> (\<forall>u\<in>set (cand_unitIds c). \<forall>b\<in>set (ac_busy i). busy_unitId b = u \<longrightarrow>
         \<not> (busy_startsAt b < t + slot_durationMinutes sl * MINUTE + sp_gapMinutes p * MINUTE
            \<and> t - sp_gapMinutes p * MINUTE < busy_endsAt b))"
proof -
  from computeAvailability_slots [OF assms(1-3)] assms(4) obtain ts where
    "list_all2 (\<lambda>t sl. slot_startsAt sl = toISOString t \<and> (\<exists>p d c. starts_in i t p d \<and> can_book i t p d c
         \<and> slot_durationMinutes sl = d \<and> slot_assignment sl = cand_assignment c)) ts slots" by auto
  with assms(5) obtain t p c where t: "slot_startsAt sl = toISOString t" "starts_in i t p (slot_durationMinutes sl)"
    "can_book i t p (slot_durationMinutes sl) c" "slot_assignment sl = cand_assignment c"
    unfolding list_all2_conv_all_nth in_set_conv_nth by metis
  from t(2) have p: "p \<in> set (ac_periods i)" "admits i t p" "in_window i t"
    "durationFor (sp_durationBySize p) (ac_partySize i) = Some (slot_durationMinutes sl)"
    by (auto simp: starts_in_def ordered_periods_def dest: find_Some_D)
  have "0 \<le> int k * (ac_slotMinutes i * MINUTE)" for k
    using assms(1) by (intro mult_nonneg_nonneg) (simp_all add: less_imp_le)
  then have "sp_startsAt p \<le> t" using p(2) by (auto simp: admits_def)
  moreover have "t + slot_durationMinutes sl * MINUTE \<le> sp_endsAt p" using p(2,4) by (auto simp: admits_def)
  ultimately show ?thesis
    using t(1,3,4) p(1,3,4)
    by (intro exI [of _ t] exI [of _ p] exI [of _ c]) (auto simp: in_window_def can_book_def unit_busy_def)
qed

definition sample_request :: AvailabilityComputation where
  "sample_request = \<lparr>ac_partySize = 2, ac_from = 0, ac_to = 86400000, ac_now = 1, ac_slotMinutes = 60,
     ac_periods = [\<lparr>sp_scheduleId = ''s'', sp_startsAt = 0, sp_endsAt = 25200000, sp_durationBySize = [(''2'', 60)], sp_gapMinutes = 15\<rparr>],
     ac_units = [\<lparr>us_id = ''a'', us_label = ''A'', us_capacityMin = 1, us_capacityMax = 4, us_active = True\<rparr>],
     ac_combos = [], ac_closures = [\<lparr>cl_startsAt = 4000000, cl_endsAt = 5000000\<rparr>],
     ac_busy = [\<lparr>busy_unitId = ''a'', busy_startsAt = 10800000, busy_endsAt = 14400000\<rparr>], ac_limit = 1, ac_ranking = None\<rparr>"

definition sample_slot :: Slot where
  "sample_slot = \<lparr>slot_startsAt = ''1970-01-01T05:00:00.000Z'', slot_durationMinutes = 60,
     slot_assignment = \<lparr>a_kind = Unit, a_id = ''a''\<rparr>\<rparr>"

lemma sample_request_ok:
  "0 < ac_slotMinutes sample_request" "busy_disjoint (ac_busy sample_request)" "ac_ranking sample_request = None"
  by (simp_all add: sample_request_def busy_disjoint_def)

lemma sample_request_slots: "computeAvailability sample_request = Inr ([sample_slot], True)"
  by code_simp

theorem computeAvailability_sound_witness:
  "\<exists>t. slot_startsAt sample_slot = toISOString t \<and> 1 \<le> t \<and> t < 86400000"
proof -
  from computeAvailability_sound [OF sample_request_ok sample_request_slots, of sample_slot]
  show ?thesis by (auto simp: sample_request_def)
qed

text \<open>
  C14: \<open>computeAvailability\<close> returns on every request with a positive grid step; its slots are in strictly
  increasing start order and at most the limit; and unless it says \<open>truncated\<close>, every start of a period
  with a candidate whose units are free over the padded booking, outside every closure, has a slot.
\<close>

theorem computeAvailability_complete:
  assumes "0 < ac_slotMinutes i" and "busy_disjoint (ac_busy i)" and "ac_ranking i = None"
  shows "\<exists>slots truncated ts. computeAvailability i = Inr (slots, truncated)
    \<and> map slot_startsAt slots = map toISOString ts \<and> sorted_wrt (<) ts
    \<and> int (length slots) \<le> max 0 (ac_limit i)
    \<and> (\<not> truncated \<longrightarrow> (\<forall>t p d c. starts_in i t p d \<longrightarrow> can_book i t p d c \<longrightarrow> toISOString t \<in> slot_startsAt ` set slots))"
proof -
  from computeAvailability_slots [OF assms] obtain slots tr ts where
    c: "computeAvailability i = Inr (slots, tr)" "sorted_wrt (<) ts" "int (length slots) \<le> max 0 (ac_limit i)"
      "\<not> tr \<longrightarrow> (\<forall>t p d c. starts_in i t p d \<longrightarrow> can_book i t p d c \<longrightarrow> t \<in> set ts)"
    and l: "list_all2 (\<lambda>t sl. slot_startsAt sl = toISOString t \<and> (\<exists>p d c. starts_in i t p d \<and> can_book i t p d c
         \<and> slot_durationMinutes sl = d \<and> slot_assignment sl = cand_assignment c)) ts slots" by blast
  have m: "map slot_startsAt slots = map toISOString ts"
    using l by (induction rule: list_all2_induct) auto
  then have "slot_startsAt ` set slots = toISOString ` set ts" by (metis image_set)
  with c m show ?thesis by blast
qed

theorem computeAvailability_complete_witness:
  "\<exists>slots truncated. computeAvailability sample_request = Inr (slots, truncated) \<and> length slots \<le> 1"
  using computeAvailability_complete [OF sample_request_ok] by (auto simp: sample_request_def)

end
