(* ===== verification/DbErrors.thy ===== *)
theory DbErrors
  imports CoreErrors "HOL-Library.Sublist"
begin

text \<open>
  \<open>packages/db/src/errors.ts\<close> and \<open>status-text.ts\<close>: what a failing statement throws and the one
  mapping of it to an error of the engine.
\<close>

section \<open>Thrown values\<close>

text \<open>The fields of a Postgres error that the mapping reads.\<close>

record pg_error =
  pe_code :: string
  pe_message :: "string option"
  pe_detail :: "string option"
  pe_constraint :: "string option"

text \<open>
  What a command can throw: an error of the engine, an error with a string code (Postgres's, or a
  system error of the driver), another \<open>Error\<close> with its message, or a value that is no \<open>Error\<close> with
  the text \<open>String(e)\<close> gives.
\<close>

datatype exn = ExDastar DastarError | ExPg pg_error | ExError string | ExOther string

definition pg_raise :: "string \<Rightarrow> string \<Rightarrow> exn" where
  "pg_raise c m = ExPg \<lparr>pe_code = c, pe_message = Some m, pe_detail = None, pe_constraint = None\<rparr>"

definition pg_violation :: "string \<Rightarrow> string \<Rightarrow> exn" where
  "pg_violation c name = ExPg \<lparr>pe_code = c, pe_message = Some (''violates constraint '' @ name), pe_detail = None,
     pe_constraint = Some name\<rparr>"

section \<open>The mapping\<close>

definition BY_SQLSTATE :: "(string \<times> DastarErrorCode) list" where
  "BY_SQLSTATE = [
     (''23P01'', Hold_conflict), (''DA001'', Hold_expired), (''DA002'', Idempotency_mismatch),
     (''DA003'', Party_does_not_fit), (''DA004'', Audit_immutable), (''DA005'', Invalid_transition),
     (''DA006'', Unit_rows_immutable), (''DA007'', Actor_required), (''DA008'', Range_mismatch),
     (''DA009'', Blackout), (''DA010'', Assignment_mismatch), (''DA011'', Combo_immutable),
     (''DA012'', Capacity_conflict), (''DA013'', Token_requires_held), (''DA014'', Blackout_conflict),
     (''DA015'', Assignment_inactive), (''DA016'', Assignment_in_use), (''DA017'', Invalid_timezone),
     (''42501'', Forbidden_write)]"

fun includes_text :: "string \<Rightarrow> string \<Rightarrow> bool" where
  "includes_text [] sub = (sub = [])"
| "includes_text (c # s) sub = (prefix sub (c # s) \<or> includes_text s sub)"

definition mapped :: "DastarErrorCode \<Rightarrow> string \<Rightarrow> pg_error \<Rightarrow> bool \<Rightarrow> DastarError" where
  "mapped c m pe retry = \<lparr>code = c, message = m, detail = pe_detail pe, retryable = retry, sqlstate = Some (pe_code pe)\<rparr>"

definition map_pg :: "pg_error \<Rightarrow> DastarError option" where
  "map_pg pe = (
     let msg = (case pe_message pe of None \<Rightarrow> pe_code pe | Some m \<Rightarrow> m);
         text = (case pe_message pe of None \<Rightarrow> [] | Some m \<Rightarrow> m) in
     if pe_code pe = ''40P01'' \<or> pe_code pe = ''40001'' then Some (mapped Serialization_conflict msg pe True)
     else if pe_code pe = ''57014'' then Some (mapped Timeout msg pe True)
     else if pe_code pe = ''23514'' then
       (if pe_constraint pe = Some ''duration_out_of_range'' then Some (mapped Duration_out_of_range text pe False)
        else if pe_constraint pe = Some ''combo_too_large'' then Some (mapped Combo_too_large text pe False)
        else Some (mapped Invalid_input text pe False))
     else if pe_code pe = ''22021'' \<or> pe_code pe = ''22P05'' then Some (mapped Invalid_input text pe False)
     else if pe_code pe = ''23503'' \<and> (case pe_constraint pe of None \<Rightarrow> False | Some c \<Rightarrow> suffix ''_venue_id_fkey'' c)
       then Some (mapped Not_found ''venue not found'' pe False)
     else if pe_code pe = ''42501'' \<and> (case pe_message pe of None \<Rightarrow> False | Some m \<Rightarrow> includes_text m ''row-level security'')
       then Some (mapped Venue_scope_violation text pe False)
     else (case map_of BY_SQLSTATE (pe_code pe) of
         None \<Rightarrow> None
       | Some c \<Rightarrow> Some (mapped c msg pe False)))"

text \<open>An error of the engine has a \<open>code\<close> of its own, which is no SQLSTATE, so it maps to nothing.\<close>

definition mapPgError :: "exn \<Rightarrow> DastarError option" where
  "mapPgError e = (case e of ExPg pe \<Rightarrow> map_pg pe | _ \<Rightarrow> None)"

definition asDastarError :: "exn \<Rightarrow> DastarError" where
  "asDastarError e = (case e of
      ExDastar d \<Rightarrow> d
    | ExPg pe \<Rightarrow> (case map_pg pe of
          Some d \<Rightarrow> d
        | None \<Rightarrow> dastar_error Internal (case pe_message pe of None \<Rightarrow> [] | Some m \<Rightarrow> m))
    | ExError m \<Rightarrow> dastar_error Internal m
    | ExOther s \<Rightarrow> dastar_error Internal s)"

section \<open>Status text\<close>

definition withArticle :: "string \<Rightarrow> string" where
  "withArticle word = (case word of
      c # _ \<Rightarrow> if c \<in> set ''aeiouAEIOU'' then ''an '' @ word else ''a '' @ word
    | [] \<Rightarrow> ''a '' @ word)"

section \<open>Lemmas\<close>

text \<open>The codes the triggers and constraints of the schema raise, mapped.\<close>

lemma map_pg_raise:
  "mapPgError (pg_raise ''DA001'' m) = Some (mapped Hold_expired m \<lparr>pe_code = ''DA001'', pe_message = Some m, pe_detail = None, pe_constraint = None\<rparr> False)"
  "mapPgError (pg_raise ''DA003'' m) = Some (mapped Party_does_not_fit m \<lparr>pe_code = ''DA003'', pe_message = Some m, pe_detail = None, pe_constraint = None\<rparr> False)"
  "mapPgError (pg_raise ''DA009'' m) = Some (mapped Blackout m \<lparr>pe_code = ''DA009'', pe_message = Some m, pe_detail = None, pe_constraint = None\<rparr> False)"
  by (simp_all add: mapPgError_def pg_raise_def map_pg_def BY_SQLSTATE_def)

lemma mapped_sel [simp]:
  "code (mapped c m pe r) = c" "message (mapped c m pe r) = m" "retryable (mapped c m pe r) = r"
  "detail (mapped c m pe r) = pe_detail pe" "sqlstate (mapped c m pe r) = Some (pe_code pe)"
  by (simp_all add: mapped_def)

lemma map_pg_retryable:
  "map_pg pe = Some d \<Longrightarrow> retryable d \<longleftrightarrow> pe_code pe \<in> {''40P01'', ''40001'', ''57014''}"
  by (auto simp: map_pg_def Let_def BY_SQLSTATE_def split: if_splits option.splits)

lemma map_pg_sqlstate: "map_pg pe = Some d \<Longrightarrow> sqlstate d = Some (pe_code pe)"
  by (auto simp: map_pg_def Let_def split: if_splits option.splits)

end
