(* ===== verification/JsDouble.thy ===== *)
theory JsDouble
  imports Complex_Main "HOL-Library.Log_Nat"
begin

text \<open>
  The numbers of JavaScript: the value of a double, and the rounding of an exact result to the nearest one, ties to even. Infinity
  is the value \<open>2 ^ 1024\<close>, which every result that overflows rounds to; the sign of zero is left out. One definition serves the
  rationals, where it computes, and the reals.
\<close>

section \<open>Rounding\<close>

text \<open>The exponent of the last place of a positive number: it leaves 53 binary digits, and is at least that of a subnormal.\<close>

definition place :: "'a::floor_ceiling \<Rightarrow> int" where
  "place x = max (- 1074) ((if 1 \<le> x then bitlen \<lfloor>x\<rfloor> - 1 else - bitlen (\<lceil>1 / x\<rceil> - 1)) - 52)"

definition round_even :: "'a::floor_ceiling \<Rightarrow> int" where
  "round_even y = (let n = \<lfloor>y\<rfloor>; f = y - of_int n in if f < 1 / 2 \<or> f = 1 / 2 \<and> even n then n else n + 1)"

definition double_of :: "'a::floor_ceiling \<Rightarrow> 'a" where
  "double_of x = (if x = 0 then 0 else
     sgn x * min (2 ^ 1024) (of_int (round_even (\<bar>x\<bar> / 2 powi place \<bar>x\<bar>)) * 2 powi place \<bar>x\<bar>))"

text \<open>The values of doubles.\<close>

definition is_double :: "'a::floor_ceiling \<Rightarrow> bool" where
  "is_double d \<longleftrightarrow> \<bar>d\<bar> \<le> 2 ^ 1024 \<and> (\<exists>m k. d = of_int m * 2 powi k \<and> \<bar>m\<bar> \<le> 2 ^ 53 \<and> - 1074 \<le> k)"

lemma round_even_bounds: "\<lfloor>y\<rfloor> \<le> round_even y" "round_even y \<le> \<lceil>y\<rceil>" "\<bar>of_int (round_even y) - y\<bar> \<le> 1 / 2"
proof -
  let ?f = "y - of_int \<lfloor>y\<rfloor>"
  have f: "0 \<le> ?f" "?f < 1" by linarith+
  show "\<lfloor>y\<rfloor> \<le> round_even y" by (simp add: round_even_def Let_def)
  show "round_even y \<le> \<lceil>y\<rceil>"
  proof (cases "?f = 0")
    case True
    then have "round_even y = \<lfloor>y\<rfloor>" by (simp add: round_even_def Let_def)
    also have "of_int \<lfloor>y\<rfloor> \<le> y" by simp
    then have "\<lfloor>y\<rfloor> \<le> \<lceil>y\<rceil>" by (meson le_of_int_ceiling of_int_le_iff order_trans)
    finally show ?thesis .
  next
    case False
    then have "of_int \<lfloor>y\<rfloor> < y" using of_int_floor_le [of y] by (auto simp: less_le)
    then have "\<lfloor>y\<rfloor> < \<lceil>y\<rceil>" by (simp add: less_ceiling_iff)
    then show ?thesis by (auto simp: round_even_def Let_def)
  qed
  define f where "f = y - of_int \<lfloor>y\<rfloor>"
  have "0 \<le> f" "f < 1" using f by (simp_all only: f_def)
  moreover have "of_int (round_even y) - y = - f \<and> f \<le> 1 / 2 \<or> of_int (round_even y) - y = 1 - f \<and> 1 / 2 \<le> f"
    by (auto simp: round_even_def Let_def f_def)
  ultimately show "\<bar>of_int (round_even y) - y\<bar> \<le> 1 / 2" by auto
qed

lemma pow2_pos [simp]: "(0 :: 'a::linordered_field) < 2 powi k"
  by (simp add: zero_less_power_int)

text \<open>A number has its leading digit at bit 52 above its last place, unless it is subnormal.\<close>

lemma ilog_bounds:
  fixes x :: "'a::floor_ceiling"
  assumes "0 < x"
  defines "l \<equiv> (if 1 \<le> x then bitlen \<lfloor>x\<rfloor> - 1 else - bitlen (\<lceil>1 / x\<rceil> - 1))"
  shows "2 powi l \<le> x \<and> x < 2 powi (l + 1)"
proof (cases "1 \<le> x")
  case True
  then have p: "0 < \<lfloor>x\<rfloor>" by simp
  obtain k where k: "bitlen \<lfloor>x\<rfloor> = int (Suc k)"
    using p bitlen_nonneg [of "\<lfloor>x\<rfloor>"] bitlen_eq_zero_iff [of "\<lfloor>x\<rfloor>"] by (metis not_le nonneg_int_cases not0_implies_Suc of_nat_0)
  from bitlen_bounds [OF p] have b: "2 ^ k \<le> \<lfloor>x\<rfloor>" "\<lfloor>x\<rfloor> < 2 ^ Suc k" by (simp_all add: k nat_add_distrib)
  from b(1) have "of_int (2 ^ k) \<le> x" by (simp only: le_floor_iff)
  moreover from b(2) have "x < of_int (2 ^ Suc k)" by (simp only: floor_less_iff)
  ultimately show ?thesis using True by (simp add: l_def k power_int_add)
next
  case False
  let ?q = "\<lceil>1 / x\<rceil> - 1"
  have inv: "1 < 1 / x" using False assms by simp
  then have "1 < \<lceil>1 / x\<rceil>" by (simp add: less_ceiling_iff)
  then have p: "0 < ?q" by simp
  obtain k where k: "bitlen ?q = int (Suc k)"
    using p bitlen_nonneg [of ?q] bitlen_eq_zero_iff [of ?q] by (metis not_le nonneg_int_cases not0_implies_Suc of_nat_0)
  from bitlen_bounds [OF p] have b: "2 ^ k \<le> ?q" "?q < 2 ^ Suc k" by (simp_all add: k nat_add_distrib)
  from b(1) have "2 ^ k < \<lceil>1 / x\<rceil>" by linarith
  then have "of_int (2 ^ k) < 1 / x" by (simp only: less_ceiling_iff)
  then have "x < 1 / 2 ^ k" using assms by (simp add: field_simps)
  moreover from b(2) have "\<lceil>1 / x\<rceil> \<le> 2 ^ Suc k" by linarith
  then have "1 / x \<le> of_int (2 ^ Suc k)" by (simp only: ceiling_le_iff)
  then have "1 / 2 ^ Suc k \<le> x" using assms by (simp add: field_simps)
  moreover have "l = - int (Suc k)" "l + 1 = - int k" using False k by (simp_all add: l_def)
  moreover have "2 powi (- int j) = 1 / (2 :: 'a) ^ j" for j by (simp add: power_int_minus field_simps)
  ultimately show ?thesis by (simp only:)
qed

lemma place_bounds:
  fixes x :: "'a::floor_ceiling"
  assumes "0 < x"
  shows "- 1074 \<le> place x" "x / 2 powi place x < 2 ^ 53" "- 1074 < place x \<Longrightarrow> 2 ^ 52 \<le> x / 2 powi place x"
proof -
  define l where "l = (if 1 \<le> x then bitlen \<lfloor>x\<rfloor> - 1 else - bitlen (\<lceil>1 / x\<rceil> - 1))"
  have l: "2 powi l \<le> x" "x < 2 powi (l + 1)" using ilog_bounds [OF assms] by (simp_all add: l_def)
  have p: "place x = max (- 1074) (l - 52)" by (simp add: place_def l_def)
  show "- 1074 \<le> place x" by (simp add: p)
  have "(2 :: 'a) powi (l + 1) \<le> 2 powi (place x + 53)" by (rule power_int_increasing) (auto simp: p)
  then have "x < 2 powi (place x + 53)" using l(2) by simp
  moreover have "(2 :: 'a) powi (place x + 53) = 2 ^ 53 * 2 powi place x" by (simp add: power_int_add)
  ultimately show "x / 2 powi place x < 2 ^ 53" by (simp only: pos_divide_less_eq [OF pow2_pos])
  show "2 ^ 52 \<le> x / 2 powi place x" if "- 1074 < place x"
  proof -
    from that have "l = place x + 52" by (simp add: p)
    with l(1) have "2 ^ 52 * 2 powi place x \<le> x" by (simp add: power_int_add)
    then show ?thesis by (simp only: pos_le_divide_eq [OF pow2_pos])
  qed
qed

section \<open>What rounding keeps\<close>

lemma double_of_pos: "0 < x \<Longrightarrow> double_of x = min (2 ^ 1024) (of_int (round_even (x / 2 powi place x)) * 2 powi place x)"
  by (simp add: double_of_def)

text \<open>A multiple of a last place is a whole number of it, and of every smaller one.\<close>

lemma finer_place: "e \<le> k \<Longrightarrow> \<exists>n. of_int m * 2 powi k / 2 powi e = (of_int n :: 'a::floor_ceiling)"
proof -
  assume "e \<le> k"
  then obtain j where "k = e + int j" by (metis zle_iff_zadd)
  then have "of_int m * 2 powi k / 2 powi e = (of_int (m * 2 ^ j) :: 'a)" by (simp add: power_int_add)
  then show ?thesis ..
qed

lemma coarser_place:
  assumes "k < e" and "\<bar>m\<bar> \<le> 2 ^ 53"
  shows "of_int m * 2 powi k / 2 powi e \<le> (2 ^ 52 :: 'a::floor_ceiling)"
proof -
  have "(of_int m :: 'a) \<le> of_int (2 ^ 53)" using assms(2) by (subst of_int_le_iff) linarith
  then have "of_int m * 2 powi k \<le> 2 ^ 53 * (2 :: 'a) powi k" by (simp add: mult_right_mono)
  also have "\<dots> = 2 ^ 52 * 2 powi (k + 1)" by (simp add: power_int_add)
  also have "\<dots> \<le> 2 ^ 52 * 2 powi e" using assms(1) by (intro mult_left_mono power_int_increasing) auto
  finally show ?thesis by (simp add: pos_divide_le_eq)
qed

lemma double_ge:
  assumes "is_double d" and "0 \<le> d" and "d \<le> x"
  shows "d \<le> double_of x"
proof (cases "x = 0")
  case False
  then have x: "0 < x" using assms by simp
  let ?e = "place x"
  let ?y = "x / 2 powi ?e"
  have top: "d \<le> 2 ^ 1024" using assms(1) unfolding is_double_def by (rule abs_le_D1 [OF conjunct1])
  from assms(1) obtain m k where d: "d = of_int m * 2 powi k" "\<bar>m\<bar> \<le> 2 ^ 53" "- 1074 \<le> k"
    by (auto simp: is_double_def)
  have dy: "d / 2 powi ?e \<le> ?y" using assms(3) by (simp add: divide_right_mono)
  have "d / 2 powi ?e \<le> of_int \<lfloor>?y\<rfloor>"
  proof (cases "?e \<le> k")
    case True
    with finer_place [OF this, of m] obtain n where "d / 2 powi ?e = of_int n" by (auto simp: d(1))
    with dy show ?thesis by (simp add: le_floor_iff)
  next
    case False
    then have "(2 :: 'a) ^ 52 \<le> ?y" using place_bounds [OF x] d(3) by linarith
    then have "(2 :: int) ^ 52 \<le> \<lfloor>?y\<rfloor>" by (simp add: le_floor_iff)
    then have "of_int (2 ^ 52) \<le> (of_int \<lfloor>?y\<rfloor> :: 'a)" by (simp only: of_int_le_iff)
    then have "(2 :: 'a) ^ 52 \<le> of_int \<lfloor>?y\<rfloor>" by (simp only: of_int_power of_int_numeral)
    moreover have "d / 2 powi ?e \<le> 2 ^ 52" unfolding d(1) by (rule coarser_place) (use False d(2) in simp_all)
    ultimately show ?thesis by (rule order_trans [rotated])
  qed
  also have "of_int \<lfloor>?y\<rfloor> \<le> (of_int (round_even ?y) :: 'a)" using round_even_bounds(1) by (simp only: of_int_le_iff)
  finally show ?thesis using top by (simp add: double_of_pos [OF x] pos_divide_le_eq)
qed (use assms in \<open>simp add: double_of_def\<close>)

lemma double_le:
  assumes "is_double d" and "0 \<le> x" and "x \<le> d"
  shows "double_of x \<le> d"
proof (cases "x = 0")
  case False
  then have x: "0 < x" using assms by simp
  let ?e = "place x"
  let ?y = "x / 2 powi ?e"
  from assms(1) obtain m k where d: "d = of_int m * 2 powi k" "\<bar>m\<bar> \<le> 2 ^ 53" "- 1074 \<le> k"
    by (auto simp: is_double_def)
  have dy: "?y \<le> d / 2 powi ?e" using assms(3) by (simp add: divide_right_mono)
  have "of_int \<lceil>?y\<rceil> \<le> d / 2 powi ?e"
  proof (cases "?e \<le> k")
    case True
    with finer_place [OF this, of m] obtain n where "d / 2 powi ?e = of_int n" by (auto simp: d(1))
    with dy show ?thesis by (simp add: ceiling_le_iff)
  next
    case False
    then have "(2 :: 'a) ^ 52 \<le> ?y" using place_bounds [OF x] d(3) by linarith
    moreover from coarser_place [OF _ d(2), of k ?e] False have "d / 2 powi ?e \<le> 2 ^ 52" by (simp add: d(1))
    ultimately have "?y = of_int (2 ^ 52)" "d / 2 powi ?e = 2 ^ 52" using dy by simp_all
    then show ?thesis by (simp only: ceiling_of_int) simp
  qed
  moreover have "(of_int (round_even ?y) :: 'a) \<le> of_int \<lceil>?y\<rceil>" using round_even_bounds(2) by (simp only: of_int_le_iff)
  ultimately have "of_int (round_even ?y) \<le> d / 2 powi ?e" by linarith
  then show ?thesis by (simp add: double_of_pos [OF x] pos_le_divide_eq min.coboundedI2)
qed (use assms in \<open>simp add: double_of_def\<close>)

text \<open>Rounding leaves a double as it is, and gives one.\<close>

lemma double_exact: "is_double d \<Longrightarrow> 0 \<le> d \<Longrightarrow> double_of d = d"
  using double_ge [of d d] double_le [of d d] by simp

lemma is_double_double_of: "0 \<le> x \<Longrightarrow> is_double (double_of x)"
proof (cases "x = 0")
  case False
  assume "0 \<le> x"
  with False have x: "0 < x" by simp
  let ?n = "round_even (x / 2 powi place x)"
  have "0 \<le> \<lfloor>x / 2 powi place x\<rfloor>" using x by simp
  then have n: "0 \<le> ?n" using round_even_bounds(1) order_trans by blast
  have "x / 2 powi place x \<le> of_int (2 ^ 53)" using place_bounds(2) [OF x] by simp
  then have "\<lceil>x / 2 powi place x\<rceil> \<le> 2 ^ 53" by (simp only: ceiling_le_iff)
  then have m: "?n \<le> 2 ^ 53" using round_even_bounds(2) order_trans by blast
  show ?thesis
  proof (cases "of_int ?n * 2 powi place x \<le> (2 ^ 1024 :: 'a)")
    case True
    with x n m place_bounds(1) [OF x] show ?thesis unfolding is_double_def double_of_pos [OF x]
      by (intro conjI exI [of _ ?n] exI [of _ "place x"]) (simp_all add: min_def abs_mult)
  next
    case False
    then have "double_of x = of_int 1 * 2 powi 1024" by (simp add: double_of_pos [OF x] min_def)
    then show ?thesis unfolding is_double_def by (intro conjI exI [of _ 1] exI [of _ 1024]) simp_all
  qed
qed (simp add: double_of_def is_double_def exI [of _ 0])

lemma is_double_int: "\<bar>m\<bar> \<le> 2 ^ 53 \<Longrightarrow> is_double (of_int m :: 'a::floor_ceiling)"
proof -
  assume m: "\<bar>m\<bar> \<le> 2 ^ 53"
  then have "(of_int \<bar>m\<bar> :: 'a) \<le> of_int (2 ^ 1024)" by (subst of_int_le_iff) (rule order_trans, assumption, simp)
  then have "\<bar>of_int m\<bar> \<le> (2 ^ 1024 :: 'a)" by (simp only: of_int_abs of_int_power of_int_numeral)
  moreover have "of_int m = of_int m * (2 :: 'a) powi 0" by simp
  ultimately show ?thesis unfolding is_double_def using m by (metis neg_numeral_le_zero)
qed

lemma is_double_0 [simp]: "is_double 0"
  using is_double_double_of [of 0] by (simp add: double_of_def)

lemma is_double_infinity: "is_double (2 ^ 1024)"
  unfolding is_double_def by (intro conjI exI [of _ 1] exI [of _ 1024]) simp_all

lemma double_of_nonneg: "0 \<le> x \<Longrightarrow> 0 \<le> double_of x"
  by (rule double_ge) simp_all

text \<open>The error is at most half a last place.\<close>

lemma place_small:
  assumes "0 < x"
  shows "2 powi place x \<le> max (2 powi - 1074) (x / 2 ^ 52)"
proof (cases "- 1074 < place x")
  case True
  from place_bounds(3) [OF assms this] have "2 ^ 52 * 2 powi place x \<le> x" by (simp only: pos_le_divide_eq [OF pow2_pos])
  then show ?thesis by (simp add: le_max_iff_disj field_simps)
next
  case False
  then have "place x = - 1074" using place_bounds(1) [OF assms] by simp
  then show ?thesis by simp
qed

lemma double_error:
  assumes "0 < x"
  shows "min (2 ^ 1024) (x - max (2 powi - 1074) (x / 2 ^ 52) / 2) \<le> double_of x"
proof -
  let ?p = "2 powi place x"
  have "x / ?p - 1 / 2 \<le> of_int (round_even (x / ?p))" using round_even_bounds(3) [of "x / ?p"] by linarith
  then have "(x / ?p - 1 / 2) * ?p \<le> of_int (round_even (x / ?p)) * ?p" by (simp add: mult_right_mono)
  also have "(x / ?p - 1 / 2) * ?p = x - ?p / 2" by (simp add: left_diff_distrib)
  finally have "x - max (2 powi - 1074) (x / 2 ^ 52) / 2 \<le> of_int (round_even (x / ?p)) * ?p"
    by (rule order_trans [rotated]) (intro diff_left_mono divide_right_mono place_small assms, simp)
  then show ?thesis by (auto simp: double_of_pos [OF assms] min_def)
qed

end
