(* ===== verification/JsNumber.thy ===== *)
theory JsNumber
  imports Prelude JsDouble
begin

text \<open>
  \<open>Number(text)\<close> of JavaScript, as the worker's settings read it. A finite number is kept as its exact value, the decimal
  \<open>mantissa * 10 ^ exponent\<close>. What a numeral says is rounded to the nearest double, and is infinite beyond them.
\<close>

datatype jsnumber = NaN | Infinite bool | Dec int int

section \<open>Scanning\<close>

definition js_space :: "char \<Rightarrow> bool" where
  "js_space c \<longleftrightarrow> (of_char c :: nat) \<in> {9, 10, 11, 12, 13, 32, 160}"

definition js_trim :: "string \<Rightarrow> string" where
  "js_trim s = rev (dropWhile js_space (rev (dropWhile js_space s)))"

definition radix_digit :: "int \<Rightarrow> char \<Rightarrow> int option" where
  "radix_digit radix c = (let n = (of_char c :: int);
     v = (if 48 \<le> n \<and> n \<le> 57 then n - 48 else if 97 \<le> n \<and> n \<le> 102 then n - 87 else if 65 \<le> n \<and> n \<le> 70 then n - 55 else 16)
   in if v < radix then Some v else None)"

fun radix_value :: "int \<Rightarrow> int \<Rightarrow> string \<Rightarrow> int option" where
  "radix_value radix acc [] = Some acc"
| "radix_value radix acc (c # s) = (case radix_digit radix c of None \<Rightarrow> None | Some v \<Rightarrow> radix_value radix (acc * radix + v) s)"

definition radix_literal :: "int \<Rightarrow> string \<Rightarrow> jsnumber" where
  "radix_literal radix s = (if s = [] then NaN else case radix_value radix 0 s of None \<Rightarrow> NaN | Some v \<Rightarrow> Dec v 0)"

text \<open>Leading decimal digits: their value, how many there are, and the rest.\<close>

fun scan_digits :: "int \<Rightarrow> nat \<Rightarrow> string \<Rightarrow> int \<times> nat \<times> string" where
  "scan_digits acc n [] = (acc, n, [])"
| "scan_digits acc n (c # s) = (case radix_digit 10 c of
      None \<Rightarrow> (acc, n, c # s)
    | Some v \<Rightarrow> scan_digits (acc * 10 + v) (Suc n) s)"

definition scan_sign :: "string \<Rightarrow> int \<times> string" where
  "scan_sign s = (case s of [] \<Rightarrow> (1, []) | c # r \<Rightarrow> if c = CHR ''-'' then (-1, r) else if c = CHR ''+'' then (1, r) else (1, s))"

text \<open>\<open>e\<close> or \<open>E\<close>, a sign and digits to the end; an empty rest is exponent 0.\<close>

definition scan_exponent :: "string \<Rightarrow> int option" where
  "scan_exponent s = (case s of
      [] \<Rightarrow> Some 0
    | c # r \<Rightarrow> if c \<noteq> CHR ''e'' \<and> c \<noteq> CHR ''E'' then None
        else (case scan_sign r of (sg, r') \<Rightarrow> (case scan_digits 0 0 r' of (v, n, rest) \<Rightarrow>
          if n = 0 \<or> rest \<noteq> [] then None else Some (sg * v))))"

definition decimal_literal :: "string \<Rightarrow> jsnumber" where
  "decimal_literal s = (case scan_digits 0 0 s of (whole, n, rest) \<Rightarrow>
     (case (case rest of c # r \<Rightarrow> if c = CHR ''.'' then scan_digits whole 0 r else (whole, 0, rest) | [] \<Rightarrow> (whole, 0, [])) of (m, k, rest') \<Rightarrow>
       if n = 0 \<and> k = 0 then NaN
       else (case scan_exponent rest' of None \<Rightarrow> NaN | Some e \<Rightarrow> Dec m (e - int k))))"

definition negate :: "jsnumber \<Rightarrow> jsnumber" where
  "negate v = (case v of NaN \<Rightarrow> NaN | Infinite b \<Rightarrow> Infinite (\<not> b) | Dec m e \<Rightarrow> Dec (- m) e)"

text \<open>The double nearest to a number: the number itself where it is one. A double has finitely many decimals.\<close>

definition js_round :: "jsnumber \<Rightarrow> jsnumber" where
  "js_round v = (case v of
      Dec m e \<Rightarrow> (let x = of_int m * 10 powi e :: rat; y = double_of x in
        if 2 ^ 1024 \<le> \<bar>y\<bar> then Infinite (0 < m)
        else if y = x then Dec m e
        else (case quotient_of y of (p, q) \<Rightarrow> let j = nat (bitlen q - 1) in Dec (p * 5 ^ j) (- int j)))
    | _ \<Rightarrow> v)"

definition numeral_value :: "string \<Rightarrow> jsnumber" where
  "numeral_value raw = (let s = js_trim raw in
     if s = [] then Dec 0 0
     else if take 2 s \<in> {''0x'', ''0X''} then radix_literal 16 (drop 2 s)
     else if take 2 s \<in> {''0o'', ''0O''} then radix_literal 8 (drop 2 s)
     else if take 2 s \<in> {''0b'', ''0B''} then radix_literal 2 (drop 2 s)
     else (case scan_sign s of (sg, r) \<Rightarrow>
       (let v = (if r = ''Infinity'' then Infinite True else decimal_literal r) in if sg < 0 then negate v else v)))"

definition js_Number :: "string \<Rightarrow> jsnumber" where
  "js_Number raw = js_round (numeral_value raw)"

section \<open>Reading a number\<close>

text \<open>\<open>Number.isInteger(v)\<close> and the integer it is.\<close>

definition js_integer :: "jsnumber \<Rightarrow> int option" where
  "js_integer v = (case v of
      Dec m e \<Rightarrow> (if 0 \<le> e then Some (m * 10 ^ nat e) else if m mod 10 ^ nat (- e) = 0 then Some (m div 10 ^ nat (- e)) else None)
    | _ \<Rightarrow> None)"

definition js_finite :: "jsnumber \<Rightarrow> bool" where
  "js_finite v \<longleftrightarrow> (case v of Dec m e \<Rightarrow> True | _ \<Rightarrow> False)"

section \<open>A number printed in decimal reads back\<close>

lemma radix_digit_char: "radix_digit 10 (digit_char d) = Some (int (d mod 10))"
proof -
  have "(of_char (digit_char d) :: int) = int (of_char (digit_char d) :: nat)" by (simp only: of_nat_of_char)
  also have "\<dots> = 48 + int (d mod 10)" by (simp add: of_char_digit)
  finally show ?thesis by (simp add: radix_digit_def Let_def)
qed

lemma scan_digits_append:
  "list_all (\<lambda>c. radix_digit 10 c \<noteq> None) s \<Longrightarrow>
     scan_digits acc n (s @ t) = (case scan_digits acc n s of (a, k, _) \<Rightarrow> scan_digits a k t)"
  by (induction s arbitrary: acc n) (auto split: option.splits prod.splits)

lemma show_nat_scans: "list_all (\<lambda>c. radix_digit 10 c \<noteq> None) (show_nat n)"
  using show_nat_digits [of _ n] by (auto simp: list_all_iff radix_digit_char dest!: show_nat_digits)

lemma scan_show_nat: "\<exists>k. 0 < k \<and> scan_digits 0 0 (show_nat n) = (int n, k, [])"
proof (induction n rule: show_nat.induct)
  case (1 n)
  show ?case
  proof (cases "n < 10")
    case True
    then show ?thesis by (subst show_nat.simps) (simp add: radix_digit_char)
  next
    case False
    from 1 [OF False] obtain k where k: "scan_digits 0 0 (show_nat (n div 10)) = (int (n div 10), k, [])" by blast
    have "scan_digits 0 0 (show_nat n) = scan_digits (int (n div 10)) k [digit_char n]"
      using False scan_digits_append [OF show_nat_scans, of 0 0 "n div 10" "[digit_char n]"] k
      by (subst show_nat.simps) simp
    also have "\<dots> = (int n, Suc k, [])" by (simp add: radix_digit_char) presburger
    finally show ?thesis by blast
  qed
qed

lemma digit_not_space: "\<not> js_space (digit_char d)"
  using digit_char_range [of d] by (auto simp: js_space_def)

lemma js_trim_digits:
  assumes "\<And>c. c \<in> set s \<Longrightarrow> \<not> js_space c"
  shows "js_trim s = s"
proof -
  have "dropWhile js_space t = t" if "\<And>c. c \<in> set t \<Longrightarrow> \<not> js_space c" for t using that by (cases t) auto
  from this [of s] this [of "rev s"] assms show ?thesis by (simp add: js_trim_def)
qed

lemma digit_is_none_of:
  "digit_char d \<notin> {CHR ''x'', CHR ''X'', CHR ''o'', CHR ''O'', CHR ''b'', CHR ''B'', CHR ''-'', CHR ''+'', CHR ''I''}"
proof
  assume "digit_char d \<in> {CHR ''x'', CHR ''X'', CHR ''o'', CHR ''O'', CHR ''b'', CHR ''B'', CHR ''-'', CHR ''+'', CHR ''I''}"
  then have "(of_char (digit_char d) :: nat) \<notin> {48..57}" by auto
  with digit_char_range [of d] show False by simp
qed

lemma take2_digits:
  assumes "\<And>c. c \<in> set s \<Longrightarrow> \<exists>d. c = digit_char d" and "x \<in> {CHR ''x'', CHR ''X'', CHR ''o'', CHR ''O'', CHR ''b'', CHR ''B''}"
  shows "take 2 s \<noteq> [CHR ''0'', x]"
proof
  assume t: "take 2 s = [CHR ''0'', x]"
  have "x \<in> set (take 2 s)" by (simp add: t)
  then have "x \<in> set s" by (rule in_set_takeD)
  then obtain e where "x = digit_char e" using assms(1) by blast
  with digit_is_none_of [of e] assms(2) show False by auto
qed

lemma numeral_show_nat: "numeral_value (show_nat n) = Dec (int n) 0"
proof -
  let ?s = "show_nat n"
  have d: "\<exists>d. c = digit_char d" if "c \<in> set ?s" for c using show_nat_digits [OF that] .
  have t: "js_trim ?s = ?s" by (rule js_trim_digits) (use d digit_not_space in blast)
  note p = take2_digits [OF d]
  obtain c r where s: "?s = c # r" by (cases ?s) (use show_nat_not_Nil in auto)
  have c: "c \<notin> {CHR ''-'', CHR ''+'', CHR ''I''}" using d [of c] digit_is_none_of by (auto simp: s)
  have sg: "scan_sign ?s = (1, ?s)" using c by (simp add: scan_sign_def s)
  have ni: "?s \<noteq> ''Infinity''" using c by (simp add: s)
  obtain k where k: "0 < k" "scan_digits 0 0 ?s = (int n, k, [])" using scan_show_nat by blast
  have "decimal_literal ?s = Dec (int n) 0"
    using k by (simp add: decimal_literal_def scan_exponent_def)
  then show ?thesis
    by (simp add: numeral_value_def Let_def t sg ni p)
qed

text \<open>Up to \<open>2 ^ 53\<close> a numeral is read as the number it shows; from \<open>2 ^ 1024\<close> on, as infinite.\<close>

lemma js_round_int: "0 \<le> n \<Longrightarrow> n \<le> 2 ^ 53 \<Longrightarrow> js_round (Dec n 0) = Dec n 0"
proof -
  assume n: "0 \<le> n" "n \<le> 2 ^ 53"
  then have "double_of (of_int n :: rat) = of_int n" by (intro double_exact is_double_int) simp_all
  moreover have "(of_int n :: rat) \<le> of_int (2 ^ 53)" using n(2) by (simp only: of_int_le_iff)
  then have "\<not> 2 ^ 1024 \<le> \<bar>of_int n :: rat\<bar>" using n(1) by simp
  ultimately show ?thesis by (simp add: js_round_def)
qed

lemma js_Number_show_nat: "n \<le> 2 ^ 53 \<Longrightarrow> js_Number (show_nat n) = Dec (int n) 0"
proof -
  assume "n \<le> 2 ^ 53"
  then have "int n \<le> int (2 ^ 53)" by (simp only: of_nat_le_iff)
  then have "int n \<le> 2 ^ 53" by simp
  with js_round_int [of "int n"] show ?thesis by (simp only: js_Number_def numeral_show_nat of_nat_0_le_iff)
qed

lemma js_round_infinite: "0 < m \<Longrightarrow> 2 ^ 1024 \<le> of_int m * (10 :: rat) powi e \<Longrightarrow> js_round (Dec m e) = Infinite True"
proof -
  assume m: "0 < m" "2 ^ 1024 \<le> of_int m * (10 :: rat) powi e"
  from double_ge [OF is_double_infinity _ m(2)] have "2 ^ 1024 \<le> double_of (of_int m * (10 :: rat) powi e)" by simp
  then have "2 ^ 1024 \<le> \<bar>double_of (of_int m * (10 :: rat) powi e)\<bar>" by (rule order_trans [OF _ abs_ge_self])
  with m(1) show ?thesis by (simp only: js_round_def Let_def jsnumber.case if_True)
qed

end
