(* ===== verification/Json.thy ===== *)
theory Json
  imports Prelude "HOL-Library.Word"
begin

text \<open>
  JSON values with the strings JavaScript has, sequences of 16-bit code units, \<open>JSON.stringify\<close> of them,
  and the check of \<open>packages/db/src/commands/admin.ts\<close> that a value's text is one jsonb takes
  (\<open>jsonText\<close>): it refuses exactly the values with a NUL or an unpaired surrogate in a string or key.
\<close>

type_synonym unit16 = "16 word"
type_synonym jstext = "unit16 list"

text \<open>An 8-bit text as code units.\<close>

definition units_of :: "string \<Rightarrow> jstext" where
  "units_of s = map (\<lambda>c. word_of_nat (of_char c)) s"

text \<open>
  A value as \<open>JSON.stringify\<close> meets it. A number is its text; \<open>JUnserialisable\<close> is one it throws on (a
  bigint, a cycle).
\<close>

datatype json =
    JNull
  | JBool bool
  | JNum jstext
  | JStr jstext
  | JArr "json list"
  | JObj "(jstext \<times> json) list"
  | JUnserialisable

section \<open>\<open>JSON.stringify\<close>\<close>

definition BACKSLASH :: unit16 where "BACKSLASH = 0x5C"
definition QUOTE :: unit16 where "QUOTE = 0x22"

definition hex16 :: "unit16 \<Rightarrow> unit16" where
  "hex16 d = (if d < 10 then 0x30 + d else 0x57 + d)"

definition unicode_escape :: "unit16 \<Rightarrow> jstext" where
  "unicode_escape u = [BACKSLASH, 0x75, hex16 (u div 0x1000), hex16 (u div 0x100 mod 0x10), hex16 (u div 0x10 mod 0x10), hex16 (u mod 0x10)]"

definition high_surrogate :: "unit16 \<Rightarrow> bool" where "high_surrogate u \<longleftrightarrow> 0xD800 \<le> u \<and> u \<le> 0xDBFF"
definition low_surrogate :: "unit16 \<Rightarrow> bool" where "low_surrogate u \<longleftrightarrow> 0xDC00 \<le> u \<and> u \<le> 0xDFFF"

definition escape_unit :: "unit16 \<Rightarrow> jstext" where
  "escape_unit u = (
     if u = QUOTE then [BACKSLASH, QUOTE] else if u = BACKSLASH then [BACKSLASH, BACKSLASH]
     else if u = 8 then [BACKSLASH, 0x62] else if u = 9 then [BACKSLASH, 0x74] else if u = 10 then [BACKSLASH, 0x6E]
     else if u = 12 then [BACKSLASH, 0x66] else if u = 13 then [BACKSLASH, 0x72]
     else if u < 32 then unicode_escape u else [u])"

text \<open>The pieces of a string: a surrogate pair stays, an unpaired surrogate is escaped.\<close>

fun string_pieces :: "jstext \<Rightarrow> jstext list" where
  "string_pieces [] = []"
| "string_pieces [u] = [if high_surrogate u \<or> low_surrogate u then unicode_escape u else escape_unit u]"
| "string_pieces (u # v # s) =
     (if high_surrogate u \<and> low_surrogate v then [u, v] # string_pieces s
      else (if high_surrogate u \<or> low_surrogate u then unicode_escape u else escape_unit u) # string_pieces (v # s))"

definition quote_json :: "jstext \<Rightarrow> jstext" where
  "quote_json s = QUOTE # concat (string_pieces s) @ [QUOTE]"

fun commas :: "jstext list \<Rightarrow> jstext" where
  "commas [] = []"
| "commas [x] = x"
| "commas (x # y # xs) = x @ 0x2C # commas (y # xs)"

fun stringify :: "json \<Rightarrow> jstext option" and stringify_list :: "json list \<Rightarrow> jstext list option"
  and stringify_fields :: "(jstext \<times> json) list \<Rightarrow> jstext list option" where
  "stringify JNull = Some (units_of ''null'')"
| "stringify (JBool b) = Some (units_of (if b then ''true'' else ''false''))"
| "stringify (JNum n) = Some n"
| "stringify (JStr s) = Some (quote_json s)"
| "stringify (JArr xs) = map_option (\<lambda>ts. 0x5B # commas ts @ [0x5D]) (stringify_list xs)"
| "stringify (JObj fs) = map_option (\<lambda>ts. 0x7B # commas ts @ [0x7D]) (stringify_fields fs)"
| "stringify JUnserialisable = None"
| "stringify_list [] = Some []"
| "stringify_list (x # xs) = (case stringify x of None \<Rightarrow> None | Some t \<Rightarrow> map_option ((#) t) (stringify_list xs))"
| "stringify_fields [] = Some []"
| "stringify_fields (f # fs) = (case stringify (snd f) of None \<Rightarrow> None
     | Some t \<Rightarrow> map_option ((#) (quote_json (fst f) @ 0x3A # t)) (stringify_fields fs))"

section \<open>The two patterns\<close>

definition hex_digit :: "unit16 \<Rightarrow> bool" where
  "hex_digit u \<longleftrightarrow> 0x30 \<le> u \<and> u \<le> 0x39 \<or> 0x61 \<le> u \<and> u \<le> 0x66 \<or> 0x41 \<le> u \<and> u \<le> 0x46"

definition letter_d :: "unit16 \<Rightarrow> bool" where "letter_d u \<longleftrightarrow> u = 0x64 \<or> u = 0x44"

text \<open>\<open>\\u[dD][89abAB][0-9a-fA-F]{2}\\u[dD][c-fC-F][0-9a-fA-F]{2}\<close> at the front.\<close>

definition pair_escape :: "jstext \<Rightarrow> bool" where
  "pair_escape s \<longleftrightarrow> (case s of
      a # b # c # d # e # f # g # h # i # j # k # l # _ \<Rightarrow>
        a = BACKSLASH \<and> b = 0x75 \<and> letter_d c \<and> d \<in> {0x38, 0x39, 0x61, 0x62, 0x41, 0x42} \<and> hex_digit e \<and> hex_digit f
        \<and> g = BACKSLASH \<and> h = 0x75 \<and> letter_d i \<and> (0x63 \<le> j \<and> j \<le> 0x66 \<or> 0x43 \<le> j \<and> j \<le> 0x46) \<and> hex_digit k \<and> hex_digit l
    | _ \<Rightarrow> False)"

text \<open>\<open>json.replace(JSON_VALID_ESCAPES, "")\<close>: the leftmost matches go, left to right.\<close>

function drop_valid_escapes :: "jstext \<Rightarrow> jstext" where
  "drop_valid_escapes s = (case s of
      [] \<Rightarrow> []
    | u # r \<Rightarrow> if take 2 s = [BACKSLASH, BACKSLASH] then drop_valid_escapes (drop 2 s)
        else if pair_escape s then drop_valid_escapes (drop 12 s)
        else u # drop_valid_escapes r)"
  by auto
termination by (relation "measure length") (auto split: if_splits)

declare drop_valid_escapes.simps [simp del]

text \<open>\<open>\\u(?:0000|[dD][89a-fA-F][0-9a-fA-F]{2})\<close> at the front, then anywhere.\<close>

definition refused_escape :: "jstext \<Rightarrow> bool" where
  "refused_escape s \<longleftrightarrow> (case s of
      a # b # c # d # e # f # _ \<Rightarrow> a = BACKSLASH \<and> b = 0x75
        \<and> (c = 0x30 \<and> d = 0x30 \<and> e = 0x30 \<and> f = 0x30
           \<or> letter_d c \<and> (d = 0x38 \<or> d = 0x39 \<or> 0x61 \<le> d \<and> d \<le> 0x66 \<or> 0x41 \<le> d \<and> d \<le> 0x46) \<and> hex_digit e \<and> hex_digit f)
    | _ \<Rightarrow> False)"

fun refuses :: "jstext \<Rightarrow> bool" where
  "refuses [] \<longleftrightarrow> False"
| "refuses (u # s) \<longleftrightarrow> refused_escape (u # s) \<or> refuses s"

text \<open>\<open>None\<close> is the throw of \<open>invalid_input\<close>. Anything but an object is refused.\<close>

definition jsonText :: "json \<Rightarrow> jstext option" where
  "jsonText v = (case v of
      JObj fs \<Rightarrow> (case stringify (JObj fs) of
          None \<Rightarrow> None
        | Some t \<Rightarrow> if refuses (drop_valid_escapes t) then None else Some t)
    | _ \<Rightarrow> None)"

lemma high_nibble: "high_surrogate u \<or> low_surrogate u \<Longrightarrow> u div 0x1000 = 13"
proof -
  assume "high_surrogate u \<or> low_surrogate u"
  then have "0xD800 \<le> unat u" "unat u \<le> 0xDFFF" by (auto simp: high_surrogate_def low_surrogate_def word_le_nat_alt)
  then have "unat u div 0x1000 = 13" by linarith
  then have "unat (u div 0x1000) = unat (13 :: unit16)" by (simp add: unat_div)
  then show ?thesis by (simp only: word_unat_eq_iff)
qed

lemma second_nibble:
  "high_surrogate u \<Longrightarrow> u div 0x100 mod 0x10 \<in> {8, 9, 10, 11}" "low_surrogate u \<Longrightarrow> u div 0x100 mod 0x10 \<in> {12, 13, 14, 15}"
proof -
  have e: "unat (u div 0x100 mod 0x10) = unat u div 0x100 mod 0x10" by (simp add: unat_div unat_mod)
  have m: "w \<in> {a, b, c, e}" if "unat w \<in> {unat a, unat b, unat c, unat e}" for w a b c e :: unit16
    using that by (auto simp: word_unat_eq_iff)
  show "u div 0x100 mod 0x10 \<in> {8, 9, 10, 11}" if "high_surrogate u"
  proof (rule m)
    from that have "0xD800 \<le> unat u" "unat u \<le> 0xDBFF" by (auto simp: high_surrogate_def word_le_nat_alt)
    then have "unat u div 0x100 \<in> {0xD8, 0xD9, 0xDA, 0xDB}" by (simp; linarith)
    then show "unat (u div 0x100 mod 0x10) \<in> {unat (8::unit16), unat (9::unit16), unat (10::unit16), unat (11::unit16)}" by (auto simp: e)
  qed
  show "u div 0x100 mod 0x10 \<in> {12, 13, 14, 15}" if "low_surrogate u"
  proof (rule m)
    from that have "0xDC00 \<le> unat u" "unat u \<le> 0xDFFF" by (auto simp: low_surrogate_def word_le_nat_alt)
    then have "unat u div 0x100 \<in> {0xDC, 0xDD, 0xDE, 0xDF}" by (simp; linarith)
    then show "unat (u div 0x100 mod 0x10) \<in> {unat (12::unit16), unat (13::unit16), unat (14::unit16), unat (15::unit16)}" by (auto simp: e)
  qed
qed

lemma nibble_small: "unat ((x :: unit16) mod 0x10) < 16"
  by (simp add: unat_mod)

lemma hex_nibble: "hex_digit (hex16 (x mod 0x10))"
  using nibble_small [of x]
  by (auto simp: hex16_def hex_digit_def word_le_nat_alt word_less_nat_alt unat_word_ariths)

lemma hex16_zero: "hex16 (x mod 0x10) = 0x30 \<longleftrightarrow> x mod 0x10 = 0"
  using nibble_small [of x]
  by (auto simp: hex16_def word_less_nat_alt word_unat_eq_iff unat_word_ariths)

lemma control_nibbles:
  assumes "u < 32"
  shows "u div 0x1000 = 0" "u div 0x100 mod 0x10 = 0" "u = 0 \<longleftrightarrow> hex16 (u div 0x10 mod 0x10) = 0x30 \<and> hex16 (u mod 0x10) = 0x30"
proof -
  have u: "unat u < 32" using assms by (simp add: word_less_nat_alt)
  then show "u div 0x1000 = 0" "u div 0x100 mod 0x10 = 0" by (simp_all add: word_unat_eq_iff unat_div unat_mod)
  have "u = 0 \<longleftrightarrow> unat u div 16 mod 16 = 0 \<and> unat u mod 16 = 0" using u unfolding word_unat_eq_iff by simp presburger
  then show "u = 0 \<longleftrightarrow> hex16 (u div 0x10 mod 0x10) = 0x30 \<and> hex16 (u mod 0x10) = 0x30"
    unfolding hex16_zero by (simp add: word_unat_eq_iff unat_div unat_mod)
qed

text \<open>What \<open>jsonText\<close> looks for in a text, and the characters it passes over.\<close>

definition bad :: "jstext \<Rightarrow> bool" where
  "bad t \<longleftrightarrow> refuses (drop_valid_escapes t)"

lemma special_units [simp]: "BACKSLASH \<noteq> QUOTE" "QUOTE \<noteq> BACKSLASH" "BACKSLASH \<noteq> 0x75"
  by (simp_all add: BACKSLASH_def QUOTE_def)

lemma refuses_skip: "u \<noteq> BACKSLASH \<Longrightarrow> \<not> refused_escape (u # s)"
  by (simp add: refused_escape_def split: list.split)

lemma drop_skip: "u \<noteq> BACKSLASH \<Longrightarrow> drop_valid_escapes (u # s) = u # drop_valid_escapes s"
  by (subst drop_valid_escapes.simps) (simp add: pair_escape_def split: list.split)

lemma drop_Nil [simp]: "drop_valid_escapes [] = []"
  by (subst drop_valid_escapes.simps) simp

lemma bad_plain: "u \<noteq> BACKSLASH \<Longrightarrow> bad (u # s) = bad s"
  by (simp add: bad_def drop_skip refuses_skip)

lemma bad_double: "bad (BACKSLASH # BACKSLASH # s) = bad s"
  by (simp add: bad_def, subst drop_valid_escapes.simps) simp

lemma bad_short:
  assumes "x \<noteq> BACKSLASH" and "x \<noteq> 0x75"
  shows "bad (BACKSLASH # x # s) = bad s"
proof -
  have "drop_valid_escapes (BACKSLASH # x # s) = BACKSLASH # x # drop_valid_escapes s"
    by (subst drop_valid_escapes.simps) (use assms in \<open>simp add: pair_escape_def drop_skip split: list.split\<close>)
  then show ?thesis using assms by (simp add: bad_def refuses_skip) (simp add: refused_escape_def split: list.split)
qed

lemma hex16_not_backslash: "hex16 (x mod 0x10) \<noteq> BACKSLASH"
  using hex_nibble [of x] by (auto simp: hex_digit_def BACKSLASH_def)

lemma bad_unicode:
  assumes "c \<noteq> BACKSLASH" "d \<noteq> BACKSLASH" "e \<noteq> BACKSLASH" "f \<noteq> BACKSLASH"
    and "\<not> pair_escape (BACKSLASH # 0x75 # c # d # e # f # s)"
  shows "bad (BACKSLASH # 0x75 # c # d # e # f # s) \<longleftrightarrow> refused_escape (BACKSLASH # 0x75 # c # d # e # f # s) \<or> bad s"
proof -
  have "drop_valid_escapes (BACKSLASH # 0x75 # c # d # e # f # s) = BACKSLASH # 0x75 # c # d # e # f # drop_valid_escapes s"
    by (subst drop_valid_escapes.simps) (use assms in \<open>simp add: drop_skip BACKSLASH_def\<close>)
  moreover have "refused_escape (BACKSLASH # 0x75 # c # d # e # f # s') = refused_escape (BACKSLASH # 0x75 # c # d # e # f # s)" for s'
    by (simp add: refused_escape_def)
  moreover have "refuses (0x75 # c # d # e # f # s') = refuses s'" for s'
    using assms by (simp add: refuses_skip)
  ultimately show ?thesis unfolding bad_def by (metis refuses.simps(2))
qed

text \<open>The escape of one code unit, before what follows it.\<close>

lemma unicode_nibbles:
  "hex16 (u mod 0x10) \<noteq> BACKSLASH" "hex16 (u div 0x10 mod 0x10) \<noteq> BACKSLASH" "hex16 (u div 0x100 mod 0x10) \<noteq> BACKSLASH"
  by (rule hex16_not_backslash)+

lemma bad_control:
  assumes "u < 32"
  shows "bad (unicode_escape u @ s) \<longleftrightarrow> u = 0 \<or> bad s"
proof -
  note n = control_nibbles [OF assms]
  have h: "hex16 (u div 0x1000) = 0x30" "hex16 (u div 0x100 mod 0x10) = 0x30" by (simp_all add: n hex16_def)
  have p: "\<not> pair_escape (BACKSLASH # 0x75 # 0x30 # r)" for r by (simp add: pair_escape_def letter_d_def split: list.split)
  have b: "(0x30 :: unit16) \<noteq> BACKSLASH" by (simp add: BACKSLASH_def)
  have "bad (unicode_escape u @ s) \<longleftrightarrow> refused_escape (BACKSLASH # 0x75 # 0x30 # 0x30 # hex16 (u div 0x10 mod 0x10) # hex16 (u mod 0x10) # s) \<or> bad s"
    unfolding unicode_escape_def h append.simps by (rule bad_unicode) (use b p unicode_nibbles in auto)
  then show ?thesis using n(3) by (auto simp: refused_escape_def letter_d_def)
qed

text \<open>The text of a string cannot continue an escape of its last unit into the escape of a low surrogate.\<close>

definition starts_low :: "jstext \<Rightarrow> bool" where
  "starts_low s \<longleftrightarrow> (case s of g # h # i # j # _ \<Rightarrow> g = BACKSLASH \<and> h = 0x75 \<and> letter_d i
     \<and> (0x63 \<le> j \<and> j \<le> 0x66 \<or> 0x43 \<le> j \<and> j \<le> 0x46) | _ \<Rightarrow> False)"

lemma surrogate_digits:
  "high_surrogate u \<Longrightarrow> hex16 (u div 0x100 mod 0x10) \<in> {0x38, 0x39, 0x61, 0x62}"
  "low_surrogate u \<Longrightarrow> hex16 (u div 0x100 mod 0x10) \<in> {0x63, 0x64, 0x65, 0x66}"
  using second_nibble [of u] by (auto simp: hex16_def)

lemma bad_surrogate:
  assumes "high_surrogate u \<and> \<not> starts_low s \<or> low_surrogate u"
  shows "bad (unicode_escape u @ s)"
proof -
  have d: "hex16 (u div 0x1000) = 0x64" using high_nibble [of u] assms by (auto simp: hex16_def)
  have b: "(0x64 :: unit16) \<noteq> BACKSLASH" by (simp add: BACKSLASH_def)
  have p: "\<not> pair_escape (BACKSLASH # 0x75 # 0x64 # hex16 (u div 0x100 mod 0x10) # hex16 (u div 0x10 mod 0x10) # hex16 (u mod 0x10) # s)"
    using assms surrogate_digits [of u] by (auto simp: pair_escape_def starts_low_def split: list.splits)
  have "bad (unicode_escape u @ s) \<longleftrightarrow> refused_escape (BACKSLASH # 0x75 # 0x64 # hex16 (u div 0x100 mod 0x10)
      # hex16 (u div 0x10 mod 0x10) # hex16 (u mod 0x10) # s) \<or> bad s"
    unfolding unicode_escape_def d append.simps by (rule bad_unicode) (use b p unicode_nibbles in auto)
  moreover have "hex16 (u div 0x100 mod 0x10) \<in> {0x38, 0x39, 0x61, 0x62, 0x63, 0x64, 0x65, 0x66}"
    using assms surrogate_digits [of u] by auto
  ultimately show ?thesis using hex_nibble [of u] hex_nibble [of "u div 0x10"] by (auto simp: refused_escape_def letter_d_def)
qed

text \<open>A string jsonb takes: no NUL and no unpaired surrogate.\<close>

fun clean_text :: "jstext \<Rightarrow> bool" where
  "clean_text [] \<longleftrightarrow> True"
| "clean_text [u] \<longleftrightarrow> u \<noteq> 0 \<and> \<not> high_surrogate u \<and> \<not> low_surrogate u"
| "clean_text (u # v # s) \<longleftrightarrow> (if high_surrogate u \<and> low_surrogate v then clean_text s
     else u \<noteq> 0 \<and> \<not> high_surrogate u \<and> \<not> low_surrogate u \<and> clean_text (v # s))"

lemma surrogate_plain: "high_surrogate u \<or> low_surrogate u \<Longrightarrow> u \<noteq> BACKSLASH"
  by (auto simp: high_surrogate_def low_surrogate_def BACKSLASH_def)

lemma bad_escape_unit:
  assumes "\<not> high_surrogate u" and "\<not> low_surrogate u"
  shows "bad (escape_unit u @ s) \<longleftrightarrow> u = 0 \<or> bad s"
proof -
  consider "u = QUOTE" | "u = BACKSLASH" | "u \<noteq> QUOTE" "u \<noteq> BACKSLASH" "u \<in> {8, 9, 10, 12, 13}"
    | "u \<noteq> QUOTE" "u \<noteq> BACKSLASH" "u \<notin> {8, 9, 10, 12, 13}" "u < 32" | "u \<noteq> QUOTE" "u \<noteq> BACKSLASH" "u \<notin> {8, 9, 10, 12, 13}" "\<not> u < 32"
    by blast
  then show ?thesis
  proof cases
    case 1
    have "bad (BACKSLASH # QUOTE # s) = bad s" by (rule bad_short) (simp_all add: QUOTE_def BACKSLASH_def)
    moreover have "QUOTE \<noteq> 0" by (simp add: QUOTE_def)
    ultimately show ?thesis using 1 by (simp add: escape_unit_def)
  next
    case 2
    then show ?thesis by (simp add: escape_unit_def bad_double) (simp add: BACKSLASH_def)
  next
    case 3
    then have "\<exists>x. escape_unit u = [BACKSLASH, x] \<and> x \<noteq> BACKSLASH \<and> x \<noteq> 0x75"
      by (auto simp: escape_unit_def BACKSLASH_def QUOTE_def)
    with 3 show ?thesis by (auto simp: bad_short)
  next
    case 4
    then show ?thesis using bad_control [of u s] by (simp add: escape_unit_def)
  next
    case 5
    then show ?thesis by (auto simp: escape_unit_def bad_plain)
  qed
qed

text \<open>What the text of a string, up to its closing quote, can start with.\<close>

definition piece :: "unit16 \<Rightarrow> jstext" where
  "piece u = (if high_surrogate u \<or> low_surrogate u then unicode_escape u else escape_unit u)"

lemma string_pieces_piece:
  "string_pieces [u] = [piece u]"
  "string_pieces (u # v # s) = (if high_surrogate u \<and> low_surrogate v then [u, v] # string_pieces s else piece u # string_pieces (v # s))"
  by (simp_all add: piece_def)

lemma starts_low_piece: "\<not> low_surrogate u \<Longrightarrow> \<not> starts_low (piece u @ r)"
proof -
  assume u: "\<not> low_surrogate u"
  have b: "(0x75 :: unit16) \<noteq> 0x5C" by simp
  consider "high_surrogate u" | "\<not> high_surrogate u" "u < 32" | "\<not> high_surrogate u" "\<not> u < 32" by blast
  then show ?thesis
  proof cases
    case 1
    then show ?thesis using surrogate_digits(1) [of u] by (auto simp: piece_def starts_low_def unicode_escape_def)
  next
    case 2
    have "hex16 (u div 0x1000) = 0x30" using control_nibbles(1) [OF 2(2)] by (simp add: hex16_def)
    with 2 u show ?thesis
      by (auto simp: piece_def escape_unit_def starts_low_def unicode_escape_def letter_d_def BACKSLASH_def QUOTE_def split: list.split)
  next
    case 3
    with u show ?thesis
      by (auto simp: piece_def escape_unit_def starts_low_def BACKSLASH_def QUOTE_def split: list.split)
  qed
qed

lemma starts_low_plain: "u \<noteq> BACKSLASH \<Longrightarrow> \<not> starts_low (u # r)"
  by (auto simp: starts_low_def split: list.split)

lemma bad_pieces: "bad (concat (string_pieces s) @ QUOTE # r) \<longleftrightarrow> \<not> clean_text s \<or> bad r"
proof (induction s rule: clean_text.induct)
  case 1
  then show ?case by (simp add: bad_plain)
next
  case (2 u)
  show ?case
  proof (cases "high_surrogate u \<or> low_surrogate u")
    case True
    then have "bad (unicode_escape u @ QUOTE # r)" by (intro bad_surrogate) (auto simp: starts_low_plain)
    with True show ?thesis by auto
  next
    case False
    then show ?thesis by (simp add: bad_escape_unit bad_plain)
  qed
next
  case (3 u v s)
  show ?case
  proof (cases "high_surrogate u \<and> low_surrogate v")
    case True
    then have "u \<noteq> BACKSLASH" "v \<noteq> BACKSLASH" using surrogate_plain by blast+
    with True 3 show ?thesis by (simp add: bad_plain)
  next
    case False
    note IH = "3.IH"(2) [OF False]
    have sp: "concat (string_pieces (u # v # s)) @ QUOTE # r = piece u @ (concat (string_pieces (v # s)) @ QUOTE # r)"
      unfolding string_pieces_piece(2) if_not_P [OF False] by simp
    show ?thesis
    proof (cases "high_surrogate u \<or> low_surrogate u")
      case sur: True
      have "\<not> starts_low (concat (string_pieces (v # s)) @ QUOTE # r)" if "high_surrogate u"
      proof -
        have v: "\<not> low_surrogate v" using False that by blast
        show ?thesis
        proof (cases s)
          case Nil
          then show ?thesis using starts_low_piece [OF v] by (simp add: piece_def)
        next
          case (Cons w t)
          then show ?thesis
            using starts_low_piece [OF v, of "concat (string_pieces (w # t)) @ QUOTE # r"] surrogate_plain [of v]
            unfolding Cons string_pieces_piece(2) by (auto simp: starts_low_plain)
        qed
      qed
      then have "bad (unicode_escape u @ (concat (string_pieces (v # s)) @ QUOTE # r))" using sur by (intro bad_surrogate) blast
      then have "bad (piece u @ (concat (string_pieces (v # s)) @ QUOTE # r))" using sur by (simp add: piece_def)
      with sur False show ?thesis unfolding sp by auto
    next
      case plain: False
      then have "bad (piece u @ (concat (string_pieces (v # s)) @ QUOTE # r)) \<longleftrightarrow> u = 0 \<or> bad (concat (string_pieces (v # s)) @ QUOTE # r)"
        by (simp add: piece_def bad_escape_unit)
      with plain IH show ?thesis unfolding sp by auto
    qed
  qed
qed

section \<open>Values\<close>

fun clean_json :: "json \<Rightarrow> bool" where
  "clean_json (JStr s) \<longleftrightarrow> clean_text s"
| "clean_json (JArr xs) \<longleftrightarrow> list_all clean_json xs"
| "clean_json (JObj fs) \<longleftrightarrow> list_all (\<lambda>f. clean_text (fst f) \<and> clean_json (snd f)) fs"
| "clean_json _ \<longleftrightarrow> True"

fun serialisable :: "json \<Rightarrow> bool" where
  "serialisable (JArr xs) \<longleftrightarrow> list_all serialisable xs"
| "serialisable (JObj fs) \<longleftrightarrow> list_all (\<lambda>f. serialisable (snd f)) fs"
| "serialisable JUnserialisable \<longleftrightarrow> False"
| "serialisable _ \<longleftrightarrow> True"

text \<open>The text of a number has no backslash.\<close>

fun plain_numbers :: "json \<Rightarrow> bool" where
  "plain_numbers (JNum n) \<longleftrightarrow> BACKSLASH \<notin> set n"
| "plain_numbers (JArr xs) \<longleftrightarrow> list_all plain_numbers xs"
| "plain_numbers (JObj fs) \<longleftrightarrow> list_all (\<lambda>f. plain_numbers (snd f)) fs"
| "plain_numbers _ \<longleftrightarrow> True"

lemma bad_plain_text: "BACKSLASH \<notin> set t \<Longrightarrow> bad (t @ r) = bad r"
  by (induction t) (auto simp: bad_plain)

lemma bad_quoted: "bad (quote_json s @ r) \<longleftrightarrow> \<not> clean_text s \<or> bad r"
  using bad_pieces [of s r] by (simp add: quote_json_def bad_plain)

lemma serialisable_iff:
  "serialisable v \<longleftrightarrow> stringify v \<noteq> None"
  "list_all serialisable vs \<longleftrightarrow> stringify_list vs \<noteq> None"
  "list_all (\<lambda>f. serialisable (snd f)) fs \<longleftrightarrow> stringify_fields fs \<noteq> None"
  by (induction v and vs and fs rule: stringify_stringify_list_stringify_fields.induct) (auto split: option.splits)

lemma bad_commas:
  "c \<noteq> BACKSLASH \<Longrightarrow> (\<And>t r. t \<in> set ts \<Longrightarrow> bad (t @ r) \<longleftrightarrow> B t \<or> bad r) \<Longrightarrow> bad (commas ts @ c # r) \<longleftrightarrow> (\<exists>t\<in>set ts. B t) \<or> bad r"
  by (induction ts rule: commas.induct) (auto simp: bad_plain BACKSLASH_def)

text \<open>The text of a value, before anything, is bad exactly when one of its strings is not clean.\<close>

lemma bad_stringify:
  "plain_numbers v \<Longrightarrow> stringify v = Some t \<Longrightarrow> bad (t @ r) \<longleftrightarrow> \<not> clean_json v \<or> bad r"
  "list_all plain_numbers vs \<Longrightarrow> stringify_list vs = Some ts \<Longrightarrow> c \<noteq> BACKSLASH \<Longrightarrow>
     bad (commas ts @ c # r) \<longleftrightarrow> \<not> list_all clean_json vs \<or> bad r"
  "list_all (\<lambda>f. plain_numbers (snd f)) fs \<Longrightarrow> stringify_fields fs = Some ts \<Longrightarrow> c \<noteq> BACKSLASH \<Longrightarrow>
     bad (commas ts @ c # r) \<longleftrightarrow> \<not> list_all (\<lambda>f. clean_text (fst f) \<and> clean_json (snd f)) fs \<or> bad r"
proof (induction v and vs and fs arbitrary: t r and ts c r and ts c r rule: stringify_stringify_list_stringify_fields.induct)
  case (9 x xs)
  then obtain t ts' where t: "stringify x = Some t" "stringify_list xs = Some ts'" "ts = t # ts'" by (auto split: option.splits)
  show ?case
  proof (cases ts')
    case Nil
    then have "xs = []" using t(2) by (cases xs) (auto split: option.splits)
    with 9 t Nil show ?thesis by (simp add: bad_plain)
  next
    case (Cons y ys)
    with 9 t show ?thesis by (auto simp: bad_plain BACKSLASH_def)
  qed
next
  case (11 f fs)
  then obtain t ts' where t: "stringify (snd f) = Some t" "stringify_fields fs = Some ts'" "ts = (quote_json (fst f) @ 0x3A # t) # ts'"
    by (auto split: option.splits)
  show ?case
  proof (cases ts')
    case Nil
    then have "fs = []" using t(2) by (cases fs) (auto split: option.splits)
    with 11 t Nil show ?thesis by (auto simp: bad_plain bad_quoted BACKSLASH_def)
  next
    case (Cons y ys)
    with 11 t show ?thesis by (auto simp: bad_plain bad_quoted BACKSLASH_def)
  qed
qed (auto simp: bad_plain bad_quoted bad_plain_text units_of_def BACKSLASH_def)

text \<open>
  C27: \<open>jsonText\<close> accepts exactly the objects JavaScript can serialise none of whose strings and keys holds
  a NUL or an unpaired surrogate, the two things jsonb refuses; the escapes its second pattern looks for
  are found only where the value has such a character, whatever backslashes the value's own text has.
\<close>

theorem jsonText_exact:
  assumes "plain_numbers v"
  shows "jsonText v \<noteq> None \<longleftrightarrow> (\<exists>fs. v = JObj fs) \<and> serialisable v \<and> clean_json v"
proof (cases "\<exists>fs. v = JObj fs")
  case True
  then obtain fs where v: "v = JObj fs" by blast
  show ?thesis
  proof (cases "stringify v")
    case None
    then show ?thesis using serialisable_iff(1) [of v] unfolding v jsonText_def by simp
  next
    case (Some t)
    have "bad (t @ []) \<longleftrightarrow> \<not> clean_json v \<or> bad []" by (rule bad_stringify(1) [OF assms Some])
    then have "refuses (drop_valid_escapes t) \<longleftrightarrow> \<not> clean_json v" by (simp add: bad_def)
    moreover have "serialisable v" using serialisable_iff(1) [of v] Some by simp
    ultimately show ?thesis using Some unfolding v jsonText_def json.case by (simp del: stringify.simps)
  qed
next
  case False
  then show ?thesis by (cases v) (auto simp: jsonText_def)
qed

text \<open>A key that spells an escape is text, and a NUL in a value is not.\<close>

theorem jsonText_exact_witness:
  "jsonText (JObj [(BACKSLASH # units_of ''u0000'', JNum [0x31])]) \<noteq> None \<and> jsonText (JObj [(units_of ''a'', JStr [0])]) = None"
proof
  have c: "clean_text (BACKSLASH # units_of ''u0000'')" by code_simp
  show "jsonText (JObj [(BACKSLASH # units_of ''u0000'', JNum [0x31])]) \<noteq> None"
    by (rule jsonText_exact [THEN iffD2]) (use c in \<open>simp_all add: BACKSLASH_def\<close>)
  show "jsonText (JObj [(units_of ''a'', JStr [0])]) = None"
    using jsonText_exact [of "JObj [(units_of ''a'', JStr [0])]"] by simp
qed

end
