(* ===== verification/JsonValue.thy ===== *)
theory JsonValue
  imports JsNumber Json
begin

text \<open>
  JSON values as the commands and the API pass them, with 8-bit strings and decimal numbers; the text JavaScript
  prints for a number; and the value as \<open>JSON.stringify\<close> meets it. The fields of an object have no order that
  matters.
\<close>

datatype jval =
    VNull
  | VBool bool
  | VNum jsnumber
  | VStr string
  | VArr "jval list"
  | VObj "(string \<times> jval) list"

abbreviation VInt :: "int \<Rightarrow> jval" where "VInt n \<equiv> VNum (Dec n 0)"

section \<open>Number printing\<close>

text \<open>\<open>Number::toString\<close>: the digits of the significand without trailing zeros, and the place of the point.\<close>

fun strip_zeros :: "nat \<Rightarrow> int \<Rightarrow> int \<Rightarrow> int \<times> int" where
  "strip_zeros 0 m e = (m, e)"
| "strip_zeros (Suc n) m e = (if m \<noteq> 0 \<and> m mod 10 = 0 then strip_zeros n (m div 10) (e + 1) else (m, e))"

definition point_text :: "string \<Rightarrow> int \<Rightarrow> string" where
  "point_text ds e = (let k = int (length ds); n = k + e in
     if 0 \<le> e \<and> n \<le> 21 then ds @ replicate (nat e) CHR ''0''
     else if 0 < n \<and> n \<le> 21 then take (nat n) ds @ ''.'' @ drop (nat n) ds
     else if - 6 < n \<and> n \<le> 0 then ''0.'' @ replicate (nat (- n)) CHR ''0'' @ ds
     else take 1 ds @ (if k = 1 then [] else ''.'' @ drop 1 ds) @ ''e'' @ (if n - 1 < 0 then ''-'' else ''+'') @ show_nat (nat \<bar>n - 1\<bar>))"

definition js_show_number :: "jsnumber \<Rightarrow> string" where
  "js_show_number v = (case v of
      NaN \<Rightarrow> ''NaN''
    | Infinite b \<Rightarrow> (if b then ''Infinity'' else ''-Infinity'')
    | Dec m e \<Rightarrow> if m = 0 then ''0''
        else (case strip_zeros (length (show_nat (nat \<bar>m\<bar>))) \<bar>m\<bar> e of (a, f) \<Rightarrow>
          (if m < 0 then ''-'' else []) @ point_text (show_nat (nat a)) f))"

text \<open>\<open>JSON.stringify\<close> prints a number that is not finite as null.\<close>

fun json_of :: "jval \<Rightarrow> json" where
  "json_of VNull = JNull"
| "json_of (VBool b) = JBool b"
| "json_of (VNum n) = (if js_finite n then JNum (units_of (js_show_number n)) else JNull)"
| "json_of (VStr s) = JStr (units_of s)"
| "json_of (VArr xs) = JArr (map json_of xs)"
| "json_of (VObj fs) = JObj (map (\<lambda>f. (units_of (fst f), json_of (snd f))) fs)"

section \<open>Fields\<close>

definition get_field :: "string \<Rightarrow> jval \<Rightarrow> jval option" where
  "get_field k v = (case v of VObj fs \<Rightarrow> map_of fs k | _ \<Rightarrow> None)"

text \<open>A field read at the type its schema gives it.\<close>

definition as_text :: "jval option \<Rightarrow> string" where
  "as_text v = (case v of Some (VStr s) \<Rightarrow> s | _ \<Rightarrow> [])"

definition as_int :: "jval option \<Rightarrow> int" where
  "as_int v = (case v of Some (VNum n) \<Rightarrow> (case js_integer n of Some i \<Rightarrow> i | None \<Rightarrow> 0) | _ \<Rightarrow> 0)"

definition as_bool :: "jval option \<Rightarrow> bool" where
  "as_bool v = (v = Some (VBool True))"

definition as_list :: "jval option \<Rightarrow> jval list" where
  "as_list v = (case v of Some (VArr xs) \<Rightarrow> xs | _ \<Rightarrow> [])"

definition as_fields :: "jval option \<Rightarrow> (string \<times> jval) list" where
  "as_fields v = (case v of Some (VObj fs) \<Rightarrow> fs | _ \<Rightarrow> [])"

text \<open>\<open>...(v !== undefined ? {...} : {})\<close>.\<close>

definition opt_field :: "(jval option \<Rightarrow> 'a) \<Rightarrow> jval option \<Rightarrow> 'a option" where
  "opt_field f v = (case v of None \<Rightarrow> None | Some _ \<Rightarrow> Some (f v))"

text \<open>A number's text has digits, a sign, a point and an exponent, so no escape.\<close>

lemma show_nat_chars: "c \<in> set (show_nat n) \<Longrightarrow> c \<noteq> CHR 0x5C"
proof
  assume "c \<in> set (show_nat n)" "c = CHR 0x5C"
  then obtain d where "digit_char d = CHR 0x5C" using show_nat_digits by metis
  then have "of_char (digit_char d) = (92 :: nat)" by simp
  with digit_char_range [of d] show False by simp
qed

lemma point_text_chars: "CHR 0x5C \<notin> set ds \<Longrightarrow> CHR 0x5C \<notin> set (point_text ds e)"
  using show_nat_chars by (auto simp: point_text_def Let_def dest: in_set_takeD in_set_dropD)

lemma js_show_number_chars: "CHR 0x5C \<notin> set (js_show_number n)"
proof -
  have "CHR 0x5C \<notin> set (show_nat k)" for k using show_nat_chars by blast
  then show ?thesis by (cases n) (auto simp: js_show_number_def point_text_chars split: prod.split)
qed

lemma units_of_backslash: "BACKSLASH \<in> set (units_of s) \<longleftrightarrow> CHR 0x5C \<in> set s"
proof -
  have "word_of_nat (of_char c) = BACKSLASH \<longleftrightarrow> c = CHR 0x5C" for c :: char
  proof
    assume a: "word_of_nat (of_char c) = BACKSLASH"
    have c: "(of_char c :: nat) < 256" using of_char_mod_256 [of c, where 'a = nat] by (metis mod_less_divisor zero_less_numeral)
    have "of_char c mod 2 ^ LENGTH(16) = (of_char c :: nat)" by (rule mod_less) (rule less_le_trans [OF c], simp)
    then have "unat (word_of_nat (of_char c) :: unit16) = of_char c" by (simp only: unat_of_nat)
    with a have "of_char c = (92 :: nat)" by (simp add: BACKSLASH_def)
    then have "of_char c = (of_char (CHR 0x5C) :: nat)" by simp
    then show "c = CHR 0x5C" by (simp only: of_char_eq_iff)
  qed (simp add: BACKSLASH_def)
  then show ?thesis unfolding units_of_def set_map image_iff by metis
qed

lemma json_of_plain: "plain_numbers (json_of v)"
  by (induction v rule: json_of.induct) (auto simp: list_all_iff units_of_backslash js_show_number_chars)

lemma json_of_serialisable: "serialisable (json_of v)"
  by (induction v rule: json_of.induct) (auto simp: list_all_iff)

end
