(* ===== verification/DbTables.thy ===== *)
theory DbTables
  imports DbErrors CoreReservation JsonValue
begin

text \<open>
  The tables of the schema \<open>dastar\<close> (\<open>packages/db/migrations/0002_schema.sql\<close>, \<open>0017\<close>), the database
  as one record, the session settings of a transaction (\<open>packages/db/src/context.ts\<close>), and statements
  as functions from the database to a result and the next database. Ids are uuids in their canonical
  lowercase text, whose order as text is their order as bytes. Columns no command reads (layout of
  timestamps of creation, venue name and config) are left out.
\<close>

section \<open>Rows\<close>

record VenueRow =
  v_id :: string
  v_timezone :: string
  v_hold_ttl_seconds :: int
  v_slot_minutes :: int
  v_availability_window_days :: int
  v_max_live_holds_per_actor :: int
  v_config_version :: int

record UnitRow =
  u_id :: string
  u_venue :: string
  u_label :: string
  u_capacity_min :: int
  u_capacity_max :: int
  u_active :: bool
  u_layout :: jval

record ComboRow =
  c_id :: string
  c_venue :: string
  c_label :: string
  c_unit_ids :: "string list"
  c_capacity_min :: int
  c_capacity_max :: int
  c_active :: bool

record ReservationRow =
  r_id :: string
  r_venue :: string
  r_party_size :: int
  r_during :: range
  r_status :: ReservationStatus
  r_assignment :: Assignment
  r_hold_expires_at :: instant
  r_version :: int
  r_token_hash :: "string option"
  r_cancel_reason :: "string option"
  r_external_ref :: "string option"
  r_created_by :: string

record ReservationUnitRow =
  ru_venue :: string
  ru_reservation :: string
  ru_unit :: string
  ru_during :: range
  ru_active :: bool

record IdempotencyRow =
  i_venue :: string
  i_actor :: string
  i_key :: string
  i_hash :: string
  i_response :: "HoldOutcome option"
  i_purge_at :: instant

text \<open>\<open>before\<close> and \<open>after\<close> are the row as JSON less the token hash: here the row with no hash.\<close>

record AuditRow =
  au_id :: nat
  au_venue :: string
  au_entity_id :: string
  au_action :: string
  au_before :: "ReservationRow option"
  au_after :: ReservationRow
  au_actor :: string
  au_trace :: string
  au_at :: instant

record Payload =
  p_reservation_id :: string
  p_venue_id :: string
  p_status :: ReservationStatus
  p_version :: int
  p_party_size :: int
  p_during :: range
  p_assignment :: Assignment

record OutboxRow =
  o_id :: nat
  o_venue :: string
  o_topic :: string
  o_payload :: Payload
  o_published_at :: "instant option"
  o_dead_lettered_at :: "instant option"

record ScheduleRow =
  s_id :: string
  s_venue :: string
  s_day_of_week :: int
  s_opens :: int
  s_closes :: int
  s_closes_next_day :: bool
  s_duration_by_size :: "(string \<times> int) list"
  s_gap_minutes :: int
  s_active :: bool

record BlackoutRow =
  b_id :: string
  b_venue :: string
  b_during :: range
  b_reason :: string
  b_active :: bool

text \<open>
  The database. \<open>audit_seq\<close> and \<open>outbox_seq\<close> are the next values of the identity columns;
  \<open>deferred\<close> holds the reservations whose membership check waits for the commit (the deferred
  constraint triggers t90), empty between transactions.
\<close>

record db =
  venues :: "VenueRow list"
  units :: "UnitRow list"
  combos :: "ComboRow list"
  reservations :: "ReservationRow list"
  unit_rows :: "ReservationUnitRow list"
  idempotency :: "IdempotencyRow list"
  audit_log :: "AuditRow list"
  outbox :: "OutboxRow list"
  schedules :: "ScheduleRow list"
  blackouts :: "BlackoutRow list"
  audit_seq :: nat
  outbox_seq :: nat
  deferred :: "string list"

section \<open>The session\<close>

text \<open>
  The transaction-local settings \<open>dastar.actor\<close>, \<open>dastar.trace_id\<close> and \<open>dastar.venue_id\<close>, the
  transaction's start time that \<open>dastar_now()\<close> returns, and whether the role bypasses row-level
  security.
\<close>

record session =
  cx_actor :: string
  cx_trace :: string
  cx_venue :: "string option"
  cx_now :: instant
  cx_bypass :: bool

definition setContext :: "string \<Rightarrow> string \<Rightarrow> string \<Rightarrow> instant \<Rightarrow> session" where
  "setContext actor trace venue now = \<lparr>cx_actor = actor, cx_trace = trace, cx_venue = Some venue, cx_now = now, cx_bypass = False\<rparr>"

definition setActor :: "session \<Rightarrow> string \<Rightarrow> session" where
  "setActor cx actor = cx\<lparr>cx_actor := actor\<rparr>"

definition bindVenue :: "string \<Rightarrow> instant \<Rightarrow> session" where
  "bindVenue venue now = \<lparr>cx_actor = [], cx_trace = [], cx_venue = Some venue, cx_now = now, cx_bypass = False\<rparr>"

text \<open>The policy \<open>venue_scope\<close> on every table: rows of the bound venue, none when unbound.\<close>

definition visible :: "session \<Rightarrow> string \<Rightarrow> bool" where
  "visible cx venue \<longleftrightarrow> cx_bypass cx \<or> cx_venue cx = Some venue"

definition effective_status :: "instant \<Rightarrow> ReservationRow \<Rightarrow> ReservationStatus" where
  "effective_status now r = (if r_status r = Held \<and> r_hold_expires_at r \<le> now then Expired else r_status r)"

text \<open>\<open>LIVE\<close>: the effective status is held, confirmed or seated.\<close>

definition live :: "instant \<Rightarrow> ReservationRow \<Rightarrow> bool" where
  "live now r \<longleftrightarrow> effective_status now r \<in> {Held, Confirmed, Seated}"

section \<open>Statements in sequence\<close>

text \<open>
  A transaction is a function of the database. \<open>Inl\<close> is a throw, after which the caller rolls back and
  the database is the one before \<open>begin\<close>.
\<close>

type_synonym 'a tx = "db \<Rightarrow> exn + ('a \<times> db)"

definition tret :: "'a \<Rightarrow> 'a tx" where "tret x d = Inr (x, d)"
definition tthrow :: "exn \<Rightarrow> 'a tx" where "tthrow e d = Inl e"
definition tget :: "(db \<Rightarrow> 'a) \<Rightarrow> 'a tx" where "tget f d = Inr (f d, d)"
definition tput :: "(db \<Rightarrow> db) \<Rightarrow> unit tx" where "tput f d = Inr ((), f d)"
definition tbind :: "'a tx \<Rightarrow> ('a \<Rightarrow> 'b tx) \<Rightarrow> 'b tx" where
  "tbind m f d = (case m d of Inl e \<Rightarrow> Inl e | Inr (x, d') \<Rightarrow> f x d')"
definition tthen :: "'a tx \<Rightarrow> 'b tx \<Rightarrow> 'b tx" where "tthen m n = tbind m (\<lambda>_. n)"
definition tguard :: "bool \<Rightarrow> exn \<Rightarrow> unit tx" where "tguard b e = (if b then tret () else tthrow e)"

text \<open>\<open>for (const x of xs) await body(x)\<close>, collecting the results.\<close>

fun tfor :: "('x \<Rightarrow> 'a tx) \<Rightarrow> 'x list \<Rightarrow> 'a list tx" where
  "tfor body [] = tret []"
| "tfor body (x # xs) = tbind (body x) (\<lambda>y. tbind (tfor body xs) (\<lambda>ys. tret (y # ys)))"

text \<open>\<open>savepoint\<close>, \<open>rollback to savepoint\<close>: a throw of the body continues from the database before it.\<close>

definition tsavepoint :: "'a tx \<Rightarrow> (exn + 'a) tx" where
  "tsavepoint m d = (case m d of Inl e \<Rightarrow> Inr (Inl e, d) | Inr (x, d') \<Rightarrow> Inr (Inr x, d'))"

named_theorems tx_simps "how the statements of a transaction evaluate"
named_theorems preserved "rules that an operation preserves a predicate of the database"

lemma tx_eqs [tx_simps]:
  "tret x d = Inr (x, d)" "tthrow e d = Inl e" "tget f d = Inr (f d, d)" "tput g d = Inr ((), g d)"
  "tguard b e d = (if b then Inr ((), d) else Inl e)"
  by (simp_all add: tret_def tthrow_def tget_def tput_def tguard_def)

lemma tbind_Inr [tx_simps]: "tbind m f d = Inr (y, d2) \<longleftrightarrow> (\<exists>x d1. m d = Inr (x, d1) \<and> f x d1 = Inr (y, d2))"
  by (auto simp: tbind_def split: sum.splits)

lemma tthen_Inr [tx_simps]: "tthen m n d = Inr (y, d2) \<longleftrightarrow> (\<exists>x d1. m d = Inr (x, d1) \<and> n d1 = Inr (y, d2))"
  by (auto simp: tthen_def tbind_Inr)

lemma tbind_Inl [tx_simps]:
  "tbind m f d = Inl e \<longleftrightarrow> m d = Inl e \<or> (\<exists>x d1. m d = Inr (x, d1) \<and> f x d1 = Inl e)"
  by (auto simp: tbind_def split: sum.splits)

lemma tthen_Inl [tx_simps]:
  "tthen m n d = Inl e \<longleftrightarrow> m d = Inl e \<or> (\<exists>x d1. m d = Inr (x, d1) \<and> n d1 = Inl e)"
  by (auto simp: tthen_def tbind_Inl)

lemma tsavepoint_Inr [tx_simps]:
  "tsavepoint m d = Inr (y, d2) \<longleftrightarrow> (case y of Inl e \<Rightarrow> m d = Inl e \<and> d2 = d | Inr x \<Rightarrow> m d = Inr (x, d2))"
  by (auto simp: tsavepoint_def split: sum.splits)

lemma tsavepoint_Inl [tx_simps]: "tsavepoint m d \<noteq> Inl e"
  by (auto simp: tsavepoint_def split: sum.splits)

text \<open>
  \<open>preserves P m\<close>: a run of \<open>m\<close> from a database with \<open>P\<close> ends in one, or throws. \<open>ensures P m Q\<close> also
  says what holds of the result.
\<close>

definition preserves :: "(db \<Rightarrow> bool) \<Rightarrow> 'a tx \<Rightarrow> bool" where
  "preserves P m \<longleftrightarrow> (\<forall>d x d'. P d \<longrightarrow> m d = Inr (x, d') \<longrightarrow> P d')"

lemma preservesD: "preserves P m \<Longrightarrow> P d \<Longrightarrow> m d = Inr (x, d') \<Longrightarrow> P d'"
  by (auto simp: preserves_def)

lemma preservesI: "(\<And>d x d'. P d \<Longrightarrow> m d = Inr (x, d') \<Longrightarrow> P d') \<Longrightarrow> preserves P m"
  by (auto simp: preserves_def)

lemma preserves_basic [preserved]:
  "preserves P (tret x)" "preserves P (tthrow e)" "preserves P (tget f)" "preserves P (tguard b e)"
  by (auto simp: preserves_def tx_eqs split: if_splits)

lemma preserves_tbind [preserved]: "preserves P m \<Longrightarrow> (\<And>x. preserves P (f x)) \<Longrightarrow> preserves P (tbind m f)"
  unfolding preserves_def tbind_Inr by meson

lemma preserves_tthen [preserved]: "preserves P m \<Longrightarrow> preserves P n \<Longrightarrow> preserves P (tthen m n)"
  by (auto simp: tthen_def intro: preserves_tbind)

lemma preserves_tput [preserved]: "(\<And>d. P d \<Longrightarrow> P (f d)) \<Longrightarrow> preserves P (tput f)"
  by (auto simp: preserves_def tx_eqs)

lemma preserves_tfor [preserved]: "(\<And>x. x \<in> set xs \<Longrightarrow> preserves P (body x)) \<Longrightarrow> preserves P (tfor body xs)"
  by (induction xs) (auto intro!: preserves_basic preserves_tbind)

lemma preserves_tsavepoint [preserved]: "preserves P m \<Longrightarrow> preserves P (tsavepoint m)"
  by (auto simp: preserves_def tsavepoint_Inr split: sum.splits)

lemma preserves_if [preserved]: "(b \<Longrightarrow> preserves P m) \<Longrightarrow> (\<not> b \<Longrightarrow> preserves P n) \<Longrightarrow> preserves P (if b then m else n)"
  by simp

lemma preserves_case_option [preserved]:
  "(x = None \<Longrightarrow> preserves P m) \<Longrightarrow> (\<And>y. x = Some y \<Longrightarrow> preserves P (f y)) \<Longrightarrow> preserves P (case x of None \<Rightarrow> m | Some y \<Rightarrow> f y)"
  by (cases x) auto

lemma preserves_case_sum [preserved]:
  "(\<And>e. x = Inl e \<Longrightarrow> preserves P (f e)) \<Longrightarrow> (\<And>y. x = Inr y \<Longrightarrow> preserves P (g y)) \<Longrightarrow> preserves P (case x of Inl e \<Rightarrow> f e | Inr y \<Rightarrow> g y)"
  by (cases x) auto

lemma preserves_case_prod [preserved]: "(\<And>a b. x = (a, b) \<Longrightarrow> preserves P (f a b)) \<Longrightarrow> preserves P (case x of (a, b) \<Rightarrow> f a b)"
  by (cases x) auto

lemma preserves_let [preserved]: "preserves P (f x) \<Longrightarrow> preserves P (let y = x in f y)"
  by simp

section \<open>Queries\<close>

definition find_venue :: "db \<Rightarrow> string \<Rightarrow> VenueRow option" where
  "find_venue d i = find (\<lambda>v. v_id v = i) (venues d)"

definition find_unit :: "db \<Rightarrow> string \<Rightarrow> string \<Rightarrow> UnitRow option" where
  "find_unit d i venue = find (\<lambda>u. u_id u = i \<and> u_venue u = venue) (units d)"

definition find_combo :: "db \<Rightarrow> string \<Rightarrow> string \<Rightarrow> ComboRow option" where
  "find_combo d i venue = find (\<lambda>c. c_id c = i \<and> c_venue c = venue) (combos d)"

definition find_reservation :: "session \<Rightarrow> db \<Rightarrow> string \<Rightarrow> ReservationRow option" where
  "find_reservation cx d i = find (\<lambda>r. r_id r = i \<and> visible cx (r_venue r)) (reservations d)"

text \<open>\<open>where id = $1 and venue_id = $2\<close>, under the policy.\<close>

definition find_reservation_in :: "session \<Rightarrow> db \<Rightarrow> string \<Rightarrow> string \<Rightarrow> ReservationRow option" where
  "find_reservation_in cx d i venue =
     find (\<lambda>r. r_id r = i \<and> r_venue r = venue \<and> visible cx (r_venue r)) (reservations d)"

definition rows_of :: "db \<Rightarrow> string \<Rightarrow> ReservationUnitRow list" where
  "rows_of d rid = filter (\<lambda>ru. ru_reservation ru = rid) (unit_rows d)"

text \<open>The members of an assignment as t90 reads them; a combination that is not there has none.\<close>

definition members_of :: "db \<Rightarrow> Assignment \<Rightarrow> string list" where
  "members_of d a = (case a_kind a of
      Unit \<Rightarrow> [a_id a]
    | Combo \<Rightarrow> (case find (\<lambda>c. c_id c = a_id a) (combos d) of None \<Rightarrow> [] | Some c \<Rightarrow> c_unit_ids c))"

definition max_audit_id :: "session \<Rightarrow> db \<Rightarrow> string \<Rightarrow> nat" where
  "max_audit_id cx d rid =
     fold max (map au_id (filter (\<lambda>a. au_entity_id a = rid \<and> visible cx (au_venue a)) (audit_log d))) 0"

section \<open>The outbox\<close>

definition reservationPayload :: "ReservationRow \<Rightarrow> Payload" where
  "reservationPayload r = \<lparr>p_reservation_id = r_id r, p_venue_id = r_venue r, p_status = r_status r,
     p_version = r_version r, p_party_size = r_party_size r, p_during = r_during r, p_assignment = r_assignment r\<rparr>"

definition enqueue :: "string \<Rightarrow> string \<Rightarrow> Payload \<Rightarrow> nat tx" where
  "enqueue venue topic payload d = Inr (outbox_seq d, d\<lparr>
     outbox := outbox d @ [\<lparr>o_id = outbox_seq d, o_venue = venue, o_topic = topic, o_payload = payload,
       o_published_at = None, o_dead_lettered_at = None\<rparr>],
     outbox_seq := Suc (outbox_seq d)\<rparr>)"

end
