(* ===== verification/DbTriggers.thy ===== *)
theory DbTriggers
  imports DbTables
begin

text \<open>
  The triggers and constraints of the schema (\<open>packages/db/migrations/0004\<close>, \<open>0006\<close>, \<open>0017\<close>,
  \<open>0020\<close>, \<open>0021\<close>, as the last migration leaves them) and the statements that fire them. The triggers
  of a row run in the order of their names, as Postgres runs them, then the CHECK constraints, the
  unique and exclusion constraints, the foreign keys, and the AFTER triggers. An advisory lock is a
  no-op here: a transaction is one function.
\<close>

section \<open>Before triggers of reservation\<close>

text \<open>t10.\<close>

definition require_actor :: "session \<Rightarrow> exn + unit" where
  "require_actor cx = throw_if (cx_actor cx = []) (pg_raise ''DA007'' ''dastar.actor is not set for this transaction'')"

text \<open>t20. The pair of statuses is judged only when the status changes; leaving held drops the token.\<close>

definition allowed_pairs :: "string list" where
  "allowed_pairs = [''held>confirmed'', ''held>cancelled'', ''held>expired'', ''confirmed>seated'',
     ''confirmed>cancelled'', ''seated>completed'', ''seated>cancelled'']"

definition trg_transition :: "instant \<Rightarrow> ReservationRow \<Rightarrow> ReservationRow \<Rightarrow> exn + ReservationRow" where
  "trg_transition now old new = (
     let pair = status_text (r_status old) @ ''>'' @ status_text (r_status new) in
     if r_status new \<noteq> r_status old then
       rbind (throw_if (pair \<notin> set allowed_pairs) (pg_raise ''DA005'' (''illegal transition '' @ pair))) (\<lambda>_.
       rbind (throw_if (r_status new = Expired \<and> now < r_hold_expires_at old)
         (pg_raise ''DA005'' ''hold has not expired yet'')) (\<lambda>_.
       rbind (throw_if (r_status new = Cancelled \<and> (case r_cancel_reason new of None \<Rightarrow> True | Some s \<Rightarrow> s = []))
         (pg_raise ''DA005'' ''cancel requires a reason'')) (\<lambda>_.
       Inr (if r_status old = Held then new\<lparr>r_token_hash := None\<rparr> else new))))
     else Inr new)"

text \<open>t30.\<close>

definition trg_expiry_guard :: "instant \<Rightarrow> ReservationRow \<Rightarrow> ReservationRow \<Rightarrow> exn + unit" where
  "trg_expiry_guard now old new =
     throw_if (r_status old = Held \<and> r_status new = Confirmed \<and> r_hold_expires_at old \<le> now)
       (pg_raise ''DA001'' ''hold expired'')"

text \<open>t35, with \<open>None\<close> for the old row of an insert.\<close>

definition confirming :: "ReservationRow option \<Rightarrow> ReservationRow \<Rightarrow> bool" where
  "confirming old new = (case old of None \<Rightarrow> False | Some r \<Rightarrow> r_status r = Held \<and> r_status new = Confirmed)"

definition trg_blackout_guard :: "db \<Rightarrow> ReservationRow option \<Rightarrow> ReservationRow \<Rightarrow> exn + unit" where
  "trg_blackout_guard d old new =
     (if old \<noteq> None \<and> \<not> confirming old new then Inr ()
      else throw_if (\<exists>b\<in>set (blackouts d). b_venue b = r_venue new \<and> b_active b \<and> overlaps (b_during b) (r_during new))
        (pg_raise ''DA009'' ''reservation range overlaps an active blackout of the venue''))"

text \<open>t40, the last version (0021).\<close>

definition combo_usable :: "db \<Rightarrow> ComboRow \<Rightarrow> bool" where
  "combo_usable d c \<longleftrightarrow> c_active c \<and>
     (\<forall>m\<in>set (c_unit_ids c). \<exists>x\<in>set (units d). u_id x = m \<and> u_venue x = c_venue c \<and> u_active x)"

text \<open>What t40 reads of an assignment: its capacities and whether it is usable.\<close>

definition assignment_facts :: "db \<Rightarrow> Assignment \<Rightarrow> string \<Rightarrow> (int \<times> int \<times> bool) option" where
  "assignment_facts d a venue = (case a_kind a of
      Unit \<Rightarrow> map_option (\<lambda>u. (u_capacity_min u, u_capacity_max u, u_active u)) (find_unit d (a_id a) venue)
    | Combo \<Rightarrow> map_option (\<lambda>c. (c_capacity_min c, c_capacity_max c, combo_usable d c)) (find_combo d (a_id a) venue))"

definition fit_message :: "ReservationRow \<Rightarrow> int \<Rightarrow> int \<Rightarrow> string" where
  "fit_message r cmin cmax = ''party of '' @ show_int (r_party_size r) @ '' does not fit assignment ''
     @ a_id (r_assignment r) @ '' ('' @ show_int cmin @ '' to '' @ show_int cmax @ '')''"

definition trg_fit :: "db \<Rightarrow> ReservationRow option \<Rightarrow> ReservationRow \<Rightarrow> exn + unit" where
  "trg_fit d old new =
     (if (case old of None \<Rightarrow> False | Some r \<Rightarrow> r_party_size new = r_party_size r \<and> r_assignment new = r_assignment r
            \<and> \<not> (r_status r = Held \<and> r_status new = Confirmed)) then Inr ()
      else (case assignment_facts d (r_assignment new) (r_venue new) of
          None \<Rightarrow> Inl (pg_raise ''DA003'' (''assignment '' @ a_id (r_assignment new) @ '' not found in venue '' @ r_venue new))
        | Some (cmin, cmax, usable) \<Rightarrow>
            rbind (throw_if ((old = None \<or> confirming old new) \<and> \<not> usable)
              (pg_raise ''DA015'' (''assignment '' @ a_id (r_assignment new) @ '' is not active''))) (\<lambda>_.
            throw_if (r_party_size new < cmin \<or> cmax < r_party_size new)
              (pg_raise ''DA003'' (fit_message new cmin cmax)))))"

text \<open>t50.\<close>

definition trg_version :: "ReservationRow \<Rightarrow> ReservationRow \<Rightarrow> ReservationRow" where
  "trg_version old new = new\<lparr>r_version := r_version old + 1\<rparr>"

text \<open>t55.\<close>

definition trg_token_guard :: "instant \<Rightarrow> ReservationRow \<Rightarrow> ReservationRow \<Rightarrow> exn + unit" where
  "trg_token_guard now old new =
     throw_if (r_token_hash new \<noteq> None \<and> r_token_hash new \<noteq> r_token_hash old
         \<and> (r_status old \<noteq> Held \<or> r_status new \<noteq> Held \<or> r_hold_expires_at old \<le> now))
       (pg_raise ''DA013'' ''a confirm token requires a held, unexpired reservation'')"

text \<open>The CHECK constraints: 5 minutes to 12 hours of a bounded, non-empty range, and a party.\<close>

definition check_reservation :: "ReservationRow \<Rightarrow> exn + unit" where
  "check_reservation r =
     rbind (throw_if (\<not> (300000 \<le> snd (r_during r) - fst (r_during r) \<and> snd (r_during r) - fst (r_during r) \<le> 43200000))
       (pg_violation ''23514'' ''duration_out_of_range'')) (\<lambda>_.
     throw_if (\<not> 1 \<le> r_party_size r) (pg_violation ''23514'' ''reservation_party_size_check''))"

section \<open>After triggers of reservation\<close>

definition audited :: "ReservationRow \<Rightarrow> ReservationRow" where
  "audited r = r\<lparr>r_token_hash := None\<rparr>"

definition audit_action :: "ReservationRow option \<Rightarrow> ReservationRow \<Rightarrow> string" where
  "audit_action old new = (case old of
      None \<Rightarrow> ''insert''
    | Some r \<Rightarrow> if r_status new \<noteq> r_status r then ''update:'' @ status_text (r_status r) @ ''>'' @ status_text (r_status new)
                else ''update:metadata'')"

text \<open>t60, the only writer of the audit log.\<close>

definition trg_audit :: "session \<Rightarrow> ReservationRow option \<Rightarrow> ReservationRow \<Rightarrow> db \<Rightarrow> db" where
  "trg_audit cx old new d = d\<lparr>
     audit_log := audit_log d @ [\<lparr>au_id = audit_seq d, au_venue = r_venue new, au_entity_id = r_id new,
       au_action = audit_action old new, au_before = map_option audited old, au_after = audited new,
       au_actor = cx_actor cx, au_trace = cx_trace cx, au_at = cx_now cx\<rparr>],
     audit_seq := Suc (audit_seq d)\<rparr>"

text \<open>t70, the only writer of \<open>active\<close>; the rows it updates are checked at the commit.\<close>

definition released :: "ReservationStatus \<Rightarrow> bool" where
  "released s \<longleftrightarrow> s \<in> {Cancelled, Expired}"

definition trg_sync_unit_rows :: "ReservationRow \<Rightarrow> ReservationRow \<Rightarrow> db \<Rightarrow> db" where
  "trg_sync_unit_rows old new d =
     (if released (r_status new) \<and> \<not> released (r_status old)
      then d\<lparr>unit_rows := map (\<lambda>ru. if ru_reservation ru = r_id new \<and> ru_active ru then ru\<lparr>ru_active := False\<rparr> else ru) (unit_rows d),
             deferred := deferred d @ [r_id new]\<rparr>
      else d)"

section \<open>Statements on reservation\<close>

text \<open>The columns the application role may update (0005): what the \<open>set\<close> list of a statement assigns.\<close>

record ReservationPatch =
  set_status :: "ReservationStatus option"
  set_reason :: "string option"
  set_token :: "string option option"

definition apply_patch :: "ReservationPatch \<Rightarrow> ReservationRow \<Rightarrow> ReservationRow" where
  "apply_patch p r = r\<lparr>
     r_status := (case set_status p of None \<Rightarrow> r_status r | Some s \<Rightarrow> s),
     r_cancel_reason := (case set_reason p of None \<Rightarrow> r_cancel_reason r | Some t \<Rightarrow> Some t),
     r_token_hash := (case set_token p of None \<Rightarrow> r_token_hash r | Some t \<Rightarrow> t)\<rparr>"

definition judge_update :: "session \<Rightarrow> db \<Rightarrow> ReservationRow \<Rightarrow> ReservationRow \<Rightarrow> exn + ReservationRow" where
  "judge_update cx d old new0 =
     rbind (require_actor cx) (\<lambda>_.
     rbind (trg_transition (cx_now cx) old new0) (\<lambda>new1.
     rbind (trg_expiry_guard (cx_now cx) old new1) (\<lambda>_.
     rbind (trg_blackout_guard d (Some old) new1) (\<lambda>_.
     rbind (trg_fit d (Some old) new1) (\<lambda>_.
     rbind (trg_token_guard (cx_now cx) old (trg_version old new1)) (\<lambda>_.
     rbind (check_reservation (trg_version old new1)) (\<lambda>_.
     Inr (trg_version old new1))))))))"

definition write_reservation :: "session \<Rightarrow> ReservationRow \<Rightarrow> ReservationRow \<Rightarrow> db \<Rightarrow> db" where
  "write_reservation cx old new d = trg_sync_unit_rows old new (trg_audit cx (Some old) new
     (d\<lparr>reservations := map (\<lambda>r. if r_id r = r_id new then new else r) (reservations d)\<rparr>))"

text \<open>
  \<open>update dastar.reservation set ... where id = $1 and ... returning ...\<close>: the updated row, or no row when
  the policy or the condition excludes it.
\<close>

definition update_reservation :: "session \<Rightarrow> string \<Rightarrow> (ReservationRow \<Rightarrow> bool) \<Rightarrow> ReservationPatch
    \<Rightarrow> ReservationRow option tx" where
  "update_reservation cx rid cond p d = (case find_reservation cx d rid of
      None \<Rightarrow> Inr (None, d)
    | Some old \<Rightarrow> if \<not> cond old then Inr (None, d)
        else rbind (judge_update cx d old (apply_patch p old)) (\<lambda>new.
          Inr (Some new, write_reservation cx old new d)))"

definition insert_reservation :: "session \<Rightarrow> ReservationRow \<Rightarrow> ReservationRow tx" where
  "insert_reservation cx r d =
     rbind (require_actor cx) (\<lambda>_.
     rbind (trg_blackout_guard d None r) (\<lambda>_.
     rbind (trg_fit d None r) (\<lambda>_.
     rbind (check_reservation r) (\<lambda>_.
     rbind (throw_if (r_id r \<in> set (map r_id (reservations d))) (pg_violation ''23505'' ''reservation_pkey'')) (\<lambda>_.
     rbind (throw_if (find_venue d (r_venue r) = None) (pg_violation ''23503'' ''reservation_venue_id_fkey'')) (\<lambda>_.
     Inr (r, trg_audit cx None r (d\<lparr>reservations := reservations d @ [r], deferred := deferred d @ [r_id r]\<rparr>))))))))"

section \<open>Statements on reservation_unit\<close>

text \<open>t80.\<close>

definition trg_unit_row_insert_guard :: "db \<Rightarrow> ReservationUnitRow \<Rightarrow> exn + unit" where
  "trg_unit_row_insert_guard d ru = (case find (\<lambda>r. r_id r = ru_reservation ru) (reservations d) of
      None \<Rightarrow> Inl (pg_raise ''DA008'' (''reservation '' @ ru_reservation ru @ '' not found''))
    | Some r \<Rightarrow> throw_if (\<not> ru_active ru \<or> r_status r \<noteq> Held \<or> ru_during ru \<noteq> r_during r \<or> ru_venue ru \<noteq> r_venue r)
        (pg_raise ''DA008'' ''unit row must be active, for a held reservation, with the reservation range and venue''))"

text \<open>The exclusion constraint \<open>reservation_unit_no_overlap\<close>.\<close>

definition unit_rows_conflict :: "ReservationUnitRow \<Rightarrow> ReservationUnitRow \<Rightarrow> bool" where
  "unit_rows_conflict a b \<longleftrightarrow> ru_active a \<and> ru_active b \<and> ru_unit a = ru_unit b \<and> overlaps (ru_during a) (ru_during b)"

definition insert_unit_row :: "ReservationUnitRow \<Rightarrow> unit tx" where
  "insert_unit_row ru d =
     rbind (trg_unit_row_insert_guard d ru) (\<lambda>_.
     rbind (throw_if (\<exists>x\<in>set (unit_rows d). ru_reservation x = ru_reservation ru \<and> ru_unit x = ru_unit ru)
       (pg_violation ''23505'' ''reservation_unit_pkey'')) (\<lambda>_.
     rbind (throw_if (\<exists>x\<in>set (unit_rows d). unit_rows_conflict x ru)
       (ExPg \<lparr>pe_code = ''23P01'', pe_message = Some ''conflicting key value violates exclusion constraint \"reservation_unit_no_overlap\"'',
          pe_detail = None, pe_constraint = Some ''reservation_unit_no_overlap''\<rparr>)) (\<lambda>_.
     rbind (throw_if (find_unit d (ru_unit ru) (ru_venue ru) = None)
       (pg_violation ''23503'' ''reservation_unit_venue_id_unit_id_fkey'')) (\<lambda>_.
     Inr ((), d\<lparr>unit_rows := unit_rows d @ [ru], deferred := deferred d @ [ru_reservation ru]\<rparr>)))))"

section \<open>Commit\<close>

text \<open>t90: at the commit the unit rows of each queued reservation equal its assignment's members.\<close>

definition membership_ok :: "db \<Rightarrow> ReservationRow \<Rightarrow> bool" where
  "membership_ok d r \<longleftrightarrow> sort (map ru_unit (rows_of d (r_id r))) = sort (members_of d (r_assignment r))"

definition trg_membership :: "db \<Rightarrow> string \<Rightarrow> bool" where
  "trg_membership d rid = (case find (\<lambda>r. r_id r = rid) (reservations d) of
      None \<Rightarrow> rows_of d rid = []
    | Some r \<Rightarrow> membership_ok d r)"

definition commit :: "unit tx" where
  "commit d = (if \<forall>rid\<in>set (deferred d). trg_membership d rid then Inr ((), d\<lparr>deferred := []\<rparr>)
     else Inl (pg_raise ''DA010'' ''unit rows do not match the assignment members''))"

section \<open>Statements on unit and unit_combo\<close>

text \<open>t46.\<close>

definition trg_config_version :: "string \<Rightarrow> db \<Rightarrow> db" where
  "trg_config_version venue d = d\<lparr>venues := map (\<lambda>v. if v_id v = venue then v\<lparr>v_config_version := v_config_version v + 1\<rparr> else v) (venues d)\<rparr>"

text \<open>t44 on unit.\<close>

definition trg_unit_active_guard :: "instant \<Rightarrow> db \<Rightarrow> UnitRow \<Rightarrow> UnitRow \<Rightarrow> exn + unit" where
  "trg_unit_active_guard now d old new =
     throw_if (u_active old \<and> \<not> u_active new
         \<and> (\<exists>ru\<in>set (unit_rows d). \<exists>r\<in>set (reservations d). r_id r = ru_reservation ru \<and> ru_unit ru = u_id old
              \<and> ru_active ru \<and> live now r))
       (pg_raise ''DA016'' (''unit '' @ u_id old @ '' has a live reservation''))"

text \<open>t45.\<close>

definition trg_capacity_guard :: "instant \<Rightarrow> db \<Rightarrow> UnitRow \<Rightarrow> UnitRow \<Rightarrow> exn + unit" where
  "trg_capacity_guard now d old new =
     (if u_capacity_min new = u_capacity_min old \<and> u_capacity_max new = u_capacity_max old then Inr ()
      else throw_if (\<exists>r\<in>set (reservations d). r_assignment r = \<lparr>a_kind = Unit, a_id = u_id old\<rparr> \<and> live now r
             \<and> (r_party_size r < u_capacity_min new \<or> u_capacity_max new < r_party_size r))
        (pg_raise ''DA012'' (''capacity change would strand a live reservation on unit '' @ u_id old)))"

text \<open>A capacity is an \<open>int\<close> of four bytes: a parameter outside is refused before its statement runs.\<close>

definition int4_max :: int where "int4_max = 2147483647"

definition is_int4 :: "int \<Rightarrow> bool" where "is_int4 n \<longleftrightarrow> - int4_max - 1 \<le> n \<and> n \<le> int4_max"

definition int4_error :: "int \<Rightarrow> exn" where
  "int4_error n = pg_raise ''22003'' (''value \"'' @ show_int n @ ''\" is out of range for type integer'')"

definition check_int4 :: "int \<Rightarrow> exn + unit" where
  "check_int4 n = throw_if (\<not> is_int4 n) (int4_error n)"

definition check_unit :: "UnitRow \<Rightarrow> exn + unit" where
  "check_unit u =
     rbind (check_int4 (u_capacity_min u)) (\<lambda>_. rbind (check_int4 (u_capacity_max u)) (\<lambda>_.
     rbind (throw_if (\<not> 1 \<le> u_capacity_min u) (pg_violation ''23514'' ''unit_capacity_min_check'')) (\<lambda>_.
     throw_if (\<not> u_capacity_min u \<le> u_capacity_max u) (pg_violation ''23514'' ''unit_capacity_order''))))"

definition insert_unit :: "UnitRow \<Rightarrow> UnitRow tx" where
  "insert_unit u d =
     rbind (check_unit u) (\<lambda>_.
     rbind (throw_if (u_id u \<in> set (map u_id (units d))) (pg_violation ''23505'' ''unit_pkey'')) (\<lambda>_.
     rbind (throw_if (find_venue d (u_venue u) = None) (pg_violation ''23503'' ''unit_venue_id_fkey'')) (\<lambda>_.
     Inr (u, trg_config_version (u_venue u) (d\<lparr>units := units d @ [u]\<rparr>)))))"

text \<open>\<open>update dastar.unit set ... where id = $1 and venue_id = $2 returning ...\<close>\<close>

definition update_unit :: "session \<Rightarrow> string \<Rightarrow> string \<Rightarrow> (UnitRow \<Rightarrow> UnitRow) \<Rightarrow> UnitRow option tx" where
  "update_unit cx i venue f d = (case find_unit d i venue of
      None \<Rightarrow> Inr (None, d)
    | Some old \<Rightarrow> (let new = f old in
        rbind (trg_unit_active_guard (cx_now cx) d old new) (\<lambda>_.
        rbind (trg_capacity_guard (cx_now cx) d old new) (\<lambda>_.
        rbind (check_unit new) (\<lambda>_.
        Inr (Some new, trg_config_version venue
          (d\<lparr>units := map (\<lambda>u. if u_id u = i then new else u) (units d)\<rparr>)))))))"

text \<open>t44 and t47 on unit_combo.\<close>

definition trg_combo_active_guard :: "instant \<Rightarrow> db \<Rightarrow> ComboRow \<Rightarrow> ComboRow \<Rightarrow> exn + unit" where
  "trg_combo_active_guard now d old new =
     throw_if (c_active old \<and> \<not> c_active new
         \<and> (\<exists>r\<in>set (reservations d). r_assignment r = \<lparr>a_kind = Combo, a_id = c_id old\<rparr> \<and> live now r))
       (pg_raise ''DA016'' (''combination '' @ c_id old @ '' has a live reservation''))"

definition trg_combo_immutable :: "ComboRow \<Rightarrow> ComboRow \<Rightarrow> exn + unit" where
  "trg_combo_immutable old new =
     throw_if (c_unit_ids new \<noteq> c_unit_ids old \<or> c_capacity_min new \<noteq> c_capacity_min old \<or> c_capacity_max new \<noteq> c_capacity_max old)
       (pg_raise ''DA011'' ''combo members and capacities are immutable; deactivate and create a new combo'')"

definition check_combo :: "ComboRow \<Rightarrow> exn + unit" where
  "check_combo c =
     rbind (throw_if (\<not> c_capacity_min c \<le> c_capacity_max c) (pg_violation ''23514'' ''combo_capacity_order'')) (\<lambda>_.
     rbind (throw_if (\<not> (2 \<le> length (c_unit_ids c) \<and> length (c_unit_ids c) \<le> 6)) (pg_violation ''23514'' ''combo_too_large'')) (\<lambda>_.
     throw_if (\<not> 1 \<le> c_capacity_min c) (pg_violation ''23514'' ''unit_combo_capacity_min_check'')))"

definition insert_combo :: "ComboRow \<Rightarrow> ComboRow tx" where
  "insert_combo c d =
     rbind (check_combo c) (\<lambda>_.
     rbind (throw_if (c_id c \<in> set (map c_id (combos d))) (pg_violation ''23505'' ''unit_combo_pkey'')) (\<lambda>_.
     rbind (throw_if (find_venue d (c_venue c) = None) (pg_violation ''23503'' ''unit_combo_venue_id_fkey'')) (\<lambda>_.
     Inr (c, trg_config_version (c_venue c) (d\<lparr>combos := combos d @ [c]\<rparr>)))))"

definition update_combo_row :: "session \<Rightarrow> string \<Rightarrow> string \<Rightarrow> (ComboRow \<Rightarrow> ComboRow) \<Rightarrow> ComboRow option tx" where
  "update_combo_row cx i venue f d = (case find_combo d i venue of
      None \<Rightarrow> Inr (None, d)
    | Some old \<Rightarrow> (let new = f old in
        rbind (trg_combo_active_guard (cx_now cx) d old new) (\<lambda>_.
        rbind (trg_combo_immutable old new) (\<lambda>_.
        rbind (check_combo new) (\<lambda>_.
        Inr (Some new, trg_config_version venue
          (d\<lparr>combos := map (\<lambda>c. if c_id c = i then new else c) (combos d)\<rparr>)))))))"

section \<open>Statements on schedule and blackout\<close>

definition duration_key_ok :: "string \<Rightarrow> bool" where
  "duration_key_ok k \<longleftrightarrow> k \<noteq> [] \<and> length k \<le> 3 \<and> hd k \<in> set ''123456789'' \<and> list_all (\<lambda>c. c \<in> set ''0123456789'') k"

definition duration_by_size_shape :: "(string \<times> int) list \<Rightarrow> bool" where
  "duration_by_size_shape es \<longleftrightarrow> es \<noteq> [] \<and> list_all (\<lambda>(k, v). duration_key_ok k \<and> 5 \<le> v \<and> v \<le> 720) es"

definition check_schedule :: "ScheduleRow \<Rightarrow> exn + unit" where
  "check_schedule s =
     rbind (throw_if (\<not> duration_by_size_shape (s_duration_by_size s)) (pg_violation ''23514'' ''duration_by_size_shape'')) (\<lambda>_.
     rbind (throw_if (s_closes_next_day s \<noteq> (s_closes s \<le> s_opens s)) (pg_violation ''23514'' ''schedule_closes_next_day'')) (\<lambda>_.
     rbind (throw_if (\<not> (1 \<le> s_day_of_week s \<and> s_day_of_week s \<le> 7)) (pg_violation ''23514'' ''schedule_day_of_week_check'')) (\<lambda>_.
     throw_if (\<not> (0 \<le> s_gap_minutes s \<and> s_gap_minutes s \<le> 720)) (pg_violation ''23514'' ''schedule_gap_minutes_check''))))"

definition insert_schedule :: "ScheduleRow \<Rightarrow> ScheduleRow tx" where
  "insert_schedule s d =
     rbind (check_schedule s) (\<lambda>_.
     rbind (throw_if (s_id s \<in> set (map s_id (schedules d))) (pg_violation ''23505'' ''schedule_pkey'')) (\<lambda>_.
     rbind (throw_if (find_venue d (s_venue s) = None) (pg_violation ''23503'' ''schedule_venue_id_fkey'')) (\<lambda>_.
     Inr (s, trg_config_version (s_venue s) (d\<lparr>schedules := schedules d @ [s]\<rparr>)))))"

definition find_schedule :: "db \<Rightarrow> string \<Rightarrow> string \<Rightarrow> ScheduleRow option" where
  "find_schedule d i venue = find (\<lambda>s. s_id s = i \<and> s_venue s = venue) (schedules d)"

definition update_schedule :: "string \<Rightarrow> string \<Rightarrow> (ScheduleRow \<Rightarrow> ScheduleRow) \<Rightarrow> ScheduleRow option tx" where
  "update_schedule i venue f d = (case find_schedule d i venue of
      None \<Rightarrow> Inr (None, d)
    | Some old \<Rightarrow> (let new = f old in
        rbind (check_schedule new) (\<lambda>_.
        Inr (Some new, trg_config_version venue
          (d\<lparr>schedules := map (\<lambda>s. if s_id s = i then new else s) (schedules d)\<rparr>)))))"

text \<open>t10 on blackout: a blackout active after the write may not strand a live reservation.\<close>

definition trg_blackout_write :: "instant \<Rightarrow> db \<Rightarrow> BlackoutRow option \<Rightarrow> BlackoutRow \<Rightarrow> exn + unit" where
  "trg_blackout_write now d old new = (
     let judge = b_active new \<and> (case old of
         None \<Rightarrow> True
       | Some b \<Rightarrow> \<not> b_active b \<or> b_during new \<noteq> b_during b \<or> b_venue new \<noteq> b_venue b) in
     throw_if (judge \<and> (\<exists>ru\<in>set (unit_rows d). \<exists>r\<in>set (reservations d). r_id r = ru_reservation ru
           \<and> ru_venue ru = b_venue new \<and> ru_active ru \<and> overlaps (ru_during ru) (b_during new) \<and> live now r))
       (pg_raise ''DA014'' ''blackout would strand a live reservation''))"

definition check_blackout :: "BlackoutRow \<Rightarrow> exn + unit" where
  "check_blackout b =
     rbind (throw_if (range_empty (b_during b)) (pg_violation ''23514'' ''blackout_during_bounded'')) (\<lambda>_.
     throw_if (\<not> (1 \<le> length (b_reason b) \<and> length (b_reason b) \<le> 500)) (pg_violation ''23514'' ''blackout_reason_check''))"

definition insert_blackout :: "session \<Rightarrow> BlackoutRow \<Rightarrow> BlackoutRow tx" where
  "insert_blackout cx b d =
     rbind (trg_blackout_write (cx_now cx) d None b) (\<lambda>_.
     rbind (check_blackout b) (\<lambda>_.
     rbind (throw_if (b_id b \<in> set (map b_id (blackouts d))) (pg_violation ''23505'' ''blackout_pkey'')) (\<lambda>_.
     rbind (throw_if (find_venue d (b_venue b) = None) (pg_violation ''23503'' ''blackout_venue_id_fkey'')) (\<lambda>_.
     Inr (b, trg_config_version (b_venue b) (d\<lparr>blackouts := blackouts d @ [b]\<rparr>))))))"

definition find_blackout :: "db \<Rightarrow> string \<Rightarrow> string \<Rightarrow> BlackoutRow option" where
  "find_blackout d i venue = find (\<lambda>b. b_id b = i \<and> b_venue b = venue) (blackouts d)"

definition update_blackout :: "session \<Rightarrow> string \<Rightarrow> string \<Rightarrow> (BlackoutRow \<Rightarrow> BlackoutRow) \<Rightarrow> BlackoutRow option tx" where
  "update_blackout cx i venue f d = (case find_blackout d i venue of
      None \<Rightarrow> Inr (None, d)
    | Some old \<Rightarrow> (let new = f old in
        rbind (trg_blackout_write (cx_now cx) d (Some old) new) (\<lambda>_.
        rbind (check_blackout new) (\<lambda>_.
        Inr (Some new, trg_config_version venue
          (d\<lparr>blackouts := map (\<lambda>b. if b_id b = i then new else b) (blackouts d)\<rparr>))))))"

section \<open>Statements on idempotency\<close>

definition idem_row :: "db \<Rightarrow> string \<Rightarrow> string \<Rightarrow> string \<Rightarrow> IdempotencyRow option" where
  "idem_row d venue actor key = find (\<lambda>r. i_venue r = venue \<and> i_actor r = actor \<and> i_key r = key) (idempotency d)"

text \<open>\<open>insert ... on conflict do nothing returning key\<close>: whether the row was inserted.\<close>

definition claim_key :: "session \<Rightarrow> string \<Rightarrow> string \<Rightarrow> string \<Rightarrow> string \<Rightarrow> bool tx" where
  "claim_key cx venue actor key hash d =
     (if idem_row d venue actor key \<noteq> None then Inr (False, d)
      else rbind (throw_if (find_venue d venue = None) (pg_violation ''23503'' ''idempotency_venue_id_fkey'')) (\<lambda>_.
        Inr (True, d\<lparr>idempotency := idempotency d @ [\<lparr>i_venue = venue, i_actor = actor, i_key = key, i_hash = hash,
          i_response = None, i_purge_at = cx_now cx + DAY_MS\<rparr>]\<rparr>)))"

definition store_response :: "string \<Rightarrow> string \<Rightarrow> string \<Rightarrow> HoldOutcome \<Rightarrow> unit tx" where
  "store_response venue actor key out = tput (\<lambda>d. d\<lparr>idempotency :=
     map (\<lambda>r. if i_venue r = venue \<and> i_actor r = actor \<and> i_key r = key then r\<lparr>i_response := Some out\<rparr> else r) (idempotency d)\<rparr>)"

end
