(* ===== verification/DbInvariant.thy ===== *)
theory DbInvariant
  imports DbTriggers
begin

text \<open>
  The invariants of the database the repository's design names, as one predicate of a clock bound \<open>T\<close>
  and a set \<open>X\<close> of reservations being inserted, and the proof that every statement of \<open>DbTriggers\<close>
  keeps it. \<open>live T r\<close> is liveness at the latest clock any transaction has used: a transaction whose
  own clock is earlier may still see a hold as live that a later clock judged expired, and the
  invariant holds all the same, because the triggers judge a confirmation again.
\<close>

section \<open>The invariants\<close>

definition ids_ok :: "db \<Rightarrow> bool" where
  "ids_ok d \<longleftrightarrow> distinct (map r_id (reservations d)) \<and> distinct (map u_id (units d)) \<and> distinct (map c_id (combos d))
     \<and> distinct (map b_id (blackouts d)) \<and> distinct (map s_id (schedules d))"

text \<open>Invariant 1: active unit rows of one unit never overlap.\<close>

definition exclusion_ok :: "db \<Rightarrow> bool" where
  "exclusion_ok d \<longleftrightarrow> sorted_wrt (\<lambda>a b. \<not> unit_rows_conflict a b) (unit_rows d)"

text \<open>Invariant 8: a unit row has its reservation's venue and range, and is active unless it was released.\<close>

definition row_in_sync :: "ReservationUnitRow \<Rightarrow> ReservationRow \<Rightarrow> bool" where
  "row_in_sync ru r \<longleftrightarrow> ru_venue ru = r_venue r \<and> ru_during ru = r_during r \<and> (ru_active ru \<longleftrightarrow> \<not> released (r_status r))"

definition sync_ok :: "db \<Rightarrow> bool" where
  "sync_ok d \<longleftrightarrow> (\<forall>ru\<in>set (unit_rows d). \<exists>r\<in>set (reservations d). r_id r = ru_reservation ru \<and> row_in_sync ru r)"

text \<open>Invariant 9: the unit rows of a reservation are its assignment's members.\<close>

definition members_ok :: "string set \<Rightarrow> db \<Rightarrow> bool" where
  "members_ok X d \<longleftrightarrow> (\<forall>r\<in>set (reservations d). r_id r \<notin> X \<longrightarrow> membership_ok d r)"

text \<open>Invariants 4 and 12: a live reservation's party fits its assignment, which is usable.\<close>

definition fits :: "db \<Rightarrow> ReservationRow \<Rightarrow> bool" where
  "fits d r \<longleftrightarrow> (\<exists>cmin cmax. assignment_facts d (r_assignment r) (r_venue r) = Some (cmin, cmax, True)
     \<and> cmin \<le> r_party_size r \<and> r_party_size r \<le> cmax)"

definition fit_ok :: "instant \<Rightarrow> db \<Rightarrow> bool" where
  "fit_ok T d \<longleftrightarrow> (\<forall>r\<in>set (reservations d). live T r \<longrightarrow> fits d r)"

text \<open>Invariant 11: a live reservation overlaps no active blackout of its venue.\<close>

definition outside_blackouts :: "db \<Rightarrow> ReservationRow \<Rightarrow> bool" where
  "outside_blackouts d r \<longleftrightarrow> (\<forall>b\<in>set (blackouts d). b_venue b = r_venue r \<longrightarrow> b_active b \<longrightarrow> \<not> overlaps (b_during b) (r_during r))"

definition blackout_ok :: "instant \<Rightarrow> db \<Rightarrow> bool" where
  "blackout_ok T d \<longleftrightarrow> (\<forall>r\<in>set (reservations d). live T r \<longrightarrow> outside_blackouts d r)"

text \<open>
  Invariants 5, 6 and 7: the audit rows of a reservation, in order, start with its insertion as a hold at
  version 1, each continue the one before by a legal transition (or none) at the next version with
  nothing else changed but token and reason, and end in the row as it is.
\<close>

definition audit_step_ok :: "ReservationRow option \<Rightarrow> ReservationRow \<Rightarrow> bool" where
  "audit_step_ok old new = (case old of
      None \<Rightarrow> r_status new = Held \<and> r_version new = 1
    | Some r \<Rightarrow> r_version new = r_version r + 1 \<and> (r_status new = r_status r \<or> canTransition (r_status r) (r_status new))
        \<and> r_id new = r_id r \<and> r_venue new = r_venue r \<and> r_party_size new = r_party_size r \<and> r_during new = r_during r
        \<and> r_assignment new = r_assignment r \<and> r_hold_expires_at new = r_hold_expires_at r
        \<and> r_external_ref new = r_external_ref r \<and> r_created_by new = r_created_by r)"

fun audit_chain :: "ReservationRow option \<Rightarrow> AuditRow list \<Rightarrow> ReservationRow option \<Rightarrow> bool" where
  "audit_chain a [] b = (a = b)"
| "audit_chain a (x # xs) b = (au_before x = a \<and> au_action x = audit_action a (au_after x) \<and> audit_step_ok a (au_after x) \<and> audit_chain (Some (au_after x)) xs b)"

definition trail :: "db \<Rightarrow> string \<Rightarrow> AuditRow list" where
  "trail d rid = filter (\<lambda>a. au_entity_id a = rid) (audit_log d)"

definition audit_ok :: "db \<Rightarrow> bool" where
  "audit_ok d \<longleftrightarrow> (\<forall>r\<in>set (reservations d). audit_chain None (trail d (r_id r)) (Some (audited r)))
     \<and> (\<forall>a\<in>set (audit_log d). \<exists>r\<in>set (reservations d). r_id r = au_entity_id a \<and> r_venue r = au_venue a)
     \<and> sorted_wrt (<) (map au_id (audit_log d)) \<and> (\<forall>a\<in>set (audit_log d). au_id a < audit_seq d)
     \<and> (\<forall>a\<in>set (audit_log d). au_actor a \<noteq> [])"

text \<open>The assignment of a reservation exists in its venue.\<close>

definition assigned_ok :: "db \<Rightarrow> bool" where
  "assigned_ok d \<longleftrightarrow> (\<forall>r\<in>set (reservations d). assignment_facts d (r_assignment r) (r_venue r) \<noteq> None)"

text \<open>The CHECK constraints, and that only a hold carries a token hash.\<close>

definition shape_ok :: "db \<Rightarrow> bool" where
  "shape_ok d \<longleftrightarrow> (\<forall>r\<in>set (reservations d). check_reservation r = Inr () \<and> (r_token_hash r \<noteq> None \<longrightarrow> r_status r = Held)
        \<and> (r_status r = Cancelled \<longrightarrow> r_cancel_reason r \<noteq> None))
     \<and> (\<forall>c\<in>set (combos d). check_combo c = Inr ()) \<and> (\<forall>u\<in>set (units d). check_unit u = Inr ())
     \<and> (\<forall>b\<in>set (blackouts d). check_blackout b = Inr ()) \<and> (\<forall>s\<in>set (schedules d). check_schedule s = Inr ())"

definition inv :: "instant \<Rightarrow> string set \<Rightarrow> db \<Rightarrow> bool" where
  "inv T X d \<longleftrightarrow> ids_ok d \<and> exclusion_ok d \<and> sync_ok d \<and> members_ok X d \<and> fit_ok T d \<and> blackout_ok T d \<and> audit_ok d
     \<and> assigned_ok d \<and> shape_ok d"

lemmas inv_parts = ids_ok_def exclusion_ok_def sync_ok_def members_ok_def fit_ok_def fits_def blackout_ok_def
  outside_blackouts_def audit_ok_def assigned_ok_def shape_ok_def trail_def membership_ok_def rows_of_def members_of_def
  assignment_facts_def combo_usable_def find_unit_def find_combo_def

section \<open>Liveness and the clock\<close>

lemma live_iff: "live t r \<longleftrightarrow> r_status r = Confirmed \<or> r_status r = Seated \<or> r_status r = Held \<and> t < r_hold_expires_at r"
  by (cases "r_status r") (auto simp: live_def effective_status_def)

lemma live_mono: "s \<le> t \<Longrightarrow> live t r \<Longrightarrow> live s r"
  by (auto simp: live_iff)

lemma live_not_released: "live t r \<Longrightarrow> \<not> released (r_status r)"
  by (auto simp: live_iff released_def)

lemma inv_mono: "s \<le> t \<Longrightarrow> inv s X d \<Longrightarrow> inv t X d"
  by (auto simp: inv_def fit_ok_def blackout_ok_def dest: live_mono)

lemma inv_weaken: "X \<subseteq> Y \<Longrightarrow> inv T X d \<Longrightarrow> inv T Y d"
  by (auto simp: inv_def members_ok_def)

section \<open>Which tables each part reads\<close>

lemma combo_usable_cong: "units d' = units d \<Longrightarrow> combo_usable d' = combo_usable d"
  by (intro ext) (simp add: combo_usable_def)

lemma assignment_facts_cong:
  assumes "units d' = units d" and "combos d' = combos d"
  shows "assignment_facts d' = assignment_facts d"
proof (intro ext)
  fix a v
  show "assignment_facts d' a v = assignment_facts d a v"
    by (cases "a_kind a")
      (simp_all only: assignment_facts_def assignment_kind.case find_unit_def find_combo_def assms combo_usable_cong [OF assms(1)])
qed

lemma fits_cong:
  assumes "units d' = units d" and "combos d' = combos d"
  shows "fits d' = fits d"
  by (intro ext) (simp only: fits_def assignment_facts_cong [OF assms])

lemma outside_blackouts_cong: "blackouts d' = blackouts d \<Longrightarrow> outside_blackouts d' = outside_blackouts d"
  by (intro ext) (simp add: outside_blackouts_def)

lemma rows_of_cong: "unit_rows d' = unit_rows d \<Longrightarrow> rows_of d' = rows_of d"
  by (intro ext) (simp add: rows_of_def)

lemma members_of_cong: "combos d' = combos d \<Longrightarrow> members_of d' = members_of d"
  by (intro ext) (simp add: members_of_def split: assignment_kind.split)

lemma membership_ok_cong:
  assumes "unit_rows d' = unit_rows d" and "combos d' = combos d"
  shows "membership_ok d' = membership_ok d"
  by (intro ext) (simp only: membership_ok_def rows_of_cong [OF assms(1)] members_of_cong [OF assms(2)])

lemma trail_cong: "audit_log d' = audit_log d \<Longrightarrow> trail d' = trail d"
  by (intro ext) (simp add: trail_def)

lemmas read_congs = assignment_facts_cong fits_cong outside_blackouts_cong rows_of_cong members_of_cong
  membership_ok_cong trail_cong

lemma inv_cong:
  assumes "units d' = units d" "combos d' = combos d" "reservations d' = reservations d" "unit_rows d' = unit_rows d"
    "audit_log d' = audit_log d" "audit_seq d' = audit_seq d" "schedules d' = schedules d" "blackouts d' = blackouts d"
  shows "inv T X d' = inv T X d"
  unfolding inv_def ids_ok_def exclusion_ok_def sync_ok_def members_ok_def fit_ok_def blackout_ok_def audit_ok_def assigned_ok_def shape_ok_def
    assms assignment_facts_cong [OF assms(1,2)] fits_cong [OF assms(1,2)] outside_blackouts_cong [OF assms(8)] membership_ok_cong [OF assms(4,2)] trail_cong [OF assms(5)]
  by (rule refl)

lemma inv_other_tables [simp]:
  "inv T X (d\<lparr>outbox := a\<rparr>) = inv T X d"
  "inv T X (d\<lparr>outbox_seq := n\<rparr>) = inv T X d"
  "inv T X (d\<lparr>idempotency := b\<rparr>) = inv T X d"
  "inv T X (d\<lparr>deferred := c\<rparr>) = inv T X d"
  "inv T X (d\<lparr>venues := e\<rparr>) = inv T X d"
  by (rule inv_cong; simp)+

lemma inv_config_version [simp]: "inv T X (trg_config_version v d) = inv T X d"
  by (simp add: trg_config_version_def)

lemma preserves_enqueue [preserved]: "preserves (inv T X) (enqueue v t p)"
  by (auto simp: preserves_def enqueue_def)

lemma preserves_claim_key [preserved]: "preserves (inv T X) (claim_key cx v a k h)"
  by (auto simp: preserves_def claim_key_def rbind_throw_if split: if_splits)

lemma preserves_store_response [preserved]: "preserves (inv T X) (store_response v a k out)"
  unfolding store_response_def by (rule preserves_tput) simp

text \<open>The commit checks what the transaction queued.\<close>

lemma commit_inv:
  assumes "inv T X d" and "X \<subseteq> set (deferred d)" and "commit d = Inr ((), d')"
  shows "inv T {} d'"
proof -
  have d': "d' = d\<lparr>deferred := []\<rparr>" and chk: "\<forall>rid\<in>set (deferred d). trg_membership d rid"
    using assms(3) by (auto simp: commit_def split: if_splits)
  have "membership_ok d r" if r: "r \<in> set (reservations d)" for r
  proof (cases "r_id r \<in> X")
    case True
    then have "trg_membership d (r_id r)" using chk assms(2) by auto
    moreover have "find (\<lambda>x. r_id x = r_id r) (reservations d) = Some r"
      using r assms(1) by (auto simp: inv_def ids_ok_def intro: find_distinct_key)
    ultimately show ?thesis by (simp add: trg_membership_def)
  next
    case False
    with r assms(1) show ?thesis by (auto simp: inv_def members_ok_def)
  qed
  then have "members_ok {} d" by (simp add: members_ok_def)
  with assms(1) have "inv T {} d" by (simp add: inv_def)
  with d' show ?thesis by simp
qed

lemma preserves_commit [preserved]: "preserves (inv T {}) commit"
  by (auto simp: preserves_def intro: commit_inv)

section \<open>An update of a reservation\<close>

text \<open>The pairs t20 allows are the transitions of the core's state table.\<close>

lemma allowed_pairs_iff:
  "status_text a @ ''>'' @ status_text b \<in> set allowed_pairs \<longleftrightarrow> canTransition a b"
  by (cases a; cases b) (simp_all add: allowed_pairs_def)

lemma trg_transition_facts:
  assumes "trg_transition now old new0 = Inr new"
  shows "r_status new = r_status new0 \<and> (r_status new = r_status old \<or> canTransition (r_status old) (r_status new))
     \<and> (r_status new = Expired \<longrightarrow> r_status old \<noteq> Expired \<longrightarrow> r_hold_expires_at old \<le> now)
     \<and> (r_status new = Cancelled \<longrightarrow> r_status old \<noteq> Cancelled \<longrightarrow> r_cancel_reason new \<noteq> None)
     \<and> (r_status new \<noteq> r_status old \<longrightarrow> r_status old = Held \<longrightarrow> r_token_hash new = None)
     \<and> (new = new0 \<or> new = new0\<lparr>r_token_hash := None\<rparr>)"
  using assms unfolding trg_transition_def Let_def allowed_pairs_iff [unfolded append.simps]
  by (auto simp: rbind_throw_if allowed_pairs_iff [simplified] split: if_splits option.splits)

lemma apply_patch_same [simp]:
  "r_id (apply_patch p r) = r_id r" "r_venue (apply_patch p r) = r_venue r" "r_party_size (apply_patch p r) = r_party_size r"
  "r_during (apply_patch p r) = r_during r" "r_assignment (apply_patch p r) = r_assignment r"
  "r_hold_expires_at (apply_patch p r) = r_hold_expires_at r" "r_external_ref (apply_patch p r) = r_external_ref r"
  "r_created_by (apply_patch p r) = r_created_by r" "r_version (apply_patch p r) = r_version r"
  by (simp_all add: apply_patch_def)

lemma trg_fit_confirming:
  "trg_fit d old new = Inr u \<Longrightarrow> old = None \<or> confirming old new \<Longrightarrow> fits d new"
  by (cases old) (auto simp: trg_fit_def fits_def confirming_def rbind_throw_if split: option.splits if_splits)

lemma trg_blackout_confirming:
  "trg_blackout_guard d old new = Inr u \<Longrightarrow> old = None \<or> confirming old new \<Longrightarrow> outside_blackouts d new"
  by (auto simp: trg_blackout_guard_def outside_blackouts_def split: if_splits)

lemma fits_cong_row: "r_assignment r = r_assignment s \<Longrightarrow> r_venue r = r_venue s \<Longrightarrow> r_party_size r = r_party_size s \<Longrightarrow> fits d r = fits d s"
  by (simp add: fits_def)

lemma outside_blackouts_cong_row: "r_during r = r_during s \<Longrightarrow> r_venue r = r_venue s \<Longrightarrow> outside_blackouts d r = outside_blackouts d s"
  by (simp add: outside_blackouts_def)

lemma judge_update_facts:
  assumes "judge_update cx d old (apply_patch p old) = Inr new"
  shows "r_id new = r_id old" "r_venue new = r_venue old" "r_party_size new = r_party_size old" "r_during new = r_during old"
    "r_assignment new = r_assignment old" "r_hold_expires_at new = r_hold_expires_at old" "r_external_ref new = r_external_ref old"
    "r_created_by new = r_created_by old" "r_version new = r_version old + 1" "cx_actor cx \<noteq> []"
    "r_status new = r_status old \<or> canTransition (r_status old) (r_status new)"
    "check_reservation new = Inr ()"
    "r_status old = Held \<Longrightarrow> r_status new = Confirmed \<Longrightarrow> cx_now cx < r_hold_expires_at old \<and> fits d new \<and> outside_blackouts d new"
    "r_status new = Expired \<Longrightarrow> r_status old \<noteq> Expired \<Longrightarrow> r_hold_expires_at old \<le> cx_now cx"
    "r_status new = Cancelled \<Longrightarrow> r_status old \<noteq> Cancelled \<Longrightarrow> r_cancel_reason new \<noteq> None"
    "r_status new \<noteq> r_status old \<Longrightarrow> r_status old = Held \<Longrightarrow> r_token_hash new = None"
    "r_token_hash new \<noteq> None \<Longrightarrow> r_token_hash new \<noteq> r_token_hash old \<Longrightarrow> r_status new = Held \<and> cx_now cx < r_hold_expires_at old"
    "r_status new = (case set_status p of None \<Rightarrow> r_status old | Some s \<Rightarrow> s)"
    "r_status new = r_status old \<Longrightarrow> r_token_hash new = (case set_token p of None \<Rightarrow> r_token_hash old | Some t \<Rightarrow> t)"
    "r_cancel_reason new = (case set_reason p of None \<Rightarrow> r_cancel_reason old | Some t \<Rightarrow> Some t)"
proof -
  from assms obtain n where
    a: "require_actor cx = Inr ()" and t: "trg_transition (cx_now cx) old (apply_patch p old) = Inr n"
    and e: "trg_expiry_guard (cx_now cx) old n = Inr ()" and b: "trg_blackout_guard d (Some old) n = Inr ()"
    and f: "trg_fit d (Some old) n = Inr ()" and g: "trg_token_guard (cx_now cx) old (trg_version old n) = Inr ()"
    and c: "check_reservation (trg_version old n) = Inr ()" and new: "new = trg_version old n"
    by (auto simp: judge_update_def rbind_eq_Inr)
  note tf = trg_transition_facts [OF t]
  then have n: "n = apply_patch p old \<or> n = (apply_patch p old)\<lparr>r_token_hash := None\<rparr>" by blast
  show "r_id new = r_id old" "r_venue new = r_venue old" "r_party_size new = r_party_size old" "r_during new = r_during old"
    "r_assignment new = r_assignment old" "r_hold_expires_at new = r_hold_expires_at old" "r_external_ref new = r_external_ref old"
    "r_created_by new = r_created_by old" "r_version new = r_version old + 1"
    using n by (auto simp: new trg_version_def)
  show "cx_actor cx \<noteq> []" using a by (simp add: require_actor_def)
  have st: "r_status new = r_status n" "r_token_hash new = r_token_hash n" "r_cancel_reason new = r_cancel_reason n"
    by (simp_all add: new trg_version_def)
  note tf' = tf [folded st]
  show "r_status new = r_status old \<or> canTransition (r_status old) (r_status new)" using tf' by blast
  show "check_reservation new = Inr ()" using c new by simp
  show "cx_now cx < r_hold_expires_at old \<and> fits d new \<and> outside_blackouts d new"
    if "r_status old = Held" "r_status new = Confirmed"
  proof -
    from that st have cf: "confirming (Some old) n" by (simp add: confirming_def)
    have "fits d n" "outside_blackouts d n"
      using trg_fit_confirming [OF f] trg_blackout_confirming [OF b] cf by auto
    moreover have "fits d new = fits d n" by (rule fits_cong_row) (simp_all add: new trg_version_def)
    moreover have "outside_blackouts d new = outside_blackouts d n"
      by (rule outside_blackouts_cong_row) (simp_all add: new trg_version_def)
    moreover have "cx_now cx < r_hold_expires_at old" using e that st by (simp add: trg_expiry_guard_def)
    ultimately show ?thesis by simp
  qed
  show "r_status new = Expired \<Longrightarrow> r_status old \<noteq> Expired \<Longrightarrow> r_hold_expires_at old \<le> cx_now cx"
    "r_status new = Cancelled \<Longrightarrow> r_status old \<noteq> Cancelled \<Longrightarrow> r_cancel_reason new \<noteq> None"
    "r_status new \<noteq> r_status old \<Longrightarrow> r_status old = Held \<Longrightarrow> r_token_hash new = None"
    using tf' by blast+
  show "r_token_hash new \<noteq> None \<Longrightarrow> r_token_hash new \<noteq> r_token_hash old \<Longrightarrow> r_status new = Held \<and> cx_now cx < r_hold_expires_at old"
    using g st by (auto simp: trg_token_guard_def new [symmetric])
  have ps: "r_status (apply_patch p old) = (case set_status p of None \<Rightarrow> r_status old | Some s \<Rightarrow> s)"
    "r_token_hash (apply_patch p old) = (case set_token p of None \<Rightarrow> r_token_hash old | Some t \<Rightarrow> t)"
    "r_cancel_reason (apply_patch p old) = (case set_reason p of None \<Rightarrow> r_cancel_reason old | Some t \<Rightarrow> Some t)"
    by (simp_all add: apply_patch_def)
  show "r_status new = (case set_status p of None \<Rightarrow> r_status old | Some s \<Rightarrow> s)" using tf' ps(1) by argo
  show "r_cancel_reason new = (case set_reason p of None \<Rightarrow> r_cancel_reason old | Some t \<Rightarrow> Some t)" using n st ps by auto
  show "r_token_hash new = (case set_token p of None \<Rightarrow> r_token_hash old | Some t \<Rightarrow> t)" if "r_status new = r_status old"
  proof -
    from that tf have "n = apply_patch p old"
      using t by (auto simp: trg_transition_def Let_def st split: if_splits)
    with st ps show ?thesis by simp
  qed
qed

definition audit_row :: "session \<Rightarrow> db \<Rightarrow> ReservationRow option \<Rightarrow> ReservationRow \<Rightarrow> AuditRow" where
  "audit_row cx d old new = \<lparr>au_id = audit_seq d, au_venue = r_venue new, au_entity_id = r_id new,
     au_action = audit_action old new, au_before = map_option audited old, au_after = audited new,
     au_actor = cx_actor cx, au_trace = cx_trace cx, au_at = cx_now cx\<rparr>"

lemma write_reservation_sel:
  "reservations (write_reservation cx old new d) = map (\<lambda>r. if r_id r = r_id new then new else r) (reservations d)"
  "units (write_reservation cx old new d) = units d" "combos (write_reservation cx old new d) = combos d"
  "blackouts (write_reservation cx old new d) = blackouts d" "schedules (write_reservation cx old new d) = schedules d"
  "venues (write_reservation cx old new d) = venues d" "idempotency (write_reservation cx old new d) = idempotency d"
  "outbox (write_reservation cx old new d) = outbox d" "outbox_seq (write_reservation cx old new d) = outbox_seq d"
  "audit_log (write_reservation cx old new d) = audit_log d @ [audit_row cx d (Some old) new]"
  "audit_seq (write_reservation cx old new d) = Suc (audit_seq d)"
  "unit_rows (write_reservation cx old new d) = (if released (r_status new) \<and> \<not> released (r_status old)
     then map (\<lambda>ru. if ru_reservation ru = r_id new \<and> ru_active ru then ru\<lparr>ru_active := False\<rparr> else ru) (unit_rows d)
     else unit_rows d)"
  by (simp_all add: write_reservation_def trg_sync_unit_rows_def trg_audit_def audit_row_def)

text \<open>What an update changes of a row, and when it leaves it live.\<close>

lemma audited_sel [simp]:
  "r_id (audited r) = r_id r" "r_status (audited r) = r_status r" "r_version (audited r) = r_version r"
  "r_venue (audited r) = r_venue r" "r_party_size (audited r) = r_party_size r" "r_during (audited r) = r_during r"
  "r_assignment (audited r) = r_assignment r" "r_hold_expires_at (audited r) = r_hold_expires_at r"
  "r_external_ref (audited r) = r_external_ref r" "r_created_by (audited r) = r_created_by r"
  by (simp_all add: audited_def)

lemma live_after_update:
  assumes "r_status new = r_status old \<or> canTransition (r_status old) (r_status new)"
    and "r_hold_expires_at new = r_hold_expires_at old" and "live T new"
  shows "live T old \<or> r_status old = Held \<and> r_status new = Confirmed"
  using assms by (cases "r_status old") (auto simp: live_iff)

lemma audit_chain_snoc:
  "audit_chain a xs b \<Longrightarrow> au_before x = b \<Longrightarrow> au_action x = audit_action b (au_after x) \<Longrightarrow> audit_step_ok b (au_after x)
   \<Longrightarrow> c = Some (au_after x) \<Longrightarrow> audit_chain a (xs @ [x]) c"
  by (induction xs arbitrary: a) auto

lemma rows_of_deactivate:
  "map ru_unit (filter (\<lambda>ru. ru_reservation ru = i) (map (\<lambda>ru. if ru_reservation ru = j \<and> ru_active ru then ru\<lparr>ru_active := False\<rparr> else ru) xs))
   = map ru_unit (filter (\<lambda>ru. ru_reservation ru = i) xs)"
  by (induction xs) auto

text \<open>An update the triggers accept, of a row of a database with the invariant.\<close>

definition legal_update :: "instant \<Rightarrow> string set \<Rightarrow> session \<Rightarrow> db \<Rightarrow> ReservationRow \<Rightarrow> ReservationPatch \<Rightarrow> ReservationRow \<Rightarrow> bool" where
  "legal_update T X cx d old p new \<longleftrightarrow> inv T X d \<and> old \<in> set (reservations d) \<and> cx_now cx \<le> T
     \<and> judge_update cx d old (apply_patch p old) = Inr new"

lemma legal_updateD:
  assumes "legal_update T X cx d old p new"
  shows "inv T X d" "old \<in> set (reservations d)" "cx_now cx \<le> T" "judge_update cx d old (apply_patch p old) = Inr new"
  using assms by (simp_all add: legal_update_def)

lemma update_other:
  assumes "legal_update T X cx d old p new"
  shows "r \<in> set (reservations d) \<Longrightarrow> r_id r = r_id new \<Longrightarrow> r = old"
  using distinct_key_eq [of r_id "reservations d" r old] legal_updateD [OF assms] judge_update_facts(1) [OF legal_updateD(4) [OF assms]]
  by (auto simp: inv_def ids_ok_def)

lemma update_cases:
  "r \<in> set (reservations (write_reservation cx old new d)) \<Longrightarrow> r = new \<or> (r \<in> set (reservations d) \<and> r_id r \<noteq> r_id new)"
  unfolding write_reservation_sel by (rule set_replace_key)

lemma update_ids:
  assumes L: "legal_update T X cx d old p new"
  shows "ids_ok (write_reservation cx old new d)"
  using legal_updateD(1) [OF L] by (simp add: inv_def ids_ok_def write_reservation_sel map_replace_key del: map_map)

lemma update_exclusion:
  assumes L: "legal_update T X cx d old p new"
  shows "exclusion_ok (write_reservation cx old new d)"
proof -
  note I = legal_updateD(1) [OF L] and old = legal_updateD(2) [OF L] and J = legal_updateD(4) [OF L]
  have e: "sorted_wrt (\<lambda>a b. \<not> unit_rows_conflict a b) (unit_rows d)" using I by (simp add: inv_def exclusion_ok_def)
  show ?thesis
  proof (cases "released (r_status new) \<and> \<not> released (r_status old)")
    case True
    show ?thesis unfolding exclusion_ok_def write_reservation_sel if_P [OF True]
      by (rule sorted_wrt_map_update [OF e]) (auto simp: unit_rows_conflict_def split: if_splits)
  next
    case False
    show ?thesis unfolding exclusion_ok_def write_reservation_sel if_not_P [OF False] by (rule e)
  qed
qed

lemma update_sync:
  assumes L: "legal_update T X cx d old p new"
  shows "sync_ok (write_reservation cx old new d)"
proof -
  note I = legal_updateD(1) [OF L] and old = legal_updateD(2) [OF L] and J = legal_updateD(4) [OF L]
  note f = judge_update_facts [OF J]
  have s: "\<exists>r\<in>set (reservations d). r_id r = ru_reservation ru \<and> row_in_sync ru r" if "ru \<in> set (unit_rows d)" for ru
    using I that by (auto simp: inv_def sync_ok_def)
  have rel: "released (r_status old) \<Longrightarrow> released (r_status new)"
    using f(11) by (cases "r_status old") (auto simp: released_def)
  have new: "new \<in> set (reservations (write_reservation cx old new d))"
    using old f(1) by (auto simp: write_reservation_sel)
  have keep: "r \<in> set (reservations (write_reservation cx old new d))" if "r \<in> set (reservations d)" "r_id r \<noteq> r_id new" for r
    using that by (auto simp: write_reservation_sel)
  have "\<exists>r\<in>set (reservations (write_reservation cx old new d)). r_id r = ru_reservation ru' \<and> row_in_sync ru' r"
    if ru: "ru \<in> set (unit_rows d)" and ru': "ru' = (if released (r_status new) \<and> \<not> released (r_status old)
      then (if ru_reservation ru = r_id new \<and> ru_active ru then ru\<lparr>ru_active := False\<rparr> else ru) else ru)" for ru ru'
  proof -
    from s [OF ru] obtain r where r: "r \<in> set (reservations d)" "r_id r = ru_reservation ru" "row_in_sync ru r" by blast
    show ?thesis
    proof (cases "r_id r = r_id new")
      case True
      then have "r = old" using update_other [OF L] r(1) by blast
      with r(2,3) True rel have "r_id new = ru_reservation ru' \<and> row_in_sync ru' new"
        unfolding ru' by (auto simp: row_in_sync_def f(2,4))
      with new show ?thesis by blast
    next
      case False
      with r ru' have "r_id r = ru_reservation ru' \<and> row_in_sync ru' r" by auto
      with keep [OF r(1) False] show ?thesis by blast
    qed
  qed
  note each = this
  show ?thesis
  proof (cases "released (r_status new) \<and> \<not> released (r_status old)")
    case True
    show ?thesis unfolding sync_ok_def write_reservation_sel(12) if_P [OF True] set_map ball_simps
      by (intro ballI each) (simp_all add: True)
  next
    case False
    show ?thesis unfolding sync_ok_def write_reservation_sel(12) if_not_P [OF False]
      by (intro ballI each) (simp_all only: False if_False)
  qed
qed

lemma update_members:
  assumes L: "legal_update T X cx d old p new"
  shows "members_ok X (write_reservation cx old new d)"
proof -
  note I = legal_updateD(1) [OF L] and old = legal_updateD(2) [OF L] and J = legal_updateD(4) [OF L]
  note f = judge_update_facts [OF J]
  have same: "membership_ok (write_reservation cx old new d) r = membership_ok d r" for r
    by (simp add: membership_ok_def rows_of_def members_of_cong [OF write_reservation_sel(3)] write_reservation_sel(12) rows_of_deactivate)
  have "membership_ok d new = membership_ok d old" by (simp add: membership_ok_def f(1,5))
  then show ?thesis using I old f(1) by (auto simp: members_ok_def same inv_def dest!: update_cases)
qed

lemma update_fit:
  assumes L: "legal_update T X cx d old p new"
  shows "fit_ok T (write_reservation cx old new d)"
proof -
  note I = legal_updateD(1) [OF L] and old = legal_updateD(2) [OF L] and J = legal_updateD(4) [OF L]
  note f = judge_update_facts [OF J]
  have "fits d new" if "live T new"
    using live_after_update [OF f(11,6) that] f(13) fits_cong_row [OF f(5,2,3)] I old
    by (auto simp: inv_def fit_ok_def)
  then show ?thesis using I
    unfolding fit_ok_def fits_cong [OF write_reservation_sel(2,3)]
    by (auto simp: inv_def fit_ok_def dest!: update_cases)
qed

lemma update_blackout:
  assumes L: "legal_update T X cx d old p new"
  shows "blackout_ok T (write_reservation cx old new d)"
proof -
  note I = legal_updateD(1) [OF L] and old = legal_updateD(2) [OF L] and J = legal_updateD(4) [OF L]
  note f = judge_update_facts [OF J]
  have "outside_blackouts d new" if "live T new"
    using live_after_update [OF f(11,6) that] f(13) outside_blackouts_cong_row [OF f(4,2)] I old
    by (auto simp: inv_def blackout_ok_def)
  then show ?thesis using I
    unfolding blackout_ok_def outside_blackouts_cong [OF write_reservation_sel(4)]
    by (auto simp: inv_def blackout_ok_def dest!: update_cases)
qed

lemma update_audit:
  assumes L: "legal_update T X cx d old p new"
  shows "audit_ok (write_reservation cx old new d)"
proof -
  note I = legal_updateD(1) [OF L] and old = legal_updateD(2) [OF L] and J = legal_updateD(4) [OF L]
  note f = judge_update_facts [OF J]
  let ?a = "audit_row cx d (Some old) new"
  have a: "au_entity_id ?a = r_id new" "au_before ?a = Some (audited old)" "au_after ?a = audited new"
    "au_venue ?a = r_venue new" "au_id ?a = audit_seq d" "au_actor ?a = cx_actor cx"
    "au_action ?a = audit_action (Some (audited old)) (audited new)"
    by (simp_all add: audit_row_def audit_action_def)
  from I have A: "\<And>r. r \<in> set (reservations d) \<Longrightarrow> audit_chain None (trail d (r_id r)) (Some (audited r))"
    "\<And>a. a \<in> set (audit_log d) \<Longrightarrow> \<exists>r\<in>set (reservations d). r_id r = au_entity_id a \<and> r_venue r = au_venue a"
    "sorted_wrt (<) (map au_id (audit_log d))" "\<And>a. a \<in> set (audit_log d) \<Longrightarrow> au_id a < audit_seq d"
    "\<And>a. a \<in> set (audit_log d) \<Longrightarrow> au_actor a \<noteq> []"
    by (auto simp: inv_def audit_ok_def)
  have step: "audit_step_ok (Some (audited old)) (audited new)"
    using f(11) by (simp add: audit_step_ok_def f(1-9))
  have tr: "trail (write_reservation cx old new d) i = trail d i @ (if i = r_id new then [?a] else [])" for i
    by (simp add: trail_def write_reservation_sel a)
  have "audit_chain None (trail d (r_id old) @ [?a]) (Some (audited new))"
    by (rule audit_chain_snoc [OF A(1) [OF old]]) (use step a in auto)
  then have chain: "audit_chain None (trail (write_reservation cx old new d) (r_id r)) (Some (audited r))"
    if "r \<in> set (reservations (write_reservation cx old new d))" for r
    using update_cases [OF that] A(1) f(1) by (auto simp: tr)
  have new: "new \<in> set (reservations (write_reservation cx old new d))"
    using old f(1) by (auto simp: write_reservation_sel)
  have ent: "\<exists>r'\<in>set (reservations (write_reservation cx old new d)). r_id r' = r_id r \<and> r_venue r' = r_venue r"
    if "r \<in> set (reservations d)" for r
  proof (cases "r_id r = r_id new")
    case True
    then have "r = old" by (rule update_other [OF L that])
    with new f(1,2) show ?thesis by metis
  next
    case False
    with that have "r \<in> set (reservations (write_reservation cx old new d))" by (auto simp: write_reservation_sel)
    then show ?thesis by blast
  qed
  have "\<exists>r\<in>set (reservations (write_reservation cx old new d)). r_id r = au_entity_id x \<and> r_venue r = au_venue x"
    if "x \<in> set (audit_log (write_reservation cx old new d))" for x
  proof (cases "x = ?a")
    case True
    with new a show ?thesis by auto
  next
    case False
    with that A(2) [of x] obtain r where "r \<in> set (reservations d)" "r_id r = au_entity_id x \<and> r_venue r = au_venue x"
      by (auto simp: write_reservation_sel)
    with ent [of r] show ?thesis by auto
  qed
  note rows = this
  have log: "audit_log (write_reservation cx old new d) = audit_log d @ [?a]" "audit_seq (write_reservation cx old new d) = Suc (audit_seq d)"
    by (simp_all add: write_reservation_sel)
  have "sorted_wrt (<) (map au_id (audit_log d @ [?a]))"
    using A(3,4) a(5) by (auto simp: sorted_wrt_append)
  moreover have "au_id x < Suc (audit_seq d)" "au_actor x \<noteq> []" if "x \<in> set (audit_log d @ [?a])" for x
    using that A(4) [of x] A(5) [of x] a(5,6) f(10) by auto
  ultimately show ?thesis unfolding audit_ok_def log using chain rows [unfolded log] by blast
qed

lemma update_assigned:
  assumes L: "legal_update T X cx d old p new"
  shows "assigned_ok (write_reservation cx old new d)"
proof -
  note f = judge_update_facts [OF legal_updateD(4) [OF L]]
  show ?thesis using legal_updateD(1,2) [OF L]
    unfolding assigned_ok_def assignment_facts_cong [OF write_reservation_sel(2,3)]
    by (auto simp: inv_def assigned_ok_def f(2,5) dest!: update_cases)
qed

lemma update_shape:
  assumes L: "legal_update T X cx d old p new"
  shows "shape_ok (write_reservation cx old new d)"
proof -
  note I = legal_updateD(1) [OF L] and old = legal_updateD(2) [OF L] and J = legal_updateD(4) [OF L]
  note f = judge_update_facts [OF J]
  from I have s: "shape_ok d" by (simp add: inv_def)
  have tok: "r_status new = Held" if "r_token_hash new \<noteq> None"
    using that f(16,17) s old f(11) by (cases "r_status new = r_status old") (auto simp: shape_ok_def)
  have rea: "r_cancel_reason new \<noteq> None" if "r_status new = Cancelled"
    using that f(15,20) s old by (cases "r_status old = Cancelled") (auto simp: shape_ok_def split: option.splits)
  show ?thesis
    using s tok rea f(12) unfolding shape_ok_def write_reservation_sel(2-5)
    by (auto dest!: update_cases)
qed

lemma inv_write_reservation: "legal_update T X cx d old p new \<Longrightarrow> inv T X (write_reservation cx old new d)"
  unfolding inv_def
  by (intro conjI update_ids update_exclusion update_sync update_members update_fit update_blackout update_audit update_assigned update_shape)

lemma preserves_update_reservation [preserved]:
  assumes "cx_now cx \<le> T"
  shows "preserves (inv T X) (update_reservation cx rid cond p)"
proof (rule preservesI)
  fix d x d' assume I: "inv T X d" and u: "update_reservation cx rid cond p d = Inr (x, d')"
  show "inv T X d'"
  proof (cases "find_reservation cx d rid")
    case None
    with u I show ?thesis by (simp add: update_reservation_def)
  next
    case (Some old)
    then have old: "old \<in> set (reservations d)" by (auto simp: find_reservation_def dest: find_Some_D)
    show ?thesis
    proof (cases "cond old")
      case False
      with u I Some show ?thesis by (simp add: update_reservation_def)
    next
      case True
      with u Some obtain new where "judge_update cx d old (apply_patch p old) = Inr new" "d' = write_reservation cx old new d"
        by (auto simp: update_reservation_def rbind_eq_Inr)
      moreover from this have "legal_update T X cx d old p new" using I old assms by (simp add: legal_update_def)
      ultimately show ?thesis using inv_write_reservation by blast
    qed
  qed
qed

section \<open>Inserting a reservation and its unit rows\<close>

lemma insert_reservation_facts:
  assumes "insert_reservation cx r d = Inr (x, d')"
  shows "x = r" "cx_actor cx \<noteq> []" "outside_blackouts d r" "fits d r" "check_reservation r = Inr ()"
    "r_id r \<notin> r_id ` set (reservations d)" "find_venue d (r_venue r) \<noteq> None"
    "d' = trg_audit cx None r (d\<lparr>reservations := reservations d @ [r], deferred := deferred d @ [r_id r]\<rparr>)"
proof -
  from assms have all: "require_actor cx = Inr () \<and> trg_blackout_guard d None r = Inr () \<and> trg_fit d None r = Inr ()
    \<and> check_reservation r = Inr () \<and> r_id r \<notin> set (map r_id (reservations d)) \<and> find_venue d (r_venue r) \<noteq> None \<and> x = r
    \<and> d' = trg_audit cx None r (d\<lparr>reservations := reservations d @ [r], deferred := deferred d @ [r_id r]\<rparr>)"
    unfolding insert_reservation_def rbind_eq_Inr by (auto simp only: rbind_eq_Inr throw_if_eq prod.inject sum.inject intro: old.unit.exhaust)
  show "cx_actor cx \<noteq> []" using all by (simp add: require_actor_def)
  show "outside_blackouts d r" by (rule trg_blackout_confirming) (use all in auto)
  show "fits d r" by (rule trg_fit_confirming) (use all in auto)
  show "r_id r \<notin> r_id ` set (reservations d)" using all by simp
  show "x = r" "check_reservation r = Inr ()" "find_venue d (r_venue r) \<noteq> None"
    "d' = trg_audit cx None r (d\<lparr>reservations := reservations d @ [r], deferred := deferred d @ [r_id r]\<rparr>)"
    using all by blast+
qed

lemma inserted_sel:
  fixes cx r d
  defines "e \<equiv> trg_audit cx None r (d\<lparr>reservations := reservations d @ [r], deferred := deferred d @ [r_id r]\<rparr>)"
  shows "reservations e = reservations d @ [r]" "units e = units d" "combos e = combos d" "blackouts e = blackouts d"
    "schedules e = schedules d" "unit_rows e = unit_rows d" "deferred e = deferred d @ [r_id r]"
    "audit_log e = audit_log d @ [audit_row cx d None r]" "audit_seq e = Suc (audit_seq d)" "venues e = venues d"
    "idempotency e = idempotency d" "outbox e = outbox d" "outbox_seq e = outbox_seq d"
  by (simp_all add: e_def trg_audit_def audit_row_def)

lemma insert_audit:
  assumes A: "audit_ok d" and new: "r_id r \<notin> r_id ` set (reservations d)" and a: "cx_actor cx \<noteq> []"
    and r: "r_status r = Held" "r_version r = 1"
    and res: "reservations e = reservations d @ [r]" and log: "audit_log e = audit_log d @ [audit_row cx d None r]"
    and s: "audit_seq e = Suc (audit_seq d)"
  shows "audit_ok e"
proof -
  let ?a = "audit_row cx d None r"
  have row: "au_entity_id ?a = r_id r" "au_before ?a = None" "au_after ?a = audited r"
    "au_venue ?a = r_venue r" "au_id ?a = audit_seq d" "au_actor ?a = cx_actor cx"
    "au_action ?a = audit_action None (audited r)"
    by (simp_all add: audit_row_def audit_action_def)
  from A have B: "\<And>r. r \<in> set (reservations d) \<Longrightarrow> audit_chain None (trail d (r_id r)) (Some (audited r))"
    "\<And>a. a \<in> set (audit_log d) \<Longrightarrow> \<exists>r\<in>set (reservations d). r_id r = au_entity_id a \<and> r_venue r = au_venue a"
    "sorted_wrt (<) (map au_id (audit_log d))" "\<And>a. a \<in> set (audit_log d) \<Longrightarrow> au_id a < audit_seq d"
    "\<And>a. a \<in> set (audit_log d) \<Longrightarrow> au_actor a \<noteq> []"
    by (auto simp: audit_ok_def)
  have none: "trail d (r_id r) = []"
  proof -
    have "au_entity_id y \<noteq> r_id r" if "y \<in> set (audit_log d)" for y
      using B(2) [OF that] new by (metis image_eqI)
    then show ?thesis by (simp add: trail_def filter_empty_conv)
  qed
  have tr: "trail e i = trail d i @ (if i = r_id r then [?a] else [])" for i
    by (simp add: trail_def log row)
  have "audit_chain None (trail e (r_id x)) (Some (audited x))" if "x \<in> set (reservations e)" for x
  proof (cases "x = r")
    case True
    then show ?thesis by (simp add: tr none row audit_step_ok_def r)
  next
    case False
    with that have x: "x \<in> set (reservations d)" by (simp add: res)
    with new have "r_id x \<noteq> r_id r" by (metis image_eqI)
    with B(1) [OF x] show ?thesis by (simp add: tr)
  qed
  moreover have "\<exists>x\<in>set (reservations e). r_id x = au_entity_id y \<and> r_venue x = au_venue y" if "y \<in> set (audit_log e)" for y
    using that B(2) [of y] by (auto simp: log res row)
  moreover have "sorted_wrt (<) (map au_id (audit_log e))"
    using B(3,4) by (auto simp: log sorted_wrt_append row)
  moreover have "au_id y < audit_seq e" "au_actor y \<noteq> []" if "y \<in> set (audit_log e)" for y
    using that B(4) [of y] B(5) [of y] a by (auto simp: log s row)
  ultimately show ?thesis unfolding audit_ok_def by blast
qed

lemma fits_assigned: "fits d r \<Longrightarrow> assignment_facts d (r_assignment r) (r_venue r) \<noteq> None"
  by (auto simp: fits_def)

lemma insert_reservation_inv:
  assumes I: "inv T X d" and ins: "insert_reservation cx r d = Inr (x, d')"
    and r: "r_status r = Held" "r_version r = 1" "r_token_hash r = None"
  shows "inv T (insert (r_id r) X) d'" and "deferred d' = deferred d @ [r_id r]"
proof -
  note f = insert_reservation_facts [OF ins]
  note sel = inserted_sel [of cx r d, folded f(8)]
  show "deferred d' = deferred d @ [r_id r]" by (rule sel(7))
  have "ids_ok d'" using I f(6) by (auto simp: inv_def ids_ok_def sel)
  moreover have "exclusion_ok d'" using I by (simp add: inv_def exclusion_ok_def sel)
  moreover have "sync_ok d'" using I by (auto simp: inv_def sync_ok_def sel)
  moreover have "members_ok (insert (r_id r) X) d'"
    using I unfolding members_ok_def membership_ok_cong [OF sel(6,3)] by (auto simp: inv_def members_ok_def sel)
  moreover have "fit_ok T d'"
    using I f(4) unfolding fit_ok_def fits_cong [OF sel(2,3)] by (auto simp: inv_def fit_ok_def sel)
  moreover have "blackout_ok T d'"
    using I f(3) unfolding blackout_ok_def outside_blackouts_cong [OF sel(4)] by (auto simp: inv_def blackout_ok_def sel)
  moreover have "audit_ok d'"
    using I by (intro insert_audit [OF _ f(6,2) r(1,2) sel(1,8,9)]) (simp add: inv_def)
  moreover have "assigned_ok d'"
    using I fits_assigned [OF f(4)] unfolding assigned_ok_def assignment_facts_cong [OF sel(2,3)] by (auto simp: inv_def assigned_ok_def sel)
  moreover have "shape_ok d'" using I f(5) r by (auto simp: inv_def shape_ok_def sel)
  ultimately show "inv T (insert (r_id r) X) d'" by (simp add: inv_def)
qed

lemma insert_unit_row_inv:
  assumes I: "inv T X d" and ins: "insert_unit_row ru d = Inr (x, d')" and X: "ru_reservation ru \<in> X"
  shows "inv T X d'" and "deferred d' = deferred d @ [ru_reservation ru]"
proof -
  from ins have g: "trg_unit_row_insert_guard d ru = Inr ()" and c: "\<forall>x\<in>set (unit_rows d). \<not> unit_rows_conflict x ru"
    and d': "d' = d\<lparr>unit_rows := unit_rows d @ [ru], deferred := deferred d @ [ru_reservation ru]\<rparr>"
    by (auto simp: insert_unit_row_def rbind_eq_Inr)
  show "deferred d' = deferred d @ [ru_reservation ru]" by (simp add: d')
  from g obtain r where "find (\<lambda>r. r_id r = ru_reservation ru) (reservations d) = Some r"
    and s: "ru_active ru" "r_status r = Held" "ru_during ru = r_during r" "ru_venue ru = r_venue r"
    by (auto simp: trg_unit_row_insert_guard_def split: option.splits)
  then have r: "r \<in> set (reservations d)" "r_id r = ru_reservation ru" by (auto dest: find_Some_D)
  have sync: "row_in_sync ru r" using s by (simp add: row_in_sync_def released_def)
  have "exclusion_ok d'" using I c by (simp add: inv_def exclusion_ok_def d' sorted_wrt_snoc)
  moreover have "sync_ok d'" using I r sync by (auto simp: inv_def sync_ok_def d')
  moreover have "members_ok X d'"
  proof -
    have "membership_ok d' y = membership_ok d y" if "r_id y \<notin> X" for y
      using that X by (auto simp: membership_ok_def rows_of_def d' members_of_cong [of d' d] members_of_def split: assignment_kind.split)
    then show ?thesis using I by (auto simp: inv_def members_ok_def d')
  qed
  moreover have e: "units d' = units d" "combos d' = combos d" "blackouts d' = blackouts d" "reservations d' = reservations d"
    "audit_log d' = audit_log d" "audit_seq d' = audit_seq d" "schedules d' = schedules d"
    by (simp_all add: d')
  ultimately show "inv T X d'"
    using I unfolding inv_def ids_ok_def fit_ok_def blackout_ok_def audit_ok_def assigned_ok_def shape_ok_def
      fits_cong [OF e(1,2)] outside_blackouts_cong [OF e(3)] trail_cong [OF e(5)] assignment_facts_cong [OF e(1,2)] e
    by blast
qed

section \<open>Live reservations and their unit rows\<close>

lemma find_combo_by_id:
  assumes "ids_ok d" and "find_combo d i v = Some c"
  shows "find (\<lambda>c. c_id c = i) (combos d) = Some c"
proof -
  from assms(2) have "c \<in> set (combos d)" "c_id c = i" by (auto simp: find_combo_def dest: find_Some_D)
  then show ?thesis using assms(1) find_distinct_key [of c_id "combos d" c] by (auto simp: ids_ok_def)
qed

lemma members_of_facts:
  assumes "inv T {} d" and "r \<in> set (reservations d)"
  shows "(\<exists>u. a_kind (r_assignment r) = Unit \<and> find_unit d (a_id (r_assignment r)) (r_venue r) = Some u
            \<and> members_of d (r_assignment r) = [u_id u])
    \<or> (\<exists>c. a_kind (r_assignment r) = Combo \<and> find_combo d (a_id (r_assignment r)) (r_venue r) = Some c
            \<and> members_of d (r_assignment r) = c_unit_ids c \<and> 2 \<le> length (c_unit_ids c))"
proof -
  from assms have as: "assignment_facts d (r_assignment r) (r_venue r) \<noteq> None" by (auto simp: inv_def assigned_ok_def)
  show ?thesis
  proof (cases "a_kind (r_assignment r)")
    case Unit
    with as obtain u where u: "find_unit d (a_id (r_assignment r)) (r_venue r) = Some u"
      by (auto simp: assignment_facts_def)
    then have "u_id u = a_id (r_assignment r)" by (auto simp: find_unit_def dest: find_Some_D)
    with Unit u show ?thesis by (simp add: members_of_def)
  next
    case Combo
    with as obtain c where c: "find_combo d (a_id (r_assignment r)) (r_venue r) = Some c"
      by (auto simp: assignment_facts_def)
    from c have "c \<in> set (combos d)" by (auto simp: find_combo_def dest: find_Some_D)
    then have "2 \<le> length (c_unit_ids c)"
      using assms(1) by (auto simp: inv_def shape_ok_def check_combo_def rbind_eq_Inr)
    with Combo c find_combo_by_id [OF _ c] assms(1) show ?thesis
      by (simp add: members_of_def inv_def)
  qed
qed

text \<open>A live reservation has an active row, with its venue and range, on each unit of its assignment.\<close>

lemma live_rows:
  assumes I: "inv T {} d" and r: "r \<in> set (reservations d)" and l: "live t r" and u: "u \<in> set (members_of d (r_assignment r))"
  shows "\<exists>ru\<in>set (unit_rows d). ru_reservation ru = r_id r \<and> ru_unit ru = u \<and> ru_active ru \<and> ru_venue ru = r_venue r \<and> ru_during ru = r_during r"
proof -
  from I r have "membership_ok d r" by (auto simp: inv_def members_ok_def)
  then have "set (map ru_unit (rows_of d (r_id r))) = set (members_of d (r_assignment r))"
    unfolding membership_ok_def by (metis set_sort)
  with u have "u \<in> ru_unit ` set (rows_of d (r_id r))" by simp
  then obtain ru where ru: "ru \<in> set (unit_rows d)" "ru_reservation ru = r_id r" "ru_unit ru = u"
    by (auto simp: rows_of_def)
  from I ru(1) obtain r' where r': "r' \<in> set (reservations d)" "r_id r' = ru_reservation ru" "row_in_sync ru r'"
    by (auto simp: inv_def sync_ok_def)
  then have "r' = r" using distinct_key_eq [of r_id "reservations d" r' r] I r ru(2) by (auto simp: inv_def ids_ok_def)
  with r'(3) live_not_released [OF l] ru show ?thesis by (auto simp: row_in_sync_def)
qed

lemma live_has_row:
  assumes "inv T {} d" and "r \<in> set (reservations d)" and "live t r"
  shows "\<exists>ru\<in>set (unit_rows d). ru_reservation ru = r_id r \<and> ru_active ru \<and> ru_venue ru = r_venue r \<and> ru_during ru = r_during r"
proof -
  from members_of_facts [OF assms(1,2)] have "1 \<le> length (members_of d (r_assignment r))" by auto
  then have "members_of d (r_assignment r) \<noteq> []" by auto
  then obtain u where "u \<in> set (members_of d (r_assignment r))" by (metis list.set_intros(1) neq_Nil_conv)
  from live_rows [OF assms this] show ?thesis by blast
qed

section \<open>Tables an operation leaves alone\<close>

text \<open>\<open>keeps f m\<close>: no run of \<open>m\<close> changes what \<open>f\<close> reads.\<close>

definition keeps :: "(db \<Rightarrow> 'b) \<Rightarrow> 'a tx \<Rightarrow> bool" where
  "keeps f m \<longleftrightarrow> (\<forall>z. preserves (\<lambda>d. f d = z) m)"

lemma keepsD: "keeps f m \<Longrightarrow> m d = Inr (x, d') \<Longrightarrow> f d' = f d"
  by (auto simp: keeps_def preserves_def)

lemma keepsI: "(\<And>d x d'. m d = Inr (x, d') \<Longrightarrow> f d' = f d) \<Longrightarrow> keeps f m"
  by (auto simp: keeps_def preserves_def)

named_theorems keeping "rules for keeps"

lemma keeps_combinators [keeping]:
  "keeps f (tret x)" "keeps f (tthrow e)" "keeps f (tget g)" "keeps f (tguard b e)"
  "keeps f m \<Longrightarrow> (\<And>x. keeps f (k x)) \<Longrightarrow> keeps f (tbind m k)"
  "keeps f m \<Longrightarrow> keeps f n \<Longrightarrow> keeps f (tthen m n)"
  "(\<And>x. x \<in> set xs \<Longrightarrow> keeps f (body x)) \<Longrightarrow> keeps f (tfor body xs)"
  "keeps f m \<Longrightarrow> keeps f (tsavepoint m)"
  by (auto simp: keeps_def intro!: preserves_basic preserves_tbind preserves_tthen preserves_tfor preserves_tsavepoint)

lemma keeps_cases [keeping]:
  "(b \<Longrightarrow> keeps f m) \<Longrightarrow> (\<not> b \<Longrightarrow> keeps f n) \<Longrightarrow> keeps f (if b then m else n)"
  "(w = None \<Longrightarrow> keeps f m) \<Longrightarrow> (\<And>y. w = Some y \<Longrightarrow> keeps f (k y)) \<Longrightarrow> keeps f (case w of None \<Rightarrow> m | Some y \<Rightarrow> k y)"
  "(\<And>e. s = Inl e \<Longrightarrow> keeps f (g e)) \<Longrightarrow> (\<And>y. s = Inr y \<Longrightarrow> keeps f (k' y)) \<Longrightarrow> keeps f (case s of Inl e \<Rightarrow> g e | Inr y \<Rightarrow> k' y)"
  "(\<And>a b. p = (a, b) \<Longrightarrow> keeps f (h a b)) \<Longrightarrow> keeps f (case p of (a, b) \<Rightarrow> h a b)"
  by (auto split: option.split sum.split prod.split)

lemma update_reservation_cases:
  assumes "update_reservation cx rid cond p d = Inr (x, d')"
  obtains (none) "x = None" "d' = d" "find_reservation cx d rid = None"
  | (excluded) old where "x = None" "d' = d" "find_reservation cx d rid = Some old" "\<not> cond old"
  | (updated) old new where "x = Some new" "find_reservation cx d rid = Some old" "cond old"
      "judge_update cx d old (apply_patch p old) = Inr new" "d' = write_reservation cx old new d"
proof (cases "find_reservation cx d rid")
  case None
  with assms show thesis by (intro none) (simp_all add: update_reservation_def)
next
  case (Some old)
  show thesis
  proof (cases "cond old")
    case False
    with assms Some show thesis by (intro excluded) (simp_all add: update_reservation_def)
  next
    case True
    with assms Some obtain new where "judge_update cx d old (apply_patch p old) = Inr new" "x = Some new"
      "d' = write_reservation cx old new d"
      by (auto simp: update_reservation_def rbind_eq_Inr)
    with Some True show thesis by (intro updated)
  qed
qed

lemma keeps_update_reservation [keeping]:
  "keeps venues (update_reservation cx rid cond p)" "keeps units (update_reservation cx rid cond p)"
  "keeps combos (update_reservation cx rid cond p)" "keeps idempotency (update_reservation cx rid cond p)"
  "keeps outbox (update_reservation cx rid cond p)" "keeps schedules (update_reservation cx rid cond p)"
  "keeps blackouts (update_reservation cx rid cond p)"
  by (rule keepsI; erule update_reservation_cases; simp add: write_reservation_sel)+

lemma keeps_enqueue [keeping]:
  "keeps venues (enqueue v t p)" "keeps units (enqueue v t p)" "keeps combos (enqueue v t p)"
  "keeps idempotency (enqueue v t p)" "keeps schedules (enqueue v t p)" "keeps blackouts (enqueue v t p)"
  "keeps reservations (enqueue v t p)" "keeps unit_rows (enqueue v t p)" "keeps audit_log (enqueue v t p)"
  "keeps deferred (enqueue v t p)" "keeps audit_seq (enqueue v t p)"
  by (rule keepsI; auto simp: enqueue_def)+

lemma keeps_commit [keeping]:
  "keeps venues commit" "keeps units commit" "keeps combos commit" "keeps idempotency commit" "keeps schedules commit"
  "keeps blackouts commit" "keeps reservations commit" "keeps unit_rows commit" "keeps audit_log commit" "keeps outbox commit"
  by (rule keepsI; auto simp: commit_def split: if_splits)+

lemma keeps_insert_reservation [keeping]:
  "keeps venues (insert_reservation cx r)" "keeps units (insert_reservation cx r)" "keeps combos (insert_reservation cx r)"
  "keeps idempotency (insert_reservation cx r)" "keeps outbox (insert_reservation cx r)" "keeps schedules (insert_reservation cx r)"
  "keeps blackouts (insert_reservation cx r)" "keeps unit_rows (insert_reservation cx r)"
  by (rule keepsI; drule insert_reservation_facts(8); simp add: inserted_sel)+

lemma keeps_insert_unit_row [keeping]:
  "keeps venues (insert_unit_row ru)" "keeps units (insert_unit_row ru)" "keeps combos (insert_unit_row ru)"
  "keeps idempotency (insert_unit_row ru)" "keeps outbox (insert_unit_row ru)" "keeps schedules (insert_unit_row ru)"
  "keeps blackouts (insert_unit_row ru)" "keeps reservations (insert_unit_row ru)" "keeps audit_log (insert_unit_row ru)"
  by (rule keepsI; auto simp: insert_unit_row_def rbind_eq_Inr)+

end
