(* ===== verification/DbPeriods.thy ===== *)
theory DbPeriods
  imports CoreAvailability DbTables
begin

text \<open>
  The three range queries of \<open>packages/db/src/commands/availability.ts\<close>. Postgres's time zones are a
  parameter: \<open>tz_local\<close> is \<open>t at time zone z\<close> of an instant (the local wall clock, in milliseconds
  since the local epoch) and \<open>tz_instant\<close> is the same operator on a local time.
\<close>

record zones =
  tz_local :: "string \<Rightarrow> instant \<Rightarrow> int"
  tz_instant :: "string \<Rightarrow> int \<Rightarrow> instant"

text \<open>The fixed zone UTC for every name, a concrete instance of the parameter.\<close>

definition utc_zones :: zones where
  "utc_zones = \<lparr>tz_local = (\<lambda>_ t. t), tz_instant = (\<lambda>_ t. t)\<rparr>"

definition local_date :: "zones \<Rightarrow> string \<Rightarrow> instant \<Rightarrow> int" where
  "local_date z tz t = tz_local z tz t div DAY_MS"

text \<open>\<open>extract(isodow from d)\<close>: day 0, 1970-01-01, is a Thursday.\<close>

definition isodow :: "int \<Rightarrow> int" where
  "isodow day = (day + 3) mod 7 + 1"

definition period_on :: "zones \<Rightarrow> string \<Rightarrow> int \<Rightarrow> ScheduleRow \<Rightarrow> ServicePeriod" where
  "period_on z tz day s = \<lparr>sp_scheduleId = s_id s,
     sp_startsAt = tz_instant z tz (day * DAY_MS + s_opens s * MINUTE),
     sp_endsAt = tz_instant z tz ((day + (if s_closes_next_day s then 1 else 0)) * DAY_MS + s_closes s * MINUTE),
     sp_durationBySize = s_duration_by_size s, sp_gapMinutes = s_gap_minutes s\<rparr>"

definition PERIODS_SQL :: "zones \<Rightarrow> db \<Rightarrow> string \<Rightarrow> instant \<Rightarrow> instant \<Rightarrow> ServicePeriod list" where
  "PERIODS_SQL z d venue from to = (case find_venue d venue of
      None \<Rightarrow> []
    | Some v \<Rightarrow> (let tz = v_timezone v; first = local_date z tz from - 1; days = local_date z tz to - local_date z tz from + 1 in
        sort_key (\<lambda>p. (sp_startsAt p, sp_scheduleId p))
          (filter (\<lambda>p. from < sp_endsAt p \<and> sp_startsAt p < to)
            (concat (map (\<lambda>i. map (period_on z tz (first + i))
                (filter (\<lambda>s. s_venue s = venue \<and> s_active s \<and> s_day_of_week s = isodow (first + i)) (schedules d)))
              [0..days])))))"

text \<open>The view \<open>occupancy\<close>: the bound venue's active unit rows.\<close>

definition occupancy :: "session \<Rightarrow> db \<Rightarrow> ReservationUnitRow list" where
  "occupancy cx d = filter (\<lambda>ru. ru_active ru \<and> cx_venue cx = Some (ru_venue ru)) (unit_rows d)"

definition OCCUPANCY_SQL :: "session \<Rightarrow> db \<Rightarrow> instant \<Rightarrow> instant \<Rightarrow> Busy list" where
  "OCCUPANCY_SQL cx d from to =
     map (\<lambda>ru. \<lparr>busy_unitId = ru_unit ru, busy_startsAt = fst (ru_during ru), busy_endsAt = snd (ru_during ru)\<rparr>)
       (filter (\<lambda>ru. overlaps (ru_during ru) (from, to)
           \<and> (\<exists>r\<in>set (reservations d). r_id r = ru_reservation ru \<and> visible cx (r_venue r) \<and> effective_status (cx_now cx) r \<noteq> Expired))
         (occupancy cx d))"

definition CLOSURES_SQL :: "db \<Rightarrow> string \<Rightarrow> instant \<Rightarrow> instant \<Rightarrow> Closure list" where
  "CLOSURES_SQL d venue from to =
     map (\<lambda>b. \<lparr>cl_startsAt = fst (b_during b), cl_endsAt = snd (b_during b)\<rparr>)
       (filter (\<lambda>b. b_venue b = venue \<and> b_active b \<and> overlaps (b_during b) (from, to)) (blackouts d))"

lemma PERIODS_SQL_window: "p \<in> set (PERIODS_SQL z d venue from to) \<Longrightarrow> from < sp_endsAt p \<and> sp_startsAt p < to"
  by (auto simp: PERIODS_SQL_def Let_def split: option.splits)

lemma PERIODS_SQL_active:
  "p \<in> set (PERIODS_SQL z d venue from to) \<Longrightarrow>
     \<exists>s\<in>set (schedules d). s_venue s = venue \<and> s_active s \<and> sp_scheduleId p = s_id s
       \<and> sp_durationBySize p = s_duration_by_size s \<and> sp_gapMinutes p = s_gap_minutes s"
  by (auto simp: PERIODS_SQL_def Let_def period_on_def split: option.splits)

end
