(* ===== verification/CmdHold.thy ===== *)
theory CmdHold
  imports DbInvariant DbPeriods
begin

text \<open>
  \<open>packages/db/src/commands/hold.ts\<close>. The environment carries what the command reads of the world:
  the start time and the generated id of each attempt's transaction, an error Postgres may abort an
  attempt with (a deadlock, a serialization failure, a timeout), SHA-256 and the time zones. The hooks
  are tests' observers and are left out; a lock is a no-op of the sequential model.
\<close>

section \<open>The environment\<close>

record env =
  e_now :: "nat \<Rightarrow> instant"
  e_uuid :: "nat \<Rightarrow> string"
  e_fault :: "nat \<Rightarrow> pg_error option"
  e_sha256 :: "string \<Rightarrow> string"
  e_zones :: zones

section \<open>The steps of an attempt\<close>

text \<open>A \<open>Date\<close> holds 8.64e15 milliseconds each way; \<open>toISOString\<close> throws beyond.\<close>

definition valid_time :: "instant \<Rightarrow> bool" where
  "valid_time t \<longleftrightarrow> - 8640000000000000 \<le> t \<and> t \<le> 8640000000000000"

definition rangeLiteral :: "string \<Rightarrow> int \<Rightarrow> range option" where
  "rangeLiteral startsAt durationMinutes = (case date_parse startsAt of
      None \<Rightarrow> None
    | Some s \<Rightarrow> (let e = s + durationMinutes * 60000 in if valid_time s \<and> valid_time e then Some (s, e) else None))"

text \<open>\<open>resolveAssignment\<close>: \<open>None\<close> is missing, else the sorted units and whether it is active.\<close>

definition resolveAssignment :: "db \<Rightarrow> HoldInput \<Rightarrow> (string list \<times> bool) option" where
  "resolveAssignment d i = (case a_kind (hi_assignment i) of
      Unit \<Rightarrow> map_option (\<lambda>u. (sortUnitIds [u_id u], u_active u)) (find_unit d (a_id (hi_assignment i)) (hi_venueId i))
    | Combo \<Rightarrow> map_option (\<lambda>c. (sortUnitIds (c_unit_ids c), c_active c)) (find_combo d (a_id (hi_assignment i)) (hi_venueId i)))"

definition checkSchedule :: "zones \<Rightarrow> HoldInput \<Rightarrow> range \<Rightarrow> unit tx" where
  "checkSchedule z i during d =
     (if \<not> (\<exists>s\<in>set (schedules d). s_venue s = hi_venueId i \<and> s_active s) then Inr ((), d)
      else if \<exists>p\<in>set (PERIODS_SQL z d (hi_venueId i) (fst during) (snd during)).
             sp_startsAt p \<le> fst during \<and> snd during \<le> sp_endsAt p then Inr ((), d)
      else Inl (ExDastar (dastar_error Outside_schedule (''the requested time is outside the venue'' @ CHR 0x27 # ''s service periods''))))"

text \<open>The update and delete ranges of \<open>LIVE_HOLDS_SQL\<close> and \<open>OVERLAP_SQL\<close>.\<close>

definition LIVE_HOLDS_SQL :: "session \<Rightarrow> db \<Rightarrow> string \<Rightarrow> string \<Rightarrow> nat" where
  "LIVE_HOLDS_SQL cx d venue actor = length (filter (\<lambda>r. r_venue r = venue \<and> r_created_by r = actor
     \<and> r_status r = Held \<and> cx_now cx < r_hold_expires_at r) (reservations d))"

definition OVERLAP_SQL :: "session \<Rightarrow> db \<Rightarrow> string list \<Rightarrow> range \<Rightarrow> string list" where
  "OVERLAP_SQL cx d us during = remdups (map ru_reservation
     (filter (\<lambda>ru. ru_unit ru \<in> set us \<and> overlaps (ru_during ru) during) (occupancy cx d)))"

definition dead :: "instant \<Rightarrow> ReservationRow \<Rightarrow> bool" where
  "dead now r \<longleftrightarrow> r_status r = Held \<and> r_hold_expires_at r \<le> now"

definition dead_ids :: "session \<Rightarrow> db \<Rightarrow> string list \<Rightarrow> string list" where
  "dead_ids cx d ids = map r_id (filter (dead (cx_now cx))
     (sort_key r_id (filter (\<lambda>r. r_id r \<in> set ids \<and> visible cx (r_venue r)) (reservations d))))"

definition patch_status :: "ReservationStatus \<Rightarrow> ReservationPatch" where
  "patch_status s = \<lparr>set_status = Some s, set_reason = None, set_token = None\<rparr>"

definition expire_one :: "session \<Rightarrow> string \<Rightarrow> unit tx" where
  "expire_one cx rid = tbind (update_reservation cx rid (dead (cx_now cx)) (patch_status Expired)) (\<lambda>row. case row of
      None \<Rightarrow> tret ()
    | Some r \<Rightarrow> tthen (enqueue (r_venue r) ''reservation.expired'' (reservationPayload r)) (tret ()))"

text \<open>Step 5: more overlapping reservations than the bound is retryable; the dead ones expire.\<close>

definition clear_overlap :: "session \<Rightarrow> string list \<Rightarrow> range \<Rightarrow> unit tx" where
  "clear_overlap cx us during = tbind (tget (\<lambda>d. OVERLAP_SQL cx d us during)) (\<lambda>ids.
     tthen (tguard (length ids \<le> BOUNDS_overlapSet)
       (ExDastar (dastar_error_retryable Overlap_set_too_large
         (show_nat (length ids) @ '' overlapping reservations; the sweeper is behind''))))
     (tbind (tget (\<lambda>d. dead_ids cx d ids)) (\<lambda>dead.
     tthen (tfor (expire_one (setActor cx ''system:conflict'')) dead) (tret ()))))"

definition new_reservation :: "HoldInput \<Rightarrow> string \<Rightarrow> range \<Rightarrow> instant \<Rightarrow> ReservationRow" where
  "new_reservation i rid during expires = \<lparr>r_id = rid, r_venue = hi_venueId i, r_party_size = hi_partySize i,
     r_during = during, r_status = Held, r_assignment = hi_assignment i, r_hold_expires_at = expires, r_version = 1,
     r_token_hash = None, r_cancel_reason = None, r_external_ref = hi_externalRef i, r_created_by = hi_actor i\<rparr>"

definition unit_row :: "ReservationRow \<Rightarrow> string \<Rightarrow> ReservationUnitRow" where
  "unit_row r u = \<lparr>ru_venue = r_venue r, ru_reservation = r_id r, ru_unit = u, ru_during = r_during r, ru_active = True\<rparr>"

text \<open>Step 6, under the savepoint.\<close>

definition book :: "session \<Rightarrow> ReservationRow \<Rightarrow> string list \<Rightarrow> ReservationRow tx" where
  "book cx r us = tbind (insert_reservation cx r) (\<lambda>row.
     tthen (tfor (\<lambda>u. insert_unit_row (unit_row row u)) us) (tret row))"

definition storeOutcome :: "HoldInput \<Rightarrow> HoldOutcome \<Rightarrow> HoldOutcome tx" where
  "storeOutcome i out = tthen (store_response (hi_venueId i) (hi_actor i) (hi_idempotencyKey i) out) (tthen commit (tret out))"

definition receipt_of :: "session \<Rightarrow> db \<Rightarrow> ReservationRow \<Rightarrow> Receipt" where
  "receipt_of cx d r = \<lparr>rc_reservationId = r_id r, rc_status = r_status r, rc_version = r_version r,
     rc_auditId = max_audit_id cx d (r_id r), rc_traceId = cx_trace cx\<rparr>"

text \<open>Steps 7 and 8: the outcome of the booking, stored under the still-owned key.\<close>

definition settle_booking :: "session \<Rightarrow> HoldInput \<Rightarrow> exn + ReservationRow \<Rightarrow> HoldOutcome tx" where
  "settle_booking cx i booked = (case booked of
      Inl e \<Rightarrow> (case mapPgError e of
          None \<Rightarrow> tthrow e
        | Some m \<Rightarrow> if code m \<in> set STORED_OUTCOMES then storeOutcome i (HoldRefused (code m) (message m) False) else tthrow e)
    | Inr row \<Rightarrow> tthen (enqueue (hi_venueId i) ''reservation.held'' (reservationPayload row))
        (tbind (tget (\<lambda>d. receipt_of cx d row)) (\<lambda>rc.
        storeOutcome i (HoldOk rc (toISOString (r_hold_expires_at row)) False))))"

definition venue_limits :: "db \<Rightarrow> string \<Rightarrow> (int \<times> int) option" where
  "venue_limits d v = map_option (\<lambda>r. (v_max_live_holds_per_actor r, v_hold_ttl_seconds r)) (find_venue d v)"

text \<open>Steps 4 to 8 for a resolved assignment. A venue that is not there is a TypeError on the empty row.\<close>

definition hold_units :: "env \<Rightarrow> nat \<Rightarrow> session \<Rightarrow> HoldInput \<Rightarrow> range \<Rightarrow> string list \<Rightarrow> HoldOutcome tx" where
  "hold_units env n cx i during us = tbind (tget (\<lambda>d. venue_limits d (hi_venueId i))) (\<lambda>limits. case limits of
      None \<Rightarrow> tthrow (ExError ''Cannot read properties of undefined'')
    | Some (cap, ttl) \<Rightarrow>
        tbind (tget (\<lambda>d. LIVE_HOLDS_SQL cx d (hi_venueId i) (hi_actor i))) (\<lambda>live.
        tthen (tguard (int live < cap)
          (ExDastar (dastar_error Too_many_live_holds (''actor has '' @ show_nat live @ '' live holds''))))
        (tthen (tguard (fst during \<le> snd during)
          (pg_raise ''22000'' ''range lower bound must be less than or equal to range upper bound''))
        (tthen (clear_overlap cx us during)
        (tbind (tsavepoint (book cx (new_reservation i (e_uuid env n) during (cx_now cx + ttl * 1000)) us)) (\<lambda>booked.
        settle_booking cx i booked))))))"

definition hold_claimed :: "env \<Rightarrow> nat \<Rightarrow> session \<Rightarrow> HoldInput \<Rightarrow> range \<Rightarrow> HoldOutcome tx" where
  "hold_claimed env n cx i during =
     tthen (if hi_enforceSchedule i then checkSchedule (e_zones env) i during else tret ())
     (tbind (tget (\<lambda>d. resolveAssignment d i)) (\<lambda>resolved. case resolved of
         None \<Rightarrow> storeOutcome i (HoldRefused Party_does_not_fit ''assignment not found in venue'' False)
       | Some (us, active) \<Rightarrow>
           tthen (tguard active (ExDastar (dastar_error Assignment_inactive ''assignment is deactivated'')))
           (hold_units env n cx i during us)))"

text \<open>A key already claimed: the payload's hash is compared and the stored outcome returned as a replay.\<close>

definition replay :: "IdempotencyRow option \<Rightarrow> string \<Rightarrow> exn + HoldOutcome" where
  "replay row hash = (case row of
      None \<Rightarrow> Inl (ExDastar (dastar_error_retryable Serialization_conflict ''idempotency row vanished between claim and read''))
    | Some r \<Rightarrow>
        if i_hash r \<noteq> hash then Inl (ExDastar (dastar_error Idempotency_mismatch ''same idempotency key, different payload''))
        else (case i_response r of
            None \<Rightarrow> Inl (ExDastar (dastar_error_retryable Serialization_conflict ''idempotency outcome not stored yet''))
          | Some (HoldOk rc t _) \<Rightarrow> Inr (HoldOk rc t True)
          | Some (HoldRefused c m _) \<Rightarrow> Inr (HoldRefused c m True)))"

definition claim_or_replay :: "env \<Rightarrow> HoldInput \<Rightarrow> string \<Rightarrow> nat \<Rightarrow> range \<Rightarrow> HoldOutcome tx" where
  "claim_or_replay env i hash n during = (let cx = setContext (hi_actor i) (hi_traceId i) (hi_venueId i) (e_now env n) in
     tbind (claim_key cx (hi_venueId i) (hi_actor i) (hi_idempotencyKey i) hash) (\<lambda>claimed.
       if claimed then hold_claimed env n cx i during
       else tbind (tget (\<lambda>d. idem_row d (hi_venueId i) (hi_actor i) (hi_idempotencyKey i))) (\<lambda>row.
         tthen commit (case replay row hash of Inl e \<Rightarrow> tthrow e | Inr out \<Rightarrow> tret out))))"

definition attemptHold :: "env \<Rightarrow> HoldInput \<Rightarrow> string \<Rightarrow> nat \<Rightarrow> HoldOutcome tx" where
  "attemptHold env i hash n d = (case rangeLiteral (hi_startsAt i) (hi_durationMinutes i) of
      None \<Rightarrow> Inl (ExError ''Invalid time value'')
    | Some during \<Rightarrow> (case e_fault env n of
        Some pe \<Rightarrow> Inl (ExPg pe)
      | None \<Rightarrow> claim_or_replay env i hash n during d))"

section \<open>The command\<close>

definition hold_error :: "exn \<Rightarrow> DastarError option" where
  "hold_error e = (case e of ExDastar m \<Rightarrow> Some m | _ \<Rightarrow> mapPgError e)"

function hold_loop :: "env \<Rightarrow> HoldInput \<Rightarrow> string \<Rightarrow> nat \<Rightarrow> HoldOutcome tx" where
  "hold_loop env i hash attempt d = (case attemptHold env i hash attempt d of
      Inr r \<Rightarrow> Inr r
    | Inl e \<Rightarrow> (case hold_error e of
        None \<Rightarrow> Inl (ExDastar (asDastarError e))
      | Some m \<Rightarrow> if retryable m \<and> code m = Serialization_conflict \<and> attempt = 1 then hold_loop env i hash (attempt + 1) d
          else Inl (ExDastar m)))"
  by auto
termination by (relation "measure (\<lambda>(env, i, hash, attempt, d). 2 - attempt)") auto

declare hold_loop.simps [simp del]

definition hold :: "env \<Rightarrow> HoldInput \<Rightarrow> HoldOutcome tx" where
  "hold env i d = (case canonicalHoldRequest i of
      None \<Rightarrow> Inl (ExError ''Invalid time value'')
    | Some text \<Rightarrow> hold_loop env i (e_sha256 env text) 1 d)"

section \<open>A hold keeps the invariants\<close>

lemma preserves_checkSchedule [preserved]: "preserves P (checkSchedule z i during)"
  by (auto simp: preserves_def checkSchedule_def split: if_splits)

lemma setActor_now [simp]: "cx_now (setActor cx a) = cx_now cx"
  by (simp add: setActor_def)

lemma setContext_sel [simp]:
  "cx_now (setContext a t v n) = n" "cx_actor (setContext a t v n) = a" "cx_trace (setContext a t v n) = t"
  "cx_venue (setContext a t v n) = Some v" "cx_bypass (setContext a t v n) = False"
  by (simp_all add: setContext_def)

lemma preserves_expire_one [preserved]: "cx_now cx \<le> T \<Longrightarrow> preserves (inv T X) (expire_one cx rid)"
  unfolding expire_one_def by (intro preserved) auto

lemma preserves_clear_overlap [preserved]: "cx_now cx \<le> T \<Longrightarrow> preserves (inv T X) (clear_overlap cx us during)"
  unfolding clear_overlap_def by (intro preserved) auto

lemma new_reservation_sel [simp]:
  "r_id (new_reservation i rid during e) = rid" "r_status (new_reservation i rid during e) = Held"
  "r_version (new_reservation i rid during e) = 1" "r_token_hash (new_reservation i rid during e) = None"
  "r_venue (new_reservation i rid during e) = hi_venueId i" "r_during (new_reservation i rid during e) = during"
  "r_party_size (new_reservation i rid during e) = hi_partySize i" "r_assignment (new_reservation i rid during e) = hi_assignment i"
  "r_hold_expires_at (new_reservation i rid during e) = e" "r_created_by (new_reservation i rid during e) = hi_actor i"
  by (simp_all add: new_reservation_def)

lemma book_inv:
  assumes I: "inv T {} d" and b: "book cx r us d = Inr (row, d')"
    and r: "r_status r = Held" "r_version r = 1" "r_token_hash r = None"
  shows "row = r" and "inv T {r_id r} d'" and "r_id r \<in> set (deferred d')"
proof -
  from b obtain d1 ys where i: "insert_reservation cx r d = Inr (row, d1)"
    and f: "tfor (\<lambda>u. insert_unit_row (unit_row row u)) us d1 = Inr (ys, d')"
    unfolding book_def tx_simps by auto
  show row: "row = r" using insert_reservation_facts(1) [OF i] .
  define P where "P = (\<lambda>d. inv T {r_id r} d \<and> r_id r \<in> set (deferred d))"
  have "preserves P (insert_unit_row (unit_row r u))" for u
  proof (rule preservesI)
    fix a x b assume "P a" and ins: "insert_unit_row (unit_row r u) a = Inr (x, b)"
    then show "P b" using insert_unit_row_inv [OF _ ins, of T "{r_id r}"] by (simp add: P_def unit_row_def)
  qed
  then have "preserves P (tfor (\<lambda>u. insert_unit_row (unit_row r u)) us)" by (intro preserves_tfor)
  moreover have "P d1" using insert_reservation_inv [OF I i r] by (simp add: P_def)
  ultimately have "P d'" using preservesD f row by metis
  then show "inv T {r_id r} d'" "r_id r \<in> set (deferred d')" by (simp_all add: P_def)
qed

lemma storeOutcome_inv:
  assumes "inv T X d" and "X \<subseteq> set (deferred d)" and "storeOutcome i out d = Inr (x, d')"
  shows "inv T {} d' \<and> x = out"
proof -
  from assms(3) obtain d1 where d1: "store_response (hi_venueId i) (hi_actor i) (hi_idempotencyKey i) out d = Inr ((), d1)"
    and c: "commit d1 = Inr ((), d')" and x: "x = out"
    unfolding storeOutcome_def tx_simps by auto
  have "inv T X d1" "deferred d1 = deferred d"
    using preservesD [OF preserves_store_response assms(1) d1] d1 by (auto simp: store_response_def tx_eqs)
  with commit_inv [OF _ _ c] assms(2) x show ?thesis by auto
qed

lemma preserves_storeOutcome [preserved]: "preserves (inv T {}) (storeOutcome i out)"
  by (rule preservesI) (use storeOutcome_inv in blast)

lemma preserves_hold_units:
  assumes now: "cx_now cx \<le> T"
  shows "preserves (inv T {}) (hold_units env n cx i during us)"
proof (rule preservesI)
  fix d out d' assume I: "inv T {} d" and h: "hold_units env n cx i during us d = Inr (out, d')"
  from h obtain cap ttl d1 booked d2 where
    c: "clear_overlap cx us during d = Inr ((), d1)"
    and b: "tsavepoint (book cx (new_reservation i (e_uuid env n) during (cx_now cx + ttl * 1000)) us) d1 = Inr (booked, d2)"
    and s: "settle_booking cx i booked d2 = Inr (out, d')"
    unfolding hold_units_def tx_simps by (auto simp: tx_simps split: option.splits if_splits)
  have I1: "inv T {} d1" by (rule preservesD [OF preserves_clear_overlap [OF now] I c])
  show "inv T {} d'"
  proof (cases booked)
    case (Inl e)
    with b have "d2 = d1" by (simp add: tx_simps)
    moreover have "preserves (inv T {}) (settle_booking cx i booked)"
      unfolding settle_booking_def Inl by (auto intro!: preserved)
    ultimately show ?thesis using preservesD I1 s by metis
  next
    case (Inr row)
    with b have bk: "book cx (new_reservation i (e_uuid env n) during (cx_now cx + ttl * 1000)) us d1 = Inr (row, d2)"
      by (simp add: tx_simps)
    note B = book_inv [OF I1 bk]
    from s Inr obtain nid d3 out' where e: "enqueue (hi_venueId i) ''reservation.held'' (reservationPayload row) d2 = Inr (nid, d3)"
      and st: "storeOutcome i out' d3 = Inr (out, d')"
      unfolding settle_booking_def by (auto simp: tx_simps)
    have "inv T {e_uuid env n} d3" "e_uuid env n \<in> set (deferred d3)"
      using B e by (auto simp: enqueue_def)
    with storeOutcome_inv [OF _ _ st] show ?thesis by auto
  qed
qed

lemma preserves_hold_claimed: "cx_now cx \<le> T \<Longrightarrow> preserves (inv T {}) (hold_claimed env n cx i during)"
  unfolding hold_claimed_def by (intro preserved preserves_hold_units) auto

lemma preserves_attemptHold: "e_now env n \<le> T \<Longrightarrow> preserves (inv T {}) (attemptHold env i hash n)"
proof -
  assume "e_now env n \<le> T"
  then have "preserves (inv T {}) (claim_or_replay env i hash n during)" for during
    unfolding claim_or_replay_def Let_def by (intro preserved preserves_hold_claimed) simp
  then show ?thesis
    by (auto simp: preserves_def attemptHold_def split: option.splits)
qed

lemma preserves_hold_loop: "(\<And>n. e_now env n \<le> T) \<Longrightarrow> inv T {} d \<Longrightarrow> hold_loop env i hash n d = Inr (x, d') \<Longrightarrow> inv T {} d'"
proof (induction env i hash n d rule: hold_loop.induct)
  case (1 env i hash n d)
  show ?case
  proof (cases "attemptHold env i hash n d")
    case (Inr r)
    have "hold_loop env i hash n d = Inr r" by (subst hold_loop.simps) (simp add: Inr)
    with "1.prems"(3) Inr have "attemptHold env i hash n d = Inr (x, d')" by simp
    with preservesD [OF preserves_attemptHold [OF "1.prems"(1)] "1.prems"(2)] show ?thesis by blast
  next
    case (Inl e)
    have "hold_loop env i hash n d = (case hold_error e of
        None \<Rightarrow> Inl (ExDastar (asDastarError e))
      | Some m \<Rightarrow> if retryable m \<and> code m = Serialization_conflict \<and> n = 1 then hold_loop env i hash (n + 1) d
          else Inl (ExDastar m))"
      by (subst hold_loop.simps) (simp add: Inl)
    with "1.prems"(3) obtain m where m: "hold_error e = Some m" "retryable m \<and> code m = Serialization_conflict \<and> n = 1"
      "hold_loop env i hash (n + 1) d = Inr (x, d')"
      by (simp split: option.splits if_splits)
    from "1.IH" [OF Inl m(1,2) "1.prems"(1,2) m(3)] show ?thesis .
  qed
qed

lemma preserves_hold [preserved]:
  assumes "\<And>n. e_now env n \<le> T"
  shows "preserves (inv T {}) (hold env i)"
proof (rule preservesI)
  fix d x d' assume I: "inv T {} d" and h: "hold env i d = Inr (x, d')"
  from h obtain canon where "hold_loop env i (e_sha256 env canon) 1 d = Inr (x, d')"
    by (auto simp: hold_def split: option.splits)
  from preserves_hold_loop [OF assms I this] show "inv T {} d'" .
qed

section \<open>Idempotency\<close>

lemma keeps_expire_one [keeping]: "keeps idempotency (expire_one cx rid)" "keeps venues (expire_one cx rid)"
  unfolding expire_one_def by (intro keeping)+

lemma keeps_clear_overlap [keeping]: "keeps idempotency (clear_overlap cx us during)" "keeps venues (clear_overlap cx us during)"
  unfolding clear_overlap_def by (intro keeping)+

lemma keeps_book [keeping]: "keeps idempotency (book cx r us)" "keeps venues (book cx r us)"
  unfolding book_def by (intro keeping)+

lemma keeps_checkSchedule [keeping]: "keeps f (checkSchedule z i during)"
  by (rule keepsI) (auto simp: checkSchedule_def split: if_splits)

lemma storeOutcome_eq:
  assumes "storeOutcome i out d = Inr (x, d')"
  shows "x = out" "deferred d' = []"
    "idempotency d' = map (\<lambda>r. if i_venue r = hi_venueId i \<and> i_actor r = hi_actor i \<and> i_key r = hi_idempotencyKey i
       then r\<lparr>i_response := Some out\<rparr> else r) (idempotency d)"
    "reservations d' = reservations d" "unit_rows d' = unit_rows d" "audit_log d' = audit_log d" "outbox d' = outbox d"
    "units d' = units d" "combos d' = combos d" "venues d' = venues d"
  using assms by (auto simp: storeOutcome_def tx_simps store_response_def commit_def split: if_splits)

text \<open>The key of a request, and the row a committed attempt leaves under it.\<close>

definition request_row :: "db \<Rightarrow> HoldInput \<Rightarrow> IdempotencyRow option" where
  "request_row d i = idem_row d (hi_venueId i) (hi_actor i) (hi_idempotencyKey i)"

lemma request_row_stored:
  assumes "storeOutcome i out d = Inr (x, d')" and "request_row d i = Some row"
  shows "request_row d' i = Some (row\<lparr>i_response := Some out\<rparr>)"
proof -
  define g :: "IdempotencyRow \<Rightarrow> IdempotencyRow" where "g = (\<lambda>r. if i_venue r = hi_venueId i \<and> i_actor r = hi_actor i \<and> i_key r = hi_idempotencyKey i
       then r\<lparr>i_response := Some out\<rparr> else r)"
  have "find (\<lambda>r. i_venue r = hi_venueId i \<and> i_actor r = hi_actor i \<and> i_key r = hi_idempotencyKey i) (map g xs)
    = map_option g (find (\<lambda>r. i_venue r = hi_venueId i \<and> i_actor r = hi_actor i \<and> i_key r = hi_idempotencyKey i) xs)" for xs
    by (induction xs) (auto simp: g_def)
  moreover have "idempotency d' = map g (idempotency d)"
    using storeOutcome_eq(3) [OF assms(1)] by (simp only: g_def)
  ultimately have "request_row d' i = map_option g (request_row d i)" by (simp add: request_row_def idem_row_def)
  moreover have "g row = row\<lparr>i_response := Some out\<rparr>"
    using assms(2) by (auto simp: request_row_def idem_row_def g_def dest: find_Some_D)
  ultimately show ?thesis using assms(2) by simp
qed

text \<open>Every committed path of a claimed attempt ends in \<open>storeOutcome\<close> with the idempotency row untouched before.\<close>

definition ends_stored :: "HoldInput \<Rightarrow> HoldOutcome tx \<Rightarrow> bool" where
  "ends_stored i m \<longleftrightarrow> (\<forall>d out d'. m d = Inr (out, d') \<longrightarrow>
     (\<exists>d1. idempotency d1 = idempotency d \<and> storeOutcome i out d1 = Inr (out, d')))"

lemma ends_stored_store: "ends_stored i (storeOutcome i out)"
  unfolding ends_stored_def using storeOutcome_eq(1) by blast

lemma ends_stored_throw: "ends_stored i (tthrow e)"
  by (simp add: ends_stored_def tx_simps)

lemma ends_stored_bind: "keeps idempotency m \<Longrightarrow> (\<And>x. ends_stored i (f x)) \<Longrightarrow> ends_stored i (tbind m f)"
  unfolding ends_stored_def tbind_Inr using keepsD by metis

lemma ends_stored_then: "keeps idempotency m \<Longrightarrow> ends_stored i n \<Longrightarrow> ends_stored i (tthen m n)"
  by (simp add: tthen_def ends_stored_bind)

lemma ends_stored_settle: "ends_stored i (settle_booking cx i booked)"
  unfolding settle_booking_def
  by (auto intro!: ends_stored_then ends_stored_bind ends_stored_store ends_stored_throw keeping split: sum.split option.split)

lemma ends_stored_units: "ends_stored i (hold_units env n cx i during us)"
  unfolding hold_units_def
  by (intro ends_stored_bind ends_stored_then keeping; clarsimp split: option.split)
     (intro conjI impI allI ends_stored_bind ends_stored_then ends_stored_throw ends_stored_settle keeping)

lemma ends_stored_claimed: "ends_stored i (hold_claimed env n cx i during)"
  unfolding hold_claimed_def
  by (intro ends_stored_bind ends_stored_then keeping; clarsimp split: option.split)
     (intro conjI impI allI ends_stored_bind ends_stored_then ends_stored_store ends_stored_units keeping)

lemma claim_key_cases:
  assumes "claim_key cx v a k h d = Inr (b, d')"
  shows "if b then idem_row d v a k = None \<and> (\<exists>row. idem_row d' v a k = Some row \<and> i_hash row = h)
     else idem_row d v a k \<noteq> None \<and> d' = d"
proof (cases "idem_row d v a k")
  case None
  have app: "find P (xs @ [x]) = Some x" if "find P xs = None" "P x" for P :: "IdempotencyRow \<Rightarrow> bool" and xs x
    using that by (induction xs) (auto split: if_splits)
  from None assms have d': "b" "d' = d\<lparr>idempotency := idempotency d @ [\<lparr>i_venue = v, i_actor = a, i_key = k, i_hash = h,
          i_response = None, i_purge_at = cx_now cx + DAY_MS\<rparr>]\<rparr>"
    by (auto simp: claim_key_def rbind_throw_if split: if_splits)
  with None app show ?thesis by (auto simp: idem_row_def)
next
  case (Some row)
  with assms show ?thesis by (simp add: claim_key_def)
qed

definition set_replayed :: "HoldOutcome \<Rightarrow> HoldOutcome" where
  "set_replayed out = (case out of HoldOk rc t _ \<Rightarrow> HoldOk rc t True | HoldRefused c m _ \<Rightarrow> HoldRefused c m True)"

lemma set_replayed_idem [simp]: "set_replayed (set_replayed out) = set_replayed out"
  by (cases out) (simp_all add: set_replayed_def)

lemma replay_eq:
  "replay row hash = Inr out \<longleftrightarrow> (\<exists>r x. row = Some r \<and> i_hash r = hash \<and> i_response r = Some x \<and> out = set_replayed x)"
  by (cases row) (auto simp: replay_def set_replayed_def split: option.splits HoldOutcome.splits if_splits)

text \<open>A committed attempt leaves its outcome, up to the replay flag, under the key with the payload's hash.\<close>

lemma attempt_stored:
  assumes "attemptHold env i hash n d = Inr (out, d')"
  shows "deferred d' = [] \<and> (\<exists>r x. request_row d' i = Some r \<and> i_hash r = hash \<and> i_response r = Some x
     \<and> set_replayed x = set_replayed out)"
proof -
  define cx where "cx = setContext (hi_actor i) (hi_traceId i) (hi_venueId i) (e_now env n)"
  from assms obtain during where "claim_or_replay env i hash n during d = Inr (out, d')"
    by (auto simp: attemptHold_def split: option.splits)
  then obtain b d1 where c: "claim_key cx (hi_venueId i) (hi_actor i) (hi_idempotencyKey i) hash d = Inr (b, d1)"
    and rest: "if b then hold_claimed env n cx i during d1 = Inr (out, d')
      else tthen commit (case replay (request_row d1 i) hash of Inl e \<Rightarrow> tthrow e | Inr out \<Rightarrow> tret out) d1 = Inr (out, d')"
    unfolding claim_or_replay_def Let_def cx_def request_row_def by (auto simp: tx_simps split: if_splits)
  show ?thesis
  proof (cases b)
    case True
    with claim_key_cases [OF c] obtain row where row: "request_row d1 i = Some row" "i_hash row = hash"
      by (auto simp: request_row_def)
    from True rest have "hold_claimed env n cx i during d1 = Inr (out, d')" by simp
    then obtain d2 where
      d2: "idempotency d2 = idempotency d1" "storeOutcome i out d2 = Inr (out, d')"
      using ends_stored_claimed [of i env n cx during] unfolding ends_stored_def by blast
    have "request_row d2 i = Some row" using row d2(1) by (simp add: request_row_def idem_row_def)
    from request_row_stored [OF d2(2) this] storeOutcome_eq(2) [OF d2(2)] row(2) show ?thesis by auto
  next
    case False
    with rest obtain d2 where "commit d1 = Inr ((), d2)" and r: "replay (request_row d1 i) hash = Inr out" and "d' = d2"
      by (auto simp: tx_simps split: sum.splits)
    then have d': "d' = d1\<lparr>deferred := []\<rparr>" by (auto simp: commit_def split: if_splits)
    then have "request_row d' i = request_row d1 i" by (simp add: request_row_def idem_row_def)
    with r d' show ?thesis by (auto simp: replay_eq)
  qed
qed

lemma hold_loop_result: "hold_loop env i hash n d = Inr y \<Longrightarrow> \<exists>k. attemptHold env i hash k d = Inr y"
proof (induction env i hash n d rule: hold_loop.induct)
  case (1 env i hash n d)
  show ?case
  proof (cases "attemptHold env i hash n d")
    case (Inr r)
    have "hold_loop env i hash n d = Inr r" by (subst hold_loop.simps) (simp add: Inr)
    with "1.prems" Inr show ?thesis by auto
  next
    case (Inl e)
    have "hold_loop env i hash n d = (case hold_error e of
        None \<Rightarrow> Inl (ExDastar (asDastarError e))
      | Some m \<Rightarrow> if retryable m \<and> code m = Serialization_conflict \<and> n = 1 then hold_loop env i hash (n + 1) d
          else Inl (ExDastar m))"
      by (subst hold_loop.simps) (simp add: Inl)
    with "1.prems" obtain m where m: "hold_error e = Some m" "retryable m \<and> code m = Serialization_conflict \<and> n = 1"
      "hold_loop env i hash (n + 1) d = Inr y"
      by (simp split: option.splits if_splits)
    from "1.IH" [OF Inl m(1,2,3)] show ?thesis .
  qed
qed

lemma hold_result:
  assumes "hold env i d = Inr (out, d')"
  obtains canon n where "canonicalHoldRequest i = Some canon" "attemptHold env i (e_sha256 env canon) n d = Inr (out, d')"
proof -
  from assms obtain canon where c: "canonicalHoldRequest i = Some canon" "hold_loop env i (e_sha256 env canon) 1 d = Inr (out, d')"
    by (auto simp: hold_def split: option.splits)
  from hold_loop_result [OF c(2)] c(1) that show thesis by blast
qed

text \<open>A request whose key is stored is answered by the row alone, and changes nothing.\<close>

lemma attempt_replay:
  assumes "request_row d i = Some r" and "deferred d = []" and "e_fault env n = None"
    and "rangeLiteral (hi_startsAt i) (hi_durationMinutes i) = Some during"
  shows "attemptHold env i hash n d = (case replay (Some r) hash of Inl e \<Rightarrow> Inl e | Inr out \<Rightarrow> Inr (out, d))"
proof -
  have c: "commit d = Inr ((), d)" using assms(2) by (simp add: commit_def)
  show ?thesis
    using assms(1,3,4)
    by (simp add: attemptHold_def claim_or_replay_def Let_def tbind_def tthen_def claim_key_def request_row_def tget_def c
        tthrow_def tret_def split: sum.split)
qed

lemma hold_loop_first:
  "attemptHold env i hash n d = Inr y \<Longrightarrow> hold_loop env i hash n d = Inr y"
  by (subst hold_loop.simps) simp

end
