(* ===== verification/Demo.thy ===== *)
theory Demo
  imports CmdHold
begin

text \<open>
  A concrete venue the witnesses run on: one unit for two to four guests, a combination of two more
  units, no schedules or blackouts, an environment whose hash is the text itself and whose zones are
  UTC.
\<close>

definition demo_venue :: VenueRow where
  "demo_venue = \<lparr>v_id = ''v'', v_timezone = ''UTC'', v_hold_ttl_seconds = 600, v_slot_minutes = 15,
     v_availability_window_days = 14, v_max_live_holds_per_actor = 5, v_config_version = 0\<rparr>"

definition demo_unit :: "string \<Rightarrow> UnitRow" where
  "demo_unit i = \<lparr>u_id = i, u_venue = ''v'', u_label = i, u_capacity_min = 2, u_capacity_max = 4, u_active = True, u_layout = VObj []\<rparr>"

definition demo_combo :: ComboRow where
  "demo_combo = \<lparr>c_id = ''k'', c_venue = ''v'', c_label = ''k'', c_unit_ids = [''b'', ''c''], c_capacity_min = 5, c_capacity_max = 8, c_active = True\<rparr>"

definition demo_db :: db where
  "demo_db = \<lparr>venues = [demo_venue], units = [demo_unit ''a'', demo_unit ''b'', demo_unit ''c''], combos = [demo_combo],
     reservations = [], unit_rows = [], idempotency = [], audit_log = [], outbox = [], schedules = [], blackouts = [],
     audit_seq = 1, outbox_seq = 1, deferred = []\<rparr>"

definition demo_env :: "instant \<Rightarrow> string \<Rightarrow> env" where
  "demo_env now rid = \<lparr>e_now = (\<lambda>_. now), e_uuid = (\<lambda>_. rid), e_fault = (\<lambda>_. None), e_sha256 = (\<lambda>s. s), e_zones = utc_zones\<rparr>"

definition demo_hold :: "string \<Rightarrow> Assignment \<Rightarrow> int \<Rightarrow> HoldInput" where
  "demo_hold key a party = \<lparr>hi_venueId = ''v'', hi_actor = ''guest'', hi_traceId = ''t'', hi_idempotencyKey = key, hi_partySize = party,
     hi_startsAt = ''2030-01-01T18:00:00Z'', hi_durationMinutes = 90, hi_assignment = a, hi_externalRef = None, hi_enforceSchedule = False\<rparr>"

definition on_a :: Assignment where "on_a = \<lparr>a_kind = Unit, a_id = ''a''\<rparr>"
definition on_k :: Assignment where "on_k = \<lparr>a_kind = Combo, a_id = ''k''\<rparr>"

section \<open>The venue after one hold\<close>

definition demo_during :: range where "demo_during = (1893520800000, 1893526200000)"

definition demo_reservation :: ReservationRow where
  "demo_reservation = \<lparr>r_id = ''r1'', r_venue = ''v'', r_party_size = 2, r_during = demo_during, r_status = Held,
     r_assignment = on_a, r_hold_expires_at = 600000, r_version = 1, r_token_hash = None, r_cancel_reason = None,
     r_external_ref = None, r_created_by = ''guest''\<rparr>"

definition demo_outcome :: HoldOutcome where
  "demo_outcome = HoldOk \<lparr>rc_reservationId = ''r1'', rc_status = Held, rc_version = 1, rc_auditId = 1, rc_traceId = ''t''\<rparr>
     ''1970-01-01T00:10:00.000Z'' False"

definition held_db :: db where
  "held_db = demo_db\<lparr>reservations := [demo_reservation],
     unit_rows := [\<lparr>ru_venue = ''v'', ru_reservation = ''r1'', ru_unit = ''a'', ru_during = demo_during, ru_active = True\<rparr>],
     idempotency := [\<lparr>i_venue = ''v'', i_actor = ''guest'', i_key = ''key'',
       i_hash = the (canonicalHoldRequest (demo_hold ''key'' on_a 2)), i_response = Some demo_outcome, i_purge_at = 86400000\<rparr>],
     audit_log := [\<lparr>au_id = 1, au_venue = ''v'', au_entity_id = ''r1'', au_action = ''insert'', au_before = None,
       au_after = demo_reservation, au_actor = ''guest'', au_trace = ''t'', au_at = 0\<rparr>],
     outbox := [\<lparr>o_id = 1, o_venue = ''v'', o_topic = ''reservation.held'', o_payload = reservationPayload demo_reservation,
       o_published_at = None, o_dead_lettered_at = None\<rparr>],
     audit_seq := 2, outbox_seq := 2\<rparr>"

lemma demo_held: "hold (demo_env 0 ''r1'') (demo_hold ''key'' on_a 2) demo_db = Inr (demo_outcome, held_db)"
  by code_simp

lemma demo_date: "date_parse ''2030-01-01T18:00:00Z'' = Some 1893520800000"
  by code_simp

lemma demo_range: "rangeLiteral ''2030-01-01T18:00:00Z'' 90 = Some demo_during"
  by (simp add: rangeLiteral_def demo_date valid_time_def demo_during_def)

text \<open>Requests for different parties have different canonical forms.\<close>

lemma demo_canonical:
  "p \<noteq> q \<Longrightarrow> \<exists>c e. canonicalHoldRequest (demo_hold key a p) = Some c \<and> canonicalHoldRequest (demo_hold key a q) = Some e \<and> c \<noteq> e"
  by (auto simp: canonicalHoldRequest_text demo_hold_def demo_date dest: canonical_text_inj)

lemma demo_db_inv: "inv T {} demo_db"
  by (simp add: inv_def ids_ok_def exclusion_ok_def sync_ok_def members_ok_def fit_ok_def blackout_ok_def audit_ok_def
      assigned_ok_def shape_ok_def check_combo_def check_unit_def check_int4_def is_int4_def int4_max_def demo_db_def demo_unit_def demo_combo_def rbind_throw_if throw_if_def)

end
