(* ===== verification/HoldProperties.thy ===== *)
theory HoldProperties
  imports Demo
begin

text \<open>The properties of \<open>hold\<close>: what a booking writes, what a refusal leaves, and the idempotency contract.\<close>

section \<open>What an attempt does\<close>

lemma tfor_keeps_reservations:
  assumes "tfor (\<lambda>u. insert_unit_row (unit_row r u)) us d = Inr (ys, d')"
  shows "reservations d' = reservations d"
proof -
  have "keeps reservations (tfor (\<lambda>u. insert_unit_row (unit_row r u)) us)" by (intro keeping)
  from keepsD [of reservations, OF this assms] show ?thesis .
qed

lemma set_replayed_flag [simp]: "ho_replayed (set_replayed out)"
  by (cases out) (simp_all add: set_replayed_def)

lemma book_reservations:
  assumes "book cx r us d = Inr (row, d')"
  shows "reservations d' = reservations d @ [r]"
proof -
  from assms obtain d1 ys where i: "insert_reservation cx r d = Inr (row, d1)"
    and f: "tfor (\<lambda>u. insert_unit_row (unit_row row u)) us d1 = Inr (ys, d')"
    unfolding book_def tx_simps by auto
  have "reservations d1 = reservations d @ [r]" using insert_reservation_facts(8) [OF i] by (simp add: inserted_sel)
  with tfor_keeps_reservations [OF f] show ?thesis by simp
qed

text \<open>The two ways an attempt that claimed its key commits.\<close>

lemma hold_units_cases:
  assumes "hold_units env n cx i during us d = Inr (out, d')"
  obtains (booked) cap ttl d1 d2 row where "venue_limits d (hi_venueId i) = Some (cap, ttl)"
      "clear_overlap cx us during d = Inr ((), d1)"
      "book cx (new_reservation i (e_uuid env n) during (cx_now cx + ttl * 1000)) us d1 = Inr (row, d2)"
      "settle_booking cx i (Inr row) d2 = Inr (out, d')"
  | (refused) e m d1 where "clear_overlap cx us during d = Inr ((), d1)" "mapPgError e = Some m" "code m \<in> set STORED_OUTCOMES"
      "storeOutcome i (HoldRefused (code m) (message m) False) d1 = Inr (out, d')"
proof -
  from assms obtain cap ttl d1 w d2 where v: "venue_limits d (hi_venueId i) = Some (cap, ttl)"
    and c: "clear_overlap cx us during d = Inr ((), d1)"
    and b: "tsavepoint (book cx (new_reservation i (e_uuid env n) during (cx_now cx + ttl * 1000)) us) d1 = Inr (w, d2)"
    and s: "settle_booking cx i w d2 = Inr (out, d')"
    unfolding hold_units_def tx_simps by (auto simp: tx_simps split: option.splits if_splits)
  show thesis
  proof (cases w)
    case (Inr row)
    with b s v c booked show thesis by (simp add: tx_simps)
  next
    case (Inl e)
    with b have "d2 = d1" by (simp add: tx_simps)
    with s Inl obtain m where "mapPgError e = Some m" "code m \<in> set STORED_OUTCOMES"
      "storeOutcome i (HoldRefused (code m) (message m) False) d1 = Inr (out, d')"
      by (auto simp: settle_booking_def tx_simps split: option.splits if_splits)
    with c refused show thesis by blast
  qed
qed

lemma attempt_cases:
  assumes "attemptHold env i hash n d = Inr (out, d')" and "\<not> ho_replayed out"
  obtains (missing) d1 where "hold_claimed env n (setContext (hi_actor i) (hi_traceId i) (hi_venueId i) (e_now env n)) i
        (the (rangeLiteral (hi_startsAt i) (hi_durationMinutes i))) d1 = Inr (out, d')"
      "reservations d1 = reservations d" "storeOutcome i (HoldRefused Party_does_not_fit ''assignment not found in venue'' False) d1 = Inr (out, d')"
  | (resolved) during us d1 where "rangeLiteral (hi_startsAt i) (hi_durationMinutes i) = Some during"
      "d1 = d\<lparr>idempotency := idempotency d1\<rparr>"
      "hold_units env n (setContext (hi_actor i) (hi_traceId i) (hi_venueId i) (e_now env n)) i during us d1 = Inr (out, d')"
proof -
  define cx where "cx = setContext (hi_actor i) (hi_traceId i) (hi_venueId i) (e_now env n)"
  from assms(1) obtain during where r: "rangeLiteral (hi_startsAt i) (hi_durationMinutes i) = Some during"
    and a: "claim_or_replay env i hash n during d = Inr (out, d')"
    by (auto simp: attemptHold_def split: option.splits)
  from a obtain b d1 where c: "claim_key cx (hi_venueId i) (hi_actor i) (hi_idempotencyKey i) hash d = Inr (b, d1)"
    and rest: "if b then hold_claimed env n cx i during d1 = Inr (out, d')
      else tthen commit (case replay (request_row d1 i) hash of Inl e \<Rightarrow> tthrow e | Inr out \<Rightarrow> tret out) d1 = Inr (out, d')"
    unfolding claim_or_replay_def Let_def cx_def request_row_def by (auto simp: tx_simps split: if_splits)
  have b: b
  proof (rule ccontr)
    assume "\<not> b"
    with rest have "replay (request_row d1 i) hash = Inr out" by (auto simp: tx_simps split: sum.splits)
    then have "ho_replayed out" by (auto simp: replay_eq)
    with assms(2) show False ..
  qed
  have d1: "d1 = d\<lparr>idempotency := idempotency d1\<rparr>"
    using c by (auto simp: claim_key_def rbind_throw_if split: if_splits)
  from b rest have h: "hold_claimed env n cx i during d1 = Inr (out, d')" by simp
  then consider "storeOutcome i (HoldRefused Party_does_not_fit ''assignment not found in venue'' False) d1 = Inr (out, d')"
    | us where "hold_units env n cx i during us d1 = Inr (out, d')"
    unfolding hold_claimed_def
    by (auto simp: tx_simps checkSchedule_def split: option.splits if_splits)
  then show thesis
  proof cases
    case 1
    have "reservations d1 = reservations d" by (subst d1) simp
    with missing 1 h r show thesis by (simp add: cx_def)
  next
    case 2
    with resolved r d1 show thesis by (simp add: cx_def)
  qed
qed

text \<open>A booking leaves its reservation, as inserted, in the table.\<close>

lemma settle_booked:
  assumes "settle_booking cx i (Inr row) d = Inr (out, d')"
  shows "reservations d' = reservations d \<and> out = HoldOk (receipt_of cx d row) (toISOString (r_hold_expires_at row)) False"
proof -
  from assms obtain nid d1 where e: "enqueue (hi_venueId i) ''reservation.held'' (reservationPayload row) d = Inr (nid, d1)"
    and s: "storeOutcome i (HoldOk (receipt_of cx d1 row) (toISOString (r_hold_expires_at row)) False) d1 = Inr (out, d')"
    unfolding settle_booking_def by (auto simp: tx_simps)
  have "reservations d1 = reservations d" using e by (auto simp: enqueue_def)
  moreover have "receipt_of cx d1 row = receipt_of cx d row"
    using e by (auto simp: enqueue_def receipt_of_def max_audit_id_def)
  ultimately show ?thesis using storeOutcome_eq(1,4) [OF s] by simp
qed

lemma hold_booked:
  assumes "attemptHold env i hash n d = Inr (HoldOk rc expires False, d')"
  obtains during cap ttl where "rangeLiteral (hi_startsAt i) (hi_durationMinutes i) = Some during"
    "venue_limits d (hi_venueId i) = Some (cap, ttl)"
    "rc_reservationId rc = e_uuid env n" "rc_status rc = Held" "rc_version rc = 1"
    "new_reservation i (e_uuid env n) during (e_now env n + ttl * 1000) \<in> set (reservations d')"
    "expires = toISOString (e_now env n + ttl * 1000)"
proof -
  have nr: "\<not> ho_replayed (HoldOk rc expires False)" by simp
  from assms nr show thesis
  proof (cases rule: attempt_cases)
    case missing
    then show thesis using storeOutcome_eq(1) by fastforce
  next
    case (resolved during us d1)
    from resolved(3) show thesis
    proof (cases rule: hold_units_cases)
      case (booked cap ttl d2 d3 row)
      have row: "row = new_reservation i (e_uuid env n) during (e_now env n + ttl * 1000)"
        using booked(3) insert_reservation_facts(1) unfolding book_def tx_simps by fastforce
      note s = settle_booked [OF booked(4)]
      have "new_reservation i (e_uuid env n) during (e_now env n + ttl * 1000) \<in> set (reservations d')"
        using book_reservations [OF booked(3)] s by simp
      moreover have "venue_limits d (hi_venueId i) = Some (cap, ttl)"
        using booked(1) by (subst (asm) resolved(2)) (simp add: venue_limits_def find_venue_def)
      ultimately show thesis using that resolved(1) s row by (simp add: receipt_of_def)
    next
      case refused
      then show thesis using storeOutcome_eq(1) by fastforce
    qed
  qed
qed

section \<open>Properties\<close>

text \<open>
  C8: a hold keeps every invariant of the database (no double booking, unit rows in step with their
  reservation and equal to its assignment's members, live parties that fit a usable assignment outside
  every blackout, an unbroken audit trail), whatever clocks its two attempts read, errors and refusals included.
\<close>

theorem hold_keeps_invariants:
  assumes "inv T {} d" and "\<And>n. e_now env n \<le> T" and "hold env i d = Inr (out, d')"
  shows "inv T {} d'"
  by (rule preservesD [OF preserves_hold [OF assms(2)] assms(1) assms(3)])

theorem hold_keeps_invariants_witness: "inv 5 {} held_db"
  using hold_keeps_invariants [OF demo_db_inv _ demo_held] by (simp add: demo_env_def)

text \<open>
  C4: a hold that returns a receipt has written one reservation: held, version 1, with the party, range,
  assignment and actor of the request, expiring after the venue's time to live; its unit rows are active,
  of its venue and range, and exactly the members of its assignment; its party fits, its assignment is
  usable and no active blackout overlaps it.
\<close>

theorem hold_books:
  assumes "inv T {} d" and "\<And>n. e_now env n \<le> T" and "hold env i d = Inr (HoldOk rc expires False, d')"
  shows "\<exists>r\<in>set (reservations d'). \<exists>n. r_id r = rc_reservationId rc \<and> rc_status rc = Held \<and> rc_version rc = 1
    \<and> r_status r = Held \<and> r_version r = 1 \<and> r_venue r = hi_venueId i \<and> r_party_size r = hi_partySize i
    \<and> r_assignment r = hi_assignment i \<and> r_created_by r = hi_actor i
    \<and> rangeLiteral (hi_startsAt i) (hi_durationMinutes i) = Some (r_during r)
    \<and> (\<exists>cap ttl. venue_limits d (hi_venueId i) = Some (cap, ttl) \<and> r_hold_expires_at r = e_now env n + ttl * 1000)
    \<and> expires = toISOString (r_hold_expires_at r)
    \<and> sort (map ru_unit (rows_of d' (r_id r))) = sort (members_of d' (r_assignment r))
    \<and> (\<forall>ru\<in>set (rows_of d' (r_id r)). ru_active ru \<and> ru_venue ru = r_venue r \<and> ru_during ru = r_during r)"
proof -
  from assms(3) obtain canon n where a: "attemptHold env i (e_sha256 env canon) n d = Inr (HoldOk rc expires False, d')"
    by (rule hold_result)
  from hold_booked [OF a] obtain during cap ttl where
    b: "rangeLiteral (hi_startsAt i) (hi_durationMinutes i) = Some during" "venue_limits d (hi_venueId i) = Some (cap, ttl)"
      "rc_reservationId rc = e_uuid env n" "rc_status rc = Held" "rc_version rc = 1"
      "new_reservation i (e_uuid env n) during (e_now env n + ttl * 1000) \<in> set (reservations d')" (is "?r \<in> _")
      "expires = toISOString (e_now env n + ttl * 1000)" by blast
  have I: "inv T {} d'" by (rule preservesD [OF preserves_hold [OF assms(2)] assms(1) assms(3)])
  have m: "sort (map ru_unit (rows_of d' (r_id ?r))) = sort (members_of d' (r_assignment ?r))"
    using I b(6) unfolding inv_def members_ok_def membership_ok_def by blast
  have "ru_active ru \<and> ru_venue ru = r_venue ?r \<and> ru_during ru = r_during ?r" if "ru \<in> set (rows_of d' (r_id ?r))" for ru
  proof -
    from that have ru: "ru \<in> set (unit_rows d')" "ru_reservation ru = r_id ?r" by (auto simp: rows_of_def)
    with I obtain r' where r': "r' \<in> set (reservations d')" "r_id r' = ru_reservation ru" "row_in_sync ru r'"
      unfolding inv_def sync_ok_def by blast
    then have "r' = ?r" using distinct_key_eq [of r_id "reservations d'" r' ?r] I b(6) ru(2) by (simp add: inv_def ids_ok_def)
    with r'(3) show ?thesis by (simp add: row_in_sync_def released_def)
  qed
  with m b show ?thesis
    by (intro bexI [of _ ?r] exI [of _ n]) auto
qed

theorem hold_books_witness: "\<exists>r\<in>set (reservations held_db). r_id r = ''r1'' \<and> r_status r = Held \<and> r_party_size r = 2"
proof -
  have "demo_outcome = HoldOk (ho_receipt demo_outcome) (ho_holdExpiresAt demo_outcome) False" by (simp add: demo_outcome_def)
  with demo_held have h: "hold (demo_env 0 ''r1'') (demo_hold ''key'' on_a 2) demo_db
    = Inr (HoldOk (ho_receipt demo_outcome) (ho_holdExpiresAt demo_outcome) False, held_db)" by simp
  from hold_books [OF demo_db_inv [of 0] _ h] show ?thesis
    by (auto simp: demo_env_def demo_outcome_def demo_hold_def)
qed

text \<open>
  C5: the idempotency contract. Once a hold has returned, the same request under the same key is answered
  with the same outcome, marked as a replay, and changes nothing, whatever the time, the generated ids or
  the state of the world since.
\<close>

theorem hold_idempotent:
  assumes "hold env i d = Inr (out, d')" and "e_sha256 env' = e_sha256 env" and "e_fault env' 1 = None"
  shows "hold env' i d' = Inr (set_replayed out, d')"
proof -
  from assms(1) obtain canon n where c: "canonicalHoldRequest i = Some canon"
    and a: "attemptHold env i (e_sha256 env canon) n d = Inr (out, d')" by (rule hold_result)
  from a obtain during where "rangeLiteral (hi_startsAt i) (hi_durationMinutes i) = Some during"
    by (auto simp: attemptHold_def split: option.splits)
  moreover from attempt_stored [OF a] obtain r x where s: "deferred d' = []" "request_row d' i = Some r"
    "i_hash r = e_sha256 env canon" "i_response r = Some x" "set_replayed x = set_replayed out" by blast
  moreover have "replay (Some r) (e_sha256 env canon) = Inr (set_replayed out)"
    unfolding replay_eq using s by (intro exI [of _ r] exI [of _ x]) simp
  ultimately have "attemptHold env' i (e_sha256 env canon) 1 d' = Inr (set_replayed out, d')"
    using attempt_replay [OF s(2,1) assms(3)] by simp
  then show ?thesis using c assms(2) hold_loop_first by (simp add: hold_def)
qed

theorem hold_idempotent_witness:
  "hold (demo_env 99 ''r2'') (demo_hold ''key'' on_a 2) held_db = Inr (set_replayed demo_outcome, held_db)"
  by (rule hold_idempotent [OF demo_held]) (simp_all add: demo_env_def)

text \<open>
  C22: a key that was used for another payload is refused as an idempotency mismatch, and nothing is
  written: two payloads whose canonical forms have different hashes never share a key.
\<close>

theorem hold_mismatch:
  assumes "hold env i d = Inr (out, d')" and "e_sha256 env' = e_sha256 env" and "e_fault env' 1 = None"
    and "hi_venueId j = hi_venueId i" and "hi_actor j = hi_actor i" and "hi_idempotencyKey j = hi_idempotencyKey i"
    and "canonicalHoldRequest i = Some ci" and "canonicalHoldRequest j = Some cj" and "e_sha256 env ci \<noteq> e_sha256 env cj"
    and "rangeLiteral (hi_startsAt j) (hi_durationMinutes j) \<noteq> None"
  shows "hold env' j d' = Inl (ExDastar (dastar_error Idempotency_mismatch ''same idempotency key, different payload''))"
proof -
  from assms(1) obtain canon n where c: "canonicalHoldRequest i = Some canon"
    and a: "attemptHold env i (e_sha256 env canon) n d = Inr (out, d')" by (rule hold_result)
  from attempt_stored [OF a] obtain r where s: "deferred d' = []" "request_row d' i = Some r" "i_hash r = e_sha256 env canon" by blast
  have row: "request_row d' j = Some r" using s(2) assms(4-6) by (simp add: request_row_def)
  from assms(10) obtain during where during: "rangeLiteral (hi_startsAt j) (hi_durationMinutes j) = Some during" by blast
  have "replay (Some r) (e_sha256 env cj) = Inl (ExDastar (dastar_error Idempotency_mismatch ''same idempotency key, different payload''))"
    using s(3) c assms(7,9) by (simp add: replay_def)
  then have a1: "attemptHold env' j (e_sha256 env cj) 1 d' = Inl (ExDastar (dastar_error Idempotency_mismatch ''same idempotency key, different payload''))"
    using attempt_replay [OF row s(1) assms(3) during] by simp
  have "hold_loop env' j (e_sha256 env cj) 1 d' = Inl (ExDastar (dastar_error Idempotency_mismatch ''same idempotency key, different payload''))"
    by (subst hold_loop.simps) (simp only: a1 sum.case hold_error_def exn.case option.case dastar_error_sel if_False simp_thms)
  then show ?thesis by (simp only: hold_def assms(8) assms(2) option.case)
qed

theorem hold_mismatch_witness:
  "hold (demo_env 99 ''r2'') (demo_hold ''key'' on_a 3) held_db
     = Inl (ExDastar (dastar_error Idempotency_mismatch ''same idempotency key, different payload''))"
proof -
  obtain c e where ce: "canonicalHoldRequest (demo_hold ''key'' on_a 2) = Some c" "canonicalHoldRequest (demo_hold ''key'' on_a 3) = Some e" "c \<noteq> e"
    using demo_canonical [of 2 3 "''key''" on_a] by auto
  show ?thesis
    by (rule hold_mismatch [OF demo_held _ _ _ _ _ ce(1,2)]) (simp_all add: demo_env_def ce(3) demo_range, simp_all add: demo_hold_def demo_range)
qed

end
