(* ===== verification/DbConfigInvariant.thy ===== *)
theory DbConfigInvariant
  imports DbInvariant
begin

text \<open>
  The invariants of \<open>DbInvariant\<close> under the writes of units, combinations, schedules and blackouts:
  the guards t44, t45, t47 and t10 of the migrations refuse exactly what would strand a reservation
  live at the writer's clock.
\<close>

section \<open>Writes of units and combinations\<close>

lemma find_replace_key:
  assumes "distinct (map k xs)" and "k new = i"
  shows "find (\<lambda>x. k x = j) (map (\<lambda>x. if k x = i then new else x) xs)
    = map_option (\<lambda>x. if k x = i then new else x) (find (\<lambda>x. k x = j) xs)"
  using assms by (induction xs) auto

lemma find_replace_key_in:
  assumes "k new = i" and "\<And>x. x \<in> set xs \<Longrightarrow> k x = i \<Longrightarrow> g x = g new"
  shows "find (\<lambda>x. k x = j \<and> g x = v) (map (\<lambda>x. if k x = i then new else x) xs)
    = map_option (\<lambda>x. if k x = i then new else x) (find (\<lambda>x. k x = j \<and> g x = v) xs)"
  using assms by (induction xs) auto

lemma find_append_fresh:
  "k new \<notin> k ` set xs \<Longrightarrow> find (\<lambda>x. k x = j \<and> P x) (xs @ [new]) = (case find (\<lambda>x. k x = j \<and> P x) xs of
     Some y \<Rightarrow> Some y | None \<Rightarrow> if k new = j \<and> P new then Some new else None)"
  by (induction xs) auto

lemma unit_by_id:
  assumes "ids_ok d" and "find_unit d i v = Some y" and "x \<in> set (units d)" and "u_id x = i"
  shows "x = y"
proof -
  from assms(2) have "y \<in> set (units d)" "u_id y = i" unfolding find_unit_def by (auto dest: find_Some_D)
  moreover have "distinct (map u_id (units d))" using assms(1) by (simp add: ids_ok_def)
  ultimately show ?thesis using distinct_key_eq assms(3,4) by metis
qed

lemma combo_by_id:
  assumes "ids_ok d" and "find_combo d i v = Some y" and "x \<in> set (combos d)" and "c_id x = i"
  shows "x = y"
proof -
  from assms(2) have "y \<in> set (combos d)" "c_id y = i" unfolding find_combo_def by (auto dest: find_Some_D)
  moreover have "distinct (map c_id (combos d))" using assms(1) by (simp add: ids_ok_def)
  ultimately show ?thesis using distinct_key_eq assms(3,4) by metis
qed

lemma insert_unit_inv:
  assumes I: "inv T X d" and ins: "insert_unit u d = Inr (x, d')"
  shows "inv T X d'"
proof -
  define e where "e = d\<lparr>units := units d @ [u]\<rparr>"
  from ins have c: "check_unit u = Inr ()" and i: "u_id u \<notin> u_id ` set (units d)" and d': "d' = trg_config_version (u_venue u) e"
    by (auto simp: insert_unit_def rbind_eq_Inr e_def)
  have keep: "find_unit e j v = Some y" if "find_unit d j v = Some y" for j v y
    using that find_append_fresh [OF i, of j "\<lambda>x. u_venue x = v"] by (simp add: find_unit_def e_def)
  have use: "combo_usable e k" if "combo_usable d k" for k
    using that by (auto simp: combo_usable_def e_def)
  have facts: "assignment_facts e a v = Some (cmin, cmax, True)" if "assignment_facts d a v = Some (cmin, cmax, True)" for a v cmin cmax
    using that keep use by (cases "a_kind a") (auto simp: assignment_facts_def find_combo_def e_def)
  have some: "assignment_facts e a v \<noteq> None" if "assignment_facts d a v \<noteq> None" for a v
    using that keep by (cases "a_kind a") (auto simp: assignment_facts_def find_combo_def e_def)
  have t: "combos e = combos d" "reservations e = reservations d" "unit_rows e = unit_rows d" "audit_log e = audit_log d"
    "audit_seq e = audit_seq d" "schedules e = schedules d" "blackouts e = blackouts d" "units e = units d @ [u]"
    by (simp_all add: e_def)
  have "ids_ok e" using I i by (auto simp: inv_def ids_ok_def t)
  moreover have "fit_ok T e" using I facts by (auto simp: inv_def fit_ok_def fits_def t)
  moreover have "assigned_ok e" using I some by (auto simp: inv_def assigned_ok_def t)
  moreover have "shape_ok e" using I c by (auto simp: inv_def shape_ok_def t)
  ultimately have "inv T X e"
    using I unfolding inv_def exclusion_ok_def sync_ok_def members_ok_def blackout_ok_def audit_ok_def
      outside_blackouts_cong [OF t(7)] membership_ok_cong [OF t(3,1)] trail_cong [OF t(4)] t by blast
  then show ?thesis by (simp add: d')
qed

lemma preserves_insert_unit [preserved]: "preserves (inv T X) (insert_unit u)"
  by (rule preservesI) (rule insert_unit_inv)

lemma update_unit_inv:
  assumes I: "inv T {} d" and now: "cx_now cx \<le> T" and up: "update_unit cx i venue f d = Inr (x, d')"
    and f: "\<And>u. u_id (f u) = u_id u \<and> u_venue (f u) = u_venue u"
  shows "inv T {} d'"
proof (cases "find_unit d i venue")
  case None
  with up I show ?thesis by (simp add: update_unit_def)
next
  case (Some old)
  define new where "new = f old"
  define e where "e = d\<lparr>units := map (\<lambda>u. if u_id u = i then new else u) (units d)\<rparr>"
  from up Some have g: "trg_unit_active_guard (cx_now cx) d old new = Inr ()" "trg_capacity_guard (cx_now cx) d old new = Inr ()"
    "check_unit new = Inr ()" and d': "d' = trg_config_version venue e"
    unfolding new_def e_def by (auto simp: update_unit_def rbind_eq_Inr Let_def)
  have old: "old \<in> set (units d)" "u_id old = i" "u_venue old = venue" using Some by (auto simp: find_unit_def dest: find_Some_D)
  have new: "u_id new = i" "u_venue new = venue" using old f by (simp_all add: new_def)
  have ids: "ids_ok d" using I by (simp add: inv_def)
  have t: "combos e = combos d" "reservations e = reservations d" "unit_rows e = unit_rows d" "audit_log e = audit_log d"
    "audit_seq e = audit_seq d" "schedules e = schedules d" "blackouts e = blackouts d"
    by (simp_all add: e_def)
  have only: "u = old" if "u \<in> set (units d)" "u_id u = i" for u
    using unit_by_id [OF ids Some that(1)] that(2) old by simp
  have find: "find_unit e j v = map_option (\<lambda>u. if u_id u = i then new else u) (find_unit d j v)" for j v
    unfolding find_unit_def e_def using only new old(3)
    by (simp del: map_map) (rule find_replace_key_in; auto)
  have active: "u_active new" if "u_active old" "r \<in> set (reservations d)" "live T r" "i \<in> set (members_of d (r_assignment r))" for r
  proof -
    from live_rows [OF I that(2,3,4)] obtain ru where
      "ru \<in> set (unit_rows d)" "ru_reservation ru = r_id r" "ru_unit ru = i" "ru_active ru" by blast
    moreover have "live (cx_now cx) r" using that(3) by (rule live_mono [OF now])
    ultimately have "\<exists>ru\<in>set (unit_rows d). \<exists>r\<in>set (reservations d). r_id r = ru_reservation ru \<and> ru_unit ru = u_id old
        \<and> ru_active ru \<and> live (cx_now cx) r"
      using that(2) old(2) by metis
    with g(1) that(1) show ?thesis unfolding trg_unit_active_guard_def throw_if_eq by blast
  qed
  have usable: "combo_usable e c" if c: "combo_usable d c" and r: "r \<in> set (reservations d)" "live T r"
      "members_of d (r_assignment r) = c_unit_ids c" for c r
  proof -
    have "\<exists>x\<in>set (units e). u_id x = m \<and> u_venue x = c_venue c \<and> u_active x" if m: "m \<in> set (c_unit_ids c)" for m
    proof -
      from c m obtain u where u: "u \<in> set (units d)" "u_id u = m" "u_venue u = c_venue c" "u_active u"
        by (auto simp: combo_usable_def)
      show ?thesis
      proof (cases "m = i")
        case True
        then have "u = old" using only u(1,2) by blast
        with u r m True active have "u_active new" by metis
        moreover have "new \<in> set (units e)" using old by (auto simp: e_def)
        moreover have "u_id new = m" "u_venue new = c_venue c" using new u(3) old(3) True \<open>u = old\<close> by simp_all
        ultimately show ?thesis by metis
      next
        case False
        with u have "u \<in> set (units e)" by (auto simp: e_def)
        with u show ?thesis by blast
      qed
    qed
    with c show ?thesis by (simp add: combo_usable_def)
  qed
  have fit: "fits e r" if r: "r \<in> set (reservations d)" "live T r" for r
  proof -
    from I r have fd: "fits d r" by (auto simp: inv_def fit_ok_def)
    from members_of_facts [OF I r(1)] show ?thesis
    proof (elim disjE exE conjE)
      fix u assume k: "a_kind (r_assignment r) = Unit" "find_unit d (a_id (r_assignment r)) (r_venue r) = Some u"
        "members_of d (r_assignment r) = [u_id u]"
      from k fd have u: "u_active u" "u_capacity_min u \<le> r_party_size r" "r_party_size r \<le> u_capacity_max u"
        by (auto simp: fits_def assignment_facts_def)
      show ?thesis
      proof (cases "u_id u = i")
        case True
        then have uo: "u = old" using only find_Some_D [OF k(2) [unfolded find_unit_def]] by blast
        have "a_id (r_assignment r) = i" using find_Some_D [OF k(2) [unfolded find_unit_def]] True by simp
        with k(1) have as: "r_assignment r = \<lparr>a_kind = Unit, a_id = i\<rparr>" by (cases "r_assignment r") simp
        have "u_active new" using active [of r] r u(1) k(3) True uo by simp
        moreover have "u_capacity_min new \<le> r_party_size r \<and> r_party_size r \<le> u_capacity_max new"
        proof (cases "u_capacity_min new = u_capacity_min old \<and> u_capacity_max new = u_capacity_max old")
          case True
          with u(2,3) uo show ?thesis by simp
        next
          case False
          with g(2) have "\<not> (\<exists>r\<in>set (reservations d). r_assignment r = \<lparr>a_kind = Unit, a_id = u_id old\<rparr> \<and> live (cx_now cx) r
             \<and> (r_party_size r < u_capacity_min new \<or> u_capacity_max new < r_party_size r))"
            unfolding trg_capacity_guard_def if_not_P [OF False] throw_if_eq by blast
          moreover have "live (cx_now cx) r" using r(2) by (rule live_mono [OF now])
          ultimately show ?thesis using r(1) as old(2) by (metis not_less)
        qed
        ultimately show ?thesis using k(1,2) True by (simp add: fits_def assignment_facts_def find)
      next
        case False
        then show ?thesis using k(1,2) u by (simp add: fits_def assignment_facts_def find)
      qed
    next
      fix c assume k: "a_kind (r_assignment r) = Combo" "find_combo d (a_id (r_assignment r)) (r_venue r) = Some c"
        "members_of d (r_assignment r) = c_unit_ids c"
      from k fd have "combo_usable d c" "c_capacity_min c \<le> r_party_size r" "r_party_size r \<le> c_capacity_max c"
        by (auto simp: fits_def assignment_facts_def)
      with usable [OF _ r k(3)] k(1,2) show ?thesis by (simp add: fits_def assignment_facts_def find_combo_def t)
    qed
  qed
  have "ids_ok e" using ids new by (simp add: ids_ok_def t) (simp add: e_def map_replace_key del: map_map)
  moreover have "fit_ok T e" using fit by (simp add: fit_ok_def t)
  moreover have "assigned_ok e" using I
    by (auto simp: inv_def assigned_ok_def t assignment_facts_def find find_combo_def split: assignment_kind.splits)
  moreover have "shape_ok e" using I g(3) unfolding inv_def shape_ok_def t by (auto simp: e_def)
  ultimately have "inv T {} e"
    using I unfolding inv_def exclusion_ok_def sync_ok_def members_ok_def blackout_ok_def audit_ok_def
      outside_blackouts_cong [OF t(7)] membership_ok_cong [OF t(3,1)] trail_cong [OF t(4)] t by blast
  then show ?thesis by (simp add: d')
qed

lemma preserves_update_unit [preserved]:
  "cx_now cx \<le> T \<Longrightarrow> (\<And>u. u_id (f u) = u_id u \<and> u_venue (f u) = u_venue u) \<Longrightarrow> preserves (inv T {}) (update_unit cx i venue f)"
  by (rule preservesI) (rule update_unit_inv)

lemma insert_combo_inv:
  assumes I: "inv T X d" and ins: "insert_combo c d = Inr (x, d')"
  shows "inv T X d'"
proof -
  define e where "e = d\<lparr>combos := combos d @ [c]\<rparr>"
  from ins have chk: "check_combo c = Inr ()" and i: "c_id c \<notin> c_id ` set (combos d)" and d': "d' = trg_config_version (c_venue c) e"
    by (auto simp: insert_combo_def rbind_eq_Inr e_def)
  have keep: "find_combo e j v = Some y" if "find_combo d j v = Some y" for j v y
    using that find_append_fresh [OF i, of j "\<lambda>x. c_venue x = v"] by (simp add: find_combo_def e_def)
  have use: "combo_usable e k = combo_usable d k" for k
    by (simp add: combo_usable_def e_def)
  have facts: "assignment_facts e a v = Some z" if "assignment_facts d a v = Some z" for a v z
    using that keep use by (cases "a_kind a") (auto simp: assignment_facts_def find_unit_def e_def)
  have t: "units e = units d" "reservations e = reservations d" "unit_rows e = unit_rows d" "audit_log e = audit_log d"
    "audit_seq e = audit_seq d" "schedules e = schedules d" "blackouts e = blackouts d" "combos e = combos d @ [c]"
    by (simp_all add: e_def)
  have ids: "ids_ok d" using I by (simp add: inv_def)
  have mem: "members_of e (r_assignment r) = members_of d (r_assignment r)" if r: "r \<in> set (reservations d)" for r
  proof (cases "a_kind (r_assignment r)")
    case Unit
    then show ?thesis by (simp add: members_of_def)
  next
    case Combo
    from I r have "assignment_facts d (r_assignment r) (r_venue r) \<noteq> None" by (simp add: inv_def assigned_ok_def)
    with Combo obtain k where "find_combo d (a_id (r_assignment r)) (r_venue r) = Some k" by (auto simp: assignment_facts_def)
    from find_combo_by_id [OF ids this] have "find (\<lambda>c. c_id c = a_id (r_assignment r)) (combos d) = Some k" .
    with Combo find_append_fresh [OF i, of "a_id (r_assignment r)" "\<lambda>_. True"] show ?thesis by (simp add: members_of_def t)
  qed
  have "ids_ok e" using ids i by (simp add: ids_ok_def t)
  moreover have "members_ok X e" using I mem by (simp add: inv_def members_ok_def membership_ok_def t rows_of_cong [OF t(3)])
  moreover have "fit_ok T e" using I facts unfolding inv_def fit_ok_def fits_def t by blast
  moreover have "assigned_ok e" using I facts unfolding inv_def assigned_ok_def t by (metis not_None_eq)
  moreover have "shape_ok e" using I chk by (auto simp: inv_def shape_ok_def t)
  ultimately have "inv T X e"
    using I unfolding inv_def exclusion_ok_def sync_ok_def blackout_ok_def audit_ok_def
      outside_blackouts_cong [OF t(7)] trail_cong [OF t(4)] t by blast
  then show ?thesis by (simp add: d')
qed

lemma preserves_insert_combo [preserved]: "preserves (inv T X) (insert_combo c)"
  by (rule preservesI) (rule insert_combo_inv)

lemma update_combo_inv:
  assumes I: "inv T {} d" and now: "cx_now cx \<le> T" and up: "update_combo_row cx i venue f d = Inr (x, d')"
    and f: "\<And>c. c_id (f c) = c_id c \<and> c_venue (f c) = c_venue c"
  shows "inv T {} d'"
proof (cases "find_combo d i venue")
  case None
  with up I show ?thesis by (simp add: update_combo_row_def)
next
  case (Some old)
  define new where "new = f old"
  define e where "e = d\<lparr>combos := map (\<lambda>c. if c_id c = i then new else c) (combos d)\<rparr>"
  from up Some have g: "trg_combo_active_guard (cx_now cx) d old new = Inr ()" "trg_combo_immutable old new = Inr ()"
    "check_combo new = Inr ()" and d': "d' = trg_config_version venue e"
    unfolding new_def e_def by (auto simp: update_combo_row_def rbind_eq_Inr Let_def)
  have old: "old \<in> set (combos d)" "c_id old = i" "c_venue old = venue" using Some by (auto simp: find_combo_def dest: find_Some_D)
  have new: "c_id new = i" "c_venue new = venue" using old f by (simp_all add: new_def)
  have same: "c_unit_ids new = c_unit_ids old" "c_capacity_min new = c_capacity_min old" "c_capacity_max new = c_capacity_max old"
    using g(2) by (auto simp: trg_combo_immutable_def)
  have ids: "ids_ok d" using I by (simp add: inv_def)
  have t: "units e = units d" "reservations e = reservations d" "unit_rows e = unit_rows d" "audit_log e = audit_log d"
    "audit_seq e = audit_seq d" "schedules e = schedules d" "blackouts e = blackouts d"
    by (simp_all add: e_def)
  have only: "c = old" if "c \<in> set (combos d)" "c_id c = i" for c
    using combo_by_id [OF ids Some that(1)] that(2) old by simp
  have find: "find_combo e j v = map_option (\<lambda>c. if c_id c = i then new else c) (find_combo d j v)" for j v
    unfolding find_combo_def e_def using only new old(3)
    by (simp del: map_map) (rule find_replace_key_in; auto)
  have find_id: "find (\<lambda>c. c_id c = j) (combos e) = map_option (\<lambda>c. if c_id c = i then new else c) (find (\<lambda>c. c_id c = j) (combos d))" for j
    unfolding e_def using find_replace_key [of c_id "combos d" new i j] ids new by (simp add: ids_ok_def)
  have mem: "members_of e a = members_of d a" for a
  proof (cases "a_kind a")
    case Unit
    then show ?thesis by (simp add: members_of_def)
  next
    case Combo
    show ?thesis
    proof (cases "find (\<lambda>c. c_id c = a_id a) (combos d)")
      case None
      with Combo find_id show ?thesis by (simp add: members_of_def)
    next
      case (Some c)
      then have "c_unit_ids (if c_id c = i then new else c) = c_unit_ids c"
        using only [of c] find_Some_D [OF Some] same(1) by auto
      with Combo find_id Some show ?thesis by (simp add: members_of_def)
    qed
  qed
  have use: "combo_usable e c = combo_usable d c" for c by (simp add: combo_usable_def t)
  have fit: "fits e r" if r: "r \<in> set (reservations d)" "live T r" for r
  proof -
    from I r have fd: "fits d r" by (auto simp: inv_def fit_ok_def)
    show ?thesis
    proof (cases "a_kind (r_assignment r)")
      case Unit
      with fd show ?thesis by (simp add: fits_def assignment_facts_def find_unit_def t)
    next
      case Combo
      from fd Combo obtain c where c: "find_combo d (a_id (r_assignment r)) (r_venue r) = Some c" "combo_usable d c"
        "c_capacity_min c \<le> r_party_size r" "r_party_size r \<le> c_capacity_max c"
        by (auto simp: fits_def assignment_facts_def)
      show ?thesis
      proof (cases "c_id c = i")
        case True
        have cd: "c \<in> set (combos d)" "c_id c = a_id (r_assignment r)"
          using find_Some_D [OF c(1) [unfolded find_combo_def]] by auto
        then have co: "c = old" using only True by blast
        have as: "r_assignment r = \<lparr>a_kind = Combo, a_id = i\<rparr>" using Combo cd(2) True by (cases "r_assignment r") simp
        have "c_active new"
        proof (rule ccontr)
          assume "\<not> c_active new"
          with g(1) c(2) co have "\<not> (\<exists>r\<in>set (reservations d). r_assignment r = \<lparr>a_kind = Combo, a_id = c_id old\<rparr> \<and> live (cx_now cx) r)"
            unfolding trg_combo_active_guard_def throw_if_eq combo_usable_def by blast
          with r(1) as old(2) live_mono [OF now r(2)] show False by blast
        qed
        then have "combo_usable d new" using c(2) co same(1) new(2) old(3) by (simp add: combo_usable_def)
        then show ?thesis using Combo c co True same by (simp add: fits_def assignment_facts_def find use)
      next
        case False
        with Combo c show ?thesis by (simp add: fits_def assignment_facts_def find use)
      qed
    qed
  qed
  have "ids_ok e" using ids new by (simp add: ids_ok_def t) (simp add: e_def map_replace_key del: map_map)
  moreover have "members_ok {} e" using I by (simp add: inv_def members_ok_def membership_ok_def t rows_of_cong [OF t(3)] mem)
  moreover have "fit_ok T e" using fit by (simp add: fit_ok_def t)
  moreover have "assigned_ok e" using I
    by (auto simp: inv_def assigned_ok_def t assignment_facts_def find find_unit_def split: assignment_kind.splits)
  moreover have "shape_ok e" using I g(3) unfolding inv_def shape_ok_def t by (auto simp: e_def)
  ultimately have "inv T {} e"
    using I unfolding inv_def exclusion_ok_def sync_ok_def blackout_ok_def audit_ok_def
      outside_blackouts_cong [OF t(7)] trail_cong [OF t(4)] t by blast
  then show ?thesis by (simp add: d')
qed

lemma preserves_update_combo_row [preserved]:
  "cx_now cx \<le> T \<Longrightarrow> (\<And>c. c_id (f c) = c_id c \<and> c_venue (f c) = c_venue c) \<Longrightarrow> preserves (inv T {}) (update_combo_row cx i venue f)"
  by (rule preservesI) (rule update_combo_inv)

section \<open>Writes of schedules and blackouts\<close>

lemma inv_schedules:
  assumes I: "inv T X d" and s: "distinct (map s_id ss)" "\<forall>s\<in>set ss. check_schedule s = Inr ()"
  shows "inv T X (d\<lparr>schedules := ss\<rparr>)"
proof -
  define e where "e = d\<lparr>schedules := ss\<rparr>"
  have t: "units e = units d" "reservations e = reservations d" "unit_rows e = unit_rows d" "audit_log e = audit_log d"
    "audit_seq e = audit_seq d" "schedules e = ss" "blackouts e = blackouts d" "combos e = combos d"
    by (simp_all add: e_def)
  have "ids_ok e" "shape_ok e" using I s by (simp_all add: inv_def ids_ok_def shape_ok_def t)
  then have "inv T X e"
    using I unfolding inv_def exclusion_ok_def sync_ok_def members_ok_def fit_ok_def blackout_ok_def audit_ok_def assigned_ok_def
      fits_cong [OF t(1,8)] outside_blackouts_cong [OF t(7)] membership_ok_cong [OF t(3,8)] trail_cong [OF t(4)]
      assignment_facts_cong [OF t(1,8)] t by blast
  then show ?thesis by (simp add: e_def)
qed

lemma preserves_insert_schedule [preserved]: "preserves (inv T X) (insert_schedule s)"
proof (rule preservesI)
  fix d x d' assume I: "inv T X d" and u: "insert_schedule s d = Inr (x, d')"
  from u have "check_schedule s = Inr ()" "s_id s \<notin> set (map s_id (schedules d))"
    and d': "d' = trg_config_version (s_venue s) (d\<lparr>schedules := schedules d @ [s]\<rparr>)"
    by (auto simp: insert_schedule_def rbind_eq_Inr)
  with I have "inv T X (d\<lparr>schedules := schedules d @ [s]\<rparr>)"
    by (intro inv_schedules) (auto simp: inv_def ids_ok_def shape_ok_def)
  then show "inv T X d'" by (simp add: d')
qed

lemma preserves_update_schedule [preserved]:
  assumes f: "\<And>s. s_id (f s) = s_id s"
  shows "preserves (inv T X) (update_schedule i venue f)"
proof (rule preservesI)
  fix d x d' assume I: "inv T X d" and u: "update_schedule i venue f d = Inr (x, d')"
  show "inv T X d'"
  proof (cases "find_schedule d i venue")
    case None
    with u I show ?thesis by (simp add: update_schedule_def)
  next
    case (Some old)
    let ?ss = "map (\<lambda>s. if s_id s = i then f old else s) (schedules d)"
    from u Some have c: "check_schedule (f old) = Inr ()" and d': "d' = trg_config_version venue (d\<lparr>schedules := ?ss\<rparr>)"
      by (auto simp: update_schedule_def rbind_eq_Inr Let_def)
    have "s_id (f old) = i" using Some f by (auto simp: find_schedule_def dest: find_Some_D)
    then have "map s_id ?ss = map s_id (schedules d)" by (rule map_replace_key)
    with I c have "inv T X (d\<lparr>schedules := ?ss\<rparr>)"
      by (intro inv_schedules) (auto simp: inv_def ids_ok_def shape_ok_def simp del: map_map)
    then show ?thesis by (simp add: d')
  qed
qed

lemma inv_blackouts:
  assumes I: "inv T {} d" and s: "distinct (map b_id bs)" "\<forall>b\<in>set bs. check_blackout b = Inr ()"
    and o: "\<And>r b. r \<in> set (reservations d) \<Longrightarrow> live T r \<Longrightarrow> b \<in> set bs \<Longrightarrow> b_venue b = r_venue r \<Longrightarrow> b_active b \<Longrightarrow>
       \<not> overlaps (b_during b) (r_during r)"
  shows "inv T {} (d\<lparr>blackouts := bs\<rparr>)"
proof -
  define e where "e = d\<lparr>blackouts := bs\<rparr>"
  have t: "units e = units d" "reservations e = reservations d" "unit_rows e = unit_rows d" "audit_log e = audit_log d"
    "audit_seq e = audit_seq d" "blackouts e = bs" "schedules e = schedules d" "combos e = combos d"
    by (simp_all add: e_def)
  have "ids_ok e" "shape_ok e" using I s by (simp_all add: inv_def ids_ok_def shape_ok_def t)
  moreover have "blackout_ok T e" using o by (auto simp: blackout_ok_def outside_blackouts_def t)
  ultimately have "inv T {} e"
    using I unfolding inv_def exclusion_ok_def sync_ok_def members_ok_def fit_ok_def audit_ok_def assigned_ok_def
      fits_cong [OF t(1,8)] membership_ok_cong [OF t(3,8)] trail_cong [OF t(4)]
      assignment_facts_cong [OF t(1,8)] t by blast
  then show ?thesis by (simp add: e_def)
qed

text \<open>What the blackout guard refuses covers every live reservation over the range.\<close>

lemma blackout_write_judged:
  assumes I: "inv T {} d" and now: "now \<le> T" and g: "trg_blackout_write now d old new = Inr u" and a: "b_active new"
    and j: "case old of None \<Rightarrow> True | Some b \<Rightarrow> \<not> b_active b"
    and r: "r \<in> set (reservations d)" "live T r" "b_venue new = r_venue r"
  shows "\<not> overlaps (b_during new) (r_during r)"
proof
  assume o: "overlaps (b_during new) (r_during r)"
  from live_has_row [OF I r(1,2)] obtain ru where
    "ru \<in> set (unit_rows d)" "ru_reservation ru = r_id r" "ru_active ru" "ru_venue ru = r_venue r" "ru_during ru = r_during r" by blast
  then have "\<exists>ru\<in>set (unit_rows d). \<exists>r\<in>set (reservations d). r_id r = ru_reservation ru
           \<and> ru_venue ru = b_venue new \<and> ru_active ru \<and> overlaps (ru_during ru) (b_during new) \<and> live now r"
    using r live_mono [OF now r(2)] o overlaps_sym by metis
  with g a j show False by (auto simp: trg_blackout_write_def Let_def split: option.splits)
qed

lemma preserves_insert_blackout [preserved]:
  assumes now: "cx_now cx \<le> T"
  shows "preserves (inv T {}) (insert_blackout cx b)"
proof (rule preservesI)
  fix d x d' assume I: "inv T {} d" and u: "insert_blackout cx b d = Inr (x, d')"
  from u have g: "trg_blackout_write (cx_now cx) d None b = Inr ()" "check_blackout b = Inr ()" "b_id b \<notin> b_id ` set (blackouts d)"
    and d': "d' = trg_config_version (b_venue b) (d\<lparr>blackouts := blackouts d @ [b]\<rparr>)"
    by (auto simp: insert_blackout_def rbind_eq_Inr)
  have "\<not> overlaps (b_during y) (r_during r)"
    if "r \<in> set (reservations d)" "live T r" "y \<in> set (blackouts d @ [b])" "b_venue y = r_venue r" "b_active y" for r y
  proof (cases "y = b")
    case True
    with blackout_write_judged [OF I now g(1)] that show ?thesis by simp
  next
    case False
    with that I show ?thesis by (auto simp: inv_def blackout_ok_def outside_blackouts_def)
  qed
  then have "inv T {} (d\<lparr>blackouts := blackouts d @ [b]\<rparr>)"
    using I g(2,3) by (intro inv_blackouts) (auto simp: inv_def ids_ok_def shape_ok_def)
  then show "inv T {} d'" by (simp add: d')
qed

lemma preserves_update_blackout [preserved]:
  assumes now: "cx_now cx \<le> T" and f: "\<And>b. b_id (f b) = b_id b \<and> b_venue (f b) = b_venue b \<and> b_during (f b) = b_during b"
  shows "preserves (inv T {}) (update_blackout cx i venue f)"
proof (rule preservesI)
  fix d x d' assume I: "inv T {} d" and u: "update_blackout cx i venue f d = Inr (x, d')"
  show "inv T {} d'"
  proof (cases "find_blackout d i venue")
    case None
    with u I show ?thesis by (simp add: update_blackout_def)
  next
    case (Some old)
    let ?bs = "map (\<lambda>b. if b_id b = i then f old else b) (blackouts d)"
    from u Some have g: "trg_blackout_write (cx_now cx) d (Some old) (f old) = Inr ()" "check_blackout (f old) = Inr ()"
      and d': "d' = trg_config_version venue (d\<lparr>blackouts := ?bs\<rparr>)"
      by (auto simp: update_blackout_def rbind_eq_Inr Let_def)
    have old: "old \<in> set (blackouts d)" "b_id old = i" using Some by (auto simp: find_blackout_def dest: find_Some_D)
    have ids: "map b_id ?bs = map b_id (blackouts d)" by (rule map_replace_key) (simp add: f old)
    have "\<not> overlaps (b_during y) (r_during r)"
      if r: "r \<in> set (reservations d)" "live T r" and y: "y \<in> set ?bs" "b_venue y = r_venue r" "b_active y" for r y
    proof -
      have before: "\<not> overlaps (b_during z) (r_during r)" if "z \<in> set (blackouts d)" "b_venue z = r_venue r" "b_active z" for z
        using that r I by (auto simp: inv_def blackout_ok_def outside_blackouts_def)
      from set_replace_key [OF y(1)] show ?thesis
      proof
        assume yf: "y = f old"
        show ?thesis
        proof (cases "b_active old")
          case True
          with before [OF old(1)] y(2) yf f show ?thesis by simp
        next
          case False
          with blackout_write_judged [OF I now g(1)] y yf r show ?thesis by simp
        qed
      next
        assume "y \<in> set (blackouts d) \<and> b_id y \<noteq> i"
        with before y show ?thesis by blast
      qed
    qed
    then have "inv T {} (d\<lparr>blackouts := ?bs\<rparr>)"
      using I g(2) ids by (intro inv_blackouts) (auto simp: inv_def ids_ok_def shape_ok_def simp del: map_map)
    then show ?thesis by (simp add: d')
  qed
qed

end
