(* ===== verification/CmdLifecycle.thy ===== *)
theory CmdLifecycle
  imports CmdHold
begin

text \<open>
  The commands that move a reservation along its life: \<open>confirm.ts\<close>, \<open>cancel.ts\<close>, \<open>seat.ts\<close> (seat and
  complete) and \<open>mint-token.ts\<close> of \<open>packages/db/src/commands\<close>. Each runs in one transaction; what it
  throws is mapped by \<open>asDastarError\<close>, and the transaction then leaves the database as it was.
\<close>

section \<open>One transaction\<close>

text \<open>\<open>catch (e) { rollback; throw asDastarError(e) }\<close>.\<close>

definition in_transaction :: "'a tx \<Rightarrow> db \<Rightarrow> DastarError + ('a \<times> db)" where
  "in_transaction m d = (case m d of Inl e \<Rightarrow> Inl (asDastarError e) | Inr r \<Rightarrow> Inr r)"

record LifecycleInput =
  li_reservationId :: string
  li_actor :: string
  li_traceId :: string
  li_venueId :: string
  li_expectedVersion :: "int option"

definition not_found :: "string \<Rightarrow> exn" where
  "not_found what = ExDastar (dastar_error Not_found (what @ '' not found''))"

definition version_conflict :: exn where
  "version_conflict = ExDastar (dastar_error Version_conflict ''expected_version does not match'')"

definition wrong_status :: "string \<Rightarrow> ReservationStatus \<Rightarrow> exn" where
  "wrong_status verb s = ExDastar (dastar_error Invalid_transition
     (''cannot '' @ verb @ '' '' @ withArticle (status_text s) @ '' reservation''))"

text \<open>\<open>$2::int is null or version = $2\<close>.\<close>

definition version_matches :: "int option \<Rightarrow> ReservationRow \<Rightarrow> bool" where
  "version_matches expected r \<longleftrightarrow> (case expected of None \<Rightarrow> True | Some v \<Rightarrow> r_version r = v)"

text \<open>The tail every lifecycle command shares: the guarded update, the event, the receipt, the commit.\<close>

definition finish :: "session \<Rightarrow> LifecycleInput \<Rightarrow> ReservationPatch \<Rightarrow> string \<Rightarrow> Receipt tx" where
  "finish cx i p topic =
     tbind (update_reservation cx (li_reservationId i) (version_matches (li_expectedVersion i)) p) (\<lambda>upd. case upd of
         None \<Rightarrow> tthrow version_conflict
       | Some row \<Rightarrow>
           tthen (enqueue (li_venueId i) topic (reservationPayload row))
           (tbind (tget (\<lambda>d. receipt_of cx d row)) (\<lambda>rc.
           tthen commit (tret rc))))"

definition lock_row :: "session \<Rightarrow> LifecycleInput \<Rightarrow> ReservationRow tx" where
  "lock_row cx i = tbind (tget (\<lambda>d. find_reservation_in cx d (li_reservationId i) (li_venueId i))) (\<lambda>row.
     case row of None \<Rightarrow> tthrow (not_found ''reservation'') | Some r \<Rightarrow> tret r)"

definition lifecycle_session :: "LifecycleInput \<Rightarrow> instant \<Rightarrow> session" where
  "lifecycle_session i now = setContext (li_actor i) (li_traceId i) (li_venueId i) now"

section \<open>cancel\<close>

definition cancel_tx :: "instant \<Rightarrow> LifecycleInput \<Rightarrow> string \<Rightarrow> Receipt tx" where
  "cancel_tx now i reason = (let cx = lifecycle_session i now in
     tbind (lock_row cx i) (\<lambda>r.
     tthen (tguard (version_matches (li_expectedVersion i) r) version_conflict)
     (tthen (tguard (r_status r \<in> {Held, Confirmed, Seated}) (wrong_status ''cancel'' (r_status r)))
     (finish cx i \<lparr>set_status = Some Cancelled, set_reason = Some reason, set_token = None\<rparr> ''reservation.cancelled''))))"

definition cancel :: "instant \<Rightarrow> LifecycleInput \<Rightarrow> string \<Rightarrow> db \<Rightarrow> DastarError + (Receipt \<times> db)" where
  "cancel now i reason = in_transaction (cancel_tx now i reason)"

section \<open>seat and complete\<close>

definition advance_tx :: "instant \<Rightarrow> LifecycleInput \<Rightarrow> ReservationStatus \<Rightarrow> ReservationStatus \<Rightarrow> string \<Rightarrow> string \<Rightarrow> Receipt tx" where
  "advance_tx now i from to verb topic = (let cx = lifecycle_session i now in
     tbind (lock_row cx i) (\<lambda>r.
     tthen (tguard (version_matches (li_expectedVersion i) r) version_conflict)
     (tthen (tguard (r_status r = from) (wrong_status verb (r_status r)))
     (finish cx i (patch_status to) topic))))"

definition seat :: "instant \<Rightarrow> LifecycleInput \<Rightarrow> db \<Rightarrow> DastarError + (Receipt \<times> db)" where
  "seat now i = in_transaction (advance_tx now i Confirmed Seated ''seat'' ''reservation.seated'')"

definition complete :: "instant \<Rightarrow> LifecycleInput \<Rightarrow> db \<Rightarrow> DastarError + (Receipt \<times> db)" where
  "complete now i = in_transaction (advance_tx now i Seated Completed ''complete'' ''reservation.completed'')"

section \<open>confirm\<close>

text \<open>With a token the actor is \<open>token:\<close> and the id. The units read before the row lock are the assignment's.\<close>

definition confirm_session :: "instant \<Rightarrow> LifecycleInput \<Rightarrow> string option \<Rightarrow> session" where
  "confirm_session now i token = setContext
     (case token of None \<Rightarrow> li_actor i | Some _ \<Rightarrow> ''token:'' @ li_reservationId i) (li_traceId i) (li_venueId i) now"

definition peek_members :: "session \<Rightarrow> LifecycleInput \<Rightarrow> (Assignment \<times> string list) tx" where
  "peek_members cx i = tbind (lock_row cx i) (\<lambda>r. case a_kind (r_assignment r) of
       Unit \<Rightarrow> tret (r_assignment r, sortUnitIds [a_id (r_assignment r)])
     | Combo \<Rightarrow> tbind (tget (\<lambda>d. find_combo d (a_id (r_assignment r)) (li_venueId i))) (\<lambda>c. case c of
           None \<Rightarrow> tthrow (ExDastar (dastar_error Assignment_mismatch ''combo not found in venue''))
         | Some c \<Rightarrow> tret (r_assignment r, sortUnitIds (c_unit_ids c))))"

text \<open>The hashes are compared as bytes; \<open>timingSafeEqual\<close> is equality.\<close>

definition token_ok :: "(string \<Rightarrow> string) \<Rightarrow> string option \<Rightarrow> ReservationRow \<Rightarrow> bool" where
  "token_ok sha token r \<longleftrightarrow> (case token of None \<Rightarrow> True | Some t \<Rightarrow> r_token_hash r = Some (sha t))"

definition confirm_tx :: "(string \<Rightarrow> string) \<Rightarrow> instant \<Rightarrow> LifecycleInput \<Rightarrow> string option \<Rightarrow> Receipt tx" where
  "confirm_tx sha now i token = (let cx = confirm_session now i token in
     tbind (peek_members cx i) (\<lambda>(a, members).
     tbind (lock_row cx i) (\<lambda>r.
     tthen (tguard (r_assignment r = a) (ExDastar (dastar_error Assignment_mismatch ''assignment changed while confirming; retry'')))
     (tthen (tguard (token_ok sha token r) (ExDastar (dastar_error Forbidden ''confirm token does not match'')))
     (tthen (tguard (version_matches (li_expectedVersion i) r) version_conflict)
     (tthen (tguard (r_status r = Held) (wrong_status ''confirm'' (r_status r)))
     (finish cx i \<lparr>set_status = Some Confirmed, set_reason = None, set_token = Some None\<rparr> ''reservation.confirmed'')))))))"

definition confirm :: "(string \<Rightarrow> string) \<Rightarrow> instant \<Rightarrow> LifecycleInput \<Rightarrow> string option \<Rightarrow> db \<Rightarrow> DastarError + (Receipt \<times> db)" where
  "confirm sha now i token = in_transaction (confirm_tx sha now i token)"

section \<open>mintConfirmToken\<close>

text \<open>The token is 32 random bytes in base64url: a parameter.\<close>

definition mint_tx :: "(string \<Rightarrow> string) \<Rightarrow> instant \<Rightarrow> LifecycleInput \<Rightarrow> string \<Rightarrow> (string \<times> int) tx" where
  "mint_tx sha now i token = (let cx = lifecycle_session i now in
     tbind (update_reservation cx (li_reservationId i) (\<lambda>r. r_venue r = li_venueId i \<and> version_matches (li_expectedVersion i) r)
        \<lparr>set_status = None, set_reason = None, set_token = Some (Some (sha token))\<rparr>) (\<lambda>upd. case upd of
         None \<Rightarrow> tbind (tget (\<lambda>d. find_reservation_in cx d (li_reservationId i) (li_venueId i))) (\<lambda>exists.
           tthrow (ExDastar (dastar_error (if exists = None then Not_found else Version_conflict) ''mint failed'')))
       | Some row \<Rightarrow> tthen commit (tret (token, r_version row))))"

definition mintConfirmToken :: "(string \<Rightarrow> string) \<Rightarrow> instant \<Rightarrow> LifecycleInput \<Rightarrow> string \<Rightarrow> db \<Rightarrow> DastarError + (string \<times> int) \<times> db" where
  "mintConfirmToken sha now i token = in_transaction (mint_tx sha now i token)"

section \<open>The commands keep the invariants\<close>

lemma in_transaction_Inr: "in_transaction m d = Inr (x, d') \<longleftrightarrow> m d = Inr (x, d')"
  by (auto simp: in_transaction_def split: sum.splits)

lemma preserves_lock_row [preserved]: "preserves P (lock_row cx i)"
  unfolding lock_row_def by (intro preserved)

lemma preserves_finish [preserved]: "cx_now cx \<le> T \<Longrightarrow> preserves (inv T {}) (finish cx i p topic)"
  unfolding finish_def by (intro preserved)

lemma lifecycle_session_sel [simp]:
  "cx_now (lifecycle_session i now) = now" "cx_venue (lifecycle_session i now) = Some (li_venueId i)"
  "cx_actor (lifecycle_session i now) = li_actor i" "cx_bypass (lifecycle_session i now) = False"
  by (simp_all add: lifecycle_session_def)

lemma confirm_session_sel [simp]:
  "cx_now (confirm_session now i token) = now" "cx_venue (confirm_session now i token) = Some (li_venueId i)"
  "cx_bypass (confirm_session now i token) = False"
  by (simp_all add: confirm_session_def)

lemma preserves_cancel: "now \<le> T \<Longrightarrow> preserves (inv T {}) (cancel_tx now i reason)"
  unfolding cancel_tx_def Let_def by (intro preserved) simp

lemma preserves_advance: "now \<le> T \<Longrightarrow> preserves (inv T {}) (advance_tx now i from to verb topic)"
  unfolding advance_tx_def Let_def by (intro preserved) simp

lemma preserves_peek [preserved]: "preserves P (peek_members cx i)"
  unfolding peek_members_def
  by (intro preserved) (auto split: assignment_kind.split intro!: preserved)

lemma preserves_confirm: "now \<le> T \<Longrightarrow> preserves (inv T {}) (confirm_tx sha now i token)"
  unfolding confirm_tx_def Let_def by (intro preserved) simp

lemma preserves_mint: "now \<le> T \<Longrightarrow> preserves (inv T {}) (mint_tx sha now i token)"
  unfolding mint_tx_def Let_def by (intro preserved) simp

end
