(* ===== verification/LifecycleOutcomes.thy ===== *)
theory LifecycleOutcomes
  imports CmdLifecycle
begin

text \<open>
  The outcome of every lifecycle command on the reservation it addresses, branch by branch: what the
  triggers of \<open>DbTriggers\<close> make of the update each command of \<open>CmdLifecycle\<close> issues, on a database with
  the invariants, and the database it commits.
\<close>

section \<open>When the shared tail commits\<close>

lemma commit_ok:
  assumes I: "inv T {} d" and q: "set (deferred d) \<subseteq> r_id ` set (reservations d)"
  shows "commit d = Inr ((), d\<lparr>deferred := []\<rparr>)"
proof -
  have "trg_membership d rid" if "rid \<in> set (deferred d)" for rid
  proof -
    from that q obtain r where r: "r \<in> set (reservations d)" "r_id r = rid" by auto
    then have "find (\<lambda>x. r_id x = rid) (reservations d) = Some r"
      using I find_distinct_key [of r_id "reservations d" r] by (auto simp: inv_def ids_ok_def)
    moreover have "membership_ok d r" using I r(1) by (auto simp: inv_def members_ok_def)
    ultimately show ?thesis by (simp add: trg_membership_def)
  qed
  then show ?thesis by (simp add: commit_def)
qed

lemma deferred_write: "set (deferred (write_reservation cx old new d)) \<subseteq> insert (r_id new) (set (deferred d))"
  by (auto simp: write_reservation_def trg_sync_unit_rows_def trg_audit_def)

lemma rows_of_write_other:
  assumes "k \<noteq> r_id new"
  shows "rows_of (write_reservation cx old new d) k = rows_of d k"
proof -
  have "filter (\<lambda>ru. ru_reservation ru = k) (map (\<lambda>ru. if ru_reservation ru = r_id new \<and> ru_active ru then ru\<lparr>ru_active := False\<rparr> else ru) xs)
    = filter (\<lambda>ru. ru_reservation ru = k) xs" for xs using assms by (induction xs) auto
  from this [of "unit_rows d"] show ?thesis by (simp only: rows_of_def write_reservation_sel split: if_split) blast
qed

text \<open>The database after an update, its event and the commit.\<close>

definition after_update :: "session \<Rightarrow> LifecycleInput \<Rightarrow> string \<Rightarrow> ReservationRow \<Rightarrow> ReservationRow \<Rightarrow> db \<Rightarrow> db" where
  "after_update cx i topic old new d = (let e = write_reservation cx old new d in e\<lparr>
     outbox := outbox e @ [\<lparr>o_id = outbox_seq e, o_venue = li_venueId i, o_topic = topic, o_payload = reservationPayload new,
       o_published_at = None, o_dead_lettered_at = None\<rparr>],
     outbox_seq := Suc (outbox_seq e), deferred := []\<rparr>)"

lemma find_reservation_in_D:
  assumes "find_reservation_in cx d i v = Some r"
  shows "r \<in> set (reservations d)" "r_id r = i" "r_venue r = v" "visible cx v"
  using assms by (auto simp: find_reservation_in_def dest: find_Some_D)

lemma find_reservation_by_id:
  assumes "ids_ok d" and "r \<in> set (reservations d)" and "visible cx (r_venue r)"
  shows "find_reservation cx d (r_id r) = Some r"
proof -
  have "find (\<lambda>x. r_id x = r_id r \<and> visible cx (r_venue x)) xs = Some r"
    if "distinct (map r_id xs)" "r \<in> set xs" for xs
    using that assms(3) by (induction xs) (auto simp: rev_image_eqI)
  then show ?thesis using assms by (simp add: find_reservation_def ids_ok_def)
qed

lemma finish_eq:
  assumes I: "inv T {} d" and now: "cx_now cx \<le> T" and q: "deferred d = []"
    and r: "old \<in> set (reservations d)" "r_id old = li_reservationId i" "visible cx (r_venue old)"
    and v: "version_matches (li_expectedVersion i) old"
  shows "finish cx i p topic d = (case judge_update cx d old (apply_patch p old) of
      Inl e \<Rightarrow> Inl e
    | Inr new \<Rightarrow> Inr (receipt_of cx (after_update cx i topic old new d) new, after_update cx i topic old new d))"
proof -
  have f: "find_reservation cx d (li_reservationId i) = Some old"
    using find_reservation_by_id [of d old cx] I r by (simp add: inv_def)
  show ?thesis
  proof (cases "judge_update cx d old (apply_patch p old)")
    case (Inl e)
    with f v show ?thesis by (simp add: finish_def tbind_def update_reservation_def)
  next
    case (Inr new)
    define d1 where "d1 = write_reservation cx old new d"
    define d2 where "d2 = d1\<lparr>outbox := outbox d1 @ [\<lparr>o_id = outbox_seq d1, o_venue = li_venueId i, o_topic = topic,
       o_payload = reservationPayload new, o_published_at = None, o_dead_lettered_at = None\<rparr>], outbox_seq := Suc (outbox_seq d1)\<rparr>"
    have L: "legal_update T {} cx d old p new" using I now r(1) Inr by (simp add: legal_update_def)
    have I1: "inv T {} d1" using inv_write_reservation [OF L] by (simp add: d1_def)
    have "inv T {} d2" using I1 by (simp add: d2_def)
    moreover have "set (deferred d2) \<subseteq> r_id ` set (reservations d2)"
    proof -
      have "new \<in> set (reservations d1)" using r(1) judge_update_facts(1) [OF Inr] by (auto simp: d1_def write_reservation_sel)
      moreover have "set (deferred d2) \<subseteq> {r_id new}" using deferred_write [of cx old new d] q by (simp add: d1_def d2_def)
      ultimately show ?thesis by (auto simp: d2_def)
    qed
    ultimately have c: "commit d2 = Inr ((), d2\<lparr>deferred := []\<rparr>)" by (rule commit_ok)
    have e: "enqueue (li_venueId i) topic (reservationPayload new) d1 = Inr (outbox_seq d1, d2)"
      by (simp add: enqueue_def d2_def)
    have a: "after_update cx i topic old new d = d2\<lparr>deferred := []\<rparr>"
      by (simp add: after_update_def d1_def d2_def Let_def)
    have rc: "receipt_of cx d2 new = receipt_of cx (d2\<lparr>deferred := []\<rparr>) new"
      by (simp add: receipt_of_def max_audit_id_def)
    have u: "update_reservation cx (li_reservationId i) (version_matches (li_expectedVersion i)) p d = Inr (Some new, d1)"
      using f v Inr by (simp add: update_reservation_def d1_def)
    show ?thesis
      by (simp add: finish_def tbind_def tthen_def u e c tget_def tret_def a rc Inr)
  qed
qed

text \<open>What a lifecycle command leaves of every table.\<close>

lemma after_update_sel:
  "reservations (after_update cx i topic old new d) = map (\<lambda>r. if r_id r = r_id new then new else r) (reservations d)"
  "unit_rows (after_update cx i topic old new d) = unit_rows (write_reservation cx old new d)"
  "units (after_update cx i topic old new d) = units d" "combos (after_update cx i topic old new d) = combos d"
  "blackouts (after_update cx i topic old new d) = blackouts d" "schedules (after_update cx i topic old new d) = schedules d"
  "venues (after_update cx i topic old new d) = venues d" "idempotency (after_update cx i topic old new d) = idempotency d"
  "audit_log (after_update cx i topic old new d) = audit_log d @ [audit_row cx d (Some old) new]"
  "deferred (after_update cx i topic old new d) = []"
  by (simp_all add: after_update_def Let_def write_reservation_sel)

lemma judge_same_assignment:
  assumes "cx_actor cx \<noteq> []" and "trg_transition (cx_now cx) old new0 = Inr n" and "check_reservation old = Inr ()"
    and "\<not> (r_status old = Held \<and> r_status n = Confirmed)"
    and "r_party_size n = r_party_size old" "r_assignment n = r_assignment old" "r_during n = r_during old"
    and "r_token_hash n = None \<or> r_token_hash n = r_token_hash old"
  shows "judge_update cx d old new0 = Inr (trg_version old n)"
proof -
  have "check_reservation (trg_version old n) = Inr ()"
    using assms(3,5,7) by (simp add: check_reservation_def trg_version_def)
  moreover have "trg_token_guard (cx_now cx) old (trg_version old n) = Inr ()"
    using assms(8) by (auto simp: trg_token_guard_def trg_version_def)
  moreover have "trg_fit d (Some old) n = Inr ()" using assms(4-6) by (simp add: trg_fit_def)
  moreover have "trg_blackout_guard d (Some old) n = Inr ()" using assms(4) by (auto simp: trg_blackout_guard_def confirming_def)
  moreover have "trg_expiry_guard (cx_now cx) old n = Inr ()" using assms(4) by (auto simp: trg_expiry_guard_def)
  moreover have "require_actor cx = Inr ()" using assms(1) by (simp add: require_actor_def)
  ultimately show ?thesis using assms(2) by (simp add: judge_update_def)
qed

lemma token_free: "shape_ok d \<Longrightarrow> r \<in> set (reservations d) \<Longrightarrow> r_status r \<noteq> Held \<Longrightarrow> r_token_hash r = None"
  by (auto simp: shape_ok_def)

text \<open>The row a command addresses.\<close>

definition addressed :: "db \<Rightarrow> LifecycleInput \<Rightarrow> ReservationRow \<Rightarrow> bool" where
  "addressed d i r \<longleftrightarrow> r \<in> set (reservations d) \<and> r_id r = li_reservationId i \<and> r_venue r = li_venueId i"

lemma find_reservation_in_by_id:
  assumes "ids_ok d" and "r \<in> set (reservations d)" and "visible cx (r_venue r)"
  shows "find_reservation_in cx d (r_id r) (r_venue r) = Some r"
proof -
  have "find (\<lambda>x. r_id x = r_id r \<and> r_venue x = r_venue r \<and> visible cx (r_venue x)) xs = Some r"
    if "distinct (map r_id xs)" "r \<in> set xs" for xs
    using that assms(3) by (induction xs) (auto simp: rev_image_eqI)
  then show ?thesis using assms by (simp add: find_reservation_in_def ids_ok_def)
qed

lemma lock_row_eq:
  assumes "inv T {} d" and "addressed d i r" and "cx_venue cx = Some (li_venueId i)"
  shows "lock_row cx i d = Inr (r, d)"
  using find_reservation_in_by_id [of d r cx] assms
  by (simp add: lock_row_def tbind_def tx_eqs addressed_def inv_def visible_def)

lemma lock_row_none:
  assumes "\<nexists>r. addressed d i r"
  shows "lock_row cx i d = Inl (not_found ''reservation'')"
proof -
  have "find_reservation_in cx d (li_reservationId i) (li_venueId i) = None"
    using assms unfolding addressed_def by (meson find_reservation_in_D not_Some_eq)
  then show ?thesis by (simp add: lock_row_def tbind_def tx_eqs)
qed

lemma addressed_unique: "inv T {} d \<Longrightarrow> addressed d i r \<Longrightarrow> addressed d i s \<Longrightarrow> r = s"
  using distinct_key_eq [of r_id "reservations d" r s] by (simp add: addressed_def inv_def ids_ok_def)

text \<open>The tail of a command on the addressed row, when the row as patched passes every trigger.\<close>

lemma finish_addressed:
  assumes "inv T {} d" and "cx_now cx \<le> T" and "deferred d = []" and "addressed d i old"
    and "cx_venue cx = Some (li_venueId i)" and "version_matches (li_expectedVersion i) old"
  shows "finish cx i p topic d = (case judge_update cx d old (apply_patch p old) of
      Inl e \<Rightarrow> Inl e
    | Inr new \<Rightarrow> Inr (receipt_of cx (after_update cx i topic old new d) new, after_update cx i topic old new d))"
  using assms by (intro finish_eq) (auto simp: addressed_def visible_def)

section \<open>cancel\<close>

definition cancelled_row :: "string \<Rightarrow> ReservationRow \<Rightarrow> ReservationRow" where
  "cancelled_row reason old = old\<lparr>r_status := Cancelled, r_cancel_reason := Some reason, r_token_hash := None, r_version := r_version old + 1\<rparr>"

lemma judge_cancel:
  assumes "shape_ok d" and "old \<in> set (reservations d)" and "r_status old \<in> {Held, Confirmed, Seated}" and "cx_actor cx \<noteq> []"
  shows "judge_update cx d old (apply_patch \<lparr>set_status = Some Cancelled, set_reason = Some reason, set_token = None\<rparr> old)
    = (if reason = [] then Inl (pg_raise ''DA005'' ''cancel requires a reason'') else Inr (cancelled_row reason old))"
proof -
  define n where "n = old\<lparr>r_status := Cancelled, r_cancel_reason := Some reason, r_token_hash := None\<rparr>"
  have tok: "r_status old \<noteq> Held \<Longrightarrow> r_token_hash old = None" using token_free [OF assms(1,2)] .
  have can: "status_text (r_status old) @ ''>'' @ status_text Cancelled \<in> set allowed_pairs"
    unfolding allowed_pairs_iff using assms(3) by auto
  have ne: "Cancelled \<noteq> r_status old" using assms(3) by auto
  have "old\<lparr>r_status := Cancelled, r_cancel_reason := Some reason\<rparr> = n" if "r_status old \<noteq> Held"
    using tok [OF that] by (simp add: n_def)
  then have t: "trg_transition (cx_now cx) old (apply_patch \<lparr>set_status = Some Cancelled, set_reason = Some reason, set_token = None\<rparr> old)
    = (if reason = [] then Inl (pg_raise ''DA005'' ''cancel requires a reason'') else Inr n)"
    using can ne by (simp add: trg_transition_def Let_def apply_patch_def rbind_throw_if n_def del: append.simps append_Cons)
  show ?thesis
  proof (cases "reason = []")
    case True
    with t assms(4) show ?thesis by (simp add: judge_update_def require_actor_def throw_if_def)
  next
    case False
    have "judge_update cx d old (apply_patch \<lparr>set_status = Some Cancelled, set_reason = Some reason, set_token = None\<rparr> old)
      = Inr (trg_version old n)"
      by (rule judge_same_assignment) (use t False assms in \<open>auto simp: n_def shape_ok_def\<close>)
    with False show ?thesis by (simp add: trg_version_def n_def cancelled_row_def)
  qed
qed

text \<open>Every outcome of a cancellation of a reservation of the venue.\<close>

lemma cancel_eq:
  assumes "inv T {} d" and "now \<le> T" and "deferred d = []" and "addressed d i old" and "li_actor i \<noteq> []"
  shows "cancel now i reason d =
    (if \<not> version_matches (li_expectedVersion i) old then Inl (asDastarError version_conflict)
     else if r_status old \<notin> {Held, Confirmed, Seated} then Inl (asDastarError (wrong_status ''cancel'' (r_status old)))
     else if reason = [] then Inl (asDastarError (pg_raise ''DA005'' ''cancel requires a reason''))
     else (let cx = lifecycle_session i now; d' = after_update cx i ''reservation.cancelled'' old (cancelled_row reason old) d
           in Inr (receipt_of cx d' (cancelled_row reason old), d')))"
proof -
  have l: "lock_row (lifecycle_session i now) i d = Inr (old, d)" by (rule lock_row_eq [OF assms(1,4)]) simp
  have f: "finish (lifecycle_session i now) i \<lparr>set_status = Some Cancelled, set_reason = Some reason, set_token = None\<rparr> ''reservation.cancelled'' d
     = (if reason = [] then Inl (pg_raise ''DA005'' ''cancel requires a reason'')
        else (let cx = lifecycle_session i now; d' = after_update cx i ''reservation.cancelled'' old (cancelled_row reason old) d
           in Inr (receipt_of cx d' (cancelled_row reason old), d')))"
    if "version_matches (li_expectedVersion i) old" "r_status old \<in> {Held, Confirmed, Seated}"
    by (subst finish_addressed [OF assms(1) _ assms(3,4) _ that(1)], simp add: assms(2), simp,
        subst judge_cancel) (use assms that in \<open>simp_all add: inv_def addressed_def Let_def\<close>)
  consider "\<not> version_matches (li_expectedVersion i) old" | "version_matches (li_expectedVersion i) old" "r_status old \<notin> {Held, Confirmed, Seated}"
    | "version_matches (li_expectedVersion i) old" "r_status old \<in> {Held, Confirmed, Seated}" by blast
  then show ?thesis
  proof cases
    case 3
    show ?thesis unfolding cancel_def in_transaction_def cancel_tx_def Let_def
      by (simp add: tbind_def tthen_def l tx_eqs 3 f [OF 3] Let_def)
  qed (simp_all add: cancel_def in_transaction_def cancel_tx_def Let_def tbind_def tthen_def l tx_eqs)
qed

lemma cancel_absent:
  "\<nexists>r. addressed d i r \<Longrightarrow> cancel now i reason d = Inl (dastar_error Not_found ''reservation not found'')"
  by (simp add: cancel_def in_transaction_def cancel_tx_def Let_def tbind_def lock_row_none not_found_def asDastarError_def mapPgError_def)

section \<open>seat and complete\<close>

definition advanced_row :: "ReservationStatus \<Rightarrow> ReservationRow \<Rightarrow> ReservationRow" where
  "advanced_row to old = old\<lparr>r_status := to, r_version := r_version old + 1\<rparr>"

lemma judge_advance:
  assumes "shape_ok d" and "old \<in> set (reservations d)" and "(r_status old, to) \<in> {(Confirmed, Seated), (Seated, Completed)}"
    and "cx_actor cx \<noteq> []"
  shows "judge_update cx d old (apply_patch (patch_status to) old) = Inr (advanced_row to old)"
proof -
  define n where "n = old\<lparr>r_status := to\<rparr>"
  have can: "status_text (r_status old) @ ''>'' @ status_text to \<in> set allowed_pairs"
    unfolding allowed_pairs_iff using assms(3) by auto
  have t: "trg_transition (cx_now cx) old (apply_patch (patch_status to) old) = Inr n"
  proof -
    have ne: "to \<noteq> r_status old" "to \<noteq> Expired" "to \<noteq> Cancelled" "r_status old \<noteq> Held" using assms(3) by auto
    show ?thesis using can ne
      by (simp add: trg_transition_def Let_def apply_patch_def patch_status_def rbind_throw_if n_def del: append.simps append_Cons)
  qed
  have "judge_update cx d old (apply_patch (patch_status to) old) = Inr (trg_version old n)"
    by (rule judge_same_assignment) (use t assms in \<open>auto simp: n_def shape_ok_def\<close>)
  then show ?thesis by (simp add: trg_version_def n_def advanced_row_def)
qed

lemma advance_eq:
  assumes "inv T {} d" and "now \<le> T" and "deferred d = []" and "addressed d i old" and "li_actor i \<noteq> []"
    and step: "(st, to) \<in> {(Confirmed, Seated), (Seated, Completed)}"
  shows "advance_tx now i st to verb topic d =
    (if \<not> version_matches (li_expectedVersion i) old then Inl version_conflict
     else if r_status old \<noteq> st then Inl (wrong_status verb (r_status old))
     else (let cx = lifecycle_session i now; d' = after_update cx i topic old (advanced_row to old) d
           in Inr (receipt_of cx d' (advanced_row to old), d')))"
proof -
  have l: "lock_row (lifecycle_session i now) i d = Inr (old, d)" by (rule lock_row_eq [OF assms(1,4)]) simp
  have f: "finish (lifecycle_session i now) i (patch_status to) topic d
     = (let cx = lifecycle_session i now; d' = after_update cx i topic old (advanced_row to old) d
           in Inr (receipt_of cx d' (advanced_row to old), d'))"
    if "version_matches (li_expectedVersion i) old" "r_status old = st"
    by (subst finish_addressed [OF assms(1) _ assms(3,4) _ that(1)], simp add: assms(2), simp,
        subst judge_advance) (use assms that in \<open>simp_all add: inv_def addressed_def Let_def\<close>)
  consider "\<not> version_matches (li_expectedVersion i) old" | "version_matches (li_expectedVersion i) old" "r_status old \<noteq> st"
    | "version_matches (li_expectedVersion i) old" "r_status old = st" by blast
  then show ?thesis
  proof cases
    case 3
    show ?thesis unfolding advance_tx_def Let_def
      by (simp add: tbind_def tthen_def l tx_eqs 3 f [OF 3] Let_def)
  qed (simp_all add: advance_tx_def Let_def tbind_def tthen_def l tx_eqs)
qed

section \<open>confirm\<close>

definition confirmed_row :: "ReservationRow \<Rightarrow> ReservationRow" where
  "confirmed_row old = old\<lparr>r_status := Confirmed, r_token_hash := None, r_version := r_version old + 1\<rparr>"

lemma judge_confirm:
  assumes "shape_ok d" and "old \<in> set (reservations d)" and "r_status old = Held" and "cx_actor cx \<noteq> []"
    and "cx_now cx < r_hold_expires_at old \<Longrightarrow> fits d old \<and> outside_blackouts d old"
  shows "judge_update cx d old (apply_patch \<lparr>set_status = Some Confirmed, set_reason = None, set_token = Some None\<rparr> old)
    = (if r_hold_expires_at old \<le> cx_now cx then Inl (pg_raise ''DA001'' ''hold expired'') else Inr (confirmed_row old))"
proof -
  define n where "n = old\<lparr>r_status := Confirmed, r_token_hash := None\<rparr>"
  have can: "status_text Held @ ''>'' @ status_text Confirmed \<in> set allowed_pairs"
    unfolding allowed_pairs_iff by simp
  have t: "trg_transition (cx_now cx) old (apply_patch \<lparr>set_status = Some Confirmed, set_reason = None, set_token = Some None\<rparr> old) = Inr n"
    using can assms(3) by (simp add: trg_transition_def Let_def apply_patch_def rbind_throw_if n_def del: append.simps append_Cons)
  have e: "trg_expiry_guard (cx_now cx) old n = (if r_hold_expires_at old \<le> cx_now cx then Inl (pg_raise ''DA001'' ''hold expired'') else Inr ())"
    using assms(3) by (simp add: trg_expiry_guard_def throw_if_def n_def)
  show ?thesis
  proof (cases "r_hold_expires_at old \<le> cx_now cx")
    case True
    then show ?thesis using assms(4) by (simp add: judge_update_def require_actor_def t e throw_if_def)
  next
    case False
    then have fo: "fits d old" "outside_blackouts d old" using assms(5) by auto
    have b: "trg_blackout_guard d (Some old) n = Inr ()"
      using fo(2) by (auto simp: trg_blackout_guard_def outside_blackouts_def n_def)
    obtain cmin cmax where "assignment_facts d (r_assignment old) (r_venue old) = Some (cmin, cmax, True)"
      "cmin \<le> r_party_size old" "r_party_size old \<le> cmax" using fo(1) by (auto simp: fits_def)
    then have f: "trg_fit d (Some old) n = Inr ()" by (simp add: trg_fit_def n_def assms(3) confirming_def rbind_throw_if)
    have k: "check_reservation (trg_version old n) = Inr ()" using assms(1,2)
      by (auto simp: shape_ok_def check_reservation_def trg_version_def n_def)
    have g: "trg_token_guard (cx_now cx) old (trg_version old n) = Inr ()" by (simp add: trg_token_guard_def trg_version_def n_def)
    show ?thesis using False
      by (simp add: judge_update_def require_actor_def assms(4) t b f g k e)
        (simp add: n_def trg_version_def confirmed_row_def rbind_throw_if)
  qed
qed

lemma assignment_peeked:
  assumes "inv T {} d" and "addressed d i old" and "cx_venue cx = Some (li_venueId i)"
  shows "\<exists>us. peek_members cx i d = Inr ((r_assignment old, us), d)"
proof -
  have l: "lock_row cx i d = Inr (old, d)" by (rule lock_row_eq [OF assms])
  have a: "assignment_facts d (r_assignment old) (li_venueId i) \<noteq> None"
    using assms(1,2) by (auto simp: inv_def assigned_ok_def addressed_def)
  show ?thesis
  proof (cases "a_kind (r_assignment old)")
    case Unit
    then show ?thesis by (simp add: peek_members_def tbind_def l tx_eqs)
  next
    case Combo
    with a obtain c where "find_combo d (a_id (r_assignment old)) (li_venueId i) = Some c"
      by (auto simp: assignment_facts_def)
    with Combo show ?thesis by (simp add: peek_members_def tbind_def l tx_eqs)
  qed
qed

lemma confirm_eq:
  assumes "inv T {} d" and "now \<le> T" and "deferred d = []" and "addressed d i old"
    and "li_actor i \<noteq> [] \<or> token \<noteq> None" and "live now old \<Longrightarrow> fits d old \<and> outside_blackouts d old"
  shows "confirm sha now i token d =
    (if \<not> token_ok sha token old then Inl (dastar_error Forbidden ''confirm token does not match'')
     else if \<not> version_matches (li_expectedVersion i) old then Inl (asDastarError version_conflict)
     else if r_status old \<noteq> Held then Inl (asDastarError (wrong_status ''confirm'' (r_status old)))
     else if r_hold_expires_at old \<le> now then Inl (asDastarError (pg_raise ''DA001'' ''hold expired''))
     else (let cx = confirm_session now i token; d' = after_update cx i ''reservation.confirmed'' old (confirmed_row old) d
           in Inr (receipt_of cx d' (confirmed_row old), d')))"
proof -
  let ?cx = "confirm_session now i token"
  obtain us where p: "peek_members ?cx i d = Inr ((r_assignment old, us), d)"
    using assignment_peeked [OF assms(1,4)] by fastforce
  have l: "lock_row ?cx i d = Inr (old, d)" by (rule lock_row_eq [OF assms(1,4)]) simp
  have act: "cx_actor ?cx \<noteq> []" using assms(5) by (auto simp: confirm_session_def setContext_def split: option.splits)
  have f: "finish ?cx i \<lparr>set_status = Some Confirmed, set_reason = None, set_token = Some None\<rparr> ''reservation.confirmed'' d
     = (if r_hold_expires_at old \<le> now then Inl (pg_raise ''DA001'' ''hold expired'')
        else (let d' = after_update ?cx i ''reservation.confirmed'' old (confirmed_row old) d in Inr (receipt_of ?cx d' (confirmed_row old), d')))"
    if "version_matches (li_expectedVersion i) old" "r_status old = Held"
    by (subst finish_addressed [OF assms(1) _ assms(3,4) _ that(1)], simp add: assms(2), simp,
        subst judge_confirm) (use assms act that in \<open>simp_all add: inv_def addressed_def Let_def live_iff\<close>)
  consider "\<not> token_ok sha token old" | "token_ok sha token old" "\<not> version_matches (li_expectedVersion i) old"
    | "token_ok sha token old" "version_matches (li_expectedVersion i) old" "r_status old \<noteq> Held"
    | "token_ok sha token old" "version_matches (li_expectedVersion i) old" "r_status old = Held" "r_hold_expires_at old \<le> now"
    | "token_ok sha token old" "version_matches (li_expectedVersion i) old" "r_status old = Held" "now < r_hold_expires_at old"
    by fastforce
  then show ?thesis
  proof cases
    case 4
    show ?thesis unfolding confirm_def in_transaction_def confirm_tx_def Let_def
      by (simp add: tbind_def tthen_def p l tx_eqs 4 f [OF 4(2,3)] Let_def)
  next
    case 5
    show ?thesis unfolding confirm_def in_transaction_def confirm_tx_def Let_def
      by (simp add: tbind_def tthen_def p l tx_eqs 5 f [OF 5(2,3)] Let_def)
  qed (simp_all add: confirm_def in_transaction_def confirm_tx_def Let_def tbind_def tthen_def p l tx_eqs asDastarError_def mapPgError_def)
qed

section \<open>mintConfirmToken\<close>

definition minted_row :: "string \<Rightarrow> ReservationRow \<Rightarrow> ReservationRow" where
  "minted_row h old = old\<lparr>r_token_hash := Some h, r_version := r_version old + 1\<rparr>"

definition may_carry_token :: "instant \<Rightarrow> string \<Rightarrow> ReservationRow \<Rightarrow> bool" where
  "may_carry_token now h r \<longleftrightarrow> r_status r = Held \<and> (now < r_hold_expires_at r \<or> r_token_hash r = Some h)"

lemma judge_mint:
  assumes "shape_ok d" and "old \<in> set (reservations d)" and "cx_actor cx \<noteq> []"
  shows "judge_update cx d old (apply_patch \<lparr>set_status = None, set_reason = None, set_token = Some (Some h)\<rparr> old)
    = (if may_carry_token (cx_now cx) h old then Inr (minted_row h old)
       else Inl (pg_raise ''DA013'' ''a confirm token requires a held, unexpired reservation''))"
proof -
  define n where "n = old\<lparr>r_token_hash := Some h\<rparr>"
  have tok: "r_status old \<noteq> Held \<Longrightarrow> r_token_hash old = None" using token_free [OF assms(1,2)] .
  have p: "apply_patch \<lparr>set_status = None, set_reason = None, set_token = Some (Some h)\<rparr> old = n"
    by (simp add: apply_patch_def n_def)
  have t: "trg_transition (cx_now cx) old n = Inr n" by (simp add: trg_transition_def Let_def n_def)
  have e: "trg_expiry_guard (cx_now cx) old n = Inr ()" by (auto simp: trg_expiry_guard_def n_def)
  have b: "trg_blackout_guard d (Some old) n = Inr ()" by (simp add: trg_blackout_guard_def n_def confirming_def)
  have f: "trg_fit d (Some old) n = Inr ()" by (simp add: trg_fit_def n_def)
  have g: "trg_token_guard (cx_now cx) old (trg_version old n) = (if may_carry_token (cx_now cx) h old then Inr ()
     else Inl (pg_raise ''DA013'' ''a confirm token requires a held, unexpired reservation''))"
    using tok by (cases "r_status old") (auto simp: trg_token_guard_def trg_version_def n_def may_carry_token_def throw_if_def)
  have k: "check_reservation (trg_version old n) = Inr ()" using assms(1,2)
    by (auto simp: shape_ok_def check_reservation_def trg_version_def n_def)
  show ?thesis
    by (simp add: judge_update_def p t e b f g k require_actor_def assms(3) rbind_throw_if)
      (simp add: trg_version_def n_def minted_row_def)
qed

definition after_mint :: "session \<Rightarrow> ReservationRow \<Rightarrow> ReservationRow \<Rightarrow> db \<Rightarrow> db" where
  "after_mint cx old new d = (write_reservation cx old new d)\<lparr>deferred := []\<rparr>"

lemma mint_eq:
  assumes "inv T {} d" and "now \<le> T" and "deferred d = []" and "addressed d i old" and "li_actor i \<noteq> []"
  shows "mintConfirmToken sha now i token d =
    (if \<not> version_matches (li_expectedVersion i) old then Inl (dastar_error Version_conflict ''mint failed'')
     else if \<not> may_carry_token now (sha token) old
       then Inl (asDastarError (pg_raise ''DA013'' ''a confirm token requires a held, unexpired reservation''))
     else Inr ((token, r_version old + 1), after_mint (lifecycle_session i now) old (minted_row (sha token) old) d))"
proof -
  let ?cx = "lifecycle_session i now" and ?p = "\<lparr>set_status = None, set_reason = None, set_token = Some (Some (sha token))\<rparr>"
  let ?c = "\<lambda>r. r_venue r = li_venueId i \<and> version_matches (li_expectedVersion i) r"
  have old: "old \<in> set (reservations d)" "r_id old = li_reservationId i" "r_venue old = li_venueId i"
    using assms(4) by (auto simp: addressed_def)
  have fr: "find_reservation ?cx d (li_reservationId i) = Some old"
    using find_reservation_by_id [of d old ?cx] assms(1) old by (simp add: inv_def visible_def)
  have fi: "find_reservation_in ?cx d (li_reservationId i) (li_venueId i) = Some old"
    using find_reservation_in_by_id [of d old ?cx] assms(1) old by (simp add: inv_def visible_def)
  note j = judge_mint [of d old ?cx "sha token", simplified]
  show ?thesis
  proof (cases "version_matches (li_expectedVersion i) old")
    case False
    then have "update_reservation ?cx (li_reservationId i) ?c ?p d = Inr (None, d)" by (simp add: update_reservation_def fr)
    with False show ?thesis
      by (simp add: mintConfirmToken_def in_transaction_def mint_tx_def Let_def tbind_def fi tx_eqs asDastarError_def mapPgError_def)
  next
    case v: True
    show ?thesis
    proof (cases "may_carry_token now (sha token) old")
      case False
      have "update_reservation ?cx (li_reservationId i) ?c ?p d = Inl (pg_raise ''DA013'' ''a confirm token requires a held, unexpired reservation'')"
        using v False old assms(1,5) by (simp add: update_reservation_def fr j inv_def)
      with v False show ?thesis by (simp add: mintConfirmToken_def in_transaction_def mint_tx_def Let_def tbind_def)
    next
      case True
      let ?new = "minted_row (sha token) old"
      have ju: "judge_update ?cx d old (apply_patch ?p old) = Inr ?new"
        using True old assms(1,5) by (simp add: j inv_def)
      have u: "update_reservation ?cx (li_reservationId i) ?c ?p d = Inr (Some ?new, write_reservation ?cx old ?new d)"
        using v old ju by (simp add: update_reservation_def fr)
      have L: "legal_update T {} ?cx d old ?p ?new" using assms(1,2) old(1) ju by (simp add: legal_update_def)
      have q: "set (deferred (write_reservation ?cx old ?new d)) \<subseteq> r_id ` set (reservations (write_reservation ?cx old ?new d))"
        using assms(3) by (simp add: write_reservation_def trg_sync_unit_rows_def trg_audit_def minted_row_def)
      have c: "commit (write_reservation ?cx old ?new d) = Inr ((), after_mint ?cx old ?new d)"
        using commit_ok [OF inv_write_reservation [OF L] q] by (simp add: after_mint_def)
      show ?thesis using v True
        by (simp add: mintConfirmToken_def in_transaction_def mint_tx_def Let_def tbind_def tthen_def u c tx_eqs)
          (simp add: minted_row_def)
    qed
  qed
qed

lemma mint_absent:
  assumes "\<nexists>r. addressed d i r"
  shows "mintConfirmToken sha now i token d = Inl (dastar_error Not_found ''mint failed'')"
proof -
  let ?cx = "lifecycle_session i now"
  have fi: "find_reservation_in ?cx d (li_reservationId i) (li_venueId i) = None"
    using assms unfolding addressed_def by (meson find_reservation_in_D not_Some_eq)
  have u: "update_reservation ?cx (li_reservationId i) (\<lambda>r. r_venue r = li_venueId i \<and> version_matches (li_expectedVersion i) r) p d = Inr (None, d)" for p
    using assms by (auto simp: update_reservation_def find_reservation_def addressed_def split: option.splits dest: find_Some_D)
  show ?thesis by (simp add: mintConfirmToken_def in_transaction_def mint_tx_def Let_def tbind_def u fi tx_eqs asDastarError_def mapPgError_def)
qed

lemma after_mint_sel:
  "reservations (after_mint cx old new d) = map (\<lambda>r. if r_id r = r_id new then new else r) (reservations d)"
  "deferred (after_mint cx old new d) = []"
  by (simp_all add: after_mint_def write_reservation_sel)

end
