(* ===== verification/LifecycleProperties.thy ===== *)
theory LifecycleProperties
  imports LifecycleOutcomes Demo
begin

text \<open>
  The properties of \<open>cancel\<close>, \<open>confirm\<close>, \<open>mintConfirmToken\<close>, \<open>seat\<close> and \<open>complete\<close>: when each
  succeeds, what it writes and what it leaves, and what a confirm token reveals.
\<close>

section \<open>Properties\<close>

lemma live_row_sound:
  assumes "inv now {} d" and "addressed d i r" and "live now r"
  shows "fits d r \<and> outside_blackouts d r"
  using assms by (auto simp: inv_def fit_ok_def blackout_ok_def addressed_def)

lemma addressed_after:
  assumes "addressed d i old" and "r_id new = r_id old" and "r_venue new = r_venue old"
    and "reservations d' = map (\<lambda>r. if r_id r = r_id new then new else r) (reservations d)"
  shows "addressed d' i new"
  using assms by (auto simp: addressed_def)

lemma released_rows:
  assumes "inv T {} d'" and "r \<in> set (reservations d')" and "released (r_status r)" and "ru \<in> set (rows_of d' (r_id r))"
  shows "\<not> ru_active ru"
proof -
  from assms obtain s where "s \<in> set (reservations d')" "r_id s = r_id r" "row_in_sync ru s"
    by (auto simp: inv_def sync_ok_def rows_of_def)
  with assms(1-3) distinct_key_eq [of r_id "reservations d'" s r] show ?thesis
    by (auto simp: inv_def ids_ok_def row_in_sync_def)
qed

text \<open>Without an actor nothing is written.\<close>

lemma finish_no_actor: "cx_actor cx = [] \<Longrightarrow> finish cx i p topic d \<noteq> Inr x"
  by (auto simp: finish_def tbind_def update_reservation_def judge_update_def require_actor_def throw_if_def tx_eqs split: option.splits)

lemma cancel_no_actor: "li_actor i = [] \<Longrightarrow> cancel now i reason d \<noteq> Inr x"
  using finish_no_actor [of "lifecycle_session i now"]
  by (cases x) (auto simp: cancel_def in_transaction_Inr cancel_tx_def Let_def tbind_Inr tthen_def)

text \<open>
  C11: a cancellation succeeds exactly for an actor, with a reason, on a reservation of the venue at the expected version whose
  status is held, confirmed or seated; then the row is cancelled with the reason at the next
  version and without a token, its units are free, every other reservation and unit row is as it was, and one audit
  row and one event were appended.
\<close>

theorem cancel_exact:
  assumes "inv T {} d" and "now \<le> T" and "deferred d = []"
  shows "((\<exists>rc d'. cancel now i reason d = Inr (rc, d')) \<longleftrightarrow>
      li_actor i \<noteq> [] \<and> (\<exists>r. addressed d i r \<and> version_matches (li_expectedVersion i) r \<and> r_status r \<in> {Held, Confirmed, Seated} \<and> reason \<noteq> []))
    \<and> (\<forall>rc d' r. cancel now i reason d = Inr (rc, d') \<longrightarrow> addressed d i r \<longrightarrow>
      reservations d' = map (\<lambda>x. if r_id x = r_id r then cancelled_row reason r else x) (reservations d)
      \<and> rc_status rc = Cancelled \<and> rc_version rc = r_version r + 1
      \<and> (\<forall>ru\<in>set (rows_of d' (r_id r)). \<not> ru_active ru)
      \<and> (\<forall>k. k \<noteq> r_id r \<longrightarrow> rows_of d' k = rows_of d k)
      \<and> length (audit_log d') = Suc (length (audit_log d)) \<and> length (outbox d') = Suc (length (outbox d)) \<and> deferred d' = [])"
    (is "?iff \<and> ?effect")
proof
  show ?iff
  proof (cases "li_actor i \<noteq> [] \<and> (\<exists>r. addressed d i r)")
    case False
    then show ?thesis using cancel_no_actor by (auto simp: cancel_absent)
  next
    case True
    then obtain r where a: "li_actor i \<noteq> []" and r: "addressed d i r" by blast
    then have "addressed d i s \<longleftrightarrow> s = r" for s using addressed_unique [OF assms(1)] by blast
    with a show ?thesis by (auto simp: cancel_eq [OF assms(1-3) r a] Let_def)
  qed
  show ?effect
  proof (intro allI impI)
    fix rc d' r
    assume c: "cancel now i reason d = Inr (rc, d')" and r: "addressed d i r"
    from c have a: "li_actor i \<noteq> []" using cancel_no_actor by blast
    let ?new = "cancelled_row reason r" and ?cx = "lifecycle_session i now"
    from c have st: "r_status r \<in> {Held, Confirmed, Seated}"
      and e: "d' = after_update ?cx i ''reservation.cancelled'' r ?new d" "rc = receipt_of ?cx d' ?new"
      by (auto simp: cancel_eq [OF assms(1-3) r a] Let_def split: if_splits)
    have I: "inv T {} d'"
      using preservesD [OF preserves_cancel [OF assms(2)] assms(1)] c by (auto simp: cancel_def in_transaction_Inr)
    have n: "?new \<in> set (reservations d')" "r_id ?new = r_id r" "released (r_status ?new)" "\<not> released (r_status r)"
      using r st by (auto simp: e(1) after_update_sel addressed_def cancelled_row_def released_def)
    have rows: "rows_of d' k = rows_of d k" if "k \<noteq> r_id r" for k
      using rows_of_write_other [of k ?new] that by (simp add: rows_of_def e(1) after_update_sel n(2))
    have o: "length (outbox d') = Suc (length (outbox d))"
      by (simp add: e(1) after_update_def Let_def write_reservation_sel)
    show "reservations d' = map (\<lambda>x. if r_id x = r_id r then ?new else x) (reservations d)
      \<and> rc_status rc = Cancelled \<and> rc_version rc = r_version r + 1 \<and> (\<forall>ru\<in>set (rows_of d' (r_id r)). \<not> ru_active ru)
      \<and> (\<forall>k. k \<noteq> r_id r \<longrightarrow> rows_of d' k = rows_of d k)
      \<and> length (audit_log d') = Suc (length (audit_log d)) \<and> length (outbox d') = Suc (length (outbox d)) \<and> deferred d' = []"
      using released_rows [OF I n(1,3)] rows o n(2)
      by (auto simp: e after_update_sel receipt_of_def cancelled_row_def)
  qed
qed


definition on_r1 :: "int option \<Rightarrow> LifecycleInput" where
  "on_r1 v = \<lparr>li_reservationId = ''r1'', li_actor = ''guest'', li_traceId = ''t'', li_venueId = ''v'', li_expectedVersion = v\<rparr>"

lemma on_r1_sel [simp]:
  "li_reservationId (on_r1 v) = ''r1''" "li_actor (on_r1 v) = ''guest''" "li_venueId (on_r1 v) = ''v''" "li_expectedVersion (on_r1 v) = v"
  by (simp_all add: on_r1_def)

lemma held_db_inv: "inv 0 {} held_db"
  using preservesD [OF preserves_hold [of "demo_env 0 ''r1''"] demo_db_inv demo_held] by (simp add: demo_env_def)

lemma held_db_ready: "deferred held_db = []" "addressed held_db (on_r1 v) demo_reservation"
  by (simp_all add: held_db_def demo_db_def addressed_def demo_reservation_def)

theorem cancel_exact_witness:
  "\<exists>rc d'. cancel 9 (on_r1 (Some 1)) ''no show'' held_db = Inr (rc, d') \<and> rc_status rc = Cancelled \<and> rc_version rc = 2"
proof -
  have I: "inv 9 {} held_db" by (rule inv_mono [OF _ held_db_inv]) simp
  note c = cancel_exact [OF I order_refl held_db_ready(1), of "on_r1 (Some 1)" "''no show''"]
  have "li_actor (on_r1 (Some 1)) \<noteq> [] \<and> (\<exists>r. addressed held_db (on_r1 (Some 1)) r \<and> version_matches (li_expectedVersion (on_r1 (Some 1))) r
      \<and> r_status r \<in> {Held, Confirmed, Seated} \<and> ''no show'' \<noteq> [])"
    using held_db_ready(2) by (intro conjI exI [of _ demo_reservation]) (simp_all add: version_matches_def demo_reservation_def)
  then obtain rc d' where h: "cancel 9 (on_r1 (Some 1)) ''no show'' held_db = Inr (rc, d')"
    using c [THEN conjunct1, THEN iffD2] by blast
  from c [THEN conjunct2, rule_format, OF h held_db_ready(2)] have "rc_status rc = Cancelled \<and> rc_version rc = 2"
    by (simp add: demo_reservation_def)
  with h show ?thesis by blast
qed

text \<open>What the recheck at the confirmation refuses: a blackout over the range first, then an assignment the party does not fit.\<close>

lemma confirm_no_actor: "li_actor i = [] \<Longrightarrow> confirm sha now i None d \<noteq> Inr x"
  using finish_no_actor [of "confirm_session now i None"]
  by (cases x) (auto simp: confirm_def in_transaction_Inr confirm_tx_def Let_def tbind_Inr tthen_def confirm_session_def)

lemma confirm_only:
  assumes "inv T {} d" and "addressed d i r" and "confirm sha now i token d = Inr x"
  shows "token_ok sha token r \<and> version_matches (li_expectedVersion i) r \<and> r_status r = Held \<and> now < r_hold_expires_at r"
proof -
  let ?cx = "confirm_session now i token"
  obtain us where p: "peek_members ?cx i d = Inr ((r_assignment r, us), d)"
    using assignment_peeked [OF assms(1,2)] by fastforce
  have l: "lock_row ?cx i d = Inr (r, d)" by (rule lock_row_eq [OF assms(1,2)]) simp
  have g: "token_ok sha token r" "version_matches (li_expectedVersion i) r" "r_status r = Held"
    and f: "finish ?cx i \<lparr>set_status = Some Confirmed, set_reason = None, set_token = Some None\<rparr> ''reservation.confirmed'' d = Inr x"
    using assms(3) by (cases x; auto simp: confirm_def in_transaction_Inr confirm_tx_def Let_def tbind_def tthen_def p l tx_eqs split: if_splits)+
  have "\<not> r_hold_expires_at r \<le> now"
  proof
    assume "r_hold_expires_at r \<le> now"
    then have "trg_expiry_guard now r n \<noteq> Inr ()" if "r_status n = Confirmed" for n using g(3) that by (simp add: trg_expiry_guard_def throw_if_def)
    moreover have "r_status n = Confirmed" if "trg_transition now r (apply_patch \<lparr>set_status = Some Confirmed, set_reason = None, set_token = Some None\<rparr> r) = Inr n" for n
      using that g(3) by (auto simp: trg_transition_def Let_def apply_patch_def rbind_eq_Inr throw_if_eq split: if_splits)
    ultimately have "\<exists>e. judge_update ?cx d r (apply_patch \<lparr>set_status = Some Confirmed, set_reason = None, set_token = Some None\<rparr> r) = Inl e"
      by (cases "judge_update ?cx d r (apply_patch \<lparr>set_status = Some Confirmed, set_reason = None, set_token = Some None\<rparr> r)")
        (auto simp: judge_update_def rbind_eq_Inr)
    moreover have "find_reservation ?cx d (li_reservationId i) = Some r"
      using find_reservation_by_id [of d r ?cx] assms(1,2) by (auto simp: inv_def addressed_def visible_def)
    ultimately show False using f by (auto simp: finish_def tbind_def update_reservation_def tx_eqs split: if_splits)
  qed
  with g show ?thesis by simp
qed

lemma judge_confirm_refused:
  assumes "r_status old = Held" and "cx_actor cx \<noteq> []" and "cx_now cx < r_hold_expires_at old" and "\<not> (fits d old \<and> outside_blackouts d old)"
  shows "\<exists>e. judge_update cx d old (apply_patch \<lparr>set_status = Some Confirmed, set_reason = None, set_token = Some None\<rparr> old) = Inl e
    \<and> code (asDastarError e) \<in> (if outside_blackouts d old then {Assignment_inactive, Party_does_not_fit} else {Blackout})"
proof -
  define n where "n = old\<lparr>r_status := Confirmed, r_token_hash := None\<rparr>"
  have "status_text Held @ ''>'' @ status_text Confirmed \<in> set allowed_pairs" unfolding allowed_pairs_iff by simp
  then have t: "trg_transition (cx_now cx) old (apply_patch \<lparr>set_status = Some Confirmed, set_reason = None, set_token = Some None\<rparr> old) = Inr n"
    using assms(1) by (simp add: trg_transition_def Let_def apply_patch_def rbind_throw_if n_def del: append.simps append_Cons)
  have e: "trg_expiry_guard (cx_now cx) old n = Inr ()" using assms(3) by (simp add: trg_expiry_guard_def throw_if_def)
  have codes: "code (asDastarError (pg_raise ''DA009'' m)) = Blackout" "code (asDastarError (pg_raise ''DA015'' m)) = Assignment_inactive"
    "code (asDastarError (pg_raise ''DA003'' m)) = Party_does_not_fit" for m
    by (simp_all add: asDastarError_def pg_raise_def map_pg_def BY_SQLSTATE_def)
  show ?thesis
  proof (cases "outside_blackouts d old")
    case False
    then have "\<exists>m. trg_blackout_guard d (Some old) n = Inl (pg_raise ''DA009'' m)"
      using assms(1) by (auto simp: trg_blackout_guard_def outside_blackouts_def confirming_def throw_if_def n_def)
    with False t e assms(2) codes(1) show ?thesis by (auto simp: judge_update_def require_actor_def throw_if_def)
  next
    case True
    then have b: "trg_blackout_guard d (Some old) n = Inr ()" by (auto simp: trg_blackout_guard_def outside_blackouts_def throw_if_def n_def)
    from True assms(4) have "\<not> fits d old" by simp
    define Q where "Q x \<longleftrightarrow> code (asDastarError x) \<in> {Assignment_inactive, Party_does_not_fit}" for x
    have q: "Q (pg_raise ''DA015'' m)" "Q (pg_raise ''DA003'' m)" for m by (simp_all add: Q_def codes)
    have "\<exists>e. trg_fit d (Some old) n = Inl e \<and> Q e"
      using \<open>\<not> fits d old\<close> assms(1) q by (cases "assignment_facts d (r_assignment old) (r_venue old)")
        (auto simp: trg_fit_def fits_def confirming_def throw_if_def n_def rbind_throw_if)
    with True t e b assms(2) show ?thesis by (auto simp: judge_update_def require_actor_def throw_if_def Q_def)
  qed
qed

lemma confirm_refused:
  assumes "inv T {} d" and "now \<le> T" and "deferred d = []" and "addressed d i old" and "li_actor i \<noteq> [] \<or> token \<noteq> None"
    and ok: "token_ok sha token old" "version_matches (li_expectedVersion i) old" "r_status old = Held" "now < r_hold_expires_at old"
    and bad: "\<not> (fits d old \<and> outside_blackouts d old)"
  shows "\<exists>e. confirm sha now i token d = Inl e \<and> code e \<in> (if outside_blackouts d old then {Assignment_inactive, Party_does_not_fit} else {Blackout})"
proof -
  let ?cx = "confirm_session now i token"
  obtain us where p: "peek_members ?cx i d = Inr ((r_assignment old, us), d)"
    using assignment_peeked [OF assms(1,4)] by fastforce
  have l: "lock_row ?cx i d = Inr (old, d)" by (rule lock_row_eq [OF assms(1,4)]) simp
  have act: "cx_actor ?cx \<noteq> []" using assms(5) by (auto simp: confirm_session_def setContext_def split: option.splits)
  have "cx_now ?cx < r_hold_expires_at old" using ok(4) by simp
  from judge_confirm_refused [OF ok(3) act this bad] obtain e where
    j: "judge_update ?cx d old (apply_patch \<lparr>set_status = Some Confirmed, set_reason = None, set_token = Some None\<rparr> old) = Inl e"
    and c: "code (asDastarError e) \<in> (if outside_blackouts d old then {Assignment_inactive, Party_does_not_fit} else {Blackout})" by blast
  have f: "finish ?cx i \<lparr>set_status = Some Confirmed, set_reason = None, set_token = Some None\<rparr> ''reservation.confirmed'' d = Inl e"
    by (subst finish_addressed [OF assms(1) _ assms(3,4) _ ok(2)]) (simp_all add: assms(2) j)
  have "confirm sha now i token d = Inl (asDastarError e)"
    unfolding confirm_def in_transaction_def confirm_tx_def Let_def by (simp add: tbind_def tthen_def p l tx_eqs ok(1-3) f)
  with c show ?thesis by simp
qed

text \<open>
  C12: a confirmation succeeds exactly for an actor or with a token, on a held, unexpired reservation of the venue at the expected
  version, with the token, if one is given, whose hash the row carries, when its assignment is in use and takes the party and no
  blackout closes its range. The row is then confirmed at the next version without a token and live, and no unit row changes. A hold
  past its expiry is refused as hold_expired, and one a blackout closes as blackout; at the latest clock a live hold always fits and
  is never closed, since the invariants keep both.
\<close>

theorem confirm_exact:
  assumes "inv T {} d" and "now \<le> T" and "deferred d = []"
  shows "((\<exists>rc d'. confirm sha now i token d = Inr (rc, d')) \<longleftrightarrow>
      (li_actor i \<noteq> [] \<or> token \<noteq> None) \<and> (\<exists>r. addressed d i r \<and> token_ok sha token r \<and> version_matches (li_expectedVersion i) r \<and> r_status r = Held
         \<and> now < r_hold_expires_at r \<and> fits d r \<and> outside_blackouts d r))
    \<and> (\<forall>rc d' r. confirm sha now i token d = Inr (rc, d') \<longrightarrow> addressed d i r \<longrightarrow>
      reservations d' = map (\<lambda>x. if r_id x = r_id r then confirmed_row r else x) (reservations d)
      \<and> rc_status rc = Confirmed \<and> rc_version rc = r_version r + 1 \<and> live now (confirmed_row r)
      \<and> unit_rows d' = unit_rows d \<and> deferred d' = [])
    \<and> (\<forall>r. li_actor i \<noteq> [] \<or> token \<noteq> None \<longrightarrow> addressed d i r \<longrightarrow> token_ok sha token r \<longrightarrow> version_matches (li_expectedVersion i) r \<longrightarrow> r_status r = Held
      \<longrightarrow> (r_hold_expires_at r \<le> now \<longrightarrow> (\<exists>e. confirm sha now i token d = Inl e \<and> code e = Hold_expired))
        \<and> (now < r_hold_expires_at r \<longrightarrow> \<not> outside_blackouts d r \<longrightarrow> (\<exists>e. confirm sha now i token d = Inl e \<and> code e = Blackout)))
    \<and> (\<forall>r. addressed d i r \<longrightarrow> live T r \<longrightarrow> fits d r \<and> outside_blackouts d r)"
    (is "?iff \<and> ?effect \<and> ?refused \<and> ?latest")
proof (intro conjI)
  have eq: "confirm sha now i token d = (if \<not> token_ok sha token r then Inl (dastar_error Forbidden ''confirm token does not match'')
     else if \<not> version_matches (li_expectedVersion i) r then Inl (asDastarError version_conflict)
     else if r_status r \<noteq> Held then Inl (asDastarError (wrong_status ''confirm'' (r_status r)))
     else if r_hold_expires_at r \<le> now then Inl (asDastarError (pg_raise ''DA001'' ''hold expired''))
     else (let cx = confirm_session now i token; d' = after_update cx i ''reservation.confirmed'' r (confirmed_row r) d
           in Inr (receipt_of cx d' (confirmed_row r), d')))"
    if "addressed d i r" "li_actor i \<noteq> [] \<or> token \<noteq> None" "live now r \<Longrightarrow> fits d r \<and> outside_blackouts d r" for r
    by (rule confirm_eq [OF assms that])
  have no: "\<not> (\<exists>rc d'. confirm sha now i token d = Inr (rc, d'))" if "\<not> (li_actor i \<noteq> [] \<or> token \<noteq> None)"
    using that confirm_no_actor by auto
  have bad: "\<exists>e. confirm sha now i token d = Inl e" if "addressed d i r" "\<not> (fits d r \<and> outside_blackouts d r)" "live now r" "li_actor i \<noteq> [] \<or> token \<noteq> None" for r
  proof (cases "token_ok sha token r \<and> version_matches (li_expectedVersion i) r \<and> r_status r = Held \<and> now < r_hold_expires_at r")
    case True
    with confirm_refused [OF assms that(1,4)] that(2) show ?thesis by blast
  next
    case False
    show ?thesis
    proof (rule ccontr)
      assume "\<not> ?thesis"
      then obtain rc d' where "confirm sha now i token d = Inr (rc, d')" by (cases "confirm sha now i token d") auto
      from confirm_only [OF assms(1) that(1) this] False show False by simp
    qed
  qed
  show ?iff
  proof (cases "(li_actor i \<noteq> [] \<or> token \<noteq> None) \<and> (\<exists>r. addressed d i r)")
    case False
    then show ?thesis using no
      by (auto simp: confirm_def in_transaction_def confirm_tx_def peek_members_def Let_def tbind_def lock_row_none)
  next
    case True
    then obtain r where a: "li_actor i \<noteq> [] \<or> token \<noteq> None" and r: "addressed d i r" by blast
    then have u: "addressed d i s \<longleftrightarrow> s = r" for s using addressed_unique [OF assms(1)] by blast
    let ?ok = "token_ok sha token r \<and> version_matches (li_expectedVersion i) r \<and> r_status r = Held \<and> now < r_hold_expires_at r"
    have "?ok \<and> fits d r \<and> outside_blackouts d r" if "confirm sha now i token d = Inr (rc, d')" for rc d'
      using confirm_only [OF assms(1) r that] bad [OF r _ _ a] that by (auto simp: live_iff)
    moreover have "\<exists>rc d'. confirm sha now i token d = Inr (rc, d')" if "?ok" "fits d r" "outside_blackouts d r"
      using that by (subst eq [OF r a]) (simp_all add: Let_def not_le)
    ultimately have "(\<exists>rc d'. confirm sha now i token d = Inr (rc, d')) \<longleftrightarrow> ?ok \<and> fits d r \<and> outside_blackouts d r" by blast
    with a u show ?thesis by auto
  qed
  show ?effect
  proof (intro allI impI)
    fix rc d' r assume c: "confirm sha now i token d = Inr (rc, d')" and r: "addressed d i r"
    have a: "li_actor i \<noteq> [] \<or> token \<noteq> None" using no c by blast
    have fit: "live now r \<Longrightarrow> fits d r \<and> outside_blackouts d r" using bad [OF r _ _ a] c by auto
    have ok: "token_ok sha token r" "version_matches (li_expectedVersion i) r" "r_status r = Held" "now < r_hold_expires_at r"
      using confirm_only [OF assms(1) r c] by simp_all
    have "d' = after_update (confirm_session now i token) i ''reservation.confirmed'' r (confirmed_row r) d"
      "rc = receipt_of (confirm_session now i token) d' (confirmed_row r)"
      using c ok eq [OF r a fit] by (auto simp: Let_def)
    with ok(3) show "reservations d' = map (\<lambda>x. if r_id x = r_id r then confirmed_row r else x) (reservations d)
      \<and> rc_status rc = Confirmed \<and> rc_version rc = r_version r + 1 \<and> live now (confirmed_row r) \<and> unit_rows d' = unit_rows d \<and> deferred d' = []"
      by (auto simp: after_update_sel write_reservation_sel receipt_of_def confirmed_row_def released_def live_iff)
  qed
  show ?refused
  proof (intro allI impI conjI)
    fix r assume a: "li_actor i \<noteq> [] \<or> token \<noteq> None" and r: "addressed d i r" and ok: "token_ok sha token r" "version_matches (li_expectedVersion i) r" "r_status r = Held"
    show "\<exists>e. confirm sha now i token d = Inl e \<and> code e = Hold_expired" if "r_hold_expires_at r \<le> now"
      using that ok by (subst eq [OF r a]) (simp_all add: live_iff asDastarError_def pg_raise_def map_pg_def BY_SQLSTATE_def)
    show "\<exists>e. confirm sha now i token d = Inl e \<and> code e = Blackout" if "now < r_hold_expires_at r" "\<not> outside_blackouts d r"
      using confirm_refused [OF assms r a ok that(1)] that(2) by auto
  qed
  show ?latest using live_row_sound [OF assms(1)] by blast
qed

theorem confirm_exact_witness:
  "\<exists>rc d'. confirm (\<lambda>s. s) 9 (on_r1 None) None held_db = Inr (rc, d') \<and> rc_status rc = Confirmed \<and> rc_version rc = 2"
proof -
  have I: "inv 9 {} held_db" by (rule inv_mono [OF _ held_db_inv]) simp
  note c = confirm_exact [OF I order_refl held_db_ready(1), of "\<lambda>s. s" "on_r1 None" None]
  have live: "live 9 demo_reservation" by (simp add: demo_reservation_def live_iff)
  have "fits held_db demo_reservation \<and> outside_blackouts held_db demo_reservation"
    using c [THEN conjunct2, THEN conjunct2, THEN conjunct2, rule_format, OF held_db_ready(2) live] .
  then have "\<exists>rc d'. confirm (\<lambda>s. s) 9 (on_r1 None) None held_db = Inr (rc, d')"
    using c [THEN conjunct1, THEN iffD2] held_db_ready(2)
    by (force simp: version_matches_def token_ok_def demo_reservation_def)
  then obtain rc d' where h: "confirm (\<lambda>s. s) 9 (on_r1 None) None held_db = Inr (rc, d')" by blast
  from c [THEN conjunct2, THEN conjunct1, rule_format, OF h held_db_ready(2)] have "rc_status rc = Confirmed \<and> rc_version rc = 2"
    by (simp add: demo_reservation_def)
  with h show ?thesis by blast
qed

lemma wrong_token:
  assumes I: "inv T {} d" and a: "addressed d i r" and t: "r_token_hash r \<noteq> Some (sha t)"
  shows "confirm sha now i (Some t) d = Inl (dastar_error Forbidden ''confirm token does not match'')"
proof -
  let ?cx = "confirm_session now i (Some t)"
  obtain us where p: "peek_members ?cx i d = Inr ((r_assignment r, us), d)"
    using assignment_peeked [OF I a] by fastforce
  have l: "lock_row ?cx i d = Inr (r, d)" by (rule lock_row_eq [OF I a]) simp
  show ?thesis using t
    by (simp add: confirm_def in_transaction_def confirm_tx_def Let_def tbind_def tthen_def p l tx_eqs token_ok_def
        asDastarError_def mapPgError_def)
qed

text \<open>
  C7: a token that does not match is refused in the same way on every reservation of the venue, whatever its
  version, its status, the expected version or the clock: a caller without a valid token learns none of them.
\<close>

theorem wrong_token_reveals_nothing:
  assumes "inv T {} d" and "inv T' {} d'" and "addressed d i r" and "addressed d' j s"
    and "r_token_hash r \<noteq> Some (sha t)" and "r_token_hash s \<noteq> Some (sha t)"
  shows "confirm sha now i (Some t) d = Inl (dastar_error Forbidden ''confirm token does not match'')
    \<and> confirm sha now' j (Some t) d' = confirm sha now i (Some t) d"
  using wrong_token assms by metis

theorem wrong_token_reveals_nothing_witness:
  "confirm (\<lambda>s. s) 9 (on_r1 (Some 7)) (Some ''guess'') held_db = confirm (\<lambda>s. s) 700000 (on_r1 None) (Some ''guess'') held_db"
  using wrong_token_reveals_nothing [OF held_db_inv held_db_inv held_db_ready(2) [of None] held_db_ready(2) [of "Some 7"],
      of "\<lambda>s. s" "''guess''" 700000 9]
  by (simp add: demo_reservation_def)

lemma mint_state:
  assumes "inv now {} d" and "deferred d = []" and "li_actor i \<noteq> []" and "mintConfirmToken sha now i token d = Inr ((t, v), d1)"
  obtains old where "addressed d i old" "t = token" "v = r_version old + 1" "r_status old = Held"
    "d1 = after_mint (lifecycle_session i now) old (minted_row (sha token) old) d" "inv now {} d1"
proof -
  have I: "inv now {} d1"
    using preservesD [OF preserves_mint [OF order_refl] assms(1)] assms(4) by (auto simp: mintConfirmToken_def in_transaction_Inr)
  from assms(4) obtain old where a: "addressed d i old" using mint_absent [of d i sha now token] by auto
  with assms I show thesis
    by (intro that [of old]) (auto simp: mint_eq [OF assms(1) order_refl assms(2) a assms(3)] may_carry_token_def split: if_splits)
qed

text \<open>
  C13: a minted token confirms, once, and only it does. After a token was minted for a hold, a confirmation that presents it before the
  expiry succeeds, whoever presents it, and the second presentation of the same token is refused; a token with another hash, such as
  one minted before, is refused at once.
\<close>

theorem mint_confirm_roundtrip:
  assumes "inv now {} d" and "deferred d = []" and "li_actor i \<noteq> []" and "mintConfirmToken sha now i token d = Inr ((t, v), d1)"
    and "li_reservationId j = li_reservationId i" and "li_venueId j = li_venueId i" and "li_expectedVersion j \<in> {None, Some v}"
    and "now \<le> later" and "\<And>r. addressed d i r \<Longrightarrow> later < r_hold_expires_at r"
  shows "\<exists>rc d2. confirm sha later j (Some t) d1 = Inr (rc, d2) \<and> rc_status rc = Confirmed \<and> rc_version rc = v + 1
    \<and> (\<forall>after k. li_reservationId k = li_reservationId i \<longrightarrow> li_venueId k = li_venueId i \<longrightarrow>
        confirm sha after k (Some t) d2 = Inl (dastar_error Forbidden ''confirm token does not match'')
        \<and> (\<forall>t'. sha t' \<noteq> sha t \<longrightarrow> confirm sha after k (Some t') d1 = Inl (dastar_error Forbidden ''confirm token does not match'')))"
proof -
  from mint_state [OF assms(1-4)] obtain old where m: "addressed d i old" "t = token" "v = r_version old + 1" "r_status old = Held"
    "d1 = after_mint (lifecycle_session i now) old (minted_row (sha token) old) d" "inv now {} d1" by blast
  let ?new = "minted_row (sha token) old"
  have a1: "addressed d1 j ?new"
    using m(1,5) assms(5,6) by (auto simp: addressed_def after_mint_sel minted_row_def)
  have I1: "inv later {} d1" by (rule inv_mono [OF assms(8) m(6)])
  have q1: "deferred d1 = []" by (simp add: m(5) after_mint_sel)
  have ok: "token_ok sha (Some t) ?new" "version_matches (li_expectedVersion j) ?new" "r_status ?new = Held" "later < r_hold_expires_at ?new"
    using assms(7,9) m by (auto simp: token_ok_def minted_row_def version_matches_def)
  have "live later ?new" using ok by (simp add: live_iff)
  note lv = live_row_sound [OF I1 a1 this]
  define d2 where "d2 = after_update (confirm_session later j (Some t)) j ''reservation.confirmed'' ?new (confirmed_row ?new) d1"
  define rc where "rc = receipt_of (confirm_session later j (Some t)) d2 (confirmed_row ?new)"
  have c: "confirm sha later j (Some t) d1 = Inr (rc, d2)"
    unfolding rc_def d2_def
    by (subst confirm_eq [OF I1 order_refl q1 a1]) (use ok lv in \<open>simp_all add: Let_def\<close>)
  have I2: "inv later {} d2"
    using preservesD [OF preserves_confirm [OF order_refl] I1] c by (auto simp: confirm_def in_transaction_Inr)
  have "confirm sha after k (Some t) d2 = Inl (dastar_error Forbidden ''confirm token does not match'')"
    if "li_reservationId k = li_reservationId i" "li_venueId k = li_venueId i" for after k
  proof -
    have "addressed d2 k (confirmed_row ?new)"
      using a1 that assms(5,6) by (auto simp: addressed_def d2_def after_update_sel confirmed_row_def)
    from wrong_token [OF I2 this, of sha t after] show ?thesis by (simp add: confirmed_row_def)
  qed
  moreover have "confirm sha after k (Some t') d1 = Inl (dastar_error Forbidden ''confirm token does not match'')"
    if "li_reservationId k = li_reservationId i" "li_venueId k = li_venueId i" "sha t' \<noteq> sha t" for after k t'
  proof -
    have "addressed d1 k ?new" using a1 that(1,2) assms(5,6) by (auto simp: addressed_def)
    from wrong_token [OF m(6) this, of sha t' after] show ?thesis using that(3) by (simp add: minted_row_def m(2))
  qed
  ultimately show ?thesis using c by (auto simp: rc_def receipt_of_def confirmed_row_def minted_row_def m(3))
qed

theorem mint_confirm_roundtrip_witness:
  "\<exists>d1 rc d2. mintConfirmToken (\<lambda>s. s) 1 (on_r1 None) ''tok'' held_db = Inr ((''tok'', 2), d1)
     \<and> confirm (\<lambda>s. s) 9 (on_r1 (Some 2)) (Some ''tok'') d1 = Inr (rc, d2) \<and> rc_version rc = 3
     \<and> (\<exists>e. confirm (\<lambda>s. s) 9 (on_r1 None) (Some ''old'') d1 = Inl e) \<and> (\<exists>e. confirm (\<lambda>s. s) 9 (on_r1 None) (Some ''tok'') d2 = Inl e)"
proof -
  let ?d1 = "after_mint (lifecycle_session (on_r1 None) 1) demo_reservation (minted_row ''tok'' demo_reservation) held_db"
  have I: "inv 1 {} held_db" by (rule inv_mono [OF _ held_db_inv]) simp
  have m: "mintConfirmToken (\<lambda>s. s) 1 (on_r1 None) ''tok'' held_db = Inr ((''tok'', 2), ?d1)"
    by (subst mint_eq [OF I order_refl held_db_ready]) (simp_all add: may_carry_token_def version_matches_def demo_reservation_def)
  have "9 < r_hold_expires_at r" if "addressed held_db (on_r1 None) r" for r
    using that by (simp add: addressed_def held_db_def demo_reservation_def)
  from mint_confirm_roundtrip [OF I held_db_ready(1) _ m _ _ _ _ this, of "on_r1 (Some 2)"] obtain rc d2 where
    c: "confirm (\<lambda>s. s) 9 (on_r1 (Some 2)) (Some ''tok'') ?d1 = Inr (rc, d2)" "rc_version rc = 3"
    and r: "\<And>after k. li_reservationId k = ''r1'' \<Longrightarrow> li_venueId k = ''v'' \<Longrightarrow> confirm (\<lambda>s. s) after k (Some ''tok'') d2 = Inl (dastar_error Forbidden ''confirm token does not match'')
        \<and> (\<forall>t'. t' \<noteq> ''tok'' \<longrightarrow> confirm (\<lambda>s. s) after k (Some t') ?d1 = Inl (dastar_error Forbidden ''confirm token does not match''))"
    by auto
  from r [of "on_r1 None" 9] have "confirm (\<lambda>s. s) 9 (on_r1 None) (Some ''old'') ?d1 = Inl (dastar_error Forbidden ''confirm token does not match'')"
    "confirm (\<lambda>s. s) 9 (on_r1 None) (Some ''tok'') d2 = Inl (dastar_error Forbidden ''confirm token does not match'')" by simp_all
  with m c show ?thesis by blast
qed

text \<open>
  Seating succeeds exactly on a confirmed reservation of the venue at the expected version and completing
  exactly on a seated one; either only moves the status and the version: no unit row changes, so a party keeps its
  units through completion.
\<close>

theorem advance_exact:
  assumes "inv T {} d" and "now \<le> T" and "deferred d = []" and "li_actor i \<noteq> []"
    and "(cmd, source_status, target) \<in> {(seat, Confirmed, Seated), (complete, Seated, Completed)}"
  shows "((\<exists>rc d'. cmd now i d = Inr (rc, d')) \<longleftrightarrow>
      (\<exists>r. addressed d i r \<and> version_matches (li_expectedVersion i) r \<and> r_status r = source_status))
    \<and> (\<forall>rc d' r. cmd now i d = Inr (rc, d') \<longrightarrow> addressed d i r \<longrightarrow>
      reservations d' = map (\<lambda>x. if r_id x = r_id r then r\<lparr>r_status := target, r_version := r_version r + 1\<rparr> else x) (reservations d)
      \<and> rc_status rc = target \<and> rc_version rc = r_version r + 1 \<and> unit_rows d' = unit_rows d \<and> deferred d' = [])"
    (is "?iff \<and> ?effect")
proof -
  from assms(5) obtain verb topic where cmd: "cmd now i d = in_transaction (advance_tx now i source_status target verb topic) d"
    and st: "(source_status, target) \<in> {(Confirmed, Seated), (Seated, Completed)}"
    by (auto simp: seat_def complete_def)
  have eq: "cmd now i d = (if \<not> version_matches (li_expectedVersion i) r then Inl (asDastarError version_conflict)
     else if r_status r \<noteq> source_status then Inl (asDastarError (wrong_status verb (r_status r)))
     else (let cx = lifecycle_session i now; d' = after_update cx i topic r (advanced_row target r) d
           in Inr (receipt_of cx d' (advanced_row target r), d')))" if "addressed d i r" for r
    unfolding cmd in_transaction_def advance_eq [OF assms(1-3) that assms(4) st] by (simp add: Let_def)
  have iff: ?iff
  proof (cases "\<exists>r. addressed d i r")
    case False
    then show ?thesis by (auto simp: cmd in_transaction_def advance_tx_def Let_def tbind_def lock_row_none)
  next
    case True
    then obtain r where r: "addressed d i r" by blast
    then have "addressed d i s \<longleftrightarrow> s = r" for s using addressed_unique [OF assms(1)] by blast
    then show ?thesis by (auto simp: eq [OF r] Let_def)
  qed
  have rel: "\<not> released target" using st by (auto simp: released_def)
  have ?effect
    by (auto simp: eq Let_def after_update_sel write_reservation_sel receipt_of_def advanced_row_def rel split: if_splits)
  with iff show ?thesis by blast
qed

theorem advance_exact_witness:
  "\<exists>d1 rc d2. confirm (\<lambda>s. s) 9 (on_r1 None) None held_db = Inr (rc, d1)
     \<and> (\<exists>rc d2. seat 10 (on_r1 None) d1 = Inr (rc, d2) \<and> rc_status rc = Seated \<and> unit_rows d2 = unit_rows d1)"
proof -
  define d1 where "d1 = after_update (confirm_session 9 (on_r1 None) None) (on_r1 None) ''reservation.confirmed'' demo_reservation
     (confirmed_row demo_reservation) held_db"
  have I: "inv 9 {} held_db" by (rule inv_mono [OF _ held_db_inv]) simp
  have lv: "live 9 demo_reservation" by (simp add: demo_reservation_def live_iff)
  have c: "confirm (\<lambda>s. s) 9 (on_r1 None) None held_db
     = Inr (receipt_of (confirm_session 9 (on_r1 None) None) d1 (confirmed_row demo_reservation), d1)"
    unfolding d1_def using live_row_sound [OF I held_db_ready(2) lv]
    by (subst confirm_eq [OF I order_refl held_db_ready])
      (simp_all add: Let_def token_ok_def version_matches_def demo_reservation_def)
  have I1: "inv 10 {} d1"
    using preservesD [OF preserves_confirm [OF order_refl] I] c
    by (auto simp: confirm_def in_transaction_Inr intro: inv_mono [of 9])
  have q1: "deferred d1 = []" by (simp add: d1_def after_update_sel)
  have a1: "addressed d1 (on_r1 None) (confirmed_row demo_reservation)"
    using held_db_ready(2) by (auto simp: addressed_def d1_def after_update_sel confirmed_row_def)
  note a = advance_exact [OF I1 order_refl q1, of "on_r1 None" seat Confirmed Seated, simplified on_r1_sel]
  have "\<exists>r. addressed d1 (on_r1 None) r \<and> version_matches None r \<and> r_status r = Confirmed"
    using a1 by (intro exI [of _ "confirmed_row demo_reservation"]) (simp add: version_matches_def confirmed_row_def)
  then obtain rc d2 where s: "seat 10 (on_r1 None) d1 = Inr (rc, d2)" using a [THEN conjunct1, THEN iffD2] by blast
  from a [THEN conjunct2, rule_format, OF _ _ s a1] s c show ?thesis by auto
qed

end
