(* ===== verification/DbBatch.thy ===== *)
theory DbBatch
  imports LifecycleOutcomes
begin

text \<open>
  One statement that updates several reservations, and an event for each: what the sweeper
  (\<open>commands/expire.ts\<close>) and a forced administrative write (\<open>settleStranded\<close> in \<open>commands/admin.ts\<close>)
  have in common.
\<close>

section \<open>Statements over several rows\<close>

text \<open>\<open>update ... returning\<close> over the given rows, then \<open>for (const row of upd.rows) await enqueue(...)\<close>.\<close>

definition update_each :: "session \<Rightarrow> ReservationPatch \<Rightarrow> ReservationRow list \<Rightarrow> ReservationRow list tx" where
  "update_each cx p rows = tbind (tfor (\<lambda>r. update_reservation cx (r_id r) (\<lambda>_. True) p) rows) (\<lambda>upd.
     tret (List.map_filter (\<lambda>r. r) upd))"

definition enqueue_each :: "(ReservationRow \<Rightarrow> string) \<Rightarrow> string \<Rightarrow> ReservationRow list \<Rightarrow> nat list tx" where
  "enqueue_each venue topic rows = tfor (\<lambda>r. enqueue (venue r) topic (reservationPayload r)) rows"

section \<open>What they keep\<close>

lemma preserves_update_each [preserved]: "cx_now cx \<le> T \<Longrightarrow> preserves (inv T X) (update_each cx p rows)"
  unfolding update_each_def by (intro preserved)

lemma preserves_enqueue_each [preserved]: "preserves (inv T X) (enqueue_each v t rows)"
  unfolding enqueue_each_def by (intro preserved)

lemma keeps_tfor: "(\<And>x. keeps f (body x)) \<Longrightarrow> keeps f (tfor body xs)"
  by (induction xs) (auto intro!: keeping)

lemma enqueue_each_eq:
  "\<exists>ids. enqueue_each v t rows d = Inr (ids, d\<lparr>outbox := outbox d @ map (\<lambda>(n, r). \<lparr>o_id = n, o_venue = v r, o_topic = t,
      o_payload = reservationPayload r, o_published_at = None, o_dead_lettered_at = None\<rparr>) (zip [outbox_seq d..<outbox_seq d + length rows] rows),
    outbox_seq := outbox_seq d + length rows\<rparr>)"
proof (induction rows arbitrary: d)
  case (Cons r rows)
  let ?d1 = "d\<lparr>outbox := outbox d @ [\<lparr>o_id = outbox_seq d, o_venue = v r, o_topic = t, o_payload = reservationPayload r,
     o_published_at = None, o_dead_lettered_at = None\<rparr>], outbox_seq := Suc (outbox_seq d)\<rparr>"
  from Cons.IH [of ?d1] show ?case
    by (auto simp: enqueue_each_def tbind_def enqueue_def tx_eqs upt_conv_Cons simp del: upt_Suc)
qed (simp add: enqueue_each_def tx_eqs)

text \<open>
  The rows a batch updates have distinct ids and are rows of the database, and the triggers make \<open>g r\<close> of each
  patched row \<open>r\<close>, whatever else the batch has written.
\<close>

definition batch_ok :: "session \<Rightarrow> ReservationPatch \<Rightarrow> (ReservationRow \<Rightarrow> ReservationRow) \<Rightarrow> db \<Rightarrow> ReservationRow list \<Rightarrow> bool" where
  "batch_ok cx p g d rows \<longleftrightarrow> distinct (map r_id rows) \<and> set rows \<subseteq> set (reservations d)
     \<and> (\<forall>r\<in>set rows. visible cx (r_venue r) \<and> r_id (g r) = r_id r
         \<and> (\<forall>d'. shape_ok d' \<longrightarrow> r \<in> set (reservations d') \<longrightarrow> judge_update cx d' r (apply_patch p r) = Inr (g r)))"

definition replace_rows :: "(ReservationRow \<Rightarrow> ReservationRow) \<Rightarrow> ReservationRow list \<Rightarrow> ReservationRow list \<Rightarrow> ReservationRow list" where
  "replace_rows g rows rs = map (\<lambda>r. if r_id r \<in> r_id ` set rows then g r else r) rs"

lemma batch_step:
  assumes I: "inv T {} d" and now: "cx_now cx \<le> T" and b: "batch_ok cx p g d (r # rows)"
  shows "update_reservation cx (r_id r) (\<lambda>_. True) p d = Inr (Some (g r), write_reservation cx r (g r) d)"
    "inv T {} (write_reservation cx r (g r) d)" "batch_ok cx p g (write_reservation cx r (g r) d) rows"
proof -
  have r: "r \<in> set (reservations d)" "visible cx (r_venue r)" "r_id (g r) = r_id r" "r_id r \<notin> r_id ` set rows"
    and j: "judge_update cx d r (apply_patch p r) = Inr (g r)"
    using b I by (auto simp: batch_ok_def inv_def)
  have f: "find_reservation cx d (r_id r) = Some r" using find_reservation_by_id [of d r cx] I r by (simp add: inv_def)
  show "update_reservation cx (r_id r) (\<lambda>_. True) p d = Inr (Some (g r), write_reservation cx r (g r) d)"
    by (simp add: update_reservation_def f j)
  have "legal_update T {} cx d r p (g r)" using I now r(1) j by (simp add: legal_update_def)
  then show "inv T {} (write_reservation cx r (g r) d)" by (rule inv_write_reservation)
  have "s \<in> set (reservations (write_reservation cx r (g r) d))" if "s \<in> set rows" for s
  proof -
    have "s \<in> set (reservations d)" "r_id s \<noteq> r_id (g r)" using that b r(3,4) by (auto simp: batch_ok_def image_iff)
    then show ?thesis by (force simp: write_reservation_sel)
  qed
  then show "batch_ok cx p g (write_reservation cx r (g r) d) rows" using b unfolding batch_ok_def by auto
qed

lemma update_each_eq:
  assumes "inv T {} d" and "cx_now cx \<le> T" and "batch_ok cx p g d rows"
  shows "\<exists>d'. update_each cx p rows d = Inr (map g rows, d') \<and> reservations d' = replace_rows g rows (reservations d)
    \<and> set (deferred d') \<subseteq> set (deferred d) \<union> r_id ` set rows \<and> outbox d' = outbox d \<and> outbox_seq d' = outbox_seq d
    \<and> idempotency d' = idempotency d \<and> venues d' = venues d \<and> units d' = units d \<and> combos d' = combos d
    \<and> blackouts d' = blackouts d \<and> schedules d' = schedules d
    \<and> (\<forall>k. k \<notin> r_id ` set rows \<longrightarrow> rows_of d' k = rows_of d k)"
proof -
  have "\<exists>d'. tfor (\<lambda>r. update_reservation cx (r_id r) (\<lambda>_. True) p) rows d = Inr (map (\<lambda>r. Some (g r)) rows, d')
    \<and> reservations d' = replace_rows g rows (reservations d)
    \<and> set (deferred d') \<subseteq> set (deferred d) \<union> r_id ` set rows \<and> outbox d' = outbox d \<and> outbox_seq d' = outbox_seq d
    \<and> idempotency d' = idempotency d \<and> venues d' = venues d \<and> units d' = units d \<and> combos d' = combos d
    \<and> blackouts d' = blackouts d \<and> schedules d' = schedules d
    \<and> (\<forall>k. k \<notin> r_id ` set rows \<longrightarrow> rows_of d' k = rows_of d k)"
    using assms(1,3)
  proof (induction rows arbitrary: d)
    case Nil
    then show ?case by (simp add: tx_eqs replace_rows_def)
  next
    case (Cons r rows)
    let ?d1 = "write_reservation cx r (g r) d"
    note st = batch_step [OF Cons.prems(1) assms(2) Cons.prems(2)]
    from Cons.IH [OF st(2,3)] obtain d' where IH: "tfor (\<lambda>r. update_reservation cx (r_id r) (\<lambda>_. True) p) rows ?d1 = Inr (map (\<lambda>r. Some (g r)) rows, d')"
      "reservations d' = replace_rows g rows (reservations ?d1)" "set (deferred d') \<subseteq> set (deferred ?d1) \<union> r_id ` set rows"
      "outbox d' = outbox ?d1" "outbox_seq d' = outbox_seq ?d1" "idempotency d' = idempotency ?d1" "venues d' = venues ?d1"
      "units d' = units ?d1" "combos d' = combos ?d1" "blackouts d' = blackouts ?d1" "schedules d' = schedules ?d1"
      "\<forall>k. k \<notin> r_id ` set rows \<longrightarrow> rows_of d' k = rows_of ?d1 k" by blast
    have gr: "r_id (g r) = r_id r" "r_id r \<notin> r_id ` set rows" "r \<in> set (reservations d)" using Cons.prems(2) by (auto simp: batch_ok_def)
    have u: "x = r" if "x \<in> set (reservations d)" "r_id x = r_id r" for x
      using Cons.prems(1) distinct_key_eq [of r_id "reservations d" x r] that gr(3) by (simp add: inv_def ids_ok_def)
    have "reservations d' = replace_rows g (r # rows) (reservations d)"
      using gr u by (auto simp: IH(2) replace_rows_def write_reservation_sel)
    moreover have "rows_of ?d1 k = rows_of d k" if "k \<noteq> r_id r" for k
      using rows_of_write_other [of k "g r"] that gr(1) by simp
    moreover have "set (deferred d') \<subseteq> set (deferred d) \<union> r_id ` set (r # rows)"
      using IH(3) deferred_write [of cx r "g r" d] by (auto simp: gr)
    ultimately show ?case using st(1) IH gr
      by (intro exI [of _ d']) (simp add: tbind_def tx_eqs write_reservation_sel)
  qed
  then show ?thesis by (auto simp: update_each_def tbind_def tx_eqs map_filter_def comp_def)
qed

text \<open>The three statements and the commit.\<close>

definition write_batch :: "session \<Rightarrow> ReservationPatch \<Rightarrow> (ReservationRow \<Rightarrow> string) \<Rightarrow> string \<Rightarrow> ReservationRow list \<Rightarrow> ReservationRow list tx" where
  "write_batch cx p venue topic rows = tbind (update_each cx p rows) (\<lambda>upd.
     tthen (enqueue_each venue topic upd) (tret upd))"

lemma preserves_write_batch [preserved]: "cx_now cx \<le> T \<Longrightarrow> preserves (inv T X) (write_batch cx p v t rows)"
  unfolding write_batch_def by (intro preserved)

lemma write_batch_eq:
  assumes I: "inv T {} d" and now: "cx_now cx \<le> T" and b: "batch_ok cx p g d rows"
  shows "\<exists>d'. write_batch cx p v t rows d = Inr (map g rows, d') \<and> inv T {} d' \<and> reservations d' = replace_rows g rows (reservations d)
    \<and> set (deferred d') \<subseteq> set (deferred d) \<union> r_id ` set rows \<and> map o_payload (outbox d') = map o_payload (outbox d) @ map (\<lambda>r. reservationPayload (g r)) rows
    \<and> idempotency d' = idempotency d \<and> venues d' = venues d \<and> units d' = units d \<and> combos d' = combos d
    \<and> blackouts d' = blackouts d \<and> schedules d' = schedules d
    \<and> (\<forall>k. k \<notin> r_id ` set rows \<longrightarrow> rows_of d' k = rows_of d k)"
proof -
  from update_each_eq [OF assms] obtain d1 where u: "update_each cx p rows d = Inr (map g rows, d1)"
    "reservations d1 = replace_rows g rows (reservations d)" "set (deferred d1) \<subseteq> set (deferred d) \<union> r_id ` set rows"
    "outbox d1 = outbox d" "outbox_seq d1 = outbox_seq d" "idempotency d1 = idempotency d" "venues d1 = venues d"
    "units d1 = units d" "combos d1 = combos d" "blackouts d1 = blackouts d" "schedules d1 = schedules d"
    "\<forall>k. k \<notin> r_id ` set rows \<longrightarrow> rows_of d1 k = rows_of d k" by blast
  define d2 where "d2 = d1\<lparr>outbox := outbox d1 @ map (\<lambda>(n, r). \<lparr>o_id = n, o_venue = v r, o_topic = t,
      o_payload = reservationPayload r, o_published_at = None, o_dead_lettered_at = None\<rparr>)
        (zip [outbox_seq d1..<outbox_seq d1 + length (map g rows)] (map g rows)),
    outbox_seq := outbox_seq d1 + length (map g rows)\<rparr>"
  obtain ids where e: "enqueue_each v t (map g rows) d1 = Inr (ids, d2)"
    using enqueue_each_eq [of v t "map g rows" d1] unfolding d2_def by blast
  have w: "write_batch cx p v t rows d = Inr (map g rows, d2)"
    by (simp add: write_batch_def tbind_def tthen_def u(1) e tx_eqs)
  have I2: "inv T {} d2" by (rule preservesD [OF preserves_write_batch [OF now] I w])
  have snds: "map (\<lambda>x. reservationPayload (snd x)) (zip [m..<m + length rs] rs) = map reservationPayload rs" for m :: nat and rs
    by (rule nth_equalityI) simp_all
  have pay: "map o_payload (outbox d2) = map o_payload (outbox d) @ map (\<lambda>r. reservationPayload (g r)) rows"
    using snds [of "outbox_seq d1" "map g rows"]
    by (simp add: d2_def u(4) o_def split_beta del: upt_Suc)
  have s: "reservations d2 = reservations d1" "deferred d2 = deferred d1" "idempotency d2 = idempotency d1" "venues d2 = venues d1"
    "units d2 = units d1" "combos d2 = combos d1" "blackouts d2 = blackouts d1" "schedules d2 = schedules d1" "rows_of d2 = rows_of d1"
    by (simp_all add: d2_def rows_of_def fun_eq_iff)
  show ?thesis
    using w I2 pay u(2,3,6-) by (intro exI [of _ d2]) (simp only: s simp_thms)
qed

lemma batch_commits:
  assumes "inv T {} d'" and "reservations d' = replace_rows g rows (reservations d)" and "set (deferred d') \<subseteq> r_id ` set rows"
    and "batch_ok cx p g d rows"
  shows "commit d' = Inr ((), d'\<lparr>deferred := []\<rparr>)"
proof (rule commit_ok [OF assms(1)])
  have "r_id r \<in> r_id ` set (reservations d')" if "r \<in> set rows" for r
  proof -
    from that assms(4) have r: "r \<in> set (reservations d)" "r_id (g r) = r_id r" by (auto simp: batch_ok_def)
    then have "g r \<in> set (reservations d')" using that by (auto simp: assms(2) replace_rows_def image_iff)
    with r(2) show ?thesis by (metis image_eqI)
  qed
  with assms(3) show "set (deferred d') \<subseteq> r_id ` set (reservations d')" by blast
qed

end
