(* ===== verification/CmdWorker.thy ===== *)
theory CmdWorker
  imports DbBatch
begin

text \<open>
  The two jobs of the worker, on the role that bypasses row-level security:
  \<open>packages/db/src/commands/expire.ts\<close> and \<open>retention.ts\<close>. \<open>locked\<close> says which rows another transaction
  holds when the batch reads them (\<open>for update skip locked\<close> leaves those), \<open>bound\<close> is
  \<open>row_security_active\<close> for the connected role.
\<close>

section \<open>expireDue\<close>

definition sweeper_session :: "instant \<Rightarrow> session" where
  "sweeper_session now = \<lparr>cx_actor = ''system:sweeper'', cx_trace = ''sweeper'', cx_venue = None, cx_now = now, cx_bypass = True\<rparr>"

definition due :: "instant \<Rightarrow> ReservationRow \<Rightarrow> bool" where
  "due now r \<longleftrightarrow> r_status r = Held \<and> r_hold_expires_at r \<le> now"

definition due_holds :: "instant \<Rightarrow> (string \<Rightarrow> bool) \<Rightarrow> nat \<Rightarrow> db \<Rightarrow> ReservationRow list" where
  "due_holds now locked limit d =
     take limit (filter (\<lambda>r. \<not> locked (r_id r)) (sort_key r_hold_expires_at (filter (due now) (reservations d))))"

definition expire_tx :: "instant \<Rightarrow> (string \<Rightarrow> bool) \<Rightarrow> nat \<Rightarrow> string list tx" where
  "expire_tx now locked limit = (let cx = sweeper_session now in
     tbind (tget (due_holds now locked limit)) (\<lambda>rows.
     tbind (write_batch cx (patch_status Expired) r_venue ''reservation.expired'' rows) (\<lambda>upd.
     tthen commit (tret (map r_id upd)))))"

definition expireDue :: "bool \<Rightarrow> instant \<Rightarrow> (string \<Rightarrow> bool) \<Rightarrow> nat \<Rightarrow> db \<Rightarrow> DastarError + (string list \<times> db)" where
  "expireDue bound now locked limit d =
     (if bound then Inl (dastar_error Forbidden ''expireDue needs a role that bypasses row-level security, such as dastar_worker'')
      else in_transaction (expire_tx now locked limit) d)"

definition expireDue_default_limit :: nat where "expireDue_default_limit = 20"

section \<open>purgeRetained\<close>

definition PUBLISHED_OUTBOX_RETENTION_DAYS :: int where "PUBLISHED_OUTBOX_RETENTION_DAYS = 7"

definition due_keys :: "instant \<Rightarrow> (IdempotencyRow \<Rightarrow> bool) \<Rightarrow> nat \<Rightarrow> db \<Rightarrow> IdempotencyRow list" where
  "due_keys now locked limit d =
     take limit (filter (\<lambda>i. \<not> locked i) (sort_key i_purge_at (filter (\<lambda>i. i_purge_at i \<le> now) (idempotency d))))"

definition same_key :: "IdempotencyRow \<Rightarrow> IdempotencyRow \<Rightarrow> bool" where
  "same_key a b \<longleftrightarrow> i_venue a = i_venue b \<and> i_actor a = i_actor b \<and> i_key a = i_key b"

definition published_before :: "instant \<Rightarrow> OutboxRow \<Rightarrow> bool" where
  "published_before t o' \<longleftrightarrow> o_dead_lettered_at o' = None \<and> (case o_published_at o' of None \<Rightarrow> False | Some p \<Rightarrow> p \<le> t)"

definition done_events :: "instant \<Rightarrow> (nat \<Rightarrow> bool) \<Rightarrow> nat \<Rightarrow> db \<Rightarrow> OutboxRow list" where
  "done_events now locked limit d =
     take limit (filter (\<lambda>e. \<not> locked (o_id e)) (sort_key (\<lambda>e. the (o_published_at e))
       (filter (published_before (now - PUBLISHED_OUTBOX_RETENTION_DAYS * 24 * 3600000)) (outbox d))))"

text \<open>The two deletes, each with its row count.\<close>

definition delete_keys :: "IdempotencyRow list \<Rightarrow> nat tx" where
  "delete_keys rows d = (let kept = filter (\<lambda>i. \<not> list_ex (same_key i) rows) (idempotency d) in
     Inr (length (idempotency d) - length kept, d\<lparr>idempotency := kept\<rparr>))"

definition delete_events :: "OutboxRow list \<Rightarrow> nat tx" where
  "delete_events rows d = (let kept = filter (\<lambda>e. o_id e \<notin> o_id ` set rows) (outbox d) in
     Inr (length (outbox d) - length kept, d\<lparr>outbox := kept\<rparr>))"

definition purge_tx :: "instant \<Rightarrow> (IdempotencyRow \<Rightarrow> bool) \<Rightarrow> (nat \<Rightarrow> bool) \<Rightarrow> nat \<Rightarrow> (nat \<times> nat) tx" where
  "purge_tx now locked_key locked_event limit =
     tbind (tget (due_keys now locked_key limit)) (\<lambda>keys.
     tbind (delete_keys keys) (\<lambda>n.
     tbind (tget (done_events now locked_event limit)) (\<lambda>events.
     tbind (delete_events events) (\<lambda>m.
     tthen commit (tret (n, m))))))"

definition purgeRetained :: "bool \<Rightarrow> instant \<Rightarrow> (IdempotencyRow \<Rightarrow> bool) \<Rightarrow> (nat \<Rightarrow> bool) \<Rightarrow> nat \<Rightarrow> db \<Rightarrow> DastarError + ((nat \<times> nat) \<times> db)" where
  "purgeRetained bound now locked_key locked_event limit d =
     (if bound then Inl (dastar_error Forbidden ''purgeRetained needs a role that bypasses row-level security, such as dastar_worker'')
      else in_transaction (purge_tx now locked_key locked_event limit) d)"

section \<open>They keep the invariants\<close>

lemma sweeper_session_sel [simp]:
  "cx_now (sweeper_session now) = now" "cx_bypass (sweeper_session now) = True" "cx_actor (sweeper_session now) = ''system:sweeper''"
  by (simp_all add: sweeper_session_def)

lemma preserves_expire: "now \<le> T \<Longrightarrow> preserves (inv T {}) (expire_tx now locked limit)"
  unfolding expire_tx_def Let_def by (intro preserved) simp

lemma preserves_delete [preserved]: "preserves (inv T X) (delete_keys keys)" "preserves (inv T X) (delete_events events)"
  by (auto simp: preserves_def delete_keys_def delete_events_def Let_def)

lemma preserves_purge: "preserves (inv T {}) (purge_tx now lk le limit)"
  unfolding purge_tx_def by (intro preserved)

section \<open>What a sweep writes\<close>

definition expired_row :: "ReservationRow \<Rightarrow> ReservationRow" where
  "expired_row old = old\<lparr>r_status := Expired, r_token_hash := None, r_version := r_version old + 1\<rparr>"

lemma judge_expire:
  assumes "shape_ok d" and "old \<in> set (reservations d)" and "due (cx_now cx) old" and "cx_actor cx \<noteq> []"
  shows "judge_update cx d old (apply_patch (patch_status Expired) old) = Inr (expired_row old)"
proof -
  define n where "n = old\<lparr>r_status := Expired, r_token_hash := None\<rparr>"
  have can: "status_text Held @ ''>'' @ status_text Expired \<in> set allowed_pairs" unfolding allowed_pairs_iff by simp
  have t: "trg_transition (cx_now cx) old (apply_patch (patch_status Expired) old) = Inr n"
    using can assms(3)
    by (simp add: trg_transition_def Let_def apply_patch_def patch_status_def rbind_throw_if n_def due_def del: append.simps append_Cons)
  have "judge_update cx d old (apply_patch (patch_status Expired) old) = Inr (trg_version old n)"
    by (rule judge_same_assignment) (use t assms in \<open>auto simp: n_def shape_ok_def\<close>)
  then show ?thesis by (simp add: trg_version_def n_def expired_row_def)
qed

lemma distinct_sorted_filter:
  assumes "distinct (map f xs)"
  shows "distinct (map f (take n (filter P (sort_key k (filter Q xs)))))"
proof -
  have "distinct (map f (filter Q xs))" using assms by (rule distinct_map_filter)
  then have "distinct (map f (sort_key k (filter Q xs)))" by (simp add: distinct_map)
  then have "distinct (map f (filter P (sort_key k (filter Q xs))))" by (rule distinct_map_filter)
  then show ?thesis by (simp add: take_map [symmetric])
qed

lemma due_batch:
  assumes "inv T {} d"
  shows "batch_ok (sweeper_session now) (patch_status Expired) expired_row d (due_holds now locked limit d)"
proof -
  have "distinct (map r_id (reservations d))" using assms by (simp add: inv_def ids_ok_def)
  then have "distinct (map r_id (due_holds now locked limit d))" unfolding due_holds_def by (rule distinct_sorted_filter)
  moreover have "r \<in> set (reservations d) \<and> due now r" if "r \<in> set (due_holds now locked limit d)" for r
    using in_set_takeD [OF that [unfolded due_holds_def]] by simp
  ultimately show ?thesis
    using judge_expire [of _ _ "sweeper_session now"] by (auto simp: batch_ok_def visible_def expired_row_def)
qed

lemma expireDue_eq:
  assumes "inv T {} d" and "now \<le> T" and "deferred d = []"
  shows "\<exists>d'. expireDue False now locked limit d = Inr (map r_id (due_holds now locked limit d), d') \<and> inv T {} d'
    \<and> reservations d' = replace_rows expired_row (due_holds now locked limit d) (reservations d) \<and> deferred d' = []
    \<and> map o_payload (outbox d') = map o_payload (outbox d) @ map (\<lambda>r. reservationPayload (expired_row r)) (due_holds now locked limit d)
    \<and> idempotency d' = idempotency d \<and> venues d' = venues d \<and> units d' = units d \<and> combos d' = combos d
    \<and> blackouts d' = blackouts d \<and> schedules d' = schedules d
    \<and> (\<forall>k. k \<notin> r_id ` set (due_holds now locked limit d) \<longrightarrow> rows_of d' k = rows_of d k)"
proof -
  let ?rows = "due_holds now locked limit d"
  note b = due_batch [OF assms(1), of now locked limit]
  from write_batch_eq [OF assms(1) _ b, of r_venue "''reservation.expired''"] assms(2,3) obtain d1 where
    w: "write_batch (sweeper_session now) (patch_status Expired) r_venue ''reservation.expired'' ?rows d = Inr (map expired_row ?rows, d1)"
      "inv T {} d1" "reservations d1 = replace_rows expired_row ?rows (reservations d)" "set (deferred d1) \<subseteq> r_id ` set ?rows"
      "map o_payload (outbox d1) = map o_payload (outbox d) @ map (\<lambda>r. reservationPayload (expired_row r)) ?rows"
      "idempotency d1 = idempotency d" "venues d1 = venues d" "units d1 = units d" "combos d1 = combos d"
      "blackouts d1 = blackouts d" "schedules d1 = schedules d" "\<forall>k. k \<notin> r_id ` set ?rows \<longrightarrow> rows_of d1 k = rows_of d k"
    by auto
  have c: "commit d1 = Inr ((), d1\<lparr>deferred := []\<rparr>)" by (rule batch_commits [OF w(2,3,4) b])
  have r: "rows_of (d1\<lparr>deferred := []\<rparr>) = rows_of d1" by (simp add: rows_of_def fun_eq_iff)
  have ids: "map r_id (map expired_row ?rows) = map r_id ?rows" by (simp add: expired_row_def)
  have x: "expireDue False now locked limit d = Inr (map r_id ?rows, d1\<lparr>deferred := []\<rparr>)"
    by (simp add: expireDue_def in_transaction_def expire_tx_def Let_def tbind_def tthen_def tx_eqs w(1) c ids [unfolded map_map])
  have "inv T {} (d1\<lparr>deferred := []\<rparr>)" using w(2) by simp
  then show ?thesis using x w by (intro exI [of _ "d1\<lparr>deferred := []\<rparr>"]) (simp add: r)
qed

end
