(* ===== verification/Worker.thy ===== *)
theory Worker
  imports CmdWorker JsNumber
begin

text \<open>
  \<open>packages/worker/src\<close>: the sweeper loop, the retention loop and the worker's configuration. A tick takes
  batches in a row; what the outside world does to the n-th batch of a tick (its clock, the rows other
  transactions hold, a failure, a stop or a pause that arrives while it runs) is a parameter of the tick.
\<close>

section \<open>The batches of one tick\<close>

text \<open>
  The loop \<open>startSweeper\<close> and \<open>startRetention\<close> share: batches are taken and counted until one fails or
  \<open>goes_on\<close> says no. It may run forever, so it is partial; \<open>None\<close> is not returning. The result is the number of batches,
  the counters and the database.
\<close>

partial_function (option) batch_loop ::
  "(nat \<Rightarrow> 'd \<Rightarrow> 'e + ('b \<times> 'd)) \<Rightarrow> (nat \<Rightarrow> 'b \<Rightarrow> bool) \<Rightarrow> ('b \<Rightarrow> 's \<Rightarrow> 's) \<Rightarrow> ('s \<Rightarrow> 's) \<Rightarrow> nat \<Rightarrow> 's \<Rightarrow> 'd \<Rightarrow> (nat \<times> 's \<times> 'd) option" where
  "batch_loop take_batch goes_on tally failed n s d = (case take_batch n d of
      Inl e \<Rightarrow> Some (n, failed s, d)
    | Inr bd \<Rightarrow> (if goes_on n (fst bd) then batch_loop take_batch goes_on tally failed (Suc n) (tally (fst bd) s) (snd bd)
        else Some (Suc n, tally (fst bd) s, snd bd)))"

text \<open>
  What makes the loop end: each batch keeps \<open>ready\<close>, and a batch after which the loop goes on has used up
  some of a measure of the database.
\<close>

locale batches =
  fixes take_batch :: "nat \<Rightarrow> 'd \<Rightarrow> 'e + ('b \<times> 'd)" and goes_on :: "nat \<Rightarrow> 'b \<Rightarrow> bool"
    and ready :: "'d \<Rightarrow> bool" and left :: "'d \<Rightarrow> nat"
  assumes keeps_ready: "ready d \<Longrightarrow> take_batch n d = Inr (b, d') \<Longrightarrow> ready d'"
    and uses_up: "ready d \<Longrightarrow> take_batch n d = Inr (b, d') \<Longrightarrow> goes_on n b \<Longrightarrow> left d' < left d"
begin

lemma loop_returns:
  "ready d \<Longrightarrow> \<exists>k s' d'. batch_loop take_batch goes_on tally failed n s d = Some (k, s', d') \<and> ready d' \<and> k \<le> n + left d + 1
     \<and> ((\<exists>m e. k = m \<and> take_batch m d' = Inl e) \<or> (\<exists>m b e. k = Suc m \<and> take_batch m e = Inr (b, d') \<and> ready e \<and> \<not> goes_on m b))"
proof (induction "left d" arbitrary: n s d rule: less_induct)
  case less
  show ?case
  proof (cases "take_batch n d")
    case (Inl e)
    then show ?thesis using less.prems by (subst batch_loop.simps) auto
  next
    case (Inr bd)
    obtain b d1 where bd: "take_batch n d = Inr (b, d1)" using Inr by (cases bd) auto
    have r: "ready d1" by (rule keeps_ready [OF less.prems bd])
    show ?thesis
    proof (cases "goes_on n b")
      case True
      have lt: "left d1 < left d" by (rule uses_up [OF less.prems bd True])
      from less.hyps [OF lt r, of "Suc n" "tally b s"] obtain k s' d' where
        "batch_loop take_batch goes_on tally failed (Suc n) (tally b s) d1 = Some (k, s', d')" "ready d'" "k \<le> Suc n + left d1 + 1"
        "(\<exists>m e. k = m \<and> take_batch m d' = Inl e) \<or> (\<exists>m b e. k = Suc m \<and> take_batch m e = Inr (b, d') \<and> ready e \<and> \<not> goes_on m b)" by blast
      then show ?thesis using lt by (subst batch_loop.simps) (simp add: bd True)
    next
      case False
      then show ?thesis using r less.prems bd by (subst batch_loop.simps) auto
    qed
  qed
qed

lemma loop_invariant:
  assumes step: "\<And>n s d b d'. ready d \<Longrightarrow> J s d \<Longrightarrow> take_batch n d = Inr (b, d') \<Longrightarrow> J (tally b s) d'"
    and fail: "\<And>s d. J s d \<Longrightarrow> J (failed s) d"
  shows "ready d \<Longrightarrow> J s d \<Longrightarrow> batch_loop take_batch goes_on tally failed n s d = Some (k, s', d') \<Longrightarrow> J s' d'"
proof (induction "left d" arbitrary: n s d rule: less_induct)
  case less
  show ?case
  proof (cases "take_batch n d")
    case (Inl e)
    then have "s' = failed s" "d' = d" using less.prems(3) by (subst (asm) batch_loop.simps, simp)+
    with fail less.prems(2) show ?thesis by simp
  next
    case (Inr bd)
    obtain b d1 where bd: "take_batch n d = Inr (b, d1)" using Inr by (cases bd) auto
    have r: "ready d1" and j: "J (tally b s) d1" using keeps_ready [OF less.prems(1) bd] step [OF less.prems(1,2) bd] by blast+
    show ?thesis
    proof (cases "goes_on n b")
      case True
      from less.prems(3) have "batch_loop take_batch goes_on tally failed (Suc n) (tally b s) d1 = Some (k, s', d')"
        by (subst (asm) batch_loop.simps) (simp add: bd True)
      with less.hyps [OF uses_up [OF less.prems(1) bd True] r j] show ?thesis by blast
    next
      case False
      from less.prems(3) have "s' = tally b s" "d' = d1" by (subst (asm) batch_loop.simps, simp add: bd False)+
      with j show ?thesis by simp
    qed
  qed
qed

end

section \<open>The sweeper\<close>

record SweepConfig =
  sc_everyMs :: int
  sc_limit :: nat
  sc_drain :: bool

definition DESIGN_SWEEP :: SweepConfig where
  "DESIGN_SWEEP = \<lparr>sc_everyMs = 5000, sc_limit = 20, sc_drain = True\<rparr>"

record SweepStats =
  ss_ticks :: nat
  ss_batches :: nat
  ss_expired :: nat
  ss_errors :: nat
  ss_maxBatchesInTick :: nat

definition sweep_stats_start :: SweepStats where
  "sweep_stats_start = \<lparr>ss_ticks = 0, ss_batches = 0, ss_expired = 0, ss_errors = 0, ss_maxBatchesInTick = 0\<rparr>"

text \<open>The world of one tick: \<open>w_halt n\<close> is \<open>stopped || paused()\<close> as read after batch \<open>n\<close>.\<close>

record sweep_world =
  w_now :: "nat \<Rightarrow> instant"
  w_locked :: "nat \<Rightarrow> string \<Rightarrow> bool"
  w_fault :: "nat \<Rightarrow> DastarError option"
  w_halt :: "nat \<Rightarrow> bool"
  w_paused :: bool

definition sweep_batch :: "sweep_world \<Rightarrow> SweepConfig \<Rightarrow> nat \<Rightarrow> db \<Rightarrow> DastarError + (string list \<times> db)" where
  "sweep_batch w cfg n d = (case w_fault w n of
      Some e \<Rightarrow> Inl e
    | None \<Rightarrow> expireDue False (w_now w n) (w_locked w n) (sc_limit cfg) d)"

text \<open>\<open>if (!config.drain || batch.expired.length < config.limit || stopped || paused()) break\<close>.\<close>

definition sweep_more :: "sweep_world \<Rightarrow> SweepConfig \<Rightarrow> nat \<Rightarrow> string list \<Rightarrow> bool" where
  "sweep_more w cfg n expired \<longleftrightarrow> \<not> (\<not> sc_drain cfg \<or> length expired < sc_limit cfg \<or> w_halt w n)"

definition sweep_tally :: "string list \<Rightarrow> SweepStats \<Rightarrow> SweepStats" where
  "sweep_tally expired s = s\<lparr>ss_batches := ss_batches s + 1, ss_expired := ss_expired s + length expired\<rparr>"

definition sweep_failed :: "SweepStats \<Rightarrow> SweepStats" where
  "sweep_failed s = s\<lparr>ss_errors := ss_errors s + 1\<rparr>"

definition sweep_tick :: "SweepConfig \<Rightarrow> sweep_world \<Rightarrow> SweepStats \<times> db \<Rightarrow> (SweepStats \<times> db) option" where
  "sweep_tick cfg w sd = (if w_paused w then Some sd
     else map_option (\<lambda>(n, s, d). (s\<lparr>ss_maxBatchesInTick := max (ss_maxBatchesInTick s) n\<rparr>, d))
       (batch_loop (sweep_batch w cfg) (sweep_more w cfg) sweep_tally sweep_failed 0
          ((fst sd)\<lparr>ss_ticks := ss_ticks (fst sd) + 1\<rparr>) (snd sd)))"

text \<open>\<open>while (!stopped)\<close>: the worlds of the ticks until \<open>stop()\<close>; between two ticks the loop only waits.\<close>

fun startSweeper :: "SweepConfig \<Rightarrow> sweep_world list \<Rightarrow> SweepStats \<times> db \<Rightarrow> (SweepStats \<times> db) option" where
  "startSweeper cfg [] sd = Some sd"
| "startSweeper cfg (w # ws) sd = (case sweep_tick cfg w sd of None \<Rightarrow> None | Some sd' \<Rightarrow> startSweeper cfg ws sd')"

section \<open>Retention\<close>

record RetentionConfig =
  rt_everyMs :: int
  rt_limit :: nat
  rt_drain :: bool

definition DESIGN_RETENTION :: RetentionConfig where
  "DESIGN_RETENTION = \<lparr>rt_everyMs = 60000, rt_limit = 500, rt_drain = True\<rparr>"

record RetentionStats =
  rs_ticks :: nat
  rs_batches :: nat
  rs_idempotency :: nat
  rs_outbox :: nat
  rs_errors :: nat
  rs_maxBatchesInTick :: nat

record retention_world =
  rw_now :: "nat \<Rightarrow> instant"
  rw_locked_key :: "nat \<Rightarrow> IdempotencyRow \<Rightarrow> bool"
  rw_locked_event :: "nat \<Rightarrow> nat \<Rightarrow> bool"
  rw_fault :: "nat \<Rightarrow> DastarError option"
  rw_halt :: "nat \<Rightarrow> bool"
  rw_paused :: bool

definition retention_batch :: "retention_world \<Rightarrow> RetentionConfig \<Rightarrow> nat \<Rightarrow> db \<Rightarrow> DastarError + ((nat \<times> nat) \<times> db)" where
  "retention_batch w cfg n d = (case rw_fault w n of
      Some e \<Rightarrow> Inl e
    | None \<Rightarrow> purgeRetained False (rw_now w n) (rw_locked_key w n) (rw_locked_event w n) (rt_limit cfg) d)"

definition retention_more :: "retention_world \<Rightarrow> RetentionConfig \<Rightarrow> nat \<Rightarrow> nat \<times> nat \<Rightarrow> bool" where
  "retention_more w cfg n b \<longleftrightarrow> \<not> (\<not> rt_drain cfg \<or> (fst b < rt_limit cfg \<and> snd b < rt_limit cfg) \<or> rw_halt w n)"

definition retention_tally :: "nat \<times> nat \<Rightarrow> RetentionStats \<Rightarrow> RetentionStats" where
  "retention_tally b s = s\<lparr>rs_batches := rs_batches s + 1, rs_idempotency := rs_idempotency s + fst b, rs_outbox := rs_outbox s + snd b\<rparr>"

definition retention_failed :: "RetentionStats \<Rightarrow> RetentionStats" where
  "retention_failed s = s\<lparr>rs_errors := rs_errors s + 1\<rparr>"

definition retention_tick :: "RetentionConfig \<Rightarrow> retention_world \<Rightarrow> RetentionStats \<times> db \<Rightarrow> (RetentionStats \<times> db) option" where
  "retention_tick cfg w sd = (if rw_paused w then Some sd
     else map_option (\<lambda>(n, s, d). (s\<lparr>rs_maxBatchesInTick := max (rs_maxBatchesInTick s) n\<rparr>, d))
       (batch_loop (retention_batch w cfg) (retention_more w cfg) retention_tally retention_failed 0
          ((fst sd)\<lparr>rs_ticks := rs_ticks (fst sd) + 1\<rparr>) (snd sd)))"


fun startRetention :: "RetentionConfig \<Rightarrow> retention_world list \<Rightarrow> RetentionStats \<times> db \<Rightarrow> (RetentionStats \<times> db) option" where
  "startRetention cfg [] sd = Some sd"
| "startRetention cfg (w # ws) sd = (case retention_tick cfg w sd of None \<Rightarrow> None | Some sd' \<Rightarrow> startRetention cfg ws sd')"

section \<open>The configuration\<close>

record WorkerConfig =
  wc_databaseUrl :: string
  wc_sweep :: SweepConfig
  wc_retention :: RetentionConfig
  wc_poolMax :: int

text \<open>The helper \<open>int\<close> of \<open>parseWorkerConfig\<close>; the message quotes the value as JSON.\<close>

definition env_int :: "(string \<Rightarrow> string option) \<Rightarrow> string \<Rightarrow> int \<Rightarrow> string + int" where
  "env_int env name fallback = (case env name of
      None \<Rightarrow> Inr fallback
    | Some raw \<Rightarrow> if raw = [] then Inr fallback
        else (case js_integer (js_Number raw) of
            None \<Rightarrow> Inl (name @ '' must be a positive integer, got '' @ json_string raw)
          | Some v \<Rightarrow> if v < 1 then Inl (name @ '' must be a positive integer, got '' @ json_string raw) else Inr v))"

definition parseWorkerConfig :: "(string \<Rightarrow> string option) \<Rightarrow> string + WorkerConfig" where
  "parseWorkerConfig env = (case env ''DATABASE_URL'' of
      None \<Rightarrow> Inl ''DATABASE_URL is required''
    | Some url \<Rightarrow> if url = [] then Inl ''DATABASE_URL is required''
        else rbind (env_int env ''SWEEP_EVERY_MS'' (sc_everyMs DESIGN_SWEEP)) (\<lambda>se.
             rbind (env_int env ''SWEEP_LIMIT'' (int (sc_limit DESIGN_SWEEP))) (\<lambda>sl.
             rbind (env_int env ''RETENTION_EVERY_MS'' (rt_everyMs DESIGN_RETENTION)) (\<lambda>re.
             rbind (env_int env ''RETENTION_LIMIT'' (int (rt_limit DESIGN_RETENTION))) (\<lambda>rl.
             rbind (env_int env ''POOL_MAX'' 2) (\<lambda>pm.
             Inr \<lparr>wc_databaseUrl = url,
               wc_sweep = \<lparr>sc_everyMs = se, sc_limit = nat sl, sc_drain = sc_drain DESIGN_SWEEP\<rparr>,
               wc_retention = \<lparr>rt_everyMs = re, rt_limit = nat rl, rt_drain = rt_drain DESIGN_RETENTION\<rparr>,
               wc_poolMax = pm\<rparr>))))))"

end
