(* ===== verification/WorkerProperties.thy ===== *)
theory WorkerProperties
  imports Worker LifecycleProperties
begin

text \<open>
  The properties of the worker's two jobs: what a sweep expires and what retention deletes, that every
  tick returns, that a tick leaves nothing due, and what configuration is accepted.
\<close>

section \<open>The sweeper as a batch loop\<close>

definition held_count :: "db \<Rightarrow> nat" where
  "held_count d = length (filter (\<lambda>r. r_status r = Held) (reservations d))"

definition sweep_ready :: "sweep_world \<Rightarrow> SweepConfig \<Rightarrow> instant \<Rightarrow> db \<Rightarrow> bool" where
  "sweep_ready w cfg T d \<longleftrightarrow> 1 \<le> sc_limit cfg \<and> (\<forall>n. w_now w n \<le> T) \<and> inv T {} d \<and> deferred d = []"

lemma held_count_replace:
  assumes "distinct (map r_id rs)" and "set rows \<subseteq> set rs" and "distinct (map r_id rows)" and "\<And>r. r \<in> set rows \<Longrightarrow> r_status r = Held"
  shows "length (filter (\<lambda>r. r_status r = Held) (replace_rows expired_row rows rs)) + length rows = length (filter (\<lambda>r. r_status r = Held) rs)"
proof -
  let ?H = "\<lambda>r. r_status r = Held" and ?in = "\<lambda>r. r_id r \<in> r_id ` set rows"
  have mem: "r \<in> set rows" if "r \<in> set rs" "?in r" for r
  proof -
    from that obtain s where "s \<in> set rows" "r_id s = r_id r" by auto
    then show ?thesis using distinct_key_eq [OF assms(1), of r s] that(1) assms(2) by auto
  qed
  have "filter ?H (replace_rows expired_row rows rs) = map (\<lambda>r. if ?in r then expired_row r else r) (filter (\<lambda>r. ?H r \<and> \<not> ?in r) rs)"
    unfolding replace_rows_def by (induction rs) (auto simp: expired_row_def)
  then have a: "length (filter ?H (replace_rows expired_row rows rs)) = length (filter (\<lambda>r. ?H r \<and> \<not> ?in r) rs)" by simp
  have "length (filter ?in rs) = card (set (filter ?in rs))"
    using assms(1) by (metis distinct_card distinct_filter distinct_map)
  also have "set (filter ?in rs) = set rows" using mem assms(2) by auto
  also have "card (set rows) = length rows" using assms(3) by (metis distinct_card distinct_map)
  finally have b: "length (filter ?in rs) = length rows" .
  have "length (filter ?H rs) = length (filter (\<lambda>r. ?H r \<and> \<not> ?in r) rs) + length (filter ?in rs)"
    if "\<And>r. r \<in> set xs \<Longrightarrow> ?in r \<Longrightarrow> ?H r" "xs = rs" for xs
    using that by (induction xs arbitrary: rs) auto
  then have "length (filter ?H rs) = length (filter (\<lambda>r. ?H r \<and> \<not> ?in r) rs) + length (filter ?in rs)"
    using mem assms(4) by blast
  then show ?thesis using a b by simp
qed

lemma due_holds_facts:
  assumes "inv T {} d"
  shows "distinct (map r_id (due_holds now locked limit d))" "set (due_holds now locked limit d) \<subseteq> set (reservations d)"
    "r \<in> set (due_holds now locked limit d) \<Longrightarrow> due now r \<and> \<not> locked (r_id r)" "length (due_holds now locked limit d) \<le> limit"
proof -
  show "distinct (map r_id (due_holds now locked limit d))" "set (due_holds now locked limit d) \<subseteq> set (reservations d)"
    using due_batch [OF assms] by (auto simp: batch_ok_def)
  show "due now r \<and> \<not> locked (r_id r)" if "r \<in> set (due_holds now locked limit d)"
    using in_set_takeD [OF that [unfolded due_holds_def]] by simp
  show "length (due_holds now locked limit d) \<le> limit" by (simp add: due_holds_def)
qed

lemma sweep_batch_effect:
  assumes "sweep_ready w cfg T d" and "sweep_batch w cfg n d = Inr (ids, d')"
  shows "sweep_ready w cfg T d' \<and> held_count d' + length ids = held_count d
    \<and> reservations d' = replace_rows expired_row (due_holds (w_now w n) (w_locked w n) (sc_limit cfg) d) (reservations d)
    \<and> ids = map r_id (due_holds (w_now w n) (w_locked w n) (sc_limit cfg) d)"
proof -
  let ?rows = "due_holds (w_now w n) (w_locked w n) (sc_limit cfg) d"
  have I: "inv T {} d" and r: "w_now w n \<le> T" "deferred d = []" using assms(1) by (auto simp: sweep_ready_def)
  from expireDue_eq [OF I r, of "w_locked w n" "sc_limit cfg"] assms(2) have
    e: "ids = map r_id ?rows" "inv T {} d'" "reservations d' = replace_rows expired_row ?rows (reservations d)" "deferred d' = []"
    by (auto simp: sweep_batch_def split: option.splits)
  have "held_count d' + length ?rows = held_count d"
    unfolding held_count_def e(3)
    by (rule held_count_replace) (use I due_holds_facts [OF I] in \<open>auto simp: inv_def ids_ok_def due_def\<close>)
  then show ?thesis using e assms(1) by (simp add: sweep_ready_def)
qed

interpretation sweep: batches "sweep_batch w cfg" "sweep_more w cfg" "sweep_ready w cfg T" held_count for w cfg T
proof
  fix d n b d'
  assume a: "sweep_ready w cfg T d" "sweep_batch w cfg n d = Inr (b, d')"
  show "sweep_ready w cfg T d'" using sweep_batch_effect [OF a] by blast
  assume "sweep_more w cfg n b"
  then show "held_count d' < held_count d" using sweep_batch_effect [OF a] a(1) by (auto simp: sweep_more_def sweep_ready_def)
qed


lemma due_holds_all:
  assumes "\<And>k. \<not> locked k" and "length (due_holds now locked limit d) < limit" and "r \<in> set (reservations d)" and "due now r"
  shows "r \<in> set (due_holds now locked limit d)"
proof -
  let ?xs = "filter (\<lambda>r. \<not> locked (r_id r)) (sort_key r_hold_expires_at (filter (due now) (reservations d)))"
  have "length (take limit ?xs) < limit" using assms(2) unfolding due_holds_def .
  then have "length ?xs \<le> limit" by (metis length_take min_def not_le less_irrefl)
  then have eq: "due_holds now locked limit d = ?xs" unfolding due_holds_def by (rule take_all)
  have "r \<in> set (sort_key r_hold_expires_at (filter (due now) (reservations d)))" using assms(3,4) by simp
  with assms(1) have "r \<in> set ?xs" by (simp only: set_filter mem_Collect_eq simp_thms)
  then show ?thesis by (simp only: eq)
qed

section \<open>Properties\<close>

text \<open>
  C16: one sweep expires exactly the earliest due holds that no other transaction holds, at most the limit of them: each is
  expired at the next version with its units freed and one event, every other reservation and unit row is as it was,
  and a hold that has not reached its expiry is never touched. A role bound by row-level security is refused.
\<close>

theorem expireDue_exact:
  assumes "inv T {} d" and "now \<le> T" and "deferred d = []"
  shows "\<exists>ids d'. expireDue False now locked limit d = Inr (ids, d') \<and> inv T {} d' \<and> deferred d' = [] \<and> length ids \<le> limit
    \<and> ids = map r_id (take limit (filter (\<lambda>r. \<not> locked (r_id r)) (sort_key r_hold_expires_at
         (filter (\<lambda>r. r_status r = Held \<and> r_hold_expires_at r \<le> now) (reservations d)))))
    \<and> reservations d' = map (\<lambda>r. if r_id r \<in> set ids
         then r\<lparr>r_status := Expired, r_token_hash := None, r_version := r_version r + 1\<rparr> else r) (reservations d)
    \<and> (\<forall>i\<in>set ids. \<forall>ru\<in>set (rows_of d' i). \<not> ru_active ru) \<and> (\<forall>k. k \<notin> set ids \<longrightarrow> rows_of d' k = rows_of d k)
    \<and> length (outbox d') = length (outbox d) + length ids
    \<and> (\<exists>e. expireDue True now locked limit d = Inl e \<and> code e = Forbidden)"
proof -
  let ?rows = "due_holds now locked limit d"
  from expireDue_eq [OF assms] obtain d' where e: "expireDue False now locked limit d = Inr (map r_id ?rows, d')" "inv T {} d'"
    "reservations d' = replace_rows expired_row ?rows (reservations d)" "deferred d' = []"
    "map o_payload (outbox d') = map o_payload (outbox d) @ map (\<lambda>r. reservationPayload (expired_row r)) ?rows"
    "\<forall>k. k \<notin> r_id ` set ?rows \<longrightarrow> rows_of d' k = rows_of d k" by blast
  note f = due_holds_facts [OF assms(1), where now = now and locked = locked and limit = limit]
  have freed: "\<not> ru_active ru" if "i \<in> r_id ` set ?rows" "ru \<in> set (rows_of d' i)" for i ru
  proof -
    from that(1) obtain r where r: "r \<in> set ?rows" "r_id r = i" by auto
    then have "expired_row r \<in> set (reservations d')" using f(2) unfolding e(3) replace_rows_def by (force simp: image_iff)
    moreover have "r_id (expired_row r) = i" "released (r_status (expired_row r))"
      using r(2) by (simp_all add: expired_row_def released_def)
    ultimately show ?thesis using released_rows [OF e(2)] that(2) by metis
  qed
  have len: "length (outbox d') = length (outbox d) + length ?rows"
    using arg_cong [OF e(5), of length] by simp
  have dd: "?rows = take limit (filter (\<lambda>r. \<not> locked (r_id r)) (sort_key r_hold_expires_at
         (filter (\<lambda>r. r_status r = Held \<and> r_hold_expires_at r \<le> now) (reservations d))))"
    by (simp add: due_holds_def due_def [abs_def])
  show ?thesis
    by (intro exI [of _ "map r_id ?rows"] exI [of _ d'])
      (use e f(4) freed len dd in \<open>simp add: replace_rows_def expired_row_def expireDue_def\<close>)
qed

theorem expireDue_exact_witness:
  "\<exists>d'. expireDue False 700000 (\<lambda>_. False) 20 held_db = Inr ([''r1''], d') \<and> map r_status (reservations d') = [Expired]"
proof -
  have I: "inv 700000 {} held_db" by (rule inv_mono [OF _ held_db_inv]) simp
  from expireDue_exact [OF I order_refl held_db_ready(1), of "\<lambda>_. False" 20] show ?thesis
    by (auto simp: held_db_def demo_db_def demo_reservation_def)
qed


lemma env_int_positive: "env_int env name fallback = Inr v \<Longrightarrow> 1 \<le> fallback \<Longrightarrow> 1 \<le> v"
  by (auto simp: env_int_def split: option.splits if_splits)

lemma parsed_config:
  assumes "parseWorkerConfig env = Inr cfg"
  shows "wc_databaseUrl cfg \<noteq> [] \<and> 1 \<le> sc_everyMs (wc_sweep cfg) \<and> 1 \<le> sc_limit (wc_sweep cfg) \<and> sc_drain (wc_sweep cfg)
    \<and> 1 \<le> rt_everyMs (wc_retention cfg) \<and> 1 \<le> rt_limit (wc_retention cfg) \<and> rt_drain (wc_retention cfg) \<and> 1 \<le> wc_poolMax cfg"
  using assms unfolding parseWorkerConfig_def
  by (auto simp: rbind_eq_Inr DESIGN_SWEEP_def DESIGN_RETENTION_def nat_le_iff dest!: env_int_positive split: option.splits if_splits)

lemma sweep_batch_clears:
  assumes "sweep_ready w cfg T e" and "sweep_batch w cfg m e = Inr (b, d')" and "\<not> sweep_more w cfg m b"
    and "sc_drain cfg" and "\<not> w_halt w m" and "\<And>k. \<not> w_locked w m k" and "r \<in> set (reservations d')"
  shows "\<not> due (w_now w m) r"
proof
  let ?rows = "due_holds (w_now w m) (w_locked w m) (sc_limit cfg) e"
  assume du: "due (w_now w m) r"
  from sweep_batch_effect [OF assms(1,2)] have b: "b = map r_id ?rows" and res: "reservations d' = replace_rows expired_row ?rows (reservations e)" by blast+
  have "length ?rows < sc_limit cfg" using assms(3-5) b by (simp add: sweep_more_def)
  from assms(7) res obtain x where x: "x \<in> set (reservations e)" "r = (if r_id x \<in> r_id ` set ?rows then expired_row x else x)"
    by (auto simp: replace_rows_def)
  with du have "r_id x \<notin> r_id ` set ?rows" "r = x" by (auto simp: due_def expired_row_def split: if_splits)
  with due_holds_all [of "w_locked w m", OF assms(6) \<open>length ?rows < sc_limit cfg\<close> x(1)] du show False by blast
qed

text \<open>
  C15: with any accepted configuration a tick of the sweeper returns, after at most one batch more than there are
  holds, whatever clocks its batches read and whatever fails; it counts exactly the reservations it expired; and
  when nothing fails, is locked or stops it, no hold that was due at the clock of its last batch is left.
\<close>

theorem sweep_tick_clears:
  assumes "parseWorkerConfig env = Inr cfg" and "inv T {} d" and "deferred d = []" and "\<And>n. w_now w n \<le> T" and "\<not> w_paused w"
  shows "\<exists>s' d'. sweep_tick (wc_sweep cfg) w (s, d) = Some (s', d') \<and> inv T {} d' \<and> deferred d' = []
    \<and> ss_ticks s' = ss_ticks s + 1 \<and> ss_expired s' + held_count d' = ss_expired s + held_count d
    \<and> ss_maxBatchesInTick s' \<le> max (ss_maxBatchesInTick s) (held_count d + 1)
    \<and> ((\<forall>n. w_fault w n = None \<and> \<not> w_halt w n \<and> (\<forall>k. \<not> w_locked w n k)) \<longrightarrow> (\<exists>n. \<forall>r\<in>set (reservations d'). \<not> due (w_now w n) r))"
proof -
  let ?cfg = "wc_sweep cfg" and ?s = "s\<lparr>ss_ticks := ss_ticks s + 1\<rparr>"
  note pc = parsed_config [OF assms(1)]
  have rd: "sweep_ready w ?cfg T d" using pc assms by (simp add: sweep_ready_def)
  from sweep.loop_returns [OF rd, of sweep_tally sweep_failed 0 ?s] obtain k s1 d' where
    loop: "batch_loop (sweep_batch w ?cfg) (sweep_more w ?cfg) sweep_tally sweep_failed 0 ?s d = Some (k, s1, d')"
    and k: "k \<le> 0 + held_count d + 1" and rd': "sweep_ready w ?cfg T d'"
    and how: "(\<exists>m e. k = m \<and> sweep_batch w ?cfg m d' = Inl e)
      \<or> (\<exists>m b e. k = Suc m \<and> sweep_batch w ?cfg m e = Inr (b, d') \<and> sweep_ready w ?cfg T e \<and> \<not> sweep_more w ?cfg m b)" by blast
  define J where "J = (\<lambda>(x :: SweepStats) e. ss_ticks x = ss_ticks s + 1 \<and> ss_maxBatchesInTick x = ss_maxBatchesInTick s
     \<and> ss_expired x + held_count e = ss_expired s + held_count d)"
  have "J s1 d'"
  proof (rule sweep.loop_invariant [where J = J, OF _ _ rd _ loop])
    show "J (sweep_tally b x) e'" if "sweep_ready w ?cfg T e" "J x e" "sweep_batch w ?cfg n e = Inr (b, e')" for n x e b e'
      using that(2) sweep_batch_effect [OF that(1,3), THEN conjunct2, THEN conjunct1] by (simp add: J_def sweep_tally_def)
  qed (simp_all add: J_def sweep_failed_def)
  moreover have "\<exists>n. \<forall>r\<in>set (reservations d'). \<not> due (w_now w n) r"
    if ok: "\<And>n. w_fault w n = None" "\<And>n. \<not> w_halt w n" "\<And>n k. \<not> w_locked w n k"
  proof -
    have never: "sweep_batch w ?cfg m x \<noteq> Inl e" if "sweep_ready w ?cfg T x" for m x e
      using that expireDue_eq [of T x "w_now w m" "w_locked w m" "sc_limit ?cfg"] ok(1) by (auto simp: sweep_batch_def sweep_ready_def)
    from how never [OF rd'] obtain m b e where "sweep_batch w ?cfg m e = Inr (b, d')" "sweep_ready w ?cfg T e" "\<not> sweep_more w ?cfg m b" by blast
    with sweep_batch_clears pc ok(2,3) show ?thesis by blast
  qed
  moreover have "sweep_tick ?cfg w (s, d) = Some (s1\<lparr>ss_maxBatchesInTick := max (ss_maxBatchesInTick s1) k\<rparr>, d')"
    using loop by (simp add: sweep_tick_def assms(5))
  ultimately show ?thesis using rd' k
    by (intro exI [of _ "s1\<lparr>ss_maxBatchesInTick := max (ss_maxBatchesInTick s1) k\<rparr>"] exI [of _ d'])
      (simp add: J_def sweep_ready_def)
qed

definition calm :: "instant \<Rightarrow> sweep_world" where
  "calm now = \<lparr>w_now = (\<lambda>_. now), w_locked = (\<lambda>_ _. False), w_fault = (\<lambda>_. None), w_halt = (\<lambda>_. False), w_paused = False\<rparr>"

theorem sweep_tick_clears_witness:
  "\<exists>cfg s' d'. parseWorkerConfig [''DATABASE_URL'' \<mapsto> ''postgres://w''] = Inr cfg
     \<and> sweep_tick (wc_sweep cfg) (calm 700000) (sweep_stats_start, held_db) = Some (s', d')
     \<and> (\<forall>r\<in>set (reservations d'). \<not> due 700000 r)"
proof -
  obtain cfg where c: "parseWorkerConfig [''DATABASE_URL'' \<mapsto> ''postgres://w''] = Inr cfg"
    by (simp add: parseWorkerConfig_def env_int_def)
  have I: "inv 700000 {} held_db" by (rule inv_mono [OF _ held_db_inv]) simp
  from sweep_tick_clears [OF c I held_db_ready(1), of "calm 700000" sweep_stats_start] c show ?thesis
    by (auto simp: calm_def)
qed


section \<open>Retention\<close>

definition idem_key :: "IdempotencyRow \<Rightarrow> string \<times> string \<times> string" where
  "idem_key i = (i_venue i, i_actor i, i_key i)"

definition rows_left :: "db \<Rightarrow> nat" where
  "rows_left d = length (idempotency d) + length (outbox d)"

lemma purge_eq:
  assumes "deferred d = []"
  shows "purgeRetained False now lk le limit d = Inr
    ((length (idempotency d) - length (filter (\<lambda>i. \<not> list_ex (same_key i) (due_keys now lk limit d)) (idempotency d)),
      length (outbox d) - length (filter (\<lambda>e. o_id e \<notin> o_id ` set (done_events now le limit d)) (outbox d))),
     d\<lparr>idempotency := filter (\<lambda>i. \<not> list_ex (same_key i) (due_keys now lk limit d)) (idempotency d),
       outbox := filter (\<lambda>e. o_id e \<notin> o_id ` set (done_events now le limit d)) (outbox d)\<rparr>)"
  using assms
  by (simp add: purgeRetained_def in_transaction_def purge_tx_def tbind_def tthen_def tx_eqs delete_keys_def delete_events_def
      Let_def commit_def done_events_def)

text \<open>A batch deletes at most its limit, and what it deletes it counts.\<close>

lemma length_kept:
  assumes "distinct (map f xs)" and "set ys \<subseteq> set xs" and "distinct (map f ys)"
  shows "length xs - length (filter (\<lambda>x. f x \<notin> f ` set ys) xs) = length ys"
proof -
  have "filter (\<lambda>x. f x \<in> f ` set ys) xs = filter (\<lambda>x. x \<in> set ys) xs"
  proof (rule filter_cong [OF refl])
    fix x assume "x \<in> set xs"
    have "x = y" if "y \<in> set ys" "f x = f y" for y
      using distinct_key_eq [OF assms(1) \<open>x \<in> set xs\<close>, of y] that assms(2) by blast
    then show "f x \<in> f ` set ys \<longleftrightarrow> x \<in> set ys" by auto
  qed
  moreover have "length (filter (\<lambda>x. x \<in> set ys) xs) = length ys"
  proof -
    have "distinct (filter (\<lambda>x. x \<in> set ys) xs)" "distinct ys" using assms(1,3) by (auto simp: distinct_map)
    moreover have "set (filter (\<lambda>x. x \<in> set ys) xs) = set ys" using assms(2) by auto
    ultimately show ?thesis by (metis distinct_card)
  qed
  moreover have "length xs = length (filter (\<lambda>x. f x \<in> f ` set ys) xs) + length (filter (\<lambda>x. f x \<notin> f ` set ys) xs)"
    by (rule sum_length_filter_compl [symmetric])
  ultimately show ?thesis by simp
qed

lemma due_keys_facts:
  "set (due_keys now lk limit d) \<subseteq> {i \<in> set (idempotency d). i_purge_at i \<le> now \<and> \<not> lk i}" "length (due_keys now lk limit d) \<le> limit"
  "distinct (map idem_key (idempotency d)) \<Longrightarrow> distinct (map idem_key (due_keys now lk limit d))"
  unfolding due_keys_def by (auto dest: in_set_takeD intro: distinct_sorted_filter)

lemma done_events_facts:
  "set (done_events now le limit d) \<subseteq> {e \<in> set (outbox d). published_before (now - PUBLISHED_OUTBOX_RETENTION_DAYS * 24 * 3600000) e \<and> \<not> le (o_id e)}"
  "length (done_events now le limit d) \<le> limit"
  "distinct (map o_id (outbox d)) \<Longrightarrow> distinct (map o_id (done_events now le limit d))"
  unfolding done_events_def by (auto dest: in_set_takeD intro: distinct_sorted_filter)

lemma same_key_in: "list_ex (same_key i) rows \<longleftrightarrow> idem_key i \<in> idem_key ` set rows"
  by (auto simp: list_ex_iff same_key_def idem_key_def image_iff)

lemma take_all_short:
  assumes "length (take n xs) < n"
  shows "take n xs = xs"
  using assms by (metis length_take min_def not_le less_irrefl take_all)

text \<open>
  The rows a batch deletes come first: each was due, and none of the due rows it leaves has a smaller key. A prefix of
  the sorted rows has this shape.
\<close>

definition oldest_gone :: "('r \<Rightarrow> int) \<Rightarrow> ('r \<Rightarrow> bool) \<Rightarrow> 'r list \<Rightarrow> 'r list \<Rightarrow> bool" where
  "oldest_gone key elig before after \<longleftrightarrow>
     (\<forall>x\<in>set before - set after. elig x \<and> (\<forall>y\<in>set after. elig y \<longrightarrow> key x \<le> key y))"

lemma take_oldest:
  assumes "x \<in> set (take n (filter P (sort_key key xs)))" and "y \<in> set xs" "P y" and "y \<notin> set (take n (filter P (sort_key key xs)))"
  shows "key x \<le> key y"
proof -
  let ?l = "filter P (sort_key key xs)"
  have "sorted (map key ?l)" by (rule sorted_filter) simp
  then have "sorted (map key (take n ?l) @ map key (drop n ?l))" by (simp flip: map_append)
  moreover have "y \<in> set (take n ?l @ drop n ?l)" using assms(2,3) by simp
  ultimately show ?thesis using assms(1,4) unfolding sorted_append set_append by auto
qed

lemma oldest_goneI:
  assumes K: "K = take n (filter P (sort_key key (filter Q before)))" and "set before - set after \<subseteq> set K" and "set after \<subseteq> set before"
    and "\<And>y. y \<in> set after \<Longrightarrow> y \<notin> set K" and "\<And>x. elig x \<longleftrightarrow> Q x \<and> P x"
  shows "oldest_gone key elig before after"
  unfolding oldest_gone_def
proof (intro ballI conjI impI)
  fix x assume "x \<in> set before - set after"
  with assms(2) have x: "x \<in> set (take n (filter P (sort_key key (filter Q before))))" unfolding K by blast
  from in_set_takeD [OF x] have "Q x" "P x" by auto
  then show "elig x" using assms(5) [of x] by simp
  fix y assume y: "y \<in> set after" "elig y"
  have "y \<in> set (filter Q before)" "P y" using y assms(3) assms(5) [of y] by auto
  from take_oldest [OF x this assms(4) [OF y(1), unfolded K]] show "key x \<le> key y" .
qed

text \<open>
  C23: one retention batch deletes at most its limit from each table, counts what it deletes, and deletes the oldest first:
  of the idempotency rows past their purge time that no other transaction locks, those purged earliest, and of the
  unlocked events published at least seven days ago that were not dead-lettered, those published earliest. Any other row
  stays, an unpublished or dead-lettered event always. A batch that comes back short with nothing locked has left nothing due.
\<close>

theorem purgeRetained_exact:
  assumes "inv T {} d" and "deferred d = []" and "distinct (map idem_key (idempotency d))" and "distinct (map o_id (outbox d))"
  shows "\<exists>n m d'. purgeRetained False now lk le limit d = Inr ((n, m), d') \<and> inv T {} d' \<and> n \<le> limit \<and> m \<le> limit
    \<and> n = length (idempotency d) - length (idempotency d') \<and> m = length (outbox d) - length (outbox d')
    \<and> (\<forall>i\<in>set (idempotency d). i \<notin> set (idempotency d') \<longrightarrow> i_purge_at i \<le> now)
    \<and> (\<forall>e\<in>set (outbox d). e \<notin> set (outbox d') \<longrightarrow> o_dead_lettered_at e = None \<and> (\<exists>p. o_published_at e = Some p \<and> p + 7 * 24 * 3600000 \<le> now))
    \<and> oldest_gone i_purge_at (\<lambda>i. i_purge_at i \<le> now \<and> \<not> lk i) (idempotency d) (idempotency d')
    \<and> oldest_gone (\<lambda>e. the (o_published_at e)) (\<lambda>e. published_before (now - 7 * 24 * 3600000) e \<and> \<not> le (o_id e)) (outbox d) (outbox d')
    \<and> set (idempotency d') \<subseteq> set (idempotency d) \<and> set (outbox d') \<subseteq> set (outbox d) \<and> reservations d' = reservations d
    \<and> ((\<forall>i. \<not> lk i) \<longrightarrow> n < limit \<longrightarrow> (\<forall>i\<in>set (idempotency d'). now < i_purge_at i))
    \<and> ((\<forall>i. \<not> le i) \<longrightarrow> m < limit \<longrightarrow> (\<forall>e\<in>set (outbox d'). \<not> published_before (now - 7 * 24 * 3600000) e))"
proof -
  let ?K = "due_keys now lk limit d" and ?E = "done_events now le limit d"
  let ?i' = "filter (\<lambda>i. idem_key i \<notin> idem_key ` set ?K) (idempotency d)" and ?o' = "filter (\<lambda>e. o_id e \<notin> o_id ` set ?E) (outbox d)"
  let ?d' = "d\<lparr>idempotency := ?i', outbox := ?o'\<rparr>"
  note K = due_keys_facts [where now = now and lk = lk and limit = limit and d = d]
    and E = done_events_facts [where now = now and le = le and limit = limit and d = d]
  have run: "purgeRetained False now lk le limit d = Inr ((length (idempotency d) - length ?i', length (outbox d) - length ?o'), ?d')"
    by (simp add: purge_eq [OF assms(2)] same_key_in)
  have n: "length (idempotency d) - length ?i' = length ?K" by (rule length_kept [OF assms(3)]) (use K assms(3) in auto)
  have m: "length (outbox d) - length ?o' = length ?E" by (rule length_kept [OF assms(4)]) (use E assms(4) in auto)
  have dk: "i \<in> set ?K" if "i \<in> set (idempotency d)" "idem_key i \<in> idem_key ` set ?K" for i
  proof -
    from that(2) obtain j where j: "j \<in> set ?K" "idem_key i = idem_key j" by auto
    then have "j \<in> set (idempotency d)" using K(1) by auto
    with distinct_key_eq [OF assms(3) that(1) this j(2)] j(1) show ?thesis by simp
  qed
  have de: "e \<in> set ?E" if "e \<in> set (outbox d)" "o_id e \<in> o_id ` set ?E" for e
  proof -
    from that(2) obtain j where j: "j \<in> set ?E" "o_id e = o_id j" by auto
    then have "j \<in> set (outbox d)" using E(1) by auto
    with distinct_key_eq [OF assms(4) that(1) this j(2)] j(1) show ?thesis by simp
  qed
  have only_i: "i_purge_at i \<le> now" if "i \<in> set (idempotency d)" "i \<notin> set ?i'" for i
    using dk [of i] that K(1) by auto
  have only_e: "o_dead_lettered_at e = None \<and> (\<exists>p. o_published_at e = Some p \<and> p + 7 * 24 * 3600000 \<le> now)"
    if "e \<in> set (outbox d)" "e \<notin> set ?o'" for e
    using de [of e] that E(1) by (auto simp: published_before_def PUBLISHED_OUTBOX_RETENTION_DAYS_def split: option.splits)
  have all_i: "now < i_purge_at i" if "\<And>i. \<not> lk i" "length ?K < limit" "i \<in> set ?i'" for i
  proof (rule ccontr)
    assume "\<not> now < i_purge_at i"
    with that(1,3) have "i \<in> set (filter (\<lambda>i. \<not> lk i) (sort_key i_purge_at (filter (\<lambda>i. i_purge_at i \<le> now) (idempotency d))))" by auto
    then have "i \<in> set ?K" using take_all_short [OF that(2) [unfolded due_keys_def]] unfolding due_keys_def by argo
    with that(3) show False by simp
  qed
  have all_e: "\<not> published_before (now - 7 * 24 * 3600000) e" if "\<And>i. \<not> le i" "length ?E < limit" "e \<in> set ?o'" for e
  proof
    assume "published_before (now - 7 * 24 * 3600000) e"
    with that(1,3) have "e \<in> set (filter (\<lambda>e. \<not> le (o_id e)) (sort_key (\<lambda>e. the (o_published_at e))
       (filter (published_before (now - PUBLISHED_OUTBOX_RETENTION_DAYS * 24 * 3600000)) (outbox d))))"
      by (auto simp: PUBLISHED_OUTBOX_RETENTION_DAYS_def)
    then have "e \<in> set ?E" using take_all_short [OF that(2) [unfolded done_events_def]] unfolding done_events_def by argo
    with that(3) show False by simp
  qed
  have old_i: "oldest_gone i_purge_at (\<lambda>i. i_purge_at i \<le> now \<and> \<not> lk i) (idempotency d) ?i'"
    by (rule oldest_goneI [OF due_keys_def [of now lk limit d]]) (auto intro: dk)
  have old_e: "oldest_gone (\<lambda>e. the (o_published_at e)) (\<lambda>e. published_before (now - 7 * 24 * 3600000) e \<and> \<not> le (o_id e)) (outbox d) ?o'"
    by (rule oldest_goneI [OF done_events_def [of now le limit d]]) (auto simp: PUBLISHED_OUTBOX_RETENTION_DAYS_def intro: de)
  have I: "inv T {} ?d'" using assms(1) by simp
  show ?thesis
    by (intro exI [of _ "length ?K"] exI [of _ "length ?E"] exI [of _ ?d'])
      (use run n m only_i only_e all_i all_e old_i old_e I K(2) E(2) in \<open>simp\<close>)
qed


theorem purgeRetained_exact_witness:
  "\<exists>d' late early. d' = held_db\<lparr>idempotency := [late]\<rparr> \<and> i_purge_at early < i_purge_at late
     \<and> purgeRetained False 86400000 (\<lambda>_. False) (\<lambda>_. False) 1 (held_db\<lparr>idempotency := [late, early]\<rparr>) = Inr ((1, 0), d')"
proof -
  let ?late = "hd (idempotency held_db)"
  let ?early = "?late\<lparr>i_key := ''old'', i_purge_at := 80000000\<rparr>"
  let ?d = "held_db\<lparr>idempotency := [?late, ?early]\<rparr>" and ?p = "purgeRetained False 86400000 (\<lambda>_. False) (\<lambda>_. False) 1"
  have at: "i_purge_at ?late = 86400000" "idem_key ?late \<noteq> idem_key ?early" "?late \<noteq> ?early"
    by (simp_all add: held_db_def idem_key_def)
  have I: "inv 86400000 {} ?d" using inv_mono [OF _ held_db_inv, of 86400000] by simp
  have k: "deferred ?d = []" "distinct (map idem_key (idempotency ?d))" "distinct (map o_id (outbox ?d))"
    using at(2) held_db_ready(1) by (simp_all add: held_db_def)
  from purgeRetained_exact [OF I k, of 86400000 "\<lambda>_. False" "\<lambda>_. False" 1] obtain n m d' where
    r: "?p ?d = Inr ((n, m), d')" "n \<le> 1" "n = length (idempotency ?d) - length (idempotency d')" "m = length (outbox ?d) - length (outbox d')"
      "oldest_gone i_purge_at (\<lambda>i. i_purge_at i \<le> 86400000 \<and> \<not> False) (idempotency ?d) (idempotency d')"
      "set (idempotency d') \<subseteq> set (idempotency ?d)" "(\<forall>i :: IdempotencyRow. \<not> False) \<longrightarrow> n < 1 \<longrightarrow> (\<forall>i\<in>set (idempotency d'). 86400000 < i_purge_at i)"
    by (elim exE conjE) (rule that; assumption)
  have two: "idempotency ?d = [?late, ?early]" by simp
  have gone: "n = 1"
  proof (rule ccontr)
    assume "n \<noteq> 1"
    with r(2) have n: "n = 0" by simp
    with r(7) have "86400000 < i_purge_at i" if "i \<in> set (idempotency d')" for i using that by simp
    moreover have "i_purge_at i \<le> 86400000" if "i \<in> set (idempotency d')" for i
      using subsetD [OF r(6) that] at(1) unfolding two by auto
    ultimately have "idempotency d' = []" by (cases "idempotency d'") (fastforce simp: not_le)+
    with n r(3) two show False by simp
  qed
  with r(3) two obtain i where i: "idempotency d' = [i]" by (cases "idempotency d'"; cases "tl (idempotency d')") auto
  have left: "idempotency d' = [?late]"
  proof (rule ccontr)
    assume "idempotency d' \<noteq> [?late]"
    with i r(6) two have e: "idempotency d' = [?early]" by auto
    have "\<not> oldest_gone i_purge_at (\<lambda>i. i_purge_at i \<le> 86400000 \<and> \<not> False) [?late, ?early] [?early]"
      unfolding oldest_gone_def using at by (intro notI) (drule bspec [of _ _ ?late], auto)
    with r(5) show False unfolding two e by simp
  qed
  have "done_events 86400000 (\<lambda>_. False) 1 ?d = []"
    by (simp add: done_events_def published_before_def held_db_def)
  then have o': "outbox d' = outbox ?d" and d': "d' = ?d\<lparr>idempotency := idempotency d', outbox := outbox d'\<rparr>"
    using r(1) by (auto simp: purge_eq [OF k(1)])
  have "?p ?d = Inr ((1, 0), held_db\<lparr>idempotency := [?late]\<rparr>)"
    using r(1,4) gone left o' d' by simp
  then show ?thesis by (intro exI [of _ "held_db\<lparr>idempotency := [?late]\<rparr>"] exI [of _ ?late] exI [of _ ?early]) (simp add: at)
qed

definition retention_ready :: "RetentionConfig \<Rightarrow> instant \<Rightarrow> db \<Rightarrow> bool" where
  "retention_ready cfg T d \<longleftrightarrow> 1 \<le> rt_limit cfg \<and> inv T {} d \<and> deferred d = []"

lemma retention_batch_effect:
  assumes "retention_ready cfg T d" and "retention_batch w cfg n d = Inr (b, d')"
  shows "retention_ready cfg T d' \<and> rows_left d' + fst b + snd b = rows_left d"
  using assms
  by (auto simp: retention_ready_def retention_batch_def rows_left_def purge_eq split: option.splits)

interpretation retention: batches "retention_batch w cfg" "retention_more w cfg" "retention_ready cfg T" rows_left for w cfg T
proof
  fix d n b d'
  assume a: "retention_ready cfg T d" "retention_batch w cfg n d = Inr (b, d')"
  show "retention_ready cfg T d'" using retention_batch_effect [OF a] by blast
  assume "retention_more w cfg n b"
  then show "rows_left d' < rows_left d" using retention_batch_effect [OF a] a(1) by (auto simp: retention_more_def retention_ready_def)
qed

text \<open>
  With any accepted configuration a tick of retention returns, whatever fails or stops it, keeps the
  invariants, and counts exactly the rows it deleted from the two tables.
\<close>

theorem retention_tick_returns:
  assumes "parseWorkerConfig env = Inr cfg" and "inv T {} d" and "deferred d = []"
  shows "\<exists>s' d'. retention_tick (wc_retention cfg) w (s, d) = Some (s', d') \<and> inv T {} d' \<and> deferred d' = []
    \<and> rs_idempotency s' + rs_outbox s' + rows_left d' = rs_idempotency s + rs_outbox s + rows_left d
    \<and> rs_maxBatchesInTick s' \<le> max (rs_maxBatchesInTick s) (rows_left d + 1)"
proof (cases "rw_paused w")
  case True
  with assms show ?thesis by (simp add: retention_tick_def)
next
  case False
  let ?cfg = "wc_retention cfg" and ?s = "s\<lparr>rs_ticks := rs_ticks s + 1\<rparr>"
  have rd: "retention_ready ?cfg T d" using parsed_config [OF assms(1)] assms by (simp add: retention_ready_def)
  from retention.loop_returns [OF rd, of w retention_tally retention_failed 0 ?s] obtain k s1 d' where
    loop: "batch_loop (retention_batch w ?cfg) (retention_more w ?cfg) retention_tally retention_failed 0 ?s d = Some (k, s1, d')"
    and k: "k \<le> 0 + rows_left d + 1" and rd': "retention_ready ?cfg T d'" by blast
  define J where "J = (\<lambda>(x :: RetentionStats) e. rs_maxBatchesInTick x = rs_maxBatchesInTick s
     \<and> rs_idempotency x + rs_outbox x + rows_left e = rs_idempotency s + rs_outbox s + rows_left d)"
  have "J s1 d'"
  proof (rule retention.loop_invariant [where J = J, OF _ _ rd _ loop])
    show "J (retention_tally b x) e'" if "retention_ready ?cfg T e" "J x e" "retention_batch w ?cfg n e = Inr (b, e')" for n x e b e'
      using that(2) retention_batch_effect [OF that(1,3), THEN conjunct2] by (simp add: J_def retention_tally_def)
  qed (simp_all add: J_def retention_failed_def)
  moreover have "retention_tick ?cfg w (s, d) = Some (s1\<lparr>rs_maxBatchesInTick := max (rs_maxBatchesInTick s1) k\<rparr>, d')"
    using loop by (simp add: retention_tick_def False)
  ultimately show ?thesis using rd' k
    by (intro exI [of _ "s1\<lparr>rs_maxBatchesInTick := max (rs_maxBatchesInTick s1) k\<rparr>"] exI [of _ d'])
      (simp add: J_def retention_ready_def)
qed

theorem retention_tick_returns_witness:
  "\<exists>cfg s' d'. parseWorkerConfig [''DATABASE_URL'' \<mapsto> ''postgres://w''] = Inr cfg
     \<and> retention_tick (wc_retention cfg) \<lparr>rw_now = (\<lambda>_. 0), rw_locked_key = (\<lambda>_ _. False), rw_locked_event = (\<lambda>_ _. False),
          rw_fault = (\<lambda>_. None), rw_halt = (\<lambda>_. False), rw_paused = False\<rparr>
        (\<lparr>rs_ticks = 0, rs_batches = 0, rs_idempotency = 0, rs_outbox = 0, rs_errors = 0, rs_maxBatchesInTick = 0\<rparr>, held_db) = Some (s', d')"
proof -
  obtain cfg where c: "parseWorkerConfig [''DATABASE_URL'' \<mapsto> ''postgres://w''] = Inr cfg"
    by (simp add: parseWorkerConfig_def env_int_def)
  from retention_tick_returns [OF c held_db_inv held_db_ready(1)] c show ?thesis by blast
qed

text \<open>
  C24: a configuration is accepted exactly when the connection string is there and every setting that is given reads, as a double, as
  a positive integer; then each setting is what the given one reads as, or the design's when absent or empty, and all are positive.
  A positive integer up to \<open>2 ^ 53\<close> written in decimal reads as itself, and a numeral beyond the doubles is refused.
\<close>

theorem parseWorkerConfig_exact:
  "((\<exists>cfg. parseWorkerConfig env = Inr cfg) \<longleftrightarrow> (\<exists>url. env ''DATABASE_URL'' = Some url \<and> url \<noteq> [])
      \<and> (\<forall>name\<in>{''SWEEP_EVERY_MS'', ''SWEEP_LIMIT'', ''RETENTION_EVERY_MS'', ''RETENTION_LIMIT'', ''POOL_MAX''}.
          \<forall>raw. env name = Some raw \<longrightarrow> raw \<noteq> [] \<longrightarrow> (\<exists>v. js_integer (js_Number raw) = Some v \<and> 1 \<le> v)))
   \<and> (\<forall>name fallback v. env name = Some (show_nat v) \<longrightarrow> 1 \<le> v \<longrightarrow> v \<le> 2 ^ 53 \<longrightarrow> env_int env name fallback = Inr (int v))
   \<and> (\<forall>name fallback raw m e. env name = Some raw \<longrightarrow> numeral_value raw = Dec m e \<longrightarrow> 0 < m \<longrightarrow> 2 ^ 1024 \<le> of_int m * (10 :: rat) powi e
        \<longrightarrow> raw \<noteq> [] \<longrightarrow> env_int env name fallback = Inl (name @ '' must be a positive integer, got '' @ json_string raw))
   \<and> (\<forall>cfg. parseWorkerConfig env = Inr cfg \<longrightarrow> env_int env ''SWEEP_LIMIT'' 20 = Inr (int (sc_limit (wc_sweep cfg)))
        \<and> env_int env ''SWEEP_EVERY_MS'' 5000 = Inr (sc_everyMs (wc_sweep cfg))
        \<and> env_int env ''RETENTION_LIMIT'' 500 = Inr (int (rt_limit (wc_retention cfg)))
        \<and> env_int env ''RETENTION_EVERY_MS'' 60000 = Inr (rt_everyMs (wc_retention cfg))
        \<and> env_int env ''POOL_MAX'' 2 = Inr (wc_poolMax cfg)
        \<and> 1 \<le> sc_limit (wc_sweep cfg) \<and> 1 \<le> sc_everyMs (wc_sweep cfg) \<and> 1 \<le> rt_limit (wc_retention cfg) \<and> 1 \<le> rt_everyMs (wc_retention cfg)
        \<and> 1 \<le> wc_poolMax cfg)"
    (is "?accepted \<and> ?reads \<and> ?beyond \<and> ?sets")
proof (intro conjI)
  let ?ok = "\<lambda>name. \<forall>raw. env name = Some raw \<longrightarrow> raw \<noteq> [] \<longrightarrow> (\<exists>v. js_integer (js_Number raw) = Some v \<and> 1 \<le> v)"
  have ok: "(\<exists>v. env_int env name f = Inr v) \<longleftrightarrow> ?ok name" for name f
    by (auto simp: env_int_def split: option.splits)
  have "(\<exists>cfg. parseWorkerConfig env = Inr cfg) \<longleftrightarrow> (\<exists>url. env ''DATABASE_URL'' = Some url \<and> url \<noteq> [])
     \<and> (\<exists>v. env_int env ''SWEEP_EVERY_MS'' (sc_everyMs DESIGN_SWEEP) = Inr v) \<and> (\<exists>v. env_int env ''SWEEP_LIMIT'' (int (sc_limit DESIGN_SWEEP)) = Inr v)
     \<and> (\<exists>v. env_int env ''RETENTION_EVERY_MS'' (rt_everyMs DESIGN_RETENTION) = Inr v)
     \<and> (\<exists>v. env_int env ''RETENTION_LIMIT'' (int (rt_limit DESIGN_RETENTION)) = Inr v) \<and> (\<exists>v. env_int env ''POOL_MAX'' 2 = Inr v)"
    by (cases "env ''DATABASE_URL''") (auto simp: parseWorkerConfig_def rbind_eq_Inr)
  then show ?accepted by (simp only: ok) simp
  show ?reads by (auto simp: env_int_def js_Number_show_nat js_integer_def)
  show ?beyond by (simp add: env_int_def js_Number_def js_round_infinite js_integer_def)
  show ?sets
  proof (intro allI impI)
    fix cfg assume "parseWorkerConfig env = Inr cfg"
    then obtain se sl re rl pm where e: "env_int env ''SWEEP_EVERY_MS'' 5000 = Inr se" "env_int env ''SWEEP_LIMIT'' 20 = Inr sl"
      "env_int env ''RETENTION_EVERY_MS'' 60000 = Inr re" "env_int env ''RETENTION_LIMIT'' 500 = Inr rl" "env_int env ''POOL_MAX'' 2 = Inr pm"
      "sc_limit (wc_sweep cfg) = nat sl" "sc_everyMs (wc_sweep cfg) = se" "rt_limit (wc_retention cfg) = nat rl"
      "rt_everyMs (wc_retention cfg) = re" "wc_poolMax cfg = pm"
      by (auto simp: parseWorkerConfig_def rbind_eq_Inr DESIGN_SWEEP_def DESIGN_RETENTION_def split: option.splits if_splits)
    then show "env_int env ''SWEEP_LIMIT'' 20 = Inr (int (sc_limit (wc_sweep cfg)))
        \<and> env_int env ''SWEEP_EVERY_MS'' 5000 = Inr (sc_everyMs (wc_sweep cfg))
        \<and> env_int env ''RETENTION_LIMIT'' 500 = Inr (int (rt_limit (wc_retention cfg)))
        \<and> env_int env ''RETENTION_EVERY_MS'' 60000 = Inr (rt_everyMs (wc_retention cfg))
        \<and> env_int env ''POOL_MAX'' 2 = Inr (wc_poolMax cfg)
        \<and> 1 \<le> sc_limit (wc_sweep cfg) \<and> 1 \<le> sc_everyMs (wc_sweep cfg) \<and> 1 \<le> rt_limit (wc_retention cfg) \<and> 1 \<le> rt_everyMs (wc_retention cfg)
        \<and> 1 \<le> wc_poolMax cfg"
      using env_int_positive [OF e(1)] env_int_positive [OF e(2)] env_int_positive [OF e(3)] env_int_positive [OF e(4)] env_int_positive [OF e(5)] by (simp add: nat_le_iff Suc_le_eq)
  qed
qed

theorem parseWorkerConfig_exact_witness:
  "env_int [''SWEEP_LIMIT'' \<mapsto> show_nat 50] ''SWEEP_LIMIT'' 20 = Inr 50
   \<and> (\<exists>m. env_int [''SWEEP_LIMIT'' \<mapsto> ''1e400''] ''SWEEP_LIMIT'' 20 = Inl m) \<and> (\<nexists>cfg. parseWorkerConfig [''DATABASE_URL'' \<mapsto> ''u'', ''SWEEP_LIMIT'' \<mapsto> ''1e400''] = Inr cfg)"
proof -
  have v: "numeral_value ''1e400'' = Dec 1 400" by code_simp
  let ?env = "[''SWEEP_LIMIT'' \<mapsto> ''1e400'']" and ?cfg = "[''DATABASE_URL'' \<mapsto> ''u'', ''SWEEP_LIMIT'' \<mapsto> ''1e400'']"
  have "\<not> (\<exists>v. js_integer (js_Number ''1e400'') = Some v \<and> 1 \<le> v)" using v by (simp add: js_Number_def js_round_infinite js_integer_def)
  then have "\<nexists>cfg. parseWorkerConfig ?cfg = Inr cfg" using parseWorkerConfig_exact [of ?cfg, THEN conjunct1] by auto
  moreover have "\<exists>m. env_int ?env ''SWEEP_LIMIT'' 20 = Inl m"
    using parseWorkerConfig_exact [of ?env, THEN conjunct2, THEN conjunct2, THEN conjunct1, rule_format, of "''SWEEP_LIMIT''" "''1e400''" 1 400 20] v by auto
  ultimately show ?thesis
    using parseWorkerConfig_exact [of "[''SWEEP_LIMIT'' \<mapsto> show_nat 50]", THEN conjunct2, THEN conjunct1, rule_format, of "''SWEEP_LIMIT''" 50 20] by simp
qed

end
