(* ===== verification/CmdReads.thy ===== *)
theory CmdReads
  imports CmdHold
begin

text \<open>
  The reads of \<open>packages/db/src/commands\<close>: \<open>get.ts\<close>, \<open>list-holds.ts\<close> and \<open>availability.ts\<close> with its
  \<open>SnapshotCache\<close>. A read runs in one read-only snapshot, so it is a function of the database. A range
  keeps its two instants where the driver hands over Postgres's text of it.
\<close>

section \<open>get\<close>

record HistoryEntry =
  h_action :: string
  h_actor :: string
  h_at :: string

record ReservationView =
  rv_id :: string
  rv_venueId :: string
  rv_status :: ReservationStatus
  rv_storedStatus :: ReservationStatus
  rv_partySize :: int
  rv_during :: range
  rv_assignment :: Assignment
  rv_holdExpiresAt :: string
  rv_version :: int
  rv_externalRef :: "string option"
  rv_history :: "HistoryEntry list"

definition history_entry :: "AuditRow \<Rightarrow> HistoryEntry" where
  "history_entry a = \<lparr>h_action = au_action a, h_actor = au_actor a, h_at = toISOString (au_at a)\<rparr>"

definition getReservation :: "instant \<Rightarrow> string \<Rightarrow> string \<Rightarrow> db \<Rightarrow> ReservationView option" where
  "getReservation now reservationId venueId d = (let cx = bindVenue venueId now in
     case find_reservation_in cx d reservationId venueId of
       None \<Rightarrow> None
     | Some r \<Rightarrow> Some \<lparr>rv_id = r_id r, rv_venueId = r_venue r, rv_status = effective_status now r, rv_storedStatus = r_status r,
         rv_partySize = r_party_size r, rv_during = r_during r, rv_assignment = r_assignment r,
         rv_holdExpiresAt = toISOString (r_hold_expires_at r), rv_version = r_version r, rv_externalRef = r_external_ref r,
         rv_history = map history_entry (sort_key au_id (filter (\<lambda>a. au_entity_id a = reservationId \<and> au_venue a = venueId
           \<and> visible cx (au_venue a)) (audit_log d)))\<rparr>)"

text \<open>The function \<open>reservation_venue\<close> runs as its owner, whom no policy binds.\<close>

definition findReservationVenue :: "string \<Rightarrow> db \<Rightarrow> string option" where
  "findReservationVenue reservationId d = map_option r_venue (find (\<lambda>r. r_id r = reservationId) (reservations d))"

section \<open>listHolds\<close>

record HoldView =
  hv_id :: string
  hv_partySize :: int
  hv_during :: range
  hv_assignment :: Assignment
  hv_holdExpiresAt :: string
  hv_version :: int
  hv_externalRef :: "string option"

definition hold_view :: "ReservationRow \<Rightarrow> HoldView" where
  "hold_view r = \<lparr>hv_id = r_id r, hv_partySize = r_party_size r, hv_during = r_during r, hv_assignment = r_assignment r,
     hv_holdExpiresAt = toISOString (r_hold_expires_at r), hv_version = r_version r, hv_externalRef = r_external_ref r\<rparr>"

definition listHolds :: "instant \<Rightarrow> string \<Rightarrow> string \<Rightarrow> db \<Rightarrow> HoldView list" where
  "listHolds now venueId actor d = (let cx = bindVenue venueId now in
     map hold_view (sort_key (\<lambda>r. (r_hold_expires_at r, r_id r))
       (filter (\<lambda>r. r_venue r = venueId \<and> r_created_by r = actor \<and> r_status r = Held \<and> now < r_hold_expires_at r
          \<and> visible cx (r_venue r)) (reservations d))))"

section \<open>SnapshotCache\<close>

record Snapshot =
  sn_units :: "UnitSnapshot list"
  sn_combos :: "ComboSnapshot list"

text \<open>The entries of the \<open>Map\<close> in insertion order: venue, version, snapshot.\<close>

record SnapshotCache =
  entries :: "(string \<times> string \<times> Snapshot) list"
  max_entries :: nat

definition new_cache :: "nat \<Rightarrow> SnapshotCache" where
  "new_cache n = \<lparr>entries = [], max_entries = n\<rparr>"

definition map_delete :: "string \<Rightarrow> (string \<times> 'v) list \<Rightarrow> (string \<times> 'v) list" where
  "map_delete k es = filter (\<lambda>e. fst e \<noteq> k) es"

definition cache_get :: "SnapshotCache \<Rightarrow> string \<Rightarrow> string \<Rightarrow> Snapshot option \<times> SnapshotCache" where
  "cache_get c venueId version = (case map_of (entries c) venueId of
      None \<Rightarrow> (None, c)
    | Some hit \<Rightarrow> if fst hit \<noteq> version then (None, c)
        else (Some (snd hit), c\<lparr>entries := map_delete venueId (entries c) @ [(venueId, hit)]\<rparr>))"

text \<open>\<open>while (size > max)\<close> the first entry goes.\<close>

fun evict :: "nat \<Rightarrow> 'e list \<Rightarrow> 'e list" where
  "evict m [] = []"
| "evict m (e # es) = (if m < length (e # es) then evict m es else e # es)"

definition cache_set :: "SnapshotCache \<Rightarrow> string \<Rightarrow> string \<Rightarrow> Snapshot \<Rightarrow> SnapshotCache" where
  "cache_set c venueId version snapshot =
     c\<lparr>entries := evict (max_entries c) (map_delete venueId (entries c) @ [(venueId, version, snapshot)])\<rparr>"

section \<open>availability\<close>

record AvailabilityInput =
  ai_venueId :: string
  ai_partySize :: int
  ai_from :: string
  ai_to :: string
  ai_limit :: "int option"
  ai_ranking :: "RankingStrategy option"

definition unit_snapshot :: "UnitRow \<Rightarrow> UnitSnapshot" where
  "unit_snapshot u = \<lparr>us_id = u_id u, us_label = u_label u, us_capacityMin = u_capacity_min u, us_capacityMax = u_capacity_max u, us_active = u_active u\<rparr>"

definition combo_snapshot :: "ComboRow \<Rightarrow> ComboSnapshot" where
  "combo_snapshot c = \<lparr>cs_id = c_id c, cs_label = c_label c, cs_unitIds = c_unit_ids c, cs_capacityMin = c_capacity_min c,
     cs_capacityMax = c_capacity_max c, cs_active = c_active c\<rparr>"

definition load_snapshot :: "db \<Rightarrow> string \<Rightarrow> Snapshot" where
  "load_snapshot d venueId = \<lparr>
     sn_units = map unit_snapshot (sort_key (\<lambda>u. (u_label u, u_id u)) (filter (\<lambda>u. u_venue u = venueId) (units d))),
     sn_combos = map combo_snapshot (sort_key (\<lambda>c. (c_label c, c_id c)) (filter (\<lambda>c. c_venue c = venueId) (combos d)))\<rparr>"

text \<open>\<open>cache?.get\<close>, and on a miss the two queries and \<open>cache?.set\<close>.\<close>

definition read_through :: "('c \<Rightarrow> string \<Rightarrow> string \<Rightarrow> Snapshot option \<times> 'c) \<Rightarrow> ('c \<Rightarrow> string \<Rightarrow> string \<Rightarrow> Snapshot \<Rightarrow> 'c)
    \<Rightarrow> string \<Rightarrow> string \<Rightarrow> Snapshot \<Rightarrow> 'c option \<Rightarrow> Snapshot \<times> 'c option" where
  "read_through cget cset venueId version loaded cache = (case cache of
      None \<Rightarrow> (loaded, None)
    | Some c \<Rightarrow> (case cget c venueId version of
        (Some s, c') \<Rightarrow> (s, Some c')
      | (None, c') \<Rightarrow> (loaded, Some (cset c' venueId version loaded))))"

definition js_date :: "string \<Rightarrow> instant option" where
  "js_date s = (case date_parse s of None \<Rightarrow> None | Some t \<Rightarrow> if valid_time t then Some t else None)"

definition HOUR :: int where "HOUR = 3600000"

definition clamped_limit :: "int option \<Rightarrow> int" where
  "clamped_limit limit = min (max 1 (case limit of None \<Rightarrow> BOUNDS_availabilityResults_default | Some n \<Rightarrow> n)) BOUNDS_availabilityResults_max"

definition availability_request :: "zones \<Rightarrow> session \<Rightarrow> AvailabilityInput \<Rightarrow> VenueRow \<Rightarrow> Snapshot \<Rightarrow> db \<Rightarrow> instant \<Rightarrow> instant \<Rightarrow> AvailabilityComputation" where
  "availability_request z cx i v snap d from to = \<lparr>ac_partySize = ai_partySize i, ac_from = from, ac_to = to, ac_now = cx_now cx,
     ac_slotMinutes = v_slot_minutes v, ac_periods = PERIODS_SQL z d (ai_venueId i) from to,
     ac_units = sn_units snap, ac_combos = sn_combos snap,
     ac_closures = CLOSURES_SQL d (ai_venueId i) from (to + 12 * HOUR),
     ac_busy = OCCUPANCY_SQL cx d (from - 12 * HOUR) (to + 24 * HOUR), ac_limit = clamped_limit (ai_limit i), ac_ranking = ai_ranking i\<rparr>"

text \<open>The result with the cache as the call leaves it.\<close>

definition availability :: "zones \<Rightarrow> instant \<Rightarrow> AvailabilityInput \<Rightarrow> SnapshotCache option \<Rightarrow> db
    \<Rightarrow> (DastarError + (Slot list \<times> bool)) \<times> SnapshotCache option" where
  "availability z now i cache d = (let cx = bindVenue (ai_venueId i) now in
     case find_venue d (ai_venueId i) of
       None \<Rightarrow> (Inl (dastar_error Not_found ''venue not found''), cache)
     | Some v \<Rightarrow> (case (js_date (ai_from i), js_date (ai_to i)) of
         (Some from, Some to) \<Rightarrow>
           if v_availability_window_days v * 24 * HOUR < to - from then
             (Inl (dastar_error Window_too_large (''the window is longer than the venue'' @ CHR 0x27 # ''s '' @ show_int (v_availability_window_days v) @ '' days'')), cache)
           else if \<not> from < to \<or> \<not> 1 \<le> ai_partySize i then (Inr ([], False), cache)
           else (case read_through cache_get cache_set (ai_venueId i) (show_int (v_config_version v)) (load_snapshot d (ai_venueId i)) cache of
             (snap, cache') \<Rightarrow>
               if \<not> (valid_time (to + 12 * HOUR) \<and> valid_time (from - 12 * HOUR) \<and> valid_time (to + 24 * HOUR))
               then (Inl (asDastarError (ExError ''Invalid time value'')), cache')
               else (case computeAvailability (availability_request z cx i v snap d from to) of
                   Inl m \<Rightarrow> (Inl (asDastarError (ExError m)), cache')
                 | Inr r \<Rightarrow> (Inr r, cache')))
       | _ \<Rightarrow> (Inr ([], False), cache)))"

end
