(* ===== verification/ReadProperties.thy ===== *)
theory ReadProperties
  imports CmdReads LifecycleProperties
begin

text \<open>
  The properties of the reads: the list of holds against the cap, the history of a reservation against its
  version, and the snapshot cache, whose contract is the locale \<open>snapshot_store\<close>.
\<close>

section \<open>The snapshot cache\<close>

text \<open>
  What a read through a cache relies on: \<open>holds_entry c venue version s\<close> is what the cache may answer, a hit is one
  of its entries, a read adds none, and a write adds only its own.
\<close>

locale snapshot_store =
  fixes cget :: "'c \<Rightarrow> string \<Rightarrow> string \<Rightarrow> Snapshot option \<times> 'c" and cset :: "'c \<Rightarrow> string \<Rightarrow> string \<Rightarrow> Snapshot \<Rightarrow> 'c"
    and holds_entry :: "'c \<Rightarrow> string \<Rightarrow> string \<Rightarrow> Snapshot \<Rightarrow> bool"
  assumes hit: "cget c v ver = (Some s, c') \<Longrightarrow> holds_entry c v ver s"
    and get_adds_none: "cget c v ver = (r, c') \<Longrightarrow> holds_entry c' v2 ver2 s2 \<Longrightarrow> holds_entry c v2 ver2 s2"
    and set_adds_one: "holds_entry (cset c v ver s) v2 ver2 s2 \<Longrightarrow> v2 = v \<and> ver2 = ver \<and> s2 = s \<or> holds_entry c v2 ver2 s2"
begin

text \<open>A cache whose entries are right is transparent, and stays right.\<close>

lemma transparent:
  assumes "\<And>c s. cache = Some c \<Longrightarrow> holds_entry c v ver s \<Longrightarrow> s = loaded"
  shows "fst (read_through cget cset v ver loaded cache) = loaded"
proof (cases cache)
  case (Some x)
  obtain r c' where g: "cget x v ver = (r, c')" by (cases "cget x v ver")
  with Some assms show ?thesis by (cases r) (auto simp: read_through_def dest: hit)
qed (simp add: read_through_def)

lemma stays_right:
  assumes "\<And>v2 ver2 s2. holds_entry c v2 ver2 s2 \<Longrightarrow> right v2 ver2 s2" and "right v ver loaded"
    and "snd (read_through cget cset v ver loaded (Some c)) = Some c'" and "holds_entry c' v2 ver2 s2"
  shows "right v2 ver2 s2"
proof -
  obtain r c1 where g: "cget c v ver = (r, c1)" by (cases "cget c v ver")
  show ?thesis
  proof (cases r)
    case None
    with g assms(3) have "c' = cset c1 v ver loaded" by (simp add: read_through_def)
    with assms(1,2,4) get_adds_none [OF g] set_adds_one show ?thesis by blast
  next
    case (Some s)
    with g assms(3) have "c' = c1" by (simp add: read_through_def)
    with assms(1,4) get_adds_none [OF g] show ?thesis by blast
  qed
qed

end

definition cache_holds :: "SnapshotCache \<Rightarrow> string \<Rightarrow> string \<Rightarrow> Snapshot \<Rightarrow> bool" where
  "cache_holds c v ver s \<longleftrightarrow> (v, ver, s) \<in> set (entries c)"

lemma set_evict: "set (evict m es) \<subseteq> set es"
  by (induction es) auto

lemma length_evict: "length (evict m es) \<le> m \<or> evict m es = es \<and> length es \<le> m"
  by (induction es) auto

interpretation snapshots: snapshot_store cache_get cache_set cache_holds
proof
  show "cache_holds c v ver s" if "cache_get c v ver = (Some s, c')" for c v ver s c'
    using that by (auto simp: cache_get_def cache_holds_def split: option.splits if_splits dest: map_of_SomeD)
  show "cache_holds c v2 ver2 s2" if "cache_get c v ver = (r, c')" "cache_holds c' v2 ver2 s2" for c v ver r c' v2 ver2 s2
    using that by (auto simp: cache_get_def cache_holds_def map_delete_def split: option.splits if_splits dest: map_of_SomeD)
  show "v2 = v \<and> ver2 = ver \<and> s2 = s \<or> cache_holds c v2 ver2 s2" if "cache_holds (cache_set c v ver s) v2 ver2 s2" for c v ver s v2 ver2 s2
    using that set_evict by (fastforce simp: cache_set_def cache_holds_def map_delete_def)
qed

text \<open>
  An entry is right for a database when its version is one the venue has had, and its snapshot is the stored one if the
  version is still the venue's.
\<close>

definition entry_right :: "db \<Rightarrow> string \<Rightarrow> string \<Rightarrow> Snapshot \<Rightarrow> bool" where
  "entry_right d v ver s \<longleftrightarrow> (\<exists>n row. ver = show_int n \<and> find_venue d v = Some row \<and> n \<le> v_config_version row
     \<and> (n = v_config_version row \<longrightarrow> s = load_snapshot d v))"

definition cache_right :: "SnapshotCache \<Rightarrow> db \<Rightarrow> bool" where
  "cache_right c d \<longleftrightarrow> (\<forall>v ver s. cache_holds c v ver s \<longrightarrow> entry_right d v ver s) \<and> distinct (map fst (entries c))
     \<and> length (entries c) \<le> max_entries c"

lemma right_current: "entry_right d v (show_int (v_config_version row)) s \<Longrightarrow> find_venue d v = Some row \<Longrightarrow> s = load_snapshot d v"
  by (auto simp: entry_right_def dest: show_int_inj)

lemma distinct_evict: "distinct (map fst es) \<Longrightarrow> distinct (map fst (evict m es))"
  by (induction es) auto

lemma cache_shape:
  assumes "distinct (map fst (entries c))" and "length (entries c) \<le> max_entries c"
    and "snd (read_through cache_get cache_set v ver s (Some c)) = Some c'"
  shows "distinct (map fst (entries c')) \<and> length (entries c') \<le> max_entries c' \<and> max_entries c' = max_entries c"
proof -
  have d: "distinct (map fst (map_delete v (entries c) @ [(v, x)]))" for x
    using assms(1) distinct_map_filter [of fst "entries c"] by (auto simp: map_delete_def)
  have le: "length (map_delete v (entries c)) < length (entries c)" if "map_of (entries c) v = Some y" for y
    using map_of_SomeD [OF that] unfolding map_delete_def by (auto intro!: length_filter_less)
  show ?thesis
  proof (cases "cache_get c v ver")
    case (Pair r c1)
    show ?thesis
    proof (cases r)
      case None
      then have "c1 = c" using Pair by (auto simp: cache_get_def split: option.splits if_splits)
      with assms(3) Pair None have c': "c' = cache_set c v ver s" by (simp add: read_through_def)
      show ?thesis using distinct_evict [OF d [of "(ver, s)"]] length_evict [of "max_entries c" "map_delete v (entries c) @ [(v, ver, s)]"]
        by (auto simp: c' cache_set_def)
    next
      case (Some y)
      with Pair obtain hit where h: "map_of (entries c) v = Some hit" "c1 = c\<lparr>entries := map_delete v (entries c) @ [(v, hit)]\<rparr>"
        by (auto simp: cache_get_def split: option.splits if_splits)
      with assms(3) Pair Some have "c' = c1" by (simp add: read_through_def)
      with h d [of hit] le [OF h(1)] assms(2) show ?thesis by auto
    qed
  qed
qed


lemma read_through_Some: "\<exists>snap c'. read_through cache_get cache_set v ver s (Some c) = (snap, Some c')"
  by (cases "cache_get c v ver"; cases "fst (cache_get c v ver)") (auto simp: read_through_def)

lemma availability_cache:
  "snd (availability z now i (Some c) d) = Some c \<or> (\<exists>row c'. find_venue d (ai_venueId i) = Some row
     \<and> snd (availability z now i (Some c) d) = Some c'
     \<and> snd (read_through cache_get cache_set (ai_venueId i) (show_int (v_config_version row)) (load_snapshot d (ai_venueId i)) (Some c)) = Some c')"
proof (cases "find_venue d (ai_venueId i)")
  case None
  then show ?thesis by (simp add: availability_def)
next
  case (Some row)
  obtain snap c' where rt: "read_through cache_get cache_set (ai_venueId i) (show_int (v_config_version row)) (load_snapshot d (ai_venueId i)) (Some c)
      = (snap, Some c')" using read_through_Some by metis
  have "snd (availability z now i (Some c) d) \<in> {Some c, Some c'}"
    by (simp add: availability_def Let_def Some rt split: option.split sum.split)
  then show ?thesis using Some rt by auto
qed

text \<open>
  C18: the availability answered through the cache is the availability computed from the stored units and
  combinations, whenever the cache is right; and the call leaves it right and within its size. An entry is never stale for
  its key, since the key carries the venue's config version.
\<close>

theorem cached_availability_exact:
  assumes "cache_right c d"
  shows "fst (availability z now i (Some c) d) = fst (availability z now i None d)
    \<and> (\<exists>c'. snd (availability z now i (Some c) d) = Some c' \<and> cache_right c' d \<and> max_entries c' = max_entries c)"
proof
  have r: "fst (read_through cache_get cache_set (ai_venueId i) (show_int (v_config_version row)) (load_snapshot d (ai_venueId i)) (Some c))
     = load_snapshot d (ai_venueId i)" if "find_venue d (ai_venueId i) = Some row" for row
  proof (rule snapshots.transparent)
    fix x s assume "Some c = Some x" "cache_holds x (ai_venueId i) (show_int (v_config_version row)) s"
    then have "entry_right d (ai_venueId i) (show_int (v_config_version row)) s" using assms by (simp add: cache_right_def)
    then show "s = load_snapshot d (ai_venueId i)" using right_current that by blast
  qed
  have n: "read_through cache_get cache_set v ver s None = (s, None)" for v ver s by (simp add: read_through_def)
  show "fst (availability z now i (Some c) d) = fst (availability z now i None d)"
  proof (cases "find_venue d (ai_venueId i)")
    case None
    then show ?thesis by (simp add: availability_def)
  next
    case (Some row)
    obtain c' where rt: "read_through cache_get cache_set (ai_venueId i) (show_int (v_config_version row)) (load_snapshot d (ai_venueId i)) (Some c)
      = (load_snapshot d (ai_venueId i), c')" using r [OF Some] by (metis prod.collapse)
    show ?thesis
      by (simp add: availability_def Some rt n Let_def split: option.split sum.split)
  qed
  from availability_cache [of z now i c d] show "\<exists>c'. snd (availability z now i (Some c) d) = Some c' \<and> cache_right c' d \<and> max_entries c' = max_entries c"
  proof (elim disjE exE conjE)
    fix row c'
    assume row: "find_venue d (ai_venueId i) = Some row" and c': "snd (availability z now i (Some c) d) = Some c'"
      and rt: "snd (read_through cache_get cache_set (ai_venueId i) (show_int (v_config_version row)) (load_snapshot d (ai_venueId i)) (Some c)) = Some c'"
    have "entry_right d v ver s" if "cache_holds c' v ver s" for v ver s
      by (rule snapshots.stays_right [OF _ _ rt that]) (use assms row in \<open>auto simp: cache_right_def entry_right_def\<close>)
    with cache_shape [OF _ _ rt] assms c' show ?thesis by (auto simp: cache_right_def)
  qed (use assms in auto)
qed

text \<open>
  The witness: a venue open on a Tuesday evening, whose configuration has moved on since the cache saw it. An entry of
  the version before with no units in it, and an entry of the current version, answer the same two slots.
\<close>

definition evening_db :: db where
  "evening_db = demo_db\<lparr>venues := [demo_venue\<lparr>v_config_version := 1\<rparr>],
     schedules := [\<lparr>s_id = ''s'', s_venue = ''v'', s_day_of_week = 2, s_opens = 1080, s_closes = 1260, s_closes_next_day = False,
       s_duration_by_size = [(''2'', 90)], s_gap_minutes = 15, s_active = True\<rparr>]\<rparr>"

definition evening :: AvailabilityInput where
  "evening = \<lparr>ai_venueId = ''v'', ai_partySize = 2, ai_from = ''2030-01-01T18:00:00Z'', ai_to = ''2030-01-01T18:20:00Z'',
     ai_limit = None, ai_ranking = None\<rparr>"

definition evening_slots :: "Slot list" where
  "evening_slots = map (\<lambda>t. \<lparr>slot_startsAt = t, slot_durationMinutes = 90, slot_assignment = on_a\<rparr>)
     [''2030-01-01T18:00:00.000Z'', ''2030-01-01T18:15:00.000Z'']"

definition stale_cache :: SnapshotCache where
  "stale_cache = \<lparr>entries = [(''v'', show_int 0, \<lparr>sn_units = [], sn_combos = []\<rparr>)], max_entries = 64\<rparr>"

definition current_cache :: SnapshotCache where
  "current_cache = \<lparr>entries = [(''v'', show_int 1, load_snapshot evening_db ''v'')], max_entries = 64\<rparr>"

lemma evening_uncached: "fst (availability utc_zones 0 evening None evening_db) = Inr (evening_slots, False)"
  by code_simp

lemma evening_caches: "cache_right stale_cache evening_db" "cache_right current_cache evening_db"
proof -
  let ?v = "demo_venue\<lparr>v_config_version := 1\<rparr>"
  have v: "find_venue evening_db ''v'' = Some ?v" by (simp add: evening_db_def find_venue_def demo_venue_def)
  have "entry_right evening_db ''v'' (show_int 0) s" for s
    unfolding entry_right_def by (rule exI [of _ 0], rule exI [of _ ?v]) (simp add: v)
  then show "cache_right stale_cache evening_db"
    by (simp add: cache_right_def cache_holds_def stale_cache_def)
  have "entry_right evening_db ''v'' (show_int 1) (load_snapshot evening_db ''v'')"
    unfolding entry_right_def by (rule exI [of _ 1], rule exI [of _ ?v]) (simp add: v)
  then show "cache_right current_cache evening_db"
    by (simp add: cache_right_def cache_holds_def current_cache_def)
qed

theorem cached_availability_exact_witness:
  "fst (availability utc_zones 0 evening (Some stale_cache) evening_db) = Inr (evening_slots, False)
   \<and> fst (availability utc_zones 0 evening (Some current_cache) evening_db) = Inr (evening_slots, False)
   \<and> (\<exists>c. snd (availability utc_zones 0 evening (Some stale_cache) evening_db) = Some c \<and> cache_right c evening_db)"
  using cached_availability_exact [OF evening_caches(1), of utc_zones 0 evening]
    cached_availability_exact [OF evening_caches(2), of utc_zones 0 evening] evening_uncached by auto

section \<open>The list of holds\<close>

text \<open>
  C25: the list of an actor's holds is what the cap on live holds counts: as many entries as \<open>LIVE_HOLDS_SQL\<close> returns, each a
  held reservation of the venue and the actor that has not reached its expiry, soonest expiry first.
\<close>

theorem listHolds_exact:
  "length (listHolds now venue actor d) = LIVE_HOLDS_SQL (bindVenue venue now) d venue actor
   \<and> (\<forall>v. v \<in> set (listHolds now venue actor d) \<longleftrightarrow> (\<exists>r\<in>set (reservations d). v = hold_view r \<and> r_venue r = venue
        \<and> r_created_by r = actor \<and> r_status r = Held \<and> live now r))
   \<and> (\<exists>rs. listHolds now venue actor d = map hold_view rs \<and> sorted (map r_hold_expires_at rs))"
proof (intro conjI)
  let ?P = "\<lambda>r. r_venue r = venue \<and> r_created_by r = actor \<and> r_status r = Held \<and> now < r_hold_expires_at r"
  have l: "listHolds now venue actor d = map hold_view (sort_key (\<lambda>r. (r_hold_expires_at r, r_id r)) (filter ?P (reservations d)))"
    unfolding listHolds_def Let_def
    by (intro arg_cong [where f = "map hold_view"] arg_cong [where f = "sort_key (\<lambda>r. (r_hold_expires_at r, r_id r))"] filter_cong refl)
      (auto simp: visible_def bindVenue_def)
  show "length (listHolds now venue actor d) = LIVE_HOLDS_SQL (bindVenue venue now) d venue actor"
    by (simp add: l LIVE_HOLDS_SQL_def bindVenue_def)
  show "\<forall>v. v \<in> set (listHolds now venue actor d) \<longleftrightarrow> (\<exists>r\<in>set (reservations d). v = hold_view r \<and> r_venue r = venue
        \<and> r_created_by r = actor \<and> r_status r = Held \<and> live now r)"
    unfolding l set_map set_sort set_filter image_iff live_iff by auto
  have "sorted (map (\<lambda>r. (r_hold_expires_at r, r_id r)) (sort_key (\<lambda>r. (r_hold_expires_at r, r_id r)) (filter ?P (reservations d))))"
    by (rule sorted_sort_key)
  then have "sorted (map r_hold_expires_at (sort_key (\<lambda>r. (r_hold_expires_at r, r_id r)) (filter ?P (reservations d))))"
    unfolding sorted_map by (rule sorted_wrt_mono_rel [rotated]) auto
  with l show "\<exists>rs. listHolds now venue actor d = map hold_view rs \<and> sorted (map r_hold_expires_at rs)" by blast
qed

section \<open>The history\<close>

lemma audit_chain_length:
  "audit_chain a xs (Some b) \<Longrightarrow> r_version b = (case a of None \<Rightarrow> 0 | Some r \<Rightarrow> r_version r) + int (length xs)"
  by (induction xs arbitrary: a) (force simp: audit_step_ok_def split: option.splits)+

lemma audit_chain_last:
  "audit_chain a xs (Some b) \<Longrightarrow> xs \<noteq> [] \<Longrightarrow> au_after (last xs) = b"
  by (induction xs arbitrary: a) auto

lemma audit_chain_nonempty: "audit_chain None xs (Some b) \<Longrightarrow> xs \<noteq> []"
  by auto

lemma audit_chain_nth:
  "audit_chain a xs b \<Longrightarrow> k < length xs \<Longrightarrow>
     au_before (xs ! k) = (case k of 0 \<Rightarrow> a | Suc j \<Rightarrow> Some (au_after (xs ! j)))
     \<and> au_action (xs ! k) = audit_action (au_before (xs ! k)) (au_after (xs ! k))
     \<and> r_version (au_after (xs ! k)) = (case a of None \<Rightarrow> 0 | Some r \<Rightarrow> r_version r) + int k + 1"
proof (induction xs arbitrary: a k)
  case (Cons x xs)
  show ?case
  proof (cases k)
    case 0
    with Cons.prems show ?thesis by (auto simp: audit_step_ok_def split: option.splits)
  next
    case (Suc j)
    from Cons.prems have c: "audit_chain (Some (au_after x)) xs b" and v: "r_version (au_after x) = (case a of None \<Rightarrow> 0 | Some r \<Rightarrow> r_version r) + 1"
      by (auto simp: audit_step_ok_def split: option.splits)
    from Suc Cons.prems(2) have "j < length xs" by simp
    from Cons.IH [OF c this] v Suc show ?thesis by (cases j) simp_all
  qed
qed simp

lemma sorted_key_filter: "sorted_wrt (<) (map f xs) \<Longrightarrow> sort_key (f :: _ \<Rightarrow> nat) (filter P xs) = filter P xs"
  by (intro sort_key_id_if_sorted) (metis sorted_filter strict_sorted_imp_sorted)

text \<open>
  The entries of a history tell a reservation's life: the rows chain from the insertion to the row stored (which the
  trail shows without its token hash), the k-th is the k-th version, and each entry names the step between its two
  statuses.
\<close>

definition tells :: "HistoryEntry list \<Rightarrow> AuditRow list \<Rightarrow> ReservationRow \<Rightarrow> bool" where
  "tells hs as r \<longleftrightarrow> hs = map history_entry as \<and> int (length as) = r_version r
     \<and> (\<forall>k<length as. au_before (as ! k) = (case k of 0 \<Rightarrow> None | Suc j \<Rightarrow> Some (au_after (as ! j)))
          \<and> r_version (au_after (as ! k)) = int k + 1
          \<and> h_action (hs ! k) = audit_action (au_before (as ! k)) (au_after (as ! k)))
     \<and> as \<noteq> [] \<and> h_action (hd hs) = ''insert'' \<and> au_after (last as) = audited r \<and> r_status (au_after (last as)) = r_status r"

lemma chain_tells:
  assumes "audit_chain None as (Some (audited r))"
  shows "tells (map history_entry as) as r"
proof -
  note n = audit_chain_nth [OF assms] and e = audit_chain_nonempty [OF assms]
  have "au_action (hd as) = ''insert''" using n [of 0] e by (simp add: hd_conv_nth audit_action_def)
  then have "h_action (hd (map history_entry as)) = ''insert''" using e by (cases as) (simp_all add: history_entry_def)
  moreover have "au_after (last as) = audited r" by (rule audit_chain_last [OF assms e])
  moreover have "int (length as) = r_version r" using audit_chain_length [OF assms] by simp
  ultimately show ?thesis using n e by (simp add: tells_def history_entry_def)
qed

text \<open>
  C26: a reservation of the venue reads with its stored and its effective status and its whole history, in order: one entry
  per version, the insertion first, each naming its step, each by an actor, the last leading to the row stored and so to its
  status. A reservation of another venue reads as absent.
\<close>

theorem getReservation_history:
  assumes "inv T {} d"
  shows "(\<forall>r\<in>set (reservations d). \<exists>v. getReservation now (r_id r) (r_venue r) d = Some v
      \<and> rv_id v = r_id r \<and> rv_status v = effective_status now r \<and> rv_storedStatus v = r_status r \<and> rv_version v = r_version r
      \<and> int (length (rv_history v)) = r_version r \<and> tells (rv_history v) (trail d (r_id r)) r
      \<and> (\<forall>h\<in>set (rv_history v). h_actor h \<noteq> []))
   \<and> (\<forall>rid venue. (\<nexists>r. r \<in> set (reservations d) \<and> r_id r = rid \<and> r_venue r = venue) \<longrightarrow> getReservation now rid venue d = None)"
proof (intro conjI ballI allI impI)
  fix r assume r: "r \<in> set (reservations d)"
  have A: "audit_ok d" and I: "ids_ok d" using assms by (auto simp: inv_def)
  have f: "find_reservation_in (bindVenue (r_venue r) now) d (r_id r) (r_venue r) = Some r"
    by (rule find_reservation_in_by_id [OF I r]) (simp add: visible_def bindVenue_def)
  have ven: "au_venue a = r_venue r" if "a \<in> set (audit_log d)" "au_entity_id a = r_id r" for a
  proof -
    from A that(1) obtain s where "s \<in> set (reservations d)" "r_id s = au_entity_id a" "r_venue s = au_venue a"
      by (auto simp: audit_ok_def)
    with distinct_key_eq [of r_id "reservations d" s r] I r that(2) show ?thesis by (simp add: ids_ok_def)
  qed
  have "filter (\<lambda>a. au_entity_id a = r_id r \<and> au_venue a = r_venue r \<and> visible (bindVenue (r_venue r) now) (au_venue a)) (audit_log d) = trail d (r_id r)"
    unfolding trail_def by (rule filter_cong [OF refl]) (auto simp: ven visible_def bindVenue_def)
  moreover have "sort_key au_id (trail d (r_id r)) = trail d (r_id r)"
    unfolding trail_def by (rule sorted_key_filter) (use A in \<open>simp add: audit_ok_def\<close>)
  moreover have "tells (map history_entry (trail d (r_id r))) (trail d (r_id r)) r"
    by (rule chain_tells) (use A r in \<open>simp add: audit_ok_def\<close>)
  moreover from this have "int (length (trail d (r_id r))) = r_version r" by (simp add: tells_def)
  moreover have "au_actor a \<noteq> []" if "a \<in> set (trail d (r_id r))" for a using A that by (auto simp: trail_def audit_ok_def)
  ultimately show "\<exists>v. getReservation now (r_id r) (r_venue r) d = Some v
      \<and> rv_id v = r_id r \<and> rv_status v = effective_status now r \<and> rv_storedStatus v = r_status r \<and> rv_version v = r_version r
      \<and> int (length (rv_history v)) = r_version r \<and> tells (rv_history v) (trail d (r_id r)) r
      \<and> (\<forall>h\<in>set (rv_history v). h_actor h \<noteq> [])"
    by (simp add: getReservation_def Let_def f history_entry_def)
next
  fix rid venue
  assume "\<nexists>r. r \<in> set (reservations d) \<and> r_id r = rid \<and> r_venue r = venue"
  then have "find_reservation_in (bindVenue venue now) d rid venue = None"
    by (meson find_reservation_in_D not_Some_eq)
  then show "getReservation now rid venue d = None" by (simp add: getReservation_def)
qed

theorem getReservation_history_witness:
  "\<exists>v. getReservation 700000 ''r1'' ''v'' held_db = Some v \<and> rv_storedStatus v = Held \<and> rv_status v = Expired \<and> map h_action (rv_history v) = [''insert'']"
proof -
  have "demo_reservation \<in> set (reservations held_db)" by (simp add: held_db_def)
  from getReservation_history [OF held_db_inv, of 700000, THEN conjunct1, rule_format, OF this] show ?thesis
    by (auto simp: demo_reservation_def effective_status_def tells_def hd_map length_Suc_conv)
qed

end
