(* ===== verification/WireTypes.thy ===== *)
theory WireTypes
  imports JsonValue
begin

text \<open>
  The types an OpenAPI document gives requests and responses, as the generated client writes them, and when a
  JSON value is of such a type.
\<close>

text \<open>
  A field is its name, whether it is always there, and its type. \<open>WIndex\<close> is an index signature, \<open>WNullable\<close> a
  union with null, \<open>WEnum\<close> a union of string literals, \<open>WRef\<close> a named schema of the components.
\<close>

datatype wire =
    WString
  | WNumber
  | WBoolean
  | WUnknown
  | WEnum "string list"
  | WNullable wire
  | WArray wire
  | WIndex wire
  | WObject "(string \<times> bool \<times> wire) list"
  | WRef string

datatype http_method = Get | Put | Post | Delete | Options | Head | Patch | Trace

datatype media = JsonContent wire | ProblemContent wire

definition media_type :: "media \<Rightarrow> string" where
  "media_type m = (case m of JsonContent _ \<Rightarrow> ''application/json'' | ProblemContent _ \<Rightarrow> ''application/problem+json'')"

definition media_wire :: "media \<Rightarrow> wire" where
  "media_wire m = (case m of JsonContent w \<Rightarrow> w | ProblemContent w \<Rightarrow> w)"

text \<open>One method of a path: its parameters, the type of its JSON body, and its responses by status.\<close>

record operation =
  op_query :: "(string \<times> bool \<times> wire) list"
  op_header :: "(string \<times> bool \<times> wire) list"
  op_path :: "(string \<times> bool \<times> wire) list"
  op_body :: "wire option"
  op_responses :: "(nat \<times> string \<times> media) list"

abbreviation problem_json :: media where "problem_json \<equiv> ProblemContent (WRef ''Problem'')"

definition find_operation :: "(string \<times> (http_method \<times> operation) list) list \<Rightarrow> string \<Rightarrow> http_method \<Rightarrow> operation option" where
  "find_operation paths p m = Option.bind (map_of paths p) (\<lambda>ms. map_of ms m)"

section \<open>Values of a type\<close>

text \<open>
  \<open>conforms schemas n w v\<close>: \<open>v\<close> is a value of \<open>w\<close>, references followed through at most \<open>n\<close> schemas. The types
  are open: a field they do not name is allowed.
\<close>

fun conforms :: "(string \<times> wire) list \<Rightarrow> nat \<Rightarrow> wire \<Rightarrow> jval \<Rightarrow> bool" where
  "conforms S n WString v \<longleftrightarrow> (case v of VStr _ \<Rightarrow> True | _ \<Rightarrow> False)"
| "conforms S n WNumber v \<longleftrightarrow> (case v of VNum _ \<Rightarrow> True | _ \<Rightarrow> False)"
| "conforms S n WBoolean v \<longleftrightarrow> (case v of VBool _ \<Rightarrow> True | _ \<Rightarrow> False)"
| "conforms S n WUnknown v \<longleftrightarrow> True"
| "conforms S n (WEnum ss) v \<longleftrightarrow> (case v of VStr s \<Rightarrow> s \<in> set ss | _ \<Rightarrow> False)"
| "conforms S n (WNullable w) v \<longleftrightarrow> v = VNull \<or> conforms S n w v"
| "conforms S n (WArray w) v \<longleftrightarrow> (case v of VArr xs \<Rightarrow> list_all (conforms S n w) xs | _ \<Rightarrow> False)"
| "conforms S n (WIndex w) v \<longleftrightarrow> (case v of VObj fs \<Rightarrow> list_all (\<lambda>f. conforms S n w (snd f)) fs | _ \<Rightarrow> False)"
| "conforms S n (WObject ts) v \<longleftrightarrow> (case v of VObj fs \<Rightarrow>
      list_all (\<lambda>t. case map_of fs (fst t) of None \<Rightarrow> \<not> fst (snd t) | Some x \<Rightarrow> conforms S n (snd (snd t)) x) ts | _ \<Rightarrow> False)"
| "conforms S 0 (WRef r) v \<longleftrightarrow> False"
| "conforms S (Suc n) (WRef r) v \<longleftrightarrow> (case map_of S r of None \<Rightarrow> False | Some w \<Rightarrow> conforms S n w v)"

text \<open>Whether a response is one the operation declares: its status, its media type and the type of its body.\<close>

definition declared_response :: "(string \<times> wire) list \<Rightarrow> operation \<Rightarrow> nat \<Rightarrow> string \<Rightarrow> jval \<Rightarrow> bool" where
  "declared_response S oper status mt body \<longleftrightarrow> (case map_of (op_responses oper) status of
      None \<Rightarrow> False
    | Some (_, m) \<Rightarrow> media_type m = mt \<and> conforms S 3 (media_wire m) body)"

end
