(* ===== verification/ApiSchemas.thy ===== *)
theory ApiSchemas
  imports WireTypes JsDate CoreErrors
begin

text \<open>
  The schemas of \<open>apps/api/src/schemas.ts\<close>: what the API accepts and what it says it returns. A schema is data;
  what \<open>zod\<close> makes of it is \<open>output_ok\<close>, its documented meaning, and the type it has in the OpenAPI document is
  \<open>wire_of\<close>. Messages and descriptions are left out.
\<close>

section \<open>Schemas\<close>

datatype presence = Required | Optional | Default jval

text \<open>
  Lengths are bounds of a string or an array. \<open>ZRegex\<close> and \<open>ZRefine\<close> carry the predicate; \<open>ZNamed\<close> is
  \<open>.openapi(name)\<close>.
\<close>

datatype zod =
    ZString "nat option" "nat option"
  | ZRegex "string \<Rightarrow> bool"
  | ZGuid
  | ZDatetime
  | ZInt "int option" "int option"
  | ZBoolean
  | ZUnknown
  | ZEnum "string list"
  | ZNullable zod
  | ZArray "nat option" "nat option" zod
  | ZRecord "string \<Rightarrow> bool" zod
  | ZObject "(string \<times> presence \<times> zod) list"
  | ZRefine "jval \<Rightarrow> bool" zod
  | ZNamed string zod

definition in_bounds :: "'a::linorder option \<Rightarrow> 'a option \<Rightarrow> 'a \<Rightarrow> bool" where
  "in_bounds lo hi x \<longleftrightarrow> (case lo of None \<Rightarrow> True | Some l \<Rightarrow> l \<le> x) \<and> (case hi of None \<Rightarrow> True | Some h \<Rightarrow> x \<le> h)"

definition guid_char :: "char \<Rightarrow> bool" where
  "guid_char c \<longleftrightarrow> c \<in> set ''0123456789abcdefABCDEF''"

text \<open>\<open>8-4-4-4-12\<close> hex digits.\<close>

definition guid :: "string \<Rightarrow> bool" where
  "guid s \<longleftrightarrow> length s = 36 \<and> list_all (\<lambda>(i, c). if i \<in> {8, 13, 18, 23} then c = CHR ''-'' else guid_char c) (zip [0..<36] s)"

text \<open>A value a schema's parser returns.\<close>

fun output_ok :: "zod \<Rightarrow> jval \<Rightarrow> bool" where
  "output_ok (ZString lo hi) v \<longleftrightarrow> (case v of VStr s \<Rightarrow> in_bounds lo hi (length s) | _ \<Rightarrow> False)"
| "output_ok (ZRegex p) v \<longleftrightarrow> (case v of VStr s \<Rightarrow> p s | _ \<Rightarrow> False)"
| "output_ok ZGuid v \<longleftrightarrow> (case v of VStr s \<Rightarrow> guid s | _ \<Rightarrow> False)"
| "output_ok ZDatetime v \<longleftrightarrow> (case v of VStr s \<Rightarrow> True | _ \<Rightarrow> False)"
| "output_ok (ZInt lo hi) v \<longleftrightarrow> (case v of VNum n \<Rightarrow> (case js_integer n of None \<Rightarrow> False | Some i \<Rightarrow> in_bounds lo hi i) | _ \<Rightarrow> False)"
| "output_ok ZBoolean v \<longleftrightarrow> (case v of VBool _ \<Rightarrow> True | _ \<Rightarrow> False)"
| "output_ok ZUnknown v \<longleftrightarrow> True"
| "output_ok (ZEnum ss) v \<longleftrightarrow> (case v of VStr s \<Rightarrow> s \<in> set ss | _ \<Rightarrow> False)"
| "output_ok (ZNullable z) v \<longleftrightarrow> v = VNull \<or> output_ok z v"
| "output_ok (ZArray lo hi z) v \<longleftrightarrow> (case v of VArr xs \<Rightarrow> in_bounds lo hi (length xs) \<and> list_all (output_ok z) xs | _ \<Rightarrow> False)"
| "output_ok (ZRecord p z) v \<longleftrightarrow> (case v of VObj fs \<Rightarrow> list_all (\<lambda>f. p (fst f) \<and> output_ok z (snd f)) fs | _ \<Rightarrow> False)"
| "output_ok (ZObject ts) v \<longleftrightarrow> (case v of VObj fs \<Rightarrow>
      list_all (\<lambda>t. case map_of fs (fst t) of None \<Rightarrow> fst (snd t) = Optional | Some x \<Rightarrow> output_ok (snd (snd t)) x) ts
      \<and> list_all (\<lambda>f. map_of ts (fst f) \<noteq> None) fs | _ \<Rightarrow> False)"
| "output_ok (ZRefine p z) v \<longleftrightarrow> output_ok z v \<and> p v"
| "output_ok (ZNamed n z) v \<longleftrightarrow> output_ok z v"

text \<open>The type of a schema in the document; a named schema is a reference to its component.\<close>

fun wire_of :: "zod \<Rightarrow> wire" where
  "wire_of (ZString lo hi) = WString"
| "wire_of (ZRegex p) = WString"
| "wire_of ZGuid = WString"
| "wire_of ZDatetime = WString"
| "wire_of (ZInt lo hi) = WNumber"
| "wire_of ZBoolean = WBoolean"
| "wire_of ZUnknown = WUnknown"
| "wire_of (ZEnum ss) = WEnum ss"
| "wire_of (ZNullable z) = WNullable (wire_of z)"
| "wire_of (ZArray lo hi z) = WArray (wire_of z)"
| "wire_of (ZRecord p z) = WIndex (wire_of z)"
| "wire_of (ZObject ts) = WObject (map (\<lambda>t. (fst t, fst (snd t) = Required, wire_of (snd (snd t)))) ts)"
| "wire_of (ZRefine p z) = wire_of z"
| "wire_of (ZNamed n z) = WRef n"

text \<open>The components a schema adds to the document.\<close>

fun components_of :: "zod \<Rightarrow> (string \<times> wire) list" where
  "components_of (ZNullable z) = components_of z"
| "components_of (ZArray lo hi z) = components_of z"
| "components_of (ZRecord p z) = components_of z"
| "components_of (ZObject ts) = concat (map (\<lambda>t. components_of (snd (snd t))) ts)"
| "components_of (ZRefine p z) = components_of z"
| "components_of (ZNamed n z) = (n, wire_of z) # components_of z"
| "components_of _ = []"

abbreviation zstring :: zod where "zstring \<equiv> ZString None None"
abbreviation zint :: zod where "zint \<equiv> ZInt None None"
abbreviation zarray :: "zod \<Rightarrow> zod" where "zarray \<equiv> ZArray None None"
abbreviation required :: "string \<Rightarrow> zod \<Rightarrow> string \<times> presence \<times> zod" where "required n z \<equiv> (n, Required, z)"
abbreviation option_of :: "string \<Rightarrow> zod \<Rightarrow> string \<times> presence \<times> zod" where "option_of n z \<equiv> (n, Optional, z)"

section \<open>Problems and receipts\<close>

definition ProblemSchema :: zod where
  "ProblemSchema = ZNamed ''Problem'' (ZObject [required ''type'' zstring, required ''title'' zstring, required ''status'' zint,
     required ''code'' zstring, option_of ''detail'' zstring, required ''trace_id'' zstring,
     option_of ''replayed'' ZBoolean, option_of ''stranded'' (zarray zstring)])"

datatype zod_media = JsonSchema zod | ProblemJson zod

definition problemContent :: zod_media where "problemContent = ProblemJson ProblemSchema"

definition problemResponses :: "(nat \<times> string \<times> zod_media) list" where
  "problemResponses = [
     (400, ''Validation failed'', problemContent),
     (401, ''Missing or unknown key'', problemContent),
     (403, ''Not permitted'', problemContent),
     (404, ''Not found or outside the key'' @ CHR 0x27 # ''s venues'', problemContent),
     (409, ''Conflict'', problemContent),
     (422, ''Unprocessable'', problemContent),
     (429, ''Too many live holds'', problemContent),
     (500, ''Internal error'', problemContent),
     (503, ''Temporarily unavailable'', problemContent)]"

definition ReceiptSchema :: zod where
  "ReceiptSchema = ZNamed ''Receipt'' (ZObject [required ''reservation_id'' zstring, required ''status'' zstring, required ''version'' zint,
     required ''audit_id'' zint, required ''trace_id'' zstring])"

section \<open>Holds, reservations, availability\<close>

definition IdParam :: zod where "IdParam = ZObject [required ''id'' ZGuid]"

definition assignment_schema :: "zod \<Rightarrow> zod \<Rightarrow> zod" where
  "assignment_schema kind i = ZObject [required ''kind'' kind, required ''id'' i]"

definition HoldBodySchema :: zod where
  "HoldBodySchema = ZNamed ''HoldRequest'' (ZObject [
     required ''party_size'' (ZInt (Some 1) (Some 10000)),
     required ''starts_at'' ZDatetime,
     required ''duration_minutes'' (ZInt (Some 1) (Some 100000)),
     required ''assignment'' (assignment_schema (ZEnum [''unit'', ''combo'']) ZGuid),
     option_of ''external_ref'' (ZString (Some 1) (Some 200))])"

definition HoldResponseSchema :: zod where
  "HoldResponseSchema = ZNamed ''HoldResponse'' (ZObject [required ''receipt'' ReceiptSchema, required ''hold_expires_at'' zstring,
     required ''replayed'' ZBoolean])"

definition ReservationSchema :: zod where
  "ReservationSchema = ZNamed ''Reservation'' (ZObject [
     required ''id'' zstring, required ''venue_id'' zstring, required ''status'' zstring, required ''stored_status'' zstring,
     required ''party_size'' zint, required ''during'' zstring, required ''assignment'' (assignment_schema zstring zstring),
     required ''hold_expires_at'' zstring, required ''version'' zint, required ''external_ref'' (ZNullable zstring),
     required ''history'' (zarray (ZObject [required ''action'' zstring, required ''actor'' zstring, required ''at'' zstring]))])"

definition expected_version :: zod where "expected_version = ZInt (Some 1) (Some 2147483647)"

definition ReceiptResponseSchema :: zod where
  "ReceiptResponseSchema = ZNamed ''ReceiptResponse'' (ZObject [required ''receipt'' ReceiptSchema])"

definition CancelBodySchema :: zod where
  "CancelBodySchema = ZNamed ''CancelRequest'' (ZObject [required ''reason'' (ZString (Some 1) (Some 500)), option_of ''expected_version'' expected_version])"

definition ConfirmBodySchema :: zod where
  "ConfirmBodySchema = ZNamed ''ConfirmRequest'' (ZObject [option_of ''confirm_token'' (ZString (Some 1) (Some 200)), option_of ''expected_version'' expected_version])"

definition MintBodySchema :: zod where
  "MintBodySchema = ZNamed ''ConfirmTokenRequest'' (ZObject [option_of ''expected_version'' expected_version])"

definition StatusChangeBodySchema :: zod where
  "StatusChangeBodySchema = ZNamed ''StatusChangeRequest'' (ZObject [option_of ''expected_version'' expected_version])"

definition MintResponseSchema :: zod where
  "MintResponseSchema = ZNamed ''ConfirmTokenResponse'' (ZObject [required ''confirm_token'' zstring, required ''version'' zint])"

definition HoldListSchema :: zod where
  "HoldListSchema = ZNamed ''HoldList'' (ZObject [required ''holds'' (zarray (ZObject [
     required ''id'' zstring, required ''party_size'' zint, required ''during'' zstring, required ''assignment'' (assignment_schema zstring zstring),
     required ''hold_expires_at'' zstring, required ''version'' zint, required ''external_ref'' (ZNullable zstring)]))])"

text \<open>\<open>Date.parse(b.from) < Date.parse(b.to)\<close>, false when either is NaN.\<close>

definition dates_in_order :: "string \<Rightarrow> string \<Rightarrow> jval \<Rightarrow> bool" where
  "dates_in_order f t b \<longleftrightarrow> (case (date_parse (as_text (get_field f b)), date_parse (as_text (get_field t b))) of
      (Some x, Some y) \<Rightarrow> x < y | _ \<Rightarrow> False)"

definition AvailabilityBodySchema :: zod where
  "AvailabilityBodySchema = ZNamed ''AvailabilityRequest'' (ZRefine (dates_in_order ''from'' ''to'') (ZObject [
     required ''party_size'' (ZInt (Some 1) (Some 10000)),
     required ''from'' ZDatetime,
     required ''to'' ZDatetime,
     option_of ''limit'' (ZInt (Some 1) (Some BOUNDS_availabilityResults_max))]))"

definition AvailabilityResponseSchema :: zod where
  "AvailabilityResponseSchema = ZNamed ''Availability'' (ZObject [
     required ''slots'' (zarray (ZObject [required ''starts_at'' zstring, required ''duration_minutes'' zint,
       required ''assignment'' (assignment_schema (ZEnum [''unit'', ''combo'']) zstring)])),
     required ''truncated'' ZBoolean])"

section \<open>Administration\<close>

definition UnitParams :: zod where "UnitParams = ZObject [required ''id'' ZGuid, required ''unitId'' ZGuid]"
definition ComboParams :: zod where "ComboParams = ZObject [required ''id'' ZGuid, required ''comboId'' ZGuid]"
definition ScheduleParams :: zod where "ScheduleParams = ZObject [required ''id'' ZGuid, required ''scheduleId'' ZGuid]"
definition BlackoutParams :: zod where "BlackoutParams = ZObject [required ''id'' ZGuid, required ''blackoutId'' ZGuid]"
definition KeyParams :: zod where "KeyParams = ZObject [required ''id'' ZGuid, required ''keyId'' ZGuid]"

definition forceFields :: "(string \<times> presence \<times> zod) list" where
  "forceFields = [option_of ''force'' ZBoolean, option_of ''cancel_reason'' (ZString (Some 1) (Some 200))]"

definition label_z :: zod where "label_z = ZString (Some 1) (Some 100)"
definition capacity_z :: zod where "capacity_z = ZInt (Some 1) (Some 10000)"
definition layout_z :: zod where "layout_z = ZRecord (\<lambda>_. True) ZUnknown"

definition TIME_OF_DAY :: "string \<Rightarrow> bool" where
  "TIME_OF_DAY s \<longleftrightarrow> (case s of
      [a, b, c, d, e] \<Rightarrow> (a \<in> set ''01'' \<and> is_digit b \<or> a = CHR ''2'' \<and> b \<in> set ''0123'') \<and> c = CHR '':'' \<and> d \<in> set ''012345'' \<and> is_digit e
    | _ \<Rightarrow> False)"

definition party_size_key :: "string \<Rightarrow> bool" where
  "party_size_key s \<longleftrightarrow> (case s of [] \<Rightarrow> False | c # r \<Rightarrow> c \<in> set ''123456789'' \<and> length r \<le> 2 \<and> list_all is_digit r)"

definition opens_z :: zod where "opens_z = ZRegex TIME_OF_DAY"
definition closes_z :: zod where "closes_z = ZRegex TIME_OF_DAY"
definition dayOfWeek :: zod where "dayOfWeek = ZInt (Some 1) (Some 7)"
definition durationBySize :: zod where
  "durationBySize = ZRefine (\<lambda>d. 0 < length (as_fields (Some d))) (ZRecord party_size_key (ZInt (Some 5) (Some 720)))"
definition gapMinutes :: zod where "gapMinutes = ZInt (Some 0) (Some 720)"

text \<open>\<open>b.capacity_max >= b.capacity_min\<close>, and on an update only when both are given.\<close>

definition capacity_order :: "jval \<Rightarrow> bool" where
  "capacity_order b \<longleftrightarrow> get_field ''capacity_min'' b = None \<or> get_field ''capacity_max'' b = None
     \<or> as_int (get_field ''capacity_min'' b) \<le> as_int (get_field ''capacity_max'' b)"

definition CreateUnitSchema :: zod where
  "CreateUnitSchema = ZNamed ''CreateUnitRequest'' (ZRefine capacity_order (ZObject [
     required ''label'' label_z, required ''capacity_min'' capacity_z, required ''capacity_max'' capacity_z, option_of ''layout'' layout_z]))"

definition UpdateUnitSchema :: zod where
  "UpdateUnitSchema = ZNamed ''UpdateUnitRequest'' (ZRefine capacity_order (ZObject ([
     option_of ''label'' label_z, option_of ''capacity_min'' capacity_z, option_of ''capacity_max'' capacity_z, option_of ''layout'' layout_z,
     option_of ''active'' ZBoolean] @ forceFields)))"

definition CreateComboSchema :: zod where
  "CreateComboSchema = ZNamed ''CreateComboRequest'' (ZRefine capacity_order (ZObject [
     required ''label'' label_z, required ''unit_ids'' (ZArray (Some 2) (Some 6) ZGuid), required ''capacity_min'' capacity_z, required ''capacity_max'' capacity_z]))"

definition UpdateComboSchema :: zod where
  "UpdateComboSchema = ZNamed ''UpdateComboRequest'' (ZObject ([option_of ''label'' label_z, option_of ''active'' ZBoolean] @ forceFields))"

definition CreateScheduleSchema :: zod where
  "CreateScheduleSchema = ZNamed ''CreateScheduleRequest'' (ZObject [
     required ''day_of_week'' dayOfWeek, required ''opens'' opens_z, required ''closes'' closes_z, required ''duration_by_size'' durationBySize,
     (''gap_minutes'', Default (VInt 0), gapMinutes), (''active'', Default (VBool True), ZBoolean)])"

definition UpdateScheduleSchema :: zod where
  "UpdateScheduleSchema = ZNamed ''UpdateScheduleRequest'' (ZObject [
     option_of ''day_of_week'' dayOfWeek, option_of ''opens'' opens_z, option_of ''closes'' closes_z, option_of ''duration_by_size'' durationBySize,
     option_of ''gap_minutes'' gapMinutes, option_of ''active'' ZBoolean])"

definition CreateBlackoutSchema :: zod where
  "CreateBlackoutSchema = ZNamed ''CreateBlackoutRequest'' (ZRefine (dates_in_order ''starts_at'' ''ends_at'') (ZObject ([
     required ''starts_at'' ZDatetime, required ''ends_at'' ZDatetime, required ''reason'' (ZString (Some 1) (Some 500)),
     option_of ''active'' ZBoolean] @ forceFields)))"

definition UpdateBlackoutSchema :: zod where
  "UpdateBlackoutSchema = ZNamed ''UpdateBlackoutRequest'' (ZObject ([
     option_of ''reason'' (ZString (Some 1) (Some 500)), option_of ''active'' ZBoolean] @ forceFields))"

definition BlackoutListQuery :: zod where
  "BlackoutListQuery = ZRefine (dates_in_order ''from'' ''to'') (ZObject [required ''from'' ZDatetime, required ''to'' ZDatetime])"

definition UnitSchema :: zod where
  "UnitSchema = ZNamed ''Unit'' (ZObject [required ''id'' zstring, required ''label'' zstring, required ''capacity_min'' zint,
     required ''capacity_max'' zint, required ''active'' ZBoolean, required ''layout'' (ZRecord (\<lambda>_. True) ZUnknown)])"

definition ComboSchema :: zod where
  "ComboSchema = ZNamed ''Combo'' (ZObject [required ''id'' zstring, required ''label'' zstring, required ''unit_ids'' (zarray zstring),
     required ''capacity_min'' zint, required ''capacity_max'' zint, required ''active'' ZBoolean])"

definition ScheduleSchema :: zod where
  "ScheduleSchema = ZNamed ''Schedule'' (ZObject [required ''id'' zstring, required ''day_of_week'' zint, required ''opens'' zstring,
     required ''closes'' zstring, required ''closes_next_day'' ZBoolean, required ''duration_by_size'' (ZRecord (\<lambda>_. True) zint),
     required ''gap_minutes'' zint, required ''active'' ZBoolean])"

definition BlackoutSchema :: zod where
  "BlackoutSchema = ZNamed ''Blackout'' (ZObject [required ''id'' zstring, required ''starts_at'' zstring, required ''ends_at'' zstring,
     required ''reason'' zstring, required ''active'' ZBoolean])"

definition CAPABILITIES :: "string list" where
  "CAPABILITIES = [''hold'', ''confirm'', ''cancel'', ''seat'', ''read'', ''admin'']"

definition CreateKeySchema :: zod where
  "CreateKeySchema = ZNamed ''CreateKeyRequest'' (ZObject [required ''label'' label_z,
     required ''capabilities'' (ZRefine (\<lambda>c. distinct (map (\<lambda>x. as_text (Some x)) (as_list (Some c))))
       (ZArray (Some 1) (Some (length CAPABILITIES)) (ZEnum CAPABILITIES)))])"

definition KeySchema :: zod where
  "KeySchema = ZNamed ''Key'' (ZObject [required ''id'' zstring, required ''label'' zstring, required ''capabilities'' (zarray zstring),
     required ''venue_ids'' (zarray zstring), required ''created_at'' zstring, required ''revoked_at'' (ZNullable zstring)])"

definition UnitListSchema :: zod where "UnitListSchema = ZNamed ''UnitList'' (ZObject [required ''units'' (zarray UnitSchema)])"
definition UnitResponseSchema :: zod where "UnitResponseSchema = ZNamed ''UnitResponse'' (ZObject [required ''unit'' UnitSchema])"
definition UnitChangeSchema :: zod where
  "UnitChangeSchema = ZNamed ''UnitChange'' (ZObject [required ''unit'' UnitSchema, required ''cancelled'' (zarray zstring)])"
definition ComboListSchema :: zod where "ComboListSchema = ZNamed ''ComboList'' (ZObject [required ''combos'' (zarray ComboSchema)])"
definition ComboResponseSchema :: zod where "ComboResponseSchema = ZNamed ''ComboResponse'' (ZObject [required ''combo'' ComboSchema])"
definition ComboChangeSchema :: zod where
  "ComboChangeSchema = ZNamed ''ComboChange'' (ZObject [required ''combo'' ComboSchema, required ''cancelled'' (zarray zstring)])"
definition ScheduleListSchema :: zod where "ScheduleListSchema = ZNamed ''ScheduleList'' (ZObject [required ''schedules'' (zarray ScheduleSchema)])"
definition ScheduleResponseSchema :: zod where "ScheduleResponseSchema = ZNamed ''ScheduleResponse'' (ZObject [required ''schedule'' ScheduleSchema])"
definition BlackoutListSchema :: zod where "BlackoutListSchema = ZNamed ''BlackoutList'' (ZObject [required ''blackouts'' (zarray BlackoutSchema)])"
definition BlackoutChangeSchema :: zod where
  "BlackoutChangeSchema = ZNamed ''BlackoutChange'' (ZObject [required ''blackout'' BlackoutSchema, required ''cancelled'' (zarray zstring)])"
definition KeyListSchema :: zod where "KeyListSchema = ZNamed ''KeyList'' (ZObject [required ''keys'' (zarray KeySchema)])"
definition KeyResponseSchema :: zod where "KeyResponseSchema = ZNamed ''KeyResponse'' (ZObject [required ''key'' KeySchema])"
definition KeyCreatedSchema :: zod where
  "KeyCreatedSchema = ZNamed ''KeyCreated'' (ZObject [required ''key'' KeySchema, required ''secret'' zstring])"

lemmas body_schemas = HoldBodySchema_def CancelBodySchema_def ConfirmBodySchema_def MintBodySchema_def StatusChangeBodySchema_def
  AvailabilityBodySchema_def CreateUnitSchema_def UpdateUnitSchema_def CreateComboSchema_def UpdateComboSchema_def
  CreateScheduleSchema_def UpdateScheduleSchema_def CreateBlackoutSchema_def UpdateBlackoutSchema_def CreateKeySchema_def

lemmas response_schemas = ProblemSchema_def ReceiptSchema_def HoldResponseSchema_def ReservationSchema_def ReceiptResponseSchema_def
  MintResponseSchema_def HoldListSchema_def AvailabilityResponseSchema_def UnitSchema_def ComboSchema_def ScheduleSchema_def
  BlackoutSchema_def KeySchema_def UnitListSchema_def UnitResponseSchema_def UnitChangeSchema_def ComboListSchema_def
  ComboResponseSchema_def ComboChangeSchema_def ScheduleListSchema_def ScheduleResponseSchema_def BlackoutListSchema_def
  BlackoutChangeSchema_def KeyListSchema_def KeyResponseSchema_def KeyCreatedSchema_def

lemmas schema_parts = assignment_schema_def expected_version_def label_z_def capacity_z_def layout_z_def opens_z_def closes_z_def dayOfWeek_def
  durationBySize_def gapMinutes_def forceFields_def CAPABILITIES_def

end
