(* ===== verification/ClientSchema.thy ===== *)
theory ClientSchema
  imports WireTypes
begin

text \<open>
  The types the client package gives every request and response, \<open>packages/client/src/schema.ts\<close>: one wire type per
  named schema of \<open>components\<close>, one \<open>operation\<close> per method of each path of \<open>paths\<close>. A member that is
  \<open>never\<close> is left out, as are doc comments, but for the description of a response, and the open map of headers every
  response has.
\<close>

section \<open>\<open>components.schemas\<close>\<close>

definition schema_Problem :: wire where
  "schema_Problem = WObject [
     (''type'', True, WString),
     (''title'', True, WString),
     (''status'', True, WNumber),
     (''code'', True, WString),
     (''detail'', False, WString),
     (''trace_id'', True, WString),
     (''replayed'', False, WBoolean),
     (''stranded'', False, WArray WString)]"

definition schema_HoldResponse :: wire where
  "schema_HoldResponse = WObject [
     (''receipt'', True, WRef ''Receipt''),
     (''hold_expires_at'', True, WString),
     (''replayed'', True, WBoolean)]"

definition schema_Receipt :: wire where
  "schema_Receipt = WObject [
     (''reservation_id'', True, WString),
     (''status'', True, WString),
     (''version'', True, WNumber),
     (''audit_id'', True, WNumber),
     (''trace_id'', True, WString)]"

definition schema_HoldRequest :: wire where
  "schema_HoldRequest = WObject [
     (''party_size'', True, WNumber),
     (''starts_at'', True, WString),
     (''duration_minutes'', True, WNumber),
     (''assignment'', True, WObject [(''kind'', True, WEnum [''unit'', ''combo'']), (''id'', True, WString)]),
     (''external_ref'', False, WString)]"

definition schema_HoldList :: wire where
  "schema_HoldList = WObject [
     (''holds'', True, WArray (WObject [(''id'', True, WString), (''party_size'', True, WNumber), (''during'', True, WString), (''assignment'', True, WObject [(''kind'', True, WString), (''id'', True, WString)]), (''hold_expires_at'', True, WString), (''version'', True, WNumber), (''external_ref'', True, WNullable WString)]))]"

definition schema_Availability :: wire where
  "schema_Availability = WObject [
     (''slots'', True, WArray (WObject [(''starts_at'', True, WString), (''duration_minutes'', True, WNumber), (''assignment'', True, WObject [(''kind'', True, WEnum [''unit'', ''combo'']), (''id'', True, WString)])])),
     (''truncated'', True, WBoolean)]"

definition schema_AvailabilityRequest :: wire where
  "schema_AvailabilityRequest = WObject [
     (''party_size'', True, WNumber),
     (''from'', True, WString),
     (''to'', True, WString),
     (''limit'', False, WNumber)]"

definition schema_Reservation :: wire where
  "schema_Reservation = WObject [
     (''id'', True, WString),
     (''venue_id'', True, WString),
     (''status'', True, WString),
     (''stored_status'', True, WString),
     (''party_size'', True, WNumber),
     (''during'', True, WString),
     (''assignment'', True, WObject [(''kind'', True, WString), (''id'', True, WString)]),
     (''hold_expires_at'', True, WString),
     (''version'', True, WNumber),
     (''external_ref'', True, WNullable WString),
     (''history'', True, WArray (WObject [(''action'', True, WString), (''actor'', True, WString), (''at'', True, WString)]))]"

definition schema_ReceiptResponse :: wire where
  "schema_ReceiptResponse = WObject [
     (''receipt'', True, WRef ''Receipt'')]"

definition schema_CancelRequest :: wire where
  "schema_CancelRequest = WObject [
     (''reason'', True, WString),
     (''expected_version'', False, WNumber)]"

definition schema_StatusChangeRequest :: wire where
  "schema_StatusChangeRequest = WObject [
     (''expected_version'', False, WNumber)]"

definition schema_ConfirmTokenResponse :: wire where
  "schema_ConfirmTokenResponse = WObject [
     (''confirm_token'', True, WString),
     (''version'', True, WNumber)]"

definition schema_ConfirmTokenRequest :: wire where
  "schema_ConfirmTokenRequest = WObject [
     (''expected_version'', False, WNumber)]"

definition schema_ConfirmRequest :: wire where
  "schema_ConfirmRequest = WObject [
     (''confirm_token'', False, WString),
     (''expected_version'', False, WNumber)]"

definition schema_UnitList :: wire where
  "schema_UnitList = WObject [
     (''units'', True, WArray (WRef ''Unit''))]"

definition schema_Unit :: wire where
  "schema_Unit = WObject [
     (''id'', True, WString),
     (''label'', True, WString),
     (''capacity_min'', True, WNumber),
     (''capacity_max'', True, WNumber),
     (''active'', True, WBoolean),
     (''layout'', True, WIndex WUnknown)]"

definition schema_UnitResponse :: wire where
  "schema_UnitResponse = WObject [
     (''unit'', True, WRef ''Unit'')]"

definition schema_CreateUnitRequest :: wire where
  "schema_CreateUnitRequest = WObject [
     (''label'', True, WString),
     (''capacity_min'', True, WNumber),
     (''capacity_max'', True, WNumber),
     (''layout'', False, WIndex WUnknown)]"

definition schema_UnitChange :: wire where
  "schema_UnitChange = WObject [
     (''unit'', True, WRef ''Unit''),
     (''cancelled'', True, WArray WString)]"

definition schema_UpdateUnitRequest :: wire where
  "schema_UpdateUnitRequest = WObject [
     (''label'', False, WString),
     (''capacity_min'', False, WNumber),
     (''capacity_max'', False, WNumber),
     (''layout'', False, WIndex WUnknown),
     (''active'', False, WBoolean),
     (''force'', False, WBoolean),
     (''cancel_reason'', False, WString)]"

definition schema_ComboList :: wire where
  "schema_ComboList = WObject [
     (''combos'', True, WArray (WRef ''Combo''))]"

definition schema_Combo :: wire where
  "schema_Combo = WObject [
     (''id'', True, WString),
     (''label'', True, WString),
     (''unit_ids'', True, WArray WString),
     (''capacity_min'', True, WNumber),
     (''capacity_max'', True, WNumber),
     (''active'', True, WBoolean)]"

definition schema_ComboResponse :: wire where
  "schema_ComboResponse = WObject [
     (''combo'', True, WRef ''Combo'')]"

definition schema_CreateComboRequest :: wire where
  "schema_CreateComboRequest = WObject [
     (''label'', True, WString),
     (''unit_ids'', True, WArray WString),
     (''capacity_min'', True, WNumber),
     (''capacity_max'', True, WNumber)]"

definition schema_ComboChange :: wire where
  "schema_ComboChange = WObject [
     (''combo'', True, WRef ''Combo''),
     (''cancelled'', True, WArray WString)]"

definition schema_UpdateComboRequest :: wire where
  "schema_UpdateComboRequest = WObject [
     (''label'', False, WString),
     (''active'', False, WBoolean),
     (''force'', False, WBoolean),
     (''cancel_reason'', False, WString)]"

definition schema_ScheduleList :: wire where
  "schema_ScheduleList = WObject [
     (''schedules'', True, WArray (WRef ''Schedule''))]"

definition schema_Schedule :: wire where
  "schema_Schedule = WObject [
     (''id'', True, WString),
     (''day_of_week'', True, WNumber),
     (''opens'', True, WString),
     (''closes'', True, WString),
     (''closes_next_day'', True, WBoolean),
     (''duration_by_size'', True, WIndex WNumber),
     (''gap_minutes'', True, WNumber),
     (''active'', True, WBoolean)]"

definition schema_ScheduleResponse :: wire where
  "schema_ScheduleResponse = WObject [
     (''schedule'', True, WRef ''Schedule'')]"

definition schema_CreateScheduleRequest :: wire where
  "schema_CreateScheduleRequest = WObject [
     (''day_of_week'', True, WNumber),
     (''opens'', True, WString),
     (''closes'', True, WString),
     (''duration_by_size'', True, WIndex WNumber),
     (''gap_minutes'', False, WNumber),
     (''active'', False, WBoolean)]"

definition schema_UpdateScheduleRequest :: wire where
  "schema_UpdateScheduleRequest = WObject [
     (''day_of_week'', False, WNumber),
     (''opens'', False, WString),
     (''closes'', False, WString),
     (''duration_by_size'', False, WIndex WNumber),
     (''gap_minutes'', False, WNumber),
     (''active'', False, WBoolean)]"

definition schema_BlackoutList :: wire where
  "schema_BlackoutList = WObject [
     (''blackouts'', True, WArray (WRef ''Blackout''))]"

definition schema_Blackout :: wire where
  "schema_Blackout = WObject [
     (''id'', True, WString),
     (''starts_at'', True, WString),
     (''ends_at'', True, WString),
     (''reason'', True, WString),
     (''active'', True, WBoolean)]"

definition schema_BlackoutChange :: wire where
  "schema_BlackoutChange = WObject [
     (''blackout'', True, WRef ''Blackout''),
     (''cancelled'', True, WArray WString)]"

definition schema_CreateBlackoutRequest :: wire where
  "schema_CreateBlackoutRequest = WObject [
     (''starts_at'', True, WString),
     (''ends_at'', True, WString),
     (''reason'', True, WString),
     (''active'', False, WBoolean),
     (''force'', False, WBoolean),
     (''cancel_reason'', False, WString)]"

definition schema_UpdateBlackoutRequest :: wire where
  "schema_UpdateBlackoutRequest = WObject [
     (''reason'', False, WString),
     (''active'', False, WBoolean),
     (''force'', False, WBoolean),
     (''cancel_reason'', False, WString)]"

definition schema_KeyList :: wire where
  "schema_KeyList = WObject [
     (''keys'', True, WArray (WRef ''Key''))]"

definition schema_Key :: wire where
  "schema_Key = WObject [
     (''id'', True, WString),
     (''label'', True, WString),
     (''capabilities'', True, WArray WString),
     (''venue_ids'', True, WArray WString),
     (''created_at'', True, WString),
     (''revoked_at'', True, WNullable WString)]"

definition schema_KeyCreated :: wire where
  "schema_KeyCreated = WObject [
     (''key'', True, WRef ''Key''),
     (''secret'', True, WString)]"

definition schema_CreateKeyRequest :: wire where
  "schema_CreateKeyRequest = WObject [
     (''label'', True, WString),
     (''capabilities'', True, WArray (WEnum [''hold'', ''confirm'', ''cancel'', ''seat'', ''read'', ''admin'']))]"

definition schema_KeyResponse :: wire where
  "schema_KeyResponse = WObject [
     (''key'', True, WRef ''Key'')]"

definition client_schemas :: "(string \<times> wire) list" where
  "client_schemas = [
     (''Problem'', schema_Problem),
     (''HoldResponse'', schema_HoldResponse),
     (''Receipt'', schema_Receipt),
     (''HoldRequest'', schema_HoldRequest),
     (''HoldList'', schema_HoldList),
     (''Availability'', schema_Availability),
     (''AvailabilityRequest'', schema_AvailabilityRequest),
     (''Reservation'', schema_Reservation),
     (''ReceiptResponse'', schema_ReceiptResponse),
     (''CancelRequest'', schema_CancelRequest),
     (''StatusChangeRequest'', schema_StatusChangeRequest),
     (''ConfirmTokenResponse'', schema_ConfirmTokenResponse),
     (''ConfirmTokenRequest'', schema_ConfirmTokenRequest),
     (''ConfirmRequest'', schema_ConfirmRequest),
     (''UnitList'', schema_UnitList),
     (''Unit'', schema_Unit),
     (''UnitResponse'', schema_UnitResponse),
     (''CreateUnitRequest'', schema_CreateUnitRequest),
     (''UnitChange'', schema_UnitChange),
     (''UpdateUnitRequest'', schema_UpdateUnitRequest),
     (''ComboList'', schema_ComboList),
     (''Combo'', schema_Combo),
     (''ComboResponse'', schema_ComboResponse),
     (''CreateComboRequest'', schema_CreateComboRequest),
     (''ComboChange'', schema_ComboChange),
     (''UpdateComboRequest'', schema_UpdateComboRequest),
     (''ScheduleList'', schema_ScheduleList),
     (''Schedule'', schema_Schedule),
     (''ScheduleResponse'', schema_ScheduleResponse),
     (''CreateScheduleRequest'', schema_CreateScheduleRequest),
     (''UpdateScheduleRequest'', schema_UpdateScheduleRequest),
     (''BlackoutList'', schema_BlackoutList),
     (''Blackout'', schema_Blackout),
     (''BlackoutChange'', schema_BlackoutChange),
     (''CreateBlackoutRequest'', schema_CreateBlackoutRequest),
     (''UpdateBlackoutRequest'', schema_UpdateBlackoutRequest),
     (''KeyList'', schema_KeyList),
     (''Key'', schema_Key),
     (''KeyCreated'', schema_KeyCreated),
     (''CreateKeyRequest'', schema_CreateKeyRequest),
     (''KeyResponse'', schema_KeyResponse)]"

section \<open>\<open>paths\<close>\<close>

definition client_get_health_live :: operation where
  "client_get_health_live = \<lparr>op_query = [], op_header = [], op_path = [],
     op_body = None,
     op_responses = [
       (200, ''Live'', JsonContent (WObject [(''status'', True, WEnum [''live''])]))]\<rparr>"

definition client_get_health_ready :: operation where
  "client_get_health_ready = \<lparr>op_query = [], op_header = [], op_path = [],
     op_body = None,
     op_responses = [
       (200, ''Ready'', JsonContent (WObject [(''status'', True, WEnum [''ready'']), (''migrations'', True, WNumber)])),
       (503, ''Not ready'', problem_json)]\<rparr>"

definition client_get_venues_holds :: operation where
  "client_get_venues_holds = \<lparr>op_query = [], op_header = [], op_path = [(''id'', True, WString)],
     op_body = None,
     op_responses = [
       (200, (''The calling key'' @ CHR 0x27 # ''s live holds''), JsonContent (WRef ''HoldList'')),
       (400, ''Validation failed'', problem_json),
       (401, ''Missing or unknown key'', problem_json),
       (403, ''Not permitted'', problem_json),
       (404, (''Not found or outside the key'' @ CHR 0x27 # ''s venues''), problem_json),
       (409, ''Conflict'', problem_json),
       (422, ''Unprocessable'', problem_json),
       (429, ''Too many live holds'', problem_json),
       (500, ''Internal error'', problem_json),
       (503, ''Temporarily unavailable'', problem_json)]\<rparr>"

definition client_post_venues_holds :: operation where
  "client_post_venues_holds = \<lparr>op_query = [], op_header = [(''idempotency-key'', True, WString)], op_path = [(''id'', True, WString)],
     op_body = Some (WRef ''HoldRequest''),
     op_responses = [
       (201, ''Held, or the stored success replayed'', JsonContent (WRef ''HoldResponse'')),
       (400, ''Validation failed'', problem_json),
       (401, ''Missing or unknown key'', problem_json),
       (403, ''Not permitted'', problem_json),
       (404, (''Not found or outside the key'' @ CHR 0x27 # ''s venues''), problem_json),
       (409, ''Conflict'', problem_json),
       (422, ''Unprocessable'', problem_json),
       (429, ''Too many live holds'', problem_json),
       (500, ''Internal error'', problem_json),
       (503, ''Temporarily unavailable'', problem_json)]\<rparr>"

definition client_post_venues_availability :: operation where
  "client_post_venues_availability = \<lparr>op_query = [], op_header = [], op_path = [(''id'', True, WString)],
     op_body = Some (WRef ''AvailabilityRequest''),
     op_responses = [
       (200, ''The bookable slots in start order, and whether the list was cut short'', JsonContent (WRef ''Availability'')),
       (400, ''Validation failed'', problem_json),
       (401, ''Missing or unknown key'', problem_json),
       (403, ''Not permitted'', problem_json),
       (404, (''Not found or outside the key'' @ CHR 0x27 # ''s venues''), problem_json),
       (409, ''Conflict'', problem_json),
       (422, ''Unprocessable'', problem_json),
       (429, ''Too many live holds'', problem_json),
       (500, ''Internal error'', problem_json),
       (503, ''Temporarily unavailable'', problem_json)]\<rparr>"

definition client_get_reservations :: operation where
  "client_get_reservations = \<lparr>op_query = [], op_header = [], op_path = [(''id'', True, WString)],
     op_body = None,
     op_responses = [
       (200, ''The reservation'', JsonContent (WRef ''Reservation'')),
       (400, ''Validation failed'', problem_json),
       (401, ''Missing or unknown key'', problem_json),
       (403, ''Not permitted'', problem_json),
       (404, (''Not found or outside the key'' @ CHR 0x27 # ''s venues''), problem_json),
       (409, ''Conflict'', problem_json),
       (422, ''Unprocessable'', problem_json),
       (429, ''Too many live holds'', problem_json),
       (500, ''Internal error'', problem_json),
       (503, ''Temporarily unavailable'', problem_json)]\<rparr>"

definition client_post_reservations_cancel :: operation where
  "client_post_reservations_cancel = \<lparr>op_query = [], op_header = [], op_path = [(''id'', True, WString)],
     op_body = Some (WRef ''CancelRequest''),
     op_responses = [
       (200, ''Cancelled'', JsonContent (WRef ''ReceiptResponse'')),
       (400, ''Validation failed'', problem_json),
       (401, ''Missing or unknown key'', problem_json),
       (403, ''Not permitted'', problem_json),
       (404, (''Not found or outside the key'' @ CHR 0x27 # ''s venues''), problem_json),
       (409, ''Conflict'', problem_json),
       (422, ''Unprocessable'', problem_json),
       (429, ''Too many live holds'', problem_json),
       (500, ''Internal error'', problem_json),
       (503, ''Temporarily unavailable'', problem_json)]\<rparr>"

definition client_post_reservations_seat :: operation where
  "client_post_reservations_seat = \<lparr>op_query = [], op_header = [], op_path = [(''id'', True, WString)],
     op_body = Some (WRef ''StatusChangeRequest''),
     op_responses = [
       (200, ''Seated'', JsonContent (WRef ''ReceiptResponse'')),
       (400, ''Validation failed'', problem_json),
       (401, ''Missing or unknown key'', problem_json),
       (403, ''Not permitted'', problem_json),
       (404, (''Not found or outside the key'' @ CHR 0x27 # ''s venues''), problem_json),
       (409, ''Conflict'', problem_json),
       (422, ''Unprocessable'', problem_json),
       (429, ''Too many live holds'', problem_json),
       (500, ''Internal error'', problem_json),
       (503, ''Temporarily unavailable'', problem_json)]\<rparr>"

definition client_post_reservations_complete :: operation where
  "client_post_reservations_complete = \<lparr>op_query = [], op_header = [], op_path = [(''id'', True, WString)],
     op_body = Some (WRef ''StatusChangeRequest''),
     op_responses = [
       (200, ''Completed'', JsonContent (WRef ''ReceiptResponse'')),
       (400, ''Validation failed'', problem_json),
       (401, ''Missing or unknown key'', problem_json),
       (403, ''Not permitted'', problem_json),
       (404, (''Not found or outside the key'' @ CHR 0x27 # ''s venues''), problem_json),
       (409, ''Conflict'', problem_json),
       (422, ''Unprocessable'', problem_json),
       (429, ''Too many live holds'', problem_json),
       (500, ''Internal error'', problem_json),
       (503, ''Temporarily unavailable'', problem_json)]\<rparr>"

definition client_post_reservations_confirm_token :: operation where
  "client_post_reservations_confirm_token = \<lparr>op_query = [], op_header = [], op_path = [(''id'', True, WString)],
     op_body = Some (WRef ''ConfirmTokenRequest''),
     op_responses = [
       (201, ''Minted'', JsonContent (WRef ''ConfirmTokenResponse'')),
       (400, ''Validation failed'', problem_json),
       (401, ''Missing or unknown key'', problem_json),
       (403, ''Not permitted'', problem_json),
       (404, (''Not found or outside the key'' @ CHR 0x27 # ''s venues''), problem_json),
       (409, ''Conflict'', problem_json),
       (422, ''Unprocessable'', problem_json),
       (429, ''Too many live holds'', problem_json),
       (500, ''Internal error'', problem_json),
       (503, ''Temporarily unavailable'', problem_json)]\<rparr>"

definition client_post_reservations_confirm :: operation where
  "client_post_reservations_confirm = \<lparr>op_query = [], op_header = [], op_path = [(''id'', True, WString)],
     op_body = Some (WRef ''ConfirmRequest''),
     op_responses = [
       (200, ''Confirmed'', JsonContent (WRef ''ReceiptResponse'')),
       (400, ''Validation failed'', problem_json),
       (401, ''Missing or unknown key'', problem_json),
       (403, ''Not permitted'', problem_json),
       (404, (''Not found or outside the key'' @ CHR 0x27 # ''s venues''), problem_json),
       (409, ''Conflict'', problem_json),
       (422, ''Unprocessable'', problem_json),
       (429, ''Too many live holds'', problem_json),
       (500, ''Internal error'', problem_json),
       (503, ''Temporarily unavailable'', problem_json)]\<rparr>"

definition client_get_admin_venues_units :: operation where
  "client_get_admin_venues_units = \<lparr>op_query = [], op_header = [], op_path = [(''id'', True, WString)],
     op_body = None,
     op_responses = [
       (200, (''The venue'' @ CHR 0x27 # ''s units''), JsonContent (WRef ''UnitList'')),
       (400, ''Validation failed'', problem_json),
       (401, ''Missing or unknown key'', problem_json),
       (403, ''Not permitted'', problem_json),
       (404, (''Not found or outside the key'' @ CHR 0x27 # ''s venues''), problem_json),
       (409, ''Conflict'', problem_json),
       (422, ''Unprocessable'', problem_json),
       (429, ''Too many live holds'', problem_json),
       (500, ''Internal error'', problem_json),
       (503, ''Temporarily unavailable'', problem_json)]\<rparr>"

definition client_post_admin_venues_units :: operation where
  "client_post_admin_venues_units = \<lparr>op_query = [], op_header = [], op_path = [(''id'', True, WString)],
     op_body = Some (WRef ''CreateUnitRequest''),
     op_responses = [
       (201, ''The unit'', JsonContent (WRef ''UnitResponse'')),
       (400, ''Validation failed'', problem_json),
       (401, ''Missing or unknown key'', problem_json),
       (403, ''Not permitted'', problem_json),
       (404, (''Not found or outside the key'' @ CHR 0x27 # ''s venues''), problem_json),
       (409, ''Conflict'', problem_json),
       (422, ''Unprocessable'', problem_json),
       (429, ''Too many live holds'', problem_json),
       (500, ''Internal error'', problem_json),
       (503, ''Temporarily unavailable'', problem_json)]\<rparr>"

definition client_patch_admin_venues_units_unitId :: operation where
  "client_patch_admin_venues_units_unitId = \<lparr>op_query = [], op_header = [], op_path = [(''id'', True, WString), (''unitId'', True, WString)],
     op_body = Some (WRef ''UpdateUnitRequest''),
     op_responses = [
       (200, ''The unit and the ids of the reservations cancelled by force'', JsonContent (WRef ''UnitChange'')),
       (400, ''Validation failed'', problem_json),
       (401, ''Missing or unknown key'', problem_json),
       (403, ''Not permitted'', problem_json),
       (404, (''Not found or outside the key'' @ CHR 0x27 # ''s venues''), problem_json),
       (409, ''Conflict'', problem_json),
       (422, ''Unprocessable'', problem_json),
       (429, ''Too many live holds'', problem_json),
       (500, ''Internal error'', problem_json),
       (503, ''Temporarily unavailable'', problem_json)]\<rparr>"

definition client_get_admin_venues_combos :: operation where
  "client_get_admin_venues_combos = \<lparr>op_query = [], op_header = [], op_path = [(''id'', True, WString)],
     op_body = None,
     op_responses = [
       (200, (''The venue'' @ CHR 0x27 # ''s combinations''), JsonContent (WRef ''ComboList'')),
       (400, ''Validation failed'', problem_json),
       (401, ''Missing or unknown key'', problem_json),
       (403, ''Not permitted'', problem_json),
       (404, (''Not found or outside the key'' @ CHR 0x27 # ''s venues''), problem_json),
       (409, ''Conflict'', problem_json),
       (422, ''Unprocessable'', problem_json),
       (429, ''Too many live holds'', problem_json),
       (500, ''Internal error'', problem_json),
       (503, ''Temporarily unavailable'', problem_json)]\<rparr>"

definition client_post_admin_venues_combos :: operation where
  "client_post_admin_venues_combos = \<lparr>op_query = [], op_header = [], op_path = [(''id'', True, WString)],
     op_body = Some (WRef ''CreateComboRequest''),
     op_responses = [
       (201, ''The combination'', JsonContent (WRef ''ComboResponse'')),
       (400, ''Validation failed'', problem_json),
       (401, ''Missing or unknown key'', problem_json),
       (403, ''Not permitted'', problem_json),
       (404, (''Not found or outside the key'' @ CHR 0x27 # ''s venues''), problem_json),
       (409, ''Conflict'', problem_json),
       (422, ''Unprocessable'', problem_json),
       (429, ''Too many live holds'', problem_json),
       (500, ''Internal error'', problem_json),
       (503, ''Temporarily unavailable'', problem_json)]\<rparr>"

definition client_patch_admin_venues_combos_comboId :: operation where
  "client_patch_admin_venues_combos_comboId = \<lparr>op_query = [], op_header = [], op_path = [(''id'', True, WString), (''comboId'', True, WString)],
     op_body = Some (WRef ''UpdateComboRequest''),
     op_responses = [
       (200, ''The combination and the ids of the reservations cancelled by force'', JsonContent (WRef ''ComboChange'')),
       (400, ''Validation failed'', problem_json),
       (401, ''Missing or unknown key'', problem_json),
       (403, ''Not permitted'', problem_json),
       (404, (''Not found or outside the key'' @ CHR 0x27 # ''s venues''), problem_json),
       (409, ''Conflict'', problem_json),
       (422, ''Unprocessable'', problem_json),
       (429, ''Too many live holds'', problem_json),
       (500, ''Internal error'', problem_json),
       (503, ''Temporarily unavailable'', problem_json)]\<rparr>"

definition client_get_admin_venues_schedules :: operation where
  "client_get_admin_venues_schedules = \<lparr>op_query = [], op_header = [], op_path = [(''id'', True, WString)],
     op_body = None,
     op_responses = [
       (200, (''The venue'' @ CHR 0x27 # ''s service periods''), JsonContent (WRef ''ScheduleList'')),
       (400, ''Validation failed'', problem_json),
       (401, ''Missing or unknown key'', problem_json),
       (403, ''Not permitted'', problem_json),
       (404, (''Not found or outside the key'' @ CHR 0x27 # ''s venues''), problem_json),
       (409, ''Conflict'', problem_json),
       (422, ''Unprocessable'', problem_json),
       (429, ''Too many live holds'', problem_json),
       (500, ''Internal error'', problem_json),
       (503, ''Temporarily unavailable'', problem_json)]\<rparr>"

definition client_post_admin_venues_schedules :: operation where
  "client_post_admin_venues_schedules = \<lparr>op_query = [], op_header = [], op_path = [(''id'', True, WString)],
     op_body = Some (WRef ''CreateScheduleRequest''),
     op_responses = [
       (201, ''The service period'', JsonContent (WRef ''ScheduleResponse'')),
       (400, ''Validation failed'', problem_json),
       (401, ''Missing or unknown key'', problem_json),
       (403, ''Not permitted'', problem_json),
       (404, (''Not found or outside the key'' @ CHR 0x27 # ''s venues''), problem_json),
       (409, ''Conflict'', problem_json),
       (422, ''Unprocessable'', problem_json),
       (429, ''Too many live holds'', problem_json),
       (500, ''Internal error'', problem_json),
       (503, ''Temporarily unavailable'', problem_json)]\<rparr>"

definition client_patch_admin_venues_schedules_scheduleId :: operation where
  "client_patch_admin_venues_schedules_scheduleId = \<lparr>op_query = [], op_header = [], op_path = [(''id'', True, WString), (''scheduleId'', True, WString)],
     op_body = Some (WRef ''UpdateScheduleRequest''),
     op_responses = [
       (200, ''The service period'', JsonContent (WRef ''ScheduleResponse'')),
       (400, ''Validation failed'', problem_json),
       (401, ''Missing or unknown key'', problem_json),
       (403, ''Not permitted'', problem_json),
       (404, (''Not found or outside the key'' @ CHR 0x27 # ''s venues''), problem_json),
       (409, ''Conflict'', problem_json),
       (422, ''Unprocessable'', problem_json),
       (429, ''Too many live holds'', problem_json),
       (500, ''Internal error'', problem_json),
       (503, ''Temporarily unavailable'', problem_json)]\<rparr>"

definition client_get_admin_venues_blackouts :: operation where
  "client_get_admin_venues_blackouts = \<lparr>op_query = [(''from'', True, WString), (''to'', True, WString)], op_header = [], op_path = [(''id'', True, WString)],
     op_body = None,
     op_responses = [
       (200, ''The blackouts overlapping the window'', JsonContent (WRef ''BlackoutList'')),
       (400, ''Validation failed'', problem_json),
       (401, ''Missing or unknown key'', problem_json),
       (403, ''Not permitted'', problem_json),
       (404, (''Not found or outside the key'' @ CHR 0x27 # ''s venues''), problem_json),
       (409, ''Conflict'', problem_json),
       (422, ''Unprocessable'', problem_json),
       (429, ''Too many live holds'', problem_json),
       (500, ''Internal error'', problem_json),
       (503, ''Temporarily unavailable'', problem_json)]\<rparr>"

definition client_post_admin_venues_blackouts :: operation where
  "client_post_admin_venues_blackouts = \<lparr>op_query = [], op_header = [], op_path = [(''id'', True, WString)],
     op_body = Some (WRef ''CreateBlackoutRequest''),
     op_responses = [
       (201, ''The blackout and the ids of the reservations cancelled by force'', JsonContent (WRef ''BlackoutChange'')),
       (400, ''Validation failed'', problem_json),
       (401, ''Missing or unknown key'', problem_json),
       (403, ''Not permitted'', problem_json),
       (404, (''Not found or outside the key'' @ CHR 0x27 # ''s venues''), problem_json),
       (409, ''Conflict'', problem_json),
       (422, ''Unprocessable'', problem_json),
       (429, ''Too many live holds'', problem_json),
       (500, ''Internal error'', problem_json),
       (503, ''Temporarily unavailable'', problem_json)]\<rparr>"

definition client_patch_admin_venues_blackouts_blackoutId :: operation where
  "client_patch_admin_venues_blackouts_blackoutId = \<lparr>op_query = [], op_header = [], op_path = [(''id'', True, WString), (''blackoutId'', True, WString)],
     op_body = Some (WRef ''UpdateBlackoutRequest''),
     op_responses = [
       (200, ''The blackout and the ids of the reservations cancelled by force'', JsonContent (WRef ''BlackoutChange'')),
       (400, ''Validation failed'', problem_json),
       (401, ''Missing or unknown key'', problem_json),
       (403, ''Not permitted'', problem_json),
       (404, (''Not found or outside the key'' @ CHR 0x27 # ''s venues''), problem_json),
       (409, ''Conflict'', problem_json),
       (422, ''Unprocessable'', problem_json),
       (429, ''Too many live holds'', problem_json),
       (500, ''Internal error'', problem_json),
       (503, ''Temporarily unavailable'', problem_json)]\<rparr>"

definition client_get_admin_venues_keys :: operation where
  "client_get_admin_venues_keys = \<lparr>op_query = [], op_header = [], op_path = [(''id'', True, WString)],
     op_body = None,
     op_responses = [
       (200, (''The venue'' @ CHR 0x27 # ''s keys''), JsonContent (WRef ''KeyList'')),
       (400, ''Validation failed'', problem_json),
       (401, ''Missing or unknown key'', problem_json),
       (403, ''Not permitted'', problem_json),
       (404, (''Not found or outside the key'' @ CHR 0x27 # ''s venues''), problem_json),
       (409, ''Conflict'', problem_json),
       (422, ''Unprocessable'', problem_json),
       (429, ''Too many live holds'', problem_json),
       (500, ''Internal error'', problem_json),
       (503, ''Temporarily unavailable'', problem_json)]\<rparr>"

definition client_post_admin_venues_keys :: operation where
  "client_post_admin_venues_keys = \<lparr>op_query = [], op_header = [], op_path = [(''id'', True, WString)],
     op_body = Some (WRef ''CreateKeyRequest''),
     op_responses = [
       (201, ''The key and its secret, shown once'', JsonContent (WRef ''KeyCreated'')),
       (400, ''Validation failed'', problem_json),
       (401, ''Missing or unknown key'', problem_json),
       (403, ''Not permitted'', problem_json),
       (404, (''Not found or outside the key'' @ CHR 0x27 # ''s venues''), problem_json),
       (409, ''Conflict'', problem_json),
       (422, ''Unprocessable'', problem_json),
       (429, ''Too many live holds'', problem_json),
       (500, ''Internal error'', problem_json),
       (503, ''Temporarily unavailable'', problem_json)]\<rparr>"

definition client_post_admin_venues_keys_revoke :: operation where
  "client_post_admin_venues_keys_revoke = \<lparr>op_query = [], op_header = [], op_path = [(''id'', True, WString), (''keyId'', True, WString)],
     op_body = None,
     op_responses = [
       (200, ''The revoked key'', JsonContent (WRef ''KeyResponse'')),
       (400, ''Validation failed'', problem_json),
       (401, ''Missing or unknown key'', problem_json),
       (403, ''Not permitted'', problem_json),
       (404, (''Not found or outside the key'' @ CHR 0x27 # ''s venues''), problem_json),
       (409, ''Conflict'', problem_json),
       (422, ''Unprocessable'', problem_json),
       (429, ''Too many live holds'', problem_json),
       (500, ''Internal error'', problem_json),
       (503, ''Temporarily unavailable'', problem_json)]\<rparr>"

definition client_paths :: "(string \<times> (http_method \<times> operation) list) list" where
  "client_paths = [
     (''/health/live'', [(Get, client_get_health_live)]),
     (''/health/ready'', [(Get, client_get_health_ready)]),
     (''/v1/venues/{id}/holds'', [(Get, client_get_venues_holds), (Post, client_post_venues_holds)]),
     (''/v1/venues/{id}/availability'', [(Post, client_post_venues_availability)]),
     (''/v1/reservations/{id}'', [(Get, client_get_reservations)]),
     (''/v1/reservations/{id}/cancel'', [(Post, client_post_reservations_cancel)]),
     (''/v1/reservations/{id}/seat'', [(Post, client_post_reservations_seat)]),
     (''/v1/reservations/{id}/complete'', [(Post, client_post_reservations_complete)]),
     (''/v1/reservations/{id}/confirm-token'', [(Post, client_post_reservations_confirm_token)]),
     (''/v1/reservations/{id}/confirm'', [(Post, client_post_reservations_confirm)]),
     (''/admin/venues/{id}/units'', [(Get, client_get_admin_venues_units), (Post, client_post_admin_venues_units)]),
     (''/admin/venues/{id}/units/{unitId}'', [(Patch, client_patch_admin_venues_units_unitId)]),
     (''/admin/venues/{id}/combos'', [(Get, client_get_admin_venues_combos), (Post, client_post_admin_venues_combos)]),
     (''/admin/venues/{id}/combos/{comboId}'', [(Patch, client_patch_admin_venues_combos_comboId)]),
     (''/admin/venues/{id}/schedules'', [(Get, client_get_admin_venues_schedules), (Post, client_post_admin_venues_schedules)]),
     (''/admin/venues/{id}/schedules/{scheduleId}'', [(Patch, client_patch_admin_venues_schedules_scheduleId)]),
     (''/admin/venues/{id}/blackouts'', [(Get, client_get_admin_venues_blackouts), (Post, client_post_admin_venues_blackouts)]),
     (''/admin/venues/{id}/blackouts/{blackoutId}'', [(Patch, client_patch_admin_venues_blackouts_blackoutId)]),
     (''/admin/venues/{id}/keys'', [(Get, client_get_admin_venues_keys), (Post, client_post_admin_venues_keys)]),
     (''/admin/venues/{id}/keys/{keyId}/revoke'', [(Post, client_post_admin_venues_keys_revoke)])]"

lemmas client_operations = client_get_health_live_def client_get_health_ready_def client_get_venues_holds_def
  client_post_venues_holds_def client_post_venues_availability_def client_get_reservations_def
  client_post_reservations_cancel_def client_post_reservations_seat_def client_post_reservations_complete_def
  client_post_reservations_confirm_token_def client_post_reservations_confirm_def client_get_admin_venues_units_def
  client_post_admin_venues_units_def client_patch_admin_venues_units_unitId_def client_get_admin_venues_combos_def
  client_post_admin_venues_combos_def client_patch_admin_venues_combos_comboId_def client_get_admin_venues_schedules_def
  client_post_admin_venues_schedules_def client_patch_admin_venues_schedules_scheduleId_def client_get_admin_venues_blackouts_def
  client_post_admin_venues_blackouts_def client_patch_admin_venues_blackouts_blackoutId_def client_get_admin_venues_keys_def
  client_post_admin_venues_keys_def client_post_admin_venues_keys_revoke_def

lemmas client_schema_defs = schema_Problem_def schema_HoldResponse_def schema_Receipt_def schema_HoldRequest_def
  schema_HoldList_def schema_Availability_def schema_AvailabilityRequest_def schema_Reservation_def
  schema_ReceiptResponse_def schema_CancelRequest_def schema_StatusChangeRequest_def schema_ConfirmTokenResponse_def
  schema_ConfirmTokenRequest_def schema_ConfirmRequest_def schema_UnitList_def schema_Unit_def
  schema_UnitResponse_def schema_CreateUnitRequest_def schema_UnitChange_def schema_UpdateUnitRequest_def
  schema_ComboList_def schema_Combo_def schema_ComboResponse_def schema_CreateComboRequest_def
  schema_ComboChange_def schema_UpdateComboRequest_def schema_ScheduleList_def schema_Schedule_def
  schema_ScheduleResponse_def schema_CreateScheduleRequest_def schema_UpdateScheduleRequest_def schema_BlackoutList_def
  schema_Blackout_def schema_BlackoutChange_def schema_CreateBlackoutRequest_def schema_UpdateBlackoutRequest_def
  schema_KeyList_def schema_Key_def schema_KeyCreated_def schema_CreateKeyRequest_def
  schema_KeyResponse_def

end
