(* ===== verification/ApiRoutes.thy ===== *)
theory ApiRoutes
  imports ApiSchemas ClientSchema
begin

text \<open>
  The routes of the API as the files of \<open>apps/api/src/routes\<close> declare them, the document
  \<open>@hono/zod-openapi\<close> builds from them, and its agreement with the types of the client package.
\<close>

section \<open>Routes\<close>

text \<open>
  \<open>rt_capability\<close> is the argument of \<open>requireCapability\<close>, the flag its \<open>orToken\<close>; a health route has none. An
  absent schema of headers or query is no field.
\<close>

record route =
  rt_method :: http_method
  rt_url :: string
  rt_capability :: "(string \<times> bool) option"
  rt_params :: zod
  rt_headers :: zod
  rt_query :: zod
  rt_body :: "zod option"
  rt_responses :: "(nat \<times> string \<times> zod_media) list"

abbreviation no_fields :: zod where "no_fields \<equiv> ZObject []"

text \<open>A success response beside \<open>problemResponses\<close>.\<close>

definition answers :: "nat \<Rightarrow> string \<Rightarrow> zod \<Rightarrow> (nat \<times> string \<times> zod_media) list" where
  "answers status description schema = (status, description, JsonSchema schema) # problemResponses"

definition venue_route :: "http_method \<Rightarrow> string \<Rightarrow> string \<Rightarrow> zod \<Rightarrow> zod option \<Rightarrow> (nat \<times> string \<times> zod_media) list \<Rightarrow> route" where
  "venue_route m url cap params body responses = \<lparr>rt_method = m, rt_url = url, rt_capability = Some (cap, False), rt_params = params,
     rt_headers = no_fields, rt_query = no_fields, rt_body = body, rt_responses = responses\<rparr>"

definition live_route :: route where
  "live_route = \<lparr>rt_method = Get, rt_url = ''/health/live'', rt_capability = None, rt_params = no_fields, rt_headers = no_fields,
     rt_query = no_fields, rt_body = None,
     rt_responses = [(200, ''Live'', JsonSchema (ZObject [required ''status'' (ZEnum [''live''])]))]\<rparr>"

definition ready_route :: route where
  "ready_route = \<lparr>rt_method = Get, rt_url = ''/health/ready'', rt_capability = None, rt_params = no_fields, rt_headers = no_fields,
     rt_query = no_fields, rt_body = None,
     rt_responses = [(200, ''Ready'', JsonSchema (ZObject [required ''status'' (ZEnum [''ready'']), required ''migrations'' zint])),
       (503, ''Not ready'', ProblemJson ProblemSchema)]\<rparr>"

definition hold_route :: route where
  "hold_route = (venue_route Post ''/v1/venues/{id}/holds'' ''hold'' IdParam (Some HoldBodySchema)
     (answers 201 ''Held, or the stored success replayed'' HoldResponseSchema))
     \<lparr>rt_headers := ZObject [required ''idempotency-key'' (ZString (Some 1) (Some 200))]\<rparr>"

definition list_holds_route :: route where
  "list_holds_route = venue_route Get ''/v1/venues/{id}/holds'' ''read'' IdParam None
     (answers 200 (''The calling key'' @ CHR 0x27 # ''s live holds'') HoldListSchema)"

definition availability_route :: route where
  "availability_route = venue_route Post ''/v1/venues/{id}/availability'' ''read'' IdParam (Some AvailabilityBodySchema)
     (answers 200 ''The bookable slots in start order, and whether the list was cut short'' AvailabilityResponseSchema)"

definition read_route :: route where
  "read_route = venue_route Get ''/v1/reservations/{id}'' ''read'' IdParam None (answers 200 ''The reservation'' ReservationSchema)"

definition cancel_route :: route where
  "cancel_route = venue_route Post ''/v1/reservations/{id}/cancel'' ''cancel'' IdParam (Some CancelBodySchema)
     (answers 200 ''Cancelled'' ReceiptResponseSchema)"

definition seat_route :: route where
  "seat_route = venue_route Post ''/v1/reservations/{id}/seat'' ''seat'' IdParam (Some StatusChangeBodySchema)
     (answers 200 ''Seated'' ReceiptResponseSchema)"

definition complete_route :: route where
  "complete_route = venue_route Post ''/v1/reservations/{id}/complete'' ''seat'' IdParam (Some StatusChangeBodySchema)
     (answers 200 ''Completed'' ReceiptResponseSchema)"

definition mint_route :: route where
  "mint_route = venue_route Post ''/v1/reservations/{id}/confirm-token'' ''confirm'' IdParam (Some MintBodySchema)
     (answers 201 ''Minted'' MintResponseSchema)"

definition confirm_route :: route where
  "confirm_route = (venue_route Post ''/v1/reservations/{id}/confirm'' ''confirm'' IdParam (Some ConfirmBodySchema)
     (answers 200 ''Confirmed'' ReceiptResponseSchema))\<lparr>rt_capability := Some (''confirm'', True)\<rparr>"

definition list_units_route :: route where
  "list_units_route = venue_route Get ''/admin/venues/{id}/units'' ''admin'' IdParam None
     (answers 200 (''The venue'' @ CHR 0x27 # ''s units'') UnitListSchema)"

definition create_unit_route :: route where
  "create_unit_route = venue_route Post ''/admin/venues/{id}/units'' ''admin'' IdParam (Some CreateUnitSchema)
     (answers 201 ''The unit'' UnitResponseSchema)"

definition update_unit_route :: route where
  "update_unit_route = venue_route Patch ''/admin/venues/{id}/units/{unitId}'' ''admin'' UnitParams (Some UpdateUnitSchema)
     (answers 200 ''The unit and the ids of the reservations cancelled by force'' UnitChangeSchema)"

definition list_combos_route :: route where
  "list_combos_route = venue_route Get ''/admin/venues/{id}/combos'' ''admin'' IdParam None
     (answers 200 (''The venue'' @ CHR 0x27 # ''s combinations'') ComboListSchema)"

definition create_combo_route :: route where
  "create_combo_route = venue_route Post ''/admin/venues/{id}/combos'' ''admin'' IdParam (Some CreateComboSchema)
     (answers 201 ''The combination'' ComboResponseSchema)"

definition update_combo_route :: route where
  "update_combo_route = venue_route Patch ''/admin/venues/{id}/combos/{comboId}'' ''admin'' ComboParams (Some UpdateComboSchema)
     (answers 200 ''The combination and the ids of the reservations cancelled by force'' ComboChangeSchema)"

definition list_schedules_route :: route where
  "list_schedules_route = venue_route Get ''/admin/venues/{id}/schedules'' ''admin'' IdParam None
     (answers 200 (''The venue'' @ CHR 0x27 # ''s service periods'') ScheduleListSchema)"

definition create_schedule_route :: route where
  "create_schedule_route = venue_route Post ''/admin/venues/{id}/schedules'' ''admin'' IdParam (Some CreateScheduleSchema)
     (answers 201 ''The service period'' ScheduleResponseSchema)"

definition update_schedule_route :: route where
  "update_schedule_route = venue_route Patch ''/admin/venues/{id}/schedules/{scheduleId}'' ''admin'' ScheduleParams (Some UpdateScheduleSchema)
     (answers 200 ''The service period'' ScheduleResponseSchema)"

definition list_blackouts_route :: route where
  "list_blackouts_route = (venue_route Get ''/admin/venues/{id}/blackouts'' ''admin'' IdParam None
     (answers 200 ''The blackouts overlapping the window'' BlackoutListSchema))\<lparr>rt_query := BlackoutListQuery\<rparr>"

definition create_blackout_route :: route where
  "create_blackout_route = venue_route Post ''/admin/venues/{id}/blackouts'' ''admin'' IdParam (Some CreateBlackoutSchema)
     (answers 201 ''The blackout and the ids of the reservations cancelled by force'' BlackoutChangeSchema)"

definition update_blackout_route :: route where
  "update_blackout_route = venue_route Patch ''/admin/venues/{id}/blackouts/{blackoutId}'' ''admin'' BlackoutParams (Some UpdateBlackoutSchema)
     (answers 200 ''The blackout and the ids of the reservations cancelled by force'' BlackoutChangeSchema)"

definition list_keys_route :: route where
  "list_keys_route = venue_route Get ''/admin/venues/{id}/keys'' ''admin'' IdParam None
     (answers 200 (''The venue'' @ CHR 0x27 # ''s keys'') KeyListSchema)"

definition create_key_route :: route where
  "create_key_route = venue_route Post ''/admin/venues/{id}/keys'' ''admin'' IdParam (Some CreateKeySchema)
     (answers 201 ''The key and its secret, shown once'' KeyCreatedSchema)"

definition revoke_key_route :: route where
  "revoke_key_route = venue_route Post ''/admin/venues/{id}/keys/{keyId}/revoke'' ''admin'' KeyParams None
     (answers 200 ''The revoked key'' KeyResponseSchema)"

text \<open>In the order \<open>createApp\<close> registers them.\<close>

definition routes :: "route list" where
  "routes = [live_route, ready_route, hold_route, list_holds_route, availability_route,
     read_route, cancel_route, seat_route, complete_route, mint_route, confirm_route,
     list_units_route, create_unit_route, update_unit_route, list_combos_route, create_combo_route, update_combo_route,
     list_schedules_route, create_schedule_route, update_schedule_route, list_blackouts_route, create_blackout_route, update_blackout_route,
     list_keys_route, create_key_route, revoke_key_route]"

lemmas route_defs = live_route_def ready_route_def hold_route_def list_holds_route_def availability_route_def
  read_route_def cancel_route_def seat_route_def complete_route_def mint_route_def confirm_route_def
  list_units_route_def create_unit_route_def update_unit_route_def list_combos_route_def create_combo_route_def update_combo_route_def
  list_schedules_route_def create_schedule_route_def update_schedule_route_def list_blackouts_route_def create_blackout_route_def
  update_blackout_route_def list_keys_route_def create_key_route_def revoke_key_route_def

section \<open>The document\<close>

definition fields_of :: "zod \<Rightarrow> (string \<times> bool \<times> wire) list" where
  "fields_of z = (case wire_of z of WObject ts \<Rightarrow> ts | _ \<Rightarrow> [])"

definition media_of :: "zod_media \<Rightarrow> media" where
  "media_of m = (case m of JsonSchema z \<Rightarrow> JsonContent (wire_of z) | ProblemJson z \<Rightarrow> ProblemContent (wire_of z))"

definition media_schema :: "zod_media \<Rightarrow> zod" where
  "media_schema m = (case m of JsonSchema z \<Rightarrow> z | ProblemJson z \<Rightarrow> z)"

definition operation_of :: "route \<Rightarrow> operation" where
  "operation_of r = \<lparr>op_query = fields_of (rt_query r), op_header = fields_of (rt_headers r), op_path = fields_of (rt_params r),
     op_body = map_option wire_of (rt_body r),
     op_responses = sort_key fst (map (\<lambda>x. (fst x, fst (snd x), media_of (snd (snd x)))) (rt_responses r))\<rparr>"

text \<open>A route joins the path it names, or starts it; the methods of a path are in the order of the document.\<close>

definition method_rank :: "http_method \<Rightarrow> nat" where
  "method_rank m = (case m of Get \<Rightarrow> 0 | Put \<Rightarrow> 1 | Post \<Rightarrow> 2 | Delete \<Rightarrow> 3 | Options \<Rightarrow> 4 | Head \<Rightarrow> 5 | Patch \<Rightarrow> 6 | Trace \<Rightarrow> 7)"

fun add_route :: "route \<Rightarrow> (string \<times> (http_method \<times> operation) list) list \<Rightarrow> (string \<times> (http_method \<times> operation) list) list" where
  "add_route r [] = [(rt_url r, [(rt_method r, operation_of r)])]"
| "add_route r (p # ps) = (if fst p = rt_url r then (fst p, insort_key (\<lambda>x. method_rank (fst x)) (rt_method r, operation_of r) (snd p)) # ps
     else p # add_route r ps)"

definition document_paths :: "route list \<Rightarrow> (string \<times> (http_method \<times> operation) list) list" where
  "document_paths rs = fold add_route rs []"

definition document_schemas :: "route list \<Rightarrow> (string \<times> wire) list" where
  "document_schemas rs = concat (map (\<lambda>r.
     (case rt_body r of None \<Rightarrow> [] | Some z \<Rightarrow> components_of z) @ concat (map (\<lambda>x. components_of (media_schema (snd (snd x)))) (rt_responses r))) rs)"

end
