(* ===== verification/ClientSync.thy ===== *)
theory ClientSync
  imports ApiRoutes
begin

text \<open>
  The client package's types (\<open>ClientSchema\<close>) against the document of the API's routes (\<open>ApiRoutes\<close>): they are the same,
  and what a route's schema accepts is of the type the client has for it.
\<close>

section \<open>The client's types are the document's\<close>

lemma document_operations:
  "operation_of live_route = client_get_health_live"
  "operation_of ready_route = client_get_health_ready"
  "operation_of hold_route = client_post_venues_holds"
  "operation_of list_holds_route = client_get_venues_holds"
  "operation_of availability_route = client_post_venues_availability"
  "operation_of read_route = client_get_reservations"
  "operation_of cancel_route = client_post_reservations_cancel"
  "operation_of seat_route = client_post_reservations_seat"
  "operation_of complete_route = client_post_reservations_complete"
  "operation_of mint_route = client_post_reservations_confirm_token"
  "operation_of confirm_route = client_post_reservations_confirm"
  "operation_of list_units_route = client_get_admin_venues_units"
  "operation_of create_unit_route = client_post_admin_venues_units"
  "operation_of update_unit_route = client_patch_admin_venues_units_unitId"
  "operation_of list_combos_route = client_get_admin_venues_combos"
  "operation_of create_combo_route = client_post_admin_venues_combos"
  "operation_of update_combo_route = client_patch_admin_venues_combos_comboId"
  "operation_of list_schedules_route = client_get_admin_venues_schedules"
  "operation_of create_schedule_route = client_post_admin_venues_schedules"
  "operation_of update_schedule_route = client_patch_admin_venues_schedules_scheduleId"
  "operation_of list_blackouts_route = client_get_admin_venues_blackouts"
  "operation_of create_blackout_route = client_post_admin_venues_blackouts"
  "operation_of update_blackout_route = client_patch_admin_venues_blackouts_blackoutId"
  "operation_of list_keys_route = client_get_admin_venues_keys"
  "operation_of create_key_route = client_post_admin_venues_keys"
  "operation_of revoke_key_route = client_post_admin_venues_keys_revoke"
  by (simp_all add: operation_of_def route_defs venue_route_def answers_def problemResponses_def problemContent_def media_of_def fields_of_def
      client_operations IdParam_def UnitParams_def ComboParams_def ScheduleParams_def BlackoutParams_def KeyParams_def BlackoutListQuery_def
      body_schemas response_schemas)

lemma body_components:
  "components_of HoldBodySchema = [(''HoldRequest'', schema_HoldRequest)]"
  "components_of AvailabilityBodySchema = [(''AvailabilityRequest'', schema_AvailabilityRequest)]"
  "components_of CancelBodySchema = [(''CancelRequest'', schema_CancelRequest)]"
  "components_of ConfirmBodySchema = [(''ConfirmRequest'', schema_ConfirmRequest)]"
  "components_of MintBodySchema = [(''ConfirmTokenRequest'', schema_ConfirmTokenRequest)]"
  "components_of StatusChangeBodySchema = [(''StatusChangeRequest'', schema_StatusChangeRequest)]"
  "components_of CreateUnitSchema = [(''CreateUnitRequest'', schema_CreateUnitRequest)]"
  "components_of UpdateUnitSchema = [(''UpdateUnitRequest'', schema_UpdateUnitRequest)]"
  "components_of CreateComboSchema = [(''CreateComboRequest'', schema_CreateComboRequest)]"
  "components_of UpdateComboSchema = [(''UpdateComboRequest'', schema_UpdateComboRequest)]"
  "components_of CreateScheduleSchema = [(''CreateScheduleRequest'', schema_CreateScheduleRequest)]"
  "components_of UpdateScheduleSchema = [(''UpdateScheduleRequest'', schema_UpdateScheduleRequest)]"
  "components_of CreateBlackoutSchema = [(''CreateBlackoutRequest'', schema_CreateBlackoutRequest)]"
  "components_of UpdateBlackoutSchema = [(''UpdateBlackoutRequest'', schema_UpdateBlackoutRequest)]"
  "components_of CreateKeySchema = [(''CreateKeyRequest'', schema_CreateKeyRequest)]"
  by (simp_all add: body_schemas schema_parts client_schema_defs)

lemma part_components:
  "components_of ProblemSchema = [(''Problem'', schema_Problem)]"
  "components_of ReceiptSchema = [(''Receipt'', schema_Receipt)]"
  "components_of UnitSchema = [(''Unit'', schema_Unit)]"
  "components_of ComboSchema = [(''Combo'', schema_Combo)]"
  "components_of ScheduleSchema = [(''Schedule'', schema_Schedule)]"
  "components_of BlackoutSchema = [(''Blackout'', schema_Blackout)]"
  "components_of KeySchema = [(''Key'', schema_Key)]"
  by (simp_all add: response_schemas schema_parts client_schema_defs)

lemma part_wires:
  "wire_of ReceiptSchema = WRef ''Receipt''" "wire_of UnitSchema = WRef ''Unit''" "wire_of ComboSchema = WRef ''Combo''"
  "wire_of ScheduleSchema = WRef ''Schedule''" "wire_of BlackoutSchema = WRef ''Blackout''" "wire_of KeySchema = WRef ''Key''"
  by (simp_all add: ReceiptSchema_def UnitSchema_def ComboSchema_def ScheduleSchema_def BlackoutSchema_def KeySchema_def)

lemma response_components:
  "components_of HoldResponseSchema = [(''HoldResponse'', schema_HoldResponse), (''Receipt'', schema_Receipt)]"
  "components_of ReservationSchema = [(''Reservation'', schema_Reservation)]"
  "components_of ReceiptResponseSchema = [(''ReceiptResponse'', schema_ReceiptResponse), (''Receipt'', schema_Receipt)]"
  "components_of MintResponseSchema = [(''ConfirmTokenResponse'', schema_ConfirmTokenResponse)]"
  "components_of HoldListSchema = [(''HoldList'', schema_HoldList)]"
  "components_of AvailabilityResponseSchema = [(''Availability'', schema_Availability)]"
  "components_of UnitListSchema = [(''UnitList'', schema_UnitList), (''Unit'', schema_Unit)]"
  "components_of UnitResponseSchema = [(''UnitResponse'', schema_UnitResponse), (''Unit'', schema_Unit)]"
  "components_of UnitChangeSchema = [(''UnitChange'', schema_UnitChange), (''Unit'', schema_Unit)]"
  "components_of ComboListSchema = [(''ComboList'', schema_ComboList), (''Combo'', schema_Combo)]"
  "components_of ComboResponseSchema = [(''ComboResponse'', schema_ComboResponse), (''Combo'', schema_Combo)]"
  "components_of ComboChangeSchema = [(''ComboChange'', schema_ComboChange), (''Combo'', schema_Combo)]"
  "components_of ScheduleListSchema = [(''ScheduleList'', schema_ScheduleList), (''Schedule'', schema_Schedule)]"
  "components_of ScheduleResponseSchema = [(''ScheduleResponse'', schema_ScheduleResponse), (''Schedule'', schema_Schedule)]"
  "components_of BlackoutListSchema = [(''BlackoutList'', schema_BlackoutList), (''Blackout'', schema_Blackout)]"
  "components_of BlackoutChangeSchema = [(''BlackoutChange'', schema_BlackoutChange), (''Blackout'', schema_Blackout)]"
  "components_of KeyListSchema = [(''KeyList'', schema_KeyList), (''Key'', schema_Key)]"
  "components_of KeyResponseSchema = [(''KeyResponse'', schema_KeyResponse), (''Key'', schema_Key)]"
  "components_of KeyCreatedSchema = [(''KeyCreated'', schema_KeyCreated), (''Key'', schema_Key)]"
  by (simp_all add: HoldResponseSchema_def ReservationSchema_def ReceiptResponseSchema_def MintResponseSchema_def HoldListSchema_def
      AvailabilityResponseSchema_def UnitListSchema_def UnitResponseSchema_def UnitChangeSchema_def ComboListSchema_def
      ComboResponseSchema_def ComboChangeSchema_def ScheduleListSchema_def ScheduleResponseSchema_def BlackoutListSchema_def
      BlackoutChangeSchema_def KeyListSchema_def KeyResponseSchema_def KeyCreatedSchema_def part_components part_wires schema_parts client_schema_defs)

lemma route_urls:
  "rt_url live_route = ''/health/live''" "rt_method live_route = Get" "rt_url ready_route = ''/health/ready''" "rt_method ready_route = Get"
  "rt_url hold_route = ''/v1/venues/{id}/holds''" "rt_method hold_route = Post" "rt_url list_holds_route = ''/v1/venues/{id}/holds''" "rt_method list_holds_route = Get"
  "rt_url availability_route = ''/v1/venues/{id}/availability''" "rt_method availability_route = Post"
  "rt_url read_route = ''/v1/reservations/{id}''" "rt_method read_route = Get"
  "rt_url cancel_route = ''/v1/reservations/{id}/cancel''" "rt_method cancel_route = Post"
  "rt_url seat_route = ''/v1/reservations/{id}/seat''" "rt_method seat_route = Post"
  "rt_url complete_route = ''/v1/reservations/{id}/complete''" "rt_method complete_route = Post"
  "rt_url mint_route = ''/v1/reservations/{id}/confirm-token''" "rt_method mint_route = Post"
  "rt_url confirm_route = ''/v1/reservations/{id}/confirm''" "rt_method confirm_route = Post"
  "rt_url list_units_route = ''/admin/venues/{id}/units''" "rt_method list_units_route = Get"
  "rt_url create_unit_route = ''/admin/venues/{id}/units''" "rt_method create_unit_route = Post"
  "rt_url update_unit_route = ''/admin/venues/{id}/units/{unitId}''" "rt_method update_unit_route = Patch"
  "rt_url list_combos_route = ''/admin/venues/{id}/combos''" "rt_method list_combos_route = Get"
  "rt_url create_combo_route = ''/admin/venues/{id}/combos''" "rt_method create_combo_route = Post"
  "rt_url update_combo_route = ''/admin/venues/{id}/combos/{comboId}''" "rt_method update_combo_route = Patch"
  "rt_url list_schedules_route = ''/admin/venues/{id}/schedules''" "rt_method list_schedules_route = Get"
  "rt_url create_schedule_route = ''/admin/venues/{id}/schedules''" "rt_method create_schedule_route = Post"
  "rt_url update_schedule_route = ''/admin/venues/{id}/schedules/{scheduleId}''" "rt_method update_schedule_route = Patch"
  "rt_url list_blackouts_route = ''/admin/venues/{id}/blackouts''" "rt_method list_blackouts_route = Get"
  "rt_url create_blackout_route = ''/admin/venues/{id}/blackouts''" "rt_method create_blackout_route = Post"
  "rt_url update_blackout_route = ''/admin/venues/{id}/blackouts/{blackoutId}''" "rt_method update_blackout_route = Patch"
  "rt_url list_keys_route = ''/admin/venues/{id}/keys''" "rt_method list_keys_route = Get"
  "rt_url create_key_route = ''/admin/venues/{id}/keys''" "rt_method create_key_route = Post"
  "rt_url revoke_key_route = ''/admin/venues/{id}/keys/{keyId}/revoke''" "rt_method revoke_key_route = Post"
  by (simp_all add: route_defs venue_route_def)

lemma document_paths_client: "document_paths routes = client_paths"
  unfolding document_paths_def routes_def
  by (simp add: route_urls document_operations method_rank_def client_paths_def)

lemma problem_components: "(\<Union>x\<in>set problemResponses. set (components_of (media_schema (snd (snd x))))) = {(''Problem'', schema_Problem)}"
  by (simp add: problemResponses_def problemContent_def media_schema_def part_components)

definition route_components :: "route \<Rightarrow> (string \<times> wire) set" where
  "route_components r = (case rt_body r of None \<Rightarrow> {} | Some z \<Rightarrow> set (components_of z))
     \<union> (\<Union>x\<in>set (rt_responses r). set (components_of (media_schema (snd (snd x)))))"

lemma document_members: "set (document_schemas rs) = \<Union> (route_components ` set rs)"
proof -
  have e: "set (case b of None \<Rightarrow> [] | Some z \<Rightarrow> components_of z) = (case b of None \<Rightarrow> {} | Some z \<Rightarrow> set (components_of z))" for b
    by (simp split: option.split)
  have "route_components r = set ((case rt_body r of None \<Rightarrow> [] | Some z \<Rightarrow> components_of z)
      @ concat (map (\<lambda>x. components_of (media_schema (snd (snd x)))) (rt_responses r)))" for r
    unfolding route_components_def set_append e by simp
  then show ?thesis unfolding document_schemas_def set_concat by simp
qed

lemma answers_components: "(\<Union>x\<in>set (answers s d z). set (components_of (media_schema (snd (snd x))))) = insert (''Problem'', schema_Problem) (set (components_of z))"
  using problem_components by (simp add: answers_def) (simp add: media_schema_def)

lemma route_components_eq:
  "route_components live_route = {}"
  "route_components ready_route = {(''Problem'', schema_Problem)}"
  "route_components hold_route = {(''Problem'', schema_Problem), (''HoldRequest'', schema_HoldRequest), (''HoldResponse'', schema_HoldResponse), (''Receipt'', schema_Receipt)}"
  "route_components list_holds_route = {(''Problem'', schema_Problem), (''HoldList'', schema_HoldList)}"
  "route_components availability_route = {(''Problem'', schema_Problem), (''AvailabilityRequest'', schema_AvailabilityRequest), (''Availability'', schema_Availability)}"
  "route_components read_route = {(''Problem'', schema_Problem), (''Reservation'', schema_Reservation)}"
  "route_components cancel_route = {(''Problem'', schema_Problem), (''CancelRequest'', schema_CancelRequest), (''ReceiptResponse'', schema_ReceiptResponse), (''Receipt'', schema_Receipt)}"
  "route_components seat_route = {(''Problem'', schema_Problem), (''StatusChangeRequest'', schema_StatusChangeRequest), (''ReceiptResponse'', schema_ReceiptResponse), (''Receipt'', schema_Receipt)}"
  "route_components complete_route = {(''Problem'', schema_Problem), (''StatusChangeRequest'', schema_StatusChangeRequest), (''ReceiptResponse'', schema_ReceiptResponse), (''Receipt'', schema_Receipt)}"
  "route_components mint_route = {(''Problem'', schema_Problem), (''ConfirmTokenRequest'', schema_ConfirmTokenRequest), (''ConfirmTokenResponse'', schema_ConfirmTokenResponse)}"
  "route_components confirm_route = {(''Problem'', schema_Problem), (''ConfirmRequest'', schema_ConfirmRequest), (''ReceiptResponse'', schema_ReceiptResponse), (''Receipt'', schema_Receipt)}"
  "route_components list_units_route = {(''Problem'', schema_Problem), (''UnitList'', schema_UnitList), (''Unit'', schema_Unit)}"
  "route_components create_unit_route = {(''Problem'', schema_Problem), (''CreateUnitRequest'', schema_CreateUnitRequest), (''UnitResponse'', schema_UnitResponse), (''Unit'', schema_Unit)}"
  "route_components update_unit_route = {(''Problem'', schema_Problem), (''UpdateUnitRequest'', schema_UpdateUnitRequest), (''UnitChange'', schema_UnitChange), (''Unit'', schema_Unit)}"
  "route_components list_combos_route = {(''Problem'', schema_Problem), (''ComboList'', schema_ComboList), (''Combo'', schema_Combo)}"
  "route_components create_combo_route = {(''Problem'', schema_Problem), (''CreateComboRequest'', schema_CreateComboRequest), (''ComboResponse'', schema_ComboResponse), (''Combo'', schema_Combo)}"
  "route_components update_combo_route = {(''Problem'', schema_Problem), (''UpdateComboRequest'', schema_UpdateComboRequest), (''ComboChange'', schema_ComboChange), (''Combo'', schema_Combo)}"
  "route_components list_schedules_route = {(''Problem'', schema_Problem), (''ScheduleList'', schema_ScheduleList), (''Schedule'', schema_Schedule)}"
  "route_components create_schedule_route = {(''Problem'', schema_Problem), (''CreateScheduleRequest'', schema_CreateScheduleRequest), (''ScheduleResponse'', schema_ScheduleResponse), (''Schedule'', schema_Schedule)}"
  "route_components update_schedule_route = {(''Problem'', schema_Problem), (''UpdateScheduleRequest'', schema_UpdateScheduleRequest), (''ScheduleResponse'', schema_ScheduleResponse), (''Schedule'', schema_Schedule)}"
  "route_components list_blackouts_route = {(''Problem'', schema_Problem), (''BlackoutList'', schema_BlackoutList), (''Blackout'', schema_Blackout)}"
  "route_components create_blackout_route = {(''Problem'', schema_Problem), (''CreateBlackoutRequest'', schema_CreateBlackoutRequest), (''BlackoutChange'', schema_BlackoutChange), (''Blackout'', schema_Blackout)}"
  "route_components update_blackout_route = {(''Problem'', schema_Problem), (''UpdateBlackoutRequest'', schema_UpdateBlackoutRequest), (''BlackoutChange'', schema_BlackoutChange), (''Blackout'', schema_Blackout)}"
  "route_components list_keys_route = {(''Problem'', schema_Problem), (''KeyList'', schema_KeyList), (''Key'', schema_Key)}"
  "route_components create_key_route = {(''Problem'', schema_Problem), (''CreateKeyRequest'', schema_CreateKeyRequest), (''KeyCreated'', schema_KeyCreated), (''Key'', schema_Key)}"
  "route_components revoke_key_route = {(''Problem'', schema_Problem), (''KeyResponse'', schema_KeyResponse), (''Key'', schema_Key)}"
  unfolding route_components_def route_defs venue_route_def
  by (simp_all add: answers_components response_components body_components del: UN_simps) (auto simp: media_schema_def part_components)

lemma document_components: "set (document_schemas routes) = set client_schemas"
  unfolding document_members routes_def client_schemas_def list.set image_insert image_empty Union_insert Union_empty route_components_eq
proof (rule subset_antisym, goal_cases)
  case 1
  show ?case by (simp only: Un_subset_iff insert_subset empty_subsetI insert_iff simp_thms)
next
  case 2
  show ?case by (simp only: Un_iff insert_subset empty_subsetI insert_iff simp_thms)
qed

lemma client_schema_names: "distinct (map fst client_schemas)"
  unfolding client_schemas_def by simp

text \<open>
  C28: the client package's types are exactly what the API's routes declare: every path and method, its parameters, its body
  and its responses by status, and every named schema, with nothing missing and nothing left over.
\<close>

theorem client_in_sync:
  "document_paths routes = client_paths \<and> set (document_schemas routes) = set client_schemas \<and> distinct (map fst client_schemas)"
  using document_paths_client document_components client_schema_names by blast

section \<open>A value a schema accepts is of the client's type\<close>

text \<open>How many references the type of a schema is deep.\<close>

fun ref_depth :: "zod \<Rightarrow> nat" where
  "ref_depth (ZNullable z) = ref_depth z"
| "ref_depth (ZArray lo hi z) = ref_depth z"
| "ref_depth (ZRecord p z) = ref_depth z"
| "ref_depth (ZObject ts) = fold max (map (\<lambda>t. ref_depth (snd (snd t))) ts) 0"
| "ref_depth (ZRefine p z) = ref_depth z"
| "ref_depth (ZNamed n z) = Suc (ref_depth z)"
| "ref_depth _ = 0"

lemma fold_max_le: "fold max xs (a::nat) \<le> n \<longleftrightarrow> a \<le> n \<and> (\<forall>x\<in>set xs. x \<le> n)"
  by (induction xs arbitrary: a) auto

lemma output_conforms:
  "ref_depth z \<le> n \<Longrightarrow> \<forall>c\<in>set (components_of z). map_of S (fst c) = Some (snd c) \<Longrightarrow> output_ok z v \<Longrightarrow> conforms S n (wire_of z) v"
proof (induction z arbitrary: n v)
  case (ZArray lo hi z)
  then show ?case by (auto simp: list_all_iff split: jval.splits)
next
  case (ZRecord p z)
  then show ?case by (auto simp: list_all_iff split: jval.splits)
next
  case (ZObject ts)
  obtain fs where v: "v = VObj fs" using ZObject.prems(3) by (cases v) auto
  have "case map_of fs (fst t) of None \<Rightarrow> fst (snd t) \<noteq> Required | Some x \<Rightarrow> conforms S n (wire_of (snd (snd t))) x" if t: "t \<in> set ts" for t
  proof (cases "map_of fs (fst t)")
    case None
    with t ZObject.prems(3) show ?thesis by (auto simp: v list_all_iff split: option.splits)
  next
    case (Some x)
    have d: "ref_depth (snd (snd t)) \<le> n" using ZObject.prems(1) t by (auto simp: fold_max_le)
    have c: "\<forall>c\<in>set (components_of (snd (snd t))). map_of S (fst c) = Some (snd c)" using ZObject.prems(2) t by auto
    have o: "output_ok (snd (snd t)) x" using ZObject.prems(3) t Some by (auto simp: v list_all_iff split: option.splits)
    obtain a p z where tt: "t = (a, p, z)" by (cases t) auto
    have "conforms S n (wire_of z) x" by (rule ZObject.IH [OF t]) (use d c o tt in auto)
    with Some tt show ?thesis by simp
  qed
  then show ?case unfolding v conforms.simps wire_of.simps jval.case list_all_iff set_map ball_simps fst_conv snd_conv by blast
next
  case (ZNamed m z)
  then obtain k where n: "n = Suc k" by (cases n) auto
  with ZNamed show ?case by simp
qed (auto split: jval.splits)

text \<open>The schemas of a route: its body, and its responses.\<close>

definition route_schemas :: "route \<Rightarrow> zod list" where
  "route_schemas r = (case rt_body r of None \<Rightarrow> [] | Some z \<Rightarrow> [z]) @ map (\<lambda>x. media_schema (snd (snd x))) (rt_responses r)"

lemma route_schema_components: "z \<in> set (route_schemas r) \<Longrightarrow> set (components_of z) \<subseteq> route_components r"
  by (auto simp: route_schemas_def route_components_def split: option.splits)

lemma client_component:
  assumes "r \<in> set routes" and "z \<in> set (route_schemas r)" and "c \<in> set (components_of z)"
  shows "map_of client_schemas (fst c) = Some (snd c)"
proof -
  have "c \<in> set client_schemas" using assms route_schema_components document_components document_members by blast
  then show ?thesis using client_schema_names by (simp add: map_of_eq_Some_iff)
qed

lemma ref_depths: "r \<in> set routes \<Longrightarrow> z \<in> set (route_schemas r) \<Longrightarrow> ref_depth z \<le> 3"
proof -
  assume r: "r \<in> set routes" and z: "z \<in> set (route_schemas r)"
  have "\<forall>r\<in>set routes. \<forall>z\<in>set (route_schemas r). ref_depth z \<le> 3"
    unfolding routes_def list.set ball_simps
    by (simp add: route_schemas_def route_defs venue_route_def answers_def problemResponses_def problemContent_def media_schema_def
        body_schemas response_schemas schema_parts)
  with r z show ?thesis by blast
qed

lemma route_found: "r \<in> set routes \<Longrightarrow> find_operation client_paths (rt_url r) (rt_method r) = Some (operation_of r)"
proof -
  assume r: "r \<in> set routes"
  have "\<forall>r\<in>set routes. find_operation client_paths (rt_url r) (rt_method r) = Some (operation_of r)"
    unfolding routes_def list.set ball_simps find_operation_def client_paths_def
    by (simp add: route_urls document_operations)
  with r show ?thesis by blast
qed

lemma route_statuses: "r \<in> set routes \<Longrightarrow> distinct (map fst (rt_responses r))"
proof -
  assume r: "r \<in> set routes"
  have "\<forall>r\<in>set routes. distinct (map fst (rt_responses r))"
    unfolding routes_def list.set ball_simps
    by (simp add: route_defs venue_route_def answers_def problemResponses_def)
  with r show ?thesis by blast
qed

lemma operation_response:
  assumes "distinct (map fst (rt_responses r))" and "(status, d, m) \<in> set (rt_responses r)"
  shows "map_of (op_responses (operation_of r)) status = Some (d, media_of m)"
proof -
  let ?f = "\<lambda>x. (fst x, fst (snd x), media_of (snd (snd x)))"
  have "mset (op_responses (operation_of r)) = mset (map ?f (rt_responses r))" by (simp add: operation_of_def)
  then have s: "set (op_responses (operation_of r)) = set (map ?f (rt_responses r))" by (rule mset_eq_setD)
  have "mset (map fst (op_responses (operation_of r))) = mset (map fst (rt_responses r))"
    by (simp add: operation_of_def multiset.map_comp comp_def)
  then have "distinct (map fst (op_responses (operation_of r)))" using assms(1) by (metis mset_eq_imp_distinct_iff)
  moreover have "(status, d, media_of m) \<in> set (op_responses (operation_of r))"
    unfolding s using image_eqI [of _ ?f, OF _ assms(2)] by simp
  ultimately show ?thesis by (simp add: map_of_eq_Some_iff)
qed

lemma media_of_simps: "media_wire (media_of m) = wire_of (media_schema m)"
  "media_type (media_of m) = (case m of JsonSchema _ \<Rightarrow> ''application/json'' | ProblemJson _ \<Rightarrow> ''application/problem+json'')"
  by (simp_all add: media_of_def media_schema_def media_wire_def media_type_def split: zod_media.split)

lemma schema_typed: "r \<in> set routes \<Longrightarrow> z \<in> set (route_schemas r) \<Longrightarrow> output_ok z v \<Longrightarrow> conforms client_schemas 3 (wire_of z) v"
  using output_conforms [OF ref_depths] client_component by blast

lemma response_declared:
  assumes r: "r \<in> set routes" and m: "(status, d, m) \<in> set (rt_responses r)" and v: "output_ok (media_schema m) v"
  shows "declared_response client_schemas (operation_of r) status (media_type (media_of m)) v"
proof -
  have "media_schema m \<in> set (route_schemas r)" using image_eqI [of _ "\<lambda>x. media_schema (snd (snd x))", OF _ m] by (simp add: route_schemas_def)
  from schema_typed [OF r this v] show ?thesis
    by (simp add: declared_response_def operation_response [OF route_statuses [OF r] m] media_of_simps(1))
qed

text \<open>
  C29: what the API accepts and returns has the client's types. For every route, the client has its operation; a body the
  route's schema accepts is of the operation's body type, and a value one of its response schemas accepts is, under that
  status and media type, a response the operation declares.
\<close>

theorem schemas_have_client_types:
  assumes "r \<in> set routes"
  shows "\<exists>oper. find_operation client_paths (rt_url r) (rt_method r) = Some oper
     \<and> (\<forall>z v. rt_body r = Some z \<longrightarrow> output_ok z v \<longrightarrow> (\<exists>w. op_body oper = Some w \<and> conforms client_schemas 3 w v))
     \<and> (\<forall>status d m v. (status, d, m) \<in> set (rt_responses r) \<longrightarrow> output_ok (media_schema m) v \<longrightarrow>
          declared_response client_schemas oper status (media_type (media_of m)) v)"
proof (intro exI conjI allI impI, rule route_found [OF assms])
  show "op_body (operation_of r) = Some (wire_of z)" and "conforms client_schemas 3 (wire_of z) v"
    if "rt_body r = Some z" and "output_ok z v" for z v
    using that schema_typed [OF assms] by (simp_all add: operation_of_def route_schemas_def)
qed (rule response_declared [OF assms])

theorem schemas_have_client_types_witness:
  "\<exists>oper. find_operation client_paths ''/health/live'' Get = Some oper
     \<and> declared_response client_schemas oper 200 ''application/json'' (VObj [(''status'', VStr ''live'')])"
proof -
  have m: "(200, ''Live'', JsonSchema (ZObject [required ''status'' (ZEnum [''live''])])) \<in> set (rt_responses live_route)"
    by (simp add: live_route_def)
  have r: "live_route \<in> set routes" by (simp add: routes_def)
  have v: "output_ok (media_schema (JsonSchema (ZObject [required ''status'' (ZEnum [''live''])]))) (VObj [(''status'', VStr ''live'')])"
    by (simp add: media_schema_def)
  show ?thesis using schemas_have_client_types [OF r] m v by (fastforce simp: media_of_simps(2) route_urls)
qed

end
