(* ===== verification/CmdAdmin.thy ===== *)
theory CmdAdmin
  imports DbBatch DbConfigInvariant Demo
begin

text \<open>
  What the administrative commands share, \<open>packages/db/src/commands/admin.ts\<close>: the transaction around a
  write, the read, and the settlement of the live reservations a write would strand. The venue lock the
  write takes first admits no other transaction of the venue, so a write is one step of the database.
\<close>

record AdminContext =
  ax_venueId :: string
  ax_actor :: string
  ax_traceId :: string

record ForceOption =
  fo_force :: bool
  fo_cancelReason :: "string option"

datatype 'a AdminOutcome = Admin_ok 'a "string list" | Admin_refused DastarErrorCode string "string list"

record Stranded =
  st_id :: string
  st_started :: bool

section \<open>Stranded reservations\<close>

text \<open>\<open>STRANDED_COLUMNS\<close>, \<open>LIVE\<close> and \<open>STRANDED_TAIL\<close> around a condition of the caller.\<close>

definition stranded_row :: "instant \<Rightarrow> ReservationRow \<Rightarrow> Stranded" where
  "stranded_row now r = \<lparr>st_id = r_id r, st_started = (r_status r = Seated \<or> fst (r_during r) \<le> now)\<rparr>"

definition stranded_by :: "session \<Rightarrow> string \<Rightarrow> (ReservationRow \<Rightarrow> bool) \<Rightarrow> db \<Rightarrow> ReservationRow list" where
  "stranded_by cx venue p d = sort_key (\<lambda>r. (fst (r_during r), r_id r))
     (filter (\<lambda>r. r_venue r = venue \<and> live (cx_now cx) r \<and> p r \<and> visible cx (r_venue r)) (reservations d))"

definition read_stranded :: "session \<Rightarrow> string \<Rightarrow> (ReservationRow \<Rightarrow> bool) \<Rightarrow> db \<Rightarrow> Stranded list" where
  "read_stranded cx venue p d = map (stranded_row (cx_now cx)) (take (Suc BOUNDS_forceCancellations) (stranded_by cx venue p d))"

definition plural :: "nat \<Rightarrow> string \<Rightarrow> string \<Rightarrow> string" where
  "plural n one many = (if n = 1 then one else many)"

definition stranded_count :: "Stranded list \<Rightarrow> string" where
  "stranded_count s = (if BOUNDS_forceCancellations < length s then ''more than '' @ show_nat BOUNDS_forceCancellations else show_nat (length s))"

text \<open>The update and the events of a forced write, over the stranded that are still live.\<close>

definition cancel_stranded :: "session \<Rightarrow> string \<Rightarrow> string list \<Rightarrow> string \<Rightarrow> string list tx" where
  "cancel_stranded cx venue ids reason =
     tbind (tget (\<lambda>d. filter (\<lambda>r. r_id r \<in> set ids \<and> live (cx_now cx) r \<and> visible cx (r_venue r)) (reservations d))) (\<lambda>rows.
     tbind (write_batch cx \<lparr>set_status = Some Cancelled, set_reason = Some reason, set_token = None\<rparr> (\<lambda>_. venue) ''reservation.cancelled'' rows) (\<lambda>upd.
     tret (sort (map r_id upd))))"

definition settleStranded :: "session \<Rightarrow> string \<Rightarrow> Stranded list \<Rightarrow> DastarErrorCode \<Rightarrow> string \<Rightarrow> ForceOption \<Rightarrow> unit AdminOutcome tx" where
  "settleStranded cx venue stranded c what opts = (
     let ids = map st_id stranded; started = map st_id (filter st_started stranded) in
     if stranded = [] then tret (Admin_ok () [])
     else if \<not> fo_force opts then tret (Admin_refused c
       (what @ '' would strand '' @ stranded_count stranded @ '' live reservation'' @ plural (length stranded) [] ''s'' @ ''; cancel them or retry with force'') ids)
     else if started \<noteq> [] then tret (Admin_refused Reservation_in_progress
       (show_nat (length started) @ '' stranded reservation'' @ plural (length started) '' has'' ''s have'' @ '' already started; close ''
         @ plural (length started) ''it'' ''them'' @ '' first'') started)
     else if BOUNDS_forceCancellations < length stranded then tret (Admin_refused Force_too_large
       (''force cancels at most '' @ show_nat BOUNDS_forceCancellations @ '' reservations; '' @ what @ '' would strand '' @ stranded_count stranded) ids)
     else tbind (cancel_stranded cx venue (sort ids) (case fo_cancelReason opts of None \<Rightarrow> ''venue change'' | Some r \<Rightarrow> r)) (\<lambda>cancelled.
       tret (Admin_ok () cancelled)))"

section \<open>Transactions\<close>

definition admin_session :: "AdminContext \<Rightarrow> instant \<Rightarrow> session" where
  "admin_session ctx now = setContext (ax_actor ctx) (ax_traceId ctx) (ax_venueId ctx) now"

text \<open>An outcome that refuses rolls back; so does a throw.\<close>

definition adminWrite :: "instant \<Rightarrow> AdminContext \<Rightarrow> (session \<Rightarrow> 'a AdminOutcome tx) \<Rightarrow> db \<Rightarrow> DastarError + ('a AdminOutcome \<times> db)" where
  "adminWrite now ctx fn d = (case fn (admin_session ctx now) d of
      Inl e \<Rightarrow> Inl (asDastarError e)
    | Inr (out, d') \<Rightarrow> (case out of
        Admin_refused _ _ _ \<Rightarrow> Inr (out, d)
      | Admin_ok _ _ \<Rightarrow> (case commit d' of Inl e \<Rightarrow> Inl (asDastarError e) | Inr (_, d'') \<Rightarrow> Inr (out, d''))))"

definition adminTx :: "instant \<Rightarrow> AdminContext \<Rightarrow> (session \<Rightarrow> 'a tx) \<Rightarrow> db \<Rightarrow> DastarError + ('a \<times> db)" where
  "adminTx now ctx fn = in_transaction (tbind (fn (admin_session ctx now)) (\<lambda>out. tthen commit (tret out)))"

text \<open>A read in one snapshot, bound to the venue.\<close>

definition adminRead :: "string \<Rightarrow> (session \<Rightarrow> db \<Rightarrow> 'a) \<Rightarrow> instant \<Rightarrow> db \<Rightarrow> 'a" where
  "adminRead venueId fn now d = fn (bindVenue venueId now) d"

text \<open>A write whose stranded are settled first: the shape of the four that can strand.\<close>

definition settle_then :: "unit AdminOutcome tx \<Rightarrow> 'a tx \<Rightarrow> 'a AdminOutcome tx" where
  "settle_then settle write = tbind settle (\<lambda>settled. case settled of
       Admin_refused c m ids \<Rightarrow> tret (Admin_refused c m ids)
     | Admin_ok _ cancelled \<Rightarrow> tbind write (\<lambda>v. tret (Admin_ok v cancelled)))"

end
