(* ===== verification/CmdAdminUnits.thy ===== *)
theory CmdAdminUnits
  imports CmdAdmin
begin

text \<open>
  The administration of units and combinations, \<open>packages/db/src/commands/admin-units.ts\<close>. Ids of new rows are
  the database's: a parameter. An input field left out is \<open>None\<close>. A jsonb column is the value it holds.
\<close>

record UnitView =
  uv_id :: string
  uv_label :: string
  uv_capacityMin :: int
  uv_capacityMax :: int
  uv_active :: bool
  uv_layout :: jval

record ComboView =
  cv_id :: string
  cv_label :: string
  cv_unitIds :: "string list"
  cv_capacityMin :: int
  cv_capacityMax :: int
  cv_active :: bool

record CreateUnitInput =
  cu_label :: string
  cu_capacityMin :: int
  cu_capacityMax :: int
  cu_layout :: "jval option"

record UpdateUnitInput =
  uu_unitId :: string
  uu_label :: "string option"
  uu_capacityMin :: "int option"
  uu_capacityMax :: "int option"
  uu_layout :: "jval option"
  uu_active :: "bool option"
  uu_force :: ForceOption

record CreateComboInput =
  cc_label :: string
  cc_unitIds :: "string list"
  cc_capacityMin :: int
  cc_capacityMax :: int

record UpdateComboInput =
  uc_comboId :: string
  uc_label :: "string option"
  uc_active :: "bool option"
  uc_force :: ForceOption

definition unitView :: "UnitRow \<Rightarrow> UnitView" where
  "unitView r = \<lparr>uv_id = u_id r, uv_label = u_label r, uv_capacityMin = u_capacity_min r, uv_capacityMax = u_capacity_max r,
     uv_active = u_active r, uv_layout = u_layout r\<rparr>"

definition comboView :: "ComboRow \<Rightarrow> ComboView" where
  "comboView r = \<lparr>cv_id = c_id r, cv_label = c_label r, cv_unitIds = c_unit_ids r, cv_capacityMin = c_capacity_min r,
     cv_capacityMax = c_capacity_max r, cv_active = c_active r\<rparr>"

section \<open>Lists\<close>

definition listUnits :: "string \<Rightarrow> instant \<Rightarrow> db \<Rightarrow> UnitView list" where
  "listUnits venueId = adminRead venueId (\<lambda>cx d.
     map unitView (sort_key (\<lambda>u. (u_label u, u_id u)) (filter (\<lambda>u. u_venue u = venueId \<and> visible cx (u_venue u)) (units d))))"

definition listCombos :: "string \<Rightarrow> instant \<Rightarrow> db \<Rightarrow> ComboView list" where
  "listCombos venueId = adminRead venueId (\<lambda>cx d.
     map comboView (sort_key (\<lambda>c. (c_label c, c_id c)) (filter (\<lambda>c. c_venue c = venueId \<and> visible cx (c_venue c)) (combos d))))"

section \<open>Units\<close>

definition invalid_input :: "string \<Rightarrow> DastarError" where
  "invalid_input m = dastar_error Invalid_input m"

definition not_json_object :: "string \<Rightarrow> DastarError" where
  "not_json_object name = invalid_input (name @ '' must be a JSON object without NUL characters or unpaired surrogates'')"

text \<open>\<open>jsonText\<close> of an input, before the transaction: the value Postgres stores.\<close>

definition json_input :: "DastarError \<Rightarrow> jval \<Rightarrow> DastarError + jval" where
  "json_input e v = (if jsonText (json_of v) = None then Inl e else Inr v)"

text \<open>An input that may be absent, checked when it is there.\<close>

definition check_opt :: "('a \<Rightarrow> DastarError + 'b) \<Rightarrow> 'a option \<Rightarrow> DastarError + 'b option" where
  "check_opt f x = (case x of None \<Rightarrow> Inr None | Some v \<Rightarrow> rbind (f v) (\<lambda>y. Inr (Some y)))"

text \<open>\<open>x ?? y\<close>.\<close>

definition or_else :: "'a option \<Rightarrow> 'a \<Rightarrow> 'a" where
  "or_else x y = (case x of None \<Rightarrow> y | Some v \<Rightarrow> v)"

definition createUnit :: "string \<Rightarrow> instant \<Rightarrow> AdminContext \<Rightarrow> CreateUnitInput \<Rightarrow> db \<Rightarrow> DastarError + (UnitView \<times> db)" where
  "createUnit newId now ctx i d =
     rbind (check_opt (json_input (not_json_object ''layout'')) (cu_layout i)) (\<lambda>layout.
     adminTx now ctx (\<lambda>cx.
       tbind (insert_unit \<lparr>u_id = newId, u_venue = ax_venueId ctx, u_label = cu_label i, u_capacity_min = cu_capacityMin i,
         u_capacity_max = cu_capacityMax i, u_active = True, u_layout = or_else layout (VObj [])\<rparr>) (\<lambda>r.
       tret (unitView r))) d)"

text \<open>The condition of the query: the sets a change of capacity and a deactivation strand.\<close>

definition unit_strands :: "db \<Rightarrow> string \<Rightarrow> bool \<Rightarrow> bool \<Rightarrow> int \<Rightarrow> int \<Rightarrow> ReservationRow \<Rightarrow> bool" where
  "unit_strands d unitId capacityChanged deactivating cmin cmax r \<longleftrightarrow>
     capacityChanged \<and> r_assignment r = \<lparr>a_kind = Unit, a_id = unitId\<rparr> \<and> (r_party_size r < cmin \<or> cmax < r_party_size r)
     \<or> deactivating \<and> (\<exists>ru\<in>set (unit_rows d). ru_reservation ru = r_id r \<and> ru_unit ru = unitId \<and> ru_active ru)"

definition updated_unit :: "UpdateUnitInput \<Rightarrow> UnitRow \<Rightarrow> UnitRow" where
  "updated_unit i u = u\<lparr>u_label := or_else (uu_label i) (u_label u), u_capacity_min := or_else (uu_capacityMin i) (u_capacity_min u),
     u_capacity_max := or_else (uu_capacityMax i) (u_capacity_max u), u_layout := or_else (uu_layout i) (u_layout u),
     u_active := or_else (uu_active i) (u_active u)\<rparr>"

text \<open>The new capacities are parameters of the read of what they strand, so one outside \<open>int\<close> fails there.\<close>

definition updateUnit_tx :: "AdminContext \<Rightarrow> UpdateUnitInput \<Rightarrow> session \<Rightarrow> UnitView AdminOutcome tx" where
  "updateUnit_tx ctx i cx =
     tbind (tget (\<lambda>d. find_unit d (uu_unitId i) (ax_venueId ctx))) (\<lambda>found. case found of
         None \<Rightarrow> tthrow (not_found ''unit'')
       | Some cur \<Rightarrow> (let new = updated_unit i cur;
           capacityChanged = (u_capacity_min new \<noteq> u_capacity_min cur \<or> u_capacity_max new \<noteq> u_capacity_max cur);
           deactivating = (u_active cur \<and> \<not> u_active new) in
         tthen (tguard (\<not> (u_capacity_min new < 1 \<or> u_capacity_max new < u_capacity_min new))
           (ExDastar (invalid_input ''capacity_min must be at least 1 and capacity_max at least capacity_min'')))
         (tthen (tguard (capacityChanged \<longrightarrow> is_int4 (u_capacity_min new)) (int4_error (u_capacity_min new)))
        (tthen (tguard (capacityChanged \<longrightarrow> is_int4 (u_capacity_max new)) (int4_error (u_capacity_max new)))
         (tbind (tget (\<lambda>d. if \<not> capacityChanged \<and> \<not> deactivating then []
             else read_stranded cx (ax_venueId ctx) (unit_strands d (uu_unitId i) capacityChanged deactivating (u_capacity_min new) (u_capacity_max new)) d)) (\<lambda>stranded.
         settle_then
           (settleStranded cx (ax_venueId ctx) stranded (if deactivating then Assignment_in_use else Capacity_conflict) (''this change to unit '' @ u_label cur) (uu_force i))
           (tbind (update_unit cx (uu_unitId i) (ax_venueId ctx) (updated_unit i)) (\<lambda>upd.
             tret (unitView (the upd))))))))))"

definition updateUnit :: "instant \<Rightarrow> AdminContext \<Rightarrow> UpdateUnitInput \<Rightarrow> db \<Rightarrow> DastarError + (UnitView AdminOutcome \<times> db)" where
  "updateUnit now ctx i d =
     rbind (check_opt (json_input (not_json_object ''layout'')) (uu_layout i)) (\<lambda>_.
     adminWrite now ctx (updateUnit_tx ctx i) d)"

section \<open>Combinations\<close>

text \<open>The pattern \<open>UUID\<close>: lowercase hex, \<open>8-4-4-4-12\<close>.\<close>

definition UUID :: "string \<Rightarrow> bool" where
  "UUID s \<longleftrightarrow> length s = 36 \<and> list_all (\<lambda>(i, c). if i \<in> {8, 13, 18, 23} then c = CHR ''-'' else c \<in> set ''0123456789abcdef'') (zip [0..<36] s)"

definition members_mismatch :: exn where
  "members_mismatch = ExDastar (dastar_error Assignment_mismatch (''a combination has '' @ show_nat BOUNDS_comboUnits_min @ '' to ''
     @ show_nat BOUNDS_comboUnits_max @ '' distinct units of its venue''))"

definition createCombo_tx :: "string \<Rightarrow> AdminContext \<Rightarrow> CreateComboInput \<Rightarrow> session \<Rightarrow> ComboView tx" where
  "createCombo_tx newId ctx i cx = (let ids = map lower (cc_unitIds i) in
     tthen (tguard (BOUNDS_comboUnits_min \<le> length ids \<and> length ids \<le> BOUNDS_comboUnits_max \<and> distinct ids \<and> list_all UUID ids) members_mismatch)
     (tbind (tget (\<lambda>d. length (filter (\<lambda>u. u_venue u = ax_venueId ctx \<and> u_id u \<in> set ids \<and> visible cx (u_venue u)) (units d)))) (\<lambda>n.
     tthen (tguard (n = length ids) members_mismatch)
     (tbind (insert_combo \<lparr>c_id = newId, c_venue = ax_venueId ctx, c_label = cc_label i, c_unit_ids = sortUnitIds ids,
         c_capacity_min = cc_capacityMin i, c_capacity_max = cc_capacityMax i, c_active = True\<rparr>) (\<lambda>r.
     tret (comboView r))))))"

definition createCombo :: "string \<Rightarrow> instant \<Rightarrow> AdminContext \<Rightarrow> CreateComboInput \<Rightarrow> db \<Rightarrow> DastarError + (ComboView \<times> db)" where
  "createCombo newId now ctx i = adminTx now ctx (createCombo_tx newId ctx i)"

definition updated_combo :: "UpdateComboInput \<Rightarrow> ComboRow \<Rightarrow> ComboRow" where
  "updated_combo i c = c\<lparr>c_label := or_else (uc_label i) (c_label c), c_active := or_else (uc_active i) (c_active c)\<rparr>"

definition updateCombo_tx :: "AdminContext \<Rightarrow> UpdateComboInput \<Rightarrow> session \<Rightarrow> ComboView AdminOutcome tx" where
  "updateCombo_tx ctx i cx =
     tbind (tget (\<lambda>d. find_combo d (uc_comboId i) (ax_venueId ctx))) (\<lambda>found. case found of
         None \<Rightarrow> tthrow (not_found ''combination'')
       | Some cur \<Rightarrow> (let deactivating = (c_active cur \<and> \<not> c_active (updated_combo i cur)) in
         tbind (tget (\<lambda>d. if \<not> deactivating then []
             else read_stranded cx (ax_venueId ctx) (\<lambda>r. r_assignment r = \<lparr>a_kind = Combo, a_id = uc_comboId i\<rparr>) d)) (\<lambda>stranded.
         settle_then
           (settleStranded cx (ax_venueId ctx) stranded Assignment_in_use (''this change to combination '' @ c_label cur) (uc_force i))
           (tbind (update_combo_row cx (uc_comboId i) (ax_venueId ctx) (updated_combo i)) (\<lambda>upd.
             tret (comboView (the upd)))))))"

definition updateCombo :: "instant \<Rightarrow> AdminContext \<Rightarrow> UpdateComboInput \<Rightarrow> db \<Rightarrow> DastarError + (ComboView AdminOutcome \<times> db)" where
  "updateCombo now ctx i = adminWrite now ctx (updateCombo_tx ctx i)"

end
