(* ===== verification/CmdAdminCalendar.thy ===== *)
theory CmdAdminCalendar
  imports CmdAdminUnits CmdReads
begin

text \<open>
  The administration of service periods and blackouts, \<open>packages/db/src/commands/admin-calendar.ts\<close>. The fields
  the checks judge are values of any type (\<open>unknown\<close> in the source); one left out is \<open>None\<close>. A time of day is
  stored as minutes, an instant as milliseconds, where the driver passes their texts.
\<close>

record ScheduleView =
  sv_id :: string
  sv_dayOfWeek :: int
  sv_opens :: string
  sv_closes :: string
  sv_closesNextDay :: bool
  sv_durationBySize :: "(string \<times> int) list"
  sv_gapMinutes :: int
  sv_active :: bool

record BlackoutView =
  bv_id :: string
  bv_startsAt :: string
  bv_endsAt :: string
  bv_reason :: string
  bv_active :: bool

text \<open>The fields of a period; \<open>CreateScheduleInput\<close> has the first four, \<open>UpdateScheduleInput\<close> any of them.\<close>

record ScheduleInput =
  is_dayOfWeek :: "jval option"
  is_opens :: "jval option"
  is_closes :: "jval option"
  is_durationBySize :: "jval option"
  is_gapMinutes :: "jval option"
  is_active :: "jval option"

record CreateBlackoutInput =
  ib_startsAt :: "jval option"
  ib_endsAt :: "jval option"
  ib_reason :: "jval option"
  ib_active :: "jval option"
  ib_force :: ForceOption

record UpdateBlackoutInput =
  ub_blackoutId :: string
  ub_reason :: "jval option"
  ub_active :: "jval option"
  ub_force :: ForceOption

section \<open>Times of day and instants\<close>

definition two_digits :: "char \<Rightarrow> char \<Rightarrow> int" where
  "two_digits a b = 10 * digit_val a + digit_val b"

text \<open>The pattern \<open>TIME\<close>, and the minutes of a text that matches it.\<close>

definition TIME :: "string \<Rightarrow> bool" where
  "TIME s \<longleftrightarrow> (case s of
      [a, b, c, d, e] \<Rightarrow> (a \<in> set ''01'' \<and> is_digit b \<or> a = CHR ''2'' \<and> b \<in> set ''0123'') \<and> c = CHR '':'' \<and> d \<in> set ''012345'' \<and> is_digit e
    | _ \<Rightarrow> False)"

definition minutes_of :: "string \<Rightarrow> int" where
  "minutes_of s = (case s of [a, b, c, d, e] \<Rightarrow> 60 * two_digits a b + two_digits d e | _ \<Rightarrow> 0)"

text \<open>\<open>to_char(t, 'HH24:MI')\<close>.\<close>

definition time_text :: "int \<Rightarrow> string" where
  "time_text m = pad 2 (m div 60) @ '':'' @ pad 2 (m mod 60)"

text \<open>
  The pattern \<open>INSTANT\<close>: a date and time with an offset, the seconds and up to nine digits of a fraction optional. The result is its
  three groups: year, month and day.
\<close>

definition hour_text :: "string \<Rightarrow> bool" where
  "hour_text s \<longleftrightarrow> (case s of [a, b] \<Rightarrow> a \<in> set ''01'' \<and> is_digit b \<or> a = CHR ''2'' \<and> b \<in> set ''0123'' | _ \<Rightarrow> False)"

definition sixty_text :: "string \<Rightarrow> bool" where
  "sixty_text s \<longleftrightarrow> (case s of [a, b] \<Rightarrow> a \<in> set ''012345'' \<and> is_digit b | _ \<Rightarrow> False)"

definition offset_text :: "string \<Rightarrow> bool" where
  "offset_text s \<longleftrightarrow> s = ''Z'' \<or> (case s of c # r \<Rightarrow> c \<in> set ''+-'' \<and> TIME r | [] \<Rightarrow> False)"

definition fraction_text :: "string \<Rightarrow> bool" where
  "fraction_text s \<longleftrightarrow> offset_text s \<or> (case s of
      c # r \<Rightarrow> c = CHR ''.'' \<and> takeWhile is_digit r \<noteq> [] \<and> length (takeWhile is_digit r) \<le> 9 \<and> offset_text (dropWhile is_digit r)
    | [] \<Rightarrow> False)"

definition seconds_text :: "string \<Rightarrow> bool" where
  "seconds_text s \<longleftrightarrow> offset_text s \<or> (case s of c # r \<Rightarrow> c = CHR '':'' \<and> sixty_text (take 2 r) \<and> fraction_text (drop 2 r) | [] \<Rightarrow> False)"

definition INSTANT :: "string \<Rightarrow> (int \<times> int \<times> int) option" where
  "INSTANT s = (let y = take 4 s; m = take 2 (drop 5 s); d = take 2 (drop 8 s) in
     if length s \<ge> 16 \<and> list_all is_digit y \<and> s ! 4 = CHR ''-'' \<and> list_all is_digit m \<and> 1 \<le> digits_val m \<and> digits_val m \<le> 12
        \<and> s ! 7 = CHR ''-'' \<and> list_all is_digit d \<and> 1 \<le> digits_val d \<and> digits_val d \<le> 31 \<and> s ! 10 = CHR ''T''
        \<and> hour_text (take 2 (drop 11 s)) \<and> s ! 13 = CHR '':'' \<and> sixty_text (take 2 (drop 14 s)) \<and> seconds_text (drop 16 s)
     then Some (digits_val y, digits_val m, digits_val d) else None)"

text \<open>\<open>new Date(Date.UTC(y, m - 1, d))\<close>: a year of at most two digits is one of the twentieth century.\<close>

definition date_utc :: "int \<Rightarrow> int \<Rightarrow> int \<Rightarrow> int \<times> int \<times> int" where
  "date_utc y m d = civil_from_days (days_from_civil (if 0 \<le> y \<and> y \<le> 99 then 1900 + y else y) m 1 + (d - 1))"

definition utc_year :: "instant \<Rightarrow> int" where
  "utc_year t = fst (civil_from_days (t div DAY_MS))"

section \<open>Checks\<close>

definition checkDay :: "jval option \<Rightarrow> DastarError + int" where
  "checkDay v = (case v of
      Some (VNum n) \<Rightarrow> (case js_integer n of
          Some i \<Rightarrow> if i < 1 \<or> 7 < i then Inl (invalid_input ''day_of_week must be a whole number from 1 (Monday) to 7 (Sunday)'') else Inr i
        | None \<Rightarrow> Inl (invalid_input ''day_of_week must be a whole number from 1 (Monday) to 7 (Sunday)''))
    | _ \<Rightarrow> Inl (invalid_input ''day_of_week must be a whole number from 1 (Monday) to 7 (Sunday)''))"

definition checkTime :: "string \<Rightarrow> jval option \<Rightarrow> DastarError + int" where
  "checkTime name v = (case v of
      Some (VStr s) \<Rightarrow> if TIME s then Inr (minutes_of s) else Inl (invalid_input (name @ '' must be a time of day as HH:MM''))
    | _ \<Rightarrow> Inl (invalid_input (name @ '' must be a time of day as HH:MM'')))"

definition checkGap :: "jval option \<Rightarrow> DastarError + int" where
  "checkGap v = (case v of
      Some (VNum n) \<Rightarrow> (case js_integer n of
          Some i \<Rightarrow> if i < 0 \<or> 720 < i then Inl (invalid_input ''gap_minutes must be a whole number from 0 to 720'') else Inr i
        | None \<Rightarrow> Inl (invalid_input ''gap_minutes must be a whole number from 0 to 720''))
    | _ \<Rightarrow> Inl (invalid_input ''gap_minutes must be a whole number from 0 to 720''))"

definition checkActive :: "jval option \<Rightarrow> DastarError + bool" where
  "checkActive v = (case v of Some (VBool b) \<Rightarrow> Inr b | _ \<Rightarrow> Inl (invalid_input ''active must be true or false''))"

text \<open>
  The durations: an object whose text jsonb takes. Keys and values are the CHECK's to judge; a value that is no whole
  number stands as 0, which the CHECK refuses as it refuses that value.
\<close>

definition durations_of :: "jval \<Rightarrow> (string \<times> int) list" where
  "durations_of v = map (\<lambda>f. (fst f, as_int (Some (snd f)))) (as_fields (Some v))"

definition durationsJson :: "jval option \<Rightarrow> DastarError + (string \<times> int) list" where
  "durationsJson v = (case v of
      Some (VObj fs) \<Rightarrow> rbind (json_input (invalid_input ''duration_by_size must be plain JSON without NUL characters'') (VObj fs)) (\<lambda>o'. Inr (durations_of o'))
    | _ \<Rightarrow> Inl (invalid_input ''duration_by_size must be an object of party sizes to minutes''))"

definition checkReason :: "jval option \<Rightarrow> DastarError + string" where
  "checkReason v = (case v of
      Some (VStr s) \<Rightarrow> if CHR 0x00 \<in> set s then Inl (invalid_input ''reason must be text without NUL characters'') else Inr s
    | _ \<Rightarrow> Inl (invalid_input ''reason must be text without NUL characters''))"

definition instant_of :: "string \<Rightarrow> jval option \<Rightarrow> DastarError + instant" where
  "instant_of name v = (let refuse = Inl (invalid_input (name @ '' must be an ISO 8601 date and time with an offset'')) in
     case v of
       Some (VStr s) \<Rightarrow> (case (INSTANT s, js_date s) of
           (Some (y, m, d), Some t) \<Rightarrow> if snd (snd (date_utc y m d)) \<noteq> d \<or> utc_year t < 1 \<or> 9999 < utc_year t then refuse else Inr t
         | _ \<Rightarrow> refuse)
     | _ \<Rightarrow> refuse)"

definition checkRange :: "jval option \<Rightarrow> jval option \<Rightarrow> DastarError + range" where
  "checkRange startsAt endsAt =
     rbind (instant_of ''starts_at'' startsAt) (\<lambda>s.
     rbind (instant_of ''ends_at'' endsAt) (\<lambda>e.
     if e \<le> s then Inl (invalid_input ''starts_at must be before ends_at'') else Inr (s, e)))"

text \<open>A field that may be left out: \<open>v === undefined ? null : check(v)\<close>.\<close>

definition optional_check :: "(jval option \<Rightarrow> DastarError + 'a) \<Rightarrow> jval option \<Rightarrow> DastarError + 'a option" where
  "optional_check f v = (case v of None \<Rightarrow> Inr None | Some _ \<Rightarrow> rbind (f v) (\<lambda>x. Inr (Some x)))"

section \<open>Service periods\<close>

definition scheduleView :: "ScheduleRow \<Rightarrow> ScheduleView" where
  "scheduleView r = \<lparr>sv_id = s_id r, sv_dayOfWeek = s_day_of_week r, sv_opens = time_text (s_opens r), sv_closes = time_text (s_closes r),
     sv_closesNextDay = s_closes_next_day r, sv_durationBySize = s_duration_by_size r, sv_gapMinutes = s_gap_minutes r, sv_active = s_active r\<rparr>"

definition listSchedules :: "string \<Rightarrow> instant \<Rightarrow> db \<Rightarrow> ScheduleView list" where
  "listSchedules venueId = adminRead venueId (\<lambda>cx d. map scheduleView
     (sort_key (\<lambda>s. (s_day_of_week s, s_opens s, s_id s)) (filter (\<lambda>s. s_venue s = venueId \<and> visible cx (s_venue s)) (schedules d))))"

definition createSchedule :: "string \<Rightarrow> instant \<Rightarrow> AdminContext \<Rightarrow> ScheduleInput \<Rightarrow> db \<Rightarrow> DastarError + (ScheduleView \<times> db)" where
  "createSchedule newId now ctx i d =
     rbind (checkDay (is_dayOfWeek i)) (\<lambda>day.
     rbind (checkTime ''opens'' (is_opens i)) (\<lambda>opens.
     rbind (checkTime ''closes'' (is_closes i)) (\<lambda>closes.
     rbind (durationsJson (is_durationBySize i)) (\<lambda>durations.
     rbind (optional_check checkGap (is_gapMinutes i)) (\<lambda>gap.
     rbind (optional_check checkActive (is_active i)) (\<lambda>active.
     adminTx now ctx (\<lambda>cx.
       tbind (insert_schedule \<lparr>s_id = newId, s_venue = ax_venueId ctx, s_day_of_week = day, s_opens = opens, s_closes = closes,
         s_closes_next_day = (closes \<le> opens), s_duration_by_size = durations, s_gap_minutes = or_else gap 0, s_active = or_else active True\<rparr>) (\<lambda>r.
       tret (scheduleView r))) d))))))"

text \<open>The \<open>set\<close> of the update: \<open>closes_next_day\<close> from the final times.\<close>

definition updated_schedule :: "int option \<Rightarrow> int option \<Rightarrow> int option \<Rightarrow> (string \<times> int) list option \<Rightarrow> int option \<Rightarrow> bool option \<Rightarrow> ScheduleRow \<Rightarrow> ScheduleRow" where
  "updated_schedule day opens closes durations gap active s =
     s\<lparr>s_day_of_week := or_else day (s_day_of_week s), s_opens := or_else opens (s_opens s), s_closes := or_else closes (s_closes s),
       s_closes_next_day := (or_else closes (s_closes s) \<le> or_else opens (s_opens s)),
       s_duration_by_size := or_else durations (s_duration_by_size s), s_gap_minutes := or_else gap (s_gap_minutes s),
       s_active := or_else active (s_active s)\<rparr>"

definition updateSchedule :: "instant \<Rightarrow> AdminContext \<Rightarrow> string \<Rightarrow> ScheduleInput \<Rightarrow> db \<Rightarrow> DastarError + (ScheduleView \<times> db)" where
  "updateSchedule now ctx scheduleId i d =
     rbind (optional_check checkDay (is_dayOfWeek i)) (\<lambda>day.
     rbind (optional_check (checkTime ''opens'') (is_opens i)) (\<lambda>opens.
     rbind (optional_check (checkTime ''closes'') (is_closes i)) (\<lambda>closes.
     rbind (optional_check durationsJson (is_durationBySize i)) (\<lambda>durations.
     rbind (optional_check checkGap (is_gapMinutes i)) (\<lambda>gap.
     rbind (optional_check checkActive (is_active i)) (\<lambda>active.
     adminTx now ctx (\<lambda>cx.
       tbind (update_schedule scheduleId (ax_venueId ctx) (updated_schedule day opens closes durations gap active)) (\<lambda>upd. case upd of
           None \<Rightarrow> tthrow (not_found ''schedule'')
         | Some r \<Rightarrow> tret (scheduleView r))) d))))))"

section \<open>Blackouts\<close>

definition blackoutView :: "BlackoutRow \<Rightarrow> BlackoutView" where
  "blackoutView r = \<lparr>bv_id = b_id r, bv_startsAt = toISOString (fst (b_during r)), bv_endsAt = toISOString (snd (b_during r)),
     bv_reason = b_reason r, bv_active = b_active r\<rparr>"

definition listBlackouts :: "string \<Rightarrow> jval option \<Rightarrow> jval option \<Rightarrow> instant \<Rightarrow> db \<Rightarrow> DastarError + BlackoutView list" where
  "listBlackouts venueId from to now d =
     rbind (instant_of ''from'' from) (\<lambda>f.
     rbind (instant_of ''to'' to) (\<lambda>t.
     if t \<le> f then Inl (invalid_input ''from must be before to'')
     else if BOUNDS_blackoutListing_windowDays * DAY_MS < t - f then Inl (invalid_input (''the window is at most '' @ show_int BOUNDS_blackoutListing_windowDays @ '' days''))
     else Inr (adminRead venueId (\<lambda>cx d. map blackoutView (take BOUNDS_blackoutListing_rows
       (sort_key (\<lambda>b. (fst (b_during b), b_id b))
         (filter (\<lambda>b. b_venue b = venueId \<and> overlaps (b_during b) (f, t) \<and> visible cx (b_venue b)) (blackouts d))))) now d)))"

text \<open>The reservations with a unit row of the bound venue's occupancy over a range.\<close>

definition occupies :: "session \<Rightarrow> db \<Rightarrow> range \<Rightarrow> ReservationRow \<Rightarrow> bool" where
  "occupies cx d during r \<longleftrightarrow> (\<exists>ru\<in>set (occupancy cx d). ru_reservation ru = r_id r \<and> overlaps (ru_during ru) during)"

definition createBlackout_tx :: "string \<Rightarrow> AdminContext \<Rightarrow> range \<Rightarrow> string \<Rightarrow> bool \<Rightarrow> ForceOption \<Rightarrow> session \<Rightarrow> BlackoutView AdminOutcome tx" where
  "createBlackout_tx newId ctx during reason active force cx =
     tbind (tget (\<lambda>d. if \<not> active then [] else read_stranded cx (ax_venueId ctx) (occupies cx d during) d)) (\<lambda>stranded.
     settle_then (settleStranded cx (ax_venueId ctx) stranded Blackout_conflict ''this blackout'' force)
       (tbind (insert_blackout cx \<lparr>b_id = newId, b_venue = ax_venueId ctx, b_during = during, b_reason = reason, b_active = active\<rparr>) (\<lambda>r.
         tret (blackoutView r))))"

definition createBlackout :: "string \<Rightarrow> instant \<Rightarrow> AdminContext \<Rightarrow> CreateBlackoutInput \<Rightarrow> db \<Rightarrow> DastarError + (BlackoutView AdminOutcome \<times> db)" where
  "createBlackout newId now ctx i d =
     rbind (checkRange (ib_startsAt i) (ib_endsAt i)) (\<lambda>during.
     rbind (checkReason (ib_reason i)) (\<lambda>reason.
     rbind (optional_check checkActive (ib_active i)) (\<lambda>active.
     adminWrite now ctx (createBlackout_tx newId ctx during reason (or_else active True) (ib_force i)) d)))"

definition updated_blackout :: "string option \<Rightarrow> bool option \<Rightarrow> BlackoutRow \<Rightarrow> BlackoutRow" where
  "updated_blackout reason active b = b\<lparr>b_reason := or_else reason (b_reason b), b_active := or_else active (b_active b)\<rparr>"

definition updateBlackout_tx :: "AdminContext \<Rightarrow> string \<Rightarrow> string option \<Rightarrow> bool option \<Rightarrow> ForceOption \<Rightarrow> session \<Rightarrow> BlackoutView AdminOutcome tx" where
  "updateBlackout_tx ctx blackoutId reason active force cx =
     tbind (tget (\<lambda>d. find_blackout d blackoutId (ax_venueId ctx))) (\<lambda>found. case found of
         None \<Rightarrow> tthrow (not_found ''blackout'')
       | Some cur \<Rightarrow> (let activating = (\<not> b_active cur \<and> b_active (updated_blackout reason active cur)) in
         tbind (tget (\<lambda>d. if \<not> activating then [] else read_stranded cx (ax_venueId ctx) (occupies cx d (b_during cur)) d)) (\<lambda>stranded.
         settle_then (settleStranded cx (ax_venueId ctx) stranded Blackout_conflict ''this blackout'' force)
           (tbind (update_blackout cx blackoutId (ax_venueId ctx) (updated_blackout reason active)) (\<lambda>upd.
             tret (blackoutView (the upd)))))))"

definition updateBlackout :: "instant \<Rightarrow> AdminContext \<Rightarrow> UpdateBlackoutInput \<Rightarrow> db \<Rightarrow> DastarError + (BlackoutView AdminOutcome \<times> db)" where
  "updateBlackout now ctx i d =
     rbind (optional_check checkReason (ub_reason i)) (\<lambda>reason.
     rbind (optional_check checkActive (ub_active i)) (\<lambda>active.
     adminWrite now ctx (updateBlackout_tx ctx (ub_blackoutId i) reason active (ub_force i)) d))"

end
