(* ===== verification/AdminStranding.thy ===== *)
theory AdminStranding
  imports CmdAdmin
begin

text \<open>
  The contract between \<open>settleStranded\<close> and the four writes that can strand reservations (a change of a unit,
  of a combination, a new blackout and the activation of one): the query of a write covers what its triggers refuse,
  so a write after the settlement succeeds. What a settled write does is proved once, from the contract.
\<close>

section \<open>The set of stranded reservations\<close>

lemma set_stranded_by:
  "set (stranded_by cx venue p d) = {r \<in> set (reservations d). r_venue r = venue \<and> live (cx_now cx) r \<and> p r \<and> visible cx (r_venue r)}"
  by (auto simp: stranded_by_def)

lemma read_stranded_ids: "map st_id (read_stranded cx venue p d) = map r_id (take (Suc BOUNDS_forceCancellations) (stranded_by cx venue p d))"
  by (simp add: read_stranded_def stranded_row_def comp_def)

lemma read_stranded_started:
  "map st_id (filter st_started (read_stranded cx venue p d))
    = map r_id (filter (\<lambda>r. r_status r = Seated \<or> fst (r_during r) \<le> cx_now cx) (take (Suc BOUNDS_forceCancellations) (stranded_by cx venue p d)))"
  by (simp add: read_stranded_def filter_map comp_def stranded_row_def)

lemma read_stranded_Nil: "read_stranded cx venue p d = [] \<longleftrightarrow> stranded_by cx venue p d = []"
  by (simp add: read_stranded_def)

lemma live_status: "live now r \<Longrightarrow> r_status r \<in> {Held, Confirmed, Seated}"
  by (auto simp: live_def effective_status_def split: if_splits)

text \<open>The reservations a force cancels: the stranded, in the order of the table.\<close>

lemma stranded_rows:
  assumes I: "inv T {} d" and few: "length (stranded_by cx venue p d) \<le> BOUNDS_forceCancellations"
  defines "rows \<equiv> filter (\<lambda>r. r_id r \<in> set (sort (map st_id (read_stranded cx venue p d))) \<and> live (cx_now cx) r \<and> visible cx (r_venue r)) (reservations d)"
  shows "set rows = set (stranded_by cx venue p d)" "sort (map r_id rows) = sort (map r_id (stranded_by cx venue p d))"
proof -
  let ?S = "stranded_by cx venue p d"
  have t: "take (Suc BOUNDS_forceCancellations) ?S = ?S" using few by simp
  have u: "x = y" if "x \<in> set (reservations d)" "y \<in> set (reservations d)" "r_id x = r_id y" for x y
    using I distinct_key_eq [of r_id "reservations d" x y] that by (simp add: inv_def ids_ok_def)
  have eq: "rows = filter (\<lambda>r. r_venue r = venue \<and> live (cx_now cx) r \<and> p r \<and> visible cx (r_venue r)) (reservations d)"
    unfolding rows_def read_stranded_ids t
    by (rule filter_cong) (use u in \<open>auto simp: set_stranded_by image_iff\<close>)
  then show "set rows = set ?S" by (auto simp: set_stranded_by)
  have "mset (map r_id rows) = mset (map r_id ?S)" by (simp add: eq stranded_by_def)
  then show "sort (map r_id rows) = sort (map r_id ?S)" by (metis sorted_list_of_multiset_mset)
qed

lemma replace_rows_set: "set rows = set rows' \<Longrightarrow> replace_rows g rows rs = replace_rows g rows' rs"
  by (simp add: replace_rows_def)

lemma cancel_batch:
  assumes I: "inv T {} d" and a: "cx_actor cx \<noteq> []" "reason \<noteq> []"
    and rows: "distinct (map r_id rows)" "\<And>r. r \<in> set rows \<Longrightarrow> r \<in> set (reservations d) \<and> live (cx_now cx) r \<and> visible cx (r_venue r)"
  shows "batch_ok cx \<lparr>set_status = Some Cancelled, set_reason = Some reason, set_token = None\<rparr> (cancelled_row reason) d rows"
  using assms judge_cancel [OF _ _ live_status a(1), of _ _ _ reason] by (auto simp: batch_ok_def cancelled_row_def)

lemma replaced_live:
  assumes "r \<in> set (replace_rows (cancelled_row reason) rows (reservations d))" and "live now r"
  shows "r \<in> set (reservations d) \<and> r_id r \<notin> r_id ` set rows"
proof -
  from assms(1) obtain x where x: "x \<in> set (reservations d)" "r = (if r_id x \<in> r_id ` set rows then cancelled_row reason x else x)"
    by (auto simp: replace_rows_def)
  have "\<not> live now (cancelled_row reason x)" by (simp add: live_def effective_status_def cancelled_row_def)
  with x assms(2) show ?thesis by (auto split: if_splits)
qed

section \<open>What a settled write answers\<close>

text \<open>
  \<open>settles c opts now S d v Q res\<close>: with the stranded reservations \<open>S\<close>, earliest start first, the write answers
  \<open>res\<close>. With none stranded it writes and touches no reservation. Without force it refuses with \<open>c\<close> and the
  ids; with force it refuses when one has started, or when there are too many; a refusal leaves the database. Otherwise exactly
  the stranded are cancelled, with the reason, an event each, and the write is made. \<open>Q\<close> is what it leaves behind.
\<close>

definition started_of :: "instant \<Rightarrow> ReservationRow list \<Rightarrow> ReservationRow list" where
  "started_of now S = filter (\<lambda>r. r_status r = Seated \<or> fst (r_during r) \<le> now) (take (Suc BOUNDS_forceCancellations) S)"

definition force_reason :: "ForceOption \<Rightarrow> string" where
  "force_reason opts = (case fo_cancelReason opts of None \<Rightarrow> ''venue change'' | Some r \<Rightarrow> r)"

definition settles :: "DastarErrorCode \<Rightarrow> ForceOption \<Rightarrow> instant \<Rightarrow> ReservationRow list \<Rightarrow> db \<Rightarrow> 'a \<Rightarrow> (db \<Rightarrow> bool)
    \<Rightarrow> DastarError + ('a AdminOutcome \<times> db) \<Rightarrow> bool" where
  "settles c opts now S d v Q res \<longleftrightarrow> (
     if S = [] then \<exists>d'. res = Inr (Admin_ok v [], d') \<and> inv now {} d' \<and> deferred d' = [] \<and> reservations d' = reservations d
         \<and> unit_rows d' = unit_rows d \<and> outbox d' = outbox d \<and> Q d'
     else if \<not> fo_force opts then \<exists>m. res = Inr (Admin_refused c m (map r_id (take (Suc BOUNDS_forceCancellations) S)), d)
     else if started_of now S \<noteq> [] then \<exists>m. res = Inr (Admin_refused Reservation_in_progress m (map r_id (started_of now S)), d)
     else if BOUNDS_forceCancellations < length S then \<exists>m. res = Inr (Admin_refused Force_too_large m (map r_id (take (Suc BOUNDS_forceCancellations) S)), d)
     else \<exists>d'. res = Inr (Admin_ok v (sort (map r_id S)), d') \<and> inv now {} d' \<and> deferred d' = []
         \<and> reservations d' = map (\<lambda>r. if r_id r \<in> r_id ` set S then cancelled_row (force_reason opts) r else r) (reservations d)
         \<and> (\<forall>k. k \<notin> r_id ` set S \<longrightarrow> rows_of d' k = rows_of d k) \<and> length (outbox d') = length (outbox d) + length S \<and> Q d')"

section \<open>The contract\<close>

text \<open>
  \<open>strands\<close> is the condition of the query, \<open>ready\<close> what the command has found before the write (its row, and a
  change the constraints take). The clock is the latest one the database has seen, so a reservation live by it is live
  by every earlier one.
\<close>

locale strandable =
  fixes venue :: string and strands :: "session \<Rightarrow> db \<Rightarrow> ReservationRow \<Rightarrow> bool" and ready :: "session \<Rightarrow> db \<Rightarrow> bool" and put :: "session \<Rightarrow> 'a tx"
  assumes strands_rows: "rows_of d' (r_id r) = rows_of d (r_id r) \<Longrightarrow> strands cx d' r = strands cx d r"
    and ready_kept: "units d' = units d \<Longrightarrow> combos d' = combos d \<Longrightarrow> blackouts d' = blackouts d \<Longrightarrow> venues d' = venues d \<Longrightarrow> ready cx d \<Longrightarrow> ready cx d'"
    and write_ok: "inv (cx_now cx) {} d \<Longrightarrow> ready cx d \<Longrightarrow>
      \<forall>r\<in>set (reservations d). r_venue r = venue \<longrightarrow> live (cx_now cx) r \<longrightarrow> \<not> strands cx d r \<Longrightarrow> \<exists>v d'. put cx d = Inr (v, d')"
    and write_refused: "inv (cx_now cx) {} d \<Longrightarrow> ready cx d \<Longrightarrow> r \<in> set (reservations d) \<Longrightarrow> r_venue r = venue \<Longrightarrow> live (cx_now cx) r \<Longrightarrow> strands cx d r \<Longrightarrow>
      \<exists>e. put cx d = Inl e"
    and write_inv: "inv (cx_now cx) {} d \<Longrightarrow> ready cx d \<Longrightarrow> put cx d = Inr (v, d') \<Longrightarrow> inv (cx_now cx) {} d'"
    and write_frame: "put cx d = Inr (v, d') \<Longrightarrow> reservations d' = reservations d \<and> unit_rows d' = unit_rows d
      \<and> deferred d' = deferred d \<and> outbox d' = outbox d \<and> idempotency d' = idempotency d \<and> audit_log d' = audit_log d"
begin

text \<open>The read, the settlement and the write of a command.\<close>

definition settled :: "DastarErrorCode \<Rightarrow> string \<Rightarrow> ForceOption \<Rightarrow> session \<Rightarrow> 'a AdminOutcome tx" where
  "settled c what opts cx = tbind (tget (\<lambda>d. read_stranded cx venue (strands cx d) d)) (\<lambda>s.
     settle_then (settleStranded cx venue s c what opts) (put cx))"

abbreviation stranded :: "session \<Rightarrow> db \<Rightarrow> ReservationRow list" where
  "stranded cx d \<equiv> stranded_by cx venue (strands cx d) d"

lemma settled_free:
  assumes "stranded cx d = []"
  shows "settled c what opts cx d = (case put cx d of Inl e \<Rightarrow> Inl e | Inr (v, d') \<Rightarrow> Inr (Admin_ok v [], d'))"
  by (auto simp: settled_def tbind_def tx_eqs settle_then_def settleStranded_def Let_def assms read_stranded_Nil split: sum.split)

lemma settled_refused:
  assumes "stranded cx d \<noteq> []" and "\<not> fo_force opts"
  shows "\<exists>m. settled c what opts cx d = Inr (Admin_refused c m (map r_id (take (Suc BOUNDS_forceCancellations) (stranded cx d))), d)"
  using assms by (simp add: settled_def tbind_def tx_eqs settle_then_def settleStranded_def Let_def read_stranded_Nil read_stranded_ids)

definition started :: "session \<Rightarrow> db \<Rightarrow> ReservationRow list" where
  "started cx d = filter (\<lambda>r. r_status r = Seated \<or> fst (r_during r) \<le> cx_now cx) (take (Suc BOUNDS_forceCancellations) (stranded cx d))"

lemma settled_started:
  assumes "fo_force opts" and "started cx d \<noteq> []"
  shows "\<exists>m. settled c what opts cx d = Inr (Admin_refused Reservation_in_progress m (map r_id (started cx d)), d)"
proof -
  have "stranded cx d \<noteq> []" using assms(2) by (auto simp: started_def)
  moreover have "map st_id (filter st_started (read_stranded cx venue (strands cx d) d)) = map r_id (started cx d)"
    by (simp only: read_stranded_started started_def)
  moreover from this assms(2) have "filter st_started (read_stranded cx venue (strands cx d) d) \<noteq> []" by (metis list.map_disc_iff)
  ultimately show ?thesis using assms
    by (simp add: settled_def tbind_def tx_eqs settle_then_def settleStranded_def Let_def read_stranded_Nil)
qed

lemma settled_too_many:
  assumes "fo_force opts" and "started cx d = []" and "BOUNDS_forceCancellations < length (stranded cx d)"
  shows "\<exists>m. settled c what opts cx d = Inr (Admin_refused Force_too_large m (map r_id (take (Suc BOUNDS_forceCancellations) (stranded cx d))), d)"
proof -
  have "stranded cx d \<noteq> []" using assms(3) by auto
  moreover have s: "filter st_started (read_stranded cx venue (strands cx d) d) = []"
    using assms(2) read_stranded_started [of cx venue "strands cx d" d] by (simp add: started_def)
  moreover have "BOUNDS_forceCancellations < length (read_stranded cx venue (strands cx d) d)" using assms(3) by (simp add: read_stranded_def)
  ultimately show ?thesis using assms(1)
    by (simp add: settled_def tbind_def tx_eqs settle_then_def settleStranded_def Let_def read_stranded_Nil s read_stranded_ids)
qed

lemma settled_forced:
  assumes I: "inv (cx_now cx) {} d" and rd: "ready cx d" and q: "deferred d = []" and actor: "cx_actor cx \<noteq> []"
    and f: "fo_force opts" "started cx d = []" "stranded cx d \<noteq> []" "length (stranded cx d) \<le> BOUNDS_forceCancellations"
    and reason: "reason = (case fo_cancelReason opts of None \<Rightarrow> ''venue change'' | Some r \<Rightarrow> r)" "reason \<noteq> []"
  shows "\<exists>v d1 d2. settled c what opts cx d = Inr (Admin_ok v (sort (map r_id (stranded cx d))), d2)
    \<and> put cx d1 = Inr (v, d2) \<and> inv (cx_now cx) {} d2 \<and> commit d2 = Inr ((), d2\<lparr>deferred := []\<rparr>)
    \<and> reservations d2 = replace_rows (cancelled_row reason) (stranded cx d) (reservations d)
    \<and> length (outbox d2) = length (outbox d) + length (stranded cx d)
    \<and> (\<forall>k. k \<notin> r_id ` set (stranded cx d) \<longrightarrow> rows_of d2 k = rows_of d k)
    \<and> venues d1 = venues d \<and> units d1 = units d \<and> combos d1 = combos d \<and> blackouts d1 = blackouts d \<and> schedules d1 = schedules d"
proof -
  let ?S = "stranded cx d" and ?g = "cancelled_row reason" and ?p = "\<lparr>set_status = Some Cancelled, set_reason = Some reason, set_token = None\<rparr>"
  define s where "s = read_stranded cx venue (strands cx d) d"
  define rows where "rows = filter (\<lambda>r. r_id r \<in> set (sort (map st_id s)) \<and> live (cx_now cx) r \<and> visible cx (r_venue r)) (reservations d)"
  note sr = stranded_rows [OF I f(4), folded s_def, folded rows_def]
  have dr: "distinct (map r_id rows)" using I unfolding rows_def by (intro distinct_map_filter) (simp add: inv_def ids_ok_def)
  have b: "batch_ok cx ?p ?g d rows" by (rule cancel_batch [OF I actor reason(2) dr]) (auto simp: rows_def)
  from write_batch_eq [OF I order_refl b, of "\<lambda>_. venue" "''reservation.cancelled''"] obtain d1 where
    w: "write_batch cx ?p (\<lambda>_. venue) ''reservation.cancelled'' rows d = Inr (map ?g rows, d1)" "inv (cx_now cx) {} d1"
      "reservations d1 = replace_rows ?g rows (reservations d)" "set (deferred d1) \<subseteq> set (deferred d) \<union> r_id ` set rows"
      "map o_payload (outbox d1) = map o_payload (outbox d) @ map (\<lambda>r. reservationPayload (?g r)) rows"
      "venues d1 = venues d" "units d1 = units d" "combos d1 = combos d" "blackouts d1 = blackouts d" "schedules d1 = schedules d"
      "\<forall>k. k \<notin> r_id ` set rows \<longrightarrow> rows_of d1 k = rows_of d k" by blast
  have ids: "sort (map r_id (map ?g rows)) = sort (map r_id ?S)" using sr(2) by (simp add: comp_def cancelled_row_def)
  have cs: "cancel_stranded cx venue (sort (map st_id s)) reason d = Inr (sort (map r_id ?S), d1)"
    unfolding cancel_stranded_def tbind_def tget_def sum.case prod.case rows_def [symmetric] w(1) tret_def ids by simp
  have ns: "s \<noteq> []" "filter st_started s = []" "\<not> BOUNDS_forceCancellations < length s"
    using f(2,3,4) read_stranded_started [of cx venue "strands cx d" d] by (simp_all add: s_def read_stranded_Nil started_def read_stranded_def)
  have st: "settleStranded cx venue s c what opts d = Inr (Admin_ok () (sort (map r_id ?S)), d1)"
    unfolding settleStranded_def Let_def using ns f(1) by (simp add: reason(1) [symmetric] tbind_def cs tx_eqs)
  have none: "\<not> strands cx d1 r" if r: "r \<in> set (reservations d1)" "r_venue r = venue" "live (cx_now cx) r" for r
  proof
    assume str: "strands cx d1 r"
    from replaced_live [OF r(1) [unfolded w(3)] r(3)] have a: "r \<in> set (reservations d)" "r_id r \<notin> r_id ` set rows" by blast+
    from w(11) a(2) have "rows_of d1 (r_id r) = rows_of d (r_id r)" by blast
    with str have s: "strands cx d r" using strands_rows by blast
    show False
    proof (cases "visible cx venue")
      case True
      with a(1) r(2,3) s have "r \<in> set ?S" by (simp add: set_stranded_by)
      with sr(1) a(2) show False by blast
    next
      case False
      have "set ?S = {}" unfolding set_stranded_by using False by blast
      with f(3) show False by simp
    qed
  qed
  have rd1: "ready cx d1" by (rule ready_kept [OF w(7,8,9,6) rd])
  from write_ok [OF w(2) rd1] none obtain v d2 where wr: "put cx d1 = Inr (v, d2)" by blast
  note fr = write_frame [OF wr]
  have I2: "inv (cx_now cx) {} d2" by (rule write_inv [OF w(2) rd1 wr])
  have res: "reservations d2 = replace_rows ?g rows (reservations d)" using fr w(3) by simp
  have com: "commit d2 = Inr ((), d2\<lparr>deferred := []\<rparr>)"
    by (rule batch_commits [OF I2 res _ b]) (use w(4) q fr in auto)
  have run: "settled c what opts cx d = Inr (Admin_ok v (sort (map r_id ?S)), d2)"
    by (simp add: settled_def tbind_def tx_eqs settle_then_def s_def [symmetric] st wr)
  have len: "length rows = length ?S" using sr(2) by (metis length_map length_sort)
  have "length (outbox d2) = length (outbox d) + length ?S" using arg_cong [OF w(5), of length] fr len by simp
  moreover have "\<forall>k. k \<notin> r_id ` set ?S \<longrightarrow> rows_of d2 k = rows_of d k" using w(11) sr(1) fr by (simp add: rows_of_def)
  ultimately show ?thesis
    using run wr I2 com res [unfolded replace_rows_set [OF sr(1)]] w(6-10) by blast
qed

text \<open>The transaction around it, when the written value is determined.\<close>

lemma adminWrite_settled:
  assumes cx: "cx = admin_session ctx now" and I: "inv now {} d" and q: "deferred d = []" and actor: "ax_actor ctx \<noteq> []" and venue: "venue = ax_venueId ctx" and rd: "ready cx d"
    and reason: "fo_cancelReason opts \<noteq> Some []"
    and written: "\<And>d1 x d2. ready cx d1 \<Longrightarrow> put cx d1 = Inr (x, d2) \<Longrightarrow> x = v \<and> Q (d2\<lparr>deferred := []\<rparr>)"
  shows "settles c opts now (stranded cx d) d v Q (adminWrite now ctx (settled c what opts) d)"
proof -
  have now: "cx_now cx = now" "cx_actor cx \<noteq> []" using actor by (simp_all add: cx admin_session_def setContext_def)
  have I': "inv (cx_now cx) {} d" using I now(1) by simp
  have st: "started cx d = started_of now (stranded cx d)" by (simp only: started_def started_of_def now(1))
  have aw: "adminWrite now ctx (settled c what opts) d = (case settled c what opts cx d of
      Inl e \<Rightarrow> Inl (asDastarError e)
    | Inr (out, d') \<Rightarrow> (case out of
        Admin_refused _ _ _ \<Rightarrow> Inr (out, d)
      | Admin_ok _ _ \<Rightarrow> (case commit d' of Inl e \<Rightarrow> Inl (asDastarError e) | Inr (_, d'') \<Rightarrow> Inr (out, d''))))"
    by (simp add: adminWrite_def cx)
  consider (free) "stranded cx d = []" | (refused) "stranded cx d \<noteq> []" "\<not> fo_force opts"
    | (begun) "stranded cx d \<noteq> []" "fo_force opts" "started cx d \<noteq> []"
    | (many) "stranded cx d \<noteq> []" "fo_force opts" "started cx d = []" "BOUNDS_forceCancellations < length (stranded cx d)"
    | (forced) "stranded cx d \<noteq> []" "fo_force opts" "started cx d = []" "length (stranded cx d) \<le> BOUNDS_forceCancellations"
    by linarith
  then show ?thesis
  proof cases
    case free
    have none: "\<not> strands cx d r" if r: "r \<in> set (reservations d)" "r_venue r = venue" "live (cx_now cx) r" for r
    proof
      assume "strands cx d r"
      moreover have "visible cx venue" by (simp add: visible_def cx admin_session_def setContext_def venue)
      ultimately have "r \<in> set (stranded cx d)" using r by (simp add: set_stranded_by)
      with free show False by simp
    qed
    then obtain x d' where w: "put cx d = Inr (x, d')" using write_ok [OF I' rd] by blast
    note fr = write_frame [OF w]
    have x: "x = v" "Q (d'\<lparr>deferred := []\<rparr>)" using written [OF rd w] by blast+
    have I2: "inv now {} d'" using write_inv [OF I' rd w] now(1) by simp
    have com: "commit d' = Inr ((), d'\<lparr>deferred := []\<rparr>)" using fr q by (simp add: commit_def)
    have "adminWrite now ctx (settled c what opts) d = Inr (Admin_ok v [], d'\<lparr>deferred := []\<rparr>)"
      by (simp add: aw settled_free [OF free] w com x(1))
    with free fr I2 x(2) show ?thesis by (simp add: settles_def)
  next
    case refused
    with settled_refused [OF refused, of c what] aw show ?thesis by (auto simp: settles_def)
  next
    case begun
    with settled_started [OF begun(2,3), of c what] aw st show ?thesis by (auto simp: settles_def)
  next
    case many
    with settled_too_many [OF many(2-), of c what] aw st show ?thesis by (auto simp: settles_def)
  next
    case forced
    have r: "force_reason opts \<noteq> []" using reason by (auto simp: force_reason_def split: option.splits)
    from settled_forced [OF I' rd q now(2) forced(2,3,1,4) force_reason_def r, of c what] obtain x d1 d2 where
      w: "settled c what opts cx d = Inr (Admin_ok x (sort (map r_id (stranded cx d))), d2)" "put cx d1 = Inr (x, d2)" "inv (cx_now cx) {} d2"
        "commit d2 = Inr ((), d2\<lparr>deferred := []\<rparr>)" "reservations d2 = replace_rows (cancelled_row (force_reason opts)) (stranded cx d) (reservations d)"
        "length (outbox d2) = length (outbox d) + length (stranded cx d)" "\<forall>k. k \<notin> r_id ` set (stranded cx d) \<longrightarrow> rows_of d2 k = rows_of d k"
        "venues d1 = venues d" "units d1 = units d" "combos d1 = combos d" "blackouts d1 = blackouts d" by blast
    have rd1: "ready cx d1" by (rule ready_kept [OF w(9-11,8) rd])
    have x: "x = v" "Q (d2\<lparr>deferred := []\<rparr>)" using written [OF rd1 w(2)] by blast+
    have rows: "rows_of (d2\<lparr>deferred := []\<rparr>) k = rows_of d2 k" for k by (simp add: rows_of_def)
    have "adminWrite now ctx (settled c what opts) d = Inr (Admin_ok v (sort (map r_id (stranded cx d))), d2\<lparr>deferred := []\<rparr>)"
      by (simp add: aw w(1,4) x(1))
    moreover have "inv now {} (d2\<lparr>deferred := []\<rparr>)" using w(3) now(1) by simp
    ultimately show ?thesis
      using forced w(5-7) x(2) st rows unfolding settles_def replace_rows_def by simp
  qed
qed

end

end
