(* ===== verification/AdminSettled.thy ===== *)
theory AdminSettled
  imports CmdAdminCalendar AdminStranding
begin

text \<open>
  The four administrative writes that can strand reservations satisfy the contract of \<open>AdminStranding\<close>: what their
  triggers refuse is what their query reads. Each command is then the settled write of its interpretation, and answers as
  \<open>settles\<close> says.
\<close>

section \<open>Units and combinations\<close>

definition unit_write :: "AdminContext \<Rightarrow> UpdateUnitInput \<Rightarrow> session \<Rightarrow> UnitView tx" where
  "unit_write ctx i cx = tbind (update_unit cx (uu_unitId i) (ax_venueId ctx) (updated_unit i)) (\<lambda>upd. tret (unitView (the upd)))"

definition unit_change_strands :: "AdminContext \<Rightarrow> UpdateUnitInput \<Rightarrow> UnitRow \<Rightarrow> session \<Rightarrow> db \<Rightarrow> ReservationRow \<Rightarrow> bool" where
  "unit_change_strands ctx i cur cx d = (let new = updated_unit i cur in unit_strands d (uu_unitId i)
     (u_capacity_min new \<noteq> u_capacity_min cur \<or> u_capacity_max new \<noteq> u_capacity_max cur) (u_active cur \<and> \<not> u_active new)
     (u_capacity_min new) (u_capacity_max new))"

definition unit_ready :: "AdminContext \<Rightarrow> UpdateUnitInput \<Rightarrow> UnitRow \<Rightarrow> session \<Rightarrow> db \<Rightarrow> bool" where
  "unit_ready ctx i cur cx d \<longleftrightarrow> find_unit d (uu_unitId i) (ax_venueId ctx) = Some cur \<and> check_unit (updated_unit i cur) = Inr ()"

lemma rows_of_iff: "ru \<in> set (rows_of d k) \<longleftrightarrow> ru \<in> set (unit_rows d) \<and> ru_reservation ru = k"
  by (auto simp: rows_of_def)

text \<open>A reservation that is live now uses only units of its own venue.\<close>

lemma live_row_venue:
  assumes I: "inv now {} d" and r: "r \<in> set (reservations d)" "live now r" and ru: "ru \<in> set (unit_rows d)" "ru_reservation ru = r_id r"
    and u: "u \<in> set (units d)" "u_id u = ru_unit ru"
  shows "r_venue r = u_venue u"
proof -
  have m: "membership_ok d r" using I r(1) by (simp add: inv_def members_ok_def)
  have "ru_unit ru \<in> set (map ru_unit (rows_of d (r_id r)))" using ru by (auto simp: rows_of_iff)
  then have mem: "ru_unit ru \<in> set (members_of d (r_assignment r))" using m unfolding membership_ok_def by (metis set_sort)
  have f: "fits d r" using I r by (simp add: inv_def fit_ok_def)
  have uniq: "v = u" if "v \<in> set (units d)" "u_id v = u_id u" for v
    using distinct_key_eq [of u_id "units d" v u] that u(1) I by (simp add: inv_def ids_ok_def)
  have find: "u_venue u = w" if "find_unit d (u_id u) w \<noteq> None" for w
  proof -
    from that obtain v where "find_unit d (u_id u) w = Some v" by blast
    then have "v \<in> set (units d) \<and> u_id v = u_id u \<and> u_venue v = w" by (auto simp: find_unit_def dest: find_Some_D)
    with uniq show ?thesis by blast
  qed
  show ?thesis
  proof (cases "a_kind (r_assignment r)")
    case Unit
    with mem u have i: "a_id (r_assignment r) = u_id u" by (simp add: members_of_def)
    from f Unit have "find_unit d (a_id (r_assignment r)) (r_venue r) \<noteq> None" by (auto simp: fits_def assignment_facts_def split: option.splits)
    with find i show ?thesis by simp
  next
    case Combo
    with f obtain c where c: "find_combo d (a_id (r_assignment r)) (r_venue r) = Some c" "combo_usable d c"
      by (auto simp: fits_def assignment_facts_def split: option.splits)
    then have ci: "c \<in> set (combos d)" "c_id c = a_id (r_assignment r)" "c_venue c = r_venue r" by (auto simp: find_combo_def dest: find_Some_D)
    have "find (\<lambda>x. c_id x = a_id (r_assignment r)) (combos d) = Some c"
      using find_distinct_key [of c_id "combos d" c] I ci by (simp add: inv_def ids_ok_def)
    with mem Combo u have "u_id u \<in> set (c_unit_ids c)" by (simp add: members_of_def)
    with c(2) have "\<exists>v\<in>set (units d). u_id v = u_id u \<and> u_venue v = c_venue c" by (auto simp: combo_usable_def)
    with uniq ci(3) show ?thesis by metis
  qed
qed

lemma live_unit_venue:
  assumes I: "inv now {} d" and r: "r \<in> set (reservations d)" "r_assignment r = \<lparr>a_kind = Unit, a_id = u_id u\<rparr>" and u: "u \<in> set (units d)"
  shows "r_venue r = u_venue u"
proof -
  from I r(1) have "assignment_facts d (r_assignment r) (r_venue r) \<noteq> None" unfolding inv_def assigned_ok_def by blast
  then have "find_unit d (u_id u) (r_venue r) \<noteq> None" unfolding r(2) by (simp add: assignment_facts_def)
  then obtain v where v: "v \<in> set (units d)" "u_id v = u_id u" "u_venue v = r_venue r" by (auto simp: find_unit_def dest: find_Some_D)
  have "v = u" using distinct_key_eq [of u_id "units d" v u] v u I by (simp add: inv_def ids_ok_def)
  with v show ?thesis by simp
qed

lemma unit_guards:
  assumes I: "inv (cx_now cx) {} d" and rd: "unit_ready ctx i cur cx d"
  shows "(\<exists>e. rbind (trg_unit_active_guard (cx_now cx) d cur (updated_unit i cur)) (\<lambda>_. trg_capacity_guard (cx_now cx) d cur (updated_unit i cur)) = Inl e)
    \<longleftrightarrow> (\<exists>r\<in>set (reservations d). r_venue r = ax_venueId ctx \<and> live (cx_now cx) r \<and> unit_change_strands ctx i cur cx d r)"
proof -
  have cur: "cur \<in> set (units d)" "u_id cur = uu_unitId i" "u_venue cur = ax_venueId ctx"
    using rd by (auto simp: unit_ready_def find_unit_def dest: find_Some_D)
  let ?new = "updated_unit i cur"
  have "(\<exists>ru\<in>set (unit_rows d). \<exists>r\<in>set (reservations d). r_id r = ru_reservation ru \<and> ru_unit ru = u_id cur \<and> ru_active ru \<and> live (cx_now cx) r)
      \<longleftrightarrow> (\<exists>r\<in>set (reservations d). r_venue r = ax_venueId ctx \<and> live (cx_now cx) r \<and> (\<exists>ru\<in>set (unit_rows d). ru_reservation ru = r_id r \<and> ru_unit ru = uu_unitId i \<and> ru_active ru))"
    (is "?L \<longleftrightarrow> ?R")
  proof
    assume ?L
    then obtain ru r where x: "ru \<in> set (unit_rows d)" "r \<in> set (reservations d)" "ru_reservation ru = r_id r" "ru_unit ru = u_id cur" "ru_active ru" "live (cx_now cx) r"
      by auto
    have "r_venue r = ax_venueId ctx" using live_row_venue [OF I x(2,6,1,3) cur(1)] x(4) cur(3) by simp
    with x cur(2) show ?R by auto
  next
    assume ?R
    with cur(2) show ?L by (metis (no_types, lifting))
  qed
  then have "(\<exists>e. trg_unit_active_guard (cx_now cx) d cur ?new = Inl e) \<longleftrightarrow> (u_active cur \<and> \<not> u_active ?new) \<and>
      (\<exists>r\<in>set (reservations d). r_venue r = ax_venueId ctx \<and> live (cx_now cx) r \<and> (\<exists>ru\<in>set (unit_rows d). ru_reservation ru = r_id r \<and> ru_unit ru = uu_unitId i \<and> ru_active ru))"
    by (simp add: trg_unit_active_guard_def)
  moreover have "(\<exists>e. trg_capacity_guard (cx_now cx) d cur ?new = Inl e) \<longleftrightarrow> (u_capacity_min ?new \<noteq> u_capacity_min cur \<or> u_capacity_max ?new \<noteq> u_capacity_max cur) \<and>
      (\<exists>r\<in>set (reservations d). r_venue r = ax_venueId ctx \<and> live (cx_now cx) r \<and> r_assignment r = \<lparr>a_kind = Unit, a_id = uu_unitId i\<rparr>
        \<and> (r_party_size r < u_capacity_min ?new \<or> u_capacity_max ?new < r_party_size r))"
    using live_unit_venue [OF I _ _ cur(1)] cur(2,3) by (auto simp: trg_capacity_guard_def) 
  ultimately show ?thesis
    unfolding rbind_eq_Inl unit_change_strands_def unit_strands_def Let_def by (cases "trg_unit_active_guard (cx_now cx) d cur ?new") (auto 0 4)
qed

lemma unit_write_eq:
  assumes "unit_ready ctx i cur cx d"
  shows "unit_write ctx i cx d =
    (case rbind (trg_unit_active_guard (cx_now cx) d cur (updated_unit i cur)) (\<lambda>_. trg_capacity_guard (cx_now cx) d cur (updated_unit i cur)) of
       Inl e \<Rightarrow> Inl e
     | Inr _ \<Rightarrow> Inr (unitView (updated_unit i cur), trg_config_version (ax_venueId ctx)
         (d\<lparr>units := map (\<lambda>u. if u_id u = uu_unitId i then updated_unit i cur else u) (units d)\<rparr>)))"
  using assms
  by (cases "trg_unit_active_guard (cx_now cx) d cur (updated_unit i cur)"; cases "trg_capacity_guard (cx_now cx) d cur (updated_unit i cur)")
    (simp_all add: unit_write_def tbind_def update_unit_def unit_ready_def Let_def tx_eqs)

lemma trg_config_version_sel:
  "reservations (trg_config_version v d) = reservations d" "unit_rows (trg_config_version v d) = unit_rows d"
  "deferred (trg_config_version v d) = deferred d" "outbox (trg_config_version v d) = outbox d"
  "idempotency (trg_config_version v d) = idempotency d" "audit_log (trg_config_version v d) = audit_log d"
  "units (trg_config_version v d) = units d" "combos (trg_config_version v d) = combos d"
  "blackouts (trg_config_version v d) = blackouts d" "schedules (trg_config_version v d) = schedules d"
  by (simp_all add: trg_config_version_def)

lemma unit_change_cong:
  "rows_of d' (r_id r) = rows_of d (r_id r) \<Longrightarrow> unit_change_strands ctx i cur cx d' r = unit_change_strands ctx i cur cx d r"
proof -
  assume e: "rows_of d' (r_id r) = rows_of d (r_id r)"
  have "(\<exists>ru\<in>set (unit_rows x). ru_reservation ru = r_id r \<and> ru_unit ru = u \<and> ru_active ru)
      \<longleftrightarrow> (\<exists>ru\<in>set (rows_of x (r_id r)). ru_unit ru = u \<and> ru_active ru)" for x u
    by (auto simp: rows_of_iff)
  with e show ?thesis by (simp add: unit_change_strands_def unit_strands_def Let_def)
qed

interpretation unit_change: strandable "ax_venueId ctx" "unit_change_strands ctx i cur" "unit_ready ctx i cur" "unit_write ctx i" for ctx i cur
proof
  show "unit_change_strands ctx i cur cx d' r = unit_change_strands ctx i cur cx d r" if "rows_of d' (r_id r) = rows_of d (r_id r)" for cx d d' r
    using that by (rule unit_change_cong)
  show "unit_ready ctx i cur cx d'" if "units d' = units d" "unit_ready ctx i cur cx d" for cx d d'
    using that by (simp add: unit_ready_def find_unit_def)
  show "\<exists>v d'. unit_write ctx i cx d = Inr (v, d')"
    if "inv (cx_now cx) {} d" "unit_ready ctx i cur cx d"
      "\<forall>r\<in>set (reservations d). r_venue r = ax_venueId ctx \<longrightarrow> live (cx_now cx) r \<longrightarrow> \<not> unit_change_strands ctx i cur cx d r" for cx d
    using unit_guards [OF that(1,2)] that(3) unfolding unit_write_eq [OF that(2)] by (auto split: sum.split)
  show "\<exists>e. unit_write ctx i cx d = Inl e"
    if "inv (cx_now cx) {} d" "unit_ready ctx i cur cx d" "r \<in> set (reservations d)" "r_venue r = ax_venueId ctx" "live (cx_now cx) r"
      "unit_change_strands ctx i cur cx d r" for cx d r
    using unit_guards [OF that(1,2)] that(3-) unfolding unit_write_eq [OF that(2)] by (auto split: sum.split)
  show "inv (cx_now cx) {} d'" if "inv (cx_now cx) {} d" "unit_write ctx i cx d = Inr (v, d')" for cx d v d'
  proof -
    have "preserves (inv (cx_now cx) {}) (unit_write ctx i cx)"
      unfolding unit_write_def by (intro preserved) (simp_all add: updated_unit_def)
    from preservesD [OF this that(1) that(2)] show ?thesis .
  qed
  show "reservations d' = reservations d \<and> unit_rows d' = unit_rows d \<and> deferred d' = deferred d \<and> outbox d' = outbox d
      \<and> idempotency d' = idempotency d \<and> audit_log d' = audit_log d" if "unit_write ctx i cx d = Inr (v, d')" for cx d v d'
    using that by (auto simp: unit_write_def tbind_Inr update_unit_def Let_def tx_eqs rbind_eq_Inr trg_config_version_sel split: option.splits)
qed

text \<open>A combination.\<close>

definition combo_write :: "AdminContext \<Rightarrow> UpdateComboInput \<Rightarrow> session \<Rightarrow> ComboView tx" where
  "combo_write ctx i cx = tbind (update_combo_row cx (uc_comboId i) (ax_venueId ctx) (updated_combo i)) (\<lambda>upd. tret (comboView (the upd)))"

definition combo_change_strands :: "UpdateComboInput \<Rightarrow> ComboRow \<Rightarrow> session \<Rightarrow> db \<Rightarrow> ReservationRow \<Rightarrow> bool" where
  "combo_change_strands i cur cx d r \<longleftrightarrow> c_active cur \<and> \<not> c_active (updated_combo i cur) \<and> r_assignment r = \<lparr>a_kind = Combo, a_id = uc_comboId i\<rparr>"

definition combo_ready :: "AdminContext \<Rightarrow> UpdateComboInput \<Rightarrow> ComboRow \<Rightarrow> session \<Rightarrow> db \<Rightarrow> bool" where
  "combo_ready ctx i cur cx d \<longleftrightarrow> find_combo d (uc_comboId i) (ax_venueId ctx) = Some cur"

lemma combo_guards:
  assumes I: "inv (cx_now cx) {} d" and rd: "combo_ready ctx i cur cx d"
  shows "(\<exists>e. trg_combo_active_guard (cx_now cx) d cur (updated_combo i cur) = Inl e)
    \<longleftrightarrow> (\<exists>r\<in>set (reservations d). r_venue r = ax_venueId ctx \<and> live (cx_now cx) r \<and> combo_change_strands i cur cx d r)"
proof -
  have cur: "cur \<in> set (combos d)" "c_id cur = uc_comboId i" "c_venue cur = ax_venueId ctx"
    using rd by (auto simp: combo_ready_def find_combo_def dest: find_Some_D)
  have v: "r_venue r = ax_venueId ctx" if r: "r \<in> set (reservations d)" "r_assignment r = \<lparr>a_kind = Combo, a_id = uc_comboId i\<rparr>" for r
  proof -
    from I r(1) have "assignment_facts d (r_assignment r) (r_venue r) \<noteq> None" unfolding inv_def assigned_ok_def by blast
    then have "find_combo d (uc_comboId i) (r_venue r) \<noteq> None" unfolding r(2) by (simp add: assignment_facts_def)
    then obtain c where c: "c \<in> set (combos d)" "c_id c = c_id cur" "c_venue c = r_venue r" using cur(2) by (auto simp: find_combo_def dest: find_Some_D)
    have "c = cur" using distinct_key_eq [of c_id "combos d" c cur] c cur I by (simp add: inv_def ids_ok_def)
    with c cur show ?thesis by simp
  qed
  then show ?thesis unfolding trg_combo_active_guard_def throw_if_eq combo_change_strands_def cur(2) by blast
qed

lemma combo_write_eq:
  assumes I: "inv T {} d" and rd: "combo_ready ctx i cur cx d"
  shows "combo_write ctx i cx d = (case trg_combo_active_guard (cx_now cx) d cur (updated_combo i cur) of
       Inl e \<Rightarrow> Inl e
     | Inr _ \<Rightarrow> Inr (comboView (updated_combo i cur), trg_config_version (ax_venueId ctx)
         (d\<lparr>combos := map (\<lambda>c. if c_id c = uc_comboId i then updated_combo i cur else c) (combos d)\<rparr>)))"
proof -
  have "cur \<in> set (combos d)" using rd by (auto simp: combo_ready_def find_combo_def dest: find_Some_D)
  then have "check_combo cur = Inr ()" using I by (simp add: inv_def shape_ok_def)
  then have "check_combo (updated_combo i cur) = Inr ()" "trg_combo_immutable cur (updated_combo i cur) = Inr ()"
    by (simp_all add: check_combo_def updated_combo_def trg_combo_immutable_def)
  with rd show ?thesis
    by (simp add: combo_write_def tbind_def update_combo_row_def combo_ready_def Let_def tx_eqs split: sum.split)
qed

interpretation combo_change: strandable "ax_venueId ctx" "combo_change_strands i cur" "combo_ready ctx i cur" "combo_write ctx i" for ctx i cur
proof
  show "combo_change_strands i cur cx d' r = combo_change_strands i cur cx d r" for cx d d' r by (simp add: combo_change_strands_def)
  show "combo_ready ctx i cur cx d'" if "combos d' = combos d" "combo_ready ctx i cur cx d" for cx d d'
    using that by (simp add: combo_ready_def find_combo_def)
  show "\<exists>v d'. combo_write ctx i cx d = Inr (v, d')"
    if "inv (cx_now cx) {} d" "combo_ready ctx i cur cx d"
      "\<forall>r\<in>set (reservations d). r_venue r = ax_venueId ctx \<longrightarrow> live (cx_now cx) r \<longrightarrow> \<not> combo_change_strands i cur cx d r" for cx d
    using combo_guards [OF that(1,2)] that(3) unfolding combo_write_eq [OF that(1,2)] by (auto split: sum.split)
  show "\<exists>e. combo_write ctx i cx d = Inl e"
    if "inv (cx_now cx) {} d" "combo_ready ctx i cur cx d" "r \<in> set (reservations d)" "r_venue r = ax_venueId ctx" "live (cx_now cx) r"
      "combo_change_strands i cur cx d r" for cx d r
    using combo_guards [OF that(1,2)] that(3-) unfolding combo_write_eq [OF that(1,2)] by (auto split: sum.split)
  show "inv (cx_now cx) {} d'" if "inv (cx_now cx) {} d" "combo_write ctx i cx d = Inr (v, d')" for cx d v d'
  proof -
    have "preserves (inv (cx_now cx) {}) (combo_write ctx i cx)"
      unfolding combo_write_def by (intro preserved) (simp_all add: updated_combo_def)
    from preservesD [OF this that(1) that(2)] show ?thesis .
  qed
  show "reservations d' = reservations d \<and> unit_rows d' = unit_rows d \<and> deferred d' = deferred d \<and> outbox d' = outbox d
      \<and> idempotency d' = idempotency d \<and> audit_log d' = audit_log d" if "combo_write ctx i cx d = Inr (v, d')" for cx d v d'
    using that by (auto simp: combo_write_def tbind_Inr update_combo_row_def Let_def tx_eqs rbind_eq_Inr trg_config_version_sel split: option.splits)
qed

section \<open>Blackouts\<close>

lemma occupies_rows:
  "occupies cx d during r \<longleftrightarrow> (\<exists>ru\<in>set (rows_of d (r_id r)). ru_active ru \<and> cx_venue cx = Some (ru_venue ru) \<and> overlaps (ru_during ru) during)"
  by (auto simp: occupies_def occupancy_def rows_of_def)

text \<open>What the blackout guard refuses is what the query reads.\<close>

lemma blackout_guard_iff:
  assumes I: "inv T {} d" and v: "cx_venue cx = Some (b_venue new)"
  shows "(\<exists>ru\<in>set (unit_rows d). \<exists>r\<in>set (reservations d). r_id r = ru_reservation ru
           \<and> ru_venue ru = b_venue new \<and> ru_active ru \<and> overlaps (ru_during ru) (b_during new) \<and> live now r)
    \<longleftrightarrow> (\<exists>r\<in>set (reservations d). r_venue r = b_venue new \<and> live now r \<and> occupies cx d (b_during new) r)" (is "?L \<longleftrightarrow> ?R")
proof
  assume ?L
  then obtain ru r where x: "ru \<in> set (unit_rows d)" "r \<in> set (reservations d)" "r_id r = ru_reservation ru" "ru_venue ru = b_venue new"
    "ru_active ru" "overlaps (ru_during ru) (b_during new)" "live now r" by blast
  from I x(1) obtain q where q: "q \<in> set (reservations d)" "r_id q = ru_reservation ru" "row_in_sync ru q" unfolding inv_def sync_ok_def by blast
  have "q = r" using distinct_key_eq [of r_id "reservations d" q r] q x(2,3) I by (simp add: inv_def ids_ok_def)
  with q(3) x(4) have "r_venue r = b_venue new" by (simp add: row_in_sync_def)
  moreover have "occupies cx d (b_during new) r" using x v by (auto simp: occupies_rows rows_of_iff)
  ultimately show ?R using x by blast
next
  assume ?R
  then obtain r ru where r: "r \<in> set (reservations d)" "live now r" and ru: "ru \<in> set (rows_of d (r_id r))" "ru_active ru"
    "cx_venue cx = Some (ru_venue ru)" "overlaps (ru_during ru) (b_during new)" by (auto simp: occupies_rows)
  have "ru \<in> set (unit_rows d)" "r_id r = ru_reservation ru" "ru_venue ru = b_venue new" using ru(1,3) v by (simp_all add: rows_of_iff)
  with r ru show ?L by blast
qed

definition blackout_row :: "string \<Rightarrow> AdminContext \<Rightarrow> range \<Rightarrow> string \<Rightarrow> bool \<Rightarrow> BlackoutRow" where
  "blackout_row newId ctx during reason active = \<lparr>b_id = newId, b_venue = ax_venueId ctx, b_during = during, b_reason = reason, b_active = active\<rparr>"

definition blackout_insert :: "BlackoutRow \<Rightarrow> session \<Rightarrow> BlackoutView tx" where
  "blackout_insert b cx = tbind (insert_blackout cx b) (\<lambda>r. tret (blackoutView r))"

definition insert_strands :: "BlackoutRow \<Rightarrow> session \<Rightarrow> db \<Rightarrow> ReservationRow \<Rightarrow> bool" where
  "insert_strands b cx d r \<longleftrightarrow> b_active b \<and> occupies cx d (b_during b) r"

definition insert_ready :: "BlackoutRow \<Rightarrow> session \<Rightarrow> db \<Rightarrow> bool" where
  "insert_ready b cx d \<longleftrightarrow> cx_venue cx = Some (b_venue b) \<and> check_blackout b = Inr () \<and> b_id b \<notin> b_id ` set (blackouts d) \<and> find_venue d (b_venue b) \<noteq> None"

lemma blackout_insert_eq:
  assumes I: "inv T {} d" and rd: "insert_ready b cx d"
  shows "blackout_insert b cx d = (if \<exists>r\<in>set (reservations d). r_venue r = b_venue b \<and> live (cx_now cx) r \<and> insert_strands b cx d r
    then Inl (pg_raise ''DA014'' ''blackout would strand a live reservation'')
    else Inr (blackoutView b, trg_config_version (b_venue b) (d\<lparr>blackouts := blackouts d @ [b]\<rparr>)))"
proof -
  have v: "cx_venue cx = Some (b_venue b)" using rd by (simp add: insert_ready_def)
  define P where "P \<longleftrightarrow> (\<exists>r\<in>set (reservations d). r_venue r = b_venue b \<and> live (cx_now cx) r \<and> insert_strands b cx d r)"
  have "trg_blackout_write (cx_now cx) d None b = (if P
    then Inl (pg_raise ''DA014'' ''blackout would strand a live reservation'') else Inr ())"
    unfolding trg_blackout_write_def Let_def blackout_guard_iff [OF I v] P_def insert_strands_def throw_if_def option.case simp_thms bex_simps
    by (cases "b_active b") simp_all
  then show ?thesis using rd unfolding P_def [symmetric]
    by (auto simp: blackout_insert_def insert_blackout_def insert_ready_def tbind_def tx_eqs throw_if_def)
qed

interpretation blackout_new: strandable "b_venue b" "insert_strands b" "insert_ready b" "blackout_insert b" for b
proof
  show "insert_strands b cx d' r = insert_strands b cx d r" if "rows_of d' (r_id r) = rows_of d (r_id r)" for cx d d' r
    using that by (simp add: insert_strands_def occupies_rows)
  show "insert_ready b cx d'" if "blackouts d' = blackouts d" "venues d' = venues d" "insert_ready b cx d" for cx d d'
    using that by (simp add: insert_ready_def find_venue_def)
  show "\<exists>v d'. blackout_insert b cx d = Inr (v, d')"
    if "inv (cx_now cx) {} d" "insert_ready b cx d"
      "\<forall>r\<in>set (reservations d). r_venue r = b_venue b \<longrightarrow> live (cx_now cx) r \<longrightarrow> \<not> insert_strands b cx d r" for cx d
    using blackout_insert_eq [OF that(1,2)] that(3) by auto
  show "\<exists>e. blackout_insert b cx d = Inl e"
    if "inv (cx_now cx) {} d" "insert_ready b cx d" "r \<in> set (reservations d)" "r_venue r = b_venue b" "live (cx_now cx) r" "insert_strands b cx d r" for cx d r
    using blackout_insert_eq [OF that(1,2)] that(3-) by auto
  show "inv (cx_now cx) {} d'" if "inv (cx_now cx) {} d" "blackout_insert b cx d = Inr (v, d')" for cx d v d'
  proof -
    have "preserves (inv (cx_now cx) {}) (blackout_insert b cx)" unfolding blackout_insert_def by (intro preserved) simp
    from preservesD [OF this that(1) that(2)] show ?thesis .
  qed
  show "reservations d' = reservations d \<and> unit_rows d' = unit_rows d \<and> deferred d' = deferred d \<and> outbox d' = outbox d
      \<and> idempotency d' = idempotency d \<and> audit_log d' = audit_log d" if "blackout_insert b cx d = Inr (v, d')" for cx d v d'
    using that by (auto simp: blackout_insert_def tbind_Inr insert_blackout_def tx_eqs rbind_eq_Inr trg_config_version_sel)
qed

text \<open>The update: only activation is judged.\<close>

definition blackout_update :: "string \<Rightarrow> string \<Rightarrow> string option \<Rightarrow> bool option \<Rightarrow> session \<Rightarrow> BlackoutView tx" where
  "blackout_update venue i reason active cx = tbind (update_blackout cx i venue (updated_blackout reason active)) (\<lambda>upd. tret (blackoutView (the upd)))"

definition activation_strands :: "BlackoutRow \<Rightarrow> string option \<Rightarrow> bool option \<Rightarrow> session \<Rightarrow> db \<Rightarrow> ReservationRow \<Rightarrow> bool" where
  "activation_strands cur reason active cx d r \<longleftrightarrow> \<not> b_active cur \<and> b_active (updated_blackout reason active cur) \<and> occupies cx d (b_during cur) r"

definition activation_ready :: "string \<Rightarrow> string \<Rightarrow> BlackoutRow \<Rightarrow> string option \<Rightarrow> bool option \<Rightarrow> session \<Rightarrow> db \<Rightarrow> bool" where
  "activation_ready venue i cur reason active cx d \<longleftrightarrow> cx_venue cx = Some venue \<and> find_blackout d i venue = Some cur
     \<and> check_blackout (updated_blackout reason active cur) = Inr ()"

lemma blackout_update_eq:
  assumes I: "inv T {} d" and rd: "activation_ready venue i cur reason active cx d"
  shows "blackout_update venue i reason active cx d = (if \<exists>r\<in>set (reservations d). r_venue r = venue \<and> live (cx_now cx) r \<and> activation_strands cur reason active cx d r
    then Inl (pg_raise ''DA014'' ''blackout would strand a live reservation'')
    else Inr (blackoutView (updated_blackout reason active cur), trg_config_version venue
      (d\<lparr>blackouts := map (\<lambda>b. if b_id b = i then updated_blackout reason active cur else b) (blackouts d)\<rparr>)))"
proof -
  let ?new = "updated_blackout reason active cur"
  have c: "b_venue ?new = venue" "b_during ?new = b_during cur" "b_venue cur = venue"
    using rd by (auto simp: activation_ready_def find_blackout_def updated_blackout_def dest: find_Some_D)
  have v: "cx_venue cx = Some (b_venue ?new)" using rd c by (simp add: activation_ready_def)
  define P where "P \<longleftrightarrow> (\<exists>r\<in>set (reservations d). r_venue r = venue \<and> live (cx_now cx) r \<and> activation_strands cur reason active cx d r)"
  have "trg_blackout_write (cx_now cx) d (Some cur) ?new = (if P
    then Inl (pg_raise ''DA014'' ''blackout would strand a live reservation'') else Inr ())"
    unfolding trg_blackout_write_def Let_def blackout_guard_iff [OF I v] P_def activation_strands_def throw_if_def
    by (cases "b_active cur"; cases "b_active ?new") (simp_all add: c)
  then show ?thesis using rd unfolding P_def [symmetric] by (simp add: blackout_update_def update_blackout_def activation_ready_def tbind_def tx_eqs Let_def)
qed

interpretation blackout_change: strandable venue "activation_strands cur reason active" "activation_ready venue i cur reason active" "blackout_update venue i reason active"
  for venue i cur reason active
proof
  show "activation_strands cur reason active cx d' r = activation_strands cur reason active cx d r" if "rows_of d' (r_id r) = rows_of d (r_id r)" for cx d d' r
    using that by (simp add: activation_strands_def occupies_rows)
  show "activation_ready venue i cur reason active cx d'" if "blackouts d' = blackouts d" "activation_ready venue i cur reason active cx d" for cx d d'
    using that by (simp add: activation_ready_def find_blackout_def)
  show "\<exists>v d'. blackout_update venue i reason active cx d = Inr (v, d')"
    if "inv (cx_now cx) {} d" "activation_ready venue i cur reason active cx d"
      "\<forall>r\<in>set (reservations d). r_venue r = venue \<longrightarrow> live (cx_now cx) r \<longrightarrow> \<not> activation_strands cur reason active cx d r" for cx d
    using blackout_update_eq [OF that(1,2)] that(3) by auto
  show "\<exists>e. blackout_update venue i reason active cx d = Inl e"
    if "inv (cx_now cx) {} d" "activation_ready venue i cur reason active cx d" "r \<in> set (reservations d)" "r_venue r = venue" "live (cx_now cx) r"
      "activation_strands cur reason active cx d r" for cx d r
    using blackout_update_eq [OF that(1,2)] that(3-) by auto
  show "inv (cx_now cx) {} d'" if "inv (cx_now cx) {} d" "blackout_update venue i reason active cx d = Inr (v, d')" for cx d v d'
  proof -
    have "preserves (inv (cx_now cx) {}) (blackout_update venue i reason active cx)"
      unfolding blackout_update_def by (intro preserved) (simp_all add: updated_blackout_def)
    from preservesD [OF this that(1) that(2)] show ?thesis .
  qed
  show "reservations d' = reservations d \<and> unit_rows d' = unit_rows d \<and> deferred d' = deferred d \<and> outbox d' = outbox d
      \<and> idempotency d' = idempotency d \<and> audit_log d' = audit_log d" if "blackout_update venue i reason active cx d = Inr (v, d')" for cx d v d'
    using that by (auto simp: blackout_update_def tbind_Inr update_blackout_def Let_def tx_eqs rbind_eq_Inr trg_config_version_sel split: option.splits)
qed

section \<open>The commands are the settled writes\<close>

lemma read_none: "(\<And>r. \<not> p r) \<Longrightarrow> read_stranded cx venue p d = []"
  by (simp add: read_stranded_def stranded_by_def)

lemma check_unit_iff: "check_unit u = Inr () \<longleftrightarrow> 1 \<le> u_capacity_min u \<and> u_capacity_min u \<le> u_capacity_max u \<and> u_capacity_max u \<le> int4_max"
  by (auto simp: check_unit_def check_int4_def is_int4_def int4_max_def rbind_eq_Inr throw_if_eq)

lemma is_int4_small: "1 \<le> n \<Longrightarrow> n \<le> int4_max \<Longrightarrow> is_int4 n"
  by (simp add: is_int4_def int4_max_def)

lemma updateUnit_settled:
  assumes f: "find_unit d (uu_unitId i) (ax_venueId ctx) = Some cur" and c: "check_unit (updated_unit i cur) = Inr ()"
  shows "updateUnit_tx ctx i cx d = unit_change.settled ctx i cur
    (if u_active cur \<and> \<not> u_active (updated_unit i cur) then Assignment_in_use else Capacity_conflict) (''this change to unit '' @ u_label cur) (uu_force i) cx d"
proof -
  let ?new = "updated_unit i cur"
  have g: "\<not> (u_capacity_min ?new < 1 \<or> u_capacity_max ?new < u_capacity_min ?new)" using c by (auto simp: check_unit_iff)
  have k: "is_int4 (u_capacity_min ?new)" "is_int4 (u_capacity_max ?new)" using c is_int4_small by (auto simp: check_unit_iff)
  have r: "(if \<not> (u_capacity_min ?new \<noteq> u_capacity_min cur \<or> u_capacity_max ?new \<noteq> u_capacity_max cur) \<and> \<not> (u_active cur \<and> \<not> u_active ?new) then []
      else read_stranded cx (ax_venueId ctx) (unit_strands d' (uu_unitId i) (u_capacity_min ?new \<noteq> u_capacity_min cur \<or> u_capacity_max ?new \<noteq> u_capacity_max cur)
        (u_active cur \<and> \<not> u_active ?new) (u_capacity_min ?new) (u_capacity_max ?new)) d')
    = read_stranded cx (ax_venueId ctx) (unit_change_strands ctx i cur cx d') d'" for d'
    by (auto simp: unit_change_strands_def Let_def unit_strands_def intro!: read_none [symmetric])
  show ?thesis
    by (simp only: updateUnit_tx_def unit_change.settled_def unit_write_def tbind_def tget_def f sum.case prod.case option.case Let_def r
        tthen_def tguard_def g k not_not simp_thms if_True tret_def)
qed

lemma updateCombo_settled:
  assumes f: "find_combo d (uc_comboId i) (ax_venueId ctx) = Some cur"
  shows "updateCombo_tx ctx i cx d = combo_change.settled ctx i cur Assignment_in_use (''this change to combination '' @ c_label cur) (uc_force i) cx d"
proof -
  have r: "(if \<not> (c_active cur \<and> \<not> c_active (updated_combo i cur)) then []
      else read_stranded cx (ax_venueId ctx) (\<lambda>r. r_assignment r = \<lparr>a_kind = Combo, a_id = uc_comboId i\<rparr>) d')
    = read_stranded cx (ax_venueId ctx) (combo_change_strands i cur cx d') d'" for d'
    by (auto simp: combo_change_strands_def [abs_def] intro!: read_none [symmetric])
  show ?thesis
    by (simp only: updateCombo_tx_def combo_change.settled_def combo_write_def tbind_def tget_def f sum.case prod.case option.case Let_def r)
qed

lemma createBlackout_settled:
  "createBlackout_tx newId ctx during reason active force cx d
    = blackout_new.settled (blackout_row newId ctx during reason active) Blackout_conflict ''this blackout'' force cx d"
proof -
  have r: "(if \<not> active then [] else read_stranded cx (ax_venueId ctx) (occupies cx d' during) d')
    = read_stranded cx (ax_venueId ctx) (insert_strands (blackout_row newId ctx during reason active) cx d') d'" for d'
    by (auto simp: insert_strands_def [abs_def] blackout_row_def intro!: read_none [symmetric])
  show ?thesis
    unfolding createBlackout_tx_def blackout_new.settled_def blackout_insert_def r by (simp add: blackout_row_def)
qed

lemma updateBlackout_settled:
  assumes f: "find_blackout d blackoutId (ax_venueId ctx) = Some cur"
  shows "updateBlackout_tx ctx blackoutId reason active force cx d
    = blackout_change.settled (ax_venueId ctx) cur reason active blackoutId Blackout_conflict ''this blackout'' force cx d"
proof -
  have r: "(if \<not> (\<not> b_active cur \<and> b_active (updated_blackout reason active cur)) then [] else read_stranded cx (ax_venueId ctx) (occupies cx d' (b_during cur)) d')
    = read_stranded cx (ax_venueId ctx) (activation_strands cur reason active cx d') d'" for d'
    by (auto simp: activation_strands_def [abs_def] intro!: read_none [symmetric])
  show ?thesis
    by (simp only: updateBlackout_tx_def blackout_change.settled_def blackout_update_def tbind_def tget_def f sum.case prod.case option.case Let_def r)
qed

section \<open>What a forced write answers\<close>

lemma find_updated:
  assumes "find_unit d i v = Some cur" and "u_id (f cur) = i" and "u_venue (f cur) = v"
  shows "find_unit (d\<lparr>units := map (\<lambda>u. if u_id u = i then f cur else u) (units d)\<rparr>) i v = Some (f cur)"
proof -
  have "find (\<lambda>u. u_id u = i \<and> u_venue u = v) us = Some cur \<Longrightarrow> find (\<lambda>u. u_id u = i \<and> u_venue u = v) (map (\<lambda>u. if u_id u = i then f cur else u) us) = Some (f cur)" for us
    by (induction us) (use assms(2,3) in \<open>auto split: if_splits\<close>)
  with assms(1) show ?thesis by (simp add: find_unit_def)
qed

lemma config_version_finds:
  "find_unit (trg_config_version w d) i v = find_unit d i v" "find_combo (trg_config_version w d) i v = find_combo d i v"
  "find_blackout (trg_config_version w d) i v = find_blackout d i v"
  by (simp_all add: find_unit_def find_combo_def find_blackout_def trg_config_version_sel)

lemma deferred_finds [simp]:
  "find_unit (d\<lparr>deferred := xs\<rparr>) i v = find_unit d i v" "find_combo (d\<lparr>deferred := xs\<rparr>) i v = find_combo d i v"
  "find_blackout (d\<lparr>deferred := xs\<rparr>) i v = find_blackout d i v"
  by (simp_all add: find_unit_def find_combo_def find_blackout_def)

lemma updateUnit_settles:
  assumes I: "inv now {} d" "deferred d = []" "ax_actor ctx \<noteq> []" "fo_cancelReason (uu_force i) \<noteq> Some []"
    and f: "find_unit d (uu_unitId i) (ax_venueId ctx) = Some cur" and c: "check_unit (updated_unit i cur) = Inr ()"
  shows "settles (if u_active cur \<and> \<not> u_active (updated_unit i cur) then Assignment_in_use else Capacity_conflict) (uu_force i) now
    (unit_change.stranded ctx i cur (admin_session ctx now) d) d (unitView (updated_unit i cur))
    (\<lambda>d'. find_unit d' (uu_unitId i) (ax_venueId ctx) = Some (updated_unit i cur)) (adminWrite now ctx (updateUnit_tx ctx i) d)"
proof -
  let ?cx = "admin_session ctx now"
  have rd: "unit_ready ctx i cur ?cx d" using f c by (simp add: unit_ready_def)
  have w: "x = unitView (updated_unit i cur) \<and> find_unit (d2\<lparr>deferred := []\<rparr>) (uu_unitId i) (ax_venueId ctx) = Some (updated_unit i cur)"
    if "unit_ready ctx i cur ?cx d1" "unit_write ctx i ?cx d1 = Inr (x, d2)" for d1 x d2
  proof -
    have f1: "find_unit d1 (uu_unitId i) (ax_venueId ctx) = Some cur" using that(1) by (simp add: unit_ready_def)
    then have k: "u_id (updated_unit i cur) = uu_unitId i" "u_venue (updated_unit i cur) = ax_venueId ctx"
      by (auto simp: find_unit_def updated_unit_def dest: find_Some_D)
    from that(2) [unfolded unit_write_eq [OF that(1)]] show ?thesis
      using find_updated [of d1 "uu_unitId i" "ax_venueId ctx" cur "updated_unit i", OF f1 k] by (auto simp: config_version_finds split: sum.splits)
  qed
  have "settles c (uu_force i) now (unit_change.stranded ctx i cur ?cx d) d (unitView (updated_unit i cur))
    (\<lambda>d'. find_unit d' (uu_unitId i) (ax_venueId ctx) = Some (updated_unit i cur)) (adminWrite now ctx (unit_change.settled ctx i cur c what (uu_force i)) d)" for c what
    by (rule unit_change.adminWrite_settled [OF refl I(1,2,3) refl rd I(4)]) (rule w)
  then show ?thesis using updateUnit_settled [OF f c] by (simp add: adminWrite_def)
qed

lemma updateCombo_settles:
  assumes I: "inv now {} d" "deferred d = []" "ax_actor ctx \<noteq> []" "fo_cancelReason (uc_force i) \<noteq> Some []"
    and f: "find_combo d (uc_comboId i) (ax_venueId ctx) = Some cur"
  shows "settles Assignment_in_use (uc_force i) now (combo_change.stranded ctx i cur (admin_session ctx now) d) d (comboView (updated_combo i cur))
    (\<lambda>d'. True) (adminWrite now ctx (updateCombo_tx ctx i) d)"
proof -
  let ?cx = "admin_session ctx now"
  have rd: "combo_ready ctx i cur ?cx d" using f by (simp add: combo_ready_def)
  have w: "x = comboView (updated_combo i cur) \<and> True" if "combo_ready ctx i cur ?cx d1" "combo_write ctx i ?cx d1 = Inr (x, d2)" for d1 x d2
    using that by (auto simp: combo_write_def tbind_Inr update_combo_row_def combo_ready_def Let_def tx_eqs rbind_eq_Inr split: option.splits)
  have "settles c (uc_force i) now (combo_change.stranded ctx i cur ?cx d) d (comboView (updated_combo i cur))
    (\<lambda>d'. True) (adminWrite now ctx (combo_change.settled ctx i cur c what (uc_force i)) d)" for c what
    by (rule combo_change.adminWrite_settled [OF refl I(1,2,3) refl rd I(4)]) (rule w)
  then show ?thesis using updateCombo_settled [OF f] by (simp add: adminWrite_def)
qed

lemma createBlackout_settles:
  fixes newId reason and during :: range and active
  defines "b ctx \<equiv> blackout_row newId ctx during reason active"
  assumes I: "inv now {} d" "deferred d = []" "ax_actor ctx \<noteq> []" "fo_cancelReason force \<noteq> Some []"
    and c: "check_blackout (b ctx) = Inr ()" and k: "newId \<notin> b_id ` set (blackouts d)" "find_venue d (ax_venueId ctx) \<noteq> None"
  shows "settles Blackout_conflict force now (blackout_new.stranded (b ctx) (admin_session ctx now) d) d (blackoutView (b ctx))
    (\<lambda>d'. b ctx \<in> set (blackouts d')) (adminWrite now ctx (createBlackout_tx newId ctx during reason active force) d)"
proof -
  let ?cx = "admin_session ctx now"
  have v: "b_venue (b ctx) = ax_venueId ctx" by (simp add: b_def blackout_row_def)
  have rd: "insert_ready (b ctx) ?cx d" using c k by (simp add: insert_ready_def admin_session_def setContext_def b_def blackout_row_def)
  have w: "x = blackoutView (b ctx) \<and> b ctx \<in> set (blackouts (d2\<lparr>deferred := []\<rparr>))"
    if "insert_ready (b ctx) ?cx d1" "blackout_insert (b ctx) ?cx d1 = Inr (x, d2)" for d1 x d2
    using that by (auto simp: blackout_insert_def tbind_Inr insert_blackout_def tx_eqs rbind_eq_Inr trg_config_version_sel)
  show ?thesis
    using blackout_new.adminWrite_settled [OF refl I(1,2,3) v rd I(4), of "blackoutView (b ctx)" "\<lambda>d'. b ctx \<in> set (blackouts d')" Blackout_conflict "''this blackout''"] w
    unfolding createBlackout_settled [of newId ctx during reason active force, folded b_def, abs_def] by blast
qed

lemma updateBlackout_settles:
  assumes I: "inv now {} d" "deferred d = []" "ax_actor ctx \<noteq> []" "fo_cancelReason force \<noteq> Some []"
    and f: "find_blackout d blackoutId (ax_venueId ctx) = Some cur" and c: "check_blackout (updated_blackout reason active cur) = Inr ()"
  shows "settles Blackout_conflict force now (blackout_change.stranded (ax_venueId ctx) cur reason active (admin_session ctx now) d) d
    (blackoutView (updated_blackout reason active cur)) (\<lambda>d'. True) (adminWrite now ctx (updateBlackout_tx ctx blackoutId reason active force) d)"
proof -
  let ?cx = "admin_session ctx now" and ?new = "updated_blackout reason active cur"
  have rd: "activation_ready (ax_venueId ctx) blackoutId cur reason active ?cx d" using f c by (simp add: activation_ready_def admin_session_def setContext_def)
  have w: "x = blackoutView ?new \<and> True"
    if "activation_ready (ax_venueId ctx) blackoutId cur reason active ?cx d1" "blackout_update (ax_venueId ctx) blackoutId reason active ?cx d1 = Inr (x, d2)" for d1 x d2
    using that by (auto simp: blackout_update_def tbind_Inr update_blackout_def activation_ready_def Let_def tx_eqs rbind_eq_Inr split: option.splits)
  have "settles c force now (blackout_change.stranded (ax_venueId ctx) cur reason active ?cx d) d (blackoutView ?new)
    (\<lambda>d'. True) (adminWrite now ctx (blackout_change.settled (ax_venueId ctx) cur reason active blackoutId c what force) d)" for c what
    by (rule blackout_change.adminWrite_settled [OF refl I(1,2,3) refl rd I(4)]) (rule w)
  then show ?thesis using updateBlackout_settled [OF f] by (simp add: adminWrite_def)
qed

end
