(* ===== verification/AdminProperties.thy ===== *)
theory AdminProperties
  imports AdminSettled LifecycleProperties
begin

text \<open>
  What the administrative commands do: they keep the invariants, the forced writes answer exactly as documented, and a
  service period comes back as it was given.
\<close>

section \<open>The invariants\<close>

lemma preserves_cancel_stranded [preserved]: "cx_now cx \<le> T \<Longrightarrow> preserves (inv T X) (cancel_stranded cx v ids reason)"
  unfolding cancel_stranded_def by (intro preserved)

lemma preserves_settleStranded [preserved]: "cx_now cx \<le> T \<Longrightarrow> preserves (inv T X) (settleStranded cx v s c what opts)"
  unfolding settleStranded_def Let_def by (intro preserved)

lemma preserves_settle_then [preserved]: "preserves P settle \<Longrightarrow> preserves P w \<Longrightarrow> preserves P (settle_then settle w)"
  unfolding settle_then_def by (intro preserved) (auto intro!: preserved split: AdminOutcome.split)

lemma commit_clears: "commit d = Inr (x, d') \<Longrightarrow> d' = d\<lparr>deferred := []\<rparr>"
  by (auto simp: commit_def split: if_splits)

text \<open>What a command runs as its transaction keeps, the command keeps; and it leaves nothing deferred.\<close>

lemma adminWrite_keeps:
  assumes "adminWrite now ctx fn d = Inr (out, d')" and "preserves P (fn (admin_session ctx now))" and "preserves P commit" and "P d"
  shows "P d'" and "deferred d = [] \<Longrightarrow> deferred d' = []"
proof -
  consider "d' = d" | d1 where "fn (admin_session ctx now) d = Inr (out, d1)" "commit d1 = Inr ((), d')"
    using assms(1) by (auto simp: adminWrite_def split: sum.splits AdminOutcome.splits)
  then show "P d'" "deferred d = [] \<Longrightarrow> deferred d' = []"
    using assms(4) preservesD [OF assms(2,4)] preservesD [OF assms(3)] by (cases; fastforce dest: commit_clears)+
qed

lemma adminTx_keeps:
  assumes "adminTx now ctx fn d = Inr (out, d')" and "preserves P (fn (admin_session ctx now))" and "preserves P commit" and "P d"
  shows "P d' \<and> deferred d' = []"
proof
  from assms(1) obtain d1 where d1: "fn (admin_session ctx now) d = Inr (out, d1)" "commit d1 = Inr ((), d')"
    by (auto simp: adminTx_def in_transaction_Inr tbind_Inr tthen_Inr tx_eqs)
  show "P d'" using preservesD [OF assms(3) preservesD [OF assms(2,4) d1(1)] d1(2)] .
  show "deferred d' = []" using commit_clears [OF d1(2)] by simp
qed

lemma admin_session_now [simp]: "cx_now (admin_session ctx now) = now"
  by (simp add: admin_session_def setContext_def)

lemma createUnit_keeps:
  "createUnit newId now ctx i d = Inr (v, d') \<Longrightarrow> preserves P commit \<Longrightarrow> P d \<Longrightarrow> (\<And>u. preserves P (insert_unit u)) \<Longrightarrow> P d' \<and> deferred d' = []"
  unfolding createUnit_def rbind_eq_Inr by (elim exE conjE, erule adminTx_keeps) (intro preserved, assumption)+

lemma createCombo_keeps:
  "createCombo newId now ctx i d = Inr (v, d') \<Longrightarrow> preserves P commit \<Longrightarrow> P d \<Longrightarrow> preserves P (createCombo_tx newId ctx i (admin_session ctx now))
   \<Longrightarrow> P d' \<and> deferred d' = []"
  unfolding createCombo_def by (erule adminTx_keeps)

lemma createSchedule_keeps:
  "createSchedule newId now ctx i d = Inr (v, d') \<Longrightarrow> preserves P commit \<Longrightarrow> P d \<Longrightarrow> (\<And>s. preserves P (insert_schedule s)) \<Longrightarrow> P d' \<and> deferred d' = []"
  unfolding createSchedule_def rbind_eq_Inr by (elim exE conjE, erule adminTx_keeps) (intro preserved, assumption)+

lemma updateSchedule_keeps:
  assumes "updateSchedule now ctx sid i d = Inr (v, d')" and "preserves P commit" and "P d"
    and p: "\<And>i v f. (\<And>s. s_id (f s) = s_id s \<and> s_venue (f s) = s_venue s) \<Longrightarrow> preserves P (update_schedule i v f)"
  shows "P d' \<and> deferred d' = []"
  using assms(1-3) unfolding updateSchedule_def rbind_eq_Inr
  by (elim exE conjE) (erule adminTx_keeps, intro preserved p, simp_all add: updated_schedule_def)

lemma updates_keep:
  assumes "preserves P commit" and "P d" and "deferred d = []"
  shows "updateUnit now ctx ui d = Inr (uo, d') \<Longrightarrow> preserves P (updateUnit_tx ctx ui (admin_session ctx now)) \<Longrightarrow> P d' \<and> deferred d' = []"
    and "updateCombo now ctx ci d = Inr (co, d') \<Longrightarrow> preserves P (updateCombo_tx ctx ci (admin_session ctx now)) \<Longrightarrow> P d' \<and> deferred d' = []"
    and "createBlackout newId now ctx bi d = Inr (bo, d')
      \<Longrightarrow> (\<And>during reason active. preserves P (createBlackout_tx newId ctx during reason active (ib_force bi) (admin_session ctx now))) \<Longrightarrow> P d' \<and> deferred d' = []"
    and "updateBlackout now ctx yi d = Inr (bo, d')
      \<Longrightarrow> (\<And>reason active. preserves P (updateBlackout_tx ctx (ub_blackoutId yi) reason active (ub_force yi) (admin_session ctx now))) \<Longrightarrow> P d' \<and> deferred d' = []"
  unfolding updateUnit_def updateCombo_def createBlackout_def updateBlackout_def rbind_eq_Inr
  using adminWrite_keeps [OF _ _ assms(1,2)] assms(3) by blast+

lemma inv_admin_tx:
  assumes "now \<le> T"
  shows "preserves (inv T {}) (updateUnit_tx ctx ui (admin_session ctx now))"
    and "preserves (inv T {}) (createCombo_tx newId ctx ci (admin_session ctx now))"
    and "preserves (inv T {}) (updateCombo_tx ctx co (admin_session ctx now))"
    and "preserves (inv T {}) (createBlackout_tx newId ctx during reason active force (admin_session ctx now))"
    and "preserves (inv T {}) (updateBlackout_tx ctx bid reason' active' force (admin_session ctx now))"
  unfolding updateUnit_tx_def createCombo_tx_def updateCombo_tx_def createBlackout_tx_def updateBlackout_tx_def Let_def
  by (intro preserved; simp add: updated_unit_def updated_combo_def updated_blackout_def assms)+

section \<open>Changes of units and combinations\<close>

lemma adminWrite_throws: "fn (admin_session ctx now) d = Inl (ExDastar e) \<Longrightarrow> adminWrite now ctx fn d = Inl e"
  by (simp add: adminWrite_def asDastarError_def)

text \<open>A capacity beyond an \<open>int\<close> is a change of the row, which has none.\<close>

lemma updateUnit_too_big:
  assumes "inv now {} d" and "find_unit d (uu_unitId i) v = Some cur" and "\<not> (u_capacity_min (updated_unit i cur) < 1 \<or> u_capacity_max (updated_unit i cur) < u_capacity_min (updated_unit i cur))"
    and "int4_max < u_capacity_max (updated_unit i cur)" and "v = ax_venueId ctx"
  shows "\<exists>e. updateUnit_tx ctx i cx d = Inl e \<and> code (asDastarError e) = Internal \<and> sqlstate (asDastarError e) = None"
proof -
  let ?new = "updated_unit i cur"
  have "cur \<in> set (units d)" using assms(2) by (auto simp: find_unit_def dest: find_Some_D)
  with assms(1) have "check_unit cur = Inr ()" by (simp add: inv_def shape_ok_def)
  with assms(4) have c: "u_capacity_min ?new \<noteq> u_capacity_min cur \<or> u_capacity_max ?new \<noteq> u_capacity_max cur" by (auto simp: check_unit_iff)
  have "\<not> is_int4 (u_capacity_max ?new)" using assms(4) by (simp add: is_int4_def)
  then obtain n where "updateUnit_tx ctx i cx d = Inl (int4_error n)"
    using assms(2,3) c by (cases "is_int4 (u_capacity_min ?new)") (auto simp: updateUnit_tx_def tbind_def tx_eqs Let_def tthen_def assms(5))
  moreover have "asDastarError (int4_error n) = dastar_error Internal (''value \"'' @ show_int n @ ''\" is out of range for type integer'')" for n
    by (simp add: int4_error_def asDastarError_def pg_raise_def map_pg_def BY_SQLSTATE_def)
  ultimately show ?thesis by (simp add: dastar_error_def)
qed

text \<open>
  C17: \<open>updateUnit\<close> answers exactly as documented. A layout Postgres cannot store, a unit that is not the venue's, a
  capacity out of order and one beyond an \<open>int\<close> are refused. Otherwise it settles the reservations the change strands: those assigned to the unit whose
  party the new capacity does not take, and on a deactivation those with an active row on it (of combinations too).
  None stranded, it writes; some without force, it is refused with their ids and nothing changes; with force it is
  refused when one has started or there are more than 200, and otherwise exactly those are cancelled, with an event each.
\<close>

theorem updateUnit_exact:
  assumes "inv now {} d" and "deferred d = []" and "ax_actor ctx \<noteq> []" and "fo_cancelReason (uu_force i) \<noteq> Some []"
  shows "if \<exists>v. uu_layout i = Some v \<and> jsonText (json_of v) = None then updateUnit now ctx i d = Inl (not_json_object ''layout'')
    else (case find_unit d (uu_unitId i) (ax_venueId ctx) of
        None \<Rightarrow> updateUnit now ctx i d = Inl (dastar_error Not_found ''unit not found'')
      | Some cur \<Rightarrow> (let new = updated_unit i cur in
          if u_capacity_min new < 1 \<or> u_capacity_max new < u_capacity_min new
          then updateUnit now ctx i d = Inl (invalid_input ''capacity_min must be at least 1 and capacity_max at least capacity_min'')
          else if int4_max < u_capacity_max new
          then \<exists>e. updateUnit now ctx i d = Inl e \<and> code e = Internal \<and> sqlstate e = None
          else settles (if u_active cur \<and> \<not> u_active new then Assignment_in_use else Capacity_conflict) (uu_force i) now
            (stranded_by (admin_session ctx now) (ax_venueId ctx) (unit_change_strands ctx i cur (admin_session ctx now) d) d) d (unitView new)
            (\<lambda>d'. find_unit d' (uu_unitId i) (ax_venueId ctx) = Some new) (updateUnit now ctx i d)))"
proof (cases "\<exists>v. uu_layout i = Some v \<and> jsonText (json_of v) = None")
  case True
  then show ?thesis by (auto simp: updateUnit_def check_opt_def json_input_def)
next
  case False
  then have u: "updateUnit now ctx i d = adminWrite now ctx (updateUnit_tx ctx i) d"
    by (cases "uu_layout i") (auto simp: updateUnit_def check_opt_def json_input_def)
  show ?thesis
  proof (cases "find_unit d (uu_unitId i) (ax_venueId ctx)")
    case None
    then have "updateUnit_tx ctx i (admin_session ctx now) d = Inl (not_found ''unit'')" by (simp add: updateUnit_tx_def tbind_def tx_eqs)
    with None show ?thesis by (subst if_not_P [OF False]) (simp add: u not_found_def adminWrite_throws)
  next
    case (Some cur)
    show ?thesis
    proof (cases "check_unit (updated_unit i cur) = Inr ()")
      case True
      with updateUnit_settles [OF assms Some True] Some True show ?thesis by (subst if_not_P [OF False]) (simp add: u Let_def check_unit_iff)
    next
      case bad: False
      let ?new = "updated_unit i cur"
      show ?thesis
      proof (cases "u_capacity_min ?new < 1 \<or> u_capacity_max ?new < u_capacity_min ?new")
        case True
        then have "updateUnit_tx ctx i (admin_session ctx now) d
            = Inl (ExDastar (invalid_input ''capacity_min must be at least 1 and capacity_max at least capacity_min''))"
          using Some by (auto simp: updateUnit_tx_def tbind_def tx_eqs Let_def tthen_def)
        with Some True show ?thesis by (subst if_not_P [OF False]) (simp add: u Let_def adminWrite_throws)
      next
        case ordered: False
        with bad have big: "int4_max < u_capacity_max ?new" by (simp add: check_unit_iff)
        obtain e where e: "updateUnit_tx ctx i (admin_session ctx now) d = Inl e" "code (asDastarError e) = Internal" "sqlstate (asDastarError e) = None"
          using updateUnit_too_big [OF assms(1) Some ordered big refl] by blast
        then have "updateUnit now ctx i d = Inl (asDastarError e)" by (simp add: u adminWrite_def)
        with Some ordered big e(2,3) show ?thesis by (subst if_not_P [OF False]) (simp add: Let_def)
      qed
    qed
  qed
qed

definition demo_admin :: AdminContext where
  "demo_admin = \<lparr>ax_venueId = ''v'', ax_actor = ''owner'', ax_traceId = ''t''\<rparr>"

definition close_a :: "bool \<Rightarrow> UpdateUnitInput" where
  "close_a force = \<lparr>uu_unitId = ''a'', uu_label = None, uu_capacityMin = None, uu_capacityMax = None, uu_layout = None, uu_active = Some False,
     uu_force = \<lparr>fo_force = force, fo_cancelReason = None\<rparr>\<rparr>"

lemma held_db_unit: "find_unit held_db ''a'' ''v'' = Some (demo_unit ''a'')"
  by (simp add: find_unit_def held_db_def demo_db_def demo_unit_def)

lemma held_db_strands:
  "stranded_by (admin_session demo_admin 9) ''v'' (unit_change_strands demo_admin (close_a b) (demo_unit ''a'') (admin_session demo_admin 9) held_db) held_db = [demo_reservation]"
  by (simp add: stranded_by_def held_db_def demo_db_def demo_reservation_def live_def effective_status_def unit_change_strands_def unit_strands_def Let_def
      updated_unit_def close_a_def or_else_def demo_unit_def visible_def admin_session_def setContext_def demo_admin_def)

theorem updateUnit_exact_witness:
  "(\<exists>m. updateUnit 9 demo_admin (close_a False) held_db = Inr (Admin_refused Assignment_in_use m [''r1''], held_db))
   \<and> (\<exists>v d'. updateUnit 9 demo_admin (close_a True) held_db = Inr (Admin_ok v [''r1''], d') \<and> uv_active v = False
        \<and> map r_status (reservations d') = [Cancelled])"
proof -
  have I: "inv 9 {} held_db" by (rule inv_mono [OF _ held_db_inv]) simp
  have a: "ax_actor demo_admin \<noteq> []" "ax_venueId demo_admin = ''v''" "fo_cancelReason (uu_force (close_a b)) \<noteq> Some []" "uu_unitId (close_a b) = ''a''"
    "uu_layout (close_a b) = None" "fo_force (uu_force (close_a b)) = b" for b
    by (simp_all add: demo_admin_def close_a_def)
  have n: "u_active (demo_unit ''a'')" "\<not> u_active (updated_unit (close_a b) (demo_unit ''a''))"
    "u_capacity_min (updated_unit (close_a b) (demo_unit ''a'')) = 2" "u_capacity_max (updated_unit (close_a b) (demo_unit ''a'')) = 4" for b
    by (simp_all add: updated_unit_def close_a_def or_else_def demo_unit_def)
  have s: "settles Assignment_in_use (uu_force (close_a b)) 9 [demo_reservation] held_db (unitView (updated_unit (close_a b) (demo_unit ''a'')))
      (\<lambda>d'. find_unit d' ''a'' ''v'' = Some (updated_unit (close_a b) (demo_unit ''a''))) (updateUnit 9 demo_admin (close_a b) held_db)" for b
    using updateUnit_exact [OF I held_db_ready(1) a(1,3), of b] by (simp add: a n held_db_unit held_db_strands Let_def int4_max_def)
  have t: "started_of 9 [demo_reservation] = []" "r_id demo_reservation = ''r1''" "reservations held_db = [demo_reservation]"
    by (simp_all add: started_of_def demo_reservation_def demo_during_def held_db_def demo_db_def BOUNDS_forceCancellations_def)
  show ?thesis
    using s [of False] s [of True] by (auto simp: settles_def a(6) t BOUNDS_forceCancellations_def unitView_def n(2) cancelled_row_def)
qed

text \<open>
  \<open>updateCombo\<close> answers a combination that is not the venue's as absent, and otherwise settles the live reservations
  assigned to it when the change deactivates it (see \<open>updateUnit\<close>); any other change strands none.
\<close>

theorem updateCombo_exact:
  assumes "inv now {} d" and "deferred d = []" and "ax_actor ctx \<noteq> []" and "fo_cancelReason (uc_force i) \<noteq> Some []"
  shows "case find_combo d (uc_comboId i) (ax_venueId ctx) of
      None \<Rightarrow> updateCombo now ctx i d = Inl (dastar_error Not_found ''combination not found'')
    | Some cur \<Rightarrow> settles Assignment_in_use (uc_force i) now
        (if c_active cur \<and> uc_active i = Some False
         then stranded_by (admin_session ctx now) (ax_venueId ctx) (\<lambda>r. r_assignment r = \<lparr>a_kind = Combo, a_id = uc_comboId i\<rparr>) d else []) d
        (comboView (updated_combo i cur)) (\<lambda>d'. True) (updateCombo now ctx i d)"
proof (cases "find_combo d (uc_comboId i) (ax_venueId ctx)")
  case None
  then have "updateCombo_tx ctx i (admin_session ctx now) d = Inl (not_found ''combination'')" by (simp add: updateCombo_tx_def tbind_def tx_eqs)
  with None show ?thesis by (simp add: updateCombo_def not_found_def adminWrite_throws)
next
  case (Some cur)
  have a: "c_active cur \<and> \<not> c_active (updated_combo i cur) \<longleftrightarrow> c_active cur \<and> uc_active i = Some False"
    by (cases "uc_active i") (auto simp: updated_combo_def or_else_def)
  have "combo_change.stranded ctx i cur (admin_session ctx now) d = (if c_active cur \<and> uc_active i = Some False
      then stranded_by (admin_session ctx now) (ax_venueId ctx) (\<lambda>r. r_assignment r = \<lparr>a_kind = Combo, a_id = uc_comboId i\<rparr>) d else [])"
    using a by (auto simp: stranded_by_def combo_change_strands_def)
  with updateCombo_settles [OF assms Some] Some show ?thesis by (simp add: updateCombo_def)
qed

theorem updateCombo_exact_witness:
  "\<exists>v d'. updateCombo 9 demo_admin \<lparr>uc_comboId = ''k'', uc_label = Some ''big'', uc_active = Some False, uc_force = \<lparr>fo_force = False, fo_cancelReason = None\<rparr>\<rparr> held_db
     = Inr (Admin_ok v [], d') \<and> cv_label v = ''big'' \<and> \<not> cv_active v \<and> reservations d' = [demo_reservation]"
proof -
  have I: "inv 9 {} held_db" by (rule inv_mono [OF _ held_db_inv]) simp
  let ?i = "\<lparr>uc_comboId = ''k'', uc_label = Some ''big'', uc_active = Some False, uc_force = \<lparr>fo_force = False, fo_cancelReason = None\<rparr>\<rparr>"
  have a: "ax_actor demo_admin \<noteq> []" "ax_venueId demo_admin = ''v''" "fo_cancelReason (uc_force ?i) \<noteq> Some []" by (simp_all add: demo_admin_def)
  have f: "find_combo held_db ''k'' ''v'' = Some demo_combo" by (simp add: find_combo_def held_db_def demo_db_def demo_combo_def)
  have s: "stranded_by (admin_session demo_admin 9) ''v'' (\<lambda>r. r_assignment r = \<lparr>a_kind = Combo, a_id = ''k''\<rparr>) held_db = []"
    by (simp add: stranded_by_def held_db_def demo_db_def demo_reservation_def on_a_def)
  have r: "reservations held_db = [demo_reservation]" by (simp add: held_db_def)
  from updateCombo_exact [OF I held_db_ready(1) a(1,3)] show ?thesis
    by (auto simp: a f s r settles_def comboView_def updated_combo_def or_else_def)
qed

section \<open>Blackouts\<close>

lemma instant_of_refuses: "instant_of name v = Inl e \<Longrightarrow> code e = Invalid_input"
  by (auto simp: instant_of_def Let_def invalid_input_def dastar_error_def split: option.splits jval.splits if_splits prod.splits)

lemma checkRange_cases:
  "(case checkRange a b of Inl e \<Rightarrow> code e = Invalid_input | Inr (s, t) \<Rightarrow> s < t)"
  by (auto simp: checkRange_def invalid_input_def dastar_error_def rbind_eq_Inl rbind_eq_Inr dest: instant_of_refuses split: sum.split if_splits)

lemma checkReason_refuses: "checkReason v = Inl e \<Longrightarrow> code e = Invalid_input"
  by (auto simp: checkReason_def invalid_input_def dastar_error_def split: option.splits jval.splits if_splits)

lemma checkActive_refuses: "optional_check checkActive v = Inl e \<Longrightarrow> code e = Invalid_input"
  by (auto simp: optional_check_def checkActive_def rbind_eq_Inl invalid_input_def dastar_error_def split: option.splits jval.splits if_splits)

lemma new_strands:
  "blackout_new.stranded (blackout_row newId ctx during reason active) cx d = (if active then stranded_by cx (ax_venueId ctx) (occupies cx d during) d else [])"
  by (auto simp: stranded_by_def insert_strands_def blackout_row_def)

text \<open>
  \<open>createBlackout\<close> refuses a range, a reason or an activity that is malformed as \<open>invalid_input\<close>; otherwise an active
  blackout settles the live reservations with an active unit row over its range (see \<open>updateUnit\<close>), an inactive one
  strands none, and the row is written.
\<close>

theorem createBlackout_exact:
  assumes "inv now {} d" and "deferred d = []" and "ax_actor ctx \<noteq> []" and "fo_cancelReason (ib_force i) \<noteq> Some []"
    and "newId \<notin> b_id ` set (blackouts d)" and "find_venue d (ax_venueId ctx) \<noteq> None"
  shows "case (checkRange (ib_startsAt i) (ib_endsAt i), checkReason (ib_reason i), optional_check checkActive (ib_active i)) of
      (Inr (s, t), Inr reason, Inr active) \<Rightarrow> s < t \<and> (length reason \<in> {1..500} \<longrightarrow>
        settles Blackout_conflict (ib_force i) now
          (if active = Some False then [] else stranded_by (admin_session ctx now) (ax_venueId ctx) (occupies (admin_session ctx now) d (s, t)) d) d
          \<lparr>bv_id = newId, bv_startsAt = toISOString s, bv_endsAt = toISOString t, bv_reason = reason, bv_active = (active \<noteq> Some False)\<rparr>
          (\<lambda>d'. \<lparr>b_id = newId, b_venue = ax_venueId ctx, b_during = (s, t), b_reason = reason, b_active = (active \<noteq> Some False)\<rparr> \<in> set (blackouts d'))
          (createBlackout newId now ctx i d))
    | _ \<Rightarrow> \<exists>e. createBlackout newId now ctx i d = Inl e \<and> code e = Invalid_input"
proof (cases "checkRange (ib_startsAt i) (ib_endsAt i)")
  case (Inl e)
  then show ?thesis using checkRange_cases [of "ib_startsAt i" "ib_endsAt i"] by (auto simp: createBlackout_def)
next
  case (Inr during)
  then obtain s t where r: "checkRange (ib_startsAt i) (ib_endsAt i) = Inr (s, t)" "s < t"
    using checkRange_cases [of "ib_startsAt i" "ib_endsAt i"] by (cases during) auto
  show ?thesis
  proof (cases "checkReason (ib_reason i)")
    case (Inl e)
    with r checkReason_refuses [OF Inl] show ?thesis by (auto simp: createBlackout_def)
  next
    case reason: (Inr reason)
    show ?thesis
    proof (cases "optional_check checkActive (ib_active i)")
      case (Inl e)
      with r reason checkActive_refuses [OF Inl] show ?thesis by (auto simp: createBlackout_def)
    next
      case (Inr active)
      have a: "or_else active True = (active \<noteq> Some False)" by (cases active) (auto simp: or_else_def)
      have cb: "createBlackout newId now ctx i d = adminWrite now ctx (createBlackout_tx newId ctx (s, t) reason (active \<noteq> Some False) (ib_force i)) d"
        by (simp add: createBlackout_def r reason Inr a)
      have "check_blackout (blackout_row newId ctx (s, t) reason (active \<noteq> Some False)) = Inr ()" if "length reason \<in> {1..500}"
        using that r(2) by (simp add: check_blackout_def blackout_row_def rbind_throw_if throw_if_def range_empty_def)
      from createBlackout_settles [OF assms(1-4) this assms(5,6)] have "length reason \<in> {1..500} \<longrightarrow>
        settles Blackout_conflict (ib_force i) now (blackout_new.stranded (blackout_row newId ctx (s, t) reason (active \<noteq> Some False)) (admin_session ctx now) d) d
          (blackoutView (blackout_row newId ctx (s, t) reason (active \<noteq> Some False)))
          (\<lambda>d'. blackout_row newId ctx (s, t) reason (active \<noteq> Some False) \<in> set (blackouts d')) (createBlackout newId now ctx i d)"
        by (simp only: cb) blast
      moreover have "(if active \<noteq> Some False then x else y) = (if active = Some False then y else x)" for x y :: "ReservationRow list" by simp
      ultimately show ?thesis
        unfolding r reason Inr prod.case sum.case new_strands using r(2)
        by (simp only: blackoutView_def blackout_row_def BlackoutRow.select_convs fst_conv snd_conv simp_thms)
    qed
  qed
qed

definition demo_blackout :: "string \<Rightarrow> CreateBlackoutInput" where
  "demo_blackout reason = \<lparr>ib_startsAt = Some (VStr ''2030-01-01T17:00:00Z''), ib_endsAt = Some (VStr ''2030-01-01T19:00:00Z''), ib_reason = Some (VStr reason),
     ib_active = None, ib_force = \<lparr>fo_force = False, fo_cancelReason = None\<rparr>\<rparr>"

lemma demo_blackout_range: "checkRange (Some (VStr ''2030-01-01T17:00:00Z'')) (Some (VStr ''2030-01-01T19:00:00Z'')) = Inr (1893517200000, 1893524400000)"
  by code_simp

theorem createBlackout_exact_witness:
  "\<exists>m. createBlackout ''b1'' 9 demo_admin (demo_blackout ''flood'') held_db = Inr (Admin_refused Blackout_conflict m [''r1''], held_db)"
proof -
  have I: "inv 9 {} held_db" by (rule inv_mono [OF _ held_db_inv]) simp
  have a: "ax_actor demo_admin \<noteq> []" "ax_venueId demo_admin = ''v''" "fo_cancelReason (ib_force (demo_blackout b)) \<noteq> Some []"
    "\<not> fo_force (ib_force (demo_blackout b))" "''b1'' \<notin> b_id ` set (blackouts held_db)" for b
    by (simp_all add: demo_admin_def demo_blackout_def held_db_def demo_db_def)
  have v: "find_venue held_db ''v'' \<noteq> None" by (simp add: find_venue_def held_db_def demo_db_def demo_venue_def)
  have i: "ib_startsAt (demo_blackout b) = Some (VStr ''2030-01-01T17:00:00Z'')" "ib_endsAt (demo_blackout b) = Some (VStr ''2030-01-01T19:00:00Z'')"
    "ib_active (demo_blackout b) = None" "ib_reason (demo_blackout b) = Some (VStr b)" for b by (simp_all add: demo_blackout_def)
  have c: "checkReason (Some (VStr ''flood'')) = Inr ''flood''" "optional_check checkActive None = Inr None"
    by (simp_all add: checkReason_def optional_check_def)
  have s: "stranded_by (admin_session demo_admin 9) ''v'' (occupies (admin_session demo_admin 9) held_db (1893517200000, 1893524400000)) held_db = [demo_reservation]"
    by (simp add: stranded_by_def held_db_def demo_db_def demo_reservation_def live_def effective_status_def occupies_def occupancy_def overlaps_def range_empty_def
        demo_during_def visible_def admin_session_def setContext_def demo_admin_def)
  have r: "r_id demo_reservation = ''r1''" by (simp add: demo_reservation_def)
  from createBlackout_exact [OF I held_db_ready(1) a(1,3,5) v [folded a(2)], of "''flood''"] show ?thesis
    by (simp add: i c demo_blackout_range a s settles_def r BOUNDS_forceCancellations_def)
qed

section \<open>Times of day\<close>

lemma digit_of: "is_digit c \<Longrightarrow> \<exists>k<10. c = digit_char k"
proof -
  assume c: "is_digit c"
  then have "48 \<le> (of_char c :: nat)" "(of_char c :: nat) \<le> 57" by (simp_all add: is_digit_def Let_def)
  then have "of_char c - 48 < (10::nat)" "48 + (of_char c - 48) mod 10 = (of_char c :: nat)" by simp_all
  then show ?thesis by (intro exI [of _ "of_char c - 48"]) (simp add: digit_char_def)
qed

lemma digit_set: "c \<in> set ''012345'' \<Longrightarrow> \<exists>k<6. c = digit_char k" "c \<in> set ''0123'' \<Longrightarrow> \<exists>k<4. c = digit_char k"
  "c \<in> set ''01'' \<Longrightarrow> \<exists>k<2. c = digit_char k" "CHR ''2'' = digit_char 2"
proof -
  have d: "digit_char 0 = CHR ''0''" "digit_char 1 = CHR ''1''" "digit_char 2 = CHR ''2''" "digit_char 3 = CHR ''3''" "digit_char 4 = CHR ''4''" "digit_char 5 = CHR ''5''"
    by code_simp+
  show "CHR ''2'' = digit_char 2" by (simp add: d)
  have "set ''012345'' = set (map digit_char [0, 1, 2, 3, 4, 5])" "set ''0123'' = set (map digit_char [0, 1, 2, 3])" "set ''01'' = set (map digit_char [0, 1])"
    by (simp_all only: list.map d)
  note e = this
  have m: "\<exists>k<n. c = digit_char k" if "c \<in> set (map digit_char xs)" "\<forall>x\<in>set xs. x < n" for xs n using that by auto
  show "c \<in> set ''012345'' \<Longrightarrow> \<exists>k<6. c = digit_char k" unfolding e by (erule m) simp
  show "c \<in> set ''0123'' \<Longrightarrow> \<exists>k<4. c = digit_char k" unfolding e by (erule m) simp
  show "c \<in> set ''01'' \<Longrightarrow> \<exists>k<2. c = digit_char k" unfolding e by (erule m) simp
qed

lemma show_digits: "a < 10 \<Longrightarrow> b < 10 \<Longrightarrow> pad 2 (int (10 * a + b)) = [digit_char a, digit_char b]"
proof -
  assume ab: "a < 10" "b < 10"
  have z: "digit_char 0 = CHR ''0''" by code_simp
  show ?thesis
  proof (cases "a = 0")
    case True
    have "show_nat b = [digit_char b]" using ab by (subst show_nat.simps) simp
    with True show ?thesis by (simp add: pad_def Let_def z)
  next
    case False
    have l: "show_nat a = [digit_char a]" using ab by (subst show_nat.simps) simp
    have "(10 * a + b) div 10 = a" "digit_char (10 * a + b) = digit_char b" using ab by (simp_all add: digit_char_def)
    with False l have "show_nat (10 * a + b) = [digit_char a, digit_char b]" by (subst show_nat.simps) simp
    then show ?thesis unfolding pad_def Let_def nat_int by simp
  qed
qed

text \<open>A text of the pattern is two digits of hours, a colon and two of minutes.\<close>

lemma TIME_digits:
  assumes "TIME s"
  obtains a b c d where "a < 10" "b < 10" "c < 6" "d < 10" "10 * a + b < 24" "s = [digit_char a, digit_char b, CHR '':'', digit_char c, digit_char d]"
    "minutes_of s = int (60 * (10 * a + b) + (10 * c + d))"
proof -
  from assms obtain x y z u v where s: "s = [x, y, z, u, v]" "z = CHR '':''" "u \<in> set ''012345''" "is_digit v"
    and h: "x \<in> set ''01'' \<and> is_digit y \<or> x = CHR ''2'' \<and> y \<in> set ''0123''" by (auto simp: TIME_def split: list.splits)
  have "\<exists>a<10. \<exists>b<10. 10 * a + b < 24 \<and> x = digit_char a \<and> y = digit_char b" using h
  proof
    assume "x \<in> set ''01'' \<and> is_digit y"
    then obtain a b where "a < 2" "x = digit_char a" "b < 10" "y = digit_char b" using digit_set(3) digit_of by blast
    then show ?thesis by (intro exI [of _ a] conjI exI [of _ b]) auto
  next
    assume "x = CHR ''2'' \<and> y \<in> set ''0123''"
    then obtain b where "b < 4" "y = digit_char b" "x = digit_char 2" using digit_set(2,4) by blast
    then show ?thesis by (intro exI [of _ 2] conjI exI [of _ b]) auto
  qed
  then obtain a b where ab: "a < 10" "b < 10" "10 * a + b < 24" "x = digit_char a" "y = digit_char b" by blast
  obtain c where c: "c < 6" "u = digit_char c" using digit_set(1) s(3) by blast
  obtain d where d: "d < 10" "v = digit_char d" using digit_of s(4) by blast
  have "minutes_of s = int (60 * (10 * a + b) + (10 * c + d))" using ab c d by (simp add: s minutes_of_def two_digits_def)
  with that ab c d s show thesis by blast
qed

lemma TIME_roundtrip: "TIME s \<Longrightarrow> time_text (minutes_of s) = s"
proof -
  assume "TIME s"
  then obtain a b c d where k: "a < 10" "b < 10" "c < 6" "d < 10" "s = [digit_char a, digit_char b, CHR '':'', digit_char c, digit_char d]"
    and m: "minutes_of s = int (60 * (10 * a + b) + (10 * c + d))" by (rule TIME_digits)
  have dm: "int (60 * h + n) div 60 = int h" "int (60 * h + n) mod 60 = int n" if "n < 60" for h n :: nat using that by simp_all
  have "10 * c + d < 60" using k(3,4) by simp
  note dm [OF this, of "10 * a + b"]
  then show ?thesis unfolding time_text_def m using k show_digits by simp
qed

lemma TIME_range: "TIME s \<Longrightarrow> 0 \<le> minutes_of s \<and> minutes_of s < 1440"
  by (erule TIME_digits) simp

lemma minutes_inj: "TIME s \<Longrightarrow> TIME t \<Longrightarrow> minutes_of s = minutes_of t \<Longrightarrow> s = t"
  using TIME_roundtrip by metis

lemma checkTime_Inr: "checkTime name v = Inr m \<longleftrightarrow> (\<exists>s. v = Some (VStr s) \<and> TIME s \<and> m = minutes_of s)"
  by (auto simp: checkTime_def split: option.splits jval.splits)

lemma checkDay_Inr: "checkDay v = Inr k \<Longrightarrow> k \<in> {1..7} \<and> as_int v = k"
  by (auto simp: checkDay_def as_int_def split: option.splits jval.splits if_splits)

lemma check_schedule_iff:
  "check_schedule s = Inr () \<longleftrightarrow> duration_by_size_shape (s_duration_by_size s) \<and> s_closes_next_day s = (s_closes s \<le> s_opens s)
     \<and> s_day_of_week s \<in> {1..7} \<and> s_gap_minutes s \<in> {0..720}"
  by (auto simp: check_schedule_def rbind_throw_if throw_if_def)

definition keep_schedule :: ScheduleInput where
  "keep_schedule = \<lparr>is_dayOfWeek = None, is_opens = None, is_closes = None, is_durationBySize = None, is_gapMinutes = None, is_active = None\<rparr>"

lemma find_appended: "s_id s \<notin> s_id ` set (schedules d) \<Longrightarrow> find_schedule (d\<lparr>schedules := schedules d @ [s]\<rparr>) (s_id s) (s_venue s) = Some s"
proof -
  assume f: "s_id s \<notin> s_id ` set (schedules d)"
  have "s_id s \<notin> s_id ` set xs \<Longrightarrow> find (\<lambda>x. s_id x = s_id s \<and> s_venue x = s_venue s) (xs @ [s]) = Some s" for xs by (induction xs) auto
  with f show ?thesis by (simp add: find_schedule_def)
qed

text \<open>
  C30: a service period comes back as it was given. When \<open>createSchedule\<close> returns a view, its opening and closing times are
  the texts of the input, it closes the next day exactly when it closes at or before it opens, its durations and gap are
  within bounds, the venue's list shows it, and an update that names no field returns it unchanged.
\<close>

theorem createSchedule_roundtrip:
  assumes "createSchedule newId now ctx i d = Inr (v, d')" and "deferred d = []"
  shows "is_opens i = Some (VStr (sv_opens v)) \<and> is_closes i = Some (VStr (sv_closes v)) \<and> sv_id v = newId
     \<and> sv_closesNextDay v = (minutes_of (sv_closes v) \<le> minutes_of (sv_opens v))
     \<and> sv_dayOfWeek v = as_int (is_dayOfWeek i) \<and> sv_dayOfWeek v \<in> {1..7} \<and> sv_gapMinutes v \<in> {0..720}
     \<and> duration_by_size_shape (sv_durationBySize v)
     \<and> v \<in> set (listSchedules (ax_venueId ctx) now d') \<and> (\<exists>e. updateSchedule now ctx newId keep_schedule d' = Inr (v, e))"
proof -
  from assms(1) obtain day opens closes durations gap active where
    c: "checkDay (is_dayOfWeek i) = Inr day" "checkTime ''opens'' (is_opens i) = Inr opens" "checkTime ''closes'' (is_closes i) = Inr closes"
    and tx: "adminTx now ctx (\<lambda>cx. tbind (insert_schedule \<lparr>s_id = newId, s_venue = ax_venueId ctx, s_day_of_week = day, s_opens = opens, s_closes = closes,
         s_closes_next_day = (closes \<le> opens), s_duration_by_size = durations, s_gap_minutes = or_else gap 0, s_active = or_else active True\<rparr>) (\<lambda>r.
       tret (scheduleView r))) d = Inr (v, d')"
    by (auto simp: createSchedule_def rbind_eq_Inr)
  define s where "s = \<lparr>s_id = newId, s_venue = ax_venueId ctx, s_day_of_week = day, s_opens = opens, s_closes = closes,
         s_closes_next_day = (closes \<le> opens), s_duration_by_size = durations, s_gap_minutes = or_else gap 0, s_active = or_else active True\<rparr>"
  define e where "e = d\<lparr>schedules := schedules d @ [s]\<rparr>"
  from tx [folded s_def] have ins: "check_schedule s = Inr ()" "s_id s \<notin> s_id ` set (schedules d)" "v = scheduleView s"
    and d': "d' = (trg_config_version (s_venue s) e)\<lparr>deferred := []\<rparr>"
    by (auto simp: adminTx_def in_transaction_Inr tbind_Inr tthen_Inr tx_eqs insert_schedule_def rbind_eq_Inr e_def dest!: commit_clears)
  obtain o' c' where t: "is_opens i = Some (VStr o')" "TIME o'" "opens = minutes_of o'" "is_closes i = Some (VStr c')" "TIME c'" "closes = minutes_of c'"
    using c by (auto simp: checkTime_Inr)
  have v: "sv_opens v = o'" "sv_closes v = c'" using t TIME_roundtrip by (simp_all add: ins(3) scheduleView_def s_def)
  have s': "s \<in> set (schedules d')" by (simp add: d' e_def trg_config_version_sel)
  have l: "v \<in> set (listSchedules (ax_venueId ctx) now d')"
    using s' by (auto simp: listSchedules_def adminRead_def ins(3) visible_def bindVenue_def s_def)
  have "find_schedule d' newId (ax_venueId ctx) = Some s"
    using find_appended [OF ins(2)] by (simp add: find_schedule_def d' e_def trg_config_version_sel s_def)
  moreover have up: "updated_schedule None None None None None None s = s" using ins(1) by (simp add: updated_schedule_def or_else_def check_schedule_iff)
  ultimately have us: "update_schedule newId (ax_venueId ctx) (updated_schedule None None None None None None) d'
      = Inr (Some s, trg_config_version (ax_venueId ctx) (d'\<lparr>schedules := map (\<lambda>x. if s_id x = newId then s else x) (schedules d')\<rparr>))"
    using ins(1) by (simp add: update_schedule_def Let_def)
  have "\<exists>e. updateSchedule now ctx newId keep_schedule d' = Inr (v, e)"
    using us by (simp add: updateSchedule_def keep_schedule_def optional_check_def adminTx_def in_transaction_def tbind_def tthen_def tx_eqs commit_def ins(3)
        trg_config_version_sel d')
  with l t v c(1) ins(1) show ?thesis
    by (auto simp: check_schedule_iff ins(3) scheduleView_def s_def dest!: checkDay_Inr)
qed

definition demo_schedule :: ScheduleInput where
  "demo_schedule = \<lparr>is_dayOfWeek = Some (VInt 5), is_opens = Some (VStr ''18:00''), is_closes = Some (VStr ''02:00''),
     is_durationBySize = Some (VObj [(''4'', VInt 90)]), is_gapMinutes = None, is_active = None\<rparr>"

theorem createSchedule_roundtrip_witness:
  "\<exists>v d'. createSchedule ''s1'' 9 demo_admin demo_schedule held_db = Inr (v, d') \<and> sv_opens v = ''18:00'' \<and> sv_closes v = ''02:00''
     \<and> v \<in> set (listSchedules ''v'' 9 d')"
proof -
  have "\<exists>v d'. createSchedule ''s1'' 9 demo_admin demo_schedule held_db = Inr (v, d')"
  proof -
    have "(case createSchedule ''s1'' 9 demo_admin demo_schedule held_db of Inl _ \<Rightarrow> False | Inr _ \<Rightarrow> True)" by code_simp
    then show ?thesis by (auto split: sum.splits)
  qed
  then obtain v d' where c: "createSchedule ''s1'' 9 demo_admin demo_schedule held_db = Inr (v, d')" by blast
  from createSchedule_roundtrip [OF c held_db_ready(1)] c show ?thesis by (auto simp: demo_schedule_def demo_admin_def)
qed

end
