(* ===== verification/ApiProblem.thy ===== *)
theory ApiProblem
  imports ApiSchemas DbErrors
begin

text \<open>
  The failures the API renders, \<open>apps/api/src/problem.ts\<close>: the status of every error code, the text that
  replaces the database's own sentence, and the body of a problem.
\<close>

datatype ApiCode = Engine DastarErrorCode | Validation | Unauthorized | Not_ready

definition api_code_text :: "ApiCode \<Rightarrow> string" where
  "api_code_text c = (case c of Engine e \<Rightarrow> code_text e | Validation \<Rightarrow> ''validation'' | Unauthorized \<Rightarrow> ''unauthorized'' | Not_ready \<Rightarrow> ''not_ready'')"

text \<open>\<open>ApiProblem\<close>; a detail left out is the code.\<close>

record ApiProblem =
  ap_status :: nat
  ap_code :: ApiCode
  ap_message :: string
  ap_headers :: "(string \<times> string) list"
  ap_extensions :: "(string \<times> jval) list"

definition api_problem :: "nat \<Rightarrow> ApiCode \<Rightarrow> string option \<Rightarrow> (string \<times> string) list \<Rightarrow> (string \<times> jval) list \<Rightarrow> ApiProblem" where
  "api_problem status c dt headers extensions = \<lparr>ap_status = status, ap_code = c,
     ap_message = (case dt of None \<Rightarrow> api_code_text c | Some m \<Rightarrow> m), ap_headers = headers, ap_extensions = extensions\<rparr>"

text \<open>Status and \<open>retryAfter\<close>.\<close>

fun STATUS_BY_CODE :: "DastarErrorCode \<Rightarrow> nat \<times> string option" where
  "STATUS_BY_CODE Hold_conflict = (409, None)"
| "STATUS_BY_CODE Hold_expired = (409, None)"
| "STATUS_BY_CODE Invalid_transition = (409, None)"
| "STATUS_BY_CODE Version_conflict = (409, None)"
| "STATUS_BY_CODE Blackout = (409, None)"
| "STATUS_BY_CODE Token_requires_held = (409, None)"
| "STATUS_BY_CODE Capacity_conflict = (409, None)"
| "STATUS_BY_CODE Blackout_conflict = (409, None)"
| "STATUS_BY_CODE Assignment_in_use = (409, None)"
| "STATUS_BY_CODE Reservation_in_progress = (409, None)"
| "STATUS_BY_CODE Serialization_conflict = (409, Some ''0'')"
| "STATUS_BY_CODE Idempotency_mismatch = (422, None)"
| "STATUS_BY_CODE Party_does_not_fit = (422, None)"
| "STATUS_BY_CODE Duration_out_of_range = (422, None)"
| "STATUS_BY_CODE Combo_too_large = (422, None)"
| "STATUS_BY_CODE Range_mismatch = (422, None)"
| "STATUS_BY_CODE Assignment_inactive = (422, None)"
| "STATUS_BY_CODE Assignment_mismatch = (422, None)"
| "STATUS_BY_CODE Window_too_large = (422, None)"
| "STATUS_BY_CODE Outside_schedule = (422, None)"
| "STATUS_BY_CODE Force_too_large = (422, None)"
| "STATUS_BY_CODE Invalid_timezone = (422, None)"
| "STATUS_BY_CODE Invalid_input = (422, None)"
| "STATUS_BY_CODE Forbidden = (403, None)"
| "STATUS_BY_CODE Forbidden_write = (403, None)"
| "STATUS_BY_CODE Not_found = (404, None)"
| "STATUS_BY_CODE Too_many_live_holds = (429, Some ''1'')"
| "STATUS_BY_CODE Overlap_set_too_large = (503, Some ''1'')"
| "STATUS_BY_CODE Pool_timeout = (503, Some ''1'')"
| "STATUS_BY_CODE Timeout = (503, Some ''1'')"
| "STATUS_BY_CODE Internal = (500, None)"
| "STATUS_BY_CODE Idempotency_replay = (500, None)"
| "STATUS_BY_CODE Audit_immutable = (500, None)"
| "STATUS_BY_CODE Unit_rows_immutable = (500, None)"
| "STATUS_BY_CODE Actor_required = (500, None)"
| "STATUS_BY_CODE Combo_immutable = (500, None)"
| "STATUS_BY_CODE Venue_scope_violation = (500, None)"

definition DETAIL_BY_CODE :: "DastarErrorCode \<Rightarrow> string option" where
  "DETAIL_BY_CODE c = map_of [
     (Hold_conflict, ''the assignment is already taken for an overlapping time range''),
     (Forbidden_write, ''the operation is not permitted''),
     (Venue_scope_violation, ''the operation reached outside its venue''),
     (Serialization_conflict, ''the operation conflicted with a concurrent one; retry''),
     (Timeout, ''the operation timed out; retry''),
     (Pool_timeout, ''the service is busy; retry''),
     (Overlap_set_too_large, ''too many overlapping reservations to examine; retry''),
     (Duration_out_of_range, ''the duration must be between 5 minutes and 12 hours''),
     (Combo_too_large, ''a combination has between 2 and 6 units'')] c"

definition STORED_RULE_DETAIL :: string where
  "STORED_RULE_DETAIL = ''the input breaks a rule of the stored configuration''"

definition problemFor :: "DastarErrorCode \<Rightarrow> string option \<Rightarrow> (string \<times> jval) list \<Rightarrow> ApiProblem" where
  "problemFor c dt extensions = (case STATUS_BY_CODE c of (status, retryAfter) \<Rightarrow>
     api_problem status (Engine c) (case DETAIL_BY_CODE c of None \<Rightarrow> dt | Some t \<Rightarrow> Some t)
       (case retryAfter of None \<Rightarrow> [] | Some s \<Rightarrow> [(''Retry-After'', s)]) extensions)"

text \<open>What a handler or the framework throws: a problem, an engine error, an \<open>HTTPException\<close>, anything else.\<close>

datatype thrown = Problem ApiProblem | Dastar DastarError | Http nat string | Other string

definition fromUnknown :: "thrown \<Rightarrow> ApiProblem" where
  "fromUnknown e = (case e of
      Problem p \<Rightarrow> p
    | Dastar x \<Rightarrow> problemFor (code x) (Some (if code x = Invalid_input \<and> sqlstate x \<noteq> None then STORED_RULE_DETAIL else message x)) []
    | Http status m \<Rightarrow> if status < 500 then api_problem 400 Validation (Some m) [] [] else api_problem 500 (Engine Internal) None [] []
    | Other _ \<Rightarrow> api_problem 500 (Engine Internal) None [] [])"

text \<open>An object literal: a later field replaces an earlier one of the same name.\<close>

definition set_field :: "string \<times> jval \<Rightarrow> (string \<times> jval) list \<Rightarrow> (string \<times> jval) list" where
  "set_field f fs = (if fst f \<in> fst ` set fs then map (\<lambda>g. if fst g = fst f then f else g) fs else fs @ [f])"

definition title_of :: "string \<Rightarrow> string" where
  "title_of s = map (\<lambda>c. if c = CHR ''_'' then CHR '' '' else c) s"

definition problemBody :: "ApiProblem \<Rightarrow> string \<Rightarrow> jval" where
  "problemBody p traceId = VObj (fold set_field (ap_extensions p) ([
     (''type'', VStr (''https://dastar.dev/errors/'' @ api_code_text (ap_code p))),
     (''title'', VStr (title_of (api_code_text (ap_code p)))),
     (''status'', VInt (int (ap_status p))),
     (''code'', VStr (api_code_text (ap_code p)))]
     @ (if ap_status p = 500 then [] else [(''detail'', VStr (ap_message p))])
     @ [(''trace_id'', VStr traceId)]))"

section \<open>A problem is of its schema\<close>

lemma status_of_code: "fst (STATUS_BY_CODE c) \<in> {403, 404, 409, 422, 429, 500, 503}"
  by (cases c) simp_all

text \<open>The extensions the handlers give: whether a hold's refusal is a replay, and the stranded reservations.\<close>

definition extension_ok :: "(string \<times> jval) list \<Rightarrow> bool" where
  "extension_ok fs \<longleftrightarrow> fs = [] \<or> (\<exists>b. fs = [(''replayed'', VBool b)]) \<or> (\<exists>ids. fs = [(''stranded'', VArr (map VStr ids))])"

definition problem_ok :: "ApiProblem \<Rightarrow> bool" where
  "problem_ok p \<longleftrightarrow> ap_status p \<in> fst ` set problemResponses \<and> extension_ok (ap_extensions p)"

lemma problemFor_ok: "extension_ok fs \<Longrightarrow> problem_ok (problemFor c dt fs)"
  using status_of_code [of c] by (auto simp: problem_ok_def problemFor_def api_problem_def problemResponses_def split: prod.split)

lemma extension_ok_Nil [simp]: "extension_ok []"
  by (simp add: extension_ok_def)

lemma api_problem_ok: "status \<in> {400, 401, 403, 404, 409, 422, 429, 500, 503} \<Longrightarrow> extension_ok fs \<Longrightarrow> problem_ok (api_problem status c dt hs fs)"
  by (auto simp: problem_ok_def api_problem_def problemResponses_def)

lemma fromUnknown_ok: "(\<And>p. e = Problem p \<Longrightarrow> problem_ok p) \<Longrightarrow> problem_ok (fromUnknown e)"
  by (cases e) (simp_all add: fromUnknown_def problemFor_ok api_problem_ok)

lemma js_integer_int [simp]: "js_integer (Dec n 0) = Some n"
  by (simp add: js_integer_def)

lemma problemBody_ok: "problem_ok p \<Longrightarrow> output_ok ProblemSchema (problemBody p t)"
  by (auto simp: problem_ok_def extension_ok_def problemBody_def ProblemSchema_def set_field_def in_bounds_def list_all_iff)

section \<open>The database's sentences stay inside\<close>

definition row_level :: "pg_error \<Rightarrow> bool" where
  "row_level pe \<longleftrightarrow> (case pe_message pe of None \<Rightarrow> False | Some m \<Rightarrow> includes_text m ''row-level security'')"

text \<open>What a client sees of a problem.\<close>

definition shown :: "ApiProblem \<Rightarrow> string \<Rightarrow> nat \<times> (string \<times> string) list \<times> jval" where
  "shown p t = (ap_status p, ap_headers p, problemBody p t)"

lemma shown_problemFor:
  "shown (problemFor c (Some m) []) t = shown (problemFor c (Some m') []) t
    \<longleftrightarrow> m = m' \<or> DETAIL_BY_CODE c \<noteq> None \<or> fst (STATUS_BY_CODE c) = 500"
  by (auto simp: shown_def problemFor_def api_problem_def problemBody_def split: prod.split option.split)

lemma hidden_code: "map_of BY_SQLSTATE s = Some c \<Longrightarrow> \<not> prefix ''DA'' s \<Longrightarrow> DETAIL_BY_CODE c \<noteq> None"
  by (auto simp: BY_SQLSTATE_def DETAIL_BY_CODE_def split: if_splits)

text \<open>The code of the mapped error, and which text the answer shows for it.\<close>

lemma mapped_code:
  assumes "row_level pe = row_level (pe\<lparr>pe_message := m, pe_detail := dt\<rparr>)"
  shows "map_option (\<lambda>x. (code x, sqlstate x)) (map_pg pe) = map_option (\<lambda>x. (code x, sqlstate x)) (map_pg (pe\<lparr>pe_message := m, pe_detail := dt\<rparr>))"
proof -
  let ?q = "pe\<lparr>pe_message := m, pe_detail := dt\<rparr>"
  have q: "pe_code ?q = pe_code pe" "pe_constraint ?q = pe_constraint pe" by simp_all
  show ?thesis unfolding map_pg_def Let_def row_level_def [symmetric] q assms by (simp split: option.split)
qed

lemma mapped_hidden:
  assumes "map_pg pe = Some x" and "\<not> prefix ''DA'' (pe_code pe)"
  shows "code x = Invalid_input \<and> sqlstate x \<noteq> None \<or> code x = Not_found \<and> message x = ''venue not found'' \<or> DETAIL_BY_CODE (code x) \<noteq> None"
proof -
  define Q where "Q x \<longleftrightarrow> code x = Invalid_input \<and> sqlstate x \<noteq> None \<or> code x = Not_found \<and> message x = ''venue not found'' \<or> DETAIL_BY_CODE (code x) \<noteq> None" for x :: DastarError
  have d: "DETAIL_BY_CODE c \<noteq> None \<Longrightarrow> Q (mapped c m pe r)" "Q (mapped Invalid_input m pe r)" "Q (mapped Not_found ''venue not found'' pe r)" for c m r
    by (simp_all add: Q_def)
  have e: "DETAIL_BY_CODE Serialization_conflict \<noteq> None" "DETAIL_BY_CODE Timeout \<noteq> None" "DETAIL_BY_CODE Duration_out_of_range \<noteq> None"
    "DETAIL_BY_CODE Combo_too_large \<noteq> None" "DETAIL_BY_CODE Venue_scope_violation \<noteq> None" by (simp_all add: DETAIL_BY_CODE_def)
  have i: "(b \<Longrightarrow> pred_option Q x) \<Longrightarrow> (\<not> b \<Longrightarrow> pred_option Q y) \<Longrightarrow> pred_option Q (if b then x else y)" for b x y by simp
  have "pred_option Q (case map_of BY_SQLSTATE (pe_code pe) of None \<Rightarrow> None | Some c \<Rightarrow> Some (mapped c m pe False))" for m
    using hidden_code [OF _ assms(2)] by (auto simp: d split: option.split)
  then have "pred_option Q (map_pg pe)" unfolding map_pg_def Let_def by (intro i) (simp_all only: option.pred_inject d e simp_thms not_False_eq_True)
  with assms(1) show ?thesis by (simp add: Q_def)
qed

text \<open>The \<open>detail\<close> of a body, and the texts of the code itself a body may carry for a Postgres error.\<close>

definition detail_of :: "jval \<Rightarrow> jval option" where
  "detail_of b = (case b of VObj fs \<Rightarrow> map_of fs ''detail'' | _ \<Rightarrow> None)"

definition own_texts :: "string set" where
  "own_texts = {STORED_RULE_DETAIL, ''venue not found''} \<union> {m. \<exists>c. DETAIL_BY_CODE c = Some m}"

lemma detail_shown: "extension_ok (ap_extensions p) \<Longrightarrow> detail_of (problemBody p t) = (if ap_status p = 500 then None else Some (VStr (ap_message p)))"
  by (auto simp: detail_of_def problemBody_def extension_ok_def set_field_def)

lemma own_detail:
  assumes "\<not> prefix ''DA'' (pe_code pe)" and "map_pg pe = Some x"
  shows "ap_message (fromUnknown (Dastar x)) \<in> own_texts"
  using mapped_hidden [OF assms(2,1)] by (auto simp: fromUnknown_def problemFor_def api_problem_def own_texts_def split: prod.split option.split)

text \<open>
  C31: a client never sees a sentence of the database, and every answer to a throw is a declared one. Whatever is thrown, given
  that a problem a handler throws itself is one of the schema, the status is declared and a 500 carries no detail; a throw that is none
  of the code's own errors, or an \<open>HTTPException\<close> of status 500 or more, is answered the same whatever it says. For a Postgres error
  that is not one of the schema's own (class DA), status, headers and body do not depend on its message or its detail, beyond
  telling a row-level refusal from another, and a detail it shows is one of the code's own texts.
\<close>

theorem problem_hides_database:
  assumes "\<not> prefix ''DA'' (pe_code pe)" and "row_level pe = row_level (pe\<lparr>pe_message := m, pe_detail := dt\<rparr>)"
    and "\<And>p. e = Problem p \<Longrightarrow> problem_ok p"
  shows "ap_status (fromUnknown e) \<in> fst ` set problemResponses
    \<and> (ap_status (fromUnknown e) = 500 \<longrightarrow> detail_of (problemBody (fromUnknown e) t) = None)
    \<and> shown (fromUnknown (Other said)) t = shown (fromUnknown (Other other)) t
    \<and> (500 \<le> st \<longrightarrow> shown (fromUnknown (Http st said)) t = shown (fromUnknown (Other other)) t)
    \<and> shown (fromUnknown (Dastar (asDastarError (ExPg pe)))) t
       = shown (fromUnknown (Dastar (asDastarError (ExPg (pe\<lparr>pe_message := m, pe_detail := dt\<rparr>))))) t
    \<and> detail_of (problemBody (fromUnknown (Dastar (asDastarError (ExPg pe)))) t) \<in> insert None (Some ` VStr ` own_texts)"
proof (intro conjI impI)
  have ok: "problem_ok (fromUnknown e)" by (rule fromUnknown_ok) (rule assms(3))
  then show "ap_status (fromUnknown e) \<in> fst ` set problemResponses" by (simp add: problem_ok_def)
  show "detail_of (problemBody (fromUnknown e) t) = None" if "ap_status (fromUnknown e) = 500"
    using ok that by (simp add: problem_ok_def detail_shown)
  show "shown (fromUnknown (Other said)) t = shown (fromUnknown (Other other)) t" by (simp add: fromUnknown_def)
  show "shown (fromUnknown (Http st said)) t = shown (fromUnknown (Other other)) t" if "500 \<le> st" using that by (simp add: fromUnknown_def)
  have "extension_ok (ap_extensions (fromUnknown (Dastar (asDastarError (ExPg pe)))))"
    by (simp add: fromUnknown_def problemFor_def api_problem_def split: prod.split)
  then show "detail_of (problemBody (fromUnknown (Dastar (asDastarError (ExPg pe)))) t) \<in> insert None (Some ` VStr ` own_texts)"
    using own_detail [OF assms(1)]
    by (cases "map_pg pe") (auto simp: detail_shown asDastarError_def fromUnknown_def problemFor_def api_problem_def dastar_error_def)
  show "shown (fromUnknown (Dastar (asDastarError (ExPg pe)))) t
    = shown (fromUnknown (Dastar (asDastarError (ExPg (pe\<lparr>pe_message := m, pe_detail := dt\<rparr>))))) t"
  proof -
  let ?q = "pe\<lparr>pe_message := m, pe_detail := dt\<rparr>"
  have same: "shown (fromUnknown (Dastar x)) t = shown (fromUnknown (Dastar y)) t"
    if "code x = code y" "sqlstate x = sqlstate y"
      and "code x = Invalid_input \<and> sqlstate x \<noteq> None \<or> message x = message y \<or> DETAIL_BY_CODE (code x) \<noteq> None \<or> fst (STATUS_BY_CODE (code x)) = 500" for x y
    using that shown_problemFor by (auto simp: fromUnknown_def)
  show ?thesis
  proof (cases "map_pg pe")
    case None
    with mapped_code [OF assms(2)] have "map_pg ?q = None" by simp
    with None show ?thesis by (intro same) (simp_all add: asDastarError_def)
  next
    case (Some x)
    with mapped_code [OF assms(2)] obtain y where y: "map_pg ?q = Some y" "code x = code y" "sqlstate x = sqlstate y"
      by (cases "map_pg ?q") auto
    have "code y = Not_found \<Longrightarrow> DETAIL_BY_CODE (code y) = None" by (simp add: DETAIL_BY_CODE_def)
    with mapped_hidden [OF Some assms(1)] mapped_hidden [OF y(1)] assms(1) y(2,3)
    have "code x = Invalid_input \<and> sqlstate x \<noteq> None \<or> message x = message y \<or> DETAIL_BY_CODE (code x) \<noteq> None" by auto
    with Some y show ?thesis by (intro same) (auto simp: asDastarError_def)
  qed
  qed
qed

theorem problem_hides_database_witness:
  "\<exists>pe qe. pe = \<lparr>pe_code = ''23514'', pe_message = Some ''column x'', pe_detail = None, pe_constraint = Some ''unit_capacity_order''\<rparr>
     \<and> qe = \<lparr>pe_code = ''23514'', pe_message = None, pe_detail = Some ''secret'', pe_constraint = Some ''unit_capacity_order''\<rparr>
     \<and> shown (fromUnknown (Dastar (asDastarError (ExPg pe)))) ''t'' = shown (fromUnknown (Dastar (asDastarError (ExPg qe)))) ''t''
     \<and> detail_of (problemBody (fromUnknown (Other ''password'')) ''t'') = None"
proof -
  let ?pe = "\<lparr>pe_code = ''23514'', pe_message = Some ''column x'', pe_detail = None, pe_constraint = Some ''unit_capacity_order''\<rparr>"
  have "\<not> prefix ''DA'' (pe_code ?pe)" "row_level ?pe = row_level (?pe\<lparr>pe_message := None, pe_detail := Some ''secret''\<rparr>)"
    by (simp_all add: row_level_def)
  note h = problem_hides_database [OF this, of "Other ''password''" "''t''"]
  have "ap_status (fromUnknown (Other ''password'')) = 500" by (simp add: fromUnknown_def api_problem_def)
  with h show ?thesis by (intro exI [of _ ?pe] exI [of _ "?pe\<lparr>pe_message := None, pe_detail := Some ''secret''\<rparr>"]) simp
qed

end
