(* ===== verification/Handle.thy ===== *)
theory Handle
  imports DbErrors DbTables
begin

text \<open>
  How a command reaches a connection: \<open>run\<close> of \<open>packages/db/src/handle.ts\<close> and \<open>withClient\<close> of
  \<open>apps/api/src/db.ts\<close>. What timers, sockets and the server do is a parameter, the world of a call; the code is the
  decision it makes of it: what the caller gets, and whether the connection goes back to the pool.
\<close>

datatype acquire_result = Connected | No_connection | Connect_error string

datatype probe_result = Probe_ok | Probe_timeout | Probe_failed

text \<open>
  \<open>w_in_time\<close>: the work settles before the deadline; \<open>w_in_grace\<close>: else before the grace period ends.
  \<open>w_committed\<close>: work that never settles for the caller was committed all the same. \<open>w_lost\<close>: a connection
  error was recorded while the client was out.
\<close>

record call_world =
  w_acquire :: acquire_result
  w_in_time :: bool
  w_in_grace :: bool
  w_committed :: bool
  w_probe :: probe_result
  w_lost :: bool

datatype disposal = Never_out | Returned | Discarded

record DastarOptions =
  do_acquireTimeoutMs :: nat
  do_deadlineMs :: nat
  do_cancelGraceMs :: nat

definition default_options :: DastarOptions where
  "default_options = \<lparr>do_acquireTimeoutMs = 5000, do_deadlineMs = 12000, do_cancelGraceMs = 2000\<rparr>"

section \<open>acquire\<close>

text \<open>\<open>/timeout/i.test(message)\<close>.\<close>

definition mentions_timeout :: "string \<Rightarrow> bool" where
  "mentions_timeout m = includes_text (lower m) ''timeout''"

definition no_connection :: "nat \<Rightarrow> DastarError" where
  "no_connection ms = dastar_error_retryable Pool_timeout (''no pooled connection within '' @ show_nat ms @ ''ms'')"

definition acquire_error :: "nat \<Rightarrow> acquire_result \<Rightarrow> DastarError option" where
  "acquire_error ms r = (case r of
      Connected \<Rightarrow> None
    | No_connection \<Rightarrow> Some (no_connection ms)
    | Connect_error m \<Rightarrow> Some (if mentions_timeout m then dastar_error_retryable Pool_timeout m else dastar_error Internal m))"

section \<open>run\<close>

text \<open>\<open>finish\<close>: an error given, or one recorded, discards.\<close>

definition finish_client :: "bool \<Rightarrow> call_world \<Rightarrow> disposal" where
  "finish_client failed w = (if failed \<or> w_lost w then Discarded else Returned)"

definition settle :: "call_world \<Rightarrow> bool \<Rightarrow> disposal" where
  "settle w succeeded = (if succeeded then finish_client False w
     else case w_probe w of Probe_ok \<Rightarrow> finish_client False w | Probe_timeout \<Rightarrow> finish_client True w | Probe_failed \<Rightarrow> finish_client True w)"

definition timed_out :: "DastarOptions \<Rightarrow> DastarError" where
  "timed_out opts = dastar_error_retryable Timeout
     (''command exceeded '' @ show_nat (do_deadlineMs opts) @ ''ms and did not settle within '' @ show_nat (do_cancelGraceMs opts) @ ''ms'')"

definition answer :: "exn + 'a \<Rightarrow> DastarError + 'a" where
  "answer r = (case r of Inl e \<Rightarrow> Inl (asDastarError e) | Inr v \<Rightarrow> Inr v)"

definition succeeded :: "'e + 'a \<Rightarrow> bool" where
  "succeeded r = (case r of Inl _ \<Rightarrow> False | Inr _ \<Rightarrow> True)"

definition run :: "DastarOptions \<Rightarrow> call_world \<Rightarrow> exn + 'a \<Rightarrow> (DastarError + 'a) \<times> disposal" where
  "run opts w r = (case acquire_error (do_acquireTimeoutMs opts) (w_acquire w) of
      Some e \<Rightarrow> (Inl e, Never_out)
    | None \<Rightarrow> if w_in_time w then (answer r, settle w (succeeded r))
        else if w_in_grace w then (answer r, finish_client True w)
        else (Inl (timed_out opts), finish_client True w))"

text \<open>The database after the call: the work's, unless it never began or was cancelled.\<close>

definition run_tx :: "DastarOptions \<Rightarrow> call_world \<Rightarrow> 'a tx \<Rightarrow> db \<Rightarrow> (DastarError + 'a) \<times> db" where
  "run_tx opts w m d = (case acquire_error (do_acquireTimeoutMs opts) (w_acquire w) of
      Some e \<Rightarrow> (Inl e, d)
    | None \<Rightarrow> if w_in_time w \<or> w_in_grace w
        then (case m d of Inl e \<Rightarrow> (Inl (asDastarError e), d) | Inr (v, d') \<Rightarrow> (Inr v, d'))
        else (Inl (timed_out opts), if w_committed w then (case m d of Inl _ \<Rightarrow> d | Inr (_, d') \<Rightarrow> d') else d))"

text \<open>The cancel request on a client borrowed for it: whether the backend was cancelled, and the client.\<close>

definition cancel_fallback :: "call_world \<Rightarrow> exn + bool \<Rightarrow> bool \<times> disposal" where
  "cancel_fallback w r = (case w_acquire w of
      Connected \<Rightarrow> if \<not> w_in_time w then (False, finish_client True w)
        else (case r of Inl _ \<Rightarrow> (False, finish_client True w) | Inr ok \<Rightarrow> (ok, finish_client False w))
    | _ \<Rightarrow> (False, Never_out))"

section \<open>withClient\<close>

record ReadLimits =
  rl_acquireMs :: nat
  rl_readMs :: nat

definition withClient :: "ReadLimits \<Rightarrow> call_world \<Rightarrow> exn + 'a \<Rightarrow> (exn + 'a) \<times> disposal" where
  "withClient limits w r = (case w_acquire w of
      No_connection \<Rightarrow> (Inl (ExDastar (no_connection (rl_acquireMs limits))), Never_out)
    | Connect_error m \<Rightarrow> (Inl (ExError m), Never_out)
    | Connected \<Rightarrow> if \<not> w_in_time w
        then (Inl (ExDastar (dastar_error_retryable Timeout (''read exceeded '' @ show_nat (rl_readMs limits) @ ''ms''))), finish_client True w)
        else (r, finish_client (\<not> succeeded r) w))"

section \<open>The connections of a pool\<close>

text \<open>
  What both promise the pool: a connection that goes back has nothing left running and its socket has not failed.
  A lease takes a connection out, and puts it back or drops it.
\<close>

locale lease =
  fixes give_back :: "call_world \<Rightarrow> exn + 'a \<Rightarrow> disposal"
  assumes returned_settled: "give_back w r = Returned \<Longrightarrow> w_in_time w"
    and returned_sound: "give_back w r = Returned \<Longrightarrow> \<not> w_lost w"
    and returned_out: "give_back w r = Returned \<Longrightarrow> w_acquire w = Connected"
begin

text \<open>A connection is its number and whether it is quiet: idle, and its socket sound.\<close>

definition leased :: "call_world \<times> (exn + 'a) \<Rightarrow> (nat \<times> bool) list \<Rightarrow> (nat \<times> bool) list" where
  "leased c pool = (case pool of
      [] \<Rightarrow> []
    | k # ks \<Rightarrow> if w_acquire (fst c) \<noteq> Connected then k # ks
        else if give_back (fst c) (snd c) = Returned then ks @ [(fst k, w_in_time (fst c) \<and> \<not> w_lost (fst c))] else ks)"

lemma leased_quiet: "list_all snd pool \<Longrightarrow> list_all snd (leased c pool)"
  by (cases pool) (auto simp: leased_def returned_settled returned_sound)

text \<open>After any sequence of leases every connection of the pool is quiet.\<close>

lemma leases_quiet: "list_all snd pool \<Longrightarrow> list_all snd (fold leased cs pool)"
  by (induction cs arbitrary: pool) (simp_all add: leased_quiet)

end

lemma finish_Returned [simp]: "finish_client b w = Returned \<longleftrightarrow> \<not> b \<and> \<not> w_lost w"
  by (simp add: finish_client_def)

interpretation run_lease: lease "\<lambda>w r. snd (run opts w r)" for opts
  by unfold_locales (auto simp: run_def settle_def acquire_error_def split: option.splits acquire_result.splits if_splits probe_result.splits)

interpretation read_lease: lease "\<lambda>w r. snd (withClient limits w r)" for limits
  by unfold_locales (auto simp: withClient_def split: acquire_result.splits if_splits)

interpretation cancel_lease: lease "\<lambda>w r. snd (cancel_fallback w r)"
  by unfold_locales (auto simp: cancel_fallback_def split: acquire_result.splits if_splits sum.splits)

text \<open>
  C32: a connection the handle or a read gives back has nothing left running: after any sequence of calls, whatever
  timers, probes and sockets do, every connection of the pool is idle and sound; one whose call passed its deadline, failed its
  rollback probe or lost its socket is not among them.
\<close>

theorem pool_stays_quiet:
  assumes "list_all snd pool"
  shows "list_all snd (fold (run_lease.leased opts) cs pool) \<and> list_all snd (fold (read_lease.leased limits) rs pool)
    \<and> (\<forall>w r. snd (run opts w r) = Returned \<longrightarrow> w_in_time w \<and> \<not> w_lost w \<and> (succeeded r \<or> w_probe w = Probe_ok))
    \<and> (\<forall>w r. snd (withClient limits w r) = Returned \<longrightarrow> w_in_time w \<and> \<not> w_lost w \<and> succeeded r)"
proof (intro conjI allI)
  show "list_all snd (fold (run_lease.leased opts) cs pool)" by (rule run_lease.leases_quiet [OF assms])
  show "list_all snd (fold (read_lease.leased limits) rs pool)" by (rule read_lease.leases_quiet [OF assms])
  show "snd (run opts w r) = Returned \<longrightarrow> w_in_time w \<and> \<not> w_lost w \<and> (succeeded r \<or> w_probe w = Probe_ok)" for w r
    by (auto simp: run_def settle_def split: option.splits if_splits probe_result.splits)
  show "snd (withClient limits w r) = Returned \<longrightarrow> w_in_time w \<and> \<not> w_lost w \<and> succeeded r" for w r
    by (auto simp: withClient_def split: acquire_result.splits if_splits)
qed

theorem pool_stays_quiet_witness:
  "list_all snd (fold (run_lease.leased default_options)
     [(\<lparr>w_acquire = Connected, w_in_time = False, w_in_grace = True, w_committed = False, w_probe = Probe_ok, w_lost = False\<rparr>, Inr ()),
      (\<lparr>w_acquire = Connected, w_in_time = True, w_in_grace = True, w_committed = False, w_probe = Probe_ok, w_lost = False\<rparr>, Inl (ExError ''x''))]
     [(1, True), (2, True)])
   \<and> fold (run_lease.leased default_options)
     [(\<lparr>w_acquire = Connected, w_in_time = False, w_in_grace = True, w_committed = False, w_probe = Probe_ok, w_lost = False\<rparr>, Inr ()),
      (\<lparr>w_acquire = Connected, w_in_time = True, w_in_grace = True, w_committed = False, w_probe = Probe_ok, w_lost = False\<rparr>, Inl (ExError ''x''))]
     [(1, True), (2, True)] = [(2, True)]"
proof -
  have "list_all snd [(1 :: nat, True), (2, True)]" by simp
  note p = pool_stays_quiet [OF this, THEN conjunct1]
  show ?thesis by (rule conjI, rule p) (unfold fold_simps comp_def run_lease.leased_def, simp add: run_def acquire_error_def settle_def finish_client_def succeeded_def)
qed

end
