(* ===== verification/ApiAuth.thy ===== *)
theory ApiAuth
  imports ApiProblem Handle CmdAdminCalendar ApiRoutes
begin

text \<open>
  What a request meets before its handler: \<open>apps/api/src/auth.ts\<close> and \<open>keys.ts\<close>. The state is the database, the
  table of keys and the handle's cache. Clocks, random bytes, SHA-256, what the validators of the framework return, the text
  Postgres prints for a range and what happens to each call on its connection are parameters, the fields of \<open>deps\<close>.
\<close>

record ApiKey =
  ak_id :: string
  ak_capabilities :: "string list"
  ak_venueIds :: "string list option"

record ApiKeyRow =
  k_id :: string
  k_label :: string
  k_hash :: string
  k_capabilities :: "string list"
  k_venue_ids :: "string list option"
  k_created_at :: instant
  k_revoked_at :: "instant option"

record api_state =
  st_db :: db
  st_keys :: "ApiKeyRow list"
  st_cache :: SnapshotCache

text \<open>The body as the framework finds it, and what the validators of a route return.\<close>

datatype body = No_body | Json_body jval | Bad_body nat string | Too_large

record request =
  rq_trace :: "string option"
  rq_authorization :: "string option"
  rq_params :: "(string \<times> string) list"
  rq_headers :: "(string \<times> string) list"
  rq_query :: "(string \<times> string) list"
  rq_body :: body

record valid =
  va_params :: jval
  va_header :: jval
  va_query :: jval
  va_json :: jval

datatype rejection = Issues "(string list \<times> string) list" | Rejected nat string

record deps =
  dp_env :: env
  dp_now :: instant
  dp_random :: string
  dp_newId :: string
  dp_newTrace :: string
  dp_options :: DastarOptions
  dp_limits :: ReadLimits
  dp_world :: "string \<Rightarrow> call_world"
  dp_validate :: "route \<Rightarrow> request \<Rightarrow> rejection + valid"
  dp_range_text :: "range \<Rightarrow> string"
  dp_migrations :: "(exn + (nat \<times> string \<times> string) list) \<times> (exn + (nat \<times> string) list)"

abbreviation dp_sha :: "deps \<Rightarrow> string \<Rightarrow> string" where "dp_sha dp \<equiv> e_sha256 (dp_env dp)"

section \<open>Steps of a request\<close>

text \<open>A step throws or returns, and in either case leaves a state.\<close>

type_synonym 'a api = "api_state \<Rightarrow> (thrown + 'a) \<times> api_state"

definition areturn :: "'a \<Rightarrow> 'a api" where "areturn v s = (Inr v, s)"
definition athrow :: "thrown \<Rightarrow> 'a api" where "athrow e s = (Inl e, s)"

definition abind :: "'a api \<Rightarrow> ('a \<Rightarrow> 'b api) \<Rightarrow> 'b api" where
  "abind m f s = (case m s of (Inl e, s') \<Rightarrow> (Inl e, s') | (Inr v, s') \<Rightarrow> f v s')"

definition aguard :: "bool \<Rightarrow> ApiProblem \<Rightarrow> unit api" where
  "aguard b p = (if b then areturn () else athrow (Problem p))"

definition refuse :: "nat \<Rightarrow> ApiCode \<Rightarrow> string \<Rightarrow> ApiProblem" where
  "refuse status c m = api_problem status c (Some m) [] []"

text \<open>A command through the handle, and a read through \<open>withClient\<close>.\<close>

definition engine :: "deps \<Rightarrow> string \<Rightarrow> 'a tx \<Rightarrow> 'a api" where
  "engine dp name m s = (case run_tx (dp_options dp) (dp_world dp name) m (st_db s) of (r, d) \<Rightarrow>
     (case r of Inl e \<Rightarrow> Inl (Dastar e) | Inr v \<Rightarrow> Inr v, s\<lparr>st_db := d\<rparr>))"

definition command :: "(db \<Rightarrow> DastarError + ('a \<times> db)) \<Rightarrow> 'a tx" where
  "command f d = (case f d of Inl e \<Rightarrow> Inl (ExDastar e) | Inr x \<Rightarrow> Inr x)"

definition thrown_of :: "exn \<Rightarrow> thrown" where
  "thrown_of e = (case e of ExDastar x \<Rightarrow> Dastar x | ExError m \<Rightarrow> Other m | ExOther m \<Rightarrow> Other m
     | ExPg pe \<Rightarrow> Other (case pe_message pe of None \<Rightarrow> [] | Some m \<Rightarrow> m))"

definition with_client :: "deps \<Rightarrow> string \<Rightarrow> (api_state \<Rightarrow> exn + ('a \<times> api_state)) \<Rightarrow> 'a api" where
  "with_client dp name m s = (let w = dp_world dp name in
     case fst (withClient (dp_limits dp) w (m s)) of
       Inr (v, s') \<Rightarrow> (Inr v, s')
     | Inl e \<Rightarrow> (Inl (thrown_of e),
         if w_acquire w = Connected \<and> \<not> w_in_time w \<and> w_committed w then (case m s of Inl _ \<Rightarrow> s | Inr (_, s') \<Rightarrow> s') else s))"

section \<open>Keys\<close>

definition key_char :: "char \<Rightarrow> bool" where
  "key_char c \<longleftrightarrow> c \<in> set ''ABCDEFGHIJKLMNOPQRSTUVWXYZabcdefghijklmnopqrstuvwxyz0123456789_-''"

text \<open>The patterns \<open>KEY_RE\<close> and \<open>BEARER_RE\<close>, the second with its group.\<close>

definition KEY_RE :: "string \<Rightarrow> bool" where
  "KEY_RE s \<longleftrightarrow> take 4 s = ''dsk_'' \<and> length s = 47 \<and> list_all key_char (drop 4 s)"

definition BEARER_RE :: "string \<Rightarrow> string option" where
  "BEARER_RE s = (if lower (take 7 s) = ''bearer '' \<and> drop 7 s \<noteq> [] \<and> list_all (\<lambda>c. \<not> js_space c) (drop 7 s) then Some (drop 7 s) else None)"

definition hashKey :: "deps \<Rightarrow> string \<Rightarrow> string" where
  "hashKey dp presented = dp_sha dp presented"

definition insert_key :: "ApiKeyRow \<Rightarrow> api_state \<Rightarrow> exn + (string \<times> api_state)" where
  "insert_key k s = (if k_id k \<in> k_id ` set (st_keys s) then Inl (pg_violation ''23505'' ''api_key_pkey'')
     else if k_hash k \<in> k_hash ` set (st_keys s) then Inl (pg_violation ''23505'' ''api_key_key_hash_key'')
     else Inr (k_id k, s\<lparr>st_keys := st_keys s @ [k]\<rparr>))"

definition createKey :: "deps \<Rightarrow> string \<Rightarrow> string list \<Rightarrow> string list option \<Rightarrow> api_state \<Rightarrow> exn + ((string \<times> string) \<times> api_state)" where
  "createKey dp label capabilities venueIds s = (let key = ''dsk_'' @ dp_random dp in
     case insert_key \<lparr>k_id = dp_newId dp, k_label = label, k_hash = hashKey dp key, k_capabilities = capabilities, k_venue_ids = venueIds,
         k_created_at = dp_now dp, k_revoked_at = None\<rparr> s of
       Inl e \<Rightarrow> Inl e
     | Inr (i, s') \<Rightarrow> Inr ((i, key), s'))"

definition findKey :: "deps \<Rightarrow> string \<Rightarrow> ApiKey option api" where
  "findKey dp presented = (if \<not> KEY_RE presented then areturn None
     else with_client dp ''findKey'' (\<lambda>s. Inr (map_option (\<lambda>k. \<lparr>ak_id = k_id k, ak_capabilities = k_capabilities k, ak_venueIds = k_venue_ids k\<rparr>)
       (find (\<lambda>k. k_hash k = hashKey dp presented \<and> k_revoked_at k = None) (st_keys s)), s)))"

text \<open>The middleware: the key it sets.\<close>

definition requireCapability :: "deps \<Rightarrow> string \<Rightarrow> bool \<Rightarrow> string option \<Rightarrow> ApiKey option api" where
  "requireCapability dp capability orToken header = (case header of
      None \<Rightarrow> if orToken then areturn None else athrow (Problem (refuse 401 Unauthorized ''a bearer key is required''))
    | Some h \<Rightarrow> abind (case BEARER_RE h of None \<Rightarrow> areturn None | Some presented \<Rightarrow> findKey dp presented) (\<lambda>key. case key of
        None \<Rightarrow> athrow (Problem (refuse 401 Unauthorized ''unknown or revoked key''))
      | Some k \<Rightarrow> if \<not> orToken \<and> capability \<notin> set (ak_capabilities k)
          then athrow (Problem (refuse 403 (Engine Forbidden) (''the key lacks the '' @ capability @ '' capability'')))
          else areturn (Some k)))"

definition requireKey :: "ApiKey option \<Rightarrow> ApiKey api" where
  "requireKey key = (case key of None \<Rightarrow> athrow (Problem (refuse 401 Unauthorized ''a bearer key is required'')) | Some k \<Rightarrow> areturn k)"

definition in_scope :: "ApiKey \<Rightarrow> string \<Rightarrow> bool" where
  "in_scope key venueId \<longleftrightarrow> (case ak_venueIds key of None \<Rightarrow> True | Some vs \<Rightarrow> venueId \<in> set vs)"

definition assertVenueInScope :: "ApiKey \<Rightarrow> string \<Rightarrow> unit api" where
  "assertVenueInScope key venueId = aguard (in_scope key (lower venueId)) (refuse 404 (Engine Not_found) ''no such venue'')"

section \<open>The keys of a venue\<close>

record KeyView =
  kv_id :: string
  kv_label :: string
  kv_capabilities :: "string list"
  kv_venueIds :: "string list"
  kv_createdAt :: string
  kv_revokedAt :: "string option"

definition toView :: "ApiKeyRow \<Rightarrow> KeyView" where
  "toView r = \<lparr>kv_id = k_id r, kv_label = k_label r, kv_capabilities = k_capabilities r,
     kv_venueIds = (case k_venue_ids r of None \<Rightarrow> [] | Some vs \<Rightarrow> vs), kv_createdAt = toISOString (k_created_at r),
     kv_revokedAt = map_option toISOString (k_revoked_at r)\<rparr>"

definition listVenueKeys :: "deps \<Rightarrow> string \<Rightarrow> KeyView list api" where
  "listVenueKeys dp venueId = with_client dp ''listVenueKeys'' (\<lambda>s.
     Inr (map toView (sort_key (\<lambda>k. (k_created_at k, k_id k)) (filter (\<lambda>k. k_venue_ids k = Some [venueId]) (st_keys s))), s))"

definition createVenueKey :: "deps \<Rightarrow> string \<Rightarrow> string \<Rightarrow> string list \<Rightarrow> (KeyView \<times> string) api" where
  "createVenueKey dp venueId label capabilities = abind
     (with_client dp ''createVenueKey'' (\<lambda>s. if find_venue (st_db s) venueId = None then Inr (None, s)
       else (case createKey dp label capabilities (Some [venueId]) s of
           Inl e \<Rightarrow> Inl e
         | Inr ((i, key), s') \<Rightarrow> (case find (\<lambda>k. k_id k = i) (st_keys s') of
               None \<Rightarrow> Inl (ExError ''Cannot read properties of undefined'')
             | Some row \<Rightarrow> Inr (Some (toView row, key), s')))))
     (\<lambda>out. case out of None \<Rightarrow> athrow (Problem (refuse 404 (Engine Not_found) ''no such venue'')) | Some x \<Rightarrow> areturn x)"

text \<open>\<open>set revoked_at = coalesce(revoked_at, now())\<close>.\<close>

definition revoked_row :: "instant \<Rightarrow> ApiKeyRow \<Rightarrow> ApiKeyRow" where
  "revoked_row now k = k\<lparr>k_revoked_at := Some (or_else (k_revoked_at k) now)\<rparr>"

definition revokeVenueKey :: "deps \<Rightarrow> string \<Rightarrow> string \<Rightarrow> KeyView api" where
  "revokeVenueKey dp venueId keyId = abind
     (with_client dp ''revokeVenueKey'' (\<lambda>s. case find (\<lambda>k. k_id k = keyId \<and> k_venue_ids k = Some [venueId]) (st_keys s) of
         None \<Rightarrow> Inr (None, s)
       | Some k \<Rightarrow> Inr (Some (revoked_row (dp_now dp) k),
           s\<lparr>st_keys := map (\<lambda>x. if k_id x = keyId \<and> k_venue_ids x = Some [venueId] then revoked_row (dp_now dp) x else x) (st_keys s)\<rparr>)))
     (\<lambda>row. case row of None \<Rightarrow> athrow (Problem (refuse 404 (Engine Not_found) ''no such key'')) | Some r \<Rightarrow> areturn (toView r))"

end
