(* ===== verification/ApiHandlers.thy ===== *)
theory ApiHandlers
  imports ApiAuth CmdAdminCalendar CmdReads CmdLifecycle
begin

text \<open>
  The handlers of the routes, \<open>apps/api/src/routes\<close>: from the validated request to the command, and from its result to
  the body of the response. An optional field of a body is passed on exactly when it is there.
\<close>

section \<open>Rendering\<close>

definition VText :: "string option \<Rightarrow> jval" where
  "VText s = (case s of None \<Rightarrow> VNull | Some t \<Rightarrow> VStr t)"

definition VStrs :: "string list \<Rightarrow> jval" where
  "VStrs ss = VArr (map VStr ss)"

definition toReceipt :: "Receipt \<Rightarrow> jval" where
  "toReceipt r = VObj [(''reservation_id'', VStr (rc_reservationId r)), (''status'', VStr (status_text (rc_status r))),
     (''version'', VInt (rc_version r)), (''audit_id'', VInt (int (rc_auditId r))), (''trace_id'', VStr (rc_traceId r))]"

definition toUnit :: "UnitView \<Rightarrow> jval" where
  "toUnit u = VObj [(''id'', VStr (uv_id u)), (''label'', VStr (uv_label u)), (''capacity_min'', VInt (uv_capacityMin u)),
     (''capacity_max'', VInt (uv_capacityMax u)), (''active'', VBool (uv_active u)), (''layout'', uv_layout u)]"

definition toCombo :: "ComboView \<Rightarrow> jval" where
  "toCombo c = VObj [(''id'', VStr (cv_id c)), (''label'', VStr (cv_label c)), (''unit_ids'', VStrs (cv_unitIds c)),
     (''capacity_min'', VInt (cv_capacityMin c)), (''capacity_max'', VInt (cv_capacityMax c)), (''active'', VBool (cv_active c))]"

definition toSchedule :: "ScheduleView \<Rightarrow> jval" where
  "toSchedule s = VObj [(''id'', VStr (sv_id s)), (''day_of_week'', VInt (sv_dayOfWeek s)), (''opens'', VStr (sv_opens s)),
     (''closes'', VStr (sv_closes s)), (''closes_next_day'', VBool (sv_closesNextDay s)),
     (''duration_by_size'', VObj (map (\<lambda>(k, n). (k, VInt n)) (sv_durationBySize s))),
     (''gap_minutes'', VInt (sv_gapMinutes s)), (''active'', VBool (sv_active s))]"

definition toBlackout :: "BlackoutView \<Rightarrow> jval" where
  "toBlackout b = VObj [(''id'', VStr (bv_id b)), (''starts_at'', VStr (bv_startsAt b)), (''ends_at'', VStr (bv_endsAt b)),
     (''reason'', VStr (bv_reason b)), (''active'', VBool (bv_active b))]"

definition toKey :: "KeyView \<Rightarrow> jval" where
  "toKey k = VObj [(''id'', VStr (kv_id k)), (''label'', VStr (kv_label k)), (''capabilities'', VStrs (kv_capabilities k)),
     (''venue_ids'', VStrs (kv_venueIds k)), (''created_at'', VStr (kv_createdAt k)), (''revoked_at'', VText (kv_revokedAt k))]"

definition assignment_json :: "Assignment \<Rightarrow> jval" where
  "assignment_json a = VObj [(''kind'', VStr (kind_text (a_kind a))), (''id'', VStr (a_id a))]"

definition toForce :: "jval \<Rightarrow> ForceOption" where
  "toForce b = \<lparr>fo_force = as_bool (get_field ''force'' b), fo_cancelReason = opt_field as_text (get_field ''cancel_reason'' b)\<rparr>"

section \<open>Requests\<close>

text \<open>A response: status, body, headers beside the common ones.\<close>

type_synonym reply = "nat \<times> jval \<times> (string \<times> string) list"

type_synonym handler = "deps \<Rightarrow> ApiKey option \<Rightarrow> string \<Rightarrow> valid \<Rightarrow> reply api"

definition respond :: "nat \<Rightarrow> (string \<times> jval) list \<Rightarrow> reply api" where
  "respond status fs = areturn (status, VObj fs, [])"

definition param :: "valid \<Rightarrow> string \<Rightarrow> string" where
  "param v name = lower (as_text (get_field name (va_params v)))"

definition key_actor :: "ApiKey \<Rightarrow> string" where
  "key_actor key = ''key:'' @ ak_id key"

definition admin_context :: "ApiKey \<Rightarrow> string \<Rightarrow> string \<Rightarrow> AdminContext" where
  "admin_context key venueId traceId = \<lparr>ax_venueId = venueId, ax_actor = key_actor key, ax_traceId = traceId\<rparr>"

text \<open>The start of every route of a venue: a key, and the venue inside its scope.\<close>

definition at_venue :: "ApiKey option \<Rightarrow> valid \<Rightarrow> (ApiKey \<Rightarrow> string \<Rightarrow> 'a api) \<Rightarrow> 'a api" where
  "at_venue key v f = abind (requireKey key) (\<lambda>k. abind (assertVenueInScope k (param v ''id'')) (\<lambda>_. f k (param v ''id'')))"

text \<open>An outcome that may refuse: \<open>if (!out.ok) throw problemFor(...)\<close>.\<close>

definition admin_outcome :: "'a AdminOutcome \<Rightarrow> ('a \<Rightarrow> string list \<Rightarrow> reply api) \<Rightarrow> reply api" where
  "admin_outcome out f = (case out of
      Admin_refused c m ids \<Rightarrow> athrow (Problem (problemFor c (Some m) [(''stranded'', VStrs ids)]))
    | Admin_ok x cancelled \<Rightarrow> f x cancelled)"

section \<open>Holds and availability\<close>

definition hold_input :: "ApiKey \<Rightarrow> string \<Rightarrow> string \<Rightarrow> valid \<Rightarrow> HoldInput" where
  "hold_input key venueId traceId v = (let b = va_json v; a = get_field ''assignment'' b in
     \<lparr>hi_venueId = venueId, hi_actor = key_actor key, hi_traceId = traceId,
      hi_idempotencyKey = as_text (get_field ''idempotency-key'' (va_header v)),
      hi_partySize = as_int (get_field ''party_size'' b), hi_startsAt = as_text (get_field ''starts_at'' b),
      hi_durationMinutes = as_int (get_field ''duration_minutes'' b),
      hi_assignment = \<lparr>a_kind = (if as_text (get_field ''kind'' (the a)) = ''unit'' then Unit else Combo),
        a_id = lower (as_text (get_field ''id'' (the a)))\<rparr>,
      hi_externalRef = opt_field as_text (get_field ''external_ref'' b), hi_enforceSchedule = True\<rparr>)"

definition hold_handler :: handler where
  "hold_handler dp key traceId v = at_venue key v (\<lambda>k venueId.
     abind (engine dp ''hold'' (hold (dp_env dp) (hold_input k venueId traceId v))) (\<lambda>out. case out of
         HoldRefused c m replayed \<Rightarrow> athrow (Problem (problemFor c (Some m) [(''replayed'', VBool replayed)]))
       | HoldOk rc expires replayed \<Rightarrow> respond 201 [(''receipt'', toReceipt rc), (''hold_expires_at'', VStr expires), (''replayed'', VBool replayed)]))"

definition hold_json :: "deps \<Rightarrow> HoldView \<Rightarrow> jval" where
  "hold_json dp h = VObj [(''id'', VStr (hv_id h)), (''party_size'', VInt (hv_partySize h)), (''during'', VStr (dp_range_text dp (hv_during h))),
     (''assignment'', assignment_json (hv_assignment h)), (''hold_expires_at'', VStr (hv_holdExpiresAt h)), (''version'', VInt (hv_version h)),
     (''external_ref'', VText (hv_externalRef h))]"

definition list_holds_handler :: handler where
  "list_holds_handler dp key traceId v = at_venue key v (\<lambda>k venueId.
     abind (engine dp ''listHolds'' (tget (listHolds (dp_now dp) venueId (key_actor k)))) (\<lambda>hs.
     respond 200 [(''holds'', VArr (map (hold_json dp) hs))]))"

definition slot_json :: "Slot \<Rightarrow> jval" where
  "slot_json s = VObj [(''starts_at'', VStr (slot_startsAt s)), (''duration_minutes'', VInt (slot_durationMinutes s)),
     (''assignment'', assignment_json (slot_assignment s))]"

text \<open>The handle's cache goes in and comes out.\<close>

definition read_availability :: "deps \<Rightarrow> AvailabilityInput \<Rightarrow> (Slot list \<times> bool) api" where
  "read_availability dp i s = (let (r, c) = availability (e_zones (dp_env dp)) (dp_now dp) i (Some (st_cache s)) (st_db s) in
     abind (engine dp ''availability'' (\<lambda>d. case r of Inl e \<Rightarrow> Inl (ExDastar e) | Inr x \<Rightarrow> Inr (x, d))) areturn
       (if acquire_error 0 (w_acquire (dp_world dp ''availability'')) = None then s\<lparr>st_cache := (case c of None \<Rightarrow> st_cache s | Some c' \<Rightarrow> c')\<rparr> else s))"

definition availability_handler :: handler where
  "availability_handler dp key traceId v = at_venue key v (\<lambda>k venueId. (let b = va_json v in
     abind (read_availability dp \<lparr>ai_venueId = venueId, ai_partySize = as_int (get_field ''party_size'' b), ai_from = as_text (get_field ''from'' b),
         ai_to = as_text (get_field ''to'' b), ai_limit = opt_field as_int (get_field ''limit'' b), ai_ranking = None\<rparr>) (\<lambda>(slots, truncated).
     respond 200 [(''slots'', VArr (map slot_json slots)), (''truncated'', VBool truncated)])))"

section \<open>Reservations\<close>

definition venueInScope :: "deps \<Rightarrow> ApiKey \<Rightarrow> string \<Rightarrow> string api" where
  "venueInScope dp key i = abind (engine dp ''findReservationVenue'' (tget (findReservationVenue i))) (\<lambda>found. case found of
      Some venueId \<Rightarrow> if in_scope key venueId then areturn venueId else athrow (Problem (refuse 404 (Engine Not_found) ''no such reservation''))
    | None \<Rightarrow> athrow (Problem (refuse 404 (Engine Not_found) ''no such reservation'')))"

definition reservation_json :: "deps \<Rightarrow> ReservationView \<Rightarrow> (string \<times> jval) list" where
  "reservation_json dp r = [(''id'', VStr (rv_id r)), (''venue_id'', VStr (rv_venueId r)), (''status'', VStr (status_text (rv_status r))),
     (''stored_status'', VStr (status_text (rv_storedStatus r))), (''party_size'', VInt (rv_partySize r)),
     (''during'', VStr (dp_range_text dp (rv_during r))), (''assignment'', assignment_json (rv_assignment r)),
     (''hold_expires_at'', VStr (rv_holdExpiresAt r)), (''version'', VInt (rv_version r)), (''external_ref'', VText (rv_externalRef r)),
     (''history'', VArr (map (\<lambda>h. VObj [(''action'', VStr (h_action h)), (''actor'', VStr (h_actor h)), (''at'', VStr (h_at h))]) (rv_history r)))]"

definition read_handler :: handler where
  "read_handler dp key traceId v = abind (requireKey key) (\<lambda>k. abind (venueInScope dp k (param v ''id'')) (\<lambda>venueId.
     abind (engine dp ''getReservation'' (tget (getReservation (dp_now dp) (param v ''id'') venueId))) (\<lambda>found. case found of
         None \<Rightarrow> athrow (Problem (refuse 404 (Engine Not_found) ''no such reservation''))
       | Some r \<Rightarrow> respond 200 (reservation_json dp r))))"

definition lifecycle_input :: "string \<Rightarrow> string \<Rightarrow> string \<Rightarrow> string \<Rightarrow> jval \<Rightarrow> LifecycleInput" where
  "lifecycle_input i actor traceId venueId b = \<lparr>li_reservationId = i, li_actor = actor, li_traceId = traceId, li_venueId = venueId,
     li_expectedVersion = opt_field as_int (get_field ''expected_version'' b)\<rparr>"

text \<open>The routes that change one reservation: a key, the venue, the command, its receipt.\<close>

definition change_reservation :: "string \<Rightarrow> (deps \<Rightarrow> LifecycleInput \<Rightarrow> db \<Rightarrow> DastarError + ('a \<times> db)) \<Rightarrow> ('a \<Rightarrow> reply api) \<Rightarrow> handler" where
  "change_reservation name cmd render dp key traceId v = abind (requireKey key) (\<lambda>k. abind (venueInScope dp k (param v ''id'')) (\<lambda>venueId.
     abind (engine dp name (command (cmd dp (lifecycle_input (param v ''id'') (key_actor k) traceId venueId (va_json v))))) render))"

definition receipt_reply :: "Receipt \<Rightarrow> reply api" where
  "receipt_reply rc = respond 200 [(''receipt'', toReceipt rc)]"

definition cancel_handler :: handler where
  "cancel_handler dp key traceId v =
     change_reservation ''cancel'' (\<lambda>dp i. cancel (dp_now dp) i (as_text (get_field ''reason'' (va_json v)))) receipt_reply dp key traceId v"

definition seat_handler :: handler where
  "seat_handler = change_reservation ''seat'' (\<lambda>dp. seat (dp_now dp)) receipt_reply"

definition complete_handler :: handler where
  "complete_handler = change_reservation ''complete'' (\<lambda>dp. complete (dp_now dp)) receipt_reply"

definition mint_handler :: handler where
  "mint_handler = change_reservation ''mintConfirmToken'' (\<lambda>dp i. mintConfirmToken (dp_sha dp) (dp_now dp) i (dp_random dp))
     (\<lambda>(token, version). respond 201 [(''confirm_token'', VStr token), (''version'', VInt version)])"

definition TOKEN_REFUSED :: string where "TOKEN_REFUSED = ''confirm token does not match''"

text \<open>\<open>reservation_token\<close>: the venue and the hash, whoever asks.\<close>

definition reservation_token :: "string \<Rightarrow> db \<Rightarrow> (string \<times> string option) option" where
  "reservation_token i d = map_option (\<lambda>r. (r_venue r, r_token_hash r)) (find (\<lambda>r. r_id r = i) (reservations d))"

text \<open>The comparison in constant time, with 32 zero bytes in the place of a hash that is absent or of another length.\<close>

definition NO_HASH :: string where "NO_HASH = replicate 32 (CHR 0x00)"

definition token_matches :: "string option \<Rightarrow> string \<Rightarrow> bool" where
  "token_matches stored presented \<longleftrightarrow>
     (case stored of Some h \<Rightarrow> if length h = length presented then h else NO_HASH | None \<Rightarrow> NO_HASH) = presented \<and> stored \<noteq> None"

text \<open>With a token it is the credential; without one the key must have the capability.\<close>

definition confirm_by_token :: "deps \<Rightarrow> string \<Rightarrow> valid \<Rightarrow> string \<Rightarrow> reply api" where
  "confirm_by_token dp traceId v token = (let i = param v ''id'' in
     abind (with_client dp ''reservation_token'' (\<lambda>s. Inr (reservation_token i (st_db s), s))) (\<lambda>row. case row of
         None \<Rightarrow> athrow (Problem (refuse 403 (Engine Forbidden) TOKEN_REFUSED))
       | Some (venueId, stored) \<Rightarrow> if \<not> token_matches stored (dp_sha dp token) then athrow (Problem (refuse 403 (Engine Forbidden) TOKEN_REFUSED))
           else abind (engine dp ''confirm'' (command (confirm (dp_sha dp) (dp_now dp)
             \<lparr>li_reservationId = i, li_actor = ''token'', li_traceId = traceId, li_venueId = venueId, li_expectedVersion = None\<rparr> (Some token)))) receipt_reply))"

definition confirm_handler :: handler where
  "confirm_handler dp key traceId v = (case get_field ''confirm_token'' (va_json v) of
      Some t \<Rightarrow> confirm_by_token dp traceId v (as_text (Some t))
    | None \<Rightarrow> abind (requireKey key) (\<lambda>k.
        if ''confirm'' \<notin> set (ak_capabilities k) then athrow (Problem (refuse 403 (Engine Forbidden) ''the key lacks the confirm capability''))
        else abind (venueInScope dp k (param v ''id'')) (\<lambda>venueId.
          abind (engine dp ''confirm'' (command (confirm (dp_sha dp) (dp_now dp)
            (lifecycle_input (param v ''id'') (key_actor k) traceId venueId (va_json v)) None))) receipt_reply)))"

end
