(* ===== verification/ApiAdmin.thy ===== *)
theory ApiAdmin
  imports ApiHandlers
begin

text \<open>The handlers of the admin routes: \<open>admin-units.ts\<close>, \<open>admin-calendar.ts\<close> and \<open>admin-keys.ts\<close>.\<close>

section \<open>Units\<close>

definition create_unit_input :: "jval \<Rightarrow> CreateUnitInput" where
  "create_unit_input b = \<lparr>cu_label = as_text (get_field ''label'' b), cu_capacityMin = as_int (get_field ''capacity_min'' b),
     cu_capacityMax = as_int (get_field ''capacity_max'' b), cu_layout = get_field ''layout'' b\<rparr>"

definition update_unit_input :: "valid \<Rightarrow> UpdateUnitInput" where
  "update_unit_input v = (let b = va_json v in \<lparr>uu_unitId = param v ''unitId'', uu_label = opt_field as_text (get_field ''label'' b),
     uu_capacityMin = opt_field as_int (get_field ''capacity_min'' b), uu_capacityMax = opt_field as_int (get_field ''capacity_max'' b),
     uu_layout = get_field ''layout'' b, uu_active = opt_field as_bool (get_field ''active'' b), uu_force = toForce b\<rparr>)"

definition list_units_handler :: handler where
  "list_units_handler dp key traceId v = at_venue key v (\<lambda>k venueId.
     abind (engine dp ''listUnits'' (tget (listUnits venueId (dp_now dp)))) (\<lambda>us. respond 200 [(''units'', VArr (map toUnit us))]))"

definition create_unit_handler :: handler where
  "create_unit_handler dp key traceId v = at_venue key v (\<lambda>k venueId.
     abind (engine dp ''createUnit'' (command (createUnit (dp_newId dp) (dp_now dp) (admin_context k venueId traceId) (create_unit_input (va_json v))))) (\<lambda>u.
     respond 201 [(''unit'', toUnit u)]))"

definition update_unit_handler :: handler where
  "update_unit_handler dp key traceId v = at_venue key v (\<lambda>k venueId.
     abind (engine dp ''updateUnit'' (command (updateUnit (dp_now dp) (admin_context k venueId traceId) (update_unit_input v)))) (\<lambda>out.
     admin_outcome out (\<lambda>u cancelled. respond 200 [(''unit'', toUnit u), (''cancelled'', VStrs cancelled)])))"

section \<open>Combinations\<close>

definition create_combo_input :: "jval \<Rightarrow> CreateComboInput" where
  "create_combo_input b = \<lparr>cc_label = as_text (get_field ''label'' b),
     cc_unitIds = map (\<lambda>x. lower (as_text (Some x))) (as_list (get_field ''unit_ids'' b)),
     cc_capacityMin = as_int (get_field ''capacity_min'' b), cc_capacityMax = as_int (get_field ''capacity_max'' b)\<rparr>"

definition update_combo_input :: "valid \<Rightarrow> UpdateComboInput" where
  "update_combo_input v = (let b = va_json v in \<lparr>uc_comboId = param v ''comboId'', uc_label = opt_field as_text (get_field ''label'' b),
     uc_active = opt_field as_bool (get_field ''active'' b), uc_force = toForce b\<rparr>)"

definition list_combos_handler :: handler where
  "list_combos_handler dp key traceId v = at_venue key v (\<lambda>k venueId.
     abind (engine dp ''listCombos'' (tget (listCombos venueId (dp_now dp)))) (\<lambda>cs. respond 200 [(''combos'', VArr (map toCombo cs))]))"

definition create_combo_handler :: handler where
  "create_combo_handler dp key traceId v = at_venue key v (\<lambda>k venueId.
     abind (engine dp ''createCombo'' (command (createCombo (dp_newId dp) (dp_now dp) (admin_context k venueId traceId) (create_combo_input (va_json v))))) (\<lambda>c.
     respond 201 [(''combo'', toCombo c)]))"

definition update_combo_handler :: handler where
  "update_combo_handler dp key traceId v = at_venue key v (\<lambda>k venueId.
     abind (engine dp ''updateCombo'' (command (updateCombo (dp_now dp) (admin_context k venueId traceId) (update_combo_input v)))) (\<lambda>out.
     admin_outcome out (\<lambda>c cancelled. respond 200 [(''combo'', toCombo c), (''cancelled'', VStrs cancelled)])))"

section \<open>Service periods and blackouts\<close>

text \<open>A created period always has a gap and an activity: the schema's defaults.\<close>

definition schedule_input :: "jval \<Rightarrow> ScheduleInput" where
  "schedule_input b = \<lparr>is_dayOfWeek = get_field ''day_of_week'' b, is_opens = get_field ''opens'' b, is_closes = get_field ''closes'' b,
     is_durationBySize = get_field ''duration_by_size'' b, is_gapMinutes = get_field ''gap_minutes'' b, is_active = get_field ''active'' b\<rparr>"

definition list_schedules_handler :: handler where
  "list_schedules_handler dp key traceId v = at_venue key v (\<lambda>k venueId.
     abind (engine dp ''listSchedules'' (tget (listSchedules venueId (dp_now dp)))) (\<lambda>ss. respond 200 [(''schedules'', VArr (map toSchedule ss))]))"

definition create_schedule_handler :: handler where
  "create_schedule_handler dp key traceId v = at_venue key v (\<lambda>k venueId.
     abind (engine dp ''createSchedule'' (command (createSchedule (dp_newId dp) (dp_now dp) (admin_context k venueId traceId) (schedule_input (va_json v))))) (\<lambda>s.
     respond 201 [(''schedule'', toSchedule s)]))"

definition update_schedule_handler :: handler where
  "update_schedule_handler dp key traceId v = at_venue key v (\<lambda>k venueId.
     abind (engine dp ''updateSchedule'' (command (updateSchedule (dp_now dp) (admin_context k venueId traceId) (param v ''scheduleId'') (schedule_input (va_json v))))) (\<lambda>s.
     respond 200 [(''schedule'', toSchedule s)]))"

definition list_blackouts_handler :: handler where
  "list_blackouts_handler dp key traceId v = at_venue key v (\<lambda>k venueId.
     abind (engine dp ''listBlackouts'' (command (\<lambda>d. rbind (listBlackouts venueId (get_field ''from'' (va_query v)) (get_field ''to'' (va_query v)) (dp_now dp) d) (\<lambda>bs. Inr (bs, d))))) (\<lambda>bs.
     respond 200 [(''blackouts'', VArr (map toBlackout bs))]))"

definition create_blackout_input :: "jval \<Rightarrow> CreateBlackoutInput" where
  "create_blackout_input b = \<lparr>ib_startsAt = get_field ''starts_at'' b, ib_endsAt = get_field ''ends_at'' b, ib_reason = get_field ''reason'' b,
     ib_active = get_field ''active'' b, ib_force = toForce b\<rparr>"

definition create_blackout_handler :: handler where
  "create_blackout_handler dp key traceId v = at_venue key v (\<lambda>k venueId.
     abind (engine dp ''createBlackout'' (command (createBlackout (dp_newId dp) (dp_now dp) (admin_context k venueId traceId) (create_blackout_input (va_json v))))) (\<lambda>out.
     admin_outcome out (\<lambda>b cancelled. respond 201 [(''blackout'', toBlackout b), (''cancelled'', VStrs cancelled)])))"

definition update_blackout_input :: "valid \<Rightarrow> UpdateBlackoutInput" where
  "update_blackout_input v = (let b = va_json v in \<lparr>ub_blackoutId = param v ''blackoutId'', ub_reason = get_field ''reason'' b,
     ub_active = get_field ''active'' b, ub_force = toForce b\<rparr>)"

definition update_blackout_handler :: handler where
  "update_blackout_handler dp key traceId v = at_venue key v (\<lambda>k venueId.
     abind (engine dp ''updateBlackout'' (command (updateBlackout (dp_now dp) (admin_context k venueId traceId) (update_blackout_input v)))) (\<lambda>out.
     admin_outcome out (\<lambda>b cancelled. respond 200 [(''blackout'', toBlackout b), (''cancelled'', VStrs cancelled)])))"

section \<open>Keys\<close>

definition list_keys_handler :: handler where
  "list_keys_handler dp key traceId v = at_venue key v (\<lambda>k venueId.
     abind (listVenueKeys dp venueId) (\<lambda>ks. respond 200 [(''keys'', VArr (map toKey ks))]))"

definition create_key_handler :: handler where
  "create_key_handler dp key traceId v = at_venue key v (\<lambda>k venueId. (let b = va_json v in
     abind (createVenueKey dp venueId (as_text (get_field ''label'' b)) (map (\<lambda>x. as_text (Some x)) (as_list (get_field ''capabilities'' b)))) (\<lambda>(created, secret).
     areturn (201, VObj [(''key'', toKey created), (''secret'', VStr secret)], [(''Cache-Control'', ''no-store'')]))))"

definition revoke_key_handler :: handler where
  "revoke_key_handler dp key traceId v = at_venue key v (\<lambda>k venueId.
     abind (revokeVenueKey dp venueId (param v ''keyId'')) (\<lambda>revoked. respond 200 [(''key'', toKey revoked)]))"

end
