(* ===== verification/ApiApp.thy ===== *)
theory ApiApp
  imports ApiAdmin
begin

text \<open>
  The application, \<open>apps/api/src/app.ts\<close> with \<open>routes/health.ts\<close>: the trace id every response carries, the bound on a
  body, the capability a route asks for, its validators, its handler, and the rendering of what was thrown. Which route a
  request meets is the framework's routing.
\<close>

section \<open>Health\<close>

definition live_handler :: handler where
  "live_handler dp key traceId v = respond 200 [(''status'', VStr ''live'')]"

definition not_ready :: "string \<Rightarrow> thrown" where
  "not_ready m = Problem (api_problem 503 Not_ready (Some m) [(''Retry-After'', ''1'')] [])"

text \<open>Every shipped migration is there, unchanged; extra applied ones do not make up for a missing one.\<close>

fun missing_migration :: "(nat \<times> string) list \<Rightarrow> (nat \<times> string \<times> string) list \<Rightarrow> string option" where
  "missing_migration applied [] = None"
| "missing_migration applied (m # ms) = (case map_of applied (fst m) of
      None \<Rightarrow> Some (''migration '' @ fst (snd m) @ '' is not applied'')
    | Some got \<Rightarrow> if got \<noteq> snd (snd m) then Some (''migration '' @ fst (snd m) @ '' differs from the applied one'') else missing_migration applied ms)"

text \<open>The read has limits of its own.\<close>

definition ready_limits :: ReadLimits where
  "ready_limits = \<lparr>rl_acquireMs = 1000, rl_readMs = 1000\<rparr>"

definition ready_handler :: handler where
  "ready_handler dp key traceId v = (case fst (dp_migrations dp) of
      Inl _ \<Rightarrow> athrow (not_ready ''migration files unreadable'')
    | Inr needed \<Rightarrow> (case fst (withClient ready_limits (dp_world dp ''ready'') (snd (dp_migrations dp))) of
        Inl (ExDastar e) \<Rightarrow> athrow (not_ready (code_text (code e)))
      | Inl _ \<Rightarrow> athrow (not_ready ''database unreachable'')
      | Inr applied \<Rightarrow> (case missing_migration applied needed of
          Some m \<Rightarrow> athrow (not_ready m)
        | None \<Rightarrow> respond 200 [(''status'', VStr ''ready''), (''migrations'', VInt (int (length needed)))])))"

section \<open>The application\<close>

definition app :: "(route \<times> handler) list" where
  "app = [(live_route, live_handler), (ready_route, ready_handler), (hold_route, hold_handler), (list_holds_route, list_holds_handler),
     (availability_route, availability_handler), (read_route, read_handler), (cancel_route, cancel_handler), (seat_route, seat_handler),
     (complete_route, complete_handler), (mint_route, mint_handler), (confirm_route, confirm_handler),
     (list_units_route, list_units_handler), (create_unit_route, create_unit_handler), (update_unit_route, update_unit_handler),
     (list_combos_route, list_combos_handler), (create_combo_route, create_combo_handler), (update_combo_route, update_combo_handler),
     (list_schedules_route, list_schedules_handler), (create_schedule_route, create_schedule_handler), (update_schedule_route, update_schedule_handler),
     (list_blackouts_route, list_blackouts_handler), (create_blackout_route, create_blackout_handler), (update_blackout_route, update_blackout_handler),
     (list_keys_route, list_keys_handler), (create_key_route, create_key_handler), (revoke_key_route, revoke_key_handler)]"

text \<open>The pattern \<open>TRACE_RE\<close>.\<close>

definition trace_char :: "char \<Rightarrow> bool" where
  "trace_char c \<longleftrightarrow> c \<in> set ''ABCDEFGHIJKLMNOPQRSTUVWXYZabcdefghijklmnopqrstuvwxyz0123456789._:-''"

definition TRACE_RE :: "string \<Rightarrow> bool" where
  "TRACE_RE s \<longleftrightarrow> s \<noteq> [] \<and> length s \<le> 100 \<and> list_all trace_char s"

definition trace_of :: "deps \<Rightarrow> request \<Rightarrow> string" where
  "trace_of dp q = (case rq_trace q of Some t \<Rightarrow> if TRACE_RE t then t else dp_newTrace dp | None \<Rightarrow> dp_newTrace dp)"

fun join :: "string \<Rightarrow> string list \<Rightarrow> string" where
  "join sep [] = []"
| "join sep [s] = s"
| "join sep (s # ss) = s @ sep @ join sep ss"

text \<open>\<open>defaultHook\<close>: a value the schema refuses. A rejection of the framework itself is thrown as it is.\<close>

definition defaultHook :: "rejection \<Rightarrow> thrown" where
  "defaultHook r = (case r of
      Issues is \<Rightarrow> Problem (refuse 400 Validation (join ''; '' (map (\<lambda>(path, m). join ''.'' path @ '': '' @ m) is)))
    | Rejected status m \<Rightarrow> Http status m)"

definition body_limit :: "request \<Rightarrow> unit api" where
  "body_limit q = aguard (rq_body q \<noteq> Too_large) (refuse 400 Validation ''request body too large'')"

definition capability_of :: "deps \<Rightarrow> route \<Rightarrow> request \<Rightarrow> ApiKey option api" where
  "capability_of dp r q = (case rt_capability r of
      None \<Rightarrow> areturn None
    | Some (c, orToken) \<Rightarrow> requireCapability dp c orToken (rq_authorization q))"

definition handle :: "deps \<Rightarrow> route \<times> handler \<Rightarrow> request \<Rightarrow> reply api" where
  "handle dp rh q = abind (body_limit q) (\<lambda>_. abind (capability_of dp (fst rh) q) (\<lambda>key.
     case dp_validate dp (fst rh) q of
       Inl rej \<Rightarrow> athrow (defaultHook rej)
     | Inr v \<Rightarrow> snd rh dp key (trace_of dp q) v))"

record response =
  rs_status :: nat
  rs_type :: string
  rs_headers :: "(string \<times> string) list"
  rs_body :: jval

text \<open>\<open>onError\<close>, and the trace id on every response.\<close>

definition render :: "string \<Rightarrow> thrown + reply \<Rightarrow> response" where
  "render traceId r = (case r of
      Inr (status, b, hs) \<Rightarrow> \<lparr>rs_status = status, rs_type = ''application/json'', rs_headers = hs @ [(''x-trace-id'', traceId)], rs_body = b\<rparr>
    | Inl e \<Rightarrow> (let p = fromUnknown e in \<lparr>rs_status = ap_status p, rs_type = ''application/problem+json'',
        rs_headers = ap_headers p @ [(''x-trace-id'', traceId)], rs_body = problemBody p traceId\<rparr>))"

definition serve :: "deps \<Rightarrow> route \<times> handler \<Rightarrow> request \<Rightarrow> api_state \<Rightarrow> response \<times> api_state" where
  "serve dp rh q s = (case handle dp rh q s of (r, s') \<Rightarrow> (render (trace_of dp q) r, s'))"

definition notFound :: "deps \<Rightarrow> request \<Rightarrow> response" where
  "notFound dp q = render (trace_of dp q) (Inl (Problem (refuse 404 (Engine Not_found) ''no such route'')))"

end
