(* ===== verification/ApiProperties.thy ===== *)
theory ApiProperties
  imports ApiApp AdminProperties ClientSync
begin

text \<open>
  What the API answers: every response of every route that needs a credential is one the client's types declare; a key works
  from its creation to its revocation and for its venue only; what is another venue's looks as if it did not exist.
\<close>

section \<open>What a step yields\<close>

text \<open>
  \<open>yields I Q m\<close>: from a state with \<open>I\<close>, a problem the step throws is well-formed, and a value it returns has \<open>Q\<close>.
\<close>

named_theorems yielding "rules for what a step of a request yields"

definition yields :: "(api_state \<Rightarrow> bool) \<Rightarrow> ('a \<Rightarrow> bool) \<Rightarrow> 'a api \<Rightarrow> bool" where
  "yields I Q m \<longleftrightarrow> (\<forall>s. I s \<longrightarrow> (case fst (m s) of Inl (Problem p) \<Rightarrow> problem_ok p | Inl _ \<Rightarrow> True | Inr v \<Rightarrow> Q v))"

lemma abind_split: "abind m f s = (case fst (m s) of Inl e \<Rightarrow> (Inl e, snd (m s)) | Inr v \<Rightarrow> f v (snd (m s)))"
  by (simp add: abind_def split: prod.split sum.split)

lemma yields_return [yielding]: "Q v \<Longrightarrow> yields I Q (areturn v)"
  by (simp add: yields_def areturn_def)

lemma yields_throw [yielding]: "problem_ok p \<Longrightarrow> yields I Q (athrow (Problem p))"
  by (simp add: yields_def athrow_def)

lemma yields_guard [yielding]: "problem_ok p \<Longrightarrow> yields I (\<lambda>_. True) (aguard b p)"
  by (simp add: aguard_def yields_return yields_throw)

text \<open>A step that leaves the state it found.\<close>

definition reads :: "'a api \<Rightarrow> bool" where
  "reads m \<longleftrightarrow> (\<forall>s. snd (m s) = s)"

lemma yields_bind:
  assumes "yields I P m" and "reads m" and "\<And>x. P x \<Longrightarrow> yields I Q (f x)"
  shows "yields I Q (abind m f)"
  unfolding yields_def
proof (intro allI impI)
  fix s assume I: "I s"
  show "case fst (abind m f s) of Inl (Problem p) \<Rightarrow> problem_ok p | Inl _ \<Rightarrow> True | Inr v \<Rightarrow> Q v"
    using assms I by (cases "fst (m s)") (auto simp: abind_split reads_def yields_def)
qed

lemma yields_last:
  assumes "yields I P m" and "\<And>x. P x \<Longrightarrow> yields (\<lambda>_. True) Q (f x)"
  shows "yields I Q (abind m f)"
  unfolding yields_def
proof (intro allI impI)
  fix s assume I: "I s"
  show "case fst (abind m f s) of Inl (Problem p) \<Rightarrow> problem_ok p | Inl _ \<Rightarrow> True | Inr v \<Rightarrow> Q v"
    using assms I by (cases "fst (m s)") (auto simp: abind_split yields_def)
qed

lemma yields_weak: "yields (\<lambda>_. True) Q m \<Longrightarrow> yields I Q m"
  by (auto simp: yields_def)

lemma yields_any [yielding]: "yields I (\<lambda>_. True) (engine dp name m)" "yields I (\<lambda>_. True) (with_client dp name n)"
  by (auto simp: yields_def engine_def with_client_def Let_def thrown_of_def split: prod.splits sum.splits if_splits exn.splits)

lemma refuse_ok [yielding]: "status \<in> {400, 401, 403, 404} \<Longrightarrow> problem_ok (refuse status c m)"
  by (auto simp: refuse_def api_problem_ok)

text \<open>A command yields what it returns on the database of the state.\<close>

lemma yields_engine: "(\<And>s x d'. I s \<Longrightarrow> m (st_db s) = Inr (x, d') \<Longrightarrow> Q x) \<Longrightarrow> yields I Q (engine dp name m)"
  by (fastforce simp: yields_def engine_def run_tx_def split: prod.splits sum.splits if_splits option.splits)

lemma reads_basic: "reads (areturn v)" "reads (athrow e)" "reads (aguard b p)"
  by (simp_all add: reads_def areturn_def athrow_def aguard_def)

lemma reads_bind: "reads m \<Longrightarrow> (\<And>x. reads (f x)) \<Longrightarrow> reads (abind m f)"
  by (simp add: reads_def abind_split split: sum.split)

lemma reads_engine: "reads (engine dp name (tget f))"
  by (auto simp: reads_def engine_def run_tx_def tget_def split: option.splits prod.splits sum.splits)

lemma reads_client: "(\<And>s. n s = Inr (g s, s)) \<Longrightarrow> reads (with_client dp name n)"
  by (auto simp: reads_def with_client_def withClient_def Let_def split: acquire_result.splits)

lemma yields_requireKey: "yields I (\<lambda>_. True) (requireKey key)" "reads (requireKey key)"
  by (auto simp: requireKey_def yields_return yields_throw refuse_ok reads_basic split: option.split)

lemma yields_scope: "yields I (\<lambda>_. True) (assertVenueInScope k v)" "reads (assertVenueInScope k v)"
  by (simp_all add: assertVenueInScope_def yields_guard refuse_ok reads_basic)

lemma yields_at_venue: "(\<And>k w. yields I Q (f k w)) \<Longrightarrow> yields I Q (at_venue key v f)"
  unfolding at_venue_def
  by (rule yields_bind [OF yields_requireKey], rule yields_bind [OF yields_scope])

lemma yields_venueInScope: "yields I (\<lambda>_. True) (venueInScope dp k i)" "reads (venueInScope dp k i)"
  unfolding venueInScope_def
  by (rule yields_bind [OF yields_any(1) reads_engine], simp add: yields_return yields_throw refuse_ok split: option.split)
    (intro reads_bind reads_engine, simp add: reads_basic split: option.split)

lemma yields_outcome: "(\<And>x ids. out = Admin_ok x ids \<Longrightarrow> yields I Q (f x ids)) \<Longrightarrow> yields I Q (admin_outcome out f)"
proof (cases out)
  case (Admin_refused c m ids)
  then show ?thesis
    by (simp add: admin_outcome_def VStrs_def, intro yields_throw problemFor_ok) (auto simp: extension_ok_def)
qed (simp add: admin_outcome_def)

section \<open>Every handler answers what its route declares\<close>

definition declared :: "route \<Rightarrow> reply \<Rightarrow> bool" where
  "declared r x \<longleftrightarrow> (\<exists>d z. (fst x, d, JsonSchema z) \<in> set (rt_responses r) \<and> output_ok z (fst (snd x)))"

text \<open>The layouts of the units are objects: the only text \<open>jsonText\<close> lets through.\<close>

definition layouts_ok :: "api_state \<Rightarrow> bool" where
  "layouts_ok s \<longleftrightarrow> (\<forall>u\<in>set (units (st_db s)). \<exists>fs. u_layout u = VObj fs)"

lemma in_any [simp]: "in_bounds None None x" by (simp add: in_bounds_def)

lemma VStrs_ok [simp]: "output_ok (zarray zstring) (VStrs ss)"
  by (simp add: VStrs_def list_all_iff)

lemma VText_ok [simp]: "output_ok (ZNullable zstring) (VText s)"
  by (simp add: VText_def split: option.split)

lemma assignment_ok: "output_ok (assignment_schema zstring zstring) (assignment_json a)"
  "output_ok (assignment_schema (ZEnum [''unit'', ''combo'']) zstring) (assignment_json a)"
  by (cases "a_kind a"; simp add: assignment_schema_def assignment_json_def)+

lemma views_ok:
  "output_ok ReceiptSchema (toReceipt rc)" "output_ok ComboSchema (toCombo c)" "output_ok ScheduleSchema (toSchedule sv)"
  "output_ok BlackoutSchema (toBlackout bl)" "output_ok KeySchema (toKey k)"
  "uv_layout u = VObj fs \<Longrightarrow> output_ok UnitSchema (toUnit u)"
  by (simp_all add: response_schemas toReceipt_def VStrs_def VText_def toCombo_def toSchedule_def toBlackout_def toKey_def toUnit_def list_all_iff split_beta split: option.split)

lemma yields_respond: "(st, d, JsonSchema z) \<in> set (rt_responses r) \<Longrightarrow> output_ok z (VObj fs) \<Longrightarrow> yields I (declared r) (respond st fs)"
  unfolding respond_def by (rule yields_return) (auto simp: declared_def)

lemma in_answers: "(st, d, JsonSchema z) \<in> set (answers st d z)"
  by (simp add: answers_def)

lemmas lists_ok = response_schemas [THEN arg_cong, of output_ok]

lemma reply_schemas:
  "output_ok HoldResponseSchema (VObj [(''receipt'', toReceipt rc), (''hold_expires_at'', VStr e), (''replayed'', VBool b)])"
  "output_ok HoldListSchema (VObj [(''holds'', VArr (map (hold_json dp) hs))])"
  "output_ok AvailabilityResponseSchema (VObj [(''slots'', VArr (map slot_json ss)), (''truncated'', VBool b)])"
  "output_ok ReservationSchema (VObj (reservation_json dp rv))"
  "output_ok ReceiptResponseSchema (VObj [(''receipt'', toReceipt rc)])"
  "output_ok MintResponseSchema (VObj [(''confirm_token'', VStr tk), (''version'', VInt n)])"
  "output_ok ComboListSchema (VObj [(''combos'', VArr (map toCombo cs))])"
  "output_ok ComboResponseSchema (VObj [(''combo'', toCombo c)])"
  "output_ok ComboChangeSchema (VObj [(''combo'', toCombo c), (''cancelled'', VStrs ids)])"
  "output_ok ScheduleListSchema (VObj [(''schedules'', VArr (map toSchedule svs))])"
  "output_ok ScheduleResponseSchema (VObj [(''schedule'', toSchedule sv)])"
  "output_ok BlackoutListSchema (VObj [(''blackouts'', VArr (map toBlackout bls))])"
  "output_ok BlackoutChangeSchema (VObj [(''blackout'', toBlackout bl), (''cancelled'', VStrs ids)])"
  "output_ok KeyListSchema (VObj [(''keys'', VArr (map toKey ks))])"
  "output_ok KeyResponseSchema (VObj [(''key'', toKey k)])"
  "output_ok KeyCreatedSchema (VObj [(''key'', toKey k), (''secret'', VStr t)])"
  using assignment_ok views_ok(1-5)
  by (simp_all add: HoldResponseSchema_def HoldListSchema_def AvailabilityResponseSchema_def ReservationSchema_def ReceiptResponseSchema_def MintResponseSchema_def
      ComboListSchema_def ComboResponseSchema_def ComboChangeSchema_def ScheduleListSchema_def ScheduleResponseSchema_def BlackoutListSchema_def
      BlackoutChangeSchema_def KeyListSchema_def KeyResponseSchema_def KeyCreatedSchema_def
      list_all_iff hold_json_def slot_json_def reservation_json_def VText_def VStrs_def split: option.split)

lemma unit_schemas:
  "(\<And>u. u \<in> set us \<Longrightarrow> \<exists>fs. uv_layout u = VObj fs) \<Longrightarrow> output_ok UnitListSchema (VObj [(''units'', VArr (map toUnit us))])"
  "\<exists>fs. uv_layout u = VObj fs \<Longrightarrow> output_ok UnitResponseSchema (VObj [(''unit'', toUnit u)])"
  "\<exists>fs. uv_layout u = VObj fs \<Longrightarrow> output_ok UnitChangeSchema (VObj [(''unit'', toUnit u), (''cancelled'', VStrs ids)])"
  using views_ok(6)
  by (auto simp: UnitListSchema_def UnitResponseSchema_def UnitChangeSchema_def list_all_iff VStrs_def)

lemma serializable_object: "json_input e v = Inr w \<Longrightarrow> w = v \<and> (\<exists>fs. v = VObj fs)"
  by (cases v) (auto simp: json_input_def jsonText_def split: if_splits)

lemma listUnits_layouts: "layouts_ok s \<Longrightarrow> u \<in> set (listUnits w now (st_db s)) \<Longrightarrow> \<exists>fs. uv_layout u = VObj fs"
  by (auto simp: listUnits_def adminRead_def unitView_def layouts_ok_def)

lemma createUnit_layout: "createUnit newId now ctx i d = Inr (u, d') \<Longrightarrow> \<exists>fs. uv_layout u = VObj fs"
proof -
  assume "createUnit newId now ctx i d = Inr (u, d')"
  then obtain layout where l: "check_opt (json_input (not_json_object ''layout'')) (cu_layout i) = Inr layout" and u: "uv_layout u = or_else layout (VObj [])"
    by (auto simp: createUnit_def rbind_eq_Inr adminTx_def in_transaction_def tbind_def tthen_def tx_eqs insert_unit_def unitView_def commit_def split: sum.splits if_splits)
  show ?thesis using l serializable_object by (cases layout) (auto simp: u or_else_def check_opt_def rbind_eq_Inr split: option.splits)
qed

lemma keeps_cancel_stranded [keeping]: "keeps units (cancel_stranded cx v ids reason)"
  unfolding cancel_stranded_def write_batch_def update_each_def enqueue_each_def by (intro keeping keeps_tfor)

lemma keeps_settleStranded [keeping]: "keeps units (settleStranded cx v s c what opts)"
  unfolding settleStranded_def Let_def by (intro keeping)

lemma settle_then_ok: "settle_then st w d = Inr (Admin_ok v ids, d') \<Longrightarrow> \<exists>d2. st d = Inr (Admin_ok () ids, d2) \<and> w d2 = Inr (v, d')"
proof -
  assume "settle_then st w d = Inr (Admin_ok v ids, d')"
  then obtain x d2 where x: "st d = Inr (x, d2)"
    "(case x of Admin_refused c m is \<Rightarrow> tret (Admin_refused c m is) | Admin_ok _ cancelled \<Rightarrow> tbind w (\<lambda>v. tret (Admin_ok v cancelled))) d2 = Inr (Admin_ok v ids, d')"
    unfolding settle_then_def tbind_Inr by blast
  then show ?thesis by (cases x) (auto simp: tbind_Inr tx_eqs)
qed

lemma tguard_Inr: "tguard b e d = Inr (x, d1) \<longleftrightarrow> b \<and> d1 = d"
  by (auto simp: tx_eqs)

lemma updateUnit_writes:
  assumes "find_unit d (uu_unitId i) (ax_venueId ctx) = Some cur" and "updateUnit_tx ctx i cx d = Inr (Admin_ok u ids, d1)"
  shows "\<exists>st c' what. settle_then (settleStranded cx (ax_venueId ctx) st c' what (uu_force i)) (unit_write ctx i cx) d = Inr (Admin_ok u ids, d1)"
  using assms by (simp add: updateUnit_tx_def tbind_Inr tthen_Inr tguard_Inr tx_eqs(1-4) Let_def unit_write_def cong: if_cong del: if_split) blast

lemma updateUnit_layout:
  assumes L: "\<forall>u\<in>set (units d). \<exists>fs. u_layout u = VObj fs" and up: "updateUnit now ctx i d = Inr (Admin_ok u ids, d')"
  shows "\<exists>fs. uv_layout u = VObj fs"
proof -
  from up obtain layout where l: "check_opt (json_input (not_json_object ''layout'')) (uu_layout i) = Inr layout"
    and w: "adminWrite now ctx (updateUnit_tx ctx i) d = Inr (Admin_ok u ids, d')" by (auto simp: updateUnit_def rbind_eq_Inr)
  have lay: "\<exists>fs. x = VObj fs" if "uu_layout i = Some x" for x
    using l that serializable_object by (auto simp: check_opt_def rbind_eq_Inr)
  let ?cx = "admin_session ctx now"
  from w obtain d1 where t: "updateUnit_tx ctx i ?cx d = Inr (Admin_ok u ids, d1)"
    by (auto simp: adminWrite_def split: sum.splits AdminOutcome.splits)
  then obtain cur where c: "find_unit d (uu_unitId i) (ax_venueId ctx) = Some cur"
    by (cases "find_unit d (uu_unitId i) (ax_venueId ctx)") (auto simp: updateUnit_tx_def tbind_def tx_eqs)
  then have "cur \<in> set (units d)" by (auto simp: find_unit_def dest: find_Some_D)
  with L obtain fs where fs: "u_layout cur = VObj fs" by blast
  from updateUnit_writes [OF c t] obtain stranded c' what where
    "settle_then (settleStranded ?cx (ax_venueId ctx) stranded c' what (uu_force i)) (unit_write ctx i ?cx) d = Inr (Admin_ok u ids, d1)" by blast
  from settle_then_ok [OF this] obtain d2 where
    s: "settleStranded ?cx (ax_venueId ctx) stranded c' what (uu_force i) d = Inr (Admin_ok () ids, d2)" and u: "unit_write ctx i ?cx d2 = Inr (u, d1)" by blast
  have "units d2 = units d" using keepsD [OF keeps_settleStranded s] .
  then have "find_unit d2 (uu_unitId i) (ax_venueId ctx) = Some cur" using c by (simp add: find_unit_def)
  with u have "u = unitView (updated_unit i cur)"
    by (auto simp: unit_write_def tbind_Inr tx_eqs update_unit_def Let_def rbind_eq_Inr)
  then show ?thesis using fs lay by (auto simp: unitView_def updated_unit_def or_else_def split: option.split)
qed

section \<open>The handlers\<close>

lemma yields_into: "yields I (\<lambda>_. True) m \<Longrightarrow> (\<And>x. yields (\<lambda>_. True) Q (f x)) \<Longrightarrow> yields I Q (abind m f)"
  by (rule yields_last)

text \<open>A route's success is the first response it declares.\<close>

lemma declared_answers: "rt_responses r = answers st d z \<Longrightarrow> output_ok z (VObj fs) \<Longrightarrow> yields I (declared r) (respond st fs)"
  by (rule yields_respond [of st d z]) (simp_all add: in_answers)

lemma route_answers:
  "rt_responses hold_route = answers 201 ''Held, or the stored success replayed'' HoldResponseSchema"
  "rt_responses confirm_route = answers 200 ''Confirmed'' ReceiptResponseSchema"
  "rt_responses cancel_route = answers 200 ''Cancelled'' ReceiptResponseSchema"
  "rt_responses seat_route = answers 200 ''Seated'' ReceiptResponseSchema"
  "rt_responses complete_route = answers 200 ''Completed'' ReceiptResponseSchema"
  by (simp_all add: route_defs venue_route_def)

lemma hold_yields: "yields I (declared hold_route) (hold_handler dp key t v)"
  unfolding hold_handler_def
proof (rule yields_at_venue, rule yields_into [OF yields_any(1)])
  fix k w out
  show "yields (\<lambda>_. True) (declared hold_route) (case out of
      HoldRefused c m b \<Rightarrow> athrow (Problem (problemFor c (Some m) [(''replayed'', VBool b)]))
    | HoldOk rc e b \<Rightarrow> respond 201 [(''receipt'', toReceipt rc), (''hold_expires_at'', VStr e), (''replayed'', VBool b)])"
    by (auto intro!: yields_throw problemFor_ok declared_answers [OF route_answers(1)] reply_schemas simp: extension_ok_def split: HoldOutcome.split)
qed

lemma change_yields:
  assumes "\<And>x. yields (\<lambda>_. True) (declared r) (rend x)"
  shows "yields I (declared r) (change_reservation name cmd rend dp key t v)"
  unfolding change_reservation_def
  by (rule yields_bind [OF yields_requireKey], rule yields_bind [OF yields_venueInScope], rule yields_into [OF yields_any(1) assms])

lemma receipt_yields: "rt_responses r = answers 200 d ReceiptResponseSchema \<Longrightarrow> yields I (declared r) (receipt_reply rc)"
  unfolding receipt_reply_def by (rule declared_answers, assumption, rule reply_schemas)

lemma confirm_yields: "yields I (declared confirm_route) (confirm_handler dp key t v)"
proof -
  have r: "yields I (declared confirm_route) (abind (engine dp ''confirm'' m) receipt_reply)" for I m
    by (rule yields_into [OF yields_any(1) receipt_yields [OF route_answers(2)]])
  have tk: "yields I (declared confirm_route) (confirm_by_token dp t v token)" for token
    unfolding confirm_by_token_def Let_def
    by (rule yields_into [OF yields_any(2)]) (auto intro!: yields_throw refuse_ok r split: option.split)
  show ?thesis
  proof (cases "get_field ''confirm_token'' (va_json v)")
    case None
    have "yields I (declared confirm_route) (abind (requireKey key) (\<lambda>k.
        if ''confirm'' \<notin> set (ak_capabilities k) then athrow (Problem (refuse 403 (Engine Forbidden) ''the key lacks the confirm capability''))
        else abind (venueInScope dp k (param v ''id'')) (\<lambda>venueId.
          abind (engine dp ''confirm'' (command (confirm (dp_sha dp) (dp_now dp)
            (lifecycle_input (param v ''id'') (key_actor k) t venueId (va_json v)) None))) receipt_reply)))"
      by (rule yields_bind [OF yields_requireKey]) (auto intro!: yields_throw refuse_ok yields_bind [OF yields_venueInScope] r)
    with None show ?thesis by (simp add: confirm_handler_def)
  next
    case (Some x)
    with tk show ?thesis by (simp add: confirm_handler_def)
  qed
qed

text \<open>A venue route over one command, whose result is rendered into the schema of its success.\<close>

lemma venue_yields:
  assumes "rt_responses r = answers st d z" and "\<And>x. output_ok z (VObj (show_it x))"
  shows "yields I (declared r) (at_venue key v (\<lambda>k w. abind (engine dp name (m k w)) (\<lambda>x. respond st (show_it x))))"
  by (rule yields_at_venue, rule yields_into [OF yields_any(1)], rule declared_answers [OF assms(1)], rule assms(2))

lemma outcome_yields:
  assumes "rt_responses r = answers st d z" and "\<And>x ids. output_ok z (VObj (show_it x ids))"
  shows "yields I (declared r) (at_venue key v (\<lambda>k w. abind (engine dp name (m k w)) (\<lambda>out. admin_outcome out (\<lambda>x ids. respond st (show_it x ids)))))"
  by (rule yields_at_venue, rule yields_into [OF yields_any(1)], rule yields_outcome, rule declared_answers [OF assms(1)], rule assms(2))

lemma answers_of: "rt_responses (venue_route m url cap params body (answers st d z)) = answers st d z"
  by (simp add: venue_route_def)

lemma simple_yields:
  "yields I (declared list_holds_route) (list_holds_handler dp key t v)"
  "yields I (declared create_combo_route) (create_combo_handler dp key t v)"
  "yields I (declared list_combos_route) (list_combos_handler dp key t v)"
  "yields I (declared list_schedules_route) (list_schedules_handler dp key t v)"
  "yields I (declared create_schedule_route) (create_schedule_handler dp key t v)"
  "yields I (declared update_schedule_route) (update_schedule_handler dp key t v)"
  unfolding list_holds_handler_def create_combo_handler_def list_combos_handler_def list_schedules_handler_def create_schedule_handler_def update_schedule_handler_def
  by (rule venue_yields, simp add: route_defs venue_route_def, rule reply_schemas)+

lemma blackouts_yield: "yields I (declared list_blackouts_route) (list_blackouts_handler dp key t v)"
  unfolding list_blackouts_handler_def
  by (rule venue_yields [of _ 200 "''The blackouts overlapping the window''" BlackoutListSchema]) (simp add: route_defs venue_route_def, rule reply_schemas)

lemma outcomes_yield:
  "yields I (declared update_combo_route) (update_combo_handler dp key t v)"
  "yields I (declared create_blackout_route) (create_blackout_handler dp key t v)"
  "yields I (declared update_blackout_route) (update_blackout_handler dp key t v)"
  unfolding update_combo_handler_def create_blackout_handler_def update_blackout_handler_def
  by (rule outcome_yields, simp add: route_defs venue_route_def, rule reply_schemas)+

lemma availability_yields: "yields I (declared availability_route) (availability_handler dp key t v)"
proof -
  have r: "yields I (\<lambda>_. True) (read_availability dp i)" for I i
    unfolding yields_def read_availability_def Let_def
    by (auto simp: abind_split engine_def areturn_def split: prod.split sum.split)
  show ?thesis
    unfolding availability_handler_def Let_def
    by (rule yields_at_venue, rule yields_into [OF r], simp add: split_beta,
        rule declared_answers [of _ 200 "''The bookable slots in start order, and whether the list was cut short''" AvailabilityResponseSchema])
      (simp add: availability_route_def venue_route_def, rule reply_schemas)
qed

lemma read_yields: "yields I (declared read_route) (read_handler dp key t v)"
proof -
  have c: "yields I (declared read_route) (case found of None \<Rightarrow> athrow (Problem (refuse 404 (Engine Not_found) ''no such reservation''))
      | Some r \<Rightarrow> respond 200 (reservation_json dp r))" for I found
    by (cases found) (auto intro!: yields_throw refuse_ok declared_answers [of _ 200 "''The reservation''" ReservationSchema] reply_schemas simp: read_route_def venue_route_def)
  show ?thesis unfolding read_handler_def
    by (rule yields_bind [OF yields_requireKey], rule yields_bind [OF yields_venueInScope], rule yields_into [OF yields_any(1) c])
qed

lemma changes_yield:
  "yields I (declared cancel_route) (cancel_handler dp key t v)"
  "yields I (declared seat_route) (seat_handler dp key t v)"
  "yields I (declared complete_route) (complete_handler dp key t v)"
  unfolding cancel_handler_def seat_handler_def complete_handler_def
  by (rule change_yields, rule receipt_yields, rule route_answers)+

lemma mint_yields: "yields I (declared mint_route) (mint_handler dp key t v)"
  unfolding mint_handler_def
  by (rule change_yields) (simp add: split_beta, rule declared_answers [of _ 201 "''Minted''" MintResponseSchema], simp add: mint_route_def venue_route_def, rule reply_schemas)

lemma keys_yield:
  "yields I (declared list_keys_route) (list_keys_handler dp key t v)"
  "yields I (declared create_key_route) (create_key_handler dp key t v)"
  "yields I (declared revoke_key_route) (revoke_key_handler dp key t v)"
proof -
  have l: "yields I (\<lambda>_. True) (listVenueKeys dp w)" for I w by (simp add: listVenueKeys_def yields_any)
  have c: "yields I (\<lambda>_. True) (createVenueKey dp w lb cs)" for I w lb cs
    unfolding createVenueKey_def by (rule yields_into [OF yields_any(2)]) (auto intro!: yields_throw yields_return refuse_ok split: option.split)
  have r: "yields I (\<lambda>_. True) (revokeVenueKey dp w i)" for I w i
    unfolding revokeVenueKey_def by (rule yields_into [OF yields_any(2)]) (auto intro!: yields_throw yields_return refuse_ok split: option.split)
  show "yields I (declared list_keys_route) (list_keys_handler dp key t v)"
    unfolding list_keys_handler_def by (rule yields_at_venue, rule yields_into [OF l], rule declared_answers)
      (simp add: list_keys_route_def venue_route_def, rule reply_schemas)
  show "yields I (declared create_key_route) (create_key_handler dp key t v)"
    unfolding create_key_handler_def Let_def
  proof (rule yields_at_venue, rule yields_into [OF c], simp add: split_beta, rule yields_return)
    fix x :: "KeyView \<times> string"
    show "declared create_key_route (201, VObj [(''key'', toKey (fst x)), (''secret'', VStr (snd x))], [(''Cache-Control'', ''no-store'')])"
      unfolding declared_def using reply_schemas(16) in_answers by (fastforce simp: create_key_route_def venue_route_def)
  qed
  show "yields I (declared revoke_key_route) (revoke_key_handler dp key t v)"
    unfolding revoke_key_handler_def by (rule yields_at_venue, rule yields_into [OF r], rule declared_answers)
      (simp add: revoke_key_route_def venue_route_def, rule reply_schemas)
qed

lemma units_yield:
  "yields layouts_ok (declared list_units_route) (list_units_handler dp key t v)"
  "yields layouts_ok (declared create_unit_route) (create_unit_handler dp key t v)"
  "yields layouts_ok (declared update_unit_route) (update_unit_handler dp key t v)"
proof -
  have l: "yields layouts_ok (\<lambda>us. \<forall>u\<in>set us. \<exists>fs. uv_layout u = VObj fs) (engine dp ''listUnits'' (tget (listUnits w now)))" for w now
    by (rule yields_engine) (auto simp: tget_def dest: listUnits_layouts)
  have c: "yields layouts_ok (\<lambda>u. \<exists>fs. uv_layout u = VObj fs) (engine dp ''createUnit'' (command (createUnit i now ctx input)))" for i now ctx input
    by (rule yields_engine) (auto simp: command_def dest: createUnit_layout split: sum.splits)
  have u: "yields layouts_ok (\<lambda>out. \<forall>u ids. out = Admin_ok u ids \<longrightarrow> (\<exists>fs. uv_layout u = VObj fs)) (engine dp ''updateUnit'' (command (updateUnit now ctx input)))" for now ctx input
    by (rule yields_engine) (auto simp: command_def layouts_ok_def dest: updateUnit_layout split: sum.splits)
  show "yields layouts_ok (declared list_units_route) (list_units_handler dp key t v)"
    unfolding list_units_handler_def
    by (rule yields_at_venue, rule yields_last [OF l], rule declared_answers) (simp add: list_units_route_def venue_route_def, rule unit_schemas, blast)
  show "yields layouts_ok (declared create_unit_route) (create_unit_handler dp key t v)"
    unfolding create_unit_handler_def
    by (rule yields_at_venue, rule yields_last [OF c], rule declared_answers) (simp add: create_unit_route_def venue_route_def, rule unit_schemas)
  show "yields layouts_ok (declared update_unit_route) (update_unit_handler dp key t v)"
    unfolding update_unit_handler_def
    by (rule yields_at_venue, rule yields_last [OF u], rule yields_outcome, rule declared_answers) (simp add: update_unit_route_def venue_route_def, rule unit_schemas, blast)
qed

lemma app_yields: "(r, h) \<in> set app \<Longrightarrow> rt_capability r \<noteq> None \<Longrightarrow> yields layouts_ok (declared r) (h dp key t v)"
proof -
  have "list_all (\<lambda>(r, h). rt_capability r \<noteq> None \<longrightarrow> (\<forall>dp key t v. yields layouts_ok (declared r) (h dp key t v))) app"
    unfolding app_def list.pred_inject prod.case
    by (intro conjI impI allI TrueI;
        (rule simple_yields blackouts_yield outcomes_yield availability_yields read_yields changes_yield mint_yields keys_yield units_yield hold_yields confirm_yields
          | simp add: live_route_def ready_route_def))
  then show "(r, h) \<in> set app \<Longrightarrow> rt_capability r \<noteq> None \<Longrightarrow> yields layouts_ok (declared r) (h dp key t v)"
    unfolding list_all_iff by blast
qed

lemma app_routes: "map fst app = routes"
  by (simp add: app_def routes_def)

lemma venue_answers:
  "\<exists>st' d' z'. rt_responses (venue_route m url cap ps b (answers st d z)) = answers st' d' z'"
  "\<exists>st' d' z'. rt_responses ((venue_route m url cap ps b (answers st d z))\<lparr>rt_capability := c\<rparr>) = answers st' d' z'"
  "\<exists>st' d' z'. rt_responses ((venue_route m url cap ps b (answers st d z))\<lparr>rt_headers := hs\<rparr>) = answers st' d' z'"
  "\<exists>st' d' z'. rt_responses ((venue_route m url cap ps b (answers st d z))\<lparr>rt_query := q\<rparr>) = answers st' d' z'"
  by (auto simp: venue_route_def)

lemma capability_problems: "r \<in> set routes \<Longrightarrow> rt_capability r \<noteq> None \<Longrightarrow> \<exists>st d z. rt_responses r = answers st d z"
proof -
  have "list_all (\<lambda>r. rt_capability r \<noteq> None \<longrightarrow> (\<exists>st d z. rt_responses r = answers st d z)) routes"
    unfolding routes_def list.pred_inject
    by (intro conjI impI TrueI; (simp add: live_route_def ready_route_def; fail | unfold route_defs, rule venue_answers))
  then show "r \<in> set routes \<Longrightarrow> rt_capability r \<noteq> None \<Longrightarrow> \<exists>st d z. rt_responses r = answers st d z"
    unfolding list_all_iff by blast
qed

lemma problem_status: "problem_ok p \<Longrightarrow> \<exists>d. (ap_status p, d, problemContent) \<in> set problemResponses"
  unfolding problem_ok_def problemResponses_def by fastforce

lemma yields_capability: "yields I (\<lambda>_. True) (capability_of dp r q)" "reads (capability_of dp r q)"
proof -
  have f: "yields I (\<lambda>_. True) (findKey dp p)" "reads (findKey dp p)" for I p
    by (auto simp: findKey_def yields_return yields_any reads_basic intro!: reads_client)
  have k: "yields I (\<lambda>_. True) (case BEARER_RE h of None \<Rightarrow> areturn None | Some p \<Rightarrow> findKey dp p)" "reads (case BEARER_RE h of None \<Rightarrow> areturn None | Some p \<Rightarrow> findKey dp p)" for I h
    by (auto simp: yields_return f reads_basic split: option.split)
  have c: "yields I (\<lambda>_. True) (requireCapability dp c b h)" "reads (requireCapability dp c b h)" for I c b h
    unfolding requireCapability_def
    by (cases h; simp add: yields_throw refuse_ok reads_basic; (rule yields_bind [OF k] reads_bind [OF k(2)])?;
        auto intro!: yields_throw yields_return refuse_ok simp: reads_basic split: option.split)+
  show "yields I (\<lambda>_. True) (capability_of dp r q)" "reads (capability_of dp r q)"
    unfolding capability_of_def by (auto intro!: c yields_return simp: reads_basic split: option.split)
qed

lemma handle_yields:
  assumes "(r, h) \<in> set app" and "rt_capability r \<noteq> None"
  shows "yields layouts_ok (declared r) (handle dp (r, h) q)"
proof -
  have b: "yields I (\<lambda>_. True) (body_limit q)" "reads (body_limit q)" for I by (simp_all add: body_limit_def yields_guard refuse_ok reads_basic)
  have v: "yields layouts_ok (declared r) (case dp_validate dp r q of Inl rej \<Rightarrow> athrow (defaultHook rej) | Inr v \<Rightarrow> h dp key (trace_of dp q) v)" for key
  proof (cases "dp_validate dp r q")
    case (Inl rej)
    have "yields layouts_ok (declared r) (athrow (defaultHook rej))"
      by (cases rej) (simp_all add: defaultHook_def yields_throw refuse_ok, simp add: yields_def athrow_def)
    with Inl show ?thesis by simp
  next
    case (Inr w)
    with app_yields [OF assms] show ?thesis by simp
  qed
  show ?thesis unfolding handle_def fst_conv snd_conv
    by (rule yields_bind [OF b], rule yields_bind [OF yields_capability], rule v)
qed

text \<open>
  C9: whatever a request asks of a route that needs a credential, and whatever the database, the pool or the framework
  does, the response is one the client's types declare for that route: its status, its media type and its body.
\<close>

theorem responses_are_declared:
  assumes "(r, h) \<in> set app" and "rt_capability r \<noteq> None" and "layouts_ok s"
  shows "\<exists>oper. find_operation client_paths (rt_url r) (rt_method r) = Some oper
    \<and> (let x = fst (serve dp (r, h) q s) in declared_response client_schemas oper (rs_status x) (rs_type x) (rs_body x))"
proof (intro exI conjI)
  have r: "r \<in> set routes" using assms(1) app_routes by (metis fst_conv image_eqI set_map)
  show "find_operation client_paths (rt_url r) (rt_method r) = Some (operation_of r)" by (rule route_found [OF r])
  note y = handle_yields [OF assms(1,2), of dp q, unfolded yields_def, rule_format, OF assms(3)]
  have ct: "media_type (media_of (JsonSchema z)) = ''application/json''" "media_type (media_of problemContent) = ''application/problem+json''"
    "media_schema problemContent = ProblemSchema" for z by (simp_all add: media_of_simps(2) problemContent_def media_schema_def)
  show "let x = fst (serve dp (r, h) q s) in declared_response client_schemas (operation_of r) (rs_status x) (rs_type x) (rs_body x)"
  proof (cases "fst (handle dp (r, h) q s)")
    case (Inl e)
    have p: "problem_ok (fromUnknown e)" by (rule fromUnknown_ok) (use y Inl in simp)
    from capability_problems [OF r assms(2)] obtain st d z where a: "rt_responses r = answers st d z" by blast
    from p obtain d' where "(ap_status (fromUnknown e), d', problemContent) \<in> set problemResponses"
      using problem_status by blast
    then have "(ap_status (fromUnknown e), d', problemContent) \<in> set (rt_responses r)" by (simp add: a answers_def)
    from response_declared [OF r this, unfolded ct, OF problemBody_ok [OF p]] show ?thesis
      using Inl by (simp add: serve_def split_beta render_def Let_def)
  next
    case (Inr x)
    with y obtain d z where z: "(fst x, d, JsonSchema z) \<in> set (rt_responses r)" "output_ok z (fst (snd x))" by (auto simp: declared_def)
    from response_declared [OF r z(1), unfolded ct, of "fst (snd x)"] z(2) show ?thesis
      using Inr by (simp add: serve_def split_beta render_def Let_def media_schema_def)
  qed
qed

section \<open>A server\<close>

definition calm :: call_world where
  "calm = \<lparr>w_acquire = Connected, w_in_time = True, w_in_grace = True, w_committed = False, w_probe = Probe_ok, w_lost = False\<rparr>"

definition demo_deps :: deps where
  "demo_deps = \<lparr>dp_env = demo_env 0 ''r1'', dp_now = 0, dp_random = replicate 43 CHR ''a'', dp_newId = ''key1'', dp_newTrace = ''t1'',
     dp_options = default_options, dp_limits = \<lparr>rl_acquireMs = 5000, rl_readMs = 12000\<rparr>, dp_world = (\<lambda>_. calm),
     dp_validate = (\<lambda>r q. Inr \<lparr>va_params = VObj (map (\<lambda>(k, x). (k, VStr x)) (rq_params q)), va_header = VObj [], va_query = VObj [], va_json = VObj []\<rparr>),
     dp_range_text = (\<lambda>_. []), dp_migrations = (Inr [], Inr [])\<rparr>"

definition demo_state :: api_state where
  "demo_state = \<lparr>st_db = held_db, st_keys = [], st_cache = new_cache 64\<rparr>"

definition demo_request :: "(string \<times> string) list \<Rightarrow> request" where
  "demo_request ps = \<lparr>rq_trace = None, rq_authorization = None, rq_params = ps, rq_headers = [], rq_query = [], rq_body = No_body\<rparr>"

lemma demo_layouts: "layouts_ok demo_state"
  by (simp add: layouts_ok_def demo_state_def held_db_def demo_db_def demo_unit_def)

theorem responses_are_declared_witness:
  "(\<exists>oper. find_operation client_paths (rt_url hold_route) (rt_method hold_route) = Some oper
      \<and> (let x = fst (serve demo_deps (hold_route, hold_handler) (demo_request []) demo_state) in
          declared_response client_schemas oper (rs_status x) (rs_type x) (rs_body x)))
   \<and> rs_status (fst (serve demo_deps (hold_route, hold_handler) (demo_request []) demo_state)) = 401"
proof
  have "(hold_route, hold_handler) \<in> set app" by (simp add: app_def)
  moreover have c: "rt_capability hold_route = Some (''hold'', False)" by (simp add: hold_route_def venue_route_def)
  ultimately show "\<exists>oper. find_operation client_paths (rt_url hold_route) (rt_method hold_route) = Some oper
      \<and> (let x = fst (serve demo_deps (hold_route, hold_handler) (demo_request []) demo_state) in
          declared_response client_schemas oper (rs_status x) (rs_type x) (rs_body x))"
    by (intro responses_are_declared [OF _ _ demo_layouts]) simp_all
  show "rs_status (fst (serve demo_deps (hold_route, hold_handler) (demo_request []) demo_state)) = 401"
    by (simp add: serve_def handle_def abind_def body_limit_def aguard_def areturn_def demo_request_def capability_of_def c requireCapability_def
        athrow_def render_def fromUnknown_def refuse_def api_problem_def Let_def)
qed

section \<open>Keys\<close>

text \<open>A call that gets its connection and settles in time.\<close>

definition in_time :: "deps \<Rightarrow> string \<Rightarrow> bool" where
  "in_time dp name \<longleftrightarrow> w_acquire (dp_world dp name) = Connected \<and> w_in_time (dp_world dp name)"

lemma with_client_in_time:
  assumes "in_time dp name"
  shows "with_client dp name m s = (case m s of Inl e \<Rightarrow> (Inl (thrown_of e), s) | Inr (v, s') \<Rightarrow> (Inr v, s'))"
  using assms by (simp add: in_time_def with_client_def withClient_def Let_def split: sum.split prod.split)

lemma findKey_in_time:
  assumes "in_time dp ''findKey''"
  shows "findKey dp p s = (Inr (if KEY_RE p then map_option (\<lambda>k. \<lparr>ak_id = k_id k, ak_capabilities = k_capabilities k, ak_venueIds = k_venue_ids k\<rparr>)
      (find (\<lambda>k. k_hash k = hashKey dp p \<and> k_revoked_at k = None) (st_keys s)) else None), s)"
  by (simp add: findKey_def areturn_def with_client_in_time [OF assms])

lemma createVenueKey_effect:
  assumes "in_time dp ''createVenueKey''" and "createVenueKey dp v lb caps s = (Inr (kv, secret), s')"
  defines "k \<equiv> \<lparr>k_id = dp_newId dp, k_label = lb, k_hash = dp_sha dp secret, k_capabilities = caps, k_venue_ids = Some [v], k_created_at = dp_now dp, k_revoked_at = None\<rparr>"
  shows "secret = ''dsk_'' @ dp_random dp" "kv = toView k" "s' = s\<lparr>st_keys := st_keys s @ [k]\<rparr>"
    "k_id k \<notin> k_id ` set (st_keys s)" "k_hash k \<notin> k_hash ` set (st_keys s)" "find_venue (st_db s) v \<noteq> None"
proof -
  have f: "find (\<lambda>x. k_id x = i) (xs @ [y]) = Some y" if "i \<notin> k_id ` set xs" "k_id y = i" for i xs y
    using that by (induction xs) auto
  from assms(2) show "secret = ''dsk_'' @ dp_random dp" "kv = toView k" "s' = s\<lparr>st_keys := st_keys s @ [k]\<rparr>"
    "k_id k \<notin> k_id ` set (st_keys s)" "k_hash k \<notin> k_hash ` set (st_keys s)" "find_venue (st_db s) v \<noteq> None"
    unfolding createVenueKey_def abind_def with_client_in_time [OF assms(1)] k_def
    by (auto simp: createKey_def insert_key_def hashKey_def Let_def athrow_def areturn_def f split: if_splits option.splits sum.splits prod.splits)
qed

lemma find_snoc: "find P (xs @ [y]) = (case find P xs of None \<Rightarrow> if P y then Some y else None | Some x \<Rightarrow> Some x)"
  by (induction xs) auto

lemma find_none: "(\<And>x. x \<in> set xs \<Longrightarrow> \<not> P x) \<Longrightarrow> find P xs = None"
  by (auto simp: find_None_iff)

text \<open>
  C19: the secret \<open>createVenueKey\<close> returns is the venue's key at once, with its capabilities and that venue only; no other
  venue can revoke it; its own venue can, and from then on the secret opens nothing; no other key is touched by either.
\<close>

theorem key_lifecycle:
  assumes "in_time dp ''createVenueKey''" and "createVenueKey dp v label caps s = (Inr (kv, secret), s')" and "KEY_RE secret"
    and "in_time dp1 ''findKey''" and "dp_sha dp1 = dp_sha dp" and "in_time dp2 ''revokeVenueKey''"
  shows "findKey dp1 secret s' = (Inr (Some \<lparr>ak_id = kv_id kv, ak_capabilities = caps, ak_venueIds = Some [v]\<rparr>), s')
    \<and> (\<forall>w. w \<noteq> v \<longrightarrow> revokeVenueKey dp2 w (kv_id kv) s' = (Inl (Problem (refuse 404 (Engine Not_found) ''no such key'')), s'))
    \<and> (\<exists>rv s''. revokeVenueKey dp2 v (kv_id kv) s' = (Inr rv, s'') \<and> kv_revokedAt rv = Some (toISOString (dp_now dp2))
        \<and> findKey dp1 secret s'' = (Inr None, s'')
        \<and> (\<forall>p. dp_sha dp p \<noteq> dp_sha dp secret \<longrightarrow> fst (findKey dp1 p s') = fst (findKey dp1 p s) \<and> fst (findKey dp1 p s'') = fst (findKey dp1 p s)))"
proof -
  define k where "k = \<lparr>k_id = dp_newId dp, k_label = label, k_hash = dp_sha dp secret, k_capabilities = caps, k_venue_ids = Some [v], k_created_at = dp_now dp, k_revoked_at = None\<rparr>"
  note e = createVenueKey_effect [OF assms(1,2), folded k_def]
  note h = hashKey_def assms(5)
  have kv: "kv_id kv = k_id k" by (simp add: e(2) toView_def)
  have keys: "st_keys s' = st_keys s @ [k]" by (simp add: e(3))
  have fresh: "x \<in> set (st_keys s) \<Longrightarrow> k_id x \<noteq> k_id k \<and> k_hash x \<noteq> k_hash k" for x using e(4,5) by (auto simp: image_iff)
  have k: "k_hash k = dp_sha dp secret" "k_capabilities k = caps" "k_venue_ids k = Some [v]" "k_revoked_at k = None" by (simp_all add: k_def)
  have first: "findKey dp1 secret s' = (Inr (Some \<lparr>ak_id = kv_id kv, ak_capabilities = caps, ak_venueIds = Some [v]\<rparr>), s')"
    using fresh k by (simp add: findKey_in_time [OF assms(4)] assms(3) keys find_snoc find_none h kv)
  have other: "revokeVenueKey dp2 w (kv_id kv) s' = (Inl (Problem (refuse 404 (Engine Not_found) ''no such key'')), s')" if "w \<noteq> v" for w
    using that fresh k unfolding revokeVenueKey_def abind_def with_client_in_time [OF assms(6)]
    by (simp add: keys find_snoc find_none kv athrow_def)
  define s'' where "s'' = s'\<lparr>st_keys := st_keys s @ [revoked_row (dp_now dp2) k]\<rparr>"
  have same: "map (\<lambda>x. if k_id x = k_id k \<and> k_venue_ids x = Some [v] then revoked_row (dp_now dp2) x else x) (st_keys s) = st_keys s"
    using fresh by (auto intro: map_idI)
  have r: "revokeVenueKey dp2 v (kv_id kv) s' = (Inr (toView (revoked_row (dp_now dp2) k)), s'')"
    using fresh k same unfolding revokeVenueKey_def abind_def with_client_in_time [OF assms(6)] s''_def
    by (simp add: keys find_snoc find_none kv areturn_def)
  have rk: "k_hash (revoked_row t k) = k_hash k" "k_revoked_at (revoked_row t k) = Some t" for t
    by (simp_all add: revoked_row_def or_else_def k)
  have gone: "findKey dp1 secret s'' = (Inr None, s'')"
    using fresh k by (simp add: findKey_in_time [OF assms(4)] s''_def find_snoc find_none h rk)
  have apart: "fst (findKey dp1 p s') = fst (findKey dp1 p s) \<and> fst (findKey dp1 p s'') = fst (findKey dp1 p s)" if "dp_sha dp p \<noteq> dp_sha dp secret" for p
    using that k by (simp add: findKey_in_time [OF assms(4)] s''_def keys find_snoc h rk split: option.split)
  have "kv_revokedAt (toView (revoked_row (dp_now dp2) k)) = Some (toISOString (dp_now dp2))" by (simp add: toView_def rk)
  with first other r gone apart show ?thesis by blast
qed

theorem key_lifecycle_witness:
  "\<exists>kv secret s'. createVenueKey demo_deps ''v'' ''desk'' [''hold''] demo_state = (Inr (kv, secret), s')
     \<and> fst (findKey demo_deps secret s') = Inr (Some \<lparr>ak_id = ''key1'', ak_capabilities = [''hold''], ak_venueIds = Some [''v'']\<rparr>)"
proof -
  have t: "in_time demo_deps name" for name by (simp add: in_time_def demo_deps_def calm_def)
  have v: "find_venue held_db ''v'' \<noteq> None" by (simp add: find_venue_def held_db_def demo_db_def demo_venue_def)
  obtain kv s' where c: "createVenueKey demo_deps ''v'' ''desk'' [''hold''] demo_state = (Inr (kv, ''dsk_'' @ dp_random demo_deps), s')" and i: "kv_id kv = ''key1''"
    using v unfolding createVenueKey_def abind_def with_client_in_time [OF t]
    by (auto simp: demo_state_def createKey_def insert_key_def Let_def areturn_def toView_def, simp add: demo_deps_def)
  have "KEY_RE (''dsk_'' @ dp_random demo_deps)" by (simp add: KEY_RE_def demo_deps_def key_char_def list_all_iff)
  from key_lifecycle [OF t c this t refl t, THEN conjunct1] c i show ?thesis by auto
qed

section \<open>Other venues\<close>

definition no_such_venue :: "api_state \<Rightarrow> (thrown + reply) \<times> api_state" where
  "no_such_venue s = (Inl (Problem (refuse 404 (Engine Not_found) ''no such venue'')), s)"

definition no_such_reservation :: "api_state \<Rightarrow> (thrown + reply) \<times> api_state" where
  "no_such_reservation s = (Inl (Problem (refuse 404 (Engine Not_found) ''no such reservation'')), s)"

text \<open>The routes on one reservation; every other that needs a key is on a venue.\<close>

definition on_reservation :: "route \<Rightarrow> bool" where
  "on_reservation r \<longleftrightarrow> take 17 (rt_url r) = ''/v1/reservations/''"

definition unseen :: "ApiKey \<Rightarrow> string \<Rightarrow> db \<Rightarrow> bool" where
  "unseen k i d \<longleftrightarrow> (case findReservationVenue i d of None \<Rightarrow> True | Some w \<Rightarrow> \<not> in_scope k w)"

lemma at_venue_foreign: "\<not> in_scope k (lower (param v ''id'')) \<Longrightarrow> at_venue (Some k) v f s = no_such_venue s"
  by (simp add: at_venue_def requireKey_def assertVenueInScope_def abind_def areturn_def aguard_def athrow_def no_such_venue_def)

text \<open>The answer to the lookup of a reservation that is not seen: it rests on the pool and the time the lookup took alone.\<close>

definition lookup_answer :: "deps \<Rightarrow> thrown" where
  "lookup_answer dp = (let w = dp_world dp ''findReservationVenue'' in
     case acquire_error (do_acquireTimeoutMs (dp_options dp)) (w_acquire w) of
       Some e \<Rightarrow> Dastar e
     | None \<Rightarrow> if w_in_time w \<or> w_in_grace w then Problem (refuse 404 (Engine Not_found) ''no such reservation'') else Dastar (timed_out (dp_options dp)))"

lemma lookup_in_time: "in_time dp ''findReservationVenue'' \<Longrightarrow> lookup_answer dp = Problem (refuse 404 (Engine Not_found) ''no such reservation'')"
  by (simp add: lookup_answer_def in_time_def acquire_error_def)

lemma venueInScope_foreign:
  assumes "unseen k i (st_db s)"
  shows "abind (venueInScope dp k i) f s = (Inl (lookup_answer dp), s)"
  using assms by (auto simp: venueInScope_def abind_def engine_def run_tx_def tget_def unseen_def athrow_def lookup_answer_def Let_def
      split: option.splits)

lemma venue_handlers_foreign:
  assumes "\<not> in_scope k (lower (param v ''id''))"
  shows "hold_handler dp (Some k) t v s = no_such_venue s" "list_holds_handler dp (Some k) t v s = no_such_venue s"
    "availability_handler dp (Some k) t v s = no_such_venue s" "list_units_handler dp (Some k) t v s = no_such_venue s"
    "create_unit_handler dp (Some k) t v s = no_such_venue s" "update_unit_handler dp (Some k) t v s = no_such_venue s"
    "list_combos_handler dp (Some k) t v s = no_such_venue s" "create_combo_handler dp (Some k) t v s = no_such_venue s"
    "update_combo_handler dp (Some k) t v s = no_such_venue s" "list_schedules_handler dp (Some k) t v s = no_such_venue s"
    "create_schedule_handler dp (Some k) t v s = no_such_venue s" "update_schedule_handler dp (Some k) t v s = no_such_venue s"
    "list_blackouts_handler dp (Some k) t v s = no_such_venue s" "create_blackout_handler dp (Some k) t v s = no_such_venue s"
    "update_blackout_handler dp (Some k) t v s = no_such_venue s" "list_keys_handler dp (Some k) t v s = no_such_venue s"
    "create_key_handler dp (Some k) t v s = no_such_venue s" "revoke_key_handler dp (Some k) t v s = no_such_venue s"
  unfolding hold_handler_def list_holds_handler_def availability_handler_def list_units_handler_def create_unit_handler_def update_unit_handler_def
    list_combos_handler_def create_combo_handler_def update_combo_handler_def list_schedules_handler_def create_schedule_handler_def
    update_schedule_handler_def list_blackouts_handler_def create_blackout_handler_def update_blackout_handler_def list_keys_handler_def
    create_key_handler_def revoke_key_handler_def
  by (rule at_venue_foreign [OF assms])+

definition lacks_confirm :: thrown where
  "lacks_confirm = Problem (refuse 403 (Engine Forbidden) ''the key lacks the confirm capability'')"

lemma reservation_handlers_foreign:
  assumes "unseen k (param v ''id'') (st_db s)"
  shows "read_handler dp (Some k) t v s = (Inl (lookup_answer dp), s)" "cancel_handler dp (Some k) t v s = (Inl (lookup_answer dp), s)"
    "seat_handler dp (Some k) t v s = (Inl (lookup_answer dp), s)" "complete_handler dp (Some k) t v s = (Inl (lookup_answer dp), s)"
    "mint_handler dp (Some k) t v s = (Inl (lookup_answer dp), s)"
    "get_field ''confirm_token'' (va_json v) = None \<Longrightarrow> confirm_handler dp (Some k) t v s
      = (Inl (if ''confirm'' \<in> set (ak_capabilities k) then lookup_answer dp else lacks_confirm), s)"
proof -
  show "read_handler dp (Some k) t v s = (Inl (lookup_answer dp), s)" "cancel_handler dp (Some k) t v s = (Inl (lookup_answer dp), s)"
    "seat_handler dp (Some k) t v s = (Inl (lookup_answer dp), s)" "complete_handler dp (Some k) t v s = (Inl (lookup_answer dp), s)"
    "mint_handler dp (Some k) t v s = (Inl (lookup_answer dp), s)"
    unfolding read_handler_def cancel_handler_def seat_handler_def complete_handler_def mint_handler_def change_reservation_def
    by (simp_all add: requireKey_def abind_def [of "areturn _"] areturn_def venueInScope_foreign [OF assms])
  show "confirm_handler dp (Some k) t v s = (Inl (if ''confirm'' \<in> set (ak_capabilities k) then lookup_answer dp else lacks_confirm), s)"
    if "get_field ''confirm_token'' (va_json v) = None"
    unfolding confirm_handler_def
    by (simp add: requireKey_def abind_def [of "areturn _"] areturn_def that venueInScope_foreign [OF assms] lacks_confirm_def athrow_def)
qed

text \<open>The one route a token opens in the place of a key.\<close>

definition or_token :: "route \<Rightarrow> bool" where
  "or_token r \<longleftrightarrow> map_option snd (rt_capability r) = Some True"

text \<open>
  C10: a key learns nothing of a venue outside its list and can change nothing there. Every venue route answers as for a venue
  that does not exist. A reservation route answers a request that rests on the key, for a reservation of such a venue and for none
  at all, one and the same, whatever the database holds: as for no reservation when the lookup came back in time, and the confirm
  route, to a key without that capability, that it lacks it. The state is as it was. Where a token is presented, the answer is the
  one without a key.
\<close>

theorem other_venues_look_absent:
  assumes "(r, h) \<in> set app" and "rt_capability r \<noteq> None"
  shows "(\<not> on_reservation r \<longrightarrow> \<not> in_scope k (lower (param v ''id'')) \<longrightarrow> h dp (Some k) t v s = no_such_venue s)
    \<and> (on_reservation r \<longrightarrow> unseen k (param v ''id'') (st_db s) \<longrightarrow> \<not> (or_token r \<and> get_field ''confirm_token'' (va_json v) \<noteq> None)
        \<longrightarrow> h dp (Some k) t v s = (Inl (if or_token r \<and> ''confirm'' \<notin> set (ak_capabilities k) then lacks_confirm else lookup_answer dp), s))
    \<and> (on_reservation r \<longrightarrow> or_token r \<longrightarrow> get_field ''confirm_token'' (va_json v) \<noteq> None \<longrightarrow> h dp (Some k) t v s = h dp None t v s)
    \<and> (in_time dp ''findReservationVenue'' \<longrightarrow> (Inl (lookup_answer dp), s) = no_such_reservation s)"
proof -
  have "list_all (\<lambda>(r, h). rt_capability r \<noteq> None \<longrightarrow>
      (\<not> on_reservation r \<longrightarrow> \<not> in_scope k (lower (param v ''id'')) \<longrightarrow> h dp (Some k) t v s = no_such_venue s)
    \<and> (on_reservation r \<longrightarrow> unseen k (param v ''id'') (st_db s) \<longrightarrow> \<not> (or_token r \<and> get_field ''confirm_token'' (va_json v) \<noteq> None)
        \<longrightarrow> h dp (Some k) t v s = (Inl (if or_token r \<and> ''confirm'' \<notin> set (ak_capabilities k) then lacks_confirm else lookup_answer dp), s))
    \<and> (on_reservation r \<longrightarrow> or_token r \<longrightarrow> get_field ''confirm_token'' (va_json v) \<noteq> None \<longrightarrow> h dp (Some k) t v s = h dp None t v s)) app"
    unfolding app_def list.pred_inject prod.case
    by (intro conjI impI TrueI;
        (rule venue_handlers_foreign; assumption
          | (simp add: on_reservation_def or_token_def route_defs venue_route_def; fail)
          | (simp add: reservation_handlers_foreign or_token_def route_defs venue_route_def; fail)
          | (auto simp: confirm_handler_def)))
  with assms lookup_in_time show ?thesis unfolding list_all_iff no_such_reservation_def by fast
qed

theorem other_venues_look_absent_witness:
  "cancel_handler demo_deps (Some \<lparr>ak_id = ''x'', ak_capabilities = [''cancel''], ak_venueIds = Some [''w'']\<rparr>) ''t''
     \<lparr>va_params = VObj [(''id'', VStr ''r1'')], va_header = VObj [], va_query = VObj [], va_json = VObj []\<rparr> demo_state = no_such_reservation demo_state
   \<and> findReservationVenue ''r1'' (st_db demo_state) = Some ''v''"
proof -
  let ?k = "\<lparr>ak_id = ''x'', ak_capabilities = [''cancel''], ak_venueIds = Some [''w'']\<rparr>"
  let ?v = "\<lparr>va_params = VObj [(''id'', VStr ''r1'')], va_header = VObj [], va_query = VObj [], va_json = VObj []\<rparr>"
  have f: "findReservationVenue ''r1'' (st_db demo_state) = Some ''v''"
    by (simp add: findReservationVenue_def demo_state_def held_db_def demo_reservation_def)
  have l: "lower ''r1'' = ''r1''" by code_simp
  have c: "(cancel_route, cancel_handler) \<in> set app" by (simp add: app_def)
  have r: "rt_capability cancel_route \<noteq> None" "on_reservation cancel_route" "\<not> or_token cancel_route"
    by (simp_all add: cancel_route_def venue_route_def on_reservation_def or_token_def)
  have u: "unseen ?k (param ?v ''id'') (st_db demo_state)" by (simp add: param_def get_field_def as_text_def unseen_def l f in_scope_def)
  have t: "in_time demo_deps ''findReservationVenue''" by (simp add: in_time_def demo_deps_def calm_def)
  show ?thesis using other_venues_look_absent [OF c r(1), of ?k ?v demo_deps "''t''" demo_state] r u t f by simp
qed

end
