(* ===== verification/BookingCalendar.thy ===== *)
theory BookingCalendar
  imports AdminProperties WorkerProperties
begin

text \<open>
  The calendar of bookings a database is, as a specification, and the proof that every transaction of the commands moves its
  reservations as the specification allows: only along the status machine, only into the statuses and the venue the
  command is about.
\<close>

section \<open>How a transaction moves reservations\<close>

text \<open>
  \<open>moved S a b\<close>: from status \<open>a\<close> to \<open>b\<close> by legal transitions into statuses of \<open>S\<close>.
\<close>

definition moved :: "ReservationStatus set \<Rightarrow> ReservationStatus \<Rightarrow> ReservationStatus \<Rightarrow> bool" where
  "moved S = (\<lambda>a b. canTransition a b \<and> b \<in> S)\<^sup>*\<^sup>*"

lemma moved_refl [simp]: "moved S a a" by (simp add: moved_def)

lemma moved_step: "moved S a b \<Longrightarrow> canTransition b c \<Longrightarrow> c \<in> S \<Longrightarrow> moved S a c"
  by (simp add: moved_def rtranclp.rtrancl_into_rtrancl)

lemma moved_none: "moved {} a b \<longleftrightarrow> a = b"
  by (auto simp: moved_def elim: rtranclp.cases)

definition same_booking :: "ReservationRow \<Rightarrow> ReservationRow \<Rightarrow> bool" where
  "same_booking r r' \<longleftrightarrow> r_id r' = r_id r \<and> r_venue r' = r_venue r \<and> r_party_size r' = r_party_size r
     \<and> r_during r' = r_during r \<and> r_assignment r' = r_assignment r"

text \<open>
  \<open>evolves S V N d0 d\<close>: since \<open>d0\<close> every reservation kept what it books and moved within \<open>S\<close>, those of venues
  outside \<open>V\<close> are as they were, the new ones are of \<open>V\<close>, have ids of \<open>N\<close> and began as holds, and every
  combination kept its members.
\<close>

definition evolves :: "ReservationStatus set \<Rightarrow> string set \<Rightarrow> string set \<Rightarrow> db \<Rightarrow> db \<Rightarrow> bool" where
  "evolves S V N d0 d \<longleftrightarrow> distinct (map r_id (reservations d)) \<and> distinct (map c_id (combos d))
   \<and> (\<forall>r\<in>set (reservations d0). \<exists>r'\<in>set (reservations d). same_booking r r' \<and> moved S (r_status r) (r_status r') \<and> (r_venue r \<notin> V \<longrightarrow> r' = r))
   \<and> (\<forall>r'\<in>set (reservations d). r_id r' \<in> r_id ` set (reservations d0) \<or> r_id r' \<in> N \<and> r_venue r' \<in> V \<and> moved S Held (r_status r'))
   \<and> (\<forall>c\<in>set (combos d0). \<exists>c'\<in>set (combos d). c_id c' = c_id c \<and> c_unit_ids c' = c_unit_ids c)"

lemma evolves_refl: "ids_ok d \<Longrightarrow> evolves S V N d d"
  by (auto simp: evolves_def same_booking_def ids_ok_def)

lemma evolves_row:
  assumes "evolves S V N d0 d" and "r \<in> set (reservations d0)"
  obtains r' where "r' \<in> set (reservations d)" "same_booking r r'" "moved S (r_status r) (r_status r')" "r_venue r \<notin> V \<Longrightarrow> r' = r"
  using assms unfolding evolves_def by metis

lemma evolves_combo:
  assumes "evolves S V N d0 d" and "c \<in> set (combos d0)"
  obtains c' where "c' \<in> set (combos d)" "c_id c' = c_id c" "c_unit_ids c' = c_unit_ids c"
  using assms unfolding evolves_def by metis

lemma evolves_cong: "reservations d' = reservations d \<Longrightarrow> combos d' = combos d \<Longrightarrow> evolves S V N d0 d' = evolves S V N d0 d"
  by (simp add: evolves_def)

lemma evolves_by_keeps: "keeps reservations m \<Longrightarrow> keeps combos m \<Longrightarrow> preserves (evolves S V N d0) m"
  by (rule preservesI) (metis evolves_cong keepsD)

lemma same_booking_trans: "same_booking a b \<Longrightarrow> same_booking b c \<Longrightarrow> same_booking a c"
  by (simp add: same_booking_def)

lemma evolves_update:
  assumes E: "evolves S V N d0 d" and old: "old \<in> set (reservations d)" "r_venue old \<in> V"
    and j: "judge_update cx d old (apply_patch p old) = Inr new" and p: "\<And>s. set_status p = Some s \<Longrightarrow> s \<in> S"
  shows "evolves S V N d0 (write_reservation cx old new d)"
proof -
  note f = judge_update_facts [OF j]
  have b: "same_booking old new" using f(1-5) by (simp add: same_booking_def)
  have st: "r_status new = r_status old \<or> canTransition (r_status old) (r_status new) \<and> r_status new \<in> S"
  proof (cases "set_status p")
    case None
    then show ?thesis using f(18) by simp
  next
    case (Some s)
    then show ?thesis using f(11) f(18) p [OF Some] by simp
  qed
  have m: "moved S x (r_status new)" if "moved S x (r_status old)" for x using st that by (auto intro: moved_step)
  have u: "r = old" if "r \<in> set (reservations d)" "r_id r = r_id old" for r
    using distinct_key_eq [of r_id "reservations d" r old] E that old(1) by (simp add: evolves_def)
  have new: "new \<in> set (reservations (write_reservation cx old new d))" using old(1) f(1) by (force simp: write_reservation_sel)
  have stay: "r \<in> set (reservations (write_reservation cx old new d))" if "r \<in> set (reservations d)" "r \<noteq> old" for r
    using that u f(1) by (force simp: write_reservation_sel)
  have "\<exists>r'\<in>set (reservations (write_reservation cx old new d)). same_booking r r' \<and> moved S (r_status r) (r_status r') \<and> (r_venue r \<notin> V \<longrightarrow> r' = r)"
    if "r \<in> set (reservations d0)" for r
  proof -
    from evolves_row [OF E that] obtain r' where r': "r' \<in> set (reservations d)" "same_booking r r'"
      "moved S (r_status r) (r_status r')" "r_venue r \<notin> V \<Longrightarrow> r' = r" by metis
    show ?thesis
    proof (cases "r' = old")
      case True
      then have "r_venue r \<in> V" using r'(2) old(2) by (simp add: same_booking_def)
      with True r' new m b same_booking_trans show ?thesis by blast
    qed (use r' stay in blast)
  qed
  moreover have "r_id r' \<in> r_id ` set (reservations d0) \<or> r_id r' \<in> N \<and> r_venue r' \<in> V \<and> moved S Held (r_status r')"
    if "r' \<in> set (reservations (write_reservation cx old new d))" for r'
    using update_cases [OF that] E old(1) f(1,2) m by (auto simp: evolves_def)
  ultimately show ?thesis using E f(1) by (simp add: evolves_def write_reservation_sel map_replace_key del: map_map)
qed

lemma ev_update [preserved]:
  assumes "\<And>s. set_status p = Some s \<Longrightarrow> s \<in> S" and "\<And>v. visible cx v \<Longrightarrow> v \<in> V"
  shows "preserves (evolves S V N d0) (update_reservation cx rid cond p)"
proof (rule preservesI)
  fix d x d' assume E: "evolves S V N d0 d" and u: "update_reservation cx rid cond p d = Inr (x, d')"
  from u show "evolves S V N d0 d'"
  proof (cases rule: update_reservation_cases)
    case (updated old new)
    from updated(2) have "old \<in> set (reservations d)" "visible cx (r_venue old)" by (auto simp: find_reservation_def dest: find_Some_D)
    with updated(4,5) evolves_update [OF E _ _ _ assms(1)] assms(2) show ?thesis by blast
  qed (use E in simp_all)
qed

lemma ev_insert [preserved]:
  assumes "r_id r \<in> N" "r_venue r \<in> V" "r_status r = Held"
  shows "preserves (evolves S V N d0) (insert_reservation cx r)"
proof (rule preservesI)
  fix d x d' assume E: "evolves S V N d0 d" and i: "insert_reservation cx r d = Inr (x, d')"
  note f = insert_reservation_facts [OF i]
  note sel = inserted_sel [of cx r d, folded f(8)]
  show "evolves S V N d0 d'" using E f(6) assms by (auto simp: evolves_def sel)
qed

lemma ev_combo_insert [preserved]: "preserves (evolves S V N d0) (insert_combo c)"
  by (rule preservesI) (auto simp: evolves_def insert_combo_def rbind_eq_Inr trg_config_version_def)

lemma ev_combo_update [preserved]:
  assumes "\<And>c. c_id (f c) = c_id c \<and> c_unit_ids (f c) = c_unit_ids c"
  shows "preserves (evolves S V N d0) (update_combo_row cx i venue f)"
proof (rule preservesI)
  fix d x d' assume E: "evolves S V N d0 d" and u: "update_combo_row cx i venue f d = Inr (x, d')"
  show "evolves S V N d0 d'"
  proof (cases "find_combo d i venue")
    case (Some old)
    then have old: "old \<in> set (combos d)" "c_id old = i" by (auto simp: find_combo_def dest: find_Some_D)
    from u Some have d': "reservations d' = reservations d" "combos d' = map (\<lambda>c. if c_id c = i then f old else c) (combos d)"
      by (auto simp: update_combo_row_def Let_def rbind_eq_Inr trg_config_version_def)
    have "distinct (map c_id (combos d'))" using E old(2) assms map_replace_key [of c_id "f old" i "combos d"]
      by (simp add: evolves_def d'(2) del: map_map)
    moreover have "\<exists>c'\<in>set (combos d'). c_id c' = c_id c \<and> c_unit_ids c' = c_unit_ids c" if "c \<in> set (combos d)" for c
    proof (cases "c_id c = i")
      case True
      then have "c = old" using distinct_key_eq [of c_id "combos d" c old] that old E by (simp add: evolves_def)
      with assms old True show ?thesis by (auto simp: d'(2))
    qed (use that d'(2) in auto)
    ultimately show ?thesis using E unfolding evolves_def d'(1) by metis
  qed (use E u in \<open>simp add: update_combo_row_def\<close>)
qed

lemma keeps_plain [keeping]:
  "keeps reservations (claim_key cx v a k h)" "keeps combos (claim_key cx v a k h)"
  "keeps reservations (store_response v a k out)" "keeps combos (store_response v a k out)"
  "keeps reservations (insert_unit u)" "keeps combos (insert_unit u)"
  "keeps reservations (update_unit cx i v fu)" "keeps combos (update_unit cx i v fu)"
  "keeps reservations (insert_schedule s)" "keeps combos (insert_schedule s)"
  "keeps reservations (update_schedule i v fs)" "keeps combos (update_schedule i v fs)"
  "keeps reservations (insert_blackout cx b)" "keeps combos (insert_blackout cx b)"
  "keeps reservations (update_blackout cx i v fb)" "keeps combos (update_blackout cx i v fb)"
  "keeps reservations (delete_keys ks)" "keeps combos (delete_keys ks)"
  "keeps reservations (delete_events es)" "keeps combos (delete_events es)"
  by (rule keepsI; auto simp: claim_key_def store_response_def tx_eqs insert_unit_def update_unit_def insert_schedule_def update_schedule_def
        insert_blackout_def update_blackout_def delete_keys_def delete_events_def trg_config_version_def rbind_eq_Inr rbind_throw_if Let_def
      split: if_splits option.splits)+

lemma ev_plain [preserved]:
  "preserves (evolves S V N d0) (claim_key cx v a k h)" "preserves (evolves S V N d0) (store_response v a k out)"
  "preserves (evolves S V N d0) (insert_unit u)" "preserves (evolves S V N d0) (update_unit cx i v fu)"
  "preserves (evolves S V N d0) (insert_schedule s)" "preserves (evolves S V N d0) (update_schedule i v fs)"
  "preserves (evolves S V N d0) (insert_blackout cx b)" "preserves (evolves S V N d0) (update_blackout cx i v fb)"
  "preserves (evolves S V N d0) (delete_keys ks)" "preserves (evolves S V N d0) (delete_events es)"
  "preserves (evolves S V N d0) (enqueue v t p)" "preserves (evolves S V N d0) commit"
  "preserves (evolves S V N d0) (insert_unit_row ru)"
  by (rule evolves_by_keeps; intro keeping)+

text \<open>What a command may write: the patch's target is in \<open>S\<close>, the venues its session sees are in \<open>V\<close>.\<close>

lemma ev_finish [preserved]:
  "(\<And>s. set_status p = Some s \<Longrightarrow> s \<in> S) \<Longrightarrow> (\<And>v. visible cx v \<Longrightarrow> v \<in> V) \<Longrightarrow> preserves (evolves S V N d0) (finish cx i p topic)"
  unfolding finish_def by (intro preserved; assumption?)

lemma ev_enqueue_each [preserved]: "preserves (evolves S V N d0) (enqueue_each v t rows)"
  unfolding enqueue_each_def by (intro preserved)

lemma ev_write_batch [preserved]:
  "(\<And>s. set_status p = Some s \<Longrightarrow> s \<in> S) \<Longrightarrow> (\<And>v. visible cx v \<Longrightarrow> v \<in> V) \<Longrightarrow> preserves (evolves S V N d0) (write_batch cx p vn t rows)"
  unfolding write_batch_def update_each_def by (intro preserved; assumption?)

lemma visible_lifecycle [simp]: "visible (lifecycle_session i now) v \<longleftrightarrow> v = li_venueId i"
  "visible (confirm_session now i token) v \<longleftrightarrow> v = li_venueId i" "visible (admin_session ctx now) v \<longleftrightarrow> v = ax_venueId ctx"
  "visible (setContext a t w now) v \<longleftrightarrow> v = w" "visible (setActor cx a) v \<longleftrightarrow> visible cx v"
  by (auto simp: visible_def lifecycle_session_def confirm_session_def admin_session_def setActor_def)

lemma ev_lifecycle:
  "preserves (evolves {Cancelled} {li_venueId i} {} d0) (cancel_tx now i reason)"
  "preserves (evolves {to} {li_venueId i} {} d0) (advance_tx now i from to verb topic)"
  "preserves (evolves {Confirmed} {li_venueId i} {} d0) (confirm_tx sha now i token)"
  "preserves (evolves {} {li_venueId i} {} d0) (mint_tx sha now i secret)"
  unfolding cancel_tx_def advance_tx_def confirm_tx_def mint_tx_def Let_def by (intro preserved; simp add: patch_status_def)+

lemma ev_jobs:
  "preserves (evolves {Expired} UNIV {} d0) (expire_tx now locked limit)"
  "preserves (evolves {} {} {} d0) (purge_tx now lk le limit)"
  unfolding expire_tx_def purge_tx_def Let_def by (intro preserved; simp add: patch_status_def)+

lemma ev_settleStranded [preserved]:
  "Cancelled \<in> S \<Longrightarrow> (\<And>v. visible cx v \<Longrightarrow> v \<in> V) \<Longrightarrow> preserves (evolves S V N d0) (settleStranded cx v s c what opts)"
  unfolding settleStranded_def cancel_stranded_def Let_def by (intro preserved; simp)

lemma ev_admin:
  "preserves (evolves {Cancelled} {ax_venueId ctx} {} d0) (updateUnit_tx ctx ui (admin_session ctx now))"
  "preserves (evolves S V N d0) (createCombo_tx newId ctx ci (admin_session ctx now))"
  "preserves (evolves {Cancelled} {ax_venueId ctx} {} d0) (updateCombo_tx ctx co (admin_session ctx now))"
  "preserves (evolves {Cancelled} {ax_venueId ctx} {} d0) (createBlackout_tx newId ctx during reason active force (admin_session ctx now))"
  "preserves (evolves {Cancelled} {ax_venueId ctx} {} d0) (updateBlackout_tx ctx bi reason' active' force (admin_session ctx now))"
  unfolding updateUnit_tx_def createCombo_tx_def updateCombo_tx_def createBlackout_tx_def updateBlackout_tx_def Let_def
  by (intro preserved; simp add: updated_combo_def)+

section \<open>A hold\<close>

lemma ev_clear_overlap [preserved]:
  "Expired \<in> S \<Longrightarrow> (\<And>v. visible cx v \<Longrightarrow> v \<in> V) \<Longrightarrow> preserves (evolves S V N d0) (clear_overlap cx us during)"
  unfolding clear_overlap_def expire_one_def by (intro preserved; simp add: patch_status_def)

lemma ev_book [preserved]: "rid \<in> N \<Longrightarrow> hi_venueId i \<in> V \<Longrightarrow> preserves (evolves S V N d0) (book cx (new_reservation i rid during e) us)"
  unfolding book_def by (intro preserved; simp)

lemma ev_storeOutcome [preserved]: "preserves (evolves S V N d0) (storeOutcome i out)"
  unfolding storeOutcome_def by (intro preserved)

lemma ev_settle_booking [preserved]: "preserves (evolves S V N d0) (settle_booking cx i booked)"
  unfolding settle_booking_def by (intro preserved)

lemma ev_hold_claimed [preserved]:
  "Expired \<in> S \<Longrightarrow> (\<And>v. visible cx v \<Longrightarrow> v \<in> V) \<Longrightarrow> e_uuid env n \<in> N \<Longrightarrow> hi_venueId i \<in> V
   \<Longrightarrow> preserves (evolves S V N d0) (hold_claimed env n cx i during)"
  unfolding hold_claimed_def hold_units_def by (intro preserved; simp)

lemma ev_attemptHold: "preserves (evolves {Expired} {hi_venueId i} (range (e_uuid env)) d0) (attemptHold env i hash n)"
proof -
  have "preserves (evolves {Expired} {hi_venueId i} (range (e_uuid env)) d0) (claim_or_replay env i hash n during)" for during
    unfolding claim_or_replay_def Let_def by (intro preserved; simp)
  then show ?thesis by (auto simp: preserves_def attemptHold_def split: option.splits)
qed

section \<open>The calendar of a database\<close>

text \<open>What a reservation is to the venue: a status on some of its units over a range.\<close>

record booking =
  bk_venue :: string
  bk_units :: "string list"
  bk_during :: range
  bk_party :: int
  bk_status :: ReservationStatus

type_synonym calendar = "string \<rightharpoonup> booking"

definition booking_of :: "db \<Rightarrow> ReservationRow \<Rightarrow> booking" where
  "booking_of d r = \<lparr>bk_venue = r_venue r, bk_units = members_of d (r_assignment r), bk_during = r_during r,
     bk_party = r_party_size r, bk_status = r_status r\<rparr>"

definition calendar_of :: "db \<Rightarrow> calendar" where
  "calendar_of d i = map_option (booking_of d) (find (\<lambda>r. r_id r = i) (reservations d))"

definition taken :: "booking \<Rightarrow> bool" where
  "taken b \<longleftrightarrow> \<not> released (bk_status b)"

text \<open>The specification: no unit is taken twice at once, whatever becomes of the bookings.\<close>

definition no_clash :: "calendar \<Rightarrow> bool" where
  "no_clash c \<longleftrightarrow> (\<forall>i j a b. i \<noteq> j \<longrightarrow> c i = Some a \<longrightarrow> c j = Some b \<longrightarrow> taken a \<longrightarrow> taken b
     \<longrightarrow> set (bk_units a) \<inter> set (bk_units b) \<noteq> {} \<longrightarrow> \<not> overlaps (bk_during a) (bk_during b))"

record move =
  mv_into :: "ReservationStatus set"
  mv_venues :: "string set"
  mv_new :: "string set"

text \<open>
  A step of the specification: bookings stay what they are and advance into statuses the move allows, those of other
  venues stand still, a new one has an id the move may use, and nothing clashes.
\<close>

definition cal_step :: "calendar \<Rightarrow> move \<Rightarrow> calendar \<Rightarrow> bool" where
  "cal_step c m c' \<longleftrightarrow> no_clash c'
   \<and> (\<forall>i a. c i = Some a \<longrightarrow> (\<exists>s. c' i = Some (a\<lparr>bk_status := s\<rparr>) \<and> moved (mv_into m) (bk_status a) s \<and> (bk_venue a \<notin> mv_venues m \<longrightarrow> s = bk_status a)))
   \<and> (\<forall>i b. c i = None \<longrightarrow> c' i = Some b \<longrightarrow> i \<in> mv_new m \<and> bk_venue b \<in> mv_venues m \<and> moved (mv_into m) Held (bk_status b))"

lemma overlaps_clash:
  assumes I: "inv T {} d" and r: "r \<in> set (reservations d)" "r' \<in> set (reservations d)" "r \<noteq> r'"
    and t: "\<not> released (r_status r)" "\<not> released (r_status r')"
    and u: "u \<in> set (members_of d (r_assignment r))" "u \<in> set (members_of d (r_assignment r'))"
  shows "\<not> overlaps (r_during r) (r_during r')"
proof
  assume o': "overlaps (r_during r) (r_during r')"
  have row: "\<exists>ru\<in>set (unit_rows d). ru_reservation ru = r_id x \<and> ru_unit ru = u \<and> ru_active ru \<and> ru_during ru = r_during x"
    if x: "x \<in> set (reservations d)" "\<not> released (r_status x)" "u \<in> set (members_of d (r_assignment x))" for x
  proof -
    from I x(1) have "sort (map ru_unit (rows_of d (r_id x))) = sort (members_of d (r_assignment x))"
      by (auto simp: inv_def members_ok_def membership_ok_def)
    then have "set (map ru_unit (rows_of d (r_id x))) = set (members_of d (r_assignment x))" by (metis set_sort)
    with x(3) have "u \<in> ru_unit ` set (rows_of d (r_id x))" by simp
    then obtain ru where ru: "ru \<in> set (unit_rows d)" "ru_reservation ru = r_id x" "ru_unit ru = u" by (auto simp: rows_of_def)
    from I ru(1) obtain y where y: "y \<in> set (reservations d)" "r_id y = ru_reservation ru" "row_in_sync ru y" by (auto simp: inv_def sync_ok_def)
    then have "y = x" using distinct_key_eq [of r_id "reservations d" y x] I x(1) ru(2) by (auto simp: inv_def ids_ok_def)
    with y(3) x(2) ru show ?thesis by (auto simp: row_in_sync_def)
  qed
  from row [OF r(1) t(1) u(1)] row [OF r(2) t(2) u(2)] obtain a b where
    ab: "a \<in> set (unit_rows d)" "b \<in> set (unit_rows d)" "ru_reservation a = r_id r" "ru_reservation b = r_id r'"
      "unit_rows_conflict a b" "unit_rows_conflict b a"
    using o' overlaps_sym by (fastforce simp: unit_rows_conflict_def)
  have "a \<noteq> b" using ab(3,4) r distinct_key_eq [of r_id "reservations d" r r'] I by (auto simp: inv_def ids_ok_def)
  then have "\<not> unit_rows_conflict a b \<or> \<not> unit_rows_conflict b a"
    using I ab(1,2) by (auto simp: inv_def exclusion_ok_def in_set_conv_nth sorted_wrt_iff_nth_less) (metis linorder_neqE_nat)
  with ab(5,6) show False by blast
qed

lemma calendar_row: "calendar_of d i = Some b \<Longrightarrow> \<exists>r\<in>set (reservations d). r_id r = i \<and> b = booking_of d r"
  by (auto simp: calendar_of_def dest: find_Some_D)

lemma calendar_at: "distinct (map r_id (reservations d)) \<Longrightarrow> r \<in> set (reservations d) \<Longrightarrow> calendar_of d (r_id r) = Some (booking_of d r)"
  by (simp add: calendar_of_def find_distinct_key)

lemma calendar_no_clash: "inv T {} d \<Longrightarrow> no_clash (calendar_of d)"
  unfolding no_clash_def taken_def
proof (intro allI impI)
  fix i j a b assume I: "inv T {} d" and h: "i \<noteq> j" "calendar_of d i = Some a" "calendar_of d j = Some b"
    "\<not> released (bk_status a)" "\<not> released (bk_status b)" "set (bk_units a) \<inter> set (bk_units b) \<noteq> {}"
  from calendar_row [OF h(2)] calendar_row [OF h(3)] obtain r r' where
    "r \<in> set (reservations d)" "r_id r = i" "a = booking_of d r" "r' \<in> set (reservations d)" "r_id r' = j" "b = booking_of d r'" by blast
  with h overlaps_clash [OF I, of r r'] show "\<not> overlaps (bk_during a) (bk_during b)" by (auto simp: booking_of_def)
qed

lemma members_kept:
  assumes E: "evolves S V N d0 d" and I: "inv T {} d0" and r: "r \<in> set (reservations d0)"
  shows "members_of d (r_assignment r) = members_of d0 (r_assignment r)"
proof (cases "a_kind (r_assignment r)")
  case Combo
  with I r obtain c where c: "find_combo d0 (a_id (r_assignment r)) (r_venue r) = Some c" "members_of d0 (r_assignment r) = c_unit_ids c"
    using members_of_facts [OF I r] by auto
  then have "c \<in> set (combos d0)" "c_id c = a_id (r_assignment r)" by (auto simp: find_combo_def dest: find_Some_D)
  with evolves_combo [OF E] obtain c' where "c' \<in> set (combos d)" "c_id c' = a_id (r_assignment r)" "c_unit_ids c' = c_unit_ids c" by metis
  moreover from this have "find (\<lambda>c. c_id c = a_id (r_assignment r)) (combos d) = Some c'"
    using E find_distinct_key [of c_id "combos d" c'] by (simp add: evolves_def)
  ultimately show ?thesis using Combo c(2) by (simp add: members_of_def)
qed (simp add: members_of_def)

lemma evolves_cal_step:
  assumes E: "evolves S V N d0 d" and I: "inv T {} d0" "inv T' {} d" and m: "S = mv_into m" "V = mv_venues m" "N = mv_new m"
  shows "cal_step (calendar_of d0) m (calendar_of d)"
proof -
  have D: "distinct (map r_id (reservations d0))" "distinct (map r_id (reservations d))" using I by (simp_all add: inv_def ids_ok_def)
  have "\<exists>s. calendar_of d i = Some (a\<lparr>bk_status := s\<rparr>) \<and> moved S (bk_status a) s \<and> (bk_venue a \<notin> V \<longrightarrow> s = bk_status a)"
    if "calendar_of d0 i = Some a" for i a
  proof -
    from calendar_row [OF that] obtain r where r: "r \<in> set (reservations d0)" "r_id r = i" "a = booking_of d0 r" by blast
    from evolves_row [OF E r(1)] obtain r' where r': "r' \<in> set (reservations d)" "same_booking r r'"
      "moved S (r_status r) (r_status r')" "r_venue r \<notin> V \<Longrightarrow> r' = r" by metis
    have "calendar_of d i = Some (booking_of d r')" using calendar_at [OF D(2) r'(1)] r'(2) r(2) by (simp add: same_booking_def)
    moreover have "booking_of d r' = a\<lparr>bk_status := r_status r'\<rparr>"
      using r'(2) members_kept [OF E I(1) r(1)] by (simp add: booking_of_def r(3) same_booking_def)
    ultimately show ?thesis using r'(3,4) r(3) by (auto simp: booking_of_def)
  qed
  moreover have "i \<in> N \<and> bk_venue b \<in> V \<and> moved S Held (bk_status b)" if "calendar_of d0 i = None" "calendar_of d i = Some b" for i b
  proof -
    from calendar_row [OF that(2)] obtain r' where r': "r' \<in> set (reservations d)" "r_id r' = i" "b = booking_of d r'" by blast
    moreover have "r_id r' \<notin> r_id ` set (reservations d0)" using that(1) calendar_at [OF D(1)] r'(2) by fastforce
    ultimately show ?thesis using E by (auto simp: evolves_def booking_of_def)
  qed
  ultimately show ?thesis using calendar_no_clash [OF I(2)] by (simp add: cal_step_def m)
qed

end
