(* ===== verification/System.thy ===== *)
theory System
  imports BookingCalendar
begin

text \<open>
  The whole: the commands clients, staff and the worker send, as steps on one database under one clock; the states they reach;
  the invariants of every reachable state; and the refinement of the calendar of bookings.
\<close>

section \<open>The system\<close>

text \<open>What clients, staff and the worker ask of the database, with what each command reads of the world.\<close>

datatype action =
    Do_hold env HoldInput
  | Do_confirm "string \<Rightarrow> string" LifecycleInput "string option"
  | Do_mint "string \<Rightarrow> string" LifecycleInput string
  | Do_cancel LifecycleInput string
  | Do_seat LifecycleInput
  | Do_complete LifecycleInput
  | Do_expire "string \<Rightarrow> bool" nat
  | Do_purge "IdempotencyRow \<Rightarrow> bool" "nat \<Rightarrow> bool" nat
  | Do_createUnit string AdminContext CreateUnitInput
  | Do_updateUnit AdminContext UpdateUnitInput
  | Do_createCombo string AdminContext CreateComboInput
  | Do_updateCombo AdminContext UpdateComboInput
  | Do_createSchedule string AdminContext ScheduleInput
  | Do_updateSchedule AdminContext string ScheduleInput
  | Do_createBlackout string AdminContext CreateBlackoutInput
  | Do_updateBlackout AdminContext UpdateBlackoutInput

definition after :: "'e + ('a \<times> db) \<Rightarrow> db option" where
  "after r = (case r of Inl _ \<Rightarrow> None | Inr (_, d') \<Rightarrow> Some d')"

lemma after_Some: "after r = Some d' \<longleftrightarrow> (\<exists>x. r = Inr (x, d'))"
  by (auto simp: after_def split: sum.splits)

text \<open>The database a command leaves, when it does not throw.\<close>

definition perform :: "instant \<Rightarrow> action \<Rightarrow> db \<Rightarrow> db option" where
  "perform now a d = (case a of
      Do_hold env i \<Rightarrow> after (hold env i d)
    | Do_confirm sha i token \<Rightarrow> after (confirm sha now i token d)
    | Do_mint sha i secret \<Rightarrow> after (mintConfirmToken sha now i secret d)
    | Do_cancel i reason \<Rightarrow> after (cancel now i reason d)
    | Do_seat i \<Rightarrow> after (seat now i d)
    | Do_complete i \<Rightarrow> after (complete now i d)
    | Do_expire locked limit \<Rightarrow> after (expireDue False now locked limit d)
    | Do_purge lk le limit \<Rightarrow> after (purgeRetained False now lk le limit d)
    | Do_createUnit newId ctx i \<Rightarrow> after (createUnit newId now ctx i d)
    | Do_updateUnit ctx i \<Rightarrow> after (updateUnit now ctx i d)
    | Do_createCombo newId ctx i \<Rightarrow> after (createCombo newId now ctx i d)
    | Do_updateCombo ctx i \<Rightarrow> after (updateCombo now ctx i d)
    | Do_createSchedule newId ctx i \<Rightarrow> after (createSchedule newId now ctx i d)
    | Do_updateSchedule ctx sid i \<Rightarrow> after (updateSchedule now ctx sid i d)
    | Do_createBlackout newId ctx i \<Rightarrow> after (createBlackout newId now ctx i d)
    | Do_updateBlackout ctx i \<Rightarrow> after (updateBlackout now ctx i d))"

text \<open>A hold reads the clock once per attempt.\<close>

definition clocks_by :: "instant \<Rightarrow> instant \<Rightarrow> action \<Rightarrow> bool" where
  "clocks_by t now a \<longleftrightarrow> now \<le> t \<and> (case a of Do_hold env _ \<Rightarrow> \<forall>n. e_now env n \<le> t | _ \<Rightarrow> True)"

text \<open>What an action may do to the bookings of the calendar.\<close>

definition move_of :: "action \<Rightarrow> move" where
  "move_of a = (case a of
      Do_hold env i \<Rightarrow> \<lparr>mv_into = {Expired}, mv_venues = {hi_venueId i}, mv_new = range (e_uuid env)\<rparr>
    | Do_confirm _ i _ \<Rightarrow> \<lparr>mv_into = {Confirmed}, mv_venues = {li_venueId i}, mv_new = {}\<rparr>
    | Do_mint _ i _ \<Rightarrow> \<lparr>mv_into = {}, mv_venues = {li_venueId i}, mv_new = {}\<rparr>
    | Do_cancel i _ \<Rightarrow> \<lparr>mv_into = {Cancelled}, mv_venues = {li_venueId i}, mv_new = {}\<rparr>
    | Do_seat i \<Rightarrow> \<lparr>mv_into = {Seated}, mv_venues = {li_venueId i}, mv_new = {}\<rparr>
    | Do_complete i \<Rightarrow> \<lparr>mv_into = {Completed}, mv_venues = {li_venueId i}, mv_new = {}\<rparr>
    | Do_expire _ _ \<Rightarrow> \<lparr>mv_into = {Expired}, mv_venues = UNIV, mv_new = {}\<rparr>
    | Do_updateUnit ctx _ \<Rightarrow> \<lparr>mv_into = {Cancelled}, mv_venues = {ax_venueId ctx}, mv_new = {}\<rparr>
    | Do_updateCombo ctx _ \<Rightarrow> \<lparr>mv_into = {Cancelled}, mv_venues = {ax_venueId ctx}, mv_new = {}\<rparr>
    | Do_createBlackout _ ctx _ \<Rightarrow> \<lparr>mv_into = {Cancelled}, mv_venues = {ax_venueId ctx}, mv_new = {}\<rparr>
    | Do_updateBlackout ctx _ \<Rightarrow> \<lparr>mv_into = {Cancelled}, mv_venues = {ax_venueId ctx}, mv_new = {}\<rparr>
    | _ \<Rightarrow> \<lparr>mv_into = {}, mv_venues = {}, mv_new = {}\<rparr>)"

text \<open>
  A step of the system: time passes, or a command that read a clock of now or before commits, or throws and leaves
  everything. Transactions that overlap in time are the locks' and the constraints' to order.
\<close>

inductive system_step :: "instant \<times> db \<Rightarrow> action option \<Rightarrow> instant \<times> db \<Rightarrow> bool" where
  passes: "t \<le> t' \<Longrightarrow> system_step (t, d) None (t', d)"
| commits: "clocks_by t now a \<Longrightarrow> perform now a d = Some d' \<Longrightarrow> system_step (t, d) (Some a) (t, d')"
| throws: "perform now a d = None \<Longrightarrow> system_step (t, d) (Some a) (t, d)"

inductive_cases system_step_None [elim!]: "system_step s None s'"
inductive_cases system_step_Some [elim!]: "system_step s (Some a) s'"

text \<open>Venues as they are set up, before the first reservation: rows the constraints accept.\<close>

definition fresh :: "db \<Rightarrow> bool" where
  "fresh d \<longleftrightarrow> reservations d = [] \<and> unit_rows d = [] \<and> audit_log d = [] \<and> deferred d = [] \<and> ids_ok d \<and> shape_ok d"

inductive reachable :: "instant \<times> db \<Rightarrow> bool" where
  start: "fresh d \<Longrightarrow> reachable (t, d)"
| step: "reachable s \<Longrightarrow> system_step s l s' \<Longrightarrow> reachable s'"

section \<open>Every action keeps the invariants and is its move\<close>

text \<open>What ends in a commit leaves nothing deferred.\<close>

definition clears :: "'a tx \<Rightarrow> bool" where
  "clears m \<longleftrightarrow> (\<forall>d x d'. m d = Inr (x, d') \<longrightarrow> deferred d' = [])"

named_theorems clearing "rules for clears"

lemma clears_rules [clearing]:
  "clears (tthen commit (tret x))" "clears (tthen commit (tthrow e))" "clears (tthrow e)" "(\<And>x. clears (f x)) \<Longrightarrow> clears (tbind m f)"
  "clears k \<Longrightarrow> clears (tthen m' k)" "(b \<Longrightarrow> clears n) \<Longrightarrow> (\<not> b \<Longrightarrow> clears n') \<Longrightarrow> clears (if b then n else n')"
  "(w = None \<Longrightarrow> clears z) \<Longrightarrow> (\<And>y. w = Some y \<Longrightarrow> clears (h y)) \<Longrightarrow> clears (case w of None \<Rightarrow> z | Some y \<Rightarrow> h y)"
  "(\<And>e. s = Inl e \<Longrightarrow> clears (gl e)) \<Longrightarrow> (\<And>y. s = Inr y \<Longrightarrow> clears (gr y)) \<Longrightarrow> clears (case s of Inl e \<Rightarrow> gl e | Inr y \<Rightarrow> gr y)"
  "(\<And>a b. p = (a, b) \<Longrightarrow> clears (q a b)) \<Longrightarrow> clears (case p of (a, b) \<Rightarrow> q a b)"
  by (auto simp: clears_def tx_simps commit_def split: if_splits option.splits sum.splits prod.splits)

lemma clears_answer [clearing]: "clears (tthen commit (case s of Inl e \<Rightarrow> tthrow e | Inr y \<Rightarrow> tret y))"
  by (cases s) (simp_all add: clears_rules)

lemma clears_finish [clearing]: "clears (finish cx i p topic)" "clears (storeOutcome hi out)"
  unfolding finish_def storeOutcome_def by (intro clearing)+

lemma clears_commands:
  "clears (cancel_tx now i reason)" "clears (advance_tx now i from to verb topic)" "clears (confirm_tx sha now i token)"
  "clears (mint_tx sha now i secret)" "clears (expire_tx now locked limit)" "clears (purge_tx now lk le limit)"
  unfolding cancel_tx_def advance_tx_def confirm_tx_def mint_tx_def expire_tx_def purge_tx_def Let_def by (intro clearing)+

lemma clears_attemptHold: "clears (attemptHold env i hash n)"
proof -
  have "clears (claim_or_replay env i hash n during)" for during
    unfolding claim_or_replay_def hold_claimed_def hold_units_def settle_booking_def Let_def
    by (intro clearing)
  then show ?thesis by (auto simp: clears_def attemptHold_def split: option.splits)
qed

text \<open>An action, the predicate it keeps, and that nothing stays deferred.\<close>

lemma in_transaction_keeps: "in_transaction m d = Inr (x, d') \<Longrightarrow> preserves P m \<Longrightarrow> clears m \<Longrightarrow> P d \<Longrightarrow> P d' \<and> deferred d' = []"
  unfolding in_transaction_Inr by (auto simp: clears_def dest: preservesD)

lemma hold_keeps: "hold env i d = Inr (x, d') \<Longrightarrow> (\<And>hash n. preserves P (attemptHold env i hash n)) \<Longrightarrow> P d \<Longrightarrow> P d' \<and> deferred d' = []"
  using clears_attemptHold by (elim hold_result) (auto simp: clears_def dest: preservesD)

lemma perform_inv:
  assumes c: "clocks_by t now a" and p: "perform now a d = Some d'" and I: "inv t {} d" and D: "deferred d = []"
  shows "inv t {} d' \<and> deferred d' = []"
proof -
  have now: "now \<le> t" using c by (simp add: clocks_by_def)
  note commands = in_transaction_keeps [where P = "inv t {}", OF _ _ _ I]
  note C = commands createUnit_keeps [where P = "inv t {}", OF _ preserves_commit I] createCombo_keeps [where P = "inv t {}", OF _ preserves_commit I]
    createSchedule_keeps [where P = "inv t {}", OF _ preserves_commit I] updateSchedule_keeps [where P = "inv t {}", OF _ preserves_commit I]
    updates_keep [where P = "inv t {}", OF preserves_commit I D]
  note N = preserves_confirm preserves_mint preserves_cancel preserves_advance preserves_expire preserves_purge
  from p show ?thesis
  proof (cases a)
    case (Do_hold env i)
    then have h: "preserves (inv t {}) (attemptHold env i hash n)" for hash n using c by (simp add: clocks_by_def preserves_attemptHold)
    from p Do_hold obtain x where "hold env i d = Inr (x, d')" by (auto simp: perform_def after_Some)
    from hold_keeps [OF this h I] show ?thesis .
  qed (use now in \<open>auto simp: perform_def after_Some confirm_def mintConfirmToken_def cancel_def seat_def complete_def expireDue_def purgeRetained_def
      intro: C [THEN conjunct1] C [THEN conjunct2] N clears_commands inv_admin_tx preserves_insert_unit preserves_insert_schedule preserves_update_schedule\<close>)
qed

text \<open>Whatever a reservation was at the start, the action moved it as \<open>move_of\<close> says.\<close>

lemma perform_evolves:
  assumes p: "perform now a d = Some d'" and I: "ids_ok d" and D: "deferred d = []"
  shows "evolves (mv_into (move_of a)) (mv_venues (move_of a)) (mv_new (move_of a)) d d'"
proof -
  have E: "evolves S V N d d" for S V N by (rule evolves_refl [OF I])
  have K: "preserves (evolves S V N d) commit" for S V N by (rule ev_plain)
  note commands = in_transaction_keeps [where P = "evolves S V N d" for S V N, OF _ _ _ E, THEN conjunct1]
  note creates = createUnit_keeps [where P = "evolves S V N d" for S V N, OF _ K E, THEN conjunct1]
    createCombo_keeps [where P = "evolves S V N d" for S V N, OF _ K E, THEN conjunct1]
    createSchedule_keeps [where P = "evolves S V N d" for S V N, OF _ K E, THEN conjunct1]
    updateSchedule_keeps [where P = "evolves S V N d" for S V N, OF _ K E, THEN conjunct1]
  note updates = updates_keep [where P = "evolves S V N d" for S V N, OF K E D, THEN conjunct1]
  from p show ?thesis
  proof (cases a)
    case (Do_hold env i)
    with p obtain x where "hold env i d = Inr (x, d')" by (auto simp: perform_def after_Some)
    from hold_keeps [OF this ev_attemptHold E] show ?thesis by (simp add: Do_hold move_of_def)
  qed (auto simp: perform_def after_Some confirm_def mintConfirmToken_def cancel_def seat_def complete_def expireDue_def purgeRetained_def move_of_def
      intro: commands creates updates ev_lifecycle ev_jobs clears_commands ev_admin ev_plain)
qed

section \<open>Simulation\<close>

text \<open>Runs of a labelled system, and what it takes for them to be runs of another.\<close>

inductive run_of :: "('s \<Rightarrow> 'l \<Rightarrow> 's \<Rightarrow> bool) \<Rightarrow> 's \<Rightarrow> 'l list \<Rightarrow> 's \<Rightarrow> bool" for st where
  stays: "run_of st s [] s"
| goes: "st s l s' \<Longrightarrow> run_of st s' ls s'' \<Longrightarrow> run_of st s (l # ls) s''"

inductive_cases run_of_Nil [elim!]: "run_of st s [] s'"
inductive_cases run_of_Cons [elim!]: "run_of st s (l # ls) s'"

locale simulation =
  fixes good :: "'s \<Rightarrow> bool" and st :: "'s \<Rightarrow> 'l \<Rightarrow> 's \<Rightarrow> bool" and spec :: "'a \<Rightarrow> 'm \<Rightarrow> 'a \<Rightarrow> bool"
    and see :: "'s \<Rightarrow> 'a" and label :: "'l \<Rightarrow> 'm"
  assumes good_step: "good s \<Longrightarrow> st s l s' \<Longrightarrow> good s'"
    and simulates: "good s \<Longrightarrow> st s l s' \<Longrightarrow> spec (see s) (label l) (see s')"
begin

lemma run_good: "run_of st s ls s' \<Longrightarrow> good s \<Longrightarrow> good s'"
  by (induction rule: run_of.induct) (auto intro: good_step)

lemma run_simulated: "run_of st s ls s' \<Longrightarrow> good s \<Longrightarrow> run_of spec (see s) (map label ls) (see s')"
  by (induction rule: run_of.induct) (auto intro: run_of.intros good_step simulates)

end

definition good_state :: "instant \<times> db \<Rightarrow> bool" where
  "good_state s \<longleftrightarrow> inv (fst s) {} (snd s) \<and> deferred (snd s) = []"

definition label_of :: "action option \<Rightarrow> move" where
  "label_of l = (case l of None \<Rightarrow> \<lparr>mv_into = {}, mv_venues = {}, mv_new = {}\<rparr> | Some a \<Rightarrow> move_of a)"

lemma cal_step_idle: "inv t {} d \<Longrightarrow> cal_step (calendar_of d) m (calendar_of d)"
proof -
  assume "inv t {} d"
  moreover have "\<exists>s. a = a\<lparr>bk_status := s\<rparr> \<and> moved S (bk_status a) s \<and> (bk_venue a \<notin> V \<longrightarrow> s = bk_status a)" for a :: booking and S V
    by (rule exI [of _ "bk_status a"]) simp
  ultimately show ?thesis using calendar_no_clash by (simp add: cal_step_def)
qed

lemma good_step: "good_state s \<Longrightarrow> system_step s l s' \<Longrightarrow> good_state s'"
  unfolding good_state_def
  by (cases rule: system_step.cases, assumption) (auto dest: inv_mono perform_inv)

lemma step_simulated: "good_state s \<Longrightarrow> system_step s l s' \<Longrightarrow> cal_step (calendar_of (snd s)) (label_of l) (calendar_of (snd s'))"
proof -
  assume g: "good_state s" and s: "system_step s l s'"
  from s show ?thesis
  proof (cases rule: system_step.cases)
    case (commits t now a d d')
    have I: "inv t {} d" "deferred d = []" "inv t {} d'" using g good_step [OF g s] commits by (simp_all add: good_state_def)
    have "evolves (mv_into (move_of a)) (mv_venues (move_of a)) (mv_new (move_of a)) d d'"
      using perform_evolves [OF commits(5) _ I(2)] I(1) by (simp add: inv_def)
    from evolves_cal_step [OF this I(1,3) refl refl refl] show ?thesis by (simp add: commits label_of_def)
  qed (use g cal_step_idle in \<open>auto simp: good_state_def\<close>)
qed

interpretation dastar: simulation good_state system_step cal_step "calendar_of \<circ> snd" label_of
  by unfold_locales (simp_all add: good_step step_simulated)

lemma fresh_good: "fresh d \<Longrightarrow> good_state (t, d)"
  by (simp add: fresh_def good_state_def inv_def exclusion_ok_def sync_ok_def members_ok_def fit_ok_def blackout_ok_def audit_ok_def assigned_ok_def)

lemma reachable_good: "reachable s \<Longrightarrow> good_state s"
  by (induction rule: reachable.induct) (auto intro: fresh_good good_step)

text \<open>
  C1: in every state the commands of clients, staff and worker can reach from a venue without reservations, in any order
  and at any clocks, no unit is booked twice at once, every live reservation fits a usable assignment and lies outside
  every active blackout, and the history of each ends in its row.
\<close>

theorem no_double_booking:
  assumes "reachable (t, d)" and "r \<in> set (reservations d)"
  shows "(\<forall>r'\<in>set (reservations d). r' \<noteq> r \<and> \<not> released (r_status r) \<and> \<not> released (r_status r')
        \<and> set (members_of d (r_assignment r)) \<inter> set (members_of d (r_assignment r')) \<noteq> {} \<longrightarrow> \<not> overlaps (r_during r) (r_during r'))
    \<and> (live t r \<longrightarrow> fits d r \<and> outside_blackouts d r)
    \<and> audit_chain None (trail d (r_id r)) (Some (audited r))"
proof -
  have I: "inv t {} d" using reachable_good [OF assms(1)] by (simp add: good_state_def)
  then have "(live t r \<longrightarrow> fits d r \<and> outside_blackouts d r) \<and> audit_chain None (trail d (r_id r)) (Some (audited r))"
    using assms(2) by (simp add: inv_def fit_ok_def blackout_ok_def audit_ok_def)
  with overlaps_clash [OF I assms(2)] show ?thesis by blast
qed

lemma demo_step: "reachable (0, demo_db)"
  "system_step (0, demo_db) (Some (Do_hold (demo_env 0 ''r1'') (demo_hold ''key'' on_a 2))) (0, held_db)"
proof -
  have "inv 0 {} demo_db" by (rule demo_db_inv)
  then show "reachable (0, demo_db)" by (intro reachable.start) (simp add: fresh_def inv_def demo_db_def)
  show "system_step (0, demo_db) (Some (Do_hold (demo_env 0 ''r1'') (demo_hold ''key'' on_a 2))) (0, held_db)"
    by (rule commits [of _ 0]) (simp add: clocks_by_def demo_env_def, simp add: perform_def after_def demo_held)
qed

theorem no_double_booking_witness:
  "fits held_db demo_reservation \<and> audit_chain None (trail held_db ''r1'') (Some (audited demo_reservation))"
proof -
  have "demo_reservation \<in> set (reservations held_db)" "live 0 demo_reservation" "r_id demo_reservation = ''r1''"
    by (simp_all add: held_db_def demo_reservation_def live_iff)
  with no_double_booking [OF reachable.step [OF demo_step] this(1)] show ?thesis by simp
qed

text \<open>
  C2: the database is a calendar of bookings: every run of the system is, action by action, a run of the specification,
  in which bookings stay what they are, advance only as the action allows, those of other venues stand still, and no two
  clash.
\<close>

theorem system_refines_calendar:
  assumes "reachable s" and "run_of system_step s ls s'"
  shows "run_of cal_step (calendar_of (snd s)) (map label_of ls) (calendar_of (snd s')) \<and> no_clash (calendar_of (snd s'))"
proof -
  have "good_state s" by (rule reachable_good [OF assms(1)])
  with dastar.run_simulated [OF assms(2)] dastar.run_good [OF assms(2)] calendar_no_clash show ?thesis
    by (auto simp: good_state_def)
qed

theorem system_refines_calendar_witness:
  "run_of cal_step (calendar_of demo_db) [move_of (Do_hold (demo_env 0 ''r1'') (demo_hold ''key'' on_a 2))] (calendar_of held_db)
   \<and> calendar_of demo_db ''r1'' = None \<and> map_option bk_status (calendar_of held_db ''r1'') = Some Held"
proof -
  from system_refines_calendar [OF demo_step(1) goes [of system_step, OF demo_step(2) stays]]
  have "run_of cal_step (calendar_of demo_db) [move_of (Do_hold (demo_env 0 ''r1'') (demo_hold ''key'' on_a 2))] (calendar_of held_db)"
    by (simp add: label_of_def)
  then show ?thesis by (simp add: calendar_of_def booking_of_def demo_db_def held_db_def demo_reservation_def)
qed

end
