(* ===== verification/Migrate.thy ===== *)
theory Migrate
  imports Prelude JsNumber
begin

text \<open>
  The migration runner (packages/db/src/migrate.ts): the header of a file and the files of a directory, the normal form of
  a statement, the one statement a file outside a transaction may be, the retry after a lock timeout, and the run over the
  files. Postgres is a parameter. A run applies each file once; a normal form is its own normal form.
\<close>

section \<open>Text\<close>

text \<open>A line terminator, as \<open>^\<close>, \<open>$\<close> and \<open>.\<close> see it.\<close>

definition line_end :: "char \<Rightarrow> bool" where
  "line_end c \<longleftrightarrow> c = CHR 0x0A \<or> c = CHR 0x0D"

definition after_prefix :: "string \<Rightarrow> string \<Rightarrow> string option" where
  "after_prefix p s = (if take (length p) s = p then Some (drop (length p) s) else None)"

section \<open>The header of a file\<close>

datatype Impact = Instant_exclusive | Long_nonblocking | Long_blocks_writes | Long_blocks_all

definition impacts :: "(string \<times> Impact) list" where
  "impacts = [(''instant-exclusive'', Instant_exclusive), (''long-nonblocking'', Long_nonblocking),
     (''long-blocks-writes'', Long_blocks_writes), (''long-blocks-all'', Long_blocks_all)]"

record Header =
  hd_transaction :: bool
  hd_impact :: Impact

text \<open>Only spaces to the end of a line, which the spaces may run over.\<close>

definition at_line_end :: "string \<Rightarrow> bool" where
  "at_line_end s = (case dropWhile (\<lambda>c. js_space c \<and> \<not> line_end c) s of [] \<Rightarrow> True | c # _ \<Rightarrow> line_end c)"

text \<open>\<open>--\<close>, the key and one of its values, with any spaces between, to the end of a line: at one position.\<close>

definition header_here :: "string \<Rightarrow> (string \<times> 'a) list \<Rightarrow> string \<Rightarrow> 'a option" where
  "header_here key values s = (case after_prefix ''--'' s of
      None \<Rightarrow> None
    | Some s1 \<Rightarrow> (case after_prefix key (dropWhile js_space s1) of
        None \<Rightarrow> None
      | Some s2 \<Rightarrow> map_option snd (find (\<lambda>(v, _). case after_prefix v (dropWhile js_space s2) of None \<Rightarrow> False | Some s3 \<Rightarrow> at_line_end s3) values)))"

text \<open>The first line start at which it matches.\<close>

fun first_line :: "(string \<Rightarrow> 'a option) \<Rightarrow> bool \<Rightarrow> string \<Rightarrow> 'a option" where
  "first_line m bol [] = (if bol then m [] else None)"
| "first_line m bol (c # s) = (case (if bol then m (c # s) else None) of Some x \<Rightarrow> Some x | None \<Rightarrow> first_line m (line_end c) s)"

definition parseHeader :: "string \<Rightarrow> string \<Rightarrow> string + Header" where
  "parseHeader name sql = (case (first_line (header_here ''transaction:'' [(''yes'', True), (''no'', False)]) True sql,
      first_line (header_here ''impact:'' impacts) True sql) of
      (Some tx, Some im) \<Rightarrow> Inr \<lparr>hd_transaction = tx, hd_impact = im\<rparr>
    | _ \<Rightarrow> Inl (name @ '': missing \"-- transaction:\" or \"-- impact:\" header''))"

section \<open>The files\<close>

record MigrationFile =
  mf_version :: nat
  mf_file :: string
  mf_sql :: string
  mf_checksum :: string

definition digits4 :: "string \<Rightarrow> bool" where
  "digits4 s \<longleftrightarrow> length s = 4 \<and> list_all (\<lambda>c. c \<in> set ''0123456789'') s"

definition version_digits :: "string \<Rightarrow> nat" where
  "version_digits s = foldl (\<lambda>n c. 10 * n + (of_char c - 48)) 0 s"

text \<open>Four digits, an underscore, a name and \<open>.sql\<close>.\<close>

definition migration_name :: "string \<Rightarrow> bool" where
  "migration_name f \<longleftrightarrow> 10 \<le> length f \<and> digits4 (take 4 f) \<and> f ! 4 = CHR ''_'' \<and> drop (length f - 4) f = ''.sql''
     \<and> list_all (\<lambda>c. \<not> line_end c) (take (length f - 9) (drop 5 f))"

definition readMigrationFiles :: "(string \<Rightarrow> string) \<Rightarrow> (string \<times> string) list \<Rightarrow> MigrationFile list" where
  "readMigrationFiles sha dir = map (\<lambda>(f, sql). \<lparr>mf_version = version_digits (take 4 f), mf_file = f, mf_sql = sql, mf_checksum = sha sql\<rparr>)
     (sort_key fst (filter (\<lambda>(f, _). migration_name f) dir))"

section \<open>normalizeSql\<close>

text \<open>The quoted run after its opening quote, to the closing quote, and what follows; a doubled quote is an escape.\<close>

fun endOfQuoted :: "char \<Rightarrow> string \<Rightarrow> (string \<times> string) option" where
  "endOfQuoted q [] = None"
| "endOfQuoted q [c] = (if c = q then Some ([c], []) else None)"
| "endOfQuoted q (c # d # s) = (if c \<noteq> q then map_option (\<lambda>(run, rest). (c # run, rest)) (endOfQuoted q (d # s))
     else if d = q then map_option (\<lambda>(run, rest). (c # d # run, rest)) (endOfQuoted q s)
     else Some ([c], d # s))"

lemma endOfQuoted_split: "endOfQuoted q s = Some (run, rest) \<Longrightarrow> s = run @ rest \<and> run \<noteq> []"
  by (induction q s arbitrary: run rest rule: endOfQuoted.induct) (auto split: if_splits)

definition single_quote :: char where "single_quote = CHR 0x27"
definition double_quote :: char where "double_quote = CHR 0x22"

definition quote_char :: "char \<Rightarrow> bool" where
  "quote_char c \<longleftrightarrow> c = single_quote \<or> c = double_quote"

text \<open>Past the first \<open>*/\<close>, or to the end.\<close>

fun after_block :: "string \<Rightarrow> string" where
  "after_block (c # d # s) = (if c = CHR ''*'' \<and> d = CHR ''/'' then s else after_block (d # s))"
| "after_block _ = []"

lemma after_block_shorter: "length (after_block s) \<le> length s"
  by (induction s rule: after_block.induct) auto

definition unterminated :: "char \<Rightarrow> string" where
  "unterminated q = ''unterminated '' @ (if q = single_quote then ''string literal'' else ''quoted identifier'') @ '' in a migration statement''"

definition blank :: "bool \<Rightarrow> string" where
  "blank space = (if space then [] else '' '')"

function normalize_loop :: "bool \<Rightarrow> string \<Rightarrow> string + string" where
  "normalize_loop space [] = Inr []"
| "normalize_loop space (c # s) = (
     if quote_char c then (case endOfQuoted c s of
         None \<Rightarrow> Inl (unterminated c)
       | Some (run, rest) \<Rightarrow> rbind (normalize_loop False rest) (\<lambda>out'. Inr (c # run @ out')))
     else if c = CHR ''-'' \<and> take 1 s = ''-'' then
       rbind (normalize_loop True (dropWhile (\<lambda>x. x \<noteq> CHR 0x0A) s)) (\<lambda>out'. Inr (blank space @ out'))
     else if c = CHR ''/'' \<and> take 1 s = ''*'' then
       rbind (normalize_loop True (after_block (tl s))) (\<lambda>out'. Inr (blank space @ out'))
     else if js_space c then rbind (normalize_loop True s) (\<lambda>out'. Inr (blank space @ out'))
     else rbind (normalize_loop False s) (\<lambda>out'. Inr (lower_char c # out')))"
  by pat_completeness auto
termination
proof (relation "measure (length \<circ> snd)")
  fix space :: bool and c :: char and s :: string and a x y
  assume "endOfQuoted c s = Some a" "(x, y) = a"
  then show "((False, y), space, c # s) \<in> measure (length \<circ> snd)" using endOfQuoted_split [of c s x y] by auto
qed (auto simp: le_imp_less_Suc length_dropWhile_le intro!: le_imp_less_Suc order_trans [OF after_block_shorter])

declare normalize_loop.simps(2) [simp del]

definition drop_semicolon :: "string \<Rightarrow> string" where
  "drop_semicolon s = (if s \<noteq> [] \<and> last s = CHR '';'' then butlast s else s)"

definition normalizeSql :: "string \<Rightarrow> string + string" where
  "normalizeSql sql = rbind (normalize_loop False sql) (\<lambda>out'. Inr (js_trim (drop_semicolon (js_trim out'))))"

section \<open>parseConcurrentIndex\<close>

datatype ConcurrentIndexStatement =
    Create_index string string string string
  | Drop_index string string

fun stmt_schema :: "ConcurrentIndexStatement \<Rightarrow> string" where
  "stmt_schema (Create_index schema _ _ _) = schema"
| "stmt_schema (Drop_index schema _) = schema"

fun stmt_name :: "ConcurrentIndexStatement \<Rightarrow> string" where
  "stmt_name (Create_index _ name _ _) = name"
| "stmt_name (Drop_index _ name) = name"

text \<open>\<open>IDENT\<close>: the longest identifier, and what follows. No character that may follow it belongs to one.\<close>

definition ident_start :: "char \<Rightarrow> bool" where
  "ident_start c \<longleftrightarrow> c \<in> set ''abcdefghijklmnopqrstuvwxyz_''"

definition ident_char :: "char \<Rightarrow> bool" where
  "ident_char c \<longleftrightarrow> ident_start c \<or> c \<in> set ''0123456789''"

definition IDENT :: "string \<Rightarrow> (string \<times> string) option" where
  "IDENT s = (case s of [] \<Rightarrow> None | c # _ \<Rightarrow> if ident_start c then Some (takeWhile ident_char s, dropWhile ident_char s) else None)"

text \<open>The last group of \<open>CREATE_RE\<close>: parentheses around at least one character and no line end, to the end.\<close>

definition column_list :: "string \<Rightarrow> bool" where
  "column_list s \<longleftrightarrow> 3 \<le> length s \<and> hd s = CHR ''('' \<and> last s = CHR '')'' \<and> list_all (\<lambda>c. \<not> line_end c) (butlast (tl s))"

text \<open>A literal, then an identifier.\<close>

definition then_ident :: "string \<Rightarrow> string \<Rightarrow> (string \<times> string) option" where
  "then_ident p s = (case after_prefix p s of None \<Rightarrow> None | Some r \<Rightarrow> IDENT r)"

definition CREATE_RE :: "string \<Rightarrow> (string \<times> string \<times> string) option" where
  "CREATE_RE s = (case after_prefix ''create '' s of None \<Rightarrow> None | Some r0 \<Rightarrow>
     (case then_ident ''index concurrently if not exists '' (case after_prefix ''unique '' r0 of None \<Rightarrow> r0 | Some r \<Rightarrow> r) of None \<Rightarrow> None | Some (name, r1) \<Rightarrow>
     (case then_ident '' on '' r1 of None \<Rightarrow> None | Some (schema, r2) \<Rightarrow>
     (case then_ident ''.'' r2 of None \<Rightarrow> None | Some (tab, r3) \<Rightarrow>
     (case then_ident '' using '' r3 of None \<Rightarrow> None | Some (_, r4) \<Rightarrow>
     (case after_prefix '' '' r4 of None \<Rightarrow> None | Some r5 \<Rightarrow> if column_list r5 then Some (name, schema, tab) else None))))))"

definition DROP_RE :: "string \<Rightarrow> (string \<times> string) option" where
  "DROP_RE s = (case then_ident ''drop index concurrently if exists '' s of None \<Rightarrow> None | Some (schema, r1) \<Rightarrow>
     (case then_ident ''.'' r1 of None \<Rightarrow> None | Some (name, r2) \<Rightarrow> if r2 = [] then Some (schema, name) else None))"

text \<open>\<open>replace\<close> of the first occurrence.\<close>

fun replace_first :: "string \<Rightarrow> string \<Rightarrow> string \<Rightarrow> string" where
  "replace_first old new [] = []"
| "replace_first old new (c # s) = (case after_prefix old (c # s) of Some r \<Rightarrow> new @ r | None \<Rightarrow> c # replace_first old new s)"

definition one_statement :: "string \<Rightarrow> string" where
  "one_statement file = file @ '': a \"transaction: no\" file must contain exactly one statement, and its literals may not contain semicolons''"

definition index_statement :: "string \<Rightarrow> string" where
  "index_statement file = file @ '': a \"transaction: no\" file must be one \"create [unique] index concurrently if not exists <name> on <schema>.<table> using <method> (...)\" or \"drop index concurrently if exists <schema>.<name>\" statement''"

definition parseConcurrentIndex :: "string \<Rightarrow> string \<Rightarrow> string + ConcurrentIndexStatement" where
  "parseConcurrentIndex file sql = rbind (normalizeSql sql) (\<lambda>body.
     if CHR '';'' \<in> set body then Inl (one_statement file)
     else (case CREATE_RE body of
         Some (name, schema, tab) \<Rightarrow> Inr (Create_index schema name tab (replace_first ''index concurrently if not exists'' ''index'' body))
       | None \<Rightarrow> (case DROP_RE body of
           Some (schema, name) \<Rightarrow> Inr (Drop_index schema name)
         | None \<Rightarrow> Inl (index_statement file))))"

section \<open>The run\<close>

text \<open>
  Postgres is a parameter: what a statement does to the rest of the database, a state of type \<open>'s\<close>, or the error it
  fails with; and what the catalog says of a name. The table \<open>schema_migration\<close> is the runner's own: its rows are kept
  here, and a transaction that fails, at its commit too, leaves them as they were.
\<close>

datatype migrate_error = Refused string | Sql_error string string

record Relation =
  rel_kind :: string
  rel_table :: "string option"
  rel_definition :: "string option"
  rel_valid :: bool
  rel_ready :: bool

record 's server =
  sv_exec :: "string \<Rightarrow> 's \<Rightarrow> (string \<times> string + unit) \<times> 's"
  sv_relation :: "string \<Rightarrow> string \<Rightarrow> 's \<Rightarrow> string \<times> string + Relation option"

type_synonym migration_row = "nat \<times> string \<times> string"

record 's mstate =
  ms_rows :: "migration_row list"
  ms_rest :: 's

type_synonym 's effect = "'s mstate \<Rightarrow> (migrate_error + unit) \<times> 's mstate"

definition mok :: "'s effect" where "mok s = (Inr (), s)"
definition mfail :: "migrate_error \<Rightarrow> 's effect" where "mfail e s = (Inl e, s)"

definition mthen :: "'s effect \<Rightarrow> 's effect \<Rightarrow> 's effect" where
  "mthen m n s = (case m s of (Inl e, s') \<Rightarrow> (Inl e, s') | (Inr _, s') \<Rightarrow> n s')"

definition query :: "'s server \<Rightarrow> string \<Rightarrow> 's effect" where
  "query sv sql s = (case sv_exec sv sql (ms_rest s) of
      (Inl (code, m), r) \<Rightarrow> (Inl (Sql_error code m), s\<lparr>ms_rest := r\<rparr>)
    | (Inr _, r) \<Rightarrow> (Inr (), s\<lparr>ms_rest := r\<rparr>))"

definition insert_row :: "MigrationFile \<Rightarrow> 's effect" where
  "insert_row f s = (if mf_version f \<in> fst ` set (ms_rows s)
     then (Inl (Sql_error ''23505'' ''duplicate key value violates unique constraint \"schema_migration_pkey\"''), s)
     else (Inr (), s\<lparr>ms_rows := ms_rows s @ [(mf_version f, mf_file f, mf_checksum f)]\<rparr>))"

definition record_row :: "'s server \<Rightarrow> MigrationFile \<Rightarrow> 's effect" where
  "record_row sv f = mthen (query sv ''insert into dastar.schema_migration(version, name, checksum) values ($1, $2, $3)'') (insert_row f)"

text \<open>A file in a transaction.\<close>

definition in_block :: "'s server \<Rightarrow> string \<Rightarrow> MigrationFile \<Rightarrow> 's effect" where
  "in_block sv lockTimeout f s = (case mthen (query sv ''begin'')
       (mthen (query sv (''set local lock_timeout = '' @ [CHR 0x27] @ lockTimeout @ [CHR 0x27]))
       (mthen (query sv (mf_sql f)) (mthen (record_row sv f) (query sv ''commit'')))) s of
      (Inl e, s') \<Rightarrow> (Inl e, (snd (query sv ''rollback'' s'))\<lparr>ms_rows := ms_rows s\<rparr>)
    | (Inr _, s') \<Rightarrow> (Inr (), s'))"

definition withLockTimeout :: "'s server \<Rightarrow> string \<Rightarrow> string \<Rightarrow> 's effect" where
  "withLockTimeout sv lockTimeout sql = mthen (query sv (''set lock_timeout = '' @ [CHR 0x27] @ lockTimeout @ [CHR 0x27]))
     (\<lambda>s. case query sv sql s of (r, s') \<Rightarrow> (r, snd (query sv ''reset lock_timeout'' s')))"

definition or_unknown :: "string option \<Rightarrow> string" where
  "or_unknown s = (case s of None \<Rightarrow> ''?'' | Some t \<Rightarrow> t)"

definition same_index :: "Relation \<Rightarrow> string \<Rightarrow> string \<Rightarrow> string + bool" where
  "same_index rel tab normalized = (if rel_table rel \<noteq> Some tab then Inr False
     else (case rel_definition rel of None \<Rightarrow> Inr False | Some d \<Rightarrow> rbind (normalizeSql d) (\<lambda>n. Inr (n = normalized))))"

definition drop_leftover :: "string \<Rightarrow> string \<Rightarrow> string" where
  "drop_leftover schema name = ''drop index concurrently if exists '' @ schema @ ''.'' @ name"

definition applyConcurrent :: "'s server \<Rightarrow> string \<Rightarrow> MigrationFile \<Rightarrow> ConcurrentIndexStatement \<Rightarrow> 's effect" where
  "applyConcurrent sv lockTimeout f stmt s = (case sv_relation sv (stmt_schema stmt) (stmt_name stmt) (ms_rest s) of
      Inl (code, m) \<Rightarrow> mfail (Sql_error code m) s
    | Inr None \<Rightarrow> (case stmt of
          Create_index _ _ _ _ \<Rightarrow> mthen (withLockTimeout sv lockTimeout (mf_sql f)) (record_row sv f) s
        | Drop_index _ _ \<Rightarrow> record_row sv f s)
    | Inr (Some rel) \<Rightarrow> (case stmt of
          Create_index schema name tab normalized \<Rightarrow>
            if rel_kind rel \<noteq> ''i'' then mfail (Refused (mf_file f @ '': '' @ schema @ ''.'' @ name @ '' exists and is not an index (relkind '' @ rel_kind rel
              @ ''); the file would create it on '' @ tab @ '' as: '' @ normalized @ ''; manual repair required'')) s
            else (case same_index rel tab normalized of
                Inl m \<Rightarrow> mfail (Refused m) s
              | Inr False \<Rightarrow> mfail (Refused (mf_file f @ '': index '' @ schema @ ''.'' @ name @ '' exists with a different definition; manual repair required''
                  @ [CHR 0x0A] @ ''  existing: '' @ or_unknown (rel_definition rel) @ '' on '' @ or_unknown (rel_table rel)
                  @ [CHR 0x0A] @ ''  file:     '' @ normalized)) s
              | Inr True \<Rightarrow> if rel_valid rel \<and> rel_ready rel then record_row sv f s
                  else mthen (withLockTimeout sv lockTimeout (drop_leftover schema name)) (mthen (withLockTimeout sv lockTimeout (mf_sql f)) (record_row sv f)) s)
        | Drop_index schema name \<Rightarrow>
            if rel_kind rel \<noteq> ''i'' then mfail (Refused (mf_file f @ '': '' @ schema @ ''.'' @ name @ '' exists and is not an index (relkind '' @ rel_kind rel
              @ ''); the file would drop index '' @ schema @ ''.'' @ name @ ''; manual repair required'')) s
            else mthen (withLockTimeout sv lockTimeout (mf_sql f)) (record_row sv f) s))"

text \<open>A lock timeout is tried again, up to the attempts allowed.\<close>

definition lock_timeout :: "migrate_error \<Rightarrow> bool" where
  "lock_timeout e \<longleftrightarrow> (case e of Sql_error code _ \<Rightarrow> code = ''55P03'' | Refused _ \<Rightarrow> False)"

function attempts :: "'s effect \<Rightarrow> nat \<Rightarrow> nat \<Rightarrow> 's effect" where
  "attempts m maxAttempts attempt s = (case m s of
      (Inr _, s') \<Rightarrow> (Inr (), s')
    | (Inl e, s') \<Rightarrow> if lock_timeout e \<and> attempt < maxAttempts then attempts m maxAttempts (attempt + 1) s' else (Inl e, s'))"
  by pat_completeness auto
termination by (relation "measure (\<lambda>(m, maxAttempts, attempt, s). maxAttempts - attempt)") auto

declare attempts.simps [simp del]

definition applyWithRetry :: "'s server \<Rightarrow> string \<Rightarrow> nat \<Rightarrow> MigrationFile \<Rightarrow> Header \<Rightarrow> 's effect" where
  "applyWithRetry sv lockTimeout maxAttempts f h s = (if hd_transaction h then attempts (in_block sv lockTimeout f) maxAttempts 1 s
     else (case parseConcurrentIndex (mf_file f) (mf_sql f) of
         Inl m \<Rightarrow> mfail (Refused m) s
       | Inr stmt \<Rightarrow> attempts (applyConcurrent sv lockTimeout f stmt) maxAttempts 1 s))"

record MigrateOptions =
  mo_allowBlocking :: bool
  mo_lockTimeout :: string
  mo_maxAttempts :: nat

definition default_migrate_options :: MigrateOptions where
  "default_migrate_options = \<lparr>mo_allowBlocking = False, mo_lockTimeout = ''3s'', mo_maxAttempts = 5\<rparr>"

text \<open>Digits, not all zero, and a unit.\<close>

definition LOCK_TIMEOUT_RE :: "string \<Rightarrow> bool" where
  "LOCK_TIMEOUT_RE s \<longleftrightarrow> (let ds = takeWhile (\<lambda>c. c \<in> set ''0123456789'') s; u = dropWhile (\<lambda>c. c \<in> set ''0123456789'') s in
     ds \<noteq> [] \<and> u \<in> {''ms'', ''s'', ''min''} \<and> list_ex (\<lambda>c. c \<noteq> CHR ''0'') ds)"

definition impact_text :: "Impact \<Rightarrow> string" where
  "impact_text i = (case find (\<lambda>(_, j). j = i) impacts of None \<Rightarrow> [] | Some (t, _) \<Rightarrow> t)"

definition blocking :: "Impact \<Rightarrow> bool" where
  "blocking i \<longleftrightarrow> i = Long_blocks_writes \<or> i = Long_blocks_all"

definition apply_file :: "'s server \<Rightarrow> MigrateOptions \<Rightarrow> MigrationFile \<Rightarrow> 's effect" where
  "apply_file sv opts f s = (case parseHeader (mf_file f) (mf_sql f) of
      Inl m \<Rightarrow> mfail (Refused m) s
    | Inr h \<Rightarrow> if blocking (hd_impact h) \<and> \<not> mo_allowBlocking opts
        then mfail (Refused (mf_file f @ '': impact '' @ impact_text (hd_impact h) @ '' requires a maintenance window; pass allowBlocking'')) s
        else applyWithRetry sv (mo_lockTimeout opts) (mo_maxAttempts opts) f h s)"

text \<open>The loop over the files, with the rows found before it.\<close>

fun migrate_files :: "'s server \<Rightarrow> MigrateOptions \<Rightarrow> (nat \<times> string) list \<Rightarrow> MigrationFile list \<Rightarrow> 's mstate \<Rightarrow> (migrate_error + string list) \<times> 's mstate" where
  "migrate_files sv opts before [] s = (Inr [], s)"
| "migrate_files sv opts before (f # fs) s = (case map_of before (mf_version f) of
      Some prev \<Rightarrow> if prev \<noteq> mf_checksum f then (Inl (Refused (''checksum mismatch for applied migration '' @ mf_file f)), s)
        else migrate_files sv opts before fs s
    | None \<Rightarrow> (case apply_file sv opts f s of
        (Inl e, s') \<Rightarrow> (Inl e, s')
      | (Inr _, s') \<Rightarrow> (case migrate_files sv opts before fs s' of
          (Inl e, s'') \<Rightarrow> (Inl e, s'')
        | (Inr applied, s'') \<Rightarrow> (Inr (mf_file f # applied), s''))))"

definition applied_rows :: "'s mstate \<Rightarrow> (nat \<times> string) list" where
  "applied_rows s = map (\<lambda>(v, _, c). (v, c)) (ms_rows s)"

definition open_run :: "'s server \<Rightarrow> 's effect" where
  "open_run sv = mthen (query sv ''select pg_advisory_lock($1)'')
     (mthen (query sv ''create schema if not exists dastar'')
     (mthen (query sv ''create table if not exists dastar.schema_migration (version int primary key, name text not null, checksum bytea not null, applied_at timestamptz not null default now())'')
     (query sv ''select version, checksum from dastar.schema_migration'')))"

text \<open>The lock is given back whatever happened.\<close>

definition close_run :: "'s server \<Rightarrow> (migrate_error + 'a) \<times> 's mstate \<Rightarrow> (migrate_error + 'a) \<times> 's mstate" where
  "close_run sv x = (fst x, snd (query sv ''select pg_advisory_unlock($1)'' (snd x)))"

definition migrate :: "'s server \<Rightarrow> MigrateOptions \<Rightarrow> MigrationFile list \<Rightarrow> 's mstate \<Rightarrow> (migrate_error + string list) \<times> 's mstate" where
  "migrate sv opts files s = (if \<not> LOCK_TIMEOUT_RE (mo_lockTimeout opts)
     then (Inl (Refused (''lockTimeout must be a non-zero value like \"3s\" or \"200ms\", got \"'' @ mo_lockTimeout opts @ [CHR 0x22])), s)
     else close_run sv (case open_run sv s of
         (Inl e, s') \<Rightarrow> (Inl e, s')
       | (Inr _, s') \<Rightarrow> migrate_files sv opts (applied_rows s') files s'))"

section \<open>What a run records\<close>

definition migration_row_of :: "MigrationFile \<Rightarrow> migration_row" where
  "migration_row_of f = (mf_version f, mf_file f, mf_checksum f)"

text \<open>A run either fails and records nothing, or records its file, which was not there.\<close>

definition outcome_of :: "MigrationFile \<Rightarrow> 's mstate \<Rightarrow> (migrate_error + unit) \<times> 's mstate \<Rightarrow> bool" where
  "outcome_of f s x \<longleftrightarrow> (case x of
      (Inl _, s') \<Rightarrow> ms_rows s' = ms_rows s
    | (Inr _, s') \<Rightarrow> mf_version f \<notin> fst ` set (ms_rows s) \<and> ms_rows s' = ms_rows s @ [migration_row_of f])"

lemma outcome_simps [simp]:
  "outcome_of f s (Inl e, s') \<longleftrightarrow> ms_rows s' = ms_rows s"
  "outcome_of f s (Inr u, s') \<longleftrightarrow> mf_version f \<notin> fst ` set (ms_rows s) \<and> ms_rows s' = ms_rows s @ [migration_row_of f]"
  by (simp_all add: outcome_of_def)

lemma outcome_cong: "ms_rows s = ms_rows t \<Longrightarrow> outcome_of f s x = outcome_of f t x"
  by (simp add: outcome_of_def split: prod.split sum.split)

lemma query_rows: "ms_rows (snd (query sv sql s)) = ms_rows s"
  by (auto simp: query_def split: prod.split sum.split)

text \<open>A step that leaves the rows as they are.\<close>

definition quiet :: "'s effect \<Rightarrow> bool" where
  "quiet m \<longleftrightarrow> (\<forall>s. ms_rows (snd (m s)) = ms_rows s)"

lemma quiet_query: "quiet (query sv sql)"
  by (simp add: quiet_def query_rows)

lemma quiet_then: "quiet m \<Longrightarrow> quiet n \<Longrightarrow> quiet (mthen m n)"
  unfolding quiet_def mthen_def by (smt (verit) case_prod_conv prod.exhaust_sel snd_conv sum.case_eq_if)

lemma quiet_locked: "quiet (withLockTimeout sv lt sql)"
  unfolding withLockTimeout_def
  by (intro quiet_then quiet_query) (auto simp: quiet_def query_rows split: prod.split dest: arg_cong [of _ _ snd] query_rows [symmetric, THEN trans])

lemma quiet_open: "quiet (open_run sv)"
  unfolding open_run_def by (intro quiet_then quiet_query)

lemma outcome_fail: "outcome_of f s (mfail e s)"
  by (simp add: mfail_def)

lemma outcome_then:
  assumes "quiet m" and "\<And>t. outcome_of f t (n t)"
  shows "outcome_of f s (mthen m n s)"
proof (cases "m s")
  case (Pair r t)
  with assms(1) have "ms_rows t = ms_rows s" by (simp add: quiet_def) (metis snd_conv)
  with Pair assms(2) [of t] outcome_cong [of t s] show ?thesis by (cases r) (simp_all add: mthen_def)
qed

lemma outcome_row: "outcome_of f s (record_row sv f s)"
  unfolding record_row_def by (rule outcome_then [OF quiet_query]) (simp add: insert_row_def migration_row_of_def)

lemmas outcomes = outcome_then [OF quiet_locked outcome_row] outcome_then [OF quiet_locked outcome_then [OF quiet_locked outcome_row]] outcome_row outcome_fail

text \<open>A commit after a row that was recorded, with the rows put back where it fails.\<close>

lemma outcome_commit:
  assumes "outcome_of f s (m s)" and "quiet n" and "mthen m n s = (Inr u, t)"
  shows "outcome_of f s (Inr u, t)"
proof (cases "m s")
  case (Pair r v)
  with assms(3) obtain w where "r = Inr w" "n v = (Inr u, t)" by (cases r) (auto simp: mthen_def)
  with assms(1,2) Pair show ?thesis by (simp add: quiet_def) (metis snd_conv)
qed

lemma mthen_assoc: "mthen (mthen a b) c = mthen a (mthen b c)"
  by (rule ext) (simp add: mthen_def split: prod.split sum.split)

lemma outcome_block: "outcome_of f s (in_block sv lt f s)"
proof -
  let ?set = "query sv (''set local lock_timeout = '' @ [CHR 0x27] @ lt @ [CHR 0x27])"
  let ?body = "mthen (query sv ''begin'') (mthen ?set (mthen (query sv (mf_sql f)) (record_row sv f)))"
  have o': "outcome_of f s (?body s)" by (intro outcome_then quiet_query outcome_row)
  show ?thesis
  proof (cases "mthen ?body (query sv ''commit'') s")
    case (Pair r t)
    then show ?thesis
    proof (cases r)
      case (Inr u)
      from outcome_commit [OF o' quiet_query Pair [unfolded Inr]] Pair Inr show ?thesis by (simp add: in_block_def mthen_assoc)
    qed (simp add: in_block_def mthen_assoc)
  qed
qed

lemma outcome_concurrent: "outcome_of f s (applyConcurrent sv lt f stmt s)"
  unfolding applyConcurrent_def by (simp add: outcomes split: option.split ConcurrentIndexStatement.split sum.split bool.split prod.split)

lemma outcome_attempts: "(\<And>t. outcome_of f t (m t)) \<Longrightarrow> outcome_of f s (attempts m k n s)"
proof (induction m k n s rule: attempts.induct)
  case (1 m k n s)
  show ?case
  proof (cases "m s")
    case (Pair r s')
    with "1.prems" [of s] have o': "outcome_of f s (r, s')" by simp
    show ?thesis
    proof (cases r)
      case (Inl e)
      show ?thesis
      proof (cases "lock_timeout e \<and> n < k")
        case True
        from "1.IH" [OF Pair [symmetric] Inl True "1.prems"] o' Inl show ?thesis
          by (subst attempts.simps) (simp add: Pair Inl True outcome_cong [of s' s])
      next
        case False
        with o' Inl show ?thesis by (subst attempts.simps) (auto simp: Pair Inl)
      qed
    next
      case (Inr u)
      with o' show ?thesis by (subst attempts.simps) (simp add: Pair)
    qed
  qed
qed

lemma outcome_file: "outcome_of f s (apply_file sv opts f s)"
  unfolding apply_file_def applyWithRetry_def
  by (simp add: outcome_fail outcome_attempts outcome_block outcome_concurrent split: sum.split)

text \<open>The files a run still has to apply.\<close>

definition pending :: "(nat \<times> string) list \<Rightarrow> MigrationFile list \<Rightarrow> MigrationFile list" where
  "pending before files = filter (\<lambda>f. map_of before (mf_version f) = None) files"

definition unchanged :: "(nat \<times> string) list \<Rightarrow> MigrationFile \<Rightarrow> bool" where
  "unchanged before f \<longleftrightarrow> (case map_of before (mf_version f) of None \<Rightarrow> True | Some c \<Rightarrow> c = mf_checksum f)"

text \<open>
  What Postgres logs: every statement, with whether it succeeded. A server that has such a log appends to it.
\<close>

type_synonym entry = "string \<times> bool"

definition keeps_log :: "'s server \<Rightarrow> ('s \<Rightarrow> entry list) \<Rightarrow> bool" where
  "keeps_log sv lg \<longleftrightarrow> (\<forall>q n. lg (snd (sv_exec sv q n)) = lg n @ [(q, \<not> isl (fst (sv_exec sv q n)))])"

definition set_local :: "string \<Rightarrow> string" where
  "set_local lt = ''set local lock_timeout = '' @ [CHR 0x27] @ lt @ [CHR 0x27]"

definition set_session :: "string \<Rightarrow> string" where
  "set_session lt = ''set lock_timeout = '' @ [CHR 0x27] @ lt @ [CHR 0x27]"

definition insert_statement :: string where
  "insert_statement = ''insert into dastar.schema_migration(version, name, checksum) values ($1, $2, $3)''"

text \<open>The catalog shows what a file outside a transaction is for: a valid index as it would create it, or none where it would drop one.\<close>

definition in_place :: "'s server \<Rightarrow> ConcurrentIndexStatement \<Rightarrow> 's \<Rightarrow> bool" where
  "in_place sv stmt n \<longleftrightarrow> (case stmt of
      Create_index schema name tab normalized \<Rightarrow> (\<exists>rel. sv_relation sv schema name n = Inr (Some rel) \<and> rel_kind rel = ''i'' \<and> same_index rel tab normalized = Inr True
        \<and> rel_valid rel \<and> rel_ready rel)
    | Drop_index schema name \<Rightarrow> sv_relation sv schema name n = Inr None)"

text \<open>
  The statements that apply a file: its block, committed; or, outside a transaction, its statement under the lock timeout and its
  row, or the row alone.
\<close>

definition sql_executed :: "'s server \<Rightarrow> string \<Rightarrow> MigrationFile \<Rightarrow> entry list \<Rightarrow> bool" where
  "sql_executed sv lt f seg \<longleftrightarrow> (\<exists>h. parseHeader (mf_file f) (mf_sql f) = Inr h
     \<and> (if hd_transaction h then seg = [(''begin'', True), (set_local lt, True), (mf_sql f, True), (insert_statement, True), (''commit'', True)]
        else (\<exists>stmt. parseConcurrentIndex (mf_file f) (mf_sql f) = Inr stmt
          \<and> ((\<exists>b. seg = [(set_session lt, True), (mf_sql f, True), (''reset lock_timeout'', b), (insert_statement, True)])
             \<or> seg = [(insert_statement, True)] \<and> (\<exists>n. in_place sv stmt n)))))"

text \<open>A log with such statements for each file, in order, whatever is between.\<close>

fun applied_log :: "'s server \<Rightarrow> string \<Rightarrow> MigrationFile list \<Rightarrow> entry list \<Rightarrow> bool" where
  "applied_log sv lt [] l \<longleftrightarrow> True"
| "applied_log sv lt (f # fs) l \<longleftrightarrow> (\<exists>p seg r. l = p @ seg @ r \<and> sql_executed sv lt f seg \<and> applied_log sv lt fs r)"

lemma applied_log_more: "applied_log sv lt fs l \<Longrightarrow> applied_log sv lt fs (l @ r)"
  by (induction fs arbitrary: l) (auto, metis append.assoc)

lemma mthen_Inr: "mthen m n s = (Inr u, t) \<longleftrightarrow> (\<exists>v. m s = (Inr (), v) \<and> n v = (Inr u, t))"
  by (auto simp: mthen_def split: prod.split sum.split)

lemma query_log:
  assumes "keeps_log sv lg"
  shows "lg (ms_rest (snd (query sv q s))) = lg (ms_rest s) @ [(q, \<not> isl (fst (query sv q s)))]"
proof (cases "sv_exec sv q (ms_rest s)")
  case (Pair a n)
  moreover from assms have "lg (snd (sv_exec sv q (ms_rest s))) = lg (ms_rest s) @ [(q, \<not> isl (fst (sv_exec sv q (ms_rest s))))]" by (simp add: keeps_log_def)
  ultimately show ?thesis by (auto simp: query_def split: sum.split)
qed

lemma query_ran: "keeps_log sv lg \<Longrightarrow> query sv q s = (Inr u, t) \<Longrightarrow> lg (ms_rest t) = lg (ms_rest s) @ [(q, True)]"
  using query_log [of sv lg q s] by simp

text \<open>A step that only adds to the log.\<close>

definition grows :: "('s \<Rightarrow> entry list) \<Rightarrow> 's effect \<Rightarrow> bool" where
  "grows lg m \<longleftrightarrow> (\<forall>s. \<exists>new. lg (ms_rest (snd (m s))) = lg (ms_rest s) @ new)"

lemma growsD: "grows lg m \<Longrightarrow> m s = (r, t) \<Longrightarrow> \<exists>new. lg (ms_rest t) = lg (ms_rest s) @ new"
  unfolding grows_def by (metis snd_conv)

lemma grows_query: "keeps_log sv lg \<Longrightarrow> grows lg (query sv q)"
  by (simp add: grows_def query_log)

lemma grows_then: "grows lg m \<Longrightarrow> grows lg n \<Longrightarrow> grows lg (mthen m n)"
proof -
  assume m: "grows lg m" and n: "grows lg n"
  have "\<exists>new. lg (ms_rest (snd (mthen m n s))) = lg (ms_rest s) @ new" for s
  proof (cases "m s")
    case (Pair r t)
    from growsD [OF m Pair] obtain a where a: "lg (ms_rest t) = lg (ms_rest s) @ a" by blast
    obtain r2 u where nt: "n t = (r2, u)" by fastforce
    from growsD [OF n nt] obtain b where "lg (ms_rest u) = lg (ms_rest t) @ b" by blast
    with a Pair nt show ?thesis by (cases r) (auto simp: mthen_def)
  qed
  then show ?thesis by (simp add: grows_def)
qed

lemma grows_row: "keeps_log sv lg \<Longrightarrow> grows lg (record_row sv f)"
  unfolding record_row_def by (intro grows_then grows_query) (auto simp: grows_def insert_row_def)

lemma grows_fail: "grows lg (mfail e)"
  by (simp add: grows_def mfail_def)

lemma grows_locked: "keeps_log sv lg \<Longrightarrow> grows lg (withLockTimeout sv lt sql)"
proof -
  assume k: "keeps_log sv lg"
  have "grows lg (\<lambda>s. case query sv sql s of (r, s') \<Rightarrow> (r, snd (query sv ''reset lock_timeout'' s')))"
    unfolding grows_def
  proof
    fix s
    obtain r t where q: "query sv sql s = (r, t)" by fastforce
    have "lg (ms_rest t) = lg (ms_rest s) @ [(sql, \<not> isl r)]" using query_log [OF k, of sql s] by (simp add: q)
    then show "\<exists>new. lg (ms_rest (snd (case query sv sql s of (r, s') \<Rightarrow> (r, snd (query sv ''reset lock_timeout'' s'))))) = lg (ms_rest s) @ new"
      by (simp add: q query_log [OF k])
  qed
  then show ?thesis unfolding withLockTimeout_def by (intro grows_then grows_query k)
qed

lemma row_ran: "keeps_log sv lg \<Longrightarrow> record_row sv f s = (Inr u, t) \<Longrightarrow> lg (ms_rest t) = lg (ms_rest s) @ [(insert_statement, True)]"
  by (auto simp: record_row_def mthen_Inr insert_row_def insert_statement_def dest!: query_ran split: if_splits)

lemma locked_ran:
  assumes k: "keeps_log sv lg" and w: "withLockTimeout sv lt sql s = (Inr u, t)"
  shows "\<exists>b. lg (ms_rest t) = lg (ms_rest s) @ [(set_session lt, True), (sql, True), (''reset lock_timeout'', b)]"
proof -
  obtain v where v: "query sv (set_session lt) s = (Inr (), v)" "(case query sv sql v of (r, s') \<Rightarrow> (r, snd (query sv ''reset lock_timeout'' s'))) = (Inr u, t)"
    using w unfolding withLockTimeout_def mthen_Inr set_session_def by blast
  obtain r x where "query sv sql v = (r, x)" by fastforce
  with v(2) have q: "query sv sql v = (Inr u, x)" "t = snd (query sv ''reset lock_timeout'' x)" by simp_all
  from query_ran [OF k v(1)] query_ran [OF k q(1)] query_log [OF k, of "''reset lock_timeout''" x] show ?thesis
    by (intro exI [of _ "\<not> isl (fst (query sv ''reset lock_timeout'' x))"]) (simp add: q(2))
qed

lemma block_ran:
  assumes k: "keeps_log sv lg" and b: "in_block sv lt f s = (Inr u, t)"
  shows "lg (ms_rest t) = lg (ms_rest s) @ [(''begin'', True), (set_local lt, True), (mf_sql f, True), (insert_statement, True), (''commit'', True)]"
proof -
  from b have "mthen (query sv ''begin'') (mthen (query sv (set_local lt)) (mthen (query sv (mf_sql f)) (mthen (record_row sv f) (query sv ''commit'')))) s = (Inr u, t)"
    by (simp add: in_block_def set_local_def split: prod.splits sum.splits)
  then obtain a b c d where q: "query sv ''begin'' s = (Inr (), a)" "query sv (set_local lt) a = (Inr (), b)" "query sv (mf_sql f) b = (Inr (), c)"
    "record_row sv f c = (Inr (), d)" "query sv ''commit'' d = (Inr u, t)" unfolding mthen_Inr by blast
  show ?thesis using query_ran [OF k q(1)] query_ran [OF k q(2)] query_ran [OF k q(3)] row_ran [OF k q(4)] query_ran [OF k q(5)] by simp
qed

lemma grows_block:
  assumes k: "keeps_log sv lg"
  shows "grows lg (in_block sv lt f)"
  unfolding grows_def
proof
  fix s
  let ?m = "mthen (query sv ''begin'') (mthen (query sv (''set local lock_timeout = '' @ [CHR 0x27] @ lt @ [CHR 0x27]))
       (mthen (query sv (mf_sql f)) (mthen (record_row sv f) (query sv ''commit''))))"
  have g: "grows lg ?m" by (intro grows_then grows_query grows_row k)
  obtain r t where m: "?m s = (r, t)" by fastforce
  from growsD [OF g m] obtain a where a: "lg (ms_rest t) = lg (ms_rest s) @ a" by blast
  show "\<exists>new. lg (ms_rest (snd (in_block sv lt f s))) = lg (ms_rest s) @ new"
    using a m query_log [OF k, of "''rollback''" t] by (cases r) (auto simp: in_block_def)
qed

text \<open>A file outside a transaction: the branches that can succeed.\<close>

lemma concurrent_ran:
  assumes k: "keeps_log sv lg" and c: "applyConcurrent sv lt f stmt s = (Inr u, t)"
  shows "\<exists>p seg. lg (ms_rest t) = lg (ms_rest s) @ p @ seg
    \<and> ((\<exists>b. seg = [(set_session lt, True), (mf_sql f, True), (''reset lock_timeout'', b), (insert_statement, True)])
      \<or> seg = [(insert_statement, True)] \<and> (\<exists>n. in_place sv stmt n))"
proof -
  have ran: ?thesis if w: "mthen (withLockTimeout sv lt (mf_sql f)) (record_row sv f) v = (Inr u, t)" and v: "lg (ms_rest v) = lg (ms_rest s) @ p" for v p
  proof -
    from w obtain x where x: "withLockTimeout sv lt (mf_sql f) v = (Inr (), x)" "record_row sv f x = (Inr u, t)" unfolding mthen_Inr by blast
    from locked_ran [OF k x(1)] obtain b where "lg (ms_rest x) = lg (ms_rest v) @ [(set_session lt, True), (mf_sql f, True), (''reset lock_timeout'', b)]" by blast
    with row_ran [OF k x(2)] v show ?thesis
      by (intro exI [of _ p] exI [of _ "[(set_session lt, True), (mf_sql f, True), (''reset lock_timeout'', b), (insert_statement, True)]"]) simp
  qed
  have row: ?thesis if "record_row sv f s = (Inr u, t)" "in_place sv stmt (ms_rest s)"
    using row_ran [OF k that(1)] that(2) by (intro exI [of _ "[]"] exI [of _ "[(insert_statement, True)]"]) auto
  have redo: ?thesis if "mthen (withLockTimeout sv lt old) (mthen (withLockTimeout sv lt (mf_sql f)) (record_row sv f)) s = (Inr u, t)" for old
  proof -
    from that obtain v where v: "withLockTimeout sv lt old s = (Inr (), v)" "mthen (withLockTimeout sv lt (mf_sql f)) (record_row sv f) v = (Inr u, t)"
      unfolding mthen_Inr [of "withLockTimeout sv lt old"] by blast
    from growsD [OF grows_locked [OF k] v(1)] ran [OF v(2)] show ?thesis by blast
  qed
  show ?thesis
  proof (cases "sv_relation sv (stmt_schema stmt) (stmt_name stmt) (ms_rest s)")
    case (Inl e)
    with c show ?thesis by (auto simp: applyConcurrent_def mfail_def split: prod.splits)
  next
    case (Inr found)
    show ?thesis
    proof (cases found)
      case None
      with Inr c ran [of s "[]"] row show ?thesis by (cases stmt) (auto simp: applyConcurrent_def in_place_def)
    next
      case (Some rel)
      show ?thesis
      proof (cases stmt)
        case (Create_index schema name tab normalized)
        with Inr Some c have i: "rel_kind rel = ''i''" "same_index rel tab normalized = Inr True"
          by (auto simp: applyConcurrent_def mfail_def split: if_splits sum.splits bool.splits)
        show ?thesis
        proof (cases "rel_valid rel \<and> rel_ready rel")
          case True
          with Create_index Inr Some c i have "record_row sv f s = (Inr u, t)" "in_place sv stmt (ms_rest s)"
            by (simp_all add: applyConcurrent_def in_place_def)
          then show ?thesis by (rule row)
        next
          case False
          with Create_index Inr Some c i have "mthen (withLockTimeout sv lt (drop_leftover schema name)) (mthen (withLockTimeout sv lt (mf_sql f)) (record_row sv f)) s = (Inr u, t)"
            by (simp add: applyConcurrent_def)
          then show ?thesis by (rule redo)
        qed
      next
        case (Drop_index schema name)
        with Inr Some c ran [of s "[]"] show ?thesis by (auto simp: applyConcurrent_def mfail_def split: if_splits)
      qed
    qed
  qed
qed

lemma grows_if: "grows lg m \<Longrightarrow> grows lg n \<Longrightarrow> grows lg (\<lambda>s. if b s then m s else n s)"
  by (simp add: grows_def)

lemma grows_concurrent:
  assumes k: "keeps_log sv lg"
  shows "grows lg (applyConcurrent sv lt f stmt)"
  unfolding grows_def
proof
  fix s
  note g = growsD [OF grows_fail [of lg], unfolded mfail_def, OF refl] grows_row [OF k, of f, unfolded grows_def, rule_format, of s]
    grows_then [OF grows_locked [OF k] grows_row [OF k], of lt "mf_sql f" f, unfolded grows_def, rule_format, of s]
    grows_then [OF grows_locked [OF k] grows_then [OF grows_locked [OF k] grows_row [OF k]], of lt _ lt "mf_sql f" f, unfolded grows_def, rule_format, of _ s]
  show "\<exists>new. lg (ms_rest (snd (applyConcurrent sv lt f stmt s))) = lg (ms_rest s) @ new"
    using g by (auto simp: applyConcurrent_def mfail_def split: sum.split prod.split option.split ConcurrentIndexStatement.split bool.split)
qed

text \<open>The attempts before the one that succeeded only add to the log.\<close>

lemma attempts_ran:
  "attempts m k n s = (Inr u, t) \<Longrightarrow> grows lg m \<Longrightarrow> \<exists>v p. m v = (Inr u, t) \<and> lg (ms_rest v) = lg (ms_rest s) @ p"
proof (induction m k n s rule: attempts.induct)
  case (1 m k n s)
  obtain r s' where m: "m s = (r, s')" by fastforce
  show ?case
  proof (cases r)
    case (Inl e)
    with "1.prems"(1) m have again: "lock_timeout e \<and> n < k" "attempts m k (n + 1) s' = (Inr u, t)"
      by (auto simp: attempts.simps [of m k n s] split: if_splits)
    from "1.IH" [OF m [symmetric] Inl again(1) again(2) "1.prems"(2)] growsD [OF "1.prems"(2) m] show ?thesis by force
  next
    case (Inr x)
    with "1.prems"(1) m have "m s = (Inr u, t)" by (simp add: attempts.simps [of m k n s])
    then show ?thesis by (intro exI [of _ s] exI [of _ "[]"]) simp
  qed
qed

lemma grows_attempts: "grows lg m \<Longrightarrow> grows lg (attempts m k n)"
proof -
  assume g: "grows lg m"
  have "\<exists>new. lg (ms_rest (snd (attempts m k n s))) = lg (ms_rest s) @ new" for s
    using g
  proof (induction m k n s rule: attempts.induct)
    case (1 m k n s)
    obtain r s' where m: "m s = (r, s')" by fastforce
    from growsD [OF "1.prems" m] obtain a where a: "lg (ms_rest s') = lg (ms_rest s) @ a" by blast
    show ?case
    proof (cases "\<exists>e. r = Inl e \<and> lock_timeout e \<and> n < k")
      case True
      then obtain e where e: "r = Inl e" "lock_timeout e \<and> n < k" by blast
      from "1.IH" [OF m [symmetric] e "1.prems"] a show ?thesis by (auto simp: attempts.simps [of m k n s] m e)
    next
      case False
      with a m show ?thesis by (cases r) (auto simp: attempts.simps [of m k n s])
    qed
  qed
  then show ?thesis by (simp add: grows_def)
qed

lemma file_ran:
  assumes k: "keeps_log sv lg" and a: "apply_file sv opts f s = (Inr u, t)"
  shows "\<exists>p seg. lg (ms_rest t) = lg (ms_rest s) @ p @ seg \<and> sql_executed sv (mo_lockTimeout opts) f seg"
proof -
  let ?lt = "mo_lockTimeout opts"
  from a obtain h where h: "parseHeader (mf_file f) (mf_sql f) = Inr h" and r: "applyWithRetry sv ?lt (mo_maxAttempts opts) f h s = (Inr u, t)"
    by (auto simp: apply_file_def mfail_def split: sum.splits if_splits)
  show ?thesis
  proof (cases "hd_transaction h")
    case True
    with r have "attempts (in_block sv ?lt f) (mo_maxAttempts opts) 1 s = (Inr u, t)" by (simp add: applyWithRetry_def)
    from attempts_ran [OF this grows_block [OF k]] obtain v p where v: "in_block sv ?lt f v = (Inr u, t)" "lg (ms_rest v) = lg (ms_rest s) @ p" by blast
    with block_ran [OF k v(1)] h True show ?thesis unfolding sql_executed_def by (intro exI [of _ p] exI [of _ "[(''begin'', True), (set_local ?lt, True), (mf_sql f, True), (insert_statement, True), (''commit'', True)]"]) simp
  next
    case False
    with r obtain stmt where st: "parseConcurrentIndex (mf_file f) (mf_sql f) = Inr stmt"
      and at: "attempts (applyConcurrent sv ?lt f stmt) (mo_maxAttempts opts) 1 s = (Inr u, t)"
      by (auto simp: applyWithRetry_def mfail_def split: sum.splits)
    from attempts_ran [OF at grows_concurrent [OF k]] obtain v p where v: "applyConcurrent sv ?lt f stmt v = (Inr u, t)" "lg (ms_rest v) = lg (ms_rest s) @ p" by blast
    from concurrent_ran [OF k v(1)] obtain q seg where "lg (ms_rest t) = lg (ms_rest v) @ q @ seg"
      "(\<exists>b. seg = [(set_session ?lt, True), (mf_sql f, True), (''reset lock_timeout'', b), (insert_statement, True)]) \<or> seg = [(insert_statement, True)] \<and> (\<exists>n. in_place sv stmt n)" by blast
    with v(2) st h False show ?thesis unfolding sql_executed_def by (intro exI [of _ "p @ q"] exI [of _ seg]) auto
  qed
qed

lemma file_grows:
  assumes k: "keeps_log sv lg"
  shows "grows lg (apply_file sv opts f)"
proof -
  have "\<exists>new. lg (ms_rest (snd (apply_file sv opts f s))) = lg (ms_rest s) @ new" for s
    using grows_attempts [OF grows_block [OF k], unfolded grows_def, rule_format] grows_attempts [OF grows_concurrent [OF k], unfolded grows_def, rule_format]
    by (auto simp: apply_file_def applyWithRetry_def mfail_def split: sum.split)
  then show ?thesis by (simp add: grows_def)
qed

section \<open>What a run has done\<close>

text \<open>
  The files of a run are done: those recorded before are unchanged, the others have their rows, in order, and whatever log the
  server keeps shows the statements that apply each of them, in the same order.
\<close>

definition files_done :: "'s server \<Rightarrow> string \<Rightarrow> (nat \<times> string) list \<Rightarrow> MigrationFile list \<Rightarrow> 's mstate \<Rightarrow> 's mstate \<Rightarrow> bool" where
  "files_done sv lt before fs s t \<longleftrightarrow> list_all (unchanged before) fs \<and> ms_rows t = ms_rows s @ map migration_row_of (pending before fs)
     \<and> (\<forall>lg. keeps_log sv lg \<longrightarrow> (\<exists>new. lg (ms_rest t) = lg (ms_rest s) @ new \<and> applied_log sv lt (pending before fs) new))"

text \<open>The file a run stopped at: it is recorded with another checksum, or it failed, on the rows of the files before it.\<close>

definition stopped_at :: "'s server \<Rightarrow> MigrateOptions \<Rightarrow> (nat \<times> string) list \<Rightarrow> MigrationFile \<Rightarrow> migrate_error \<Rightarrow> migration_row list \<Rightarrow> bool" where
  "stopped_at sv opts before f e rows \<longleftrightarrow> (case map_of before (mf_version f) of
      Some c \<Rightarrow> c \<noteq> mf_checksum f \<and> e = Refused (''checksum mismatch for applied migration '' @ mf_file f)
    | None \<Rightarrow> \<exists>u v. ms_rows u = rows \<and> apply_file sv opts f u = (Inl e, v))"

lemma files_done_Nil: "files_done sv lt before [] s s"
  by (auto simp: files_done_def pending_def)

lemma files_done_skip:
  "map_of before (mf_version f) = Some (mf_checksum f) \<Longrightarrow> files_done sv lt before fs s t \<Longrightarrow> files_done sv lt before (f # fs) s t"
  by (simp add: files_done_def pending_def unchanged_def)

lemma files_done_Cons:
  assumes n: "map_of before (mf_version f) = None" and a: "apply_file sv opts f s = (Inr u, s1)" and d: "files_done sv (mo_lockTimeout opts) before fs s1 t"
  shows "files_done sv (mo_lockTimeout opts) before (f # fs) s t"
proof -
  have rows: "ms_rows s1 = ms_rows s @ [migration_row_of f]" using outcome_file [of f s sv opts] a by simp
  have "\<exists>new. lg (ms_rest t) = lg (ms_rest s) @ new \<and> applied_log sv (mo_lockTimeout opts) (f # pending before fs) new" if k: "keeps_log sv lg" for lg
  proof -
    from file_ran [OF k a] obtain p seg where p: "lg (ms_rest s1) = lg (ms_rest s) @ p @ seg" "sql_executed sv (mo_lockTimeout opts) f seg" by blast
    from d k obtain new where "lg (ms_rest t) = lg (ms_rest s1) @ new" "applied_log sv (mo_lockTimeout opts) (pending before fs) new" by (auto simp: files_done_def)
    with p show ?thesis by (intro exI [of _ "p @ seg @ new"]) auto
  qed
  with d n rows show ?thesis by (simp add: files_done_def pending_def unchanged_def)
qed

lemma files_done_later:
  assumes "files_done sv lt before fs s t" and "ms_rows v = ms_rows t" and "\<And>lg. keeps_log sv lg \<Longrightarrow> \<exists>a. lg (ms_rest v) = lg (ms_rest t) @ a"
  shows "files_done sv lt before fs s v"
proof -
  have "\<exists>new. lg (ms_rest v) = lg (ms_rest s) @ new \<and> applied_log sv lt (pending before fs) new" if k: "keeps_log sv lg" for lg
  proof -
    from assms(1) k obtain new where "lg (ms_rest t) = lg (ms_rest s) @ new" "applied_log sv lt (pending before fs) new" by (auto simp: files_done_def)
    with assms(3) [OF k] applied_log_more show ?thesis by fastforce
  qed
  with assms(1,2) show ?thesis by (simp add: files_done_def)
qed

lemma migrate_files_done:
  "migrate_files sv opts before fs s = (r, t) \<Longrightarrow>
   (case r of
      Inl e \<Rightarrow> \<exists>pre f post. fs = pre @ f # post \<and> files_done sv (mo_lockTimeout opts) before pre s t \<and> stopped_at sv opts before f e (ms_rows t)
    | Inr applied \<Rightarrow> applied = map mf_file (pending before fs) \<and> files_done sv (mo_lockTimeout opts) before fs s t)"
proof (induction fs arbitrary: s r t)
  case Nil
  then show ?case by (auto simp: files_done_Nil pending_def)
next
  case (Cons f fs)
  show ?case
  proof (cases "map_of before (mf_version f)")
    case None
    obtain q s1 where a: "apply_file sv opts f s = (q, s1)" by fastforce
    show ?thesis
    proof (cases q)
      case (Inl e)
      have "ms_rows s1 = ms_rows s" using outcome_file [of f s sv opts] a Inl by simp
      then have "files_done sv (mo_lockTimeout opts) before [] s s1"
        using files_done_later [OF files_done_Nil] growsD [OF file_grows a] by blast
      moreover have "stopped_at sv opts before f e (ms_rows s1)" using None a Inl \<open>ms_rows s1 = ms_rows s\<close> by (auto simp: stopped_at_def)
      moreover have "r = Inl e" "t = s1" using Cons.prems None a Inl by simp_all
      ultimately show ?thesis by (auto intro!: exI [of _ "[]"])
    next
      case (Inr u)
      obtain r2 s2 where m: "migrate_files sv opts before fs s1 = (r2, s2)" by fastforce
      note I = Cons.IH [OF m] and a = a [unfolded Inr]
      show ?thesis
      proof (cases r2)
        case Inl2: (Inl e)
        with I obtain pre g post where p: "fs = pre @ g # post" "files_done sv (mo_lockTimeout opts) before pre s1 s2" "stopped_at sv opts before g e (ms_rows s2)" by auto
        have "r = Inl e" "t = s2" using Cons.prems None a m Inl2 by simp_all
        with p files_done_Cons [OF None a p(2)] show ?thesis by (auto intro!: exI [of _ "f # pre"])
      next
        case Inr2: (Inr applied)
        with I have p: "applied = map mf_file (pending before fs)" "files_done sv (mo_lockTimeout opts) before fs s1 s2" by auto
        have "r = Inr (mf_file f # applied)" "t = s2" using Cons.prems None a m Inr2 by simp_all
        with p files_done_Cons [OF None a p(2)] None show ?thesis by (simp add: pending_def)
      qed
    qed
  next
    case (Some prev)
    show ?thesis
    proof (cases "prev = mf_checksum f")
      case True
      with Some have k: "map_of before (mf_version f) = Some (mf_checksum f)" by simp
      with Cons.prems have "migrate_files sv opts before fs s = (r, t)" by simp
      note I = Cons.IH [OF this]
      show ?thesis
      proof (cases r)
        case (Inl e)
        with I obtain pre g post where "fs = pre @ g # post" "files_done sv (mo_lockTimeout opts) before pre s t" "stopped_at sv opts before g e (ms_rows t)" by auto
        with files_done_skip [OF k] Inl show ?thesis by (auto intro!: exI [of _ "f # pre"])
      qed (use I files_done_skip [OF k] k in \<open>auto simp: pending_def\<close>)
    next
      case False
      with Some Cons.prems have "r = Inl (Refused (''checksum mismatch for applied migration '' @ mf_file f))" "t = s" by auto
      moreover have "stopped_at sv opts before f (Refused (''checksum mismatch for applied migration '' @ mf_file f)) (ms_rows s)"
        using False Some by (simp add: stopped_at_def)
      ultimately show ?thesis using files_done_Nil by (auto intro!: exI [of _ "[]"])
    qed
  qed
qed

text \<open>The key of the table keeps the versions apart.\<close>

lemma migrate_files_distinct:
  "migrate_files sv opts before fs s = (r, t) \<Longrightarrow> distinct (map fst (ms_rows s)) \<Longrightarrow> distinct (map fst (ms_rows t))"
proof (induction fs arbitrary: s r t)
  case (Cons f fs)
  obtain q s1 where a: "apply_file sv opts f s = (q, s1)" by fastforce
  have "distinct (map fst (ms_rows s1))"
    using outcome_file [of f s sv opts] a Cons.prems(2) by (cases q) (auto simp: migration_row_of_def)
  with Cons a show ?case by (auto split: option.splits sum.splits prod.splits if_splits)
qed simp

lemma migrate_files_nothing:
  "(\<And>f. f \<in> set fs \<Longrightarrow> map_of before (mf_version f) = Some (mf_checksum f)) \<Longrightarrow> migrate_files sv opts before fs s = (Inr [], s)"
  by (induction fs) auto

lemma applied_rows_append: "ms_rows s' = ms_rows s @ map migration_row_of fs \<Longrightarrow> applied_rows s' = applied_rows s @ map (\<lambda>f. (mf_version f, mf_checksum f)) fs"
  by (simp add: applied_rows_def migration_row_of_def comp_def)

lemma close_rows: "ms_rows (snd (close_run sv x)) = ms_rows (snd x)"
  by (simp add: close_run_def query_rows)

text \<open>A run once its options are accepted.\<close>

lemma migrate_cases:
  assumes "migrate sv opts files s = (r, s')" and "LOCK_TIMEOUT_RE (mo_lockTimeout opts)"
  obtains (refused) e s1 where "open_run sv s = (Inl e, s1)" "r = Inl e" "ms_rows s' = ms_rows s"
  | (opened) s1 s2 where "open_run sv s = (Inr (), s1)" "migrate_files sv opts (applied_rows s) files s1 = (r, s2)" "ms_rows s1 = ms_rows s"
      "s' = snd (close_run sv (r, s2))"
proof (cases "open_run sv s")
  case (Pair q s1)
  with quiet_open [of sv] have rows: "ms_rows s1 = ms_rows s" unfolding quiet_def by (metis snd_conv)
  show thesis
  proof (cases q)
    case (Inl e)
    with assms Pair close_rows [of sv "(Inl e :: migrate_error + string list, s1)"] rows show thesis
      by (intro refused) (auto simp: migrate_def close_run_def)
  next
    case (Inr u)
    obtain q2 s2 where m: "migrate_files sv opts (applied_rows s) files s1 = (q2, s2)" by fastforce
    have "applied_rows s1 = applied_rows s" using rows by (simp add: applied_rows_def)
    with assms Pair Inr m have c: "close_run sv (q2, s2) = (r, s')" by (simp add: migrate_def)
    then have "q2 = r" "s' = snd (close_run sv (q2, s2))" by (auto simp: close_run_def)
    with m rows Pair Inr show thesis by (intro opened [of s1 s2]) simp_all
  qed
qed

lemma close_grows: "keeps_log sv lg \<Longrightarrow> \<exists>a. lg (ms_rest (snd (close_run sv x))) = lg (ms_rest (snd x)) @ a"
  by (simp add: close_run_def query_log)

lemma open_grows: "keeps_log sv lg \<Longrightarrow> grows lg (open_run sv)"
  unfolding open_run_def by (intro grows_then grows_query)

text \<open>
  C33: a run that returns has applied exactly the files whose version was not recorded, in order: each has its row with its
  checksum, and any log the server keeps shows its statements, its SQL committed in one block with the row, or its index made or
  found in place. Every file is then recorded as it is, so the next run, with whatever options, applies nothing and returns so,
  unless its opening statements fail. A run that fails did so at its opening, or at a file before which all are done in the same
  way, and which is recorded with another checksum or whose application failed and left no row.
\<close>

theorem migrate_applies_once:
  assumes "migrate sv opts files s = (r, s')" and "LOCK_TIMEOUT_RE (mo_lockTimeout opts)" and "distinct (map fst (ms_rows s))"
  shows "case r of
      Inl e \<Rightarrow> fst (open_run sv s) = Inl e \<and> ms_rows s' = ms_rows s
        \<or> (\<exists>pre f post. files = pre @ f # post \<and> files_done sv (mo_lockTimeout opts) (applied_rows s) pre s s' \<and> stopped_at sv opts (applied_rows s) f e (ms_rows s'))
    | Inr applied \<Rightarrow> applied = map mf_file (pending (applied_rows s) files) \<and> files_done sv (mo_lockTimeout opts) (applied_rows s) files s s'
        \<and> (\<forall>f\<in>set files. map_of (applied_rows s') (mf_version f) = Some (mf_checksum f))
        \<and> (\<forall>opts'. LOCK_TIMEOUT_RE (mo_lockTimeout opts') \<longrightarrow> ms_rows (snd (migrate sv opts' files s')) = ms_rows s'
             \<and> fst (migrate sv opts' files s') = (case open_run sv s' of (Inl e, _) \<Rightarrow> Inl e | (Inr _, _) \<Rightarrow> Inr []))"
proof (rule migrate_cases [OF assms(1,2)])
  fix e s1
  assume "open_run sv s = (Inl e, s1)" "r = Inl e" "ms_rows s' = ms_rows s"
  then show ?thesis by simp
next
  fix s1 s2
  assume o': "open_run sv s = (Inr (), s1)" and m: "migrate_files sv opts (applied_rows s) files s1 = (r, s2)"
    and e: "ms_rows s1 = ms_rows s" "s' = snd (close_run sv (r, s2))"
  have rows: "ms_rows s' = ms_rows s2" by (simp add: e(2) close_rows)
  have whole: "files_done sv (mo_lockTimeout opts) (applied_rows s) fs s s'" if d: "files_done sv (mo_lockTimeout opts) (applied_rows s) fs s1 s2" for fs
  proof -
    have "files_done sv (mo_lockTimeout opts) (applied_rows s) fs s1 s'"
      by (rule files_done_later [OF d rows]) (use close_grows [of sv _ "(r, s2)"] e(2) in simp)
    moreover have "\<exists>new. lg (ms_rest s') = lg (ms_rest s) @ new \<and> applied_log sv lt fs' new"
      if k: "keeps_log sv lg" and "lg (ms_rest s') = lg (ms_rest s1) @ new1" "applied_log sv lt fs' new1" for lg lt fs' new1
    proof -
      from growsD [OF open_grows [OF k] o'] obtain a where "lg (ms_rest s1) = lg (ms_rest s) @ a" by blast
      moreover have "applied_log sv lt fs' (a @ new1)" using that(3) by (cases fs') (auto, metis append.assoc)
      ultimately show ?thesis using that(2) by auto
    qed
    ultimately show ?thesis unfolding files_done_def e(1) by blast
  qed
  note D = migrate_files_done [OF m]
  show ?thesis
  proof (cases r)
    case (Inl x)
    with D obtain pre f post where "files = pre @ f # post" "files_done sv (mo_lockTimeout opts) (applied_rows s) pre s1 s2" "stopped_at sv opts (applied_rows s) f x (ms_rows s2)" by auto
    with whole Inl rows show ?thesis by auto
  next
    case (Inr applied)
    with D have a: "applied = map mf_file (pending (applied_rows s) files)" and d: "files_done sv (mo_lockTimeout opts) (applied_rows s) files s s'" using whole by auto
    then have new: "ms_rows s' = ms_rows s @ map migration_row_of (pending (applied_rows s) files)" and u: "list_all (unchanged (applied_rows s)) files" by (simp_all add: files_done_def)
    have "distinct (map fst (ms_rows s'))" using migrate_files_distinct [OF m] assms(3) rows e(1) by simp
    then have dist: "distinct (map fst (applied_rows s'))" by (simp add: applied_rows_def comp_def split_def)
    have at: "map_of (applied_rows s') (mf_version f) = Some (mf_checksum f)" if f: "f \<in> set files" for f
    proof -
      have "(mf_version f, mf_checksum f) \<in> set (applied_rows s')"
      proof (cases "map_of (applied_rows s) (mf_version f)")
        case None
        with f have "f \<in> set (pending (applied_rows s) files)" by (simp add: pending_def)
        then show ?thesis by (simp add: applied_rows_append [OF new])
      next
        case (Some c)
        with u f have "c = mf_checksum f" by (auto simp: list_all_iff unchanged_def)
        with Some show ?thesis by (simp add: applied_rows_append [OF new] map_of_SomeD)
      qed
      with dist show ?thesis by simp
    qed
    have again: "ms_rows s'' = ms_rows s' \<and> r'' = (case open_run sv s' of (Inl e, _) \<Rightarrow> Inl e | (Inr _, _) \<Rightarrow> Inr [])"
      if run: "migrate sv opts' files s' = (r'', s'')" and "LOCK_TIMEOUT_RE (mo_lockTimeout opts')" for opts' r'' s''
      by (rule migrate_cases [OF that]) (auto simp: migrate_files_nothing [OF at] close_rows)
    then show ?thesis using at a d Inr by (auto simp: prod_eq_iff)
  qed
qed

definition demo_file :: MigrationFile where
  "demo_file = \<lparr>mf_version = 1, mf_file = ''0001_a.sql'', mf_sql = ''-- transaction: yes'' @ [CHR 0x0A] @ ''-- impact: instant-exclusive'' @ [CHR 0x0A] @ ''select 1'', mf_checksum = ''c''\<rparr>"

theorem migrate_applies_once_witness:
  "\<exists>s' p r. migrate \<lparr>sv_exec = (\<lambda>q l. (Inr (), l @ [(q, True)])), sv_relation = (\<lambda>_ _ _. Inr None)\<rparr> default_migrate_options [demo_file] \<lparr>ms_rows = [], ms_rest = []\<rparr>
      = (Inr [''0001_a.sql''], s') \<and> map_of (applied_rows s') 1 = Some ''c''
    \<and> ms_rest s' = p @ [(''begin'', True), (set_local ''3s'', True), (mf_sql demo_file, True), (insert_statement, True), (''commit'', True)] @ r"
proof -
  let ?sv = "\<lparr>sv_exec = (\<lambda>q l. (Inr (), l @ [(q, True)])), sv_relation = (\<lambda>_ _ _. Inr None)\<rparr> :: entry list server"
  let ?s = "\<lparr>ms_rows = [], ms_rest = []\<rparr> :: entry list mstate"
  have h: "parseHeader (mf_file demo_file) (mf_sql demo_file) = Inr \<lparr>hd_transaction = True, hd_impact = Instant_exclusive\<rparr>" by code_simp
  have l: "LOCK_TIMEOUT_RE (mo_lockTimeout default_migrate_options)" "mo_lockTimeout default_migrate_options = ''3s''" by (code_simp, simp add: default_migrate_options_def)
  have "fst (migrate ?sv default_migrate_options [demo_file] ?s) = Inr [mf_file demo_file]"
    using h l by (simp add: migrate_def applied_rows_def apply_file_def blocking_def applyWithRetry_def attempts.simps in_block_def mthen_def query_def record_row_def insert_row_def open_run_def close_run_def)
  then obtain s' where m: "migrate ?sv default_migrate_options [demo_file] ?s = (Inr [mf_file demo_file], s')" by (metis prod.collapse)
  have k: "keeps_log ?sv (\<lambda>l. l)" by (simp add: keeps_log_def)
  have p: "pending (applied_rows ?s) [demo_file] = [demo_file]" by (simp add: pending_def applied_rows_def)
  note R = migrate_applies_once [OF m l(1), simplified p, simplified]
  then have "files_done ?sv ''3s'' (applied_rows ?s) [demo_file] ?s s'" and a: "map_of (applied_rows s') (mf_version demo_file) = Some (mf_checksum demo_file)"
    using l(2) by simp_all
  then have "\<exists>new. ms_rest s' = ms_rest ?s @ new \<and> applied_log ?sv ''3s'' [demo_file] new" using k unfolding files_done_def p by blast
  then obtain q seg r where "ms_rest s' = q @ seg @ r" "sql_executed ?sv ''3s'' demo_file seg" by auto
  then have "ms_rest s' = q @ [(''begin'', True), (set_local ''3s'', True), (mf_sql demo_file, True), (insert_statement, True), (''commit'', True)] @ r"
    by (simp add: sql_executed_def h)
  with m a show ?thesis by (auto simp: demo_file_def)
qed

end
