(* ===== verification/HoldDecides.thy ===== *)
theory HoldDecides
  imports CmdWorker LifecycleProperties
begin

text \<open>
  What a hold decides: every way a hold under a fresh key can end, as one list of reasons read off the state it meets, and
  that the command answers by it.
\<close>

section \<open>What clearing the slot does\<close>

definition free_rows :: "string set \<Rightarrow> ReservationUnitRow list \<Rightarrow> ReservationUnitRow list" where
  "free_rows ids = map (\<lambda>ru. if ru_active ru \<and> ru_reservation ru \<in> ids then ru\<lparr>ru_active := False\<rparr> else ru)"

definition expires :: "ReservationRow list \<Rightarrow> db \<Rightarrow> db \<Rightarrow> bool" where
  "expires rows d d' \<longleftrightarrow> reservations d' = replace_rows expired_row rows (reservations d) \<and> unit_rows d' = free_rows (r_id ` set rows) (unit_rows d)
     \<and> set (deferred d') \<subseteq> set (deferred d) \<union> r_id ` set rows \<and> idempotency d' = idempotency d \<and> venues d' = venues d
     \<and> units d' = units d \<and> combos d' = combos d \<and> blackouts d' = blackouts d \<and> schedules d' = schedules d"

lemma expired_row_id [simp]: "r_id (expired_row r) = r_id r"
  by (simp add: expired_row_def)

lemma expires_nil [simp]: "expires [] d d"
  by (auto simp: expires_def replace_rows_def free_rows_def intro: map_idI [symmetric])

lemma expires_cons:
  assumes "expires [r] d d1" and "expires rows d1 d2" and "r_id r \<notin> r_id ` set rows"
  shows "expires (r # rows) d d2"
proof -
  have "reservations d2 = replace_rows expired_row (r # rows) (reservations d)"
    using assms by (auto simp: expires_def replace_rows_def)
  moreover have "unit_rows d2 = free_rows (r_id ` set (r # rows)) (unit_rows d)"
    using assms(1,2) by (auto simp: expires_def free_rows_def)
  ultimately show ?thesis using assms(1,2) by (auto simp: expires_def)
qed

lemma expire_one_eq:
  assumes I: "inv T {} d" and now: "cx_now cx \<le> T" and r: "r \<in> set (reservations d)" "visible cx (r_venue r)" "dead (cx_now cx) r" and a: "cx_actor cx \<noteq> []"
  shows "\<exists>d'. expire_one cx (r_id r) d = Inr ((), d') \<and> inv T {} d' \<and> expires [r] d d'"
proof -
  have f: "find_reservation cx d (r_id r) = Some r" using find_reservation_by_id [of d r cx] I r by (simp add: inv_def)
  have dr: "due (cx_now cx) r" using r(3) by (simp add: dead_def due_def)
  have j: "judge_update cx d r (apply_patch (patch_status Expired) r) = Inr (expired_row r)"
    using judge_expire [OF _ r(1) dr a] I by (simp add: inv_def)
  obtain nid d' where e: "enqueue (r_venue (expired_row r)) ''reservation.expired'' (reservationPayload (expired_row r)) (write_reservation cx r (expired_row r) d) = Inr (nid, d')"
    "d' = write_reservation cx r (expired_row r) d\<lparr>outbox := outbox d', outbox_seq := outbox_seq d'\<rparr>"
    by (auto simp: enqueue_def)
  have ex: "expire_one cx (r_id r) d = Inr ((), d')"
    using r(3) e(1) by (simp add: expire_one_def update_reservation_def f j tx_eqs tbind_def tthen_def)
  moreover have "inv T {} d'" using preservesD [OF preserves_expire_one [OF now, of "{}" "r_id r"] I ex] .
  moreover have "expires [r] d d'"
  proof -
    have u: "x = r" if "x \<in> set (reservations d)" "r_id x = r_id r" for x
      using I distinct_key_eq [of r_id "reservations d" x r] that r(1) by (simp add: inv_def ids_ok_def)
    have "released (r_status (expired_row r)) \<and> \<not> released (r_status r)" using r(3) by (simp add: expired_row_def released_def dead_def)
    then have "unit_rows (write_reservation cx r (expired_row r) d) = free_rows {r_id r} (unit_rows d)"
      by (simp add: write_reservation_sel free_rows_def conj_commute)
    then show ?thesis using u deferred_write [of cx r "expired_row r" d]
      by (subst e(2)) (auto simp: expires_def write_reservation_sel replace_rows_def)
  qed
  ultimately show ?thesis by blast
qed

lemma expire_all_eq:
  assumes "inv T {} d" and now: "cx_now cx \<le> T" and a: "cx_actor cx \<noteq> []" and "distinct (map r_id rows)"
    and "\<And>r. r \<in> set rows \<Longrightarrow> r \<in> set (reservations d) \<and> visible cx (r_venue r) \<and> dead (cx_now cx) r"
  shows "\<exists>d' xs. tfor (expire_one cx) (map r_id rows) d = Inr (xs, d') \<and> inv T {} d' \<and> expires rows d d'"
  using assms(1,4,5)
proof (induction rows arbitrary: d)
  case (Cons r rows)
  from expire_one_eq [OF Cons.prems(1) now _ _ _ a, of r] Cons.prems(3) [of r] obtain d1 where
    d1: "expire_one cx (r_id r) d = Inr ((), d1)" "inv T {} d1" "expires [r] d d1" by auto
  have nr: "r_id r \<notin> r_id ` set rows" "distinct (map r_id rows)" using Cons.prems(2) by auto
  have "s \<in> set (reservations d1) \<and> visible cx (r_venue s) \<and> dead (cx_now cx) s" if "s \<in> set rows" for s
  proof -
    have "s \<in> set (reservations d)" using Cons.prems(3) [of s] that by simp
    moreover have "r_id s \<noteq> r_id r" using nr(1) that by (metis image_eqI)
    ultimately have "s \<in> set (reservations d1)" using d1(3) by (force simp: expires_def replace_rows_def)
    with Cons.prems(3) [of s] that show ?thesis by simp
  qed
  from Cons.IH [OF d1(2) nr(2) this] obtain d' xs where
    d': "tfor (expire_one cx) (map r_id rows) d1 = Inr (xs, d')" "inv T {} d'" "expires rows d1 d'" by blast
  from expires_cons [OF d1(3) d'(3) nr(1)] d' d1(1) show ?case by (auto simp: tbind_def tx_eqs)
qed (auto simp: tx_eqs)

text \<open>The holds a booking of these units and this range may clear.\<close>

definition dead_rows :: "session \<Rightarrow> db \<Rightarrow> string list \<Rightarrow> range \<Rightarrow> ReservationRow list" where
  "dead_rows cx d us during = filter (dead (cx_now cx))
     (sort_key r_id (filter (\<lambda>r. r_id r \<in> set (OVERLAP_SQL cx d us during) \<and> visible cx (r_venue r)) (reservations d)))"

lemma dead_ids_rows: "dead_ids cx d (OVERLAP_SQL cx d us during) = map r_id (dead_rows cx d us during)"
  by (simp add: dead_ids_def dead_rows_def)

lemma clear_overlap_eq:
  assumes I: "inv T {} d" and now: "cx_now cx \<le> T"
  shows "if length (OVERLAP_SQL cx d us during) \<le> BOUNDS_overlapSet
    then \<exists>d'. clear_overlap cx us during d = Inr ((), d') \<and> inv T {} d' \<and> expires (dead_rows cx d us during) d d'
    else \<exists>m. clear_overlap cx us during d = Inl (ExDastar (dastar_error_retryable Overlap_set_too_large m))"
proof -
  have "distinct (map r_id (dead_rows cx d us during))"
    unfolding dead_rows_def using I distinct_sorted_filter by (auto simp: inv_def ids_ok_def distinct_map inj_on_def)
  from expire_all_eq [OF I, of "setActor cx ''system:conflict''", OF _ _ this] now
  obtain d' xs where d': "tfor (expire_one (setActor cx ''system:conflict'')) (dead_ids cx d (OVERLAP_SQL cx d us during)) d = Inr (xs, d')"
    "inv T {} d'" "expires (dead_rows cx d us during) d d'"
    by (auto simp: dead_ids_rows dead_rows_def setActor_def visible_def)
  then show ?thesis by (auto simp: clear_overlap_def tbind_def tthen_def tget_def tguard_def tthrow_def tret_def)
qed

section \<open>What booking decides\<close>

definition conflict_exn :: exn where
  "conflict_exn = ExPg \<lparr>pe_code = ''23P01'', pe_message = Some ''conflicting key value violates exclusion constraint \"reservation_unit_no_overlap\"'',
     pe_detail = None, pe_constraint = Some ''reservation_unit_no_overlap''\<rparr>"

lemma unit_row_sel [simp]:
  "ru_reservation (unit_row r u) = r_id r" "ru_unit (unit_row r u) = u" "ru_active (unit_row r u)" "ru_during (unit_row r u) = r_during r"
  "ru_venue (unit_row r u) = r_venue r"
  by (simp_all add: unit_row_def)

lemma insert_rows_eq:
  assumes "find (\<lambda>x. r_id x = r_id r) (reservations d) = Some r" and "r_status r = Held" and "distinct us"
    and "\<And>u. u \<in> set us \<Longrightarrow> find_unit d u (r_venue r) \<noteq> None"
    and "\<And>u x. u \<in> set us \<Longrightarrow> x \<in> set (unit_rows d) \<Longrightarrow> ru_reservation x = r_id r \<Longrightarrow> ru_unit x \<noteq> u"
  shows "if \<exists>u\<in>set us. \<exists>x\<in>set (unit_rows d). unit_rows_conflict x (unit_row r u)
    then tfor (\<lambda>u. insert_unit_row (unit_row r u)) us d = Inl conflict_exn
    else \<exists>xs. tfor (\<lambda>u. insert_unit_row (unit_row r u)) us d
      = Inr (xs, d\<lparr>unit_rows := unit_rows d @ map (unit_row r) us, deferred := deferred d @ replicate (length us) (r_id r)\<rparr>)"
  using assms(1,3-)
proof (induction us arbitrary: d)
  case (Cons u us)
  have g: "trg_unit_row_insert_guard d (unit_row r u) = Inr ()" using Cons.prems(1) assms(2) by (simp add: trg_unit_row_insert_guard_def throw_if_def)
  have p: "\<not> (\<exists>x\<in>set (unit_rows d). ru_reservation x = r_id r \<and> ru_unit x = u)" using Cons.prems(4) [of u] by auto
  obtain uu where fu: "find_unit d u (r_venue r) = Some uu" using Cons.prems(3) [of u] by auto
  show ?case
  proof (cases "\<exists>x\<in>set (unit_rows d). unit_rows_conflict x (unit_row r u)")
    case True
    then have "insert_unit_row (unit_row r u) d = Inl conflict_exn"
      using g p by (auto simp: insert_unit_row_def conflict_exn_def throw_if_def)
    with True show ?thesis by (simp add: tbind_def)
  next
    case False
    let ?d1 = "d\<lparr>unit_rows := unit_rows d @ [unit_row r u], deferred := deferred d @ [r_id r]\<rparr>"
    have i: "insert_unit_row (unit_row r u) d = Inr ((), ?d1)"
      using g p False fu by (simp add: insert_unit_row_def throw_if_def)
    have nc: "\<not> unit_rows_conflict (unit_row r u) (unit_row r v)" if "v \<in> set us" for v
      using that Cons.prems(2) by (auto simp: unit_rows_conflict_def)
    have e: "(\<exists>v\<in>set us. \<exists>x\<in>set (unit_rows ?d1). unit_rows_conflict x (unit_row r v))
      \<longleftrightarrow> (\<exists>v\<in>set (u # us). \<exists>x\<in>set (unit_rows d). unit_rows_conflict x (unit_row r v))"
      using False nc by auto
    have "if \<exists>v\<in>set us. \<exists>x\<in>set (unit_rows ?d1). unit_rows_conflict x (unit_row r v)
      then tfor (\<lambda>u. insert_unit_row (unit_row r u)) us ?d1 = Inl conflict_exn
      else \<exists>xs. tfor (\<lambda>u. insert_unit_row (unit_row r u)) us ?d1
        = Inr (xs, ?d1\<lparr>unit_rows := unit_rows ?d1 @ map (unit_row r) us, deferred := deferred ?d1 @ replicate (length us) (r_id r)\<rparr>)"
    proof (rule Cons.IH)
      show "find_unit ?d1 v (r_venue r) \<noteq> None" if "v \<in> set us" for v using Cons.prems(3) [of v] that by (simp add: find_unit_def)
      show "ru_unit x \<noteq> v" if "v \<in> set us" "x \<in> set (unit_rows ?d1)" "ru_reservation x = r_id r" for v x
        using that Cons.prems(2) Cons.prems(4) [of v x] by auto
    qed (use Cons.prems in auto)
    with i show ?thesis unfolding e by (auto simp: tbind_def tx_eqs split: if_splits)
  qed
qed (simp add: tx_eqs)

text \<open>The verdict of the insert, before its unit rows.\<close>

definition insert_verdict :: "db \<Rightarrow> ReservationRow \<Rightarrow> DastarErrorCode option" where
  "insert_verdict d r = (if \<not> outside_blackouts d r then Some Blackout
     else (case assignment_facts d (r_assignment r) (r_venue r) of
         None \<Rightarrow> Some Party_does_not_fit
       | Some (cmin, cmax, usable) \<Rightarrow> if \<not> usable then Some Assignment_inactive
           else if r_party_size r < cmin \<or> cmax < r_party_size r then Some Party_does_not_fit
           else if \<not> (300000 \<le> snd (r_during r) - fst (r_during r) \<and> snd (r_during r) - fst (r_during r) \<le> 43200000) then Some Duration_out_of_range
           else if \<not> 1 \<le> r_party_size r then Some Invalid_input else None))"

lemma raise_code: "map_of BY_SQLSTATE c = Some k \<Longrightarrow> c \<noteq> ''42501'' \<Longrightarrow> \<exists>m. mapPgError (pg_raise c t) = Some m \<and> code m = k \<and> retryable m = False"
  by (auto simp: mapPgError_def pg_raise_def map_pg_def BY_SQLSTATE_def mapped_def split: if_splits)

lemma conflict_code: "\<exists>m. mapPgError conflict_exn = Some m \<and> code m = Hold_conflict \<and> retryable m = False"
  by (simp add: mapPgError_def conflict_exn_def map_pg_def BY_SQLSTATE_def mapped_def)

lemma insert_reservation_eq:
  assumes "cx_actor cx \<noteq> []" and "r_id r \<notin> r_id ` set (reservations d)" and "find_venue d (r_venue r) \<noteq> None"
  shows "case insert_verdict d r of
      Some c \<Rightarrow> \<exists>e m. insert_reservation cx r d = Inl e \<and> mapPgError e = Some m \<and> code m = c \<and> retryable m = False
    | None \<Rightarrow> insert_reservation cx r d = Inr (r, trg_audit cx None r (d\<lparr>reservations := reservations d @ [r], deferred := deferred d @ [r_id r]\<rparr>))"
proof -
  have a: "require_actor cx = Inr ()" using assms(1) by (simp add: require_actor_def throw_if_def)
  have b: "trg_blackout_guard d None r = throw_if (\<not> outside_blackouts d r) (pg_raise ''DA009'' ''reservation range overlaps an active blackout of the venue'')"
    by (simp add: trg_blackout_guard_def outside_blackouts_def)
  note codes = raise_code [of "''DA009''"] raise_code [of "''DA003''"] raise_code [of "''DA015''"]
  obtain v where "find_venue d (r_venue r) = Some v" using assms(3) by auto
  then show ?thesis
    using assms(2) codes a
    by (simp add: insert_verdict_def insert_reservation_def b trg_fit_def check_reservation_def throw_if_def BY_SQLSTATE_def
        mapPgError_def pg_violation_def map_pg_def mapped_def split: option.split prod.split)
qed

lemma book_eq:
  assumes "cx_actor cx \<noteq> []" and "r_id r \<notin> r_id ` set (reservations d)" and "find_venue d (r_venue r) \<noteq> None" and "r_status r = Held"
    and "sync_ok d" and "distinct us" and "insert_verdict d r = None \<Longrightarrow> \<forall>u\<in>set us. find_unit d u (r_venue r) \<noteq> None"
  shows "case insert_verdict d r of
      Some c \<Rightarrow> \<exists>e m. book cx r us d = Inl e \<and> mapPgError e = Some m \<and> code m = c \<and> retryable m = False
    | None \<Rightarrow> if \<exists>u\<in>set us. \<exists>x\<in>set (unit_rows d). unit_rows_conflict x (unit_row r u) then book cx r us d = Inl conflict_exn
        else \<exists>d'. book cx r us d = Inr (r, d') \<and> reservations d' = reservations d @ [r] \<and> unit_rows d' = unit_rows d @ map (unit_row r) us
          \<and> set (deferred d') \<subseteq> insert (r_id r) (set (deferred d)) \<and> combos d' = combos d"
proof (cases "insert_verdict d r")
  case (Some c)
  with insert_reservation_eq [OF assms(1-3)] show ?thesis by (auto simp: book_def tbind_def)
next
  case None
  let ?d1 = "trg_audit cx None r (d\<lparr>reservations := reservations d @ [r], deferred := deferred d @ [r_id r]\<rparr>)"
  have i: "insert_reservation cx r d = Inr (r, ?d1)" using insert_reservation_eq [OF assms(1-3)] None by simp
  have app: "find P (xs @ [x]) = Some x" if "\<And>y. y \<in> set xs \<Longrightarrow> \<not> P y" "P x" for P :: "ReservationRow \<Rightarrow> bool" and xs x
    using that by (induction xs) auto
  have "r_id y \<noteq> r_id r" if "y \<in> set (reservations d)" for y using assms(2) that by (metis image_eqI)
  then have "find (\<lambda>x. r_id x = r_id r) (reservations d @ [r]) = Some r" by (intro app) auto
  then have f: "find (\<lambda>x. r_id x = r_id r) (reservations ?d1) = Some r" by (simp add: trg_audit_def)
  have "find_unit ?d1 u (r_venue r) \<noteq> None" if "u \<in> set us" for u
    using assms(7) [OF None] that by (simp add: find_unit_def trg_audit_def)
  moreover have "ru_unit x \<noteq> u" if "u \<in> set us" "x \<in> set (unit_rows ?d1)" "ru_reservation x = r_id r" for u x
  proof -
    have "x \<in> set (unit_rows d)" using that(2) by (simp add: trg_audit_def)
    with assms(5) obtain s where "s \<in> set (reservations d)" "r_id s = ru_reservation x" by (auto simp: sync_ok_def)
    with that(3) assms(2) show ?thesis by (metis image_eqI)
  qed
  ultimately show ?thesis
    using insert_rows_eq [OF f assms(4,6)] i None
    by (auto simp: book_def tbind_def tthen_def tret_def trg_audit_def split: if_splits)
qed

section \<open>What the assignment resolves to\<close>

text \<open>Ids as the commands write them: lower case, and the members of a combination distinct.\<close>

definition tidy_ids :: "db \<Rightarrow> bool" where
  "tidy_ids d \<longleftrightarrow> (\<forall>u\<in>set (units d). lower (u_id u) = u_id u)
     \<and> (\<forall>c\<in>set (combos d). distinct (c_unit_ids c) \<and> (\<forall>m\<in>set (c_unit_ids c). lower m = m))"

lemma resolve_facts:
  assumes "resolveAssignment d i = Some (us, act)" and "ids_ok d" and "tidy_ids d"
  shows "distinct us" and "us = sort (members_of d (hi_assignment i))"
    and "\<exists>cmin cmax b. assignment_facts d (hi_assignment i) (hi_venueId i) = Some (cmin, cmax, b)
      \<and> (b \<longrightarrow> (\<forall>u\<in>set us. find_unit d u (hi_venueId i) \<noteq> None))"
proof -
  have "distinct us \<and> us = sort (members_of d (hi_assignment i)) \<and> (\<exists>cmin cmax b. assignment_facts d (hi_assignment i) (hi_venueId i) = Some (cmin, cmax, b)
      \<and> (b \<longrightarrow> (\<forall>u\<in>set us. find_unit d u (hi_venueId i) \<noteq> None)))"
  proof (cases "a_kind (hi_assignment i)")
    case Unit
    with assms(1) obtain u where u: "find_unit d (a_id (hi_assignment i)) (hi_venueId i) = Some u" "us = sortUnitIds [u_id u]"
      by (auto simp: resolveAssignment_def)
    then have "u \<in> set (units d)" "u_id u = a_id (hi_assignment i)" by (auto simp: find_unit_def dest: find_Some_D)
    with assms(3) have "us = [a_id (hi_assignment i)]" by (auto simp: u(2) sortUnitIds_def tidy_ids_def)
    with Unit u(1) show ?thesis by (simp add: members_of_def assignment_facts_def)
  next
    case Combo
    with assms(1) obtain c where c: "find_combo d (a_id (hi_assignment i)) (hi_venueId i) = Some c" "us = sortUnitIds (c_unit_ids c)"
      by (auto simp: resolveAssignment_def)
    then have in_d: "c \<in> set (combos d)" "c_id c = a_id (hi_assignment i)" "c_venue c = hi_venueId i" by (auto simp: find_combo_def dest: find_Some_D)
    with assms(2) have f: "find (\<lambda>c. c_id c = a_id (hi_assignment i)) (combos d) = Some c"
      using find_distinct_key [of c_id "combos d" c] by (simp add: ids_ok_def)
    have "map lower (c_unit_ids c) = c_unit_ids c" "distinct (c_unit_ids c)" using assms(3) in_d(1) by (auto simp: tidy_ids_def intro: map_idI)
    then have us: "us = sort (c_unit_ids c)" by (simp add: c(2) sortUnitIds_def distinct_remdups_id)
    have "find_unit d m (hi_venueId i) \<noteq> None" if "combo_usable d c" "m \<in> set us" for m
      using that in_d(3) by (auto simp: us combo_usable_def find_unit_def find_None_iff)
    with Combo c f us in_d assms(3) show ?thesis by (auto simp: members_of_def assignment_facts_def tidy_ids_def)
  qed
  then show "distinct us" "us = sort (members_of d (hi_assignment i))" "\<exists>cmin cmax b. assignment_facts d (hi_assignment i) (hi_venueId i) = Some (cmin, cmax, b)
      \<and> (b \<longrightarrow> (\<forall>u\<in>set us. find_unit d u (hi_venueId i) \<noteq> None))" by blast+
qed

text \<open>A unit row a booking meets: active, of one of its units, over its range, and not of a dead hold it may clear.\<close>

definition blocked :: "session \<Rightarrow> db \<Rightarrow> string list \<Rightarrow> range \<Rightarrow> bool" where
  "blocked cx d us during \<longleftrightarrow> (\<exists>ru\<in>set (unit_rows d). ru_active ru \<and> ru_unit ru \<in> set us \<and> overlaps (ru_during ru) during
     \<and> \<not> (\<exists>r\<in>set (reservations d). r_id r = ru_reservation ru \<and> visible cx (r_venue r) \<and> dead (cx_now cx) r))"

lemma blocked_after:
  assumes "ids_ok d" and "sync_ok d" and "\<not> cx_bypass cx" and "expires (dead_rows cx d us (r_during r)) d d'"
  shows "(\<exists>u\<in>set us. \<exists>x\<in>set (unit_rows d'). unit_rows_conflict x (unit_row r u)) \<longleftrightarrow> blocked cx d us (r_during r)"
proof -
  have "ru_reservation ru \<in> r_id ` set (dead_rows cx d us (r_during r))
      \<longleftrightarrow> (\<exists>r\<in>set (reservations d). r_id r = ru_reservation ru \<and> visible cx (r_venue r) \<and> dead (cx_now cx) r)"
    if ru: "ru \<in> set (unit_rows d)" "ru_active ru" "ru_unit ru \<in> set us" "overlaps (ru_during ru) (r_during r)" for ru
  proof -
    have "ru_reservation ru \<in> set (OVERLAP_SQL cx d us (r_during r))" if "s \<in> set (reservations d)" "r_id s = ru_reservation ru" "visible cx (r_venue s)" for s
    proof -
      from assms(2) ru(1) obtain s' where "s' \<in> set (reservations d)" "r_id s' = ru_reservation ru" "row_in_sync ru s'" by (auto simp: sync_ok_def)
      moreover have "s' = s" using assms(1) distinct_key_eq [of r_id "reservations d" s' s] that calculation by (simp add: ids_ok_def)
      ultimately have "ru_venue ru = r_venue s" by (simp add: row_in_sync_def)
      with that(3) assms(3) ru show ?thesis by (auto simp: OVERLAP_SQL_def occupancy_def visible_def)
    qed
    then show ?thesis by (auto simp: dead_rows_def image_iff)
  qed
  then show ?thesis using assms(4)
    by (auto simp: expires_def free_rows_def blocked_def unit_rows_conflict_def split: if_splits) blast+
qed

section \<open>The decision\<close>

definition hold_session :: "env \<Rightarrow> HoldInput \<Rightarrow> session" where
  "hold_session env i = setContext (hi_actor i) (hi_traceId i) (hi_venueId i) (e_now env 1)"

text \<open>
  The code of a hold under a key that is not claimed, if it is not granted: the order the command asks in.
\<close>

definition hold_verdict :: "env \<Rightarrow> HoldInput \<Rightarrow> range \<Rightarrow> db \<Rightarrow> DastarErrorCode option" where
  "hold_verdict env i during d = (let cx = hold_session env i in
     if hi_enforceSchedule i \<and> (\<exists>s\<in>set (schedules d). s_venue s = hi_venueId i \<and> s_active s)
         \<and> \<not> (\<exists>p\<in>set (PERIODS_SQL (e_zones env) d (hi_venueId i) (fst during) (snd during)). sp_startsAt p \<le> fst during \<and> snd during \<le> sp_endsAt p)
       then Some Outside_schedule
     else (case resolveAssignment d i of
         None \<Rightarrow> Some Party_does_not_fit
       | Some (us, active) \<Rightarrow>
           if \<not> active then Some Assignment_inactive
           else (case venue_limits d (hi_venueId i) of
               None \<Rightarrow> Some Not_found
             | Some (cap, ttl) \<Rightarrow>
                 if cap \<le> int (LIVE_HOLDS_SQL cx d (hi_venueId i) (hi_actor i)) then Some Too_many_live_holds
                 else if BOUNDS_overlapSet < length (OVERLAP_SQL cx d us during) then Some Overlap_set_too_large
                 else (case insert_verdict d (new_reservation i (e_uuid env 1) during (e_now env 1 + ttl * 1000)) of
                     Some c \<Rightarrow> Some c
                   | None \<Rightarrow> if blocked cx d us during then Some Hold_conflict else None))))"

definition settled :: "session \<Rightarrow> DastarErrorCode \<Rightarrow> db \<Rightarrow> exn + HoldOutcome \<times> db \<Rightarrow> bool" where
  "settled cx c d x \<longleftrightarrow> (if c \<in> set STORED_OUTCOMES
     then \<exists>m d' us during. x = Inr (HoldRefused c m False, d') \<and> (reservations d' = reservations d
       \<or> reservations d' = replace_rows expired_row (dead_rows cx d us during) (reservations d))
     else \<exists>e. x = Inl e \<and> (\<exists>m. hold_error e = Some m \<and> code m = c \<and> (retryable m \<longrightarrow> c = Overlap_set_too_large)))"

lemma store_ok:
  assumes "inv T {} d" and "set (deferred d) \<subseteq> r_id ` set (reservations d)"
  shows "\<exists>d'. storeOutcome i out d = Inr (out, d') \<and> reservations d' = reservations d"
proof -
  obtain d1 where d1: "store_response (hi_venueId i) (hi_actor i) (hi_idempotencyKey i) out d = Inr ((), d1)"
    "d1 = d\<lparr>idempotency := idempotency d1\<rparr>" by (auto simp: store_response_def tx_eqs)
  have "inv T {} d1" using preservesD [OF preserves_store_response assms(1) d1(1)] .
  moreover have "set (deferred d1) \<subseteq> r_id ` set (reservations d1)" using assms(2) by (subst d1(2), subst d1(2)) simp
  ultimately have c: "commit d1 = Inr ((), d1\<lparr>deferred := []\<rparr>)" by (rule commit_ok)
  have r: "reservations d1 = reservations d" by (subst d1(2)) simp
  show ?thesis unfolding storeOutcome_def by (simp add: tbind_def tthen_def tret_def d1(1) c r)
qed

lemma insert_verdict_cong:
  assumes "units d' = units d" and "combos d' = combos d" and "blackouts d' = blackouts d"
  shows "insert_verdict d' r = insert_verdict d r"
  using assignment_facts_cong [OF assms(1,2)] outside_blackouts_cong [OF assms(3)] by (simp add: insert_verdict_def)

lemma replace_ids: "(\<And>r. r_id (g r) = r_id r) \<Longrightarrow> map r_id (replace_rows g rows rs) = map r_id rs"
  by (simp add: replace_rows_def)

text \<open>The refusal of the insert, once the slot is cleared.\<close>

lemma settle_refused:
  assumes "inv T {} d1" and "set (deferred d1) \<subseteq> r_id ` set (reservations d1)" and "mapPgError e = Some m" and "code m = c" and "retryable m = False"
    and "reservations d1 = replace_rows expired_row (dead_rows cx d us during) (reservations d)"
  shows "settled cx c d (settle_booking cx i (Inl e) d1)"
proof -
  have h: "hold_error e = Some m" using assms(3) by (auto simp: hold_error_def mapPgError_def split: exn.splits)
  show ?thesis
  proof (cases "c \<in> set STORED_OUTCOMES")
    case True
    from store_ok [OF assms(1,2), of i "HoldRefused (code m) (message m) False"] obtain d' where
      "storeOutcome i (HoldRefused (code m) (message m) False) d1 = Inr (HoldRefused (code m) (message m) False, d')" "reservations d' = reservations d1" by blast
    with True assms(3,4,6) show ?thesis by (auto simp: settled_def settle_booking_def simp del: split_paired_Ex split_paired_All)
  next
    case False
    with assms(3-5) h show ?thesis by (simp add: settled_def settle_booking_def tthrow_def)
  qed
qed

lemma members_inserted:
  assumes "inv T {r_id r} d" and "r \<in> set (reservations d)" and "membership_ok d r"
  shows "inv T {} d"
proof -
  have "x = r" if "x \<in> set (reservations d)" "r_id x = r_id r" for x
    using assms(1,2) distinct_key_eq [of r_id "reservations d" x r] that by (simp add: inv_def ids_ok_def)
  with assms(1,3) show ?thesis by (auto simp: inv_def members_ok_def)
qed

lemma settle_granted:
  assumes I: "inv T {r_id r} d2" and r: "r \<in> set (reservations d2)" "membership_ok d2 r" and q: "set (deferred d2) \<subseteq> r_id ` set (reservations d2)"
  shows "\<exists>rc t d'. settle_booking cx i (Inr r) d2 = Inr (HoldOk rc t False, d') \<and> reservations d' = reservations d2"
proof -
  obtain nid d3 where e: "enqueue (hi_venueId i) ''reservation.held'' (reservationPayload r) d2 = Inr (nid, d3)"
    "reservations d3 = reservations d2" "deferred d3 = deferred d2" by (auto simp: enqueue_def)
  have "inv T {} d3" using preservesD [OF preserves_enqueue members_inserted [OF I r] e(1)] .
  from store_ok [OF this, of i "HoldOk (receipt_of cx d3 r) (toISOString (r_hold_expires_at r)) False"] q e(2,3) obtain d' where
    "storeOutcome i (HoldOk (receipt_of cx d3 r) (toISOString (r_hold_expires_at r)) False) d3 = Inr (HoldOk (receipt_of cx d3 r) (toISOString (r_hold_expires_at r)) False, d')"
    "reservations d' = reservations d3" by auto
  with e show ?thesis by (auto simp: settle_booking_def tbind_def tthen_def tget_def)
qed

lemma book_cleared:
  assumes I: "inv T {} d" and now: "cx_now cx \<le> T" and dd: "deferred d = []" and a: "cx_actor cx \<noteq> []" and b: "\<not> cx_bypass cx"
    and r: "r = new_reservation i rid during ex" and fresh: "rid \<notin> r_id ` set (reservations d)" and v: "find_venue d (hi_venueId i) \<noteq> None"
    and res: "resolveAssignment d i = Some (us, act)" and tidy: "tidy_ids d"
    and I1: "inv T {} d1" and e1: "expires (dead_rows cx d us during) d d1"
  shows "case (case insert_verdict d r of Some c \<Rightarrow> Some c | None \<Rightarrow> if blocked cx d us during then Some Hold_conflict else None) of
      Some c \<Rightarrow> settled cx c d (tbind (tsavepoint (book cx r us)) (settle_booking cx i) d1)
    | None \<Rightarrow> \<exists>rc t d'. tbind (tsavepoint (book cx r us)) (settle_booking cx i) d1 = Inr (HoldOk rc t False, d')
        \<and> reservations d' = replace_rows expired_row (dead_rows cx d us during) (reservations d) @ [r]"
proof -
  have rs: "r_id r = rid" "r_status r = Held" "r_venue r = hi_venueId i" "r_during r = during" "r_assignment r = hi_assignment i" "r_version r = 1" "r_token_hash r = None"
    by (simp_all add: r)
  note R = resolve_facts [OF res _ tidy]
  have ids: "ids_ok d" and sync: "sync_ok d" "sync_ok d1" using I I1 by (simp_all add: inv_def)
  have same: "units d1 = units d" "combos d1 = combos d" "blackouts d1 = blackouts d" "venues d1 = venues d"
    and rs1: "reservations d1 = replace_rows expired_row (dead_rows cx d us during) (reservations d)" using e1 by (simp_all add: expires_def)
  have keys: "r_id ` set (reservations d1) = r_id ` set (reservations d)"
    using arg_cong [OF replace_ids [of expired_row "dead_rows cx d us during" "reservations d"], of set] by (simp add: rs1)
  have q: "set (deferred d1) \<subseteq> r_id ` set (reservations d1)"
    using e1 dd unfolding keys by (auto simp: expires_def dead_rows_def)
  have iv: "insert_verdict d1 r = insert_verdict d r" by (rule insert_verdict_cong [OF same(1-3)])
  have found: "\<forall>u\<in>set us. find_unit d1 u (r_venue r) \<noteq> None" if "insert_verdict d1 r = None"
    using that R(3) ids unfolding iv by (auto simp: insert_verdict_def rs find_unit_def same split: if_splits option.splits)
  have B: "case insert_verdict d r of
      Some c \<Rightarrow> \<exists>e m. book cx r us d1 = Inl e \<and> mapPgError e = Some m \<and> code m = c \<and> retryable m = False
    | None \<Rightarrow> if blocked cx d us during then book cx r us d1 = Inl conflict_exn
        else \<exists>d'. book cx r us d1 = Inr (r, d') \<and> reservations d' = reservations d1 @ [r] \<and> unit_rows d' = unit_rows d1 @ map (unit_row r) us
          \<and> set (deferred d') \<subseteq> insert (r_id r) (set (deferred d1)) \<and> combos d' = combos d1"
    using book_eq [OF a _ _ rs(2) sync(2) R(1) found] fresh v ids e1
    unfolding iv blocked_after [OF ids sync(1) b e1 [folded rs(4)], unfolded rs(4)]
    by (simp add: rs keys find_venue_def same)
  note S = settle_refused [OF I1 q _ _ _ rs1]
  show ?thesis
  proof (cases "insert_verdict d r")
    case (Some c)
    with B obtain e m where e: "book cx r us d1 = Inl e" "mapPgError e = Some m" "code m = c" "retryable m = False" by auto
    with S [OF e(2-4), of i] Some show ?thesis by (simp add: tbind_def tsavepoint_def)
  next
    case None
    show ?thesis
    proof (cases "blocked cx d us during")
      case True
      from conflict_code obtain m where m: "mapPgError conflict_exn = Some m" "code m = Hold_conflict" "retryable m = False" by blast
      with S [OF m, of i] True None B show ?thesis by (simp add: tbind_def tsavepoint_def)
    next
      case False
      with None B obtain d2 where d2: "book cx r us d1 = Inr (r, d2)" "reservations d2 = reservations d1 @ [r]" "unit_rows d2 = unit_rows d1 @ map (unit_row r) us"
        "set (deferred d2) \<subseteq> insert (r_id r) (set (deferred d1))" "combos d2 = combos d1" by auto
      have "rows_of d2 rid = map (unit_row r) us"
      proof -
        have "filter (\<lambda>ru. ru_reservation ru = rid) (unit_rows d1) = []"
          using sync(2) fresh keys by (auto simp: filter_empty_conv sync_ok_def) (metis image_eqI)
        then show ?thesis by (simp add: rows_of_def d2(3) rs)
      qed
      moreover have "members_of d2 (hi_assignment i) = members_of d (hi_assignment i)" using members_of_cong [of d2 d] d2(5) same(2) by simp
      ultimately have "membership_ok d2 r" using R(2) ids by (simp add: membership_ok_def rs comp_def sorted_sort_id)
      moreover have "inv T {r_id r} d2" by (rule book_inv [OF I1 d2(1) rs(2,6,7)])
      ultimately have "\<exists>rc t d'. settle_booking cx i (Inr r) d2 = Inr (HoldOk rc t False, d') \<and> reservations d' = reservations d2"
        using q d2(4) by (intro settle_granted [of T]) (auto simp: d2(2))
      with d2(1,2) None False show ?thesis by (auto simp: tbind_def tsavepoint_def rs1)
    qed
  qed
qed

text \<open>A transaction step that threw, and its code.\<close>

lemma settled_throw: "mapPgError e = None \<Longrightarrow> hold_error e = Some m \<Longrightarrow> code m = c \<Longrightarrow> c \<notin> set STORED_OUTCOMES \<Longrightarrow> (retryable m \<longrightarrow> c = Overlap_set_too_large)
    \<Longrightarrow> settled cx c d (Inl e)"
  by (auto simp: settled_def)

lemma settled_dastar: "c \<notin> set STORED_OUTCOMES \<Longrightarrow> settled cx c d (Inl (ExDastar (dastar_error c m)))"
  by (rule settled_throw [of _ "dastar_error c m"]) (simp_all add: mapPgError_def hold_error_def)

lemma settled_retryable: "settled cx Overlap_set_too_large d (Inl (ExDastar (dastar_error_retryable Overlap_set_too_large m)))"
  by (rule settled_throw [of _ "dastar_error_retryable Overlap_set_too_large m"])
    (simp_all add: mapPgError_def hold_error_def STORED_OUTCOMES_def dastar_error_retryable_def)

lemma claimed_eq:
  assumes I: "inv T {} d" and now: "e_now env 1 \<le> T" and dd: "deferred d = []" and tidy: "tidy_ids d" and a: "hi_actor i \<noteq> []"
    and fresh: "e_uuid env 1 \<notin> r_id ` set (reservations d)" and v: "find_venue d (hi_venueId i) \<noteq> None" and up: "fst during \<le> snd during"
  shows "case hold_verdict env i during d of
      Some c \<Rightarrow> settled (hold_session env i) c d (hold_claimed env 1 (hold_session env i) i during d)
    | None \<Rightarrow> \<exists>us ttl rc t d'. hold_claimed env 1 (hold_session env i) i during d = Inr (HoldOk rc t False, d') \<and> resolveAssignment d i = Some (us, True)
        \<and> map_option v_hold_ttl_seconds (find_venue d (hi_venueId i)) = Some ttl
        \<and> reservations d' = replace_rows expired_row (dead_rows (hold_session env i) d us during) (reservations d)
            @ [new_reservation i (e_uuid env 1) during (e_now env 1 + ttl * 1000)]"
proof -
  note One_nat_def [simp del]
  let ?cx = "hold_session env i"
  have cx: "cx_now ?cx = e_now env 1" "cx_actor ?cx = hi_actor i" "\<not> cx_bypass ?cx" by (simp_all add: hold_session_def)
  obtain venue where vr: "find_venue d (hi_venueId i) = Some venue" using v by auto
  define m where "m = (if hi_enforceSchedule i then checkSchedule (e_zones env) i during else tret ())"
  define late where "late \<longleftrightarrow> hi_enforceSchedule i \<and> (\<exists>s\<in>set (schedules d). s_venue s = hi_venueId i \<and> s_active s)
         \<and> \<not> (\<exists>p\<in>set (PERIODS_SQL (e_zones env) d (hi_venueId i) (fst during) (snd during)). sp_startsAt p \<le> fst during \<and> snd during \<le> sp_endsAt p)"
  have m: "m d = (if late then Inl (ExDastar (dastar_error Outside_schedule (''the requested time is outside the venue'' @ CHR 0x27 # ''s service periods''))) else Inr ((), d))"
    by (auto simp: m_def late_def checkSchedule_def tret_def)
  have h: "hold_claimed env 1 ?cx i during = tthen m (tbind (tget (\<lambda>d. resolveAssignment d i)) (\<lambda>resolved. case resolved of
         None \<Rightarrow> storeOutcome i (HoldRefused Party_does_not_fit ''assignment not found in venue'' False)
       | Some (us, active) \<Rightarrow> tthen (tguard active (ExDastar (dastar_error Assignment_inactive ''assignment is deactivated'')))
           (hold_units env 1 ?cx i during us)))" unfolding hold_claimed_def m_def ..
  note V = hold_verdict_def [of env i during d, unfolded Let_def, folded late_def]
  show ?thesis
  proof (cases late)
    case True
    have "settled ?cx Outside_schedule d (hold_claimed env 1 ?cx i during d)"
      unfolding h tthen_def tbind_def m using True by (simp add: settled_dastar STORED_OUTCOMES_def)
    with True show ?thesis by (simp add: V)
  next
    case nl: False
    show ?thesis
    proof (cases "resolveAssignment d i")
      case None
      obtain d' where "storeOutcome i (HoldRefused Party_does_not_fit ''assignment not found in venue'' False) d
          = Inr (HoldRefused Party_does_not_fit ''assignment not found in venue'' False, d')" "reservations d' = reservations d"
        using store_ok [OF I, of i "HoldRefused Party_does_not_fit ''assignment not found in venue'' False"] dd by auto
      then have "settled ?cx Party_does_not_fit d (hold_claimed env 1 ?cx i during d)"
        unfolding h tthen_def tbind_def m using nl None by (simp add: tget_def settled_def STORED_OUTCOMES_def)
      with nl None show ?thesis by (simp add: V)
    next
      case (Some ua)
      obtain us act where ua: "ua = (us, act)" by fastforce
      show ?thesis
      proof (cases act)
        case False
        have "settled ?cx Assignment_inactive d (hold_claimed env 1 ?cx i during d)"
          unfolding h tthen_def tbind_def m using nl Some ua False by (simp add: tget_def tguard_def tthrow_def settled_dastar STORED_OUTCOMES_def)
        with nl Some ua False show ?thesis by (simp add: V)
      next
        case True
        let ?live = "LIVE_HOLDS_SQL ?cx d (hi_venueId i) (hi_actor i)"
        define cap where "cap = v_max_live_holds_per_actor venue"
        define ttl where "ttl = v_hold_ttl_seconds venue"
        define r where "r = new_reservation i (e_uuid env 1) during (e_now env 1 + ttl * 1000)"
        have lim: "venue_limits d (hi_venueId i) = Some (cap, ttl)" by (simp add: venue_limits_def vr cap_def ttl_def)
        have hu: "hold_claimed env 1 ?cx i during d = (if cap \<le> int ?live then Inl (ExDastar (dastar_error Too_many_live_holds (''actor has '' @ show_nat ?live @ '' live holds'')))
            else tthen (clear_overlap ?cx us during) (tbind (tsavepoint (book ?cx r us)) (settle_booking ?cx i)) d)"
          unfolding h using nl Some ua True up
          by (simp add: tthen_def tbind_def m tget_def tguard_def tthrow_def tret_def hold_units_def lim r_def cx not_less)
        have ver: "hold_verdict env i during d = (if cap \<le> int ?live then Some Too_many_live_holds
            else if BOUNDS_overlapSet < length (OVERLAP_SQL ?cx d us during) then Some Overlap_set_too_large
            else (case insert_verdict d r of Some c \<Rightarrow> Some c | None \<Rightarrow> if blocked ?cx d us during then Some Hold_conflict else None))"
          using nl Some ua True by (simp add: V lim r_def)
        show ?thesis
        proof (cases "cap \<le> int ?live")
          case True
          then show ?thesis unfolding ver hu by (simp add: settled_dastar STORED_OUTCOMES_def)
        next
          case few: False
          note C = clear_overlap_eq [OF I, of ?cx us during] now
          show ?thesis
          proof (cases "BOUNDS_overlapSet < length (OVERLAP_SQL ?cx d us during)")
            case True
            with C cx obtain t where "clear_overlap ?cx us during d = Inl (ExDastar (dastar_error_retryable Overlap_set_too_large t))" by auto
            with True few show ?thesis unfolding ver hu by (simp add: tthen_def tbind_def settled_retryable)
          next
            case False
            with C cx obtain d1 where d1: "clear_overlap ?cx us during d = Inr ((), d1)" "inv T {} d1" "expires (dead_rows ?cx d us during) d d1" by auto
            have "case (case insert_verdict d r of Some c \<Rightarrow> Some c | None \<Rightarrow> if blocked ?cx d us during then Some Hold_conflict else None) of
                Some c \<Rightarrow> settled ?cx c d (tbind (tsavepoint (book ?cx r us)) (settle_booking ?cx i) d1)
              | None \<Rightarrow> \<exists>rc t d'. tbind (tsavepoint (book ?cx r us)) (settle_booking ?cx i) d1 = Inr (HoldOk rc t False, d')
                  \<and> reservations d' = replace_rows expired_row (dead_rows ?cx d us during) (reservations d) @ [r]"
              by (rule book_cleared [OF I _ dd _ cx(3) r_def fresh v _ tidy d1(2,3)]) (use a now Some ua cx in auto)
            with few False Some ua True d1(1) vr show ?thesis unfolding ver hu
              by (auto simp: tthen_def tbind_def r_def ttl_def split: option.splits if_splits)
          qed
        qed
      qed
    qed
  qed
qed

text \<open>Nothing of it reads the idempotency table.\<close>

lemma claimed_reads:
  fixes d :: db and x :: "IdempotencyRow list"
  defines "d1 \<equiv> d\<lparr>idempotency := x\<rparr>"
  shows "schedules d1 = schedules d" "resolveAssignment d1 = resolveAssignment d" "venue_limits d1 = venue_limits d" "LIVE_HOLDS_SQL cx d1 = LIVE_HOLDS_SQL cx d"
    "OVERLAP_SQL cx d1 = OVERLAP_SQL cx d" "insert_verdict d1 = insert_verdict d" "blocked cx d1 = blocked cx d" "PERIODS_SQL z d1 = PERIODS_SQL z d"
    "dead_rows cx d1 = dead_rows cx d" "reservations d1 = reservations d" "find_venue d1 = find_venue d"
proof -
  show "insert_verdict d1 = insert_verdict d" by (rule ext, rule insert_verdict_cong) (simp_all add: d1_def)
  have t: "schedules d1 = schedules d" "venues d1 = venues d" "units d1 = units d" "combos d1 = combos d" by (simp_all add: d1_def)
  then show "PERIODS_SQL z d1 = PERIODS_SQL z d" by (intro ext) (simp only: PERIODS_SQL_def find_venue_def)
  show "resolveAssignment d1 = resolveAssignment d" by (intro ext) (simp only: resolveAssignment_def find_unit_def find_combo_def t)
  show "venue_limits d1 = venue_limits d" by (simp add: d1_def fun_eq_iff venue_limits_def find_venue_def)
  show "OVERLAP_SQL cx d1 = OVERLAP_SQL cx d" by (simp add: d1_def fun_eq_iff OVERLAP_SQL_def occupancy_def)
  then show "dead_rows cx d1 = dead_rows cx d" by (simp add: fun_eq_iff dead_rows_def) (simp add: d1_def)
qed (simp_all add: d1_def fun_eq_iff LIVE_HOLDS_SQL_def blocked_def find_venue_def)

lemma hold_verdict_claimed: "hold_verdict env i during (d\<lparr>idempotency := x\<rparr>) = hold_verdict env i during d"
  by (simp only: hold_verdict_def Let_def claimed_reads)

text \<open>What a first attempt that may throw makes of the command.\<close>

lemma hold_once:
  assumes "canonicalHoldRequest i = Some canon"
  shows "attemptHold env i (e_sha256 env canon) 1 d = Inr y \<Longrightarrow> hold env i d = Inr y"
    and "attemptHold env i (e_sha256 env canon) 1 d = Inl e \<Longrightarrow> hold_error e = Some m \<Longrightarrow> (retryable m \<longrightarrow> code m \<noteq> Serialization_conflict)
      \<Longrightarrow> hold env i d = Inl (ExDastar m)"
proof -
  have h: "hold env i d = hold_loop env i (e_sha256 env canon) 1 d" using assms by (simp add: hold_def)
  show "attemptHold env i (e_sha256 env canon) 1 d = Inr y \<Longrightarrow> hold env i d = Inr y" unfolding h by (rule hold_loop_first)
  assume "attemptHold env i (e_sha256 env canon) 1 d = Inl e" "hold_error e = Some m" "retryable m \<longrightarrow> code m \<noteq> Serialization_conflict"
  then show "hold env i d = Inl (ExDastar m)" unfolding h by (subst hold_loop.simps) auto
qed

lemma replace_dead_rows:
  assumes "ids_ok d"
  shows "replace_rows expired_row (dead_rows cx d us during) (reservations d)
    = map (\<lambda>r. if r \<in> set (dead_rows cx d us during) then expired_row r else r) (reservations d)"
proof -
  have "r_id r \<in> r_id ` set (dead_rows cx d us during) \<longleftrightarrow> r \<in> set (dead_rows cx d us during)" if r: "r \<in> set (reservations d)" for r
  proof
    assume "r_id r \<in> r_id ` set (dead_rows cx d us during)"
    then obtain s where s: "s \<in> set (dead_rows cx d us during)" "r_id r = r_id s" by blast
    then have "s \<in> set (reservations d)" by (simp add: dead_rows_def)
    then have "s = r" using distinct_key_eq [of r_id "reservations d" s r] assms r s(2) by (simp add: ids_ok_def)
    with s(1) show "r \<in> set (dead_rows cx d us during)" by simp
  qed simp
  then show ?thesis by (simp add: replace_rows_def)
qed

text \<open>The answer of a hold under a fresh key, and what it leaves of the reservations.\<close>

lemma hold_answers:
  assumes "inv T {} d" and "e_now env 1 \<le> T" and "deferred d = []" and "tidy_ids d" and "hi_actor i \<noteq> []"
    and "request_row d i = None" and "e_fault env 1 = None" and "e_uuid env 1 \<notin> r_id ` set (reservations d)"
    and "find_venue d (hi_venueId i) = Some venue" and "rangeLiteral (hi_startsAt i) (hi_durationMinutes i) = Some during" and "fst during \<le> snd during"
  shows "case hold_verdict env i during d of
      None \<Rightarrow> \<exists>us rc t d'. hold env i d = Inr (HoldOk rc t False, d') \<and> resolveAssignment d i = Some (us, True)
        \<and> reservations d' = replace_rows expired_row (dead_rows (hold_session env i) d us during) (reservations d)
            @ [new_reservation i (e_uuid env 1) during (e_now env 1 + v_hold_ttl_seconds venue * 1000)]
    | Some c \<Rightarrow> if c \<in> set STORED_OUTCOMES then \<exists>m d' us during'. hold env i d = Inr (HoldRefused c m False, d')
          \<and> (reservations d' = reservations d \<or> reservations d' = replace_rows expired_row (dead_rows (hold_session env i) d us during') (reservations d))
        else \<exists>e. hold env i d = Inl (ExDastar e) \<and> code e = c"
proof -
  let ?cx = "hold_session env i"
  obtain canon where canon: "canonicalHoldRequest i = Some canon" using assms(10) by (auto simp: rangeLiteral_def canonicalHoldRequest_def split: option.splits)
  let ?h = "e_sha256 env canon"
  have idem: "idem_row d (hi_venueId i) (hi_actor i) (hi_idempotencyKey i) = None" using assms(6) by (simp add: request_row_def)
  obtain x where c: "claim_key ?cx (hi_venueId i) (hi_actor i) (hi_idempotencyKey i) ?h d = Inr (True, d\<lparr>idempotency := x\<rparr>)"
    using idem assms(9) by (simp add: claim_key_def throw_if_def)
  let ?d1 = "d\<lparr>idempotency := x\<rparr>"
  have I1: "inv T {} ?d1" using preservesD [OF preserves_claim_key assms(1) c] .
  have at: "attemptHold env i ?h 1 d = hold_claimed env 1 ?cx i during ?d1"
    using c assms(7,10) by (simp add: attemptHold_def claim_or_replay_def Let_def hold_session_def tbind_def)
  note O = hold_once [OF canon, of env d, unfolded at]
  have K: "case hold_verdict env i during d of
      Some c \<Rightarrow> settled ?cx c ?d1 (hold_claimed env 1 ?cx i during ?d1)
    | None \<Rightarrow> \<exists>us ttl rc t d'. hold_claimed env 1 ?cx i during ?d1 = Inr (HoldOk rc t False, d') \<and> resolveAssignment ?d1 i = Some (us, True)
        \<and> map_option v_hold_ttl_seconds (find_venue ?d1 (hi_venueId i)) = Some ttl
        \<and> reservations d' = replace_rows expired_row (dead_rows ?cx ?d1 us during) (reservations ?d1)
            @ [new_reservation i (e_uuid env 1) during (e_now env 1 + ttl * 1000)]"
    unfolding hold_verdict_claimed [of env i during x d, symmetric]
    by (rule claimed_eq [OF I1 assms(2)]) (use assms in \<open>auto simp: tidy_ids_def find_venue_def\<close>)
  show ?thesis
  proof (cases "hold_verdict env i during d")
    case None
    with K assms(9) O(1) show ?thesis by (auto simp: claimed_reads)
  next
    case (Some c)
    with K have s: "settled ?cx c ?d1 (hold_claimed env 1 ?cx i during ?d1)" by simp
    show ?thesis
    proof (cases "c \<in> set STORED_OUTCOMES")
      case True
      with s obtain m d' us during' where h: "hold_claimed env 1 ?cx i during ?d1 = Inr (HoldRefused c m False, d')"
        and r: "reservations d' = reservations d \<or> reservations d' = replace_rows expired_row (dead_rows ?cx d us during') (reservations d)"
        unfolding settled_def if_P [OF True] claimed_reads by blast
      from O(1) [OF h] r True Some show ?thesis unfolding Some option.case if_P [OF True] by blast
    next
      case False
      with s obtain e m where "hold_claimed env 1 ?cx i during ?d1 = Inl e" "hold_error e = Some m" "code m = c" "retryable m \<longrightarrow> c = Overlap_set_too_large"
        by (auto simp: settled_def)
      with O(2) False Some show ?thesis by auto
    qed
  qed
qed

text \<open>
  C3: what a hold under a fresh key answers is decided by the state it meets: the first reason of the list, schedule,
  assignment, live holds, overlap bound, blackout, fit, duration and a unit some reservation that is not dead occupies,
  refuses it, as a stored outcome or as a thrown error of that code; without one it is granted, the dead holds on its slot expire,
  and its reservation is the one row added.
\<close>

theorem hold_decides:
  assumes "inv T {} d" and "e_now env 1 \<le> T" and "deferred d = []" and "tidy_ids d" and "hi_actor i \<noteq> []"
    and "request_row d i = None" and "e_fault env 1 = None" and "e_uuid env 1 \<notin> r_id ` set (reservations d)"
    and "find_venue d (hi_venueId i) = Some venue" and "rangeLiteral (hi_startsAt i) (hi_durationMinutes i) = Some during" and "fst during \<le> snd during"
  shows "case hold_verdict env i during d of
      None \<Rightarrow> \<exists>us rc t d'. hold env i d = Inr (HoldOk rc t False, d') \<and> resolveAssignment d i = Some (us, True)
        \<and> reservations d' = map (\<lambda>r. if r \<in> set (dead_rows (hold_session env i) d us during) then expired_row r else r) (reservations d)
            @ [new_reservation i (e_uuid env 1) during (e_now env 1 + v_hold_ttl_seconds venue * 1000)]
    | Some c \<Rightarrow> if c \<in> set STORED_OUTCOMES then \<exists>m d'. hold env i d = Inr (HoldRefused c m False, d')
        else \<exists>e. hold env i d = Inl (ExDastar e) \<and> code e = c"
  using hold_answers [OF assms] assms(1) by (auto simp: replace_dead_rows inv_def split: option.splits)

theorem hold_decides_witness:
  "\<exists>m d'. hold (demo_env 5 ''r2'') (demo_hold ''other'' on_a 2) held_db = Inr (HoldRefused Hold_conflict m False, d')"
proof -
  have v: "hold_verdict (demo_env 5 ''r2'') (demo_hold ''other'' on_a 2) demo_during held_db = Some Hold_conflict" by code_simp
  have I: "inv 5 {} held_db" by (rule inv_mono [OF _ held_db_inv]) simp
  have "lower ''a'' = ''a''" "lower ''b'' = ''b''" "lower ''c'' = ''c''" by code_simp+
  then have f: "find_venue held_db ''v'' = Some demo_venue" "request_row held_db (demo_hold ''other'' on_a 2) = None" "tidy_ids held_db"
    by (simp_all add: find_venue_def held_db_def demo_db_def demo_venue_def request_row_def idem_row_def demo_hold_def tidy_ids_def demo_unit_def demo_combo_def)
  have "rangeLiteral (hi_startsAt (demo_hold ''other'' on_a 2)) (hi_durationMinutes (demo_hold ''other'' on_a 2)) = Some demo_during"
    using demo_range by (simp add: demo_hold_def)
  from hold_decides [OF I _ _ f(3) _ f(2) _ _ _ this, of "demo_env 5 ''r2''" demo_venue] v f(1) show ?thesis
    by (simp add: demo_env_def held_db_def demo_db_def demo_hold_def demo_reservation_def demo_during_def STORED_OUTCOMES_def)
qed

end
