(* ===== verification/HarnessStats.thy ===== *)
theory HarnessStats
  imports Prelude Complex_Main
begin

text \<open>
  \<open>apps/harness/src/stats.ts\<close>: percentiles, and distributions of samples some of which are only lower bounds. A duration
  is of any linear order: only comparisons are made.
\<close>

section \<open>Sorted lists\<close>

lemma sorted_nth_le_iff: "sorted s \<Longrightarrow> k < length s \<Longrightarrow> s ! k \<le> v \<longleftrightarrow> k < length (filter (\<lambda>x. x \<le> v) s)" for s :: "'v::linorder list"
proof (induction s arbitrary: k)
  case (Cons a s)
  show ?case
  proof (cases "a \<le> v")
    case True
    with Cons show ?thesis by (cases k) auto
  next
    case False
    then have "filter (\<lambda>x. x \<le> v) (a # s) = []" using Cons.prems(1) by (auto simp: filter_empty_conv)
    moreover have "a \<le> (a # s) ! k" using Cons.prems by (cases k) auto
    ultimately show ?thesis using False by auto
  qed
qed simp

lemma sort_nth_le_iff: "k < length xs \<Longrightarrow> sort xs ! k \<le> v \<longleftrightarrow> k < length (filter (\<lambda>x. x \<le> v) xs)" for xs :: "'v::linorder list"
  by (simp add: sorted_nth_le_iff filter_sort)

text \<open>Larger elements make larger order statistics.\<close>

lemma filter_le_mono: "list_all2 (\<lambda>x y. Q y \<longrightarrow> P x) xs ys \<Longrightarrow> length (filter Q ys) \<le> length (filter P xs)"
  by (induction rule: list_all2_induct) auto

lemma sort_nth_mono:
  fixes xs ys :: "'v::linorder list"
  assumes "list_all2 (\<le>) xs ys" and "k < length xs"
  shows "sort xs ! k \<le> sort ys ! k"
proof -
  let ?v = "sort ys ! k"
  have l: "length xs = length ys" using assms(1) by (rule list_all2_lengthD)
  then have "k < length (filter (\<lambda>y. y \<le> ?v) ys)" using sort_nth_le_iff [of k ys ?v] assms(2) by simp
  also have "\<dots> \<le> length (filter (\<lambda>x. x \<le> ?v) xs)" by (rule filter_le_mono, rule list_all2_mono [OF assms(1)]) auto
  finally show ?thesis using sort_nth_le_iff [OF assms(2)] by simp
qed

section \<open>Percentiles\<close>

text \<open>
  \<open>Math.floor((p / 100) * n)\<close> and \<open>n * (1 - p / 100) < 3\<close> in exact arithmetic: for the percentiles the harness asks for,
  50, 95 and 99, rounding changes neither.
\<close>

definition rank :: "nat \<Rightarrow> nat \<Rightarrow> nat" where
  "rank p n = min (n - 1) (p * n div 100)"

record 'v Percentiles =
  pc_count :: nat
  pc_p50 :: 'v
  pc_p95 :: 'v
  pc_p99 :: 'v
  pc_max :: 'v

definition percentiles :: "'v::{linorder,zero} list \<Rightarrow> 'v Percentiles" where
  "percentiles xs = (if xs = [] then \<lparr>pc_count = 0, pc_p50 = 0, pc_p95 = 0, pc_p99 = 0, pc_max = 0\<rparr>
     else let s = sort xs; pick = (\<lambda>p. s ! rank p (length s)) in
       \<lparr>pc_count = length s, pc_p50 = pick 50, pc_p95 = pick 95, pc_p99 = pick 99, pc_max = s ! (length s - 1)\<rparr>)"

section \<open>Distributions of samples that may be lower bounds\<close>

record 'v Sample =
  sm_ms :: 'v
  sm_censored :: bool

record 'v Quantile =
  atLeast :: 'v
  atMost :: "'v option"

record 'v Dist =
  d_count :: nat
  d_censored :: nat
  d_p50 :: "'v Quantile option"
  d_p95 :: "'v Quantile option"
  d_p99 :: "'v Quantile option"
  d_max :: "'v Quantile option"

definition exact :: "'v list \<Rightarrow> 'v Sample list" where
  "exact xs = map (\<lambda>ms. \<lparr>sm_ms = ms, sm_censored = False\<rparr>) xs"

text \<open>A value or \<open>Number.POSITIVE_INFINITY\<close>.\<close>

datatype 'v or_infinite = Finite 'v | Infinite

instantiation or_infinite :: (linorder) linorder
begin

definition less_eq_or_infinite :: "'a or_infinite \<Rightarrow> 'a or_infinite \<Rightarrow> bool" where
  "x \<le> y \<longleftrightarrow> (case y of Infinite \<Rightarrow> True | Finite b \<Rightarrow> (case x of Infinite \<Rightarrow> False | Finite a \<Rightarrow> a \<le> b))"

definition less_or_infinite :: "'a or_infinite \<Rightarrow> 'a or_infinite \<Rightarrow> bool" where
  "x < y \<longleftrightarrow> x \<le> y \<and> \<not> y \<le> (x :: 'a or_infinite)"

instance
  by standard (auto simp: less_eq_or_infinite_def less_or_infinite_def split: or_infinite.splits)

end

lemma or_infinite_le [simp]: "Finite a \<le> Finite b \<longleftrightarrow> a \<le> b" "x \<le> Infinite" "\<not> Infinite \<le> Finite b"
  by (simp_all add: less_eq_or_infinite_def)

definition if_finite :: "'v or_infinite \<Rightarrow> 'v option" where
  "if_finite x = (case x of Infinite \<Rightarrow> None | Finite a \<Rightarrow> Some a)"

definition worst :: "'v Sample \<Rightarrow> 'v or_infinite" where
  "worst x = (if sm_censored x then Infinite else Finite (sm_ms x))"

definition quantile :: "'v::linorder Sample list \<Rightarrow> nat \<Rightarrow> 'v Quantile option" where
  "quantile samples p = (let n = length samples; lower = sort (map sm_ms samples); upper = sort (map worst samples) in
     if n * (100 - p) < 300 then None
     else let k = rank p n in Some \<lparr>atLeast = lower ! k, atMost = if_finite (upper ! k)\<rparr>)"

definition dist :: "'v::linorder Sample list \<Rightarrow> 'v Dist" where
  "dist samples = (let n = length samples; lower = sort (map sm_ms samples); censored = length (filter sm_censored samples) in
     \<lparr>d_count = n, d_censored = censored, d_p50 = quantile samples 50, d_p95 = quantile samples 95, d_p99 = quantile samples 99,
      d_max = (if n = 0 then None else Some \<lparr>atLeast = lower ! (n - 1), atMost = (if censored = 0 then Some (lower ! (n - 1)) else None)\<rparr>)\<rparr>)"

section \<open>What the bounds mean\<close>

text \<open>The true durations a sample may stand for: at least what was measured, and that where nothing was cut short.\<close>

definition completes :: "'v::linorder Sample list \<Rightarrow> 'v list \<Rightarrow> bool" where
  "completes samples xs \<longleftrightarrow> list_all2 (\<lambda>s x. sm_ms s \<le> x \<and> (\<not> sm_censored s \<longrightarrow> x = sm_ms s)) samples xs"

text \<open>The bounds of an order statistic.\<close>

definition order_bounds :: "'v::linorder Sample list \<Rightarrow> nat \<Rightarrow> 'v Quantile" where
  "order_bounds samples k = \<lparr>atLeast = sort (map sm_ms samples) ! k, atMost = if_finite (sort (map worst samples) ! k)\<rparr>"

lemma sort_Finite: "sort (map Finite xs) = map Finite (sort xs)" for xs :: "'v::linorder list"
  by (rule properties_for_sort) (simp_all add: sorted_map)

lemma order_bounds_hold:
  assumes c: "completes samples xs" and k: "k < length samples"
  shows "atLeast (order_bounds samples k) \<le> sort xs ! k" and "atMost (order_bounds samples k) = Some m \<Longrightarrow> sort xs ! k \<le> m"
proof -
  have l: "length xs = length samples" using c by (simp add: completes_def list_all2_lengthD)
  have "list_all2 (\<le>) (map sm_ms samples) xs" using c by (auto simp: completes_def list_all2_map1 elim: list_all2_mono)
  with k show "atLeast (order_bounds samples k) \<le> sort xs ! k" by (simp add: order_bounds_def sort_nth_mono)
  have "list_all2 (\<le>) (map Finite xs) (map worst samples)"
    using c unfolding completes_def list_all2_map1 list_all2_map2 by (subst list_all2_conv_all_nth) (auto simp: list_all2_conv_all_nth worst_def)
  then have u: "map Finite (sort xs) ! k \<le> sort (map worst samples) ! k" using sort_nth_mono [of "map Finite xs" "map worst samples" k] k l by (simp add: sort_Finite)
  assume "atMost (order_bounds samples k) = Some m"
  then have "sort (map worst samples) ! k = Finite m" by (auto simp: order_bounds_def if_finite_def split: or_infinite.splits)
  with u k l show "sort xs ! k \<le> m" by simp
qed

lemma order_bounds_tight:
  assumes k: "k < length samples" and v: "case atMost (order_bounds samples k) of None \<Rightarrow> True | Some m \<Rightarrow> v \<le> m"
  shows "\<exists>xs. completes samples xs \<and> v \<le> sort xs ! k"
proof -
  let ?f = "\<lambda>s. if sm_censored s then max (sm_ms s) v else sm_ms s"
  have c: "completes samples (map ?f samples)" by (auto simp: completes_def list_all2_map2 list.rel_refl intro!: list.rel_refl_strong)
  have "v \<le> sort (map ?f samples) ! k"
  proof (rule ccontr)
    assume n: "\<not> v \<le> sort (map ?f samples) ! k"
    let ?w = "sort (map ?f samples) ! k"
    have "k < length (filter (\<lambda>x. x \<le> ?w) (map ?f samples))" using sort_nth_le_iff [of k "map ?f samples" ?w] k by simp
    also have "\<dots> \<le> length (filter (\<lambda>x. x \<le> Finite ?w) (map worst samples))"
      by (rule filter_le_mono) (use n in \<open>auto simp: list_all2_map1 list_all2_map2 worst_def intro!: list.rel_refl_strong\<close>)
    finally have "sort (map worst samples) ! k \<le> Finite ?w" using sort_nth_le_iff [of k "map worst samples"] k by simp
    then obtain m where "sort (map worst samples) ! k = Finite m" "m \<le> ?w" by (cases "sort (map worst samples) ! k") auto
    with v n show False by (auto simp: order_bounds_def if_finite_def)
  qed
  with c show ?thesis by blast
qed

lemma rank_less: "0 < n \<Longrightarrow> rank p n < n"
  by (auto simp: rank_def min_def)

lemma quantile_bounds: "quantile samples p = Some q \<Longrightarrow> p \<le> 100 \<Longrightarrow> q = order_bounds samples (rank p (length samples)) \<and> rank p (length samples) < length samples"
  using rank_less [of "length samples" p] by (cases "samples = []") (auto simp: quantile_def Let_def order_bounds_def split: if_splits)

lemma last_Infinite:
  assumes "s \<in> set samples" "sm_censored s"
  shows "sort (map worst samples) ! (length samples - 1) = Infinite"
proof -
  let ?s = "sort (map worst samples)"
  have "Infinite \<in> set ?s" using assms by (force simp: worst_def)
  then obtain j where "j < length ?s" "?s ! j = Infinite" unfolding in_set_conv_nth by blast
  moreover from this have "?s ! j \<le> ?s ! (length samples - 1)" by (intro sorted_nth_mono) auto
  ultimately show ?thesis by (cases "?s ! (length samples - 1)") auto
qed

lemma max_bounds: "d_max (dist samples) = Some q \<Longrightarrow> q = order_bounds samples (length samples - 1) \<and> samples \<noteq> []"
proof (cases "filter sm_censored samples")
  case Nil
  then have "map worst samples = map Finite (map sm_ms samples)" by (auto simp: worst_def filter_empty_conv)
  then have "sort (map worst samples) = map Finite (sort (map sm_ms samples))" by (simp only: sort_Finite)
  moreover assume "d_max (dist samples) = Some q"
  ultimately show ?thesis using Nil by (auto simp: dist_def Let_def order_bounds_def if_finite_def split: if_splits)
next
  case (Cons s ss)
  then have "s \<in> set (filter sm_censored samples)" by simp
  then have "s \<in> set samples" "sm_censored s" by simp_all
  from last_Infinite [OF this] Cons show "d_max (dist samples) = Some q \<Longrightarrow> ?thesis"
    by (auto simp: dist_def Let_def order_bounds_def if_finite_def split: if_splits)
qed

text \<open>The order statistics a distribution states, with their positions.\<close>

definition stated :: "'v::linorder Sample list \<Rightarrow> (nat \<times> 'v Quantile option) list" where
  "stated samples = (let d = dist samples; n = length samples in
     [(rank 50 n, d_p50 d), (rank 95 n, d_p95 d), (rank 99 n, d_p99 d), (n - 1, d_max d)])"

text \<open>
  C40: whatever the requests that were cut short would have taken, a percentile of the true durations lies between the bounds
  a distribution states, and no bound can be drawn closer: a lower bound is met when none took longer, and every value up to
  the upper bound, or every value where there is none, is exceeded by some completion.
\<close>

theorem dist_bounds:
  assumes "completes samples xs" and "(k, Some q) \<in> set (stated samples)"
  shows "atLeast q \<le> sort xs ! k \<and> (\<forall>m. atMost q = Some m \<longrightarrow> sort xs ! k \<le> m)
    \<and> atLeast q = sort (map sm_ms samples) ! k \<and> completes samples (map sm_ms samples)
    \<and> (\<forall>v. (case atMost q of None \<Rightarrow> True | Some m \<Rightarrow> v \<le> m) \<longrightarrow> (\<exists>ys. completes samples ys \<and> v \<le> sort ys ! k))"
proof -
  have d: "d_p50 (dist samples) = quantile samples 50" "d_p95 (dist samples) = quantile samples 95" "d_p99 (dist samples) = quantile samples 99"
    by (simp_all add: dist_def Let_def)
  from assms(2) have "(\<exists>p\<le>100. k = rank p (length samples) \<and> quantile samples p = Some q) \<or> k = length samples - 1 \<and> d_max (dist samples) = Some q"
    unfolding stated_def Let_def d by (auto intro: exI [of _ 50] exI [of _ 95] exI [of _ 99])
  then consider p where "p \<le> 100" "k = rank p (length samples)" "quantile samples p = Some q" | "k = length samples - 1" "d_max (dist samples) = Some q"
    by blast
  then have "q = order_bounds samples k \<and> k < length samples"
  proof cases
    case 1
    with quantile_bounds [of samples p q] show ?thesis by simp
  next
    case 2
    with max_bounds [of samples q] show ?thesis by (cases samples) auto
  qed
  moreover have "completes samples (map sm_ms samples)" by (auto simp: completes_def list_all2_map2 intro!: list.rel_refl_strong)
  ultimately show ?thesis using order_bounds_hold [OF assms(1)] order_bounds_tight by (auto simp: order_bounds_def)
qed

definition demo_samples :: "nat Sample list" where
  "demo_samples = map (\<lambda>(m, c). \<lparr>sm_ms = m, sm_censored = c\<rparr>) [(10, False), (40, False), (20, True), (30, False), (50, False), (60, True)]"

theorem dist_bounds_witness:
  "(3, Some \<lparr>atLeast = 40, atMost = Some (50::nat)\<rparr>) \<in> set (stated demo_samples) \<and> (40 :: nat) \<le> sort [10, 40, 700, 30, 50, 80] ! 3 \<and> sort [10, 40, 700, 30, 50, 80] ! 3 \<le> (50 :: nat)"
proof -
  have c: "completes demo_samples [10, 40, 700, 30, 50, 80]" by (simp add: completes_def demo_samples_def)
  have s: "(3, Some \<lparr>atLeast = 40, atMost = Some (50::nat)\<rparr>) \<in> set (stated demo_samples)" by code_simp
  note D = dist_bounds [OF c s]
  have "(40 :: nat) \<le> sort [10, 40, 700, 30, 50, 80] ! 3" "sort [10, 40, 700, 30, 50, 80] ! 3 \<le> (50 :: nat)"
    using conjunct1 [OF D] conjunct1 [OF conjunct2 [OF D]] by (simp_all only: Quantile.simps option.inject simp_thms)
  with s show ?thesis by blast
qed

section \<open>Printing\<close>

text \<open>\<open>Number.prototype.toFixed\<close> of a finite number below \<open>10^21\<close>: the nearest decimal, the larger of two.\<close>

definition toFixed :: "nat \<Rightarrow> rat \<Rightarrow> string" where
  "toFixed f x = (let n = nat \<lfloor>\<bar>x\<bar> * 10 ^ f + 1 / 2\<rfloor>; ds = show_nat n; ds = replicate (f + 1 - length ds) CHR ''0'' @ ds; k = length ds - f in
     (if x < 0 then ''-'' else []) @ (if f = 0 then ds else take k ds @ ''.'' @ drop k ds))"

definition fmt_quantile :: "nat \<Rightarrow> rat Quantile option \<Rightarrow> string" where
  "fmt_quantile digits q = (case q of None \<Rightarrow> ''n/a''
     | Some q \<Rightarrow> (case atMost q of None \<Rightarrow> ''>='' @ toFixed digits (atLeast q)
       | Some m \<Rightarrow> if m = atLeast q then toFixed digits (atLeast q) else toFixed digits (atLeast q) @ ''..'' @ toFixed digits m))"

definition fmt_number :: "nat \<Rightarrow> rat option \<Rightarrow> string" where
  "fmt_number digits q = (case q of None \<Rightarrow> ''n/a'' | Some x \<Rightarrow> toFixed digits x)"

end
