(* ===== verification/HarnessArrivals.thy ===== *)
theory HarnessArrivals
  imports CoreReservation JsDouble "HOL-Library.Word"
begin

text \<open>
  \<open>apps/harness/src/rng.ts\<close>, \<open>schedule.ts\<close> and \<open>workload.ts\<close>: the seeded generator on 32-bit words, the plan of Poisson
  arrivals, the open loop that fires them, and the requests it fires. The plan's times are real numbers, and every operation on
  them rounds to a double (\<open>JsDouble\<close>); \<open>Math.log\<close>, whose value the language leaves to the implementation, is a parameter. The
  times the loop reads and the weights of a blend are exact.
\<close>

unbundle bit_operations_syntax

section \<open>The generator\<close>

text \<open>The state of \<open>rng(seed)\<close> is its \<open>a\<close>.\<close>

type_synonym rng = "32 word"

definition step_constant :: rng where "step_constant = 0x6d2b79f5"

definition scramble :: "32 word \<Rightarrow> 32 word" where
  "scramble a = (let t = (a XOR drop_bit 15 a) * (a OR 1);
     t = t XOR (t + (t XOR drop_bit 7 t) * (t OR 61)) in t XOR drop_bit 14 t)"

definition next_word :: "rng \<Rightarrow> 32 word \<times> rng" where
  "next_word a = (let a' = a + step_constant in (scramble a', a'))"

text \<open>Uniform in \<open>[0, 1)\<close>; a quotient by \<open>2^32\<close> is exact.\<close>

definition rng_next :: "rng \<Rightarrow> rat \<times> rng" where
  "rng_next a = (let (w, a') = next_word a in (of_nat (unat w) / 4294967296, a'))"

text \<open>\<open>Math.floor(next() * n)\<close>: below \<open>2^21\<close> the product is exact.\<close>

definition rng_int :: "nat \<Rightarrow> rng \<Rightarrow> nat \<times> rng" where
  "rng_int n a = (let (w, a') = next_word a in (unat w * n div 4294967296, a'))"

definition rng_pick :: "'a list \<Rightarrow> rng \<Rightarrow> string + 'a \<times> rng" where
  "rng_pick xs a = (if xs = [] then Inl ''pick from an empty list'' else let (k, a') = rng_int (length xs) a in Inr (xs ! k, a'))"

text \<open>What the language says of \<open>Math.log\<close>: an approximation of the logarithm. Half of its value is close enough here.\<close>

definition approximates_ln :: "(real \<Rightarrow> real) \<Rightarrow> bool" where
  "approximates_ln mlog \<longleftrightarrow> (\<forall>x. 0 < x \<longrightarrow> x \<le> 1 \<longrightarrow> \<bar>mlog x - ln x\<bar> \<le> \<bar>ln x\<bar> / 2)"

text \<open>The difference from 1 is exact; the quotient and the product are rounded.\<close>

definition expMs :: "(real \<Rightarrow> real) \<Rightarrow> real \<Rightarrow> rng \<Rightarrow> real \<times> rng" where
  "expMs mlog ratePerSec a = (let (x, a') = rng_next a in (double_of (double_of (- mlog (1 - of_rat x) / ratePerSec) * 1000), a'))"

lemma next_bounds: "rng_next a = (x, a') \<Longrightarrow> 0 \<le> x \<and> x < 1 \<and> a' = a + step_constant"
proof -
  have "unat (scramble (a + step_constant)) < 4294967296" using unsigned_less [of "scramble (a + step_constant)", where 'a = nat] by simp
  then have "(of_nat (unat (scramble (a + step_constant))) :: rat) < of_nat 4294967296" by (simp only: of_nat_less_iff)
  moreover have "(0 :: rat) \<le> of_nat (unat (scramble (a + step_constant)))" by (rule of_nat_0_le_iff)
  ultimately show "rng_next a = (x, a') \<Longrightarrow> ?thesis"
    unfolding rng_next_def next_word_def Let_def prod.case prod.inject by (auto simp del: of_nat_unat)
qed

lemma rng_int_less: "0 < n \<Longrightarrow> fst (rng_int n a) < n"
proof -
  assume "0 < n"
  moreover have "unat (scramble (a + step_constant)) < 4294967296" using unsigned_less [of "scramble (a + step_constant)", where 'a = nat] by simp
  ultimately show ?thesis by (simp add: rng_int_def next_word_def Let_def div_less_iff_less_mult)
qed

lemma rng_pick_in: "rng_pick xs a = Inr (x, a') \<Longrightarrow> x \<in> set xs"
  using rng_int_less [of "length xs" a] by (auto simp: rng_pick_def split: if_splits prod.splits)

lemma mlog_bound: "approximates_ln mlog \<Longrightarrow> 0 < x \<Longrightarrow> x \<le> 1 \<Longrightarrow> - ln x / 2 \<le> - mlog x"
proof -
  assume "approximates_ln mlog" "0 < x" "x \<le> 1"
  then have "\<bar>mlog x - ln x\<bar> \<le> \<bar>ln x\<bar> / 2" "ln x \<le> 0" by (simp_all add: approximates_ln_def ln_le_zero_iff)
  then show ?thesis by linarith
qed

lemma gap_nonneg: "approximates_ln mlog \<Longrightarrow> expMs mlog rate a = (g, a') \<Longrightarrow> 0 < rate \<Longrightarrow> 0 \<le> g \<and> a' = a + step_constant"
proof -
  assume l: "approximates_ln mlog" and e: "expMs mlog rate a = (g, a')" and r: "0 < rate"
  obtain x b where n: "rng_next a = (x, b)" by fastforce
  have x: "0 \<le> x" "x < 1" "b = a + step_constant" using next_bounds [OF n] by simp_all
  then have "0 \<le> - ln (1 - real_of_rat x) / 2" by (simp add: ln_le_zero_iff)
  also have "\<dots> \<le> - mlog (1 - real_of_rat x)" by (rule mlog_bound [OF l]) (use x in simp_all)
  finally have "0 \<le> - mlog (1 - real_of_rat x) / rate" using r by (rule divide_nonneg_pos)
  then have "0 \<le> double_of (double_of (- mlog (1 - real_of_rat x) / rate) * 1000)" by (intro double_of_nonneg mult_nonneg_nonneg) simp_all
  with e n x(3) show ?thesis by (auto simp: expMs_def Let_def)
qed

text \<open>Every state comes within \<open>2^32\<close> draws: the constant is odd, so it has an inverse. Some state draws more than 0.\<close>

lemma state_comes: "\<exists>k. b = a + of_nat (Suc k) * step_constant"
proof -
  let ?w = "(b - a) * 3696798301 :: 32 word"
  have inv: "3696798301 * step_constant = (1 :: 32 word)" by (simp add: step_constant_def)
  have "of_nat (Suc (unat (?w - 1))) = ?w" by simp
  then have "a + of_nat (Suc (unat (?w - 1))) * step_constant = a + (b - a) * (3696798301 * step_constant)" by (simp only: mult.assoc)
  then show ?thesis unfolding inv by (intro exI [of _ "unat (?w - 1)"]) simp
qed

definition awake :: rng where "awake = 0x80000000 - step_constant"

lemma double_half:
  assumes "2 powi - 1074 \<le> x"
  shows "min (2 ^ 1024) (x / 2) \<le> double_of (x :: real)"
proof -
  have "0 < x" using assms pow2_pos [of "- 1074"] by (rule less_le_trans [rotated])
  define m where "m = max (2 powi - 1074) (x / 2 ^ 52)"
  have "m \<le> x" using assms \<open>0 < x\<close> by (simp add: m_def)
  then have "x / 2 \<le> x - m / 2" by linarith
  then have "min (2 ^ 1024) (x / 2) \<le> min (2 ^ 1024) (x - m / 2)" by (intro min.mono order_refl)
  also have "\<dots> \<le> double_of x" unfolding m_def by (rule double_error) fact
  finally show ?thesis .
qed

text \<open>The least gap of that state.\<close>

definition least_gap :: "real \<Rightarrow> real" where
  "least_gap rate = min (2 ^ 1023) (60 / rate)"

lemma tiny: "(2 :: real) powi - 1074 \<le> 2 powi - 100"
  by (rule power_int_increasing) simp_all

lemma awake_gap:
  assumes l: "approximates_ln mlog" and r: "0 < rate" "rate \<le> 2 ^ 50"
  shows "least_gap rate \<le> fst (expMs mlog rate awake)"
proof -
  have "scramble 0x80000000 = 3208480509" by code_simp
  then have n: "rng_next awake = (3208480509 / 4294967296, 0x80000000)" by (simp add: rng_next_def next_word_def awake_def Let_def)
  let ?x = "1 - real_of_rat (3208480509 / 4294967296)"
  have x: "?x = 1086486787 / 4294967296" by (simp add: of_rat_divide)
  have "ln ?x \<le> ln (1 / 2)" unfolding x by (subst ln_le_cancel_iff) simp_all
  also have "\<dots> \<le> - 1 / 2" using ln_le_minus_one [of "1 / 2 :: real"] by simp
  finally have "1 / 4 \<le> - ln ?x / 2" by simp
  also have "\<dots> \<le> - mlog ?x" by (rule mlog_bound [OF l]) (simp_all add: x)
  finally have c: "1 / 4 \<le> - mlog ?x" .
  let ?q = "- mlog ?x / rate"
  have q: "1 / (4 * rate) \<le> ?q" using c r(1) by (simp add: field_simps)
  have big: "1 / 2 ^ 50 \<le> 1 / rate" using r by (simp add: frac_le)
  have "(2 :: real) powi - 100 \<le> 1 / (4 * rate)" using big by (simp add: power_int_minus field_simps)
  then have "2 powi - 1074 \<le> ?q" using tiny q by linarith
  from double_half [OF this] have "min (2 ^ 1024) (?q / 2) * 1000 \<le> double_of ?q * 1000" by simp
  moreover have "min (2 ^ 1024) (125 / rate) \<le> min (2 ^ 1024) (?q / 2) * 1000" using q by (simp add: min_def field_simps)
  ultimately have y: "min (2 ^ 1024) (125 / rate) \<le> double_of ?q * 1000" by linarith
  moreover have "2 powi - 1074 \<le> min (2 ^ 1024 :: real) (125 / rate)" using tiny big by (simp add: power_int_minus field_simps)
  ultimately have "min (2 ^ 1024) (double_of ?q * 1000 / 2) \<le> double_of (double_of ?q * 1000)" by (intro double_half) linarith
  moreover have "least_gap rate \<le> min (2 ^ 1024) (double_of ?q * 1000 / 2)"
  proof -
    define w z where "w = 125 / rate" and "z = double_of ?q * 1000"
    have "60 / rate \<le> w / 2" using r(1) by (simp add: w_def field_simps)
    then have "least_gap rate \<le> min (2 ^ 1023) (w / 2)" unfolding least_gap_def by (rule min.mono [OF order_refl])
    also have "\<dots> = min (2 ^ 1024) w / 2" by (simp add: min_def)
    also have "\<dots> \<le> min (2 ^ 1024) (z / 2)" using y by (simp add: w_def z_def)
    finally show ?thesis by (simp only: z_def)
  qed
  ultimately have "least_gap rate \<le> double_of (double_of ?q * 1000)" by (rule order_trans [rotated])
  then show ?thesis by (simp add: expMs_def n)
qed

text \<open>
  Added to a time of the plan, such a gap is not lost to rounding: the time is at most \<open>2 ^ 50\<close> times a hundredth of the gap. A
  smaller one may be, but it takes nothing back.
\<close>

lemma time_passes:
  assumes g: "0 \<le> g" and t: "is_double t" "0 \<le> t"
  shows "t \<le> double_of (t + g) \<and> is_double (double_of (t + g)) \<and> 0 \<le> double_of (t + g)"
proof (intro conjI)
  show p: "t \<le> double_of (t + g)" by (rule double_ge [OF t]) (use g in simp)
  with t(2) show "0 \<le> double_of (t + g)" by linarith
  show "is_double (double_of (t + g))" by (rule is_double_double_of) (use g t(2) in simp)
qed

lemma time_advances:
  assumes r: "0 < rate" "rate \<le> 2 ^ 50" and g: "least_gap rate \<le> g" and t: "0 \<le> t" "t \<le> h" "rate * h \<le> 2 ^ 50" "h \<le> 2 ^ 1000"
  shows "min (2 ^ 1024) (t + least_gap rate / 2) \<le> double_of (t + g)"
proof -
  let ?l = "least_gap rate"
  have big: "1 / 2 ^ 50 \<le> 1 / rate" using r by (simp add: frac_le)
  then have l0: "2 powi - 100 \<le> ?l" by (simp add: least_gap_def power_int_minus field_simps)
  have "h \<le> 2 ^ 50 / rate" using t(3) r(1) by (simp add: field_simps)
  define q where "q = 1 / rate"
  from \<open>h \<le> 2 ^ 50 / rate\<close> have "t \<le> 2 ^ 50 * q" using t(2) by (simp add: q_def)
  moreover have "t \<le> 2 ^ 1000" using t(2,4) by linarith
  moreover have "(2 :: real) ^ 1000 \<le> 2 ^ 53 * (2 ^ 1023 / 8)" by simp
  moreover have "?l = 2 ^ 1023 \<or> ?l = 60 * q" by (simp add: least_gap_def min_def q_def)
  moreover have "0 \<le> q" using r(1) by (simp add: q_def)
  ultimately have "t \<le> 2 ^ 53 * (?l / 8)" by (elim disjE) simp_all
  then have small: "t / 2 ^ 53 \<le> ?l / 8" by simp
  have pos: "0 < t + g" "0 < g" using t(1) g l0 pow2_pos [where 'a = real and k = "- 100"] by linarith+
  define m where "m = max (2 powi - 1074) ((t + g) / 2 ^ 52)"
  have "m / 2 \<le> ?l / 4 + g / 4"
  proof (cases "(2 :: real) powi - 1074 \<le> (t + g) / 2 ^ 52")
    case True
    then have "m = (t + g) / 2 ^ 52" by (simp add: m_def)
    moreover have "0 < ?l" using l0 pow2_pos [where 'a = real and k = "- 100"] by linarith
    ultimately show ?thesis using small pos(2) by (simp add: add_divide_distrib)
  next
    case False
    then have "m = 2 powi - 1074" by (simp add: m_def)
    then have "m \<le> ?l" using tiny l0 by (simp only: order_trans)
    then show ?thesis using pos(2) g by linarith
  qed
  then have "t + ?l / 2 \<le> t + g - m / 2" using g by linarith
  then have "min (2 ^ 1024) (t + ?l / 2) \<le> min (2 ^ 1024) (t + g - m / 2)" by (intro min.mono order_refl)
  also have "\<dots> \<le> double_of (t + g)" unfolding m_def by (rule double_error [OF pos(1)])
  finally show ?thesis .
qed

section \<open>The arrival plan\<close>

record 'n Step =
  st_ratePerSec :: 'n
  st_seconds :: 'n

record 'n Arrival =
  ar_seq :: nat
  ar_step :: nat
  ar_atMs :: 'n

text \<open>The inner loop from one arrival time on, with the next number and the generator it leaves. It may draw gaps of 0.\<close>

partial_function (option) arrivals_from :: "(real \<Rightarrow> real) \<Rightarrow> real \<Rightarrow> real \<Rightarrow> nat \<Rightarrow> real \<Rightarrow> nat \<Rightarrow> rng \<Rightarrow> (real Arrival list \<times> nat \<times> rng) option" where
  "arrivals_from mlog rate stop step t seq r = (if \<not> t < stop then Some ([], seq, r)
     else let (gap, r') = expMs mlog rate r in
       Option.bind (arrivals_from mlog rate stop step (double_of (t + gap)) (seq + 1) r') (\<lambda>(out', seq', r'').
         Some (\<lparr>ar_seq = seq, ar_step = step, ar_atMs = t\<rparr> # out', seq', r'')))"

definition step_end :: "real \<Rightarrow> real Step \<Rightarrow> real" where
  "step_end stepStart s = double_of (stepStart + double_of (st_seconds s * 1000))"

fun plan_from :: "(real \<Rightarrow> real) \<Rightarrow> real Step list \<Rightarrow> nat \<Rightarrow> real \<Rightarrow> nat \<Rightarrow> rng \<Rightarrow> real Arrival list option" where
  "plan_from mlog [] step stepStart seq r = Some []"
| "plan_from mlog (s # steps) step stepStart seq r = (let stop = step_end stepStart s in
     Option.bind (if 0 < st_ratePerSec s
         then let (gap, r') = expMs mlog (st_ratePerSec s) r in arrivals_from mlog (st_ratePerSec s) stop step (double_of (stepStart + gap)) seq r'
         else Some ([], seq, r)) (\<lambda>(out', seq', r').
       map_option (\<lambda>rest. out' @ rest) (plan_from mlog steps (step + 1) stop seq' r')))"

definition planArrivals :: "(real \<Rightarrow> real) \<Rightarrow> real Step list \<Rightarrow> rng \<Rightarrow> real Arrival list option" where
  "planArrivals mlog steps r = plan_from mlog steps 0 0 0 r"

text \<open>The loop ends: in every \<open>2^32\<close> draws one gap is at least the least of the state \<open>awake\<close>, which moves the time on by half of it.\<close>

lemma arrivals_end:
  assumes l: "approximates_ln mlog" and r: "0 < rate" "rate \<le> 2 ^ 50" and h: "stop \<le> h" "rate * h \<le> 2 ^ 50" "h \<le> 2 ^ 1000"
  shows "stop - t \<le> of_nat m * (least_gap rate / 2) \<Longrightarrow> is_double t \<Longrightarrow> 0 \<le> t \<Longrightarrow> \<exists>x. arrivals_from mlog rate stop step t seq r0 = Some x"
proof (induction m arbitrary: t seq r0)
  case 0
  then show ?case by (subst arrivals_from.simps) simp
next
  case (Suc m)
  let ?g = "least_gap rate / 2"
  have g0: "0 \<le> ?g" using r(1) by (simp add: least_gap_def)
  have over: "\<exists>x. arrivals_from mlog rate stop step t seq r0 = Some x" if "\<not> t < stop" for t seq r0 using that by (subst arrivals_from.simps) simp
  have "\<exists>x. arrivals_from mlog rate stop step t seq r0 = Some x"
    if "awake = r0 + of_nat k * step_constant" "stop - t \<le> of_nat (Suc m) * ?g" "is_double t" "0 \<le> t" for k t seq r0
    using that
  proof (induction k arbitrary: t seq r0)
    case 0
    then have a: "r0 = awake" by simp
    obtain g r' where e: "expMs mlog rate awake = (g, r')" by fastforce
    show ?case
    proof (cases "t < stop")
      case True
      have lg: "least_gap rate \<le> g" using awake_gap [OF l r] e by simp
      have p: "t \<le> double_of (t + g)" "is_double (double_of (t + g))" "0 \<le> double_of (t + g)"
        using time_passes [OF _ 0(3,4), of g] gap_nonneg [OF l e r(1)] by blast+
      have "t \<le> h" using True h(1) by linarith
      from time_advances [OF r lg 0(4) this h(2,3)] have "min (2 ^ 1024) (t + ?g) \<le> double_of (t + g)" .
      moreover have "(2 :: real) ^ 1000 \<le> 2 ^ 1024" by simp
      then have "stop \<le> 2 ^ 1024" using h(1,3) by linarith
      moreover have "stop - t \<le> of_nat m * ?g + ?g" using 0(2) by (simp add: algebra_simps)
      moreover have "0 \<le> of_nat m * ?g" using g0 by simp
      ultimately have "stop - double_of (t + g) \<le> of_nat m * ?g" by (auto simp: min_def split: if_splits)
      from Suc.IH [OF this p(2,3)] obtain x where "arrivals_from mlog rate stop step (double_of (t + g)) (seq + 1) r' = Some x" by blast
      then show ?thesis by (subst arrivals_from.simps) (auto simp: a e split: prod.split)
    qed (rule over)
  next
    case (Suc k)
    obtain g r' where e: "expMs mlog rate r0 = (g, r')" by fastforce
    with gap_nonneg [OF l e r(1)] have g: "0 \<le> g" "r' = r0 + step_constant" by auto
    from Suc.prems(1) have "awake = r' + of_nat k * step_constant" by (simp add: g(2) algebra_simps)
    moreover note time_passes [OF g(1) Suc.prems(3,4)]
    moreover from this have "stop - double_of (t + g) \<le> of_nat (Suc m) * ?g" using Suc.prems(2) by linarith
    ultimately obtain x where "arrivals_from mlog rate stop step (double_of (t + g)) (seq + 1) r' = Some x" using Suc.IH by blast
    then show ?case by (subst arrivals_from.simps) (auto simp: e split: prod.split)
  qed
  with state_comes [of awake r0] Suc.prems show ?case by blast
qed

lemma arrivals_return:
  assumes "approximates_ln mlog" and "0 < rate" "rate \<le> 2 ^ 50" and "stop \<le> h" "rate * h \<le> 2 ^ 50" "h \<le> 2 ^ 1000" and "is_double t" "0 \<le> t"
  shows "\<exists>x. arrivals_from mlog rate stop step t seq r = Some x"
proof -
  have g: "0 < least_gap rate / 2" using assms(2) by (simp add: least_gap_def)
  obtain m :: nat where "(stop - t) / (least_gap rate / 2) \<le> of_nat m" using real_arch_simple by blast
  then have "stop - t \<le> of_nat m * (least_gap rate / 2)" using g by (simp only: pos_divide_le_eq)
  then show ?thesis by (rule arrivals_end [OF assms(1-6) _ assms(7,8)])
qed

text \<open>What it draws.\<close>

definition in_window :: "nat \<Rightarrow> real \<Rightarrow> real \<Rightarrow> real Arrival \<Rightarrow> bool" where
  "in_window step from stop a \<longleftrightarrow> ar_step a = step \<and> from \<le> ar_atMs a \<and> ar_atMs a < stop"

definition drawn :: "(real \<Rightarrow> real) \<Rightarrow> real \<Rightarrow> real \<Rightarrow> nat \<Rightarrow> real \<Rightarrow> nat \<Rightarrow> rng \<Rightarrow> real Arrival list \<times> nat \<times> rng \<Rightarrow> bool" where
  "drawn mlog rate stop step t seq r x \<longleftrightarrow> (case x of (out', seq', r') \<Rightarrow> approximates_ln mlog \<longrightarrow> 0 < rate \<longrightarrow> is_double t \<longrightarrow> 0 \<le> t
     \<longrightarrow> map ar_seq out' = [seq..<seq'] \<and> seq \<le> seq' \<and> list_all (in_window step t stop) out' \<and> sorted (map ar_atMs out'))"

lemma arrivals_drawn: "arrivals_from mlog rate stop step t seq r = Some x \<Longrightarrow> drawn mlog rate stop step t seq r x"
proof (rule arrivals_from.raw_induct [where P = drawn])
  fix rec' mlog rate stop step t seq r x
  assume IH: "\<And>mlog rate stop step t seq r y. rec' mlog rate stop step t seq r = Some y \<Longrightarrow> drawn mlog rate stop step t seq r y"
    and x: "(if \<not> t < stop then Some ([], seq, r) else let (gap, r') = expMs mlog rate r in rec' mlog rate stop step (double_of (t + gap)) (seq + 1) r' \<bind>
      (\<lambda>(out', seq', r''). Some (\<lparr>ar_seq = seq, ar_step = step, ar_atMs = t\<rparr> # out', seq', r''))) = Some x"
  show "drawn mlog rate stop step t seq r x"
  proof (cases "t < stop")
    case True
    obtain g r1 where e: "expMs mlog rate r = (g, r1)" by fastforce
    from x True e obtain out1 seq1 r2 where rec: "rec' mlog rate stop step (double_of (t + g)) (seq + 1) r1 = Some (out1, seq1, r2)"
      "x = (\<lparr>ar_seq = seq, ar_step = step, ar_atMs = t\<rparr> # out1, seq1, r2)" by (auto simp: bind_eq_Some_conv)
    note I = IH [OF rec(1)]
    show ?thesis unfolding drawn_def rec(2) prod.case
    proof (intro impI)
      assume a: "approximates_ln mlog" "0 < rate" "is_double t" "0 \<le> t"
      note p = time_passes [OF _ a(3,4), of g] gap_nonneg [OF a(1) e a(2)]
      then have d: "t \<le> double_of (t + g)" "is_double (double_of (t + g))" "0 \<le> double_of (t + g)" by blast+
      with I a have J: "map ar_seq out1 = [seq + 1..<seq1]" "seq + 1 \<le> seq1" "list_all (in_window step (double_of (t + g)) stop) out1" "sorted (map ar_atMs out1)"
        by (simp_all add: drawn_def)
      have "list_all (in_window step t stop) out1 \<and> (\<forall>a\<in>set out1. t \<le> ar_atMs a)"
        using J(3) d(1) unfolding list_all_iff in_window_def by (meson order_trans)
      with J(1,2,4) True show "map ar_seq (\<lparr>ar_seq = seq, ar_step = step, ar_atMs = t\<rparr> # out1) = [seq..<seq1] \<and> seq \<le> seq1
          \<and> list_all (in_window step t stop) (\<lparr>ar_seq = seq, ar_step = step, ar_atMs = t\<rparr> # out1)
          \<and> sorted (map ar_atMs (\<lparr>ar_seq = seq, ar_step = step, ar_atMs = t\<rparr> # out1))"
        by (auto simp: in_window_def upt_conv_Cons)
    qed
  qed (use x in \<open>auto simp: drawn_def\<close>)
qed

text \<open>Where the window of a step begins, from the start of the first.\<close>

fun window_start :: "real \<Rightarrow> real Step list \<Rightarrow> nat \<Rightarrow> real" where
  "window_start from (s # steps) (Suc k) = window_start (step_end from s) steps k"
| "window_start from steps k = from"

definition planned_in :: "real \<Rightarrow> real Step list \<Rightarrow> nat \<Rightarrow> real Arrival \<Rightarrow> bool" where
  "planned_in from steps step a \<longleftrightarrow> (\<exists>k<length steps. ar_step a = step + k \<and> 0 < st_ratePerSec (steps ! k)
     \<and> window_start from steps k \<le> ar_atMs a \<and> ar_atMs a < window_start from steps (Suc k))"

text \<open>Rates and a length of the plan for which no gap that has to count is lost to rounding.\<close>

definition plan_fits :: "real Step list \<Rightarrow> bool" where
  "plan_fits steps \<longleftrightarrow> (\<forall>s\<in>set steps. 0 \<le> st_seconds s \<and> st_ratePerSec s \<le> 2 ^ 50 \<and> st_ratePerSec s * window_start 0 steps (length steps) \<le> 2 ^ 50)
     \<and> window_start 0 steps (length steps) \<le> 2 ^ 1000"

lemma step_end_later: "is_double from \<Longrightarrow> 0 \<le> from \<Longrightarrow> 0 \<le> st_seconds s \<Longrightarrow> from \<le> step_end from s \<and> is_double (step_end from s) \<and> 0 \<le> step_end from s"
  unfolding step_end_def by (rule time_passes) (simp_all add: double_of_nonneg)

lemma window_grows:
  "is_double from \<Longrightarrow> 0 \<le> from \<Longrightarrow> \<forall>s\<in>set steps. 0 \<le> st_seconds s \<Longrightarrow> from \<le> window_start from steps (length steps)"
proof (induction steps arbitrary: "from")
  case (Cons s steps)
  then have e: "from \<le> step_end from s" "is_double (step_end from s)" "0 \<le> step_end from s" using step_end_later [of "from" s] by simp_all
  with Cons.IH [of "step_end from s"] Cons.prems(3) show ?case by simp
qed simp

lemma plan_from_exact:
  assumes l: "approximates_ln mlog" and h: "h \<le> 2 ^ 1000"
  shows "is_double from \<Longrightarrow> 0 \<le> from \<Longrightarrow> \<forall>s\<in>set steps. 0 \<le> st_seconds s \<and> st_ratePerSec s \<le> 2 ^ 50 \<and> st_ratePerSec s * h \<le> 2 ^ 50
    \<Longrightarrow> window_start from steps (length steps) \<le> h
    \<Longrightarrow> \<exists>out'. plan_from mlog steps step from seq r = Some out' \<and> map ar_seq out' = [seq..<seq + length out'] \<and> sorted (map ar_atMs out')
      \<and> (\<forall>a\<in>set out'. from \<le> ar_atMs a \<and> planned_in from steps step a)"
proof (induction steps arbitrary: step "from" seq r)
  case (Cons s steps)
  let ?stop = "step_end from s"
  have e: "from \<le> ?stop" "is_double ?stop" "0 \<le> ?stop" using step_end_later [of "from" s] Cons.prems by simp_all
  have "?stop \<le> h" using window_grows [OF e(2,3), of steps] Cons.prems(3,4) by simp
  note b = this
  obtain out1 seq1 r1 where one: "(if 0 < st_ratePerSec s then let (gap, r') = expMs mlog (st_ratePerSec s) r in arrivals_from mlog (st_ratePerSec s) ?stop step (double_of (from + gap)) seq r'
      else Some ([], seq, r)) = Some (out1, seq1, r1)"
    and d: "map ar_seq out1 = [seq..<seq1]" "seq \<le> seq1" "sorted (map ar_atMs out1)" "list_all (in_window step from ?stop) out1"
    and p: "0 < st_ratePerSec s \<or> out1 = []"
  proof (cases "0 < st_ratePerSec s")
    case True
    obtain gap r' where g: "expMs mlog (st_ratePerSec s) r = (gap, r')" by fastforce
    have t: "from \<le> double_of (from + gap)" "is_double (double_of (from + gap))" "0 \<le> double_of (from + gap)"
      using time_passes [OF _ Cons.prems(1,2), of gap] gap_nonneg [OF l g True] by blast+
    have r: "st_ratePerSec s \<le> 2 ^ 50" "st_ratePerSec s * h \<le> 2 ^ 50" using Cons.prems(3) by simp_all
    from arrivals_return [OF l True r(1) b r(2) h t(2,3), of step seq r'] obtain out1 seq1 r1 where
      a: "arrivals_from mlog (st_ratePerSec s) ?stop step (double_of (from + gap)) seq r' = Some (out1, seq1, r1)" by (metis surj_pair)
    with arrivals_drawn [OF a] True l t have "map ar_seq out1 = [seq..<seq1]" "seq \<le> seq1" "sorted (map ar_atMs out1)"
      "list_all (in_window step (double_of (from + gap)) ?stop) out1" by (simp_all add: drawn_def)
    moreover from this(4) t(1) have "list_all (in_window step from ?stop) out1" unfolding list_all_iff in_window_def by (meson order_trans)
    ultimately show thesis using that True a g by simp
  qed (use that in simp)
  from Cons.IH [OF e(2,3), of "step + 1" seq1 r1] Cons.prems(3,4) obtain out2 where two: "plan_from mlog steps (step + 1) ?stop seq1 r1 = Some out2"
    "map ar_seq out2 = [seq1..<seq1 + length out2]" "sorted (map ar_atMs out2)" "\<forall>a\<in>set out2. ?stop \<le> ar_atMs a \<and> planned_in ?stop steps (step + 1) a" by auto
  have len: "seq1 = seq + length out1" using arg_cong [OF d(1), of length] d(2) by simp
  have "plan_from mlog (s # steps) step from seq r = Some (out1 @ out2)" using one two(1) by (simp add: Let_def)
  moreover have "map ar_seq (out1 @ out2) = [seq..<seq + length (out1 @ out2)]"
    using d(1) two(2) upt_add_eq_append [of seq "seq + length out1" "length out2"] by (simp add: len add.assoc)
  moreover have "sorted (map ar_atMs (out1 @ out2))"
    using d(3,4) two(3,4) by (force simp: sorted_append list_all_iff in_window_def)
  moreover have "planned_in from (s # steps) step a \<and> from \<le> ar_atMs a" if "a \<in> set (out1 @ out2)" for a
  proof (cases "a \<in> set out1")
    case True
    with d(4) have "in_window step from ?stop a" by (simp add: list_all_iff)
    with True p show ?thesis by (auto simp: in_window_def planned_in_def intro!: exI [of _ 0])
  next
    case False
    with that two(4) have a: "?stop \<le> ar_atMs a" "planned_in ?stop steps (step + 1) a" by auto
    then obtain k where "k < length steps" "ar_step a = step + 1 + k" "0 < st_ratePerSec (steps ! k)"
      "window_start ?stop steps k \<le> ar_atMs a" "ar_atMs a < window_start ?stop steps (Suc k)" unfolding planned_in_def by blast
    then have "planned_in from (s # steps) step a" unfolding planned_in_def by (intro exI [of _ "Suc k"]) simp
    with a(1) e(1) show ?thesis by auto
  qed
  ultimately show ?case by blast
qed simp

text \<open>
  C34: for steps of up to \<open>2 ^ 50\<close> arrivals per second, whose rate times the plan's length in milliseconds is no more than that either,
  the plan is drawn in finitely many steps, rounding and all: the generator passes through all its states, so the gaps cannot stay
  0 or too small to move the time on. Its arrivals are numbered in order, never go back in time, and each lies in the window of its
  step, which has a rate.
\<close>

theorem planArrivals_returns:
  assumes "approximates_ln mlog" and "plan_fits steps"
  shows "\<exists>plan. planArrivals mlog steps r = Some plan \<and> map ar_seq plan = [0..<length plan] \<and> sorted (map ar_atMs plan) \<and> (\<forall>a\<in>set plan. planned_in 0 steps 0 a)"
  using plan_from_exact [OF assms(1), of "window_start 0 steps (length steps)" 0 steps 0 0 r] assms(2) by (auto simp: planArrivals_def plan_fits_def)

lemma double_int: "0 \<le> n \<Longrightarrow> n \<le> 2 ^ 53 \<Longrightarrow> double_of (real_of_int n) = real_of_int n"
  by (rule double_exact) (simp_all add: is_double_int)

lemma ln_approximates: "approximates_ln ln"
  by (simp add: approximates_ln_def)

theorem planArrivals_returns_witness:
  "\<exists>plan. planArrivals ln [\<lparr>st_ratePerSec = 50, st_seconds = 600\<rparr>, \<lparr>st_ratePerSec = 0, st_seconds = 1\<rparr>] 1 = Some plan \<and> (\<forall>a\<in>set plan. ar_step a = 0 \<and> ar_atMs a < 600000)"
proof -
  let ?steps = "[\<lparr>st_ratePerSec = 50, st_seconds = 600\<rparr>, \<lparr>st_ratePerSec = 0, st_seconds = 1\<rparr>] :: real Step list"
  have d: "double_of 600000 = (600000 :: real)" "double_of 1000 = (1000 :: real)" "double_of 601000 = (601000 :: real)"
    using double_int [of 600000] double_int [of 1000] double_int [of 601000] by simp_all
  then have w: "window_start 0 ?steps (Suc 0) = 600000" "window_start 0 ?steps (Suc (Suc 0)) = 601000" by (simp_all add: step_end_def)
  then have "plan_fits ?steps" by (simp add: plan_fits_def)
  from planArrivals_returns [OF ln_approximates this, of 1] obtain plan where p: "planArrivals ln ?steps 1 = Some plan" "\<forall>a\<in>set plan. planned_in 0 ?steps 0 a" by auto
  have "ar_step a = 0 \<and> ar_atMs a < 600000" if "planned_in 0 ?steps 0 a" for a
    using that w by (auto simp: planned_in_def less_Suc_eq)
  with p show ?thesis by blast
qed

section \<open>The open loop\<close>

text \<open>
  What the loop reads of the world at the \<open>k\<close>-th arrival: \<open>stopped\<close> before and after the wait, the clock before it and
  after it. A sleep does not return early.
\<close>

record loop_world =
  lw_stopped_before :: "nat \<Rightarrow> bool"
  lw_now :: "nat \<Rightarrow> real"
  lw_stopped_after :: "nat \<Rightarrow> bool"
  lw_woken :: "nat \<Rightarrow> real"

fun open_loop :: "loop_world \<Rightarrow> real \<Rightarrow> nat \<Rightarrow> real Arrival list \<Rightarrow> (real Arrival \<times> real) list" where
  "open_loop w startedAt k [] = []"
| "open_loop w startedAt k (a # as) = (if lw_stopped_before w k \<or> lw_stopped_after w k then []
     else (a, max 0 (lw_woken w k - (startedAt + ar_atMs a))) # open_loop w startedAt (k + 1) as)"

definition runOpenLoop :: "loop_world \<Rightarrow> real \<Rightarrow> real Arrival list \<Rightarrow> (real Arrival \<times> real) list \<times> nat" where
  "runOpenLoop w startedAt arrivals = (let fired = open_loop w startedAt 0 arrivals in (fired, length fired))"

definition sleeps :: "loop_world \<Rightarrow> real \<Rightarrow> real Arrival list \<Rightarrow> bool" where
  "sleeps w startedAt arrivals \<longleftrightarrow> (\<forall>k<length arrivals. let wait = startedAt + ar_atMs (arrivals ! k) - lw_now w k in
     if 1 < wait then lw_now w k + wait \<le> lw_woken w k else lw_now w k \<le> lw_woken w k)"

lemma open_loop_prefix: "map fst (open_loop w startedAt k as) = take (length (open_loop w startedAt k as)) as"
  by (induction as arbitrary: k) auto

lemma open_loop_never_early:
  assumes "sleeps w startedAt arrivals" and "(a, late) \<in> set (open_loop w startedAt 0 arrivals)"
  shows "\<exists>k<length arrivals. arrivals ! k = a \<and> startedAt + ar_atMs a - 1 \<le> lw_woken w k \<and> late = max 0 (lw_woken w k - (startedAt + ar_atMs a))"
proof -
  have "\<exists>j<length as. as ! j = a \<and> late = max 0 (lw_woken w (k + j) - (startedAt + ar_atMs a))" if "(a, late) \<in> set (open_loop w startedAt k as)" for k as
    using that
  proof (induction as arbitrary: k)
    case (Cons b as)
    then consider "a = b \<and> late = max 0 (lw_woken w k - (startedAt + ar_atMs a))" | "(a, late) \<in> set (open_loop w startedAt (k + 1) as)"
      by (auto split: if_splits)
    then show ?case
    proof cases
      case 1
      then show ?thesis by (intro exI [of _ 0]) simp
    next
      case 2
      from Cons.IH [OF this] obtain j where "j < length as" "as ! j = a" "late = max 0 (lw_woken w (k + 1 + j) - (startedAt + ar_atMs a))" by blast
      then show ?thesis by (intro exI [of _ "Suc j"]) simp
    qed
  qed simp
  from this [OF assms(2)] obtain k where "k < length arrivals" "arrivals ! k = a" "late = max 0 (lw_woken w k - (startedAt + ar_atMs a))" by auto
  moreover from this assms(1) have "startedAt + ar_atMs a - 1 \<le> lw_woken w k" by (auto simp: sleeps_def Let_def split: if_splits)
  ultimately show ?thesis by blast
qed

section \<open>The workload\<close>

datatype Mix = Overlapping | Distinct_dates | Disjoint_units | Combos

definition MIXES :: "Mix list" where "MIXES = [Overlapping, Distinct_dates, Disjoint_units, Combos]"

fun mix_text :: "Mix \<Rightarrow> string" where
  "mix_text Overlapping = ''overlapping''"
| "mix_text Distinct_dates = ''distinct_dates''"
| "mix_text Disjoint_units = ''disjoint_units''"
| "mix_text Combos = ''combos''"

type_synonym Blend = "Mix \<Rightarrow> rat"

definition TARGET_BLEND :: Blend where
  "TARGET_BLEND m = (case m of Overlapping \<Rightarrow> 2 / 5 | Distinct_dates \<Rightarrow> 3 / 10 | Disjoint_units \<Rightarrow> 1 / 5 | Combos \<Rightarrow> 1 / 10)"

definition parseBlend :: "string \<Rightarrow> string + Blend" where
  "parseBlend s = (if s = ''target'' then Inr TARGET_BLEND
     else (case find (\<lambda>m. mix_text m = s) MIXES of
         Some m \<Rightarrow> Inr (\<lambda>m'. if m' = m then 1 else 0)
       | None \<Rightarrow> Inl ''blend must be \"target\" or one of overlapping, distinct_dates, disjoint_units, combos''))"

fun pick_from :: "Blend \<Rightarrow> rat \<Rightarrow> Mix list \<Rightarrow> Mix" where
  "pick_from blend x [] = last MIXES"
| "pick_from blend x (m # ms) = (if x - blend m < 0 then m else pick_from blend (x - blend m) ms)"

definition pickMix :: "Blend \<Rightarrow> rng \<Rightarrow> Mix \<times> rng" where
  "pickMix blend r = (let (u, r') = rng_next r in (pick_from blend (u * (\<Sum>m\<leftarrow>MIXES. blend m)) MIXES, r'))"

text \<open>A shape of weight 0 is never drawn.\<close>

lemma pick_from_positive: "0 \<le> x \<Longrightarrow> x < (\<Sum>m\<leftarrow>ms. blend m) \<Longrightarrow> 0 < blend (pick_from blend x ms)"
proof (induction ms arbitrary: x)
  case (Cons m ms)
  show ?case
  proof (cases "x - blend m < 0")
    case False
    then have "x - blend m < (\<Sum>m\<leftarrow>ms. blend m)" "0 \<le> x - blend m" using Cons.prems by simp_all
    with Cons.IH False show ?thesis by simp
  qed (use Cons.prems in simp)
qed simp

lemma pickMix_positive:
  assumes "0 < (\<Sum>m\<leftarrow>MIXES. blend m)"
  shows "0 < blend (fst (pickMix blend r))"
proof -
  obtain u r' where n: "rng_next r = (u, r')" by fastforce
  with next_bounds [OF n] assms have "0 \<le> u * (\<Sum>m\<leftarrow>MIXES. blend m)" "u * (\<Sum>m\<leftarrow>MIXES. blend m) < (\<Sum>m\<leftarrow>MIXES. blend m)" by simp_all
  from pick_from_positive [OF this] n show ?thesis by (simp add: pickMix_def)
qed

definition DAY :: int where "DAY = 86400000"
definition RUSH_EVENING :: int where "RUSH_EVENING = 2398442400000"
definition UNIT_DATES_FROM :: int where "UNIT_DATES_FROM = 2429982000000"
definition COMBO_DATES_FROM :: int where "COMBO_DATES_FROM = 2524676400000"

record BenchSeed =
  bs_venue :: string
  bs_units :: "string list"
  bs_combos :: "string list"

text \<open>The counters of days per assignment, and the generator.\<close>

type_synonym factory = "(string \<Rightarrow> nat) \<times> rng"

definition ownDay :: "string \<Rightarrow> int \<Rightarrow> (string \<Rightarrow> nat) \<Rightarrow> int \<times> (string \<Rightarrow> nat)" where
  "ownDay i from nextDay = (from + int (nextDay i) * DAY, nextDay(i := nextDay i + 1))"

definition factory_input :: "string \<Rightarrow> string \<Rightarrow> nat \<Rightarrow> int \<Rightarrow> int \<Rightarrow> Assignment \<Rightarrow> HoldInput" where
  "factory_input venue runId seq party t a = \<lparr>hi_venueId = venue, hi_actor = runId @ '':'' @ show_nat seq, hi_traceId = runId @ ''-h'' @ show_nat seq,
     hi_idempotencyKey = runId @ ''-h'' @ show_nat seq, hi_partySize = party, hi_startsAt = toISOString t, hi_durationMinutes = 90,
     hi_assignment = a, hi_externalRef = None, hi_enforceSchedule = False\<rparr>"

text \<open>The instant, the assignment and the party of the next request; a venue with enough units and a combo has one.\<close>

definition next_slot :: "BenchSeed \<Rightarrow> Mix \<Rightarrow> factory \<Rightarrow> string + ((int \<times> int \<times> Assignment) \<times> factory)" where
  "next_slot seed mix f = (case f of (nextDay, r) \<Rightarrow> (let popular = take 10 (bs_units seed); others = drop 10 (bs_units seed) in
     case mix of
       Overlapping \<Rightarrow> (let (k, r1) = rng_int 16 r in
         rbind (rng_pick popular r1) (\<lambda>(u, r2). Inr ((RUSH_EVENING + int k * 900000, 2, \<lparr>a_kind = Unit, a_id = u\<rparr>), (nextDay, r2))))
     | Distinct_dates \<Rightarrow> rbind (rng_pick popular r) (\<lambda>(u, r1). let (t, nextDay') = ownDay u UNIT_DATES_FROM nextDay in
         Inr ((t, 2, \<lparr>a_kind = Unit, a_id = u\<rparr>), (nextDay', r1)))
     | Disjoint_units \<Rightarrow> rbind (rng_pick others r) (\<lambda>(u, r1). let (t, nextDay') = ownDay u UNIT_DATES_FROM nextDay in
         Inr ((t, 2, \<lparr>a_kind = Unit, a_id = u\<rparr>), (nextDay', r1)))
     | Combos \<Rightarrow> rbind (rng_pick (bs_combos seed) r) (\<lambda>(c, r1). let (t, nextDay') = ownDay c COMBO_DATES_FROM nextDay in
         Inr ((t, 6, \<lparr>a_kind = Combo, a_id = c\<rparr>), (nextDay', r1)))))"

definition next_hold :: "BenchSeed \<Rightarrow> string \<Rightarrow> Mix \<Rightarrow> nat \<Rightarrow> factory \<Rightarrow> string + HoldInput \<times> factory" where
  "next_hold seed runId mix seq f = rbind (next_slot seed mix f) (\<lambda>((t, party, a), f'). Inr (factory_input (bs_venue seed) runId seq party t a, f'))"

definition holdFactory :: "BenchSeed \<Rightarrow> rng \<Rightarrow> string + factory" where
  "holdFactory seed r = (if length (bs_units seed) < 20 \<or> length (bs_combos seed) < 1 then Inl ''workload: needs at least 20 units and one combo''
     else Inr (\<lambda>_. 0, r))"

fun slots :: "BenchSeed \<Rightarrow> Mix list \<Rightarrow> factory \<Rightarrow> string + (int \<times> int \<times> Assignment) list" where
  "slots seed [] f = Inr []"
| "slots seed (m # ms) f = rbind (next_slot seed m f) (\<lambda>(x, f'). rbind (slots seed ms f') (\<lambda>xs. Inr (x # xs)))"

section \<open>Requests on days of their own\<close>

definition dates_from :: "Assignment \<Rightarrow> int" where
  "dates_from a = (case a_kind a of Unit \<Rightarrow> UNIT_DATES_FROM | Combo \<Rightarrow> COMBO_DATES_FROM)"

lemma next_slot_total:
  assumes "20 \<le> length (bs_units seed)" and "1 \<le> length (bs_combos seed)"
  shows "\<exists>x f'. next_slot seed mix f = Inr (x, f')"
proof -
  have p: "\<exists>y. rng_pick xs r = Inr y" if "xs \<noteq> []" for xs :: "string list" and r using that by (simp add: rng_pick_def split: prod.split)
  obtain nd r where f: "f = (nd, r)" by fastforce
  obtain k r1 where k: "rng_int 16 r = (k, r1)" by fastforce
  have ne: "take 10 (bs_units seed) \<noteq> []" "drop 10 (bs_units seed) \<noteq> []" "bs_combos seed \<noteq> []" using assms by auto
  from p [OF ne(1), of r1] p [OF ne(1), of r] p [OF ne(2), of r] p [OF ne(3), of r]
  show ?thesis by (cases mix) (auto simp: next_slot_def f k ownDay_def)
qed

lemma next_slot_own_day:
  assumes "next_slot seed mix (nd, r) = Inr ((t, party, a), (nd', r'))"
  shows "if mix = Overlapping then nd' = nd else t = dates_from a + int (nd (a_id a)) * DAY \<and> nd' = nd(a_id a := nd (a_id a) + 1)"
  using assms by (cases mix) (auto simp: next_slot_def ownDay_def dates_from_def rbind_eq_Inr split: prod.splits)

text \<open>Two requests on days of their own for one assignment are a day or more apart, so neither meets the other.\<close>

definition apart :: "Mix \<times> int \<times> int \<times> Assignment \<Rightarrow> Mix \<times> int \<times> int \<times> Assignment \<Rightarrow> bool" where
  "apart x y \<longleftrightarrow> (case (x, y) of ((m, t, _, a), (m', t', _, a')) \<Rightarrow> m \<noteq> Overlapping \<and> m' \<noteq> Overlapping \<and> a = a' \<longrightarrow> t + DAY \<le> t')"

lemma slots_apart:
  assumes "20 \<le> length (bs_units seed)" and "1 \<le> length (bs_combos seed)"
  shows "\<exists>xs. slots seed ms (nd, r) = Inr xs \<and> length xs = length ms \<and> sorted_wrt apart (zip ms xs)
    \<and> (\<forall>(m, t, p, a)\<in>set (zip ms xs). m \<noteq> Overlapping \<longrightarrow> dates_from a + int (nd (a_id a)) * DAY \<le> t)"
proof (induction ms arbitrary: nd r)
  case (Cons m ms)
  from next_slot_total [OF assms, of m "(nd, r)"] obtain t p a nd' r' where n: "next_slot seed m (nd, r) = Inr ((t, p, a), (nd', r'))" by auto
  note D = next_slot_own_day [OF n]
  from Cons.IH [of nd' r'] obtain xs where xs: "slots seed ms (nd', r') = Inr xs" "length xs = length ms" "sorted_wrt apart (zip ms xs)"
    "\<forall>(m, t, p, a)\<in>set (zip ms xs). m \<noteq> Overlapping \<longrightarrow> dates_from a + int (nd' (a_id a)) * DAY \<le> t" by blast
  have "nd i \<le> nd' i" for i using D by (auto split: if_splits)
  then have le: "int (nd i) * DAY \<le> int (nd' i) * DAY" for i by (simp add: DAY_def)
  have "apart (m, t, p, a) y" if "y \<in> set (zip ms xs)" for y
  proof -
    obtain m' t' p' a' where y: "y = (m', t', p', a')" by (cases y) auto
    from xs(4) that y have "m' \<noteq> Overlapping \<longrightarrow> dates_from a' + int (nd' (a_id a')) * DAY \<le> t'" by auto
    moreover have "dates_from a + int (nd' (a_id a)) * DAY = t + DAY" if "m \<noteq> Overlapping" using D that by (simp add: algebra_simps)
    ultimately show ?thesis by (auto simp: apart_def y)
  qed
  moreover have "m' \<noteq> Overlapping \<longrightarrow> dates_from a' + int (nd (a_id a')) * DAY \<le> t'" if "(m', t', p', a') \<in> set (zip ms xs)" for m' t' p' a'
  proof
    assume "m' \<noteq> Overlapping"
    with xs(4) that have "dates_from a' + int (nd' (a_id a')) * DAY \<le> t'" by auto
    with le [of "a_id a'"] show "dates_from a' + int (nd (a_id a')) * DAY \<le> t'" by linarith
  qed
  moreover have "m \<noteq> Overlapping \<longrightarrow> dates_from a + int (nd (a_id a)) * DAY \<le> t" using D by simp
  ultimately show ?case using xs(1-3) n by (intro exI [of _ "(t, p, a) # xs"]) auto
qed simp

text \<open>
  The dates of combos are not out of reach of units: the request on one unit that is number 1096, counted from 0,
  falls on the first day of the combos. The ones before it fall earlier.
\<close>

theorem unit_days_reach_combos: "UNIT_DATES_FROM + int n * DAY < COMBO_DATES_FROM \<longleftrightarrow> n < 1096"
  by (simp add: UNIT_DATES_FROM_def COMBO_DATES_FROM_def DAY_def)

end
