(* ===== verification/HarnessObserve.thy ===== *)
theory HarnessObserve
  imports System
begin

text \<open>
  \<open>apps/harness/src/observe.ts\<close> and the check of \<open>race.ts\<close> on the database: what a run reads of it to judge itself, and its
  two waiting loops. The invariants leave the two counts nothing to find. What only Postgres can tell, its backends and the
  locks they hold, is left out.
\<close>

section \<open>What the database holds\<close>

text \<open>Pairs of active rows on one unit with overlapping ranges; a pair is counted once, by the order of the reservations' ids.\<close>

definition overlapPairs :: "db \<Rightarrow> nat" where
  "overlapPairs d = length (filter (\<lambda>(a, b). ru_unit a = ru_unit b \<and> ru_reservation a < ru_reservation b \<and> overlaps (ru_during a) (ru_during b)
     \<and> ru_active a \<and> ru_active b) (List.product (unit_rows d) (unit_rows d)))"

text \<open>The unit or combination of a reservation, joined by its id alone. A comparison with NULL counts no row.\<close>

definition joined_capacity :: "db \<Rightarrow> ReservationRow \<Rightarrow> (int \<times> int) option" where
  "joined_capacity d r = (case a_kind (r_assignment r) of
      Unit \<Rightarrow> map_option (\<lambda>u. (u_capacity_min u, u_capacity_max u)) (find (\<lambda>u. u_id u = a_id (r_assignment r)) (units d))
    | Combo \<Rightarrow> map_option (\<lambda>c. (c_capacity_min c, c_capacity_max c)) (find (\<lambda>c. c_id c = a_id (r_assignment r)) (combos d)))"

definition fitViolations :: "instant \<Rightarrow> db \<Rightarrow> nat" where
  "fitViolations now d = length (filter (\<lambda>r. effective_status now r \<in> {Held, Confirmed, Seated} \<and> (case joined_capacity d r of
      None \<Rightarrow> False | Some (cmin, cmax) \<Rightarrow> r_party_size r < cmin \<or> cmax < r_party_size r)) (reservations d))"

lemma joined_capacity_fits:
  assumes "ids_ok d" and "fits d r"
  shows "\<exists>cmin cmax. joined_capacity d r = Some (cmin, cmax) \<and> cmin \<le> r_party_size r \<and> r_party_size r \<le> cmax"
proof (cases "a_kind (r_assignment r)")
  case Unit
  with assms(2) obtain u where u: "find_unit d (a_id (r_assignment r)) (r_venue r) = Some u" "u_capacity_min u \<le> r_party_size r" "r_party_size r \<le> u_capacity_max u"
    by (auto simp: fits_def assignment_facts_def)
  then have "u \<in> set (units d) \<and> u_id u = a_id (r_assignment r)" by (auto simp: find_unit_def dest: find_Some_D)
  then have "find (\<lambda>x. u_id x = a_id (r_assignment r)) (units d) = Some u" using assms(1) find_distinct_key [of u_id "units d" u] by (auto simp: ids_ok_def)
  with u Unit show ?thesis by (simp add: joined_capacity_def)
next
  case Combo
  with assms(2) obtain c where c: "find_combo d (a_id (r_assignment r)) (r_venue r) = Some c" "c_capacity_min c \<le> r_party_size r" "r_party_size r \<le> c_capacity_max c"
    by (auto simp: fits_def assignment_facts_def)
  then have "c \<in> set (combos d) \<and> c_id c = a_id (r_assignment r)" by (auto simp: find_combo_def dest: find_Some_D)
  then have "find (\<lambda>x. c_id x = a_id (r_assignment r)) (combos d) = Some c" using assms(1) find_distinct_key [of c_id "combos d" c] by (auto simp: ids_ok_def)
  with c Combo show ?thesis by (simp add: joined_capacity_def)
qed

lemma exclusion_pairs:
  assumes "exclusion_ok d" and "a \<in> set (unit_rows d)" and "b \<in> set (unit_rows d)" and "a \<noteq> b"
  shows "\<not> unit_rows_conflict a b"
proof -
  have sym: "unit_rows_conflict x y = unit_rows_conflict y x" for x y by (auto simp: unit_rows_conflict_def overlaps_sym)
  have "sorted_wrt (\<lambda>a b. \<not> unit_rows_conflict a b) xs \<Longrightarrow> a \<in> set xs \<Longrightarrow> b \<in> set xs \<Longrightarrow> \<not> unit_rows_conflict a b" for xs
    using assms(4) sym by (induction xs) auto
  with assms show ?thesis unfolding exclusion_ok_def by blast
qed

lemma observed_clean:
  assumes "inv T {} d"
  shows "overlapPairs d = 0" and "T \<le> now \<Longrightarrow> fitViolations now d = 0"
proof -
  have "\<not> unit_rows_conflict a b" if "a \<in> set (unit_rows d)" "b \<in> set (unit_rows d)" "ru_reservation a < ru_reservation b" for a b
    using exclusion_pairs [of d a b] that assms by (auto simp: inv_def)
  then show "overlapPairs d = 0" by (auto simp: overlapPairs_def filter_empty_conv unit_rows_conflict_def)
  assume now: "T \<le> now"
  have "fits d r" if "r \<in> set (reservations d)" "live now r" for r
    using assms that live_mono [OF now] by (auto simp: inv_def fit_ok_def)
  with joined_capacity_fits assms show "fitViolations now d = 0"
    by (fastforce simp: fitViolations_def filter_empty_conv live_def inv_def)
qed

section \<open>Waiting\<close>

text \<open>
  \<open>deadlocksStable\<close>: the \<open>k\<close>-th read of the counter and the clock after it; the start is the clock before the reads. The loop
  sleeps 100 ms between reads.
\<close>

record poll_world =
  pw_reading :: "nat \<Rightarrow> nat"
  pw_clock :: "nat \<Rightarrow> int"

partial_function (option) stable_loop :: "poll_world \<Rightarrow> int \<Rightarrow> nat \<Rightarrow> nat \<Rightarrow> int \<Rightarrow> nat option" where
  "stable_loop w started k seen stableSince = (let fresh_read = pw_reading w k; now = pw_clock w k;
       seen' = (if fresh_read \<noteq> seen then fresh_read else seen); since' = (if fresh_read \<noteq> seen then now else stableSince) in
     if 1200 \<le> now - since' \<or> 6000 \<le> now - started then Some seen' else stable_loop w started (k + 1) seen' since')"

definition deadlocksStable :: "poll_world \<Rightarrow> int \<Rightarrow> nat option" where
  "deadlocksStable w started = stable_loop w started 1 (pw_reading w 0) (pw_clock w 0)"

text \<open>It returns the last value read, which either stood for 1.2 s or was read 6 s after the start.\<close>

definition settled_reading :: "poll_world \<Rightarrow> int \<Rightarrow> nat \<Rightarrow> bool" where
  "settled_reading w started k \<longleftrightarrow> 6000 \<le> pw_clock w k - started
     \<or> (\<exists>j\<le>k. 1200 \<le> pw_clock w k - pw_clock w j \<and> (\<forall>m. j \<le> m \<and> m \<le> k \<longrightarrow> pw_reading w m = pw_reading w k))"

lemma stable_loop_returns:
  assumes step: "\<And>k. pw_clock w k + 100 \<le> pw_clock w (k + 1)" and start: "started \<le> pw_clock w 0"
  shows "j < k \<Longrightarrow> since = pw_clock w j \<Longrightarrow> (\<forall>m. j \<le> m \<and> m < k \<longrightarrow> pw_reading w m = seen) \<Longrightarrow> k + n = 60
    \<Longrightarrow> \<exists>k'\<le>60. stable_loop w started k seen since = Some (pw_reading w k') \<and> settled_reading w started k'"
proof (induction n arbitrary: k j seen since)
  case 0
  have "pw_clock w 0 + 100 * int k \<le> pw_clock w k" for k
  proof (induction k)
    case (Suc k)
    then show ?case using step [of k] by simp
  qed simp
  from this [of 60] start have e: "6000 \<le> pw_clock w 60 - started" by simp
  show ?case by (rule exI [of _ 60], subst stable_loop.simps) (use 0 e in \<open>auto simp: Let_def settled_reading_def\<close>)
next
  case (Suc n)
  define j' where "j' = (if pw_reading w k \<noteq> seen then k else j)"
  define since' where "since' = (if pw_reading w k \<noteq> seen then pw_clock w k else since)"
  have s: "since' = pw_clock w j'" "j' \<le> k" "\<forall>m. j' \<le> m \<and> m \<le> k \<longrightarrow> pw_reading w m = pw_reading w k"
    using Suc.prems(1-3) by (auto simp: since'_def j'_def le_less)
  have e: "stable_loop w started k seen since = (if 1200 \<le> pw_clock w k - since' \<or> 6000 \<le> pw_clock w k - started then Some (pw_reading w k)
      else stable_loop w started (k + 1) (pw_reading w k) since')"
    by (subst stable_loop.simps) (simp add: Let_def since'_def)
  show ?case
  proof (cases "1200 \<le> pw_clock w k - since' \<or> 6000 \<le> pw_clock w k - started")
    case True
    then have "settled_reading w started k" using s(2,3) unfolding s(1) settled_reading_def by blast
    with True e Suc.prems(4) show ?thesis by (intro exI [of _ k]) simp
  next
    case False
    have "\<exists>k'\<le>60. stable_loop w started (k + 1) (pw_reading w k) since' = Some (pw_reading w k') \<and> settled_reading w started k'"
    proof (rule Suc.IH [of j'])
      show "j' < k + 1" using s(2) by simp
      show "\<forall>m. j' \<le> m \<and> m < k + 1 \<longrightarrow> pw_reading w m = pw_reading w k" 
      proof (intro allI impI)
        fix m assume "j' \<le> m \<and> m < k + 1"
        then have "j' \<le> m \<and> m \<le> k" by simp
        with s(3) show "pw_reading w m = pw_reading w k" by blast
      qed
    qed (use s(1) Suc.prems(4) in simp_all)
    with False e show ?thesis by simp
  qed
qed

theorem deadlocksStable_returns:
  assumes "\<forall>k. pw_clock w k + 100 \<le> pw_clock w (k + 1)" and "started \<le> pw_clock w 0"
  shows "\<exists>k\<le>60. deadlocksStable w started = Some (pw_reading w k) \<and> settled_reading w started k"
  unfolding deadlocksStable_def by (rule stable_loop_returns [of w started 0 1 _ _ 59]) (use assms in auto)

text \<open>\<open>waitFor\<close>: what the \<open>k\<close>-th check answers, and the clock after it.\<close>

partial_function (option) wait_loop :: "(nat \<Rightarrow> bool) \<Rightarrow> (nat \<Rightarrow> int) \<Rightarrow> int \<Rightarrow> int \<Rightarrow> string \<Rightarrow> nat \<Rightarrow> (string + unit) option" where
  "wait_loop check clock started ms what k = (if check k then Some (Inr ())
     else if ms < clock k - started then Some (Inl (''not reached within '' @ show_int ms @ ''ms: '' @ what))
     else wait_loop check clock started ms what (k + 1))"

definition waitFor :: "(nat \<Rightarrow> bool) \<Rightarrow> (nat \<Rightarrow> int) \<Rightarrow> int \<Rightarrow> int \<Rightarrow> string \<Rightarrow> (string + unit) option" where
  "waitFor check clock started ms what = wait_loop check clock started ms what 0"

lemma wait_loop_returns:
  assumes "\<exists>k'\<ge>k. check k' \<or> ms < clock k' - started"
  shows "\<exists>x. wait_loop check clock started ms what k = Some x \<and> (x = Inr () \<longrightarrow> (\<exists>k. check k))"
proof -
  obtain k' where k': "k \<le> k'" "check k' \<or> ms < clock k' - started" using assms by blast
  then show ?thesis
  proof (induction "k' - k" arbitrary: k)
    case 0
    then show ?case by (subst wait_loop.simps) auto
  next
    case (Suc n)
    then have "\<exists>x. wait_loop check clock started ms what (k + 1) = Some x \<and> (x = Inr () \<longrightarrow> (\<exists>k. check k))" by (intro Suc.hyps(1)) auto
    then show ?case by (subst wait_loop.simps) auto
  qed
qed

end
