(* ===== verification/HarnessLoad.thy ===== *)
theory HarnessLoad
  imports HarnessStats HarnessArrivals Worker "HOL-Library.Multiset" "HOL-Library.Product_Lexorder"
begin

text \<open>
  \<open>apps/harness/src/load.ts\<close>, first part: the classes of answers, a session that keeps one record for each request while
  answers come in any order, the summaries of a step, the timeline and the peak. Times are of any ordered field; \<open>runLoad\<close> runs them
  on real numbers. The target is what answers: a session step takes its answer as given, or that it threw.
\<close>

section \<open>Answers and their classes\<close>

datatype OutcomeClass = C_ok | C_conflict | C_timeout | C_unavailable | C_other | C_shed | C_transport

definition CLASSES :: "OutcomeClass list" where
  "CLASSES = [C_ok, C_conflict, C_timeout, C_unavailable, C_other, C_shed, C_transport]"

definition isError :: "OutcomeClass \<Rightarrow> bool" where
  "isError c \<longleftrightarrow> c \<noteq> C_ok \<and> c \<noteq> C_conflict"

definition classify :: "string \<Rightarrow> OutcomeClass" where
  "classify c = (if c = ''ok'' then C_ok
     else if c = ''hold_conflict'' then C_conflict
     else if c = ''timeout'' then C_timeout
     else if c = ''pool_timeout'' \<or> c = ''overlap_set_too_large'' then C_unavailable
     else if c = ''shed'' then C_shed
     else if c = ''transport_timeout'' \<or> c = ''transport_error'' then C_transport
     else C_other)"

lemma classify_ok [simp]: "classify c = C_ok \<longleftrightarrow> c = ''ok''"
  by (simp add: classify_def)

lemma classify_shed [simp]: "classify c = C_shed \<longleftrightarrow> c = ''shed''"
  by (simp add: classify_def)

record 'v Phases =
  ph_poolWaitMs :: "'v option"
  ph_poolWaitCensored :: bool
  ph_unitLockMs :: "'v option"
  ph_unitLockCensored :: bool
  ph_transactionMs :: "'v option"
  ph_connectionHeldMs :: "'v option"
  ph_retries :: nat

definition NO_PHASES :: "'v Phases" where
  "NO_PHASES = \<lparr>ph_poolWaitMs = None, ph_poolWaitCensored = False, ph_unitLockMs = None, ph_unitLockCensored = False,
     ph_transactionMs = None, ph_connectionHeldMs = None, ph_retries = 0\<rparr>"

record 'v HoldAnswer =
  ha_code :: string
  ha_reservationId :: "string option"
  ha_phases :: "'v Phases option"

datatype Stored = Granted | Refused | Unobserved

record 'v HoldRecord =
  hr_seq :: nat
  hr_step :: nat
  hr_mix :: Mix
  hr_cls :: OutcomeClass
  hr_code :: string
  hr_atMs :: 'v
  hr_startedMs :: 'v
  hr_doneMs :: "'v option"
  hr_e2eMs :: "'v option"
  hr_e2eCensored :: bool
  hr_stored :: "Stored option"
  hr_phases :: "'v Phases"

datatype FollowKind = Confirms | Cancels

record 'v FollowUpRecord =
  fr_kind :: FollowKind
  fr_step :: nat
  fr_atMs :: 'v
  fr_startedMs :: 'v
  fr_doneMs :: "'v option"
  fr_code :: string
  fr_e2eMs :: "'v option"

section \<open>A session\<close>

text \<open>
  What a request in flight has of its closure. An answer of \<open>None\<close> is a target that threw. The mix and the request are drawn
  from one generator, which is part of the factory's state.
\<close>

record 'v SessionOptions =
  so_runId :: string
  so_blend :: Blend
  so_maxInFlight :: nat

datatype 'v Pending =
    Pending_hold "'v Arrival" 'v Mix HoldInput
  | Pending_follow "'v Arrival" 'v FollowKind string

record 'v LoadSession =
  ls_factory :: factory
  ls_inFlight :: "'v Pending list"
  ls_records :: "'v HoldRecord list"
  ls_followUps :: "'v FollowUpRecord list"
  ls_recent :: "string list"
  ls_targetThrows :: nat

definition openSession :: "BenchSeed \<Rightarrow> rng \<Rightarrow> string + 'v LoadSession" where
  "openSession seed r = rbind (holdFactory seed r) (\<lambda>f. Inr \<lparr>ls_factory = f, ls_inFlight = [], ls_records = [], ls_followUps = [],
     ls_recent = [], ls_targetThrows = 0\<rparr>)"

definition shed_record :: "'v::plus Arrival \<Rightarrow> 'v \<Rightarrow> Mix \<Rightarrow> 'v HoldRecord" where
  "shed_record a lateMs mix = \<lparr>hr_seq = ar_seq a, hr_step = ar_step a, hr_mix = mix, hr_cls = C_shed, hr_code = ''shed'', hr_atMs = ar_atMs a,
     hr_startedMs = ar_atMs a + lateMs, hr_doneMs = None, hr_e2eMs = None, hr_e2eCensored = False, hr_stored = None, hr_phases = NO_PHASES\<rparr>"

definition session_hold :: "BenchSeed \<Rightarrow> 'v SessionOptions \<Rightarrow> 'v::plus Arrival \<Rightarrow> 'v \<Rightarrow> 'v LoadSession \<Rightarrow> string + 'v LoadSession" where
  "session_hold seed opts a lateMs s = (case ls_factory s of (nextDay, r) \<Rightarrow> let (mix, r1) = pickMix (so_blend opts) r in
     rbind (next_hold seed (so_runId opts) mix (ar_seq a) (nextDay, r1)) (\<lambda>(input, f').
       Inr (if so_maxInFlight opts \<le> length (ls_inFlight s) then s\<lparr>ls_factory := f', ls_records := ls_records s @ [shed_record a lateMs mix]\<rparr>
         else s\<lparr>ls_factory := f', ls_inFlight := ls_inFlight s @ [Pending_hold a lateMs mix input]\<rparr>)))"

definition THREW :: "'v HoldAnswer" where
  "THREW = \<lparr>ha_code = ''target_threw'', ha_reservationId = None, ha_phases = None\<rparr>"

definition push_recent :: "string option \<Rightarrow> string list \<Rightarrow> string list" where
  "push_recent x recent = (case x of None \<Rightarrow> recent | Some v \<Rightarrow> let xs = recent @ [v] in if 1000 < length xs then tl xs else xs)"

definition hold_record :: "'v::plus Arrival \<Rightarrow> 'v \<Rightarrow> Mix \<Rightarrow> 'v HoldAnswer \<Rightarrow> 'v \<Rightarrow> 'v HoldRecord" where
  "hold_record a lateMs mix answer took = \<lparr>hr_seq = ar_seq a, hr_step = ar_step a, hr_mix = mix, hr_cls = classify (ha_code answer), hr_code = ha_code answer,
     hr_atMs = ar_atMs a, hr_startedMs = ar_atMs a + lateMs, hr_doneMs = Some (ar_atMs a + lateMs + took), hr_e2eMs = Some (lateMs + took),
     hr_e2eCensored = (classify (ha_code answer) = C_transport), hr_stored = None,
     hr_phases = (case ha_phases answer of None \<Rightarrow> NO_PHASES | Some p \<Rightarrow> p)\<rparr>"

definition hold_answered :: "'v::plus Arrival \<Rightarrow> 'v \<Rightarrow> Mix \<Rightarrow> 'v HoldAnswer option \<Rightarrow> 'v \<Rightarrow> 'v LoadSession \<Rightarrow> 'v LoadSession" where
  "hold_answered a lateMs mix given took s = (let answer = (case given of Some x \<Rightarrow> x | None \<Rightarrow> THREW) in
     s\<lparr>ls_targetThrows := ls_targetThrows s + (if given = None then 1 else 0),
       ls_recent := push_recent (ha_reservationId answer) (ls_recent s),
       ls_records := ls_records s @ [hold_record a lateMs mix answer took]\<rparr>)"

definition follow_kind :: "'v Arrival \<Rightarrow> FollowKind" where
  "follow_kind a = (if ar_seq a mod 2 = 0 then Confirms else Cancels)"

definition skipped_record :: "'v::plus Arrival \<Rightarrow> 'v \<Rightarrow> 'v FollowUpRecord" where
  "skipped_record a lateMs = \<lparr>fr_kind = follow_kind a, fr_step = ar_step a, fr_atMs = ar_atMs a, fr_startedMs = ar_atMs a + lateMs, fr_doneMs = None,
     fr_code = ''skipped'', fr_e2eMs = None\<rparr>"

definition session_followUp :: "'v::plus Arrival \<Rightarrow> 'v \<Rightarrow> 'v LoadSession \<Rightarrow> 'v LoadSession" where
  "session_followUp a lateMs s = (if ls_recent s = [] then s\<lparr>ls_followUps := ls_followUps s @ [skipped_record a lateMs]\<rparr>
     else s\<lparr>ls_recent := butlast (ls_recent s), ls_inFlight := ls_inFlight s @ [Pending_follow a lateMs (follow_kind a) (last (ls_recent s))]\<rparr>)"

definition follow_record :: "'v::plus Arrival \<Rightarrow> 'v \<Rightarrow> FollowKind \<Rightarrow> string \<Rightarrow> 'v \<Rightarrow> 'v FollowUpRecord" where
  "follow_record a lateMs kind c took = \<lparr>fr_kind = kind, fr_step = ar_step a, fr_atMs = ar_atMs a, fr_startedMs = ar_atMs a + lateMs,
     fr_doneMs = Some (ar_atMs a + lateMs + took), fr_code = c, fr_e2eMs = Some (lateMs + took)\<rparr>"

definition follow_answered :: "'v::plus Arrival \<Rightarrow> 'v \<Rightarrow> FollowKind \<Rightarrow> string option \<Rightarrow> 'v \<Rightarrow> 'v LoadSession \<Rightarrow> 'v LoadSession" where
  "follow_answered a lateMs kind given took s =
     s\<lparr>ls_targetThrows := ls_targetThrows s + (if given = None then 1 else 0),
       ls_followUps := ls_followUps s @ [follow_record a lateMs kind (case given of Some c \<Rightarrow> c | None \<Rightarrow> ''target_threw'') took]\<rparr>"

definition answered :: "'v Pending \<Rightarrow> 'v HoldAnswer option \<Rightarrow> string option \<Rightarrow> 'v::plus \<Rightarrow> 'v LoadSession \<Rightarrow> 'v LoadSession" where
  "answered p hold_given follow_given took s = (case p of
      Pending_hold a lateMs mix _ \<Rightarrow> hold_answered a lateMs mix hold_given took s
    | Pending_follow a lateMs kind _ \<Rightarrow> follow_answered a lateMs kind follow_given took s)"

text \<open>
  A run of a session: the arrivals of both plans fired so far, in the order they were fired, and the answers as they come, each
  to one request in flight. A target answers a request by its contract: an id only with the code \<open>ok\<close>, and never one of the
  codes the session writes itself.
\<close>

definition by_contract :: "'v HoldAnswer \<Rightarrow> bool" where
  "by_contract x \<longleftrightarrow> (ha_reservationId x \<noteq> None \<longrightarrow> ha_code x = ''ok'') \<and> ha_code x \<noteq> ''shed''"

inductive session_run :: "BenchSeed \<Rightarrow> rng \<Rightarrow> 'v::plus SessionOptions \<Rightarrow> 'v Arrival list \<Rightarrow> 'v Arrival list \<Rightarrow> 'v LoadSession \<Rightarrow> bool"
  for seed :: BenchSeed and r :: rng and opts :: "'v::plus SessionOptions" where
  opened: "openSession seed r = Inr s \<Longrightarrow> session_run seed r opts [] [] s"
| held: "session_run seed r opts holds follows s \<Longrightarrow> session_hold seed opts a lateMs s = Inr s' \<Longrightarrow> session_run seed r opts (holds @ [a]) follows s'"
| followed: "session_run seed r opts holds follows s \<Longrightarrow> session_run seed r opts holds (follows @ [a]) (session_followUp a lateMs s)"
| answers: "session_run seed r opts holds follows s \<Longrightarrow> ls_inFlight s = before @ p # behind
    \<Longrightarrow> (\<forall>x. hold_given = Some x \<longrightarrow> by_contract x) \<Longrightarrow> (\<forall>c. follow_given = Some c \<longrightarrow> c \<noteq> ''skipped'')
    \<Longrightarrow> session_run seed r opts holds follows (answered p hold_given follow_given took (s\<lparr>ls_inFlight := before @ behind\<rparr>))"

text \<open>What a run of a session keeps, whatever the target answers and in whatever order.\<close>

fun pending_seq :: "'v Pending \<Rightarrow> nat option" where
  "pending_seq (Pending_hold a _ _ _) = Some (ar_seq a)"
| "pending_seq (Pending_follow _ _ _ _) = None"

definition pending_holds :: "'v Pending list \<Rightarrow> nat list" where
  "pending_holds ps = List.map_filter pending_seq ps"

definition pending_follows :: "'v Pending list \<Rightarrow> nat" where
  "pending_follows ps = length (filter (\<lambda>p. pending_seq p = None) ps)"

lemma pending_simps [simp]:
  "pending_holds [] = []" "pending_holds (p # ps) = (case pending_seq p of None \<Rightarrow> [] | Some n \<Rightarrow> [n]) @ pending_holds ps"
  "pending_holds (ps @ qs) = pending_holds ps @ pending_holds qs"
  "pending_follows [] = 0" "pending_follows (p # ps) = (if pending_seq p = None then 1 else 0) + pending_follows ps"
  "pending_follows (ps @ qs) = pending_follows ps + pending_follows qs"
  by (simp_all add: pending_holds_def pending_follows_def List.map_filter_def split: option.splits)

lemma pending_le: "length (pending_holds ps) \<le> length ps"
  by (induction ps) (auto split: option.splits)

definition granted_holds :: "'v HoldRecord list \<Rightarrow> nat" where
  "granted_holds rs = length (filter (\<lambda>x. hr_code x = ''ok'') rs)"

definition executed :: "'v FollowUpRecord list \<Rightarrow> 'v FollowUpRecord list" where
  "executed fs = filter (\<lambda>x. fr_code x \<noteq> ''skipped'') fs"

definition times_ok :: "'v::ab_group_add HoldRecord \<Rightarrow> bool" where
  "times_ok x \<longleftrightarrow> (case hr_doneMs x of None \<Rightarrow> hr_code x = ''shed'' \<and> hr_e2eMs x = None | Some d \<Rightarrow> hr_e2eMs x = Some (d - hr_atMs x))
     \<and> hr_cls x = classify (hr_code x) \<and> hr_stored x = None"

definition session_ok :: "'v::ab_group_add SessionOptions \<Rightarrow> 'v Arrival list \<Rightarrow> 'v Arrival list \<Rightarrow> 'v LoadSession \<Rightarrow> bool" where
  "session_ok opts holds follows s \<longleftrightarrow>
     mset (map hr_seq (ls_records s)) + mset (pending_holds (ls_inFlight s)) = mset (map ar_seq holds)
     \<and> length (ls_followUps s) + pending_follows (ls_inFlight s) = length follows
     \<and> length (executed (ls_followUps s)) + pending_follows (ls_inFlight s) + length (ls_recent s) \<le> granted_holds (ls_records s)
     \<and> length (pending_holds (ls_inFlight s)) \<le> so_maxInFlight opts \<and> length (ls_recent s) \<le> 1000
     \<and> (\<forall>x\<in>set (ls_records s). times_ok x)"

lemma push_recent_length: "length recent \<le> 1000 \<Longrightarrow> length (push_recent x recent) \<le> length recent + (if x = None then 0 else 1) \<and> length (push_recent x recent) \<le> 1000"
  by (auto simp: push_recent_def Let_def split: option.splits)

lemma session_ok_opened: "openSession seed r = Inr s \<Longrightarrow> session_ok opts [] [] s"
  by (auto simp: openSession_def session_ok_def result_simps executed_def)

lemma session_hold_cases:
  assumes "session_hold seed opts a lateMs s = Inr s'"
  obtains (shed) f mix where "so_maxInFlight opts \<le> length (ls_inFlight s)" "s' = s\<lparr>ls_factory := f, ls_records := ls_records s @ [shed_record a lateMs mix]\<rparr>"
    | (started) f mix input where "length (ls_inFlight s) < so_maxInFlight opts" "s' = s\<lparr>ls_factory := f, ls_inFlight := ls_inFlight s @ [Pending_hold a lateMs mix input]\<rparr>"
proof -
  from assms obtain mix input f where "s' = (if so_maxInFlight opts \<le> length (ls_inFlight s) then s\<lparr>ls_factory := f, ls_records := ls_records s @ [shed_record a lateMs mix]\<rparr>
      else s\<lparr>ls_factory := f, ls_inFlight := ls_inFlight s @ [Pending_hold a lateMs mix input]\<rparr>)"
    unfolding session_hold_def Let_def rbind_eq_Inr by (clarsimp simp: rbind_eq_Inr split: prod.splits)
  then show thesis using shed started by (cases "so_maxInFlight opts \<le> length (ls_inFlight s)") (simp_all add: not_le)
qed

lemma executed_simps [simp]: "executed (fs @ [x]) = executed fs @ (if fr_code x = ''skipped'' then [] else [x])"
  by (simp add: executed_def)

lemma granted_holds_snoc [simp]: "granted_holds (rs @ [x]) = granted_holds rs + (if hr_code x = ''ok'' then 1 else 0)"
  by (simp add: granted_holds_def)

lemma session_ok_held:
  assumes "session_ok opts holds follows s" and "session_hold seed opts a lateMs s = Inr s'"
  shows "session_ok opts (holds @ [a]) follows s'"
  using assms(2)
proof (cases rule: session_hold_cases)
  case (shed f mix)
  have "times_ok (shed_record a lateMs mix)" "hr_seq (shed_record a lateMs mix) = ar_seq a" "hr_code (shed_record a lateMs mix) = ''shed''"
    by (simp_all add: times_ok_def shed_record_def classify_def)
  then show ?thesis using assms(1) by (simp add: session_ok_def shed(2))
next
  case (started f mix input)
  then show ?thesis using assms(1) pending_le [of "ls_inFlight s"] by (simp add: session_ok_def)
qed

lemma session_ok_followed: "session_ok opts holds follows s \<Longrightarrow> session_ok opts holds (follows @ [a]) (session_followUp a lateMs s)"
  by (cases "ls_recent s") (simp_all add: session_followUp_def session_ok_def skipped_record_def)

lemma session_ok_hold_answered:
  assumes "session_ok opts holds follows (s\<lparr>ls_inFlight := before @ Pending_hold a lateMs mix input # behind\<rparr>)" and "\<forall>x. given = Some x \<longrightarrow> by_contract x"
  shows "session_ok opts holds follows (hold_answered a lateMs mix given took (s\<lparr>ls_inFlight := before @ behind\<rparr>))"
proof -
  define x where "x = (case given of Some x \<Rightarrow> x | None \<Rightarrow> THREW)"
  have x: "ha_reservationId x \<noteq> None \<Longrightarrow> ha_code x = ''ok''" "ha_code x \<noteq> ''shed''"
    using assms(2) by (auto simp: x_def by_contract_def THREW_def split: option.splits)
  have l: "length (push_recent (ha_reservationId x) (ls_recent s)) \<le> length (ls_recent s) + (if ha_code x = ''ok'' then 1 else 0)"
    "length (push_recent (ha_reservationId x) (ls_recent s)) \<le> 1000"
    using push_recent_length [of "ls_recent s" "ha_reservationId x"] assms(1) x(1) by (auto simp: session_ok_def split: if_splits)
  have t: "times_ok (hold_record a lateMs mix x took)"
    by (simp add: times_ok_def hold_record_def algebra_simps)
  have r: "hr_code (hold_record a lateMs mix x took) = ha_code x" "hr_seq (hold_record a lateMs mix x took) = ar_seq a"
    by (simp_all add: hold_record_def)
  have s: "hold_answered a lateMs mix given took (s\<lparr>ls_inFlight := before @ behind\<rparr>) = s\<lparr>ls_inFlight := before @ behind,
      ls_targetThrows := ls_targetThrows s + (if given = None then 1 else 0), ls_recent := push_recent (ha_reservationId x) (ls_recent s),
      ls_records := ls_records s @ [hold_record a lateMs mix x took]\<rparr>"
    by (simp add: hold_answered_def x_def Let_def)
  show ?thesis using assms(1) l t unfolding s by (auto simp: session_ok_def r)
qed

lemma session_ok_follow_answered:
  assumes "session_ok opts holds follows (s\<lparr>ls_inFlight := before @ Pending_follow a lateMs kind target # behind\<rparr>)" and "\<forall>c. given = Some c \<longrightarrow> c \<noteq> ''skipped''"
  shows "session_ok opts holds follows (follow_answered a lateMs kind given took (s\<lparr>ls_inFlight := before @ behind\<rparr>))"
  using assms by (auto simp: session_ok_def follow_answered_def follow_record_def split: option.splits)

lemma session_run_ok: "session_run seed r opts holds follows s \<Longrightarrow> session_ok opts holds follows s"
proof (induction rule: session_run.induct)
  case (answers holds follows s before p behind hold_given follow_given took)
  have s: "session_ok opts holds follows (s\<lparr>ls_inFlight := before @ p # behind\<rparr>)" using answers.hyps(2) answers.IH by (cases s) simp
  show ?case
  proof (cases p)
    case (Pending_hold a lateMs mix input)
    show ?thesis using session_ok_hold_answered [OF s [unfolded Pending_hold] answers.hyps(3)] Pending_hold by (simp add: answered_def)
  next
    case (Pending_follow a lateMs kind target)
    show ?thesis using session_ok_follow_answered [OF s [unfolded Pending_follow] answers.hyps(4)] Pending_follow by (simp add: answered_def)
  qed
qed (auto intro: session_ok_opened session_ok_held session_ok_followed)

text \<open>
  When nothing is in flight any more, every arrival that was fired has exactly one record and every follow-up has one; no
  more follow-ups ran than holds were granted; and a record has an end-to-end time from its planned arrival to its answer unless
  it was shed.
\<close>

lemma session_accounts:
  assumes "session_run seed r opts holds follows (s :: 'v::ab_group_add LoadSession)" and "ls_inFlight s = []"
  shows "mset (map hr_seq (ls_records s)) = mset (map ar_seq holds) \<and> length (ls_followUps s) = length follows
    \<and> length (executed (ls_followUps s)) \<le> granted_holds (ls_records s)
    \<and> (\<forall>x\<in>set (ls_records s). case hr_doneMs x of None \<Rightarrow> hr_code x = ''shed'' \<and> hr_e2eMs x = None | Some d \<Rightarrow> hr_e2eMs x = Some (d - hr_atMs x))"
  using session_run_ok [OF assms(1)] assms(2) by (auto simp: session_ok_def times_ok_def split: option.splits)

section \<open>Summaries\<close>

record 'v MixSummary =
  mx_offered :: nat
  mx_byClass :: "OutcomeClass \<Rightarrow> nat"
  mx_e2eMs :: "'v Dist"
  mx_poolWaitMs :: "'v Dist"
  mx_unitLockMs :: "'v Dist"
  mx_transactionMs :: "'v Dist"
  mx_connectionHeldMs :: "'v Dist"

definition samples :: "'x list \<Rightarrow> ('x \<Rightarrow> 'v option) \<Rightarrow> ('x \<Rightarrow> bool) \<Rightarrow> 'v Sample list" where
  "samples rs ms censored = concat (map (\<lambda>x. case ms x of None \<Rightarrow> [] | Some v \<Rightarrow> [\<lparr>sm_ms = v, sm_censored = censored x\<rparr>]) rs)"

definition maxOf :: "'v::{linorder,zero} list \<Rightarrow> 'v" where
  "maxOf xs = foldl (\<lambda>m x. if m < x then x else m) 0 xs"

definition count_if :: "('x \<Rightarrow> bool) \<Rightarrow> 'x list \<Rightarrow> nat" where
  "count_if P xs = length (filter P xs)"

definition summarizeMix :: "'v::linorder HoldRecord list \<Rightarrow> 'v MixSummary" where
  "summarizeMix rs = \<lparr>mx_offered = length rs, mx_byClass = (\<lambda>c. count_if (\<lambda>x. hr_cls x = c) rs),
     mx_e2eMs = dist (samples rs hr_e2eMs hr_e2eCensored),
     mx_poolWaitMs = dist (samples rs (\<lambda>x. ph_poolWaitMs (hr_phases x)) (\<lambda>x. ph_poolWaitCensored (hr_phases x))),
     mx_unitLockMs = dist (samples rs (\<lambda>x. ph_unitLockMs (hr_phases x)) (\<lambda>x. ph_unitLockCensored (hr_phases x))),
     mx_transactionMs = dist (samples rs (\<lambda>x. ph_transactionMs (hr_phases x)) (\<lambda>_. False)),
     mx_connectionHeldMs = dist (samples rs (\<lambda>x. ph_connectionHeldMs (hr_phases x)) (\<lambda>_. False))\<rparr>"

text \<open>A \<open>Record<string, number>\<close> with its keys in the order they were added.\<close>

fun add_one :: "string \<Rightarrow> (string \<times> nat) list \<Rightarrow> (string \<times> nat) list" where
  "add_one k [] = [(k, 1)]"
| "add_one k ((j, n) # xs) = (if j = k then (j, n + 1) # xs else (j, n) # add_one k xs)"

definition count_codes :: "string list \<Rightarrow> (string \<times> nat) list" where
  "count_codes ks = foldl (\<lambda>m k. add_one k m) [] ks"

lemma map_of_add_one: "map_of (add_one k m) j = (if j = k then Some (case map_of m k of None \<Rightarrow> 1 | Some n \<Rightarrow> n + 1) else map_of m j)"
  by (induction k m rule: add_one.induct) auto

lemma map_of_count_codes: "map_of (count_codes ks) k = (if k \<in> set ks then Some (count_list ks k) else None)"
proof (induction ks rule: rev_induct)
  case (snoc j ks)
  have "count_codes (ks @ [j]) = add_one j (count_codes ks)" by (simp add: count_codes_def)
  with snoc show ?case by (auto simp: map_of_add_one count_list_0_iff)
qed (simp add: count_codes_def)

record 'v FollowSummary =
  fs_offered :: nat
  fs_byCode :: "(string \<times> nat) list"
  fs_e2eMs :: "'v Dist"

text \<open>The throughput of a step of no length is no finite number in the source, \<open>None\<close> here.\<close>

record 'v StepSummary =
  su_step :: nat
  su_ratePerSec :: 'v
  su_seconds :: 'v
  su_fromMs :: 'v
  su_toMs :: 'v
  su_offered :: nat
  su_answeredInWindow :: nat
  su_achievedPerSec :: "'v option"
  su_backlogAtEnd :: nat
  su_errorRate :: 'v
  su_byCode :: "(string \<times> nat) list"
  su_dispatchLagMs :: "'v Dist"
  su_all :: "'v MixSummary"
  su_mixes :: "Mix \<Rightarrow> 'v MixSummary"
  su_followUps :: "'v FollowSummary"

definition summarizeStep :: "nat \<Rightarrow> 'v::linordered_field Step \<Rightarrow> 'v \<Rightarrow> 'v HoldRecord list \<Rightarrow> 'v FollowUpRecord list \<Rightarrow> 'v StepSummary" where
  "summarizeStep step s fromMs holds follow = (let toMs = fromMs + st_seconds s * 1000;
     rs = filter (\<lambda>x. hr_step x = step) holds; fs = filter (\<lambda>x. fr_step x = step) follow;
     done_in = count_if (\<lambda>x. (case hr_doneMs x of None \<Rightarrow> False | Some d \<Rightarrow> fromMs \<le> d \<and> d < toMs) \<and> \<not> isError (hr_cls x)) holds;
     backlog = count_if (\<lambda>x. hr_cls x \<noteq> C_shed \<and> hr_atMs x < toMs \<and> (case hr_doneMs x of None \<Rightarrow> True | Some d \<Rightarrow> toMs \<le> d)) holds in
     \<lparr>su_step = step, su_ratePerSec = st_ratePerSec s, su_seconds = st_seconds s, su_fromMs = fromMs, su_toMs = toMs, su_offered = length rs,
       su_answeredInWindow = done_in, su_achievedPerSec = (if st_seconds s = 0 then None else Some (of_nat done_in / st_seconds s)), su_backlogAtEnd = backlog,
       su_errorRate = (if length rs = 0 then 0 else of_nat (count_if (\<lambda>x. isError (hr_cls x)) rs) / of_nat (length rs)),
       su_byCode = count_codes (map hr_code rs),
       su_dispatchLagMs = dist (exact (map (\<lambda>x. hr_startedMs x - hr_atMs x) rs)),
       su_all = summarizeMix rs,
       su_mixes = (\<lambda>m. summarizeMix (filter (\<lambda>x. hr_mix x = m) rs)),
       su_followUps = \<lparr>fs_offered = length fs, fs_byCode = count_codes (map fr_code fs), fs_e2eMs = dist (samples fs fr_e2eMs (\<lambda>x. classify (fr_code x) = C_transport))\<rparr>\<rparr>)"

section \<open>The timeline\<close>

record TimelineBucket =
  tb_second :: nat
  tb_arrived :: nat
  tb_answered :: nat
  tb_errors :: nat
  tb_outstanding :: int

text \<open>\<open>out[i]! += 1\<close>: an index past the end is the TypeError \<open>None\<close>.\<close>

definition bump :: "nat \<Rightarrow> ('b \<Rightarrow> 'b) \<Rightarrow> 'b list \<Rightarrow> 'b list option" where
  "bump i f xs = (if i < length xs then Some (xs[i := f (xs ! i)]) else None)"

abbreviation second_of :: "'v::floor_ceiling \<Rightarrow> nat" where "second_of t \<equiv> nat \<lfloor>t / 1000\<rfloor>"

definition tally_hold :: "'v::floor_ceiling HoldRecord \<Rightarrow> TimelineBucket list \<times> int list \<Rightarrow> (TimelineBucket list \<times> int list) option" where
  "tally_hold x oc = (case oc of (out', change) \<Rightarrow> let arrivedIn = second_of (hr_atMs x) in
     Option.bind (bump arrivedIn (\<lambda>b. b\<lparr>tb_arrived := tb_arrived b + 1\<rparr>) out') (\<lambda>out1.
       case hr_doneMs x of
         None \<Rightarrow> map_option (\<lambda>out2. (out2, change)) (bump arrivedIn (\<lambda>b. b\<lparr>tb_errors := tb_errors b + 1\<rparr>) out1)
       | Some d \<Rightarrow> let answeredIn = second_of d in
           Option.bind (if isError (hr_cls x) then bump answeredIn (\<lambda>b. b\<lparr>tb_errors := tb_errors b + 1\<rparr>) out1
               else bump answeredIn (\<lambda>b. b\<lparr>tb_answered := tb_answered b + 1\<rparr>) out1) (\<lambda>out2.
             Option.bind (bump arrivedIn (\<lambda>n. n + 1) change) (\<lambda>change1.
               map_option (\<lambda>change2. (out2, change2)) (bump answeredIn (\<lambda>n. n - 1) change1)))))"

fun tally_holds :: "'v::floor_ceiling HoldRecord list \<Rightarrow> TimelineBucket list \<times> int list \<Rightarrow> (TimelineBucket list \<times> int list) option" where
  "tally_holds [] oc = Some oc"
| "tally_holds (x # xs) oc = Option.bind (tally_hold x oc) (tally_holds xs)"

fun fill_outstanding :: "int \<Rightarrow> TimelineBucket list \<Rightarrow> int list \<Rightarrow> TimelineBucket list" where
  "fill_outstanding waiting (b # bs) (c # cs) = b\<lparr>tb_outstanding := waiting + c\<rparr> # fill_outstanding (waiting + c) bs cs"
| "fill_outstanding waiting bs cs = bs"

definition timeline_end :: "'v::{linorder,zero} HoldRecord list \<Rightarrow> 'v" where
  "timeline_end holds = maxOf (map (\<lambda>x. case hr_doneMs x of Some d \<Rightarrow> d | None \<Rightarrow> hr_atMs x) holds)"

definition timeline :: "'v::floor_ceiling HoldRecord list \<Rightarrow> TimelineBucket list option" where
  "timeline holds = (let n = second_of (timeline_end holds) + 1 in
     map_option (\<lambda>(out', change). fill_outstanding 0 out' change)
       (tally_holds holds (map (\<lambda>s. \<lparr>tb_second = s, tb_arrived = 0, tb_answered = 0, tb_errors = 0, tb_outstanding = 0\<rparr>) [0..<n], replicate (n + 1) 0)))"

section \<open>The peak\<close>

definition peak_events :: "'v HoldRecord list \<Rightarrow> ('v \<times> int) list" where
  "peak_events holds = concat (map (\<lambda>x. case hr_doneMs x of None \<Rightarrow> [] | Some d \<Rightarrow> [(hr_atMs x, 1), (d, - 1)]) holds)"

text \<open>The sort compares the instants, then the changes: the order of pairs.\<close>

fun sweep_line :: "int \<Rightarrow> int \<Rightarrow> ('v \<times> int) list \<Rightarrow> int" where
  "sweep_line now peak [] = peak"
| "sweep_line now peak (e # es) = sweep_line (now + snd e) (max peak (now + snd e)) es"

definition peakOutstanding :: "'v::linorder HoldRecord list \<Rightarrow> int" where
  "peakOutstanding holds = sweep_line 0 0 (sort (peak_events holds))"

text \<open>Requests that wait at an instant: arrived by then, answered later.\<close>

definition waiting_at :: "'v::linorder \<Rightarrow> 'v HoldRecord \<Rightarrow> bool" where
  "waiting_at t x \<longleftrightarrow> (case hr_doneMs x of None \<Rightarrow> False | Some d \<Rightarrow> hr_atMs x \<le> t \<and> t < d)"

definition in_order :: "'v::linorder HoldRecord \<Rightarrow> bool" where
  "in_order x \<longleftrightarrow> (case hr_doneMs x of None \<Rightarrow> True | Some d \<Rightarrow> hr_atMs x \<le> d)"

definition changes :: "('v \<times> int \<Rightarrow> bool) \<Rightarrow> ('v \<times> int) list \<Rightarrow> int" where
  "changes P es = (\<Sum>e\<leftarrow>filter P es. snd e)"

lemma changes_simps [simp]: "changes P [] = 0" "changes P (e # es) = (if P e then snd e else 0) + changes P es" "changes P (xs @ ys) = changes P xs + changes P ys"
  by (simp_all add: changes_def)

lemma changes_mset: "mset xs = mset ys \<Longrightarrow> changes P xs = changes P ys"
  unfolding changes_def by (metis mset_filter mset_map sum_mset_sum_list)

lemma changes_sort [simp]: "changes P (sort xs) = changes P xs"
  by (rule changes_mset) simp

lemma changes_peak_events:
  "list_all in_order holds \<Longrightarrow> changes (\<lambda>e. fst e \<le> t) (peak_events holds) = int (count_if (waiting_at t) holds)"
  by (induction holds) (auto simp: peak_events_def count_if_def waiting_at_def in_order_def split: option.splits)

lemma Max_insert_max: "finite A \<Longrightarrow> Max (insert (max p n) A) = max p (Max (insert n A))" for p n :: int
  by (cases "A = {}") (simp_all add: max.assoc)

text \<open>The peak of a sweep is the largest of its partial sums.\<close>

lemma sweep_line_eq: "sweep_line now peak es = Max (insert peak ((\<lambda>k. now + (\<Sum>e\<leftarrow>take k es. snd e)) ` {1..length es}))"
proof (induction es arbitrary: now peak)
  case (Cons e es)
  have s: "{1..length (e # es)} = insert 1 (Suc ` {1..length es})" by (auto simp: image_iff Bex_def)
  have "(\<lambda>k. now + (\<Sum>e\<leftarrow>take k (e # es). snd e)) ` {1..length (e # es)}
      = insert (now + snd e) ((\<lambda>k. now + snd e + (\<Sum>e\<leftarrow>take k es. snd e)) ` {1..length es})"
    unfolding s image_insert image_image by (simp add: add.assoc)
  then show ?case by (simp add: Cons.IH Max_insert_max)
qed simp

lemma sweep_line_mem: "sweep_line now peak es \<in> insert peak ((\<lambda>k. now + (\<Sum>e\<leftarrow>take k es. snd e)) ` {1..length es})"
  unfolding sweep_line_eq by (rule Max_in) simp_all

lemma sweep_line_ge: "x \<in> insert peak ((\<lambda>k. now + (\<Sum>e\<leftarrow>take k es. snd e)) ` {1..length es}) \<Longrightarrow> x \<le> sweep_line now peak es"
  unfolding sweep_line_eq by (rule Max_ge) simp_all

lemma sweep_line_props:
  shows "peak \<le> sweep_line now peak es" and "1 \<le> k \<Longrightarrow> k \<le> length es \<Longrightarrow> now + (\<Sum>e\<leftarrow>take k es. snd e) \<le> sweep_line now peak es"
    and "sweep_line now peak es = peak \<or> (\<exists>k. 1 \<le> k \<and> k \<le> length es \<and> sweep_line now peak es = now + (\<Sum>e\<leftarrow>take k es. snd e))"
  using sweep_line_mem [of now peak es]
  by (rule_tac [1] sweep_line_ge, rule_tac [2] sweep_line_ge, simp_all only: insert_iff image_iff Bex_def atLeastAtMost_iff) blast+

lemma pair_le_fst: "e \<le> f \<Longrightarrow> fst e \<le> fst f" for e f :: "'v::linorder \<times> int"
  by (cases e; cases f) (auto simp: less_eq_prod_def)

lemma takeWhile_fst_sorted: "sorted es \<Longrightarrow> filter (\<lambda>e. fst e \<le> t) es = takeWhile (\<lambda>e. fst e \<le> t) es" for es :: "('v::linorder \<times> int) list"
proof (induction es)
  case (Cons e es)
  have "\<not> fst e \<le> t \<Longrightarrow> f \<in> set es \<Longrightarrow> \<not> fst f \<le> t" for f using Cons.prems pair_le_fst [of e f] by auto
  then have "\<not> fst e \<le> t \<Longrightarrow> filter (\<lambda>e. fst e \<le> t) es = []" by (simp only: filter_empty_conv) blast
  then show ?case using Cons by simp
qed simp

lemma changes_prefix: "sorted es \<Longrightarrow> \<exists>k\<le>length es. changes (\<lambda>e. fst e \<le> t) es = (\<Sum>e\<leftarrow>take k es. snd e)" for es :: "('v::linorder \<times> int) list"
  by (rule exI [of _ "length (takeWhile (\<lambda>e. fst e \<le> t) es)"]) (simp add: changes_def takeWhile_fst_sorted length_takeWhile_le takeWhile_eq_take [symmetric])

lemma prefix_changes:
  fixes es :: "('v::linorder \<times> int) list"
  assumes "sorted es" and "k < length es" and "0 < snd (es ! k)"
  shows "(\<Sum>e\<leftarrow>take (Suc k) es. snd e) \<le> changes (\<lambda>e. fst e \<le> fst (es ! k)) es"
proof -
  let ?P = "\<lambda>e. fst e \<le> fst (es ! k)"
  have le: "i < length es \<Longrightarrow> i \<le> k \<Longrightarrow> es ! i \<le> es ! k" "i < length es \<Longrightarrow> k \<le> i \<Longrightarrow> es ! k \<le> es ! i" for i
    using assms(1,2) by (auto intro: sorted_nth_mono)
  have "?P e" if "e \<in> set (take (Suc k) es)" for e
  proof -
    from that assms(2) obtain i where "i < Suc k" "e = es ! i" by (auto simp: in_set_conv_nth)
    with le(1) [of i] assms(2) show ?thesis by (simp add: pair_le_fst)
  qed
  then have p: "changes ?P (take (Suc k) es) = (\<Sum>e\<leftarrow>take (Suc k) es. snd e)" by (simp add: changes_def filter_id_conv)
  have "0 \<le> snd e" if "e \<in> set (drop (Suc k) es)" "?P e" for e
  proof -
    from that(1) obtain i where "i < length es - Suc k" "e = es ! (Suc k + i)" by (auto simp: in_set_conv_nth)
    with le(2) [of "Suc k + i"] that(2) assms(3) show ?thesis by (auto simp: less_eq_prod_def less_diff_conv add.commute)
  qed
  then have "0 \<le> changes ?P (drop (Suc k) es)" by (auto simp: changes_def intro!: sum_list_nonneg)
  moreover have "changes ?P es = changes ?P (take (Suc k) es) + changes ?P (drop (Suc k) es)" by (metis append_take_drop_id changes_simps(3))
  ultimately show ?thesis using p by simp
qed

lemma peak_events_snd: "e \<in> set (peak_events holds) \<Longrightarrow> snd e = 1 \<or> snd e = - 1"
  by (auto simp: peak_events_def split: option.splits)

text \<open>
  C35: the peak is the largest number of requests that wait at one instant, whichever instant that is.
\<close>

theorem peakOutstanding_exact:
  assumes "list_all in_order (holds :: 'v::linorder HoldRecord list)"
  shows "(\<forall>t. int (count_if (waiting_at t) holds) \<le> peakOutstanding holds) \<and> (\<exists>t. int (count_if (waiting_at t) holds) = peakOutstanding holds)"
proof -
  let ?es = "sort (peak_events holds)" and ?count = "\<lambda>t. int (count_if (waiting_at t) holds)"
  note P = sweep_line_props(1) [of 0 0 ?es] sweep_line_props(2) [of _ ?es 0 0] sweep_line_props(3) [of 0 0 ?es]
  have c: "changes (\<lambda>e. fst e \<le> t) ?es = ?count t" for t using changes_peak_events [OF assms] by simp
  have le: "?count t \<le> peakOutstanding holds" for t
  proof -
    obtain k where "k \<le> length ?es" "?count t = (\<Sum>e\<leftarrow>take k ?es. snd e)" using changes_prefix [of ?es t] c by auto
    then show ?thesis using P(1) P(2) [of k] by (cases k) (auto simp: peakOutstanding_def)
  qed
  have "\<exists>t. peakOutstanding holds \<le> ?count t"
  proof (cases "peakOutstanding holds = 0")
    case False
    define good where "good k \<longleftrightarrow> 1 \<le> k \<and> k \<le> length ?es \<and> peakOutstanding holds = (\<Sum>e\<leftarrow>take k ?es. snd e)" for k
    define k where "k = (LEAST k. good k)"
    have "\<exists>k. good k" using P(3) False by (auto simp: peakOutstanding_def good_def)
    then have g: "good k" "\<And>j. j < k \<Longrightarrow> \<not> good j" unfolding k_def using LeastI_ex not_less_Least by blast+
    then obtain j where j: "k = Suc j" "j < length ?es" by (cases k) (auto simp: good_def)
    have s: "peakOutstanding holds = (\<Sum>e\<leftarrow>take j ?es. snd e) + snd (?es ! j)" using g(1) j by (simp add: good_def take_Suc_conv_app_nth)
    have "snd (?es ! j) = 1 \<or> snd (?es ! j) = - 1" using peak_events_snd [of "?es ! j" holds] nth_mem [OF j(2)] by simp
    moreover have "(\<Sum>e\<leftarrow>take j ?es. snd e) \<le> peakOutstanding holds" using P(1) P(2) [of j] j(2) by (cases j) (auto simp: peakOutstanding_def)
    ultimately have "0 < snd (?es ! j)" using s by auto
    from prefix_changes [OF sorted_sort j(2) this] g(1) j c show ?thesis by (auto simp: good_def)
  qed (metis of_nat_0_le_iff)
  with le show ?thesis by (metis order_antisym)
qed

definition demo_record :: "nat \<Rightarrow> rat \<Rightarrow> rat option \<Rightarrow> string \<Rightarrow> rat HoldRecord" where
  "demo_record n t d c = \<lparr>hr_seq = n, hr_step = 0, hr_mix = Distinct_dates, hr_cls = classify c, hr_code = c, hr_atMs = t, hr_startedMs = t, hr_doneMs = d,
     hr_e2eMs = map_option (\<lambda>x. x - t) d, hr_e2eCensored = (classify c = C_transport), hr_stored = None, hr_phases = NO_PHASES\<rparr>"

definition demo_holds :: "rat HoldRecord list" where
  "demo_holds = [demo_record 0 100 (Some 1700) ''ok'', demo_record 1 300 None ''shed'', demo_record 2 900 (Some 1700) ''hold_conflict'', demo_record 3 1700 (Some 2500) ''timeout'']"

theorem peakOutstanding_exact_witness:
  "peakOutstanding demo_holds = 2 \<and> int (count_if (waiting_at 1000) demo_holds) = 2 \<and> (\<forall>t. count_if (waiting_at t) demo_holds \<le> 2)"
proof -
  have w: "list_all in_order demo_holds" by code_simp
  have "peakOutstanding demo_holds = 2" "int (count_if (waiting_at 1000) demo_holds) = 2" by code_simp+
  with peakOutstanding_exact [OF w] show ?thesis by auto
qed

text \<open>What a second of the timeline shows.\<close>

definition in_time :: "'v::floor_ceiling HoldRecord \<Rightarrow> bool" where
  "in_time x \<longleftrightarrow> 0 \<le> hr_atMs x \<and> (case hr_doneMs x of None \<Rightarrow> True | Some d \<Rightarrow> hr_atMs x \<le> d)"

definition arrives_in :: "nat \<Rightarrow> 'v::floor_ceiling HoldRecord \<Rightarrow> bool" where
  "arrives_in k x \<longleftrightarrow> second_of (hr_atMs x) = k"

definition ends_in :: "nat \<Rightarrow> 'v::floor_ceiling HoldRecord \<Rightarrow> bool" where
  "ends_in k x \<longleftrightarrow> (case hr_doneMs x of None \<Rightarrow> False | Some d \<Rightarrow> second_of d = k)"

definition bucket :: "'v::floor_ceiling HoldRecord list \<Rightarrow> nat \<Rightarrow> TimelineBucket" where
  "bucket holds k = \<lparr>tb_second = k, tb_arrived = count_if (arrives_in k) holds,
     tb_answered = count_if (\<lambda>x. ends_in k x \<and> \<not> isError (hr_cls x)) holds,
     tb_errors = count_if (\<lambda>x. if hr_doneMs x = None then arrives_in k x else ends_in k x \<and> isError (hr_cls x)) holds,
     tb_outstanding = int (count_if (\<lambda>x. case hr_doneMs x of None \<Rightarrow> False | Some d \<Rightarrow> hr_atMs x < of_nat (k + 1) * 1000 \<and> of_nat (k + 1) * 1000 \<le> d) holds)\<rparr>"

lemma count_if_simps [simp]: "count_if P [] = 0" "count_if P (x # xs) = (if P x then 1 else 0) + count_if P xs"
  by (simp_all add: count_if_def)

definition raise_bucket :: "'v::floor_ceiling HoldRecord list \<Rightarrow> nat \<Rightarrow> TimelineBucket \<Rightarrow> TimelineBucket" where
  "raise_bucket holds k b = b\<lparr>tb_arrived := tb_arrived b + tb_arrived (bucket holds k), tb_answered := tb_answered b + tb_answered (bucket holds k),
     tb_errors := tb_errors b + tb_errors (bucket holds k)\<rparr>"

definition change_in :: "'v::floor_ceiling HoldRecord list \<Rightarrow> nat \<Rightarrow> int" where
  "change_in holds k = int (count_if (\<lambda>x. hr_doneMs x \<noteq> None \<and> arrives_in k x) holds) - int (count_if (ends_in k) holds)"

lemma tally_hold_eq:
  assumes "second_of (hr_atMs x) < n" and "\<And>d. hr_doneMs x = Some d \<Longrightarrow> second_of d < n" and "length bs = n" and "length cs = n + 1"
  shows "tally_hold x (bs, cs) = Some (map (\<lambda>k. raise_bucket [x] k (bs ! k)) [0..<n], map (\<lambda>k. cs ! k + change_in [x] k) [0..<n + 1])"
  using assms
  by (cases "hr_doneMs x")
    (auto simp: tally_hold_def Let_def bump_def raise_bucket_def change_in_def bucket_def arrives_in_def ends_in_def nth_list_update simp del: upt_Suc intro!: nth_equalityI)

lemma change_in_Cons: "change_in (x # xs) k = change_in [x] k + change_in xs k"
  by (simp add: change_in_def)

lemma raise_bucket_Cons: "raise_bucket (x # xs) k b = raise_bucket xs k (raise_bucket [x] k b)"
  by (simp add: raise_bucket_def bucket_def)

lemma tally_holds_eq:
  assumes "\<forall>x\<in>set xs. second_of (hr_atMs x) < n \<and> (\<forall>d. hr_doneMs x = Some d \<longrightarrow> second_of d < n)" and "length bs = n" and "length cs = n + 1"
  shows "tally_holds xs (bs, cs) = Some (map (\<lambda>k. raise_bucket xs k (bs ! k)) [0..<n], map (\<lambda>k. cs ! k + change_in xs k) [0..<n + 1])"
  using assms
proof (induction xs arbitrary: bs cs)
  case Nil
  then show ?case by (auto simp: raise_bucket_def bucket_def change_in_def simp del: upt_Suc intro!: nth_equalityI)
next
  case (Cons x xs)
  have "tally_hold x (bs, cs) = Some (map (\<lambda>k. raise_bucket [x] k (bs ! k)) [0..<n], map (\<lambda>k. cs ! k + change_in [x] k) [0..<n + 1])"
    by (rule tally_hold_eq) (use Cons.prems in auto)
  then show ?case using Cons.IH [of "map (\<lambda>k. raise_bucket [x] k (bs ! k)) [0..<n]" "map (\<lambda>k. cs ! k + change_in [x] k) [0..<n + 1]"] Cons.prems
    by (auto simp: raise_bucket_Cons [of x xs] change_in_Cons [of x xs] simp del: upt_Suc)
qed

lemma fill_outstanding_eq: "length bs \<le> length cs \<Longrightarrow> fill_outstanding w bs cs
    = map (\<lambda>k. (bs ! k)\<lparr>tb_outstanding := w + sum_list (take (Suc k) cs)\<rparr>) [0..<length bs]"
proof (induction w bs cs rule: fill_outstanding.induct)
  case (1 w b bs c cs)
  then show ?case by (simp add: map_upt_Suc add.assoc del: upt_Suc)
qed auto

lemma second_of_le: "0 \<le> t \<Longrightarrow> second_of t \<le> k \<longleftrightarrow> t < of_nat (k + 1) * 1000" for t :: "'v::floor_ceiling"
proof -
  have "second_of t \<le> k \<longleftrightarrow> \<lfloor>t / 1000\<rfloor> \<le> int k" by (simp add: nat_le_iff)
  also have "\<dots> \<longleftrightarrow> t / 1000 < of_nat k + 1" by (simp add: floor_le_iff)
  finally show ?thesis by (simp add: pos_divide_less_eq add.commute)
qed

definition outstanding_after :: "nat \<Rightarrow> 'v::floor_ceiling HoldRecord \<Rightarrow> bool" where
  "outstanding_after k x \<longleftrightarrow> (case hr_doneMs x of None \<Rightarrow> False | Some d \<Rightarrow> hr_atMs x < of_nat (k + 1) * 1000 \<and> of_nat (k + 1) * 1000 \<le> d)"

lemma sum_change_one: "in_time x \<Longrightarrow> (\<Sum>j<Suc k. change_in [x] j) = (if outstanding_after k x then 1 else 0)"
proof (cases "hr_doneMs x")
  case (Some d)
  assume w: "in_time x"
  with Some have t: "0 \<le> hr_atMs x" "hr_atMs x \<le> d" by (auto simp: in_time_def)
  have s: "change_in [x] j = (if j = second_of (hr_atMs x) then 1 else 0) - (if j = second_of d then 1 else 0)" for j
    using Some by (auto simp: change_in_def arrives_in_def ends_in_def)
  have "(\<Sum>j<Suc k. change_in [x] j) = (if second_of (hr_atMs x) \<le> k then 1 else 0) - (if second_of d \<le> k then 1 else 0)"
    unfolding s sum_subtractf by (simp add: sum.delta' less_Suc_eq_le del: sum.lessThan_Suc)
  also have "\<dots> = (if hr_atMs x < of_nat (k + 1) * 1000 then 1 else 0) - (if d < of_nat (k + 1) * 1000 then 1 else 0)"
    using t by (simp only: second_of_le order_trans [OF t])
  finally show ?thesis using Some t by (auto simp: outstanding_after_def)
qed (auto simp: change_in_def outstanding_after_def ends_in_def)

lemma sum_change_in: "\<forall>x\<in>set xs. in_time x \<Longrightarrow> (\<Sum>j<Suc k. change_in xs j) = int (count_if (outstanding_after k) xs)"
proof (induction xs)
  case (Cons x xs)
  have "(\<Sum>j<Suc k. change_in (x # xs) j) = (\<Sum>j<Suc k. change_in [x] j) + (\<Sum>j<Suc k. change_in xs j)"
    unfolding change_in_Cons [of x xs] sum.distrib ..
  with Cons show ?case by (simp add: sum_change_one del: sum.lessThan_Suc)
qed (simp add: change_in_def)

lemma maxOf_ge: "x \<in> set xs \<Longrightarrow> x \<le> maxOf xs" "0 \<le> maxOf xs"
proof (induction xs rule: rev_induct)
  case (snoc y xs)
  { case 1 with snoc show ?case by (auto simp: maxOf_def) next case 2 with snoc show ?case by (auto simp: maxOf_def) }
qed (simp_all add: maxOf_def)

lemma second_of_mono: "s \<le> t \<Longrightarrow> second_of s \<le> second_of t" for t :: "'v::floor_ceiling"
  by (simp add: nat_mono floor_mono divide_right_mono)

lemma ends_before: "x \<in> set holds \<Longrightarrow> hr_doneMs x = Some d \<Longrightarrow> d \<le> timeline_end holds"
  "x \<in> set holds \<Longrightarrow> hr_doneMs x = None \<Longrightarrow> hr_atMs x \<le> timeline_end holds"
  unfolding timeline_end_def by (force intro!: maxOf_ge(1))+

text \<open>
  For records that are answered after they arrive the timeline is returned, one row for each second up to the last answer:
  what arrived in it, what was answered and what failed in it, and how many requests waited at its end.
\<close>

lemma timeline_eq:
  assumes "\<forall>x\<in>set holds. in_time (x :: 'v::floor_ceiling HoldRecord)"
  shows "timeline holds = Some (map (bucket holds) [0..<second_of (timeline_end holds) + 1])"
proof -
  define n where "n = second_of (timeline_end holds) + 1"
  let ?bs = "map (\<lambda>s. \<lparr>tb_second = s, tb_arrived = 0, tb_answered = 0, tb_errors = 0, tb_outstanding = 0\<rparr>) [0..<n]"
  have "second_of (hr_atMs x) < n \<and> (\<forall>d. hr_doneMs x = Some d \<longrightarrow> second_of d < n)" if x: "x \<in> set holds" for x
  proof (cases "hr_doneMs x")
    case None
    with ends_before(2) [OF x] second_of_mono [of "hr_atMs x"] show ?thesis by (auto simp: n_def less_Suc_eq_le)
  next
    case (Some d)
    with assms x have "hr_atMs x \<le> d" by (auto simp: in_time_def)
    with Some ends_before(1) [OF x Some] second_of_mono [of "hr_atMs x" "timeline_end holds"] second_of_mono [of d "timeline_end holds"]
    show ?thesis by (auto simp: n_def less_Suc_eq_le)
  qed
  then have "tally_holds holds (?bs, replicate (n + 1) 0) = Some (map (\<lambda>k. raise_bucket holds k (?bs ! k)) [0..<n],
      map (\<lambda>k. replicate (n + 1) 0 ! k + change_in holds k) [0..<n + 1])" by (intro tally_holds_eq) auto
  moreover have "map (\<lambda>k. replicate (n + 1) 0 ! k + change_in holds k) [0..<n + 1] = map (change_in holds) [0..<n + 1]"
    by (rule map_cong) (auto simp del: upt_Suc replicate_Suc)
  ultimately have "tally_holds holds (?bs, replicate (n + 1) 0) = Some (map (\<lambda>k. raise_bucket holds k (?bs ! k)) [0..<n], map (change_in holds) [0..<n + 1])"
    by simp
  then have "timeline holds = Some (fill_outstanding 0 (map (\<lambda>k. raise_bucket holds k (?bs ! k)) [0..<n]) (map (change_in holds) [0..<n + 1]))"
    unfolding timeline_def Let_def n_def [symmetric] by simp
  also have "\<dots> = Some (map (bucket holds) [0..<n])"
    using sum_change_in [OF assms]
    by (simp add: fill_outstanding_eq raise_bucket_def bucket_def outstanding_after_def [abs_def] take_map take_upt interv_sum_list_conv_sum_set_nat atLeast0LessThan
      del: upt_Suc sum.lessThan_Suc)
  finally show ?thesis by (simp add: n_def)
qed

lemma timeline_returns: "\<forall>x\<in>set holds. in_time (x :: 'v::floor_ceiling HoldRecord) \<Longrightarrow> \<exists>buckets. timeline holds = Some buckets"
  by (simp add: timeline_eq)

end
