(* ===== verification/HarnessTargets.thy ===== *)
theory HarnessTargets
  imports HarnessLoad HarnessObserve
begin

text \<open>
  \<open>apps/harness/src/load.ts\<close>, second part: whether a run is evidence, the targets of the design applied to one step, and
  the report of a whole run. A reason is a constructor with what its text carries.
\<close>

section \<open>Whether a run is evidence\<close>

datatype TargetKind = Engine | Http

text \<open>The reasons of an invalid run, with what their texts carry.\<close>

datatype 'v Reason =
    Sweeper_errors nat
  | Sweeper_never_ran
  | Overlapping_pairs nat
  | Outside_capacity nat
  | Hold_records nat nat
  | Follow_up_records nat nat
  | Target_threw nat
  | Follow_ups_failed nat nat "(string \<times> nat) list"
  | None_ran nat
  | Few_ran nat nat nat
  | No_answer nat nat nat nat
  | Strange_answers nat nat "(string \<times> nat) list"
  | Last_step_failed 'v "(string \<times> nat) list"

record 'v LoadRun =
  lr_kind :: TargetKind
  lr_records :: "'v HoldRecord list"
  lr_followUps :: "'v FollowUpRecord list"
  lr_sweep :: SweepStats
  lr_overlaps :: nat
  lr_fitViolations :: nat
  lr_lastStep :: "'v StepSummary option"
  lr_plannedHolds :: nat
  lr_plannedFollowUps :: nat
  lr_targetThrows :: nat

definition follow_text :: "FollowKind \<Rightarrow> string" where
  "follow_text k = (case k of Confirms \<Rightarrow> ''confirm'' | Cancels \<Rightarrow> ''cancel'')"

definition unanswered_holds :: "'v HoldRecord list \<Rightarrow> 'v HoldRecord list" where
  "unanswered_holds rs = filter (\<lambda>x. hr_cls x = C_transport) rs"

definition stored_as :: "Stored \<Rightarrow> 'v HoldRecord list \<Rightarrow> nat" where
  "stored_as s rs = count_if (\<lambda>x. hr_stored x = Some s) rs"

text \<open>\<open>n / m > 0.001\<close> and \<open>n < m * 0.5\<close> on counts.\<close>

definition reasons_of :: "'v::linordered_field LoadRun \<Rightarrow> 'v Reason list" where
  "reasons_of run = (let ran = executed (lr_followUps run); failed = filter (\<lambda>x. fr_code x \<noteq> ''ok'') ran;
     granted = granted_holds (lr_records run); runnable = min (length (lr_followUps run)) granted;
     lost = unanswered_holds (lr_records run);
     unanswered = length lost + count_if (\<lambda>x. classify (fr_code x) = C_transport) (lr_followUps run);
     strange = filter (\<lambda>x. hr_cls x = C_other) (lr_records run) in
     (if 0 < ss_errors (lr_sweep run) then [Sweeper_errors (ss_errors (lr_sweep run))] else [])
     @ (if ss_ticks (lr_sweep run) = 0 then [Sweeper_never_ran] else [])
     @ (if 0 < lr_overlaps run then [Overlapping_pairs (lr_overlaps run)] else [])
     @ (if 0 < lr_fitViolations run then [Outside_capacity (lr_fitViolations run)] else [])
     @ (if length (lr_records run) \<noteq> lr_plannedHolds run then [Hold_records (length (lr_records run)) (lr_plannedHolds run)] else [])
     @ (if length (lr_followUps run) \<noteq> lr_plannedFollowUps run then [Follow_up_records (length (lr_followUps run)) (lr_plannedFollowUps run)] else [])
     @ (if 0 < lr_targetThrows run then [Target_threw (lr_targetThrows run)] else [])
     @ (if 0 < length ran \<and> length ran < 1000 * length failed
         then [Follow_ups_failed (length failed) (length ran) (count_codes (map (\<lambda>x. follow_text (fr_kind x) @ '':'' @ fr_code x) failed))] else [])
     @ (if 0 < length (lr_followUps run) \<and> length ran = 0 then [None_ran (length (lr_followUps run))]
        else if 2 * length ran < runnable then [Few_ran (length ran) (length (lr_followUps run)) granted] else [])
     @ (if 0 < unanswered then [No_answer unanswered (stored_as Granted lost) (stored_as Refused lost) (stored_as Unobserved lost)] else [])
     @ (if 0 < length (lr_records run) \<and> length (lr_records run) < 1000 * length strange
         then [Strange_answers (length strange) (length (lr_records run)) (count_codes (map hr_code strange))] else [])
     @ (case lr_lastStep run of Some s \<Rightarrow> if lr_kind run = Engine \<and> 1 / 1000 < su_errorRate s
           then [Last_step_failed (su_errorRate s * 100) (su_byCode s)] else []
         | None \<Rightarrow> []))"

definition runValidity :: "'v::linordered_field LoadRun \<Rightarrow> bool \<times> 'v Reason list" where
  "runValidity run = (reasons_of run = [], reasons_of run)"

section \<open>The targets\<close>

datatype Scope = Scope_http | Scope_engine | Scope_database
datatype Check_status = Met | Missed | Inconclusive | No_data | Not_measured

record 'v TargetCheck =
  tc_name :: string
  tc_scope :: Scope
  tc_limit :: 'v
  tc_atLeast :: "'v option"
  tc_atMost :: "'v option"
  tc_status :: Check_status
  tc_note :: "string option"

record 'v OfferedWorkload =
  ow_blend :: Blend
  ow_followUpRatio :: 'v
  ow_sweep :: SweepConfig
  ow_units :: nat
  ow_combos :: nat

definition TARGET_ratePerSec :: "'v::linordered_field" where "TARGET_ratePerSec = 50"
definition TARGET_seconds :: "'v::linordered_field" where "TARGET_seconds = 600"

definition TARGET_WORKLOAD :: "'v::linordered_field OfferedWorkload" where
  "TARGET_WORKLOAD = \<lparr>ow_blend = TARGET_BLEND, ow_followUpRatio = 1 / 5, ow_sweep = DESIGN_SWEEP, ow_units = 40, ow_combos = 10\<rparr>"

datatype 'v Difference =
    Offered_rate 'v 'v
  | Sustained 'v 'v
  | Other_blend Blend Blend
  | Other_ratio 'v 'v
  | Other_sweeper SweepConfig SweepConfig
  | Other_venue nat nat nat nat

definition workloadDifferences :: "'v::linordered_field StepSummary \<Rightarrow> 'v OfferedWorkload \<Rightarrow> 'v Difference list" where
  "workloadDifferences s w = (let t = TARGET_WORKLOAD in
     (if su_ratePerSec s < TARGET_ratePerSec then [Offered_rate (su_ratePerSec s) TARGET_ratePerSec] else [])
     @ (if su_seconds s < TARGET_seconds then [Sustained (su_seconds s) TARGET_seconds] else [])
     @ (if list_ex (\<lambda>m. 1 / 1000000000 < \<bar>ow_blend w m - ow_blend t m\<bar>) MIXES then [Other_blend (ow_blend w) (ow_blend t)] else [])
     @ (if 1 / 1000000000 < \<bar>ow_followUpRatio w - ow_followUpRatio t\<bar> then [Other_ratio (ow_followUpRatio w) (ow_followUpRatio t)] else [])
     @ (if sc_everyMs (ow_sweep w) \<noteq> sc_everyMs (ow_sweep t) \<or> sc_limit (ow_sweep w) \<noteq> sc_limit (ow_sweep t) \<or> sc_drain (ow_sweep w) \<noteq> sc_drain (ow_sweep t)
         then [Other_sweeper (ow_sweep w) (ow_sweep t)] else [])
     @ (if ow_units w \<noteq> ow_units t \<or> ow_combos w \<noteq> ow_combos t then [Other_venue (ow_units w) (ow_combos w) (ow_units t) (ow_combos t)] else []))"

definition bounded :: "string \<Rightarrow> Scope \<Rightarrow> 'v::linorder Quantile option \<Rightarrow> 'v \<Rightarrow> string option \<Rightarrow> 'v TargetCheck" where
  "bounded name scope q limit note = \<lparr>tc_name = name, tc_scope = scope, tc_limit = limit, tc_atLeast = map_option atLeast q,
     tc_atMost = Option.bind q atMost, tc_status = (case q of None \<Rightarrow> No_data
       | Some b \<Rightarrow> if limit < atLeast b then Missed else (case atMost b of Some m \<Rightarrow> if m \<le> limit then Met else Inconclusive | None \<Rightarrow> Inconclusive)),
     tc_note = note\<rparr>"

definition exactly :: "string \<Rightarrow> Scope \<Rightarrow> 'v::linorder option \<Rightarrow> 'v \<Rightarrow> 'v TargetCheck" where
  "exactly name scope value limit = bounded name scope (map_option (\<lambda>v. \<lparr>atLeast = v, atMost = Some v\<rparr>) value) limit None"

definition elsewhere :: "string \<Rightarrow> Scope \<Rightarrow> 'v \<Rightarrow> string \<Rightarrow> 'v TargetCheck" where
  "elsewhere name scope limit note = \<lparr>tc_name = name, tc_scope = scope, tc_limit = limit, tc_atLeast = None, tc_atMost = None,
     tc_status = Not_measured, tc_note = Some note\<rparr>"

definition censoredNote :: "'v Dist \<Rightarrow> string \<Rightarrow> string" where
  "censoredNote d what = what @ ''; '' @ show_nat (d_censored d) @ '' of '' @ show_nat (d_count d)
     @ '' sample(s) are lower bounds, because the request ended inside the phase''"

definition target_checks :: "TargetKind \<Rightarrow> 'v::linordered_field StepSummary \<Rightarrow> 'v TargetCheck list" where
  "target_checks kind s = (let e2e = mx_e2eMs (su_all s); wait = mx_poolWaitMs (su_all s); lock = mx_unitLockMs (su_mixes s Distinct_dates) in
     case kind of
       Http \<Rightarrow>
        [bounded ''hold end-to-end p95 ms'' Scope_http (d_p95 e2e) 150 (Some (censoredNote e2e ''planned arrival to the API's answer'')),
         bounded ''hold end-to-end p99 ms'' Scope_http (d_p99 e2e) 500 (Some (censoredNote e2e ''planned arrival to the API's answer'')),
         exactly ''error rate excluding conflicts'' Scope_http (if su_offered s = 0 then None else Some (su_errorRate s)) (1 / 1000),
         elsewhere ''pool-acquire wait p99 ms'' Scope_engine 50 ''not observable over HTTP; run the same plan with the engine target'',
         elsewhere ''unit-lock phase p99 ms, distinct dates'' Scope_engine 100 ''not observable over HTTP; run the same plan with the engine target'']
     | Engine \<Rightarrow>
        [elsewhere ''hold end-to-end p95 ms'' Scope_http 150
           ''defined at the API: authentication, validation, and the key lookup's pool checkout are outside the engine target'',
         elsewhere ''hold end-to-end p99 ms'' Scope_http 500 ''defined at the API; see above'',
         elsewhere ''error rate excluding conflicts'' Scope_http (1 / 1000) ''defined at the API; see above'',
         bounded ''pool-acquire wait p99 ms'' Scope_engine (d_p99 wait) 50 (Some (censoredNote wait ''the command's checkout only'')),
         bounded ''unit-lock phase p99 ms, distinct dates'' Scope_engine (d_p99 lock) 100
           (Some (censoredNote lock ''lock statements: round trips plus advisory-lock wait''))])"

datatype Verdict = V_met | V_missed | V_inconclusive | V_invalid

record 'v TargetVerdict =
  tv_verdict :: Verdict
  tv_checks :: "'v TargetCheck list"
  tv_matchesTarget :: bool
  tv_differences :: "'v Difference list"

definition evaluateTargets :: "TargetKind \<Rightarrow> 'v::linordered_field StepSummary \<Rightarrow> int \<Rightarrow> bool \<Rightarrow> 'v OfferedWorkload \<Rightarrow> 'v TargetVerdict" where
  "evaluateTargets kind s deadlockDelta valid offered = (let
     checks = target_checks kind s @ [exactly ''deadlocks'' Scope_database (Some (of_int deadlockDelta)) 0];
     evaluated = filter (\<lambda>c. tc_status c \<noteq> Not_measured) checks; differences = workloadDifferences s offered in
     \<lparr>tv_verdict = (if \<not> valid then V_invalid
        else if list_ex (\<lambda>c. tc_status c = Missed) evaluated then V_missed
        else if differences \<noteq> [] \<or> list_ex (\<lambda>c. tc_status c = No_data \<or> tc_status c = Inconclusive) evaluated then V_inconclusive else V_met),
      tv_checks = checks, tv_matchesTarget = (differences = []), tv_differences = differences\<rparr>)"

lemma bounded_holds:
  assumes "completes ss xs" and "p \<le> 100"
  shows "tc_status (bounded n s (quantile ss p) l note) = Met \<Longrightarrow> ss \<noteq> [] \<and> sort xs ! rank p (length ss) \<le> l"
    and "tc_status (bounded n s (quantile ss p) l note) = Missed \<Longrightarrow> l < sort xs ! rank p (length ss)"
proof -
  have q: "q = order_bounds ss (rank p (length ss)) \<and> rank p (length ss) < length ss" if "quantile ss p = Some q" for q
    using quantile_bounds [OF that assms(2)] .
  show "ss \<noteq> [] \<and> sort xs ! rank p (length ss) \<le> l" if "tc_status (bounded n s (quantile ss p) l note) = Met"
  proof (cases "quantile ss p")
    case (Some b)
    with that obtain m where "atMost b = Some m" "m \<le> l" by (auto simp: bounded_def split: if_splits option.splits)
    with q [OF Some] order_bounds_hold(2) [OF assms(1), of _ m] show ?thesis by force
  qed (use that in \<open>simp add: bounded_def\<close>)
  show "l < sort xs ! rank p (length ss)" if "tc_status (bounded n s (quantile ss p) l note) = Missed"
  proof (cases "quantile ss p")
    case (Some b)
    with that have "l < atLeast b" by (auto simp: bounded_def split: if_splits option.splits)
    with q [OF Some] order_bounds_hold(1) [OF assms(1), of "rank p (length ss)"] show ?thesis by force
  qed (use that in \<open>simp add: bounded_def\<close>)
qed

lemma exactly_status: "tc_status (exactly n s value l) = Met \<longleftrightarrow> (\<exists>v. value = Some v \<and> v \<le> l)"
    "tc_status (exactly n s value l) = Missed \<longleftrightarrow> (\<exists>v. value = Some v \<and> l < v)" "tc_status (exactly n s value l) \<noteq> Not_measured"
  by (cases "value"; simp add: exactly_def bounded_def not_le)+

lemma bounded_measured [simp]: "tc_status (bounded n s q l note) \<noteq> Not_measured" "tc_status (elsewhere n s l t) = Not_measured"
  by (auto simp: bounded_def elsewhere_def split: option.splits)

text \<open>The samples a target is about, its percentile and its limit.\<close>

definition judged :: "TargetKind \<Rightarrow> 'v::linordered_field HoldRecord list \<Rightarrow> ('v Sample list \<times> nat \<times> 'v) list" where
  "judged kind rs = (case kind of
      Http \<Rightarrow> [(samples rs hr_e2eMs hr_e2eCensored, 95, 150), (samples rs hr_e2eMs hr_e2eCensored, 99, 500)]
    | Engine \<Rightarrow> [(samples rs (\<lambda>x. ph_poolWaitMs (hr_phases x)) (\<lambda>x. ph_poolWaitCensored (hr_phases x)), 99, 50),
        (samples (filter (\<lambda>x. hr_mix x = Distinct_dates) rs) (\<lambda>x. ph_unitLockMs (hr_phases x)) (\<lambda>x. ph_unitLockCensored (hr_phases x)), 99, 100)])"

definition failed_holds :: "'v HoldRecord list \<Rightarrow> nat" where
  "failed_holds rs = count_if (\<lambda>x. isError (hr_cls x)) rs"

lemma dist_quantiles: "d_p95 (dist ss) = quantile ss 95" "d_p99 (dist ss) = quantile ss 99"
  by (simp_all add: dist_def Let_def)

definition error_value :: "'v::linordered_field HoldRecord list \<Rightarrow> 'v option" where
  "error_value rs = (if rs = [] then None else Some (of_nat (failed_holds rs) / of_nat (length rs)))"

lemma error_value_limit: "(\<exists>v. error_value rs = Some v \<and> v \<le> (1 / 1000 :: 'v::linordered_field)) \<longleftrightarrow> rs \<noteq> [] \<and> 1000 * failed_holds rs \<le> length rs"
  "(\<exists>v. error_value rs = Some v \<and> (1 / 1000 :: 'v::linordered_field) < v) \<longleftrightarrow> length rs < 1000 * failed_holds rs"
proof -
  have le: "of_nat (failed_holds rs) / of_nat (length rs) \<le> (1 / 1000 :: 'v) \<longleftrightarrow> 1000 * failed_holds rs \<le> length rs" if "rs \<noteq> []"
  proof -
    have "of_nat (failed_holds rs) / of_nat (length rs) \<le> (1 / 1000 :: 'v) \<longleftrightarrow> of_nat (1000 * failed_holds rs) \<le> (of_nat (length rs) :: 'v)"
      using that by (simp add: field_simps)
    then show ?thesis unfolding of_nat_le_iff .
  qed
  then have lt: "(1 / 1000 :: 'v) < of_nat (failed_holds rs) / of_nat (length rs) \<longleftrightarrow> length rs < 1000 * failed_holds rs" if "rs \<noteq> []"
    using that by (metis not_le)
  have nil: "failed_holds [] = 0" by (simp add: failed_holds_def)
  show "(\<exists>v. error_value rs = Some v \<and> v \<le> (1 / 1000 :: 'v)) \<longleftrightarrow> rs \<noteq> [] \<and> 1000 * failed_holds rs \<le> length rs"
    using le by (cases "rs = []") (simp_all add: error_value_def)
  show "(\<exists>v. error_value rs = Some v \<and> (1 / 1000 :: 'v) < v) \<longleftrightarrow> length rs < 1000 * failed_holds rs"
    using lt nil by (cases "rs = []") (simp_all add: error_value_def)
qed

definition target_statuses :: "TargetKind \<Rightarrow> 'v::linordered_field HoldRecord list \<Rightarrow> int \<Rightarrow> Check_status list" where
  "target_statuses kind rs delta = map (\<lambda>(ss, p, l). tc_status (bounded [] Scope_http (quantile ss p) l None)) (judged kind rs)
     @ (if kind = Http then [tc_status (exactly [] Scope_http (error_value rs) (1 / 1000))] else [])
     @ [tc_status (exactly [] Scope_http (Some (of_int delta)) (0 :: 'v))]"

lemma status_cong: "tc_status (bounded n s q l note) = tc_status (bounded [] Scope_http q l None)"
  "tc_status (exactly n s v l) = tc_status (exactly [] s' v l)"
  by (simp_all add: bounded_def exactly_def)

lemma measured_statuses:
  assumes "S = summarizeStep k st fromMs holds follow" and "rs = filter (\<lambda>x. hr_step x = k) holds"
  shows "map tc_status (filter (\<lambda>c. tc_status c \<noteq> Not_measured) (target_checks kind S @ [exactly ''deadlocks'' Scope_database (Some (of_int delta)) 0]))
    = target_statuses kind rs delta"
proof -
  have s: "mx_e2eMs (su_all S) = dist (samples rs hr_e2eMs hr_e2eCensored)"
    "mx_poolWaitMs (su_all S) = dist (samples rs (\<lambda>x. ph_poolWaitMs (hr_phases x)) (\<lambda>x. ph_poolWaitCensored (hr_phases x)))"
    "mx_unitLockMs (su_mixes S Distinct_dates)
      = dist (samples (filter (\<lambda>x. hr_mix x = Distinct_dates) rs) (\<lambda>x. ph_unitLockMs (hr_phases x)) (\<lambda>x. ph_unitLockCensored (hr_phases x)))"
    "(if su_offered S = 0 then None else Some (su_errorRate S)) = error_value rs"
    by (simp_all add: assms summarizeStep_def Let_def summarizeMix_def error_value_def failed_holds_def)
  show ?thesis
    unfolding target_checks_def Let_def s dist_quantiles target_statuses_def judged_def
    by (cases kind) (simp_all add: exactly_status(3) status_cong(1) [where n = "_ # _"] status_cong(2) [where n = "_ # _" and s' = Scope_http])
qed

lemma list_ex_disj: "list_ex (\<lambda>c. P c \<or> Q c) cs \<longleftrightarrow> list_ex P cs \<or> list_ex Q cs"
  by (auto simp: list_ex_iff)

lemma target_statuses_mem:
  "(ss, p, l) \<in> set (judged kind rs) \<Longrightarrow> tc_status (bounded [] Scope_http (quantile ss p) l None) \<in> set (target_statuses kind rs delta)"
  "kind = Http \<Longrightarrow> tc_status (exactly [] Scope_http (error_value rs) (1 / 1000)) \<in> set (target_statuses kind rs delta)"
  "tc_status (exactly [] Scope_http (Some (of_int delta)) (0 :: 'v)) \<in> set (target_statuses kind (rs :: 'v::linordered_field HoldRecord list) delta)"
proof -
  show "(ss, p, l) \<in> set (judged kind rs) \<Longrightarrow> tc_status (bounded [] Scope_http (quantile ss p) l None) \<in> set (target_statuses kind rs delta)"
    unfolding target_statuses_def set_append set_map by (rule UnI1, rule image_eqI [of _ _ "(ss, p, l)"]) simp_all
qed (simp_all add: target_statuses_def)

lemma target_statuses_cases:
  assumes "x \<in> set (target_statuses kind (rs :: 'v::linordered_field HoldRecord list) delta)"
  obtains ss p l where "(ss, p, l) \<in> set (judged kind rs)" "x = tc_status (bounded [] Scope_http (quantile ss p) l None)"
    | "kind = Http" "x = tc_status (exactly [] Scope_http (error_value rs) (1 / 1000))" | "x = tc_status (exactly [] Scope_http (Some (of_int delta)) (0 :: 'v))"
  using assms unfolding target_statuses_def set_append set_map by (auto split: if_splits prod.splits)

lemma verdict_statuses:
  fixes S :: "'v::linordered_field StepSummary" and delta :: int and kind :: TargetKind
  defines "sts \<equiv> map tc_status (filter (\<lambda>c. tc_status c \<noteq> Not_measured) (target_checks kind S @ [exactly ''deadlocks'' Scope_database (Some (of_int delta)) 0]))"
  shows "tv_verdict (evaluateTargets kind S delta valid offered) = V_met \<longleftrightarrow> valid \<and> workloadDifferences S offered = [] \<and> set sts \<subseteq> {Met}"
    and "tv_verdict (evaluateTargets kind S delta valid offered) = V_missed \<longleftrightarrow> valid \<and> Missed \<in> set sts"
proof -
  have n: "Not_measured \<notin> set sts" by (auto simp: sts_def)
  have x: "list_ex (\<lambda>c. tc_status c = x) (filter (\<lambda>c. tc_status c \<noteq> Not_measured) (target_checks kind S @ [exactly ''deadlocks'' Scope_database (Some (of_int delta)) 0]))
      \<longleftrightarrow> x \<in> set sts" for x
    unfolding sts_def list_ex_iff set_map image_iff Bex_def by metis
  have v: "tv_verdict (evaluateTargets kind S delta valid offered) = (if \<not> valid then V_invalid else if Missed \<in> set sts then V_missed
      else if workloadDifferences S offered \<noteq> [] \<or> No_data \<in> set sts \<or> Inconclusive \<in> set sts then V_inconclusive else V_met)"
    unfolding evaluateTargets_def Let_def TargetVerdict.simps list_ex_disj x ..
  have "set sts \<subseteq> {Met} \<longleftrightarrow> Missed \<notin> set sts \<and> No_data \<notin> set sts \<and> Inconclusive \<notin> set sts"
  proof
    assume a: "Missed \<notin> set sts \<and> No_data \<notin> set sts \<and> Inconclusive \<notin> set sts"
    have "x = Met" if "x \<in> set sts" for x using that a n by (metis Check_status.exhaust)
    then show "set sts \<subseteq> {Met}" by blast
  qed auto
  with v show "tv_verdict (evaluateTargets kind S delta valid offered) = V_met \<longleftrightarrow> valid \<and> workloadDifferences S offered = [] \<and> set sts \<subseteq> {Met}"
    "tv_verdict (evaluateTargets kind S delta valid offered) = V_missed \<longleftrightarrow> valid \<and> Missed \<in> set sts" by auto
qed

lemma judged_percentile: "(ss, p, l) \<in> set (judged kind rs) \<Longrightarrow> p \<le> 100"
  by (cases kind) (auto simp: judged_def)

lemma completes_self: "completes ss (map sm_ms ss)"
  by (auto simp: completes_def list_all2_map2 intro!: list.rel_refl_strong)

text \<open>
  C36: the targets are met only by a valid run of the target workload in which, whatever the requests cut short would have
  taken, every judged percentile keeps its limit, the error rate keeps its, and no deadlock was counted; they are missed only where
  a deadlock was counted, the error rate is above its limit, or a judged percentile is above its limit whatever those requests would have taken.
\<close>

theorem targets_mean:
  fixes holds :: "'v::linordered_field HoldRecord list" and delta :: int
  assumes S: "S = summarizeStep k st fromMs holds follow" and rs: "rs = filter (\<lambda>x. hr_step x = k) holds"
    and v: "v = tv_verdict (evaluateTargets kind S delta valid offered)"
  shows "(v = V_met \<longrightarrow> valid \<and> workloadDifferences S offered = [] \<and> delta \<le> 0 \<and> (kind = Http \<longrightarrow> rs \<noteq> [] \<and> 1000 * failed_holds rs \<le> length rs)
        \<and> (\<forall>(ss, p, l)\<in>set (judged kind rs). ss \<noteq> [] \<and> (\<forall>xs. completes ss xs \<longrightarrow> sort xs ! rank p (length ss) \<le> l)))
    \<and> (v = V_missed \<longrightarrow> valid \<and> (0 < delta \<or> kind = Http \<and> length rs < 1000 * failed_holds rs
        \<or> (\<exists>(ss, p, l)\<in>set (judged kind rs). \<forall>xs. completes ss xs \<longrightarrow> l < sort xs ! rank p (length ss))))"
proof -
  note V = verdict_statuses [of kind S delta valid offered, unfolded measured_statuses [OF S rs], folded v]
  have met: "ss \<noteq> [] \<and> (\<forall>xs. completes ss xs \<longrightarrow> sort xs ! rank p (length ss) \<le> l)"
    if "(ss, p, l) \<in> set (judged kind rs)" "tc_status (bounded [] Scope_http (quantile ss p) l None) = Met" for ss p l
    using bounded_holds(1) [OF _ judged_percentile [OF that(1)] that(2)] completes_self [of ss] by blast
  have missed: "\<forall>xs. completes ss xs \<longrightarrow> l < sort xs ! rank p (length ss)"
    if "(ss, p, l) \<in> set (judged kind rs)" "tc_status (bounded [] Scope_http (quantile ss p) l None) = Missed" for ss p l
    using bounded_holds(2) [OF _ judged_percentile [OF that(1)] that(2)] by blast
  have e: "tc_status (exactly [] s (Some (of_int delta)) (0 :: 'v)) = Met \<longleftrightarrow> delta \<le> 0" "tc_status (exactly [] s (Some (of_int delta)) (0 :: 'v)) = Missed \<longleftrightarrow> 0 < delta"
    "tc_status (exactly [] s (error_value rs) (1 / 1000)) = Met \<longleftrightarrow> rs \<noteq> [] \<and> 1000 * failed_holds rs \<le> length rs"
    "tc_status (exactly [] s (error_value rs) (1 / 1000)) = Missed \<longleftrightarrow> length rs < 1000 * failed_holds rs" for s
    by (simp_all only: exactly_status error_value_limit) simp_all
  show ?thesis
  proof (intro conjI impI)
    assume "v = V_met"
    then have m: "valid" "workloadDifferences S offered = []" "set (target_statuses kind rs delta) \<subseteq> {Met}" using V(1) by simp_all
    have "tc_status (exactly [] Scope_http (Some (of_int delta)) (0 :: 'v)) = Met" using m(3) target_statuses_mem(3) [of delta kind rs] by blast
    then show "delta \<le> 0" by (simp only: e)
    show "valid" "workloadDifferences S offered = []" by (fact m)+
    assume "kind = Http"
    then have "tc_status (exactly [] Scope_http (error_value rs) (1 / 1000)) = Met" using m(3) target_statuses_mem(2) [of kind rs delta] by blast
    then have "rs \<noteq> [] \<and> 1000 * failed_holds rs \<le> length rs" using e(3) [of Scope_http] by blast
    then show "rs \<noteq> []" "1000 * failed_holds rs \<le> length rs" by simp_all
  next
    assume "v = V_met"
    then have m: "set (target_statuses kind rs delta) \<subseteq> {Met}" using V(1) by simp
    have "tc_status (bounded [] Scope_http (quantile ss p) l None) = Met" if "(ss, p, l) \<in> set (judged kind rs)" for ss p l
      using m target_statuses_mem(1) [OF that, of delta] by blast
    with met show "\<forall>(ss, p, l)\<in>set (judged kind rs). ss \<noteq> [] \<and> (\<forall>xs. completes ss xs \<longrightarrow> sort xs ! rank p (length ss) \<le> l)" by fast
  next
    assume "v = V_missed"
    with V(2) have m: "valid" "Missed \<in> set (target_statuses kind rs delta)" by simp_all
    show "valid" by (fact m)
    from m(2) show "0 < delta \<or> kind = Http \<and> length rs < 1000 * failed_holds rs
        \<or> (\<exists>(ss, p, l)\<in>set (judged kind rs). \<forall>xs. completes ss xs \<longrightarrow> l < sort xs ! rank p (length ss))"
    proof (cases rule: target_statuses_cases)
      case (1 ss p l)
      then show ?thesis using missed [OF 1(1)] by (intro disjI2 bexI [OF _ 1(1)]) simp
    next
      case 2
      then show ?thesis using 2(2) [symmetric, unfolded e] by blast
    next
      case 3
      then show ?thesis using 3 [symmetric, unfolded e] by blast
    qed
  qed
qed

section \<open>A load run\<close>

text \<open>\<open>warmPool\<close>: what each connect settled to; the connections that came are given back, the first rejection is thrown.\<close>

definition warmPool :: "('e + 'c) list \<Rightarrow> 'c list \<times> 'e option" where
  "warmPool results = (concat (map (\<lambda>r. case r of Inr c \<Rightarrow> [c] | Inl _ \<Rightarrow> []) results),
     case find isl results of Some (Inl e) \<Rightarrow> Some e | _ \<Rightarrow> None)"

text \<open>What the idempotency rows of the unanswered holds say. Of two rows with one key the later counts.\<close>

definition stored_outcomes :: "db \<Rightarrow> string \<Rightarrow> string list \<Rightarrow> (string \<times> bool) list" where
  "stored_outcomes d venue keys = map (\<lambda>row. (i_key row, case i_response row of Some (HoldOk _ _ _) \<Rightarrow> True | _ \<Rightarrow> False))
     (filter (\<lambda>row. i_venue row = venue \<and> i_key row \<in> set keys \<and> i_response row \<noteq> None) (idempotency d))"

definition hold_key :: "string \<Rightarrow> 'v HoldRecord \<Rightarrow> string" where
  "hold_key runId x = runId @ ''-h'' @ show_nat (hr_seq x)"

definition look_up :: "db \<Rightarrow> string \<Rightarrow> string \<Rightarrow> 'v HoldRecord list \<Rightarrow> 'v HoldRecord list" where
  "look_up d venue runId rs = (let outcomes = map_of (rev (stored_outcomes d venue (map (hold_key runId) (unanswered_holds rs)))) in
     map (\<lambda>x. if hr_cls x = C_transport then x\<lparr>hr_stored := Some (case outcomes (hold_key runId x) of
           Some True \<Rightarrow> Granted | Some False \<Rightarrow> Refused | None \<Rightarrow> Unobserved)\<rparr> else x) rs)"

fun step_summaries :: "nat \<Rightarrow> 'v \<Rightarrow> 'v::linordered_field Step list \<Rightarrow> 'v HoldRecord list \<Rightarrow> 'v FollowUpRecord list \<Rightarrow> 'v StepSummary list \<times> 'v" where
  "step_summaries i fromMs [] holds follow = ([], fromMs)"
| "step_summaries i fromMs (s # steps) holds follow = (let summary = summarizeStep i s fromMs holds follow;
     (rest, endMs) = step_summaries (i + 1) (su_toMs summary) steps holds follow in (summary # rest, endMs))"

record 'v LoadOptions =
  lo_steps :: "'v Step list"
  lo_followUpRatio :: 'v
  lo_blend :: Blend
  lo_sweep :: SweepConfig
  lo_maxInFlight :: nat
  lo_targetHardware :: bool
  lo_seed :: rng
  lo_runId :: string

record 'v LoadReport =
  rp_workload :: "'v OfferedWorkload"
  rp_steps :: "'v StepSummary list"
  rp_timeline :: "TimelineBucket list"
  rp_drainMs :: 'v
  rp_holdDrainMs :: 'v
  rp_peakOutstanding :: int
  rp_validity :: "bool \<times> 'v Reason list"
  rp_timeouts :: nat
  rp_errors :: nat
  rp_granted :: nat
  rp_refused :: nat
  rp_unobserved :: nat
  rp_retries :: nat
  rp_deadlockDelta :: int
  rp_overlaps :: nat
  rp_fitViolations :: nat
  rp_records :: "'v HoldRecord list"
  rp_followUps :: "'v FollowUpRecord list"
  rp_targets :: "'v TargetVerdict option"

text \<open>
  From the session that was drained, the sweeper's statistics, the counters of deadlocks and the database as the run finds it at
  the end. \<open>None\<close> is the TypeError of a timeline that does not reach, or of targets for a run of no steps.
\<close>

definition offered_workload :: "BenchSeed \<Rightarrow> 'v LoadOptions \<Rightarrow> 'v OfferedWorkload" where
  "offered_workload seed opts = \<lparr>ow_blend = lo_blend opts, ow_followUpRatio = lo_followUpRatio opts, ow_sweep = lo_sweep opts,
     ow_units = length (bs_units seed), ow_combos = length (bs_combos seed)\<rparr>"

definition load_report :: "BenchSeed \<Rightarrow> TargetKind \<Rightarrow> 'v::floor_ceiling LoadOptions \<Rightarrow> nat \<Rightarrow> nat \<Rightarrow> 'v LoadSession \<Rightarrow> SweepStats \<Rightarrow> int \<Rightarrow> instant \<Rightarrow> db
    \<Rightarrow> 'v LoadReport option" where
  "load_report seed kind opts planned_holds planned_follows s sweep deadlockDelta now d = (let
     (steps, fromMs) = step_summaries 0 0 (lo_steps opts) (ls_records s) (ls_followUps s);
     records = look_up d (bs_venue seed) (lo_runId opts) (ls_records s); unanswered = unanswered_holds records;
     lastHold = maxOf (map (\<lambda>x. case hr_doneMs x of Some t \<Rightarrow> t | None \<Rightarrow> 0) records);
     lastAnswer = maxOf (lastHold # map (\<lambda>x. case fr_doneMs x of Some t \<Rightarrow> t | None \<Rightarrow> 0) (ls_followUps s));
     validity = runValidity \<lparr>lr_kind = kind, lr_records = records, lr_followUps = ls_followUps s, lr_sweep = sweep, lr_overlaps = overlapPairs d,
       lr_fitViolations = fitViolations now d, lr_lastStep = (if steps = [] then None else Some (last steps)), lr_plannedHolds = planned_holds,
       lr_plannedFollowUps = planned_follows, lr_targetThrows = ls_targetThrows s\<rparr>;
     everything = map hr_code records @ map fr_code (ls_followUps s); workload = offered_workload seed opts in
     if lo_targetHardware opts \<and> steps = [] then None
     else map_option (\<lambda>buckets. \<lparr>rp_workload = workload, rp_steps = steps, rp_timeline = buckets, rp_drainMs = max 0 (lastAnswer - fromMs),
       rp_holdDrainMs = max 0 (lastHold - fromMs), rp_peakOutstanding = peakOutstanding records, rp_validity = validity,
       rp_timeouts = count_if (\<lambda>c. c = ''transport_timeout'') everything, rp_errors = count_if (\<lambda>c. c = ''transport_error'') everything,
       rp_granted = stored_as Granted unanswered, rp_refused = stored_as Refused unanswered, rp_unobserved = stored_as Unobserved unanswered,
       rp_retries = sum_list (map (\<lambda>x. ph_retries (hr_phases x)) records), rp_deadlockDelta = deadlockDelta, rp_overlaps = overlapPairs d,
       rp_fitViolations = fitViolations now d, rp_records = records, rp_followUps = ls_followUps s,
       rp_targets = (if lo_targetHardware opts then Some (evaluateTargets kind (last steps) deadlockDelta (fst validity) workload) else None)\<rparr>)
       (timeline (ls_records s)))"

definition session_options :: "'v LoadOptions \<Rightarrow> 'v SessionOptions" where
  "session_options opts = \<lparr>so_runId = lo_runId opts, so_blend = lo_blend opts, so_maxInFlight = lo_maxInFlight opts\<rparr>"

text \<open>The two plans: the holds, and the follow-ups at a share of their rate, from generators of their own.\<close>

definition load_plans :: "(real \<Rightarrow> real) \<Rightarrow> real LoadOptions \<Rightarrow> (real Arrival list \<times> real Arrival list) option" where
  "load_plans mlog opts = Option.bind (planArrivals mlog (lo_steps opts) (lo_seed opts + 1)) (\<lambda>holds.
     map_option (\<lambda>follow. (holds, follow))
       (planArrivals mlog (map (\<lambda>s. \<lparr>st_ratePerSec = double_of (st_ratePerSec s * lo_followUpRatio opts), st_seconds = st_seconds s\<rparr>) (lo_steps opts)) (lo_seed opts + 2)))"

text \<open>A run of both plans over one session, and its report.\<close>

definition runLoad :: "(real \<Rightarrow> real) \<Rightarrow> BenchSeed \<Rightarrow> TargetKind \<Rightarrow> real LoadOptions \<Rightarrow> real LoadSession \<Rightarrow> SweepStats \<Rightarrow> int \<Rightarrow> instant \<Rightarrow> db
    \<Rightarrow> real LoadReport option" where
  "runLoad mlog seed kind opts s sweep deadlockDelta now d = Option.bind (load_plans mlog opts) (\<lambda>(holds, follow).
     load_report seed kind opts (length holds) (length follow) s sweep deadlockDelta now d)"

lemma look_up_facts: "length (look_up d v r rs) = length rs" "map hr_code (look_up d v r rs) = map hr_code rs"
  by (simp_all add: look_up_def Let_def)

lemma granted_holds_codes: "granted_holds rs = count_if (\<lambda>c. c = ''ok'') (map hr_code rs)"
  by (simp add: granted_holds_def count_if_def filter_map comp_def)

text \<open>Every plan can be run: with no request allowed in flight all of it is shed.\<close>

lemma shed_run:
  fixes opts :: "real SessionOptions" and holds follows :: "real Arrival list"
  assumes seed: "20 \<le> length (bs_units seed)" "1 \<le> length (bs_combos seed)" and none: "so_maxInFlight opts = 0"
  shows "\<exists>s. session_run seed r opts holds follows s \<and> ls_inFlight s = [] \<and> ls_recent s = []
    \<and> (\<forall>x\<in>set (ls_records s). hr_atMs x \<in> ar_atMs ` set holds \<and> hr_doneMs x = None)"
proof (induction follows rule: rev_induct)
  case Nil
  show ?case
  proof (induction holds rule: rev_induct)
    case Nil
    let ?s = "\<lparr>ls_factory = (\<lambda>_. 0, r), ls_inFlight = [], ls_records = [], ls_followUps = [], ls_recent = [], ls_targetThrows = 0\<rparr> :: real LoadSession"
    have "openSession seed r = Inr ?s" using seed by (auto simp: openSession_def holdFactory_def)
    have "session_run seed r opts [] [] ?s" by (rule session_run.opened, fact)
    then show ?case by (intro exI [of _ ?s]) simp
  next
    case (snoc a holds)
    then obtain s where s: "session_run seed r opts holds [] s" "ls_inFlight s = []" "ls_recent s = []"
      "\<forall>x\<in>set (ls_records s). hr_atMs x \<in> ar_atMs ` set holds \<and> hr_doneMs x = None" by blast
    obtain nd r0 where f: "ls_factory s = (nd, r0)" by fastforce
    obtain mix r1 where m: "pickMix (so_blend opts) r0 = (mix, r1)" by fastforce
    from next_slot_total [OF seed, of mix "(nd, r1)"] obtain x f' where "next_slot seed mix (nd, r1) = Inr (x, f')" by blast
    then obtain i where "next_hold seed (so_runId opts) mix (ar_seq a) (nd, r1) = Inr (i, f')"
      by (cases x) (simp add: next_hold_def)
    then have "session_hold seed opts a 0 s = Inr (s\<lparr>ls_factory := f', ls_records := ls_records s @ [shed_record a 0 mix]\<rparr>)"
      by (simp add: session_hold_def f m Let_def none)
    from session_run.held [OF s(1) this] s(2-4) show ?case
      by (intro exI [of _ "s\<lparr>ls_factory := f', ls_records := ls_records s @ [shed_record a 0 mix]\<rparr>"]) (auto simp: shed_record_def)
  qed
next
  case (snoc a follows)
  then obtain s where s: "session_run seed r opts holds follows s" "ls_inFlight s = []" "ls_recent s = []"
    "\<forall>x\<in>set (ls_records s). hr_atMs x \<in> ar_atMs ` set holds \<and> hr_doneMs x = None" by blast
  from session_run.followed [OF s(1), of a 0] s(2-4) show ?case by (intro exI [of _ "session_followUp a 0 s"]) (auto simp: session_followUp_def)
qed

text \<open>
  C37: a load run whose session fired both plans and was drained, over a database the system can reach, returns its report: it
  holds exactly one record for each planned hold and as many follow-ups as planned, ran no more follow-ups than holds were granted, and found
  no overlap and no reservation outside its capacity; none of that is ever a reason to call the run invalid.
\<close>

theorem runLoad_accounts:
  assumes plans: "load_plans mlog opts = Some (holds, follow)" and run: "session_run seed (lo_seed opts) (session_options opts) holds follow s"
    and drained: "ls_inFlight s = []" and times: "\<forall>x\<in>set (ls_records s). in_time x" and steps: "lo_steps opts \<noteq> []"
    and db: "reachable (t, d)" "t \<le> now"
  shows "\<exists>rp. runLoad mlog seed kind opts s sweep delta now d = Some rp \<and> mset (map hr_seq (rp_records rp)) = mset (map ar_seq holds)
    \<and> length (rp_followUps rp) = length follow \<and> length (executed (rp_followUps rp)) \<le> granted_holds (rp_records rp)
    \<and> rp_overlaps rp = 0 \<and> rp_fitViolations rp = 0
    \<and> (\<forall>n m. {Overlapping_pairs n, Outside_capacity n, Hold_records n m, Follow_up_records n m} \<inter> set (snd (rp_validity rp)) = {})"
proof -
  let ?rs = "look_up d (bs_venue seed) (lo_runId opts) (ls_records s)"
  have D: "overlapPairs d = 0" "fitViolations now d = 0"
    using observed_clean(1) [of t d] observed_clean(2) [of t d now] reachable_good [OF db(1)] db(2) by (simp_all add: good_state_def)
  have S: "mset (map hr_seq (ls_records s)) = mset (map ar_seq holds)" "length (ls_followUps s) = length follow"
    "length (executed (ls_followUps s)) \<le> granted_holds (ls_records s)"
    using session_run_ok [OF run] drained by (simp_all add: session_ok_def)
  have seqs: "map hr_seq ?rs = map hr_seq (ls_records s)" by (simp add: look_up_def Let_def)
  have n: "length ?rs = length holds" using arg_cong [OF S(1), of size] by (simp add: look_up_facts)
  obtain summaries endMs where sm: "step_summaries 0 0 (lo_steps opts) (ls_records s) (ls_followUps s) = (summaries, endMs)" by fastforce
  then have ne: "summaries \<noteq> []" using steps by (cases "lo_steps opts") (auto simp: Let_def split: prod.splits)
  obtain buckets where tl: "timeline (ls_records s) = Some buckets" using timeline_returns [OF times] by blast
  obtain rp where rp: "runLoad mlog seed kind opts s sweep delta now d = Some rp" "rp_records rp = ?rs" "rp_followUps rp = ls_followUps s"
    "rp_overlaps rp = overlapPairs d" "rp_fitViolations rp = fitViolations now d"
    "snd (rp_validity rp) = reasons_of \<lparr>lr_kind = kind, lr_records = ?rs, lr_followUps = ls_followUps s, lr_sweep = sweep, lr_overlaps = overlapPairs d,
       lr_fitViolations = fitViolations now d, lr_lastStep = Some (last summaries), lr_plannedHolds = length holds,
       lr_plannedFollowUps = length follow, lr_targetThrows = ls_targetThrows s\<rparr>"
    by (simp add: runLoad_def plans load_report_def Let_def sm ne tl runValidity_def)
  have "{Overlapping_pairs n, Outside_capacity n, Hold_records n m, Follow_up_records n m} \<inter> set (snd (rp_validity rp)) = {}" for n m
    unfolding rp(6) reasons_of_def Let_def D using n S(2) by (auto split: option.splits)
  moreover have "granted_holds ?rs = granted_holds (ls_records s)" by (simp only: granted_holds_codes look_up_facts)
  ultimately show ?thesis using rp(1-5) S D seqs by (intro exI [of _ rp]) simp
qed

definition demo_bench :: BenchSeed where
  "demo_bench = \<lparr>bs_venue = ''v1'', bs_units = map show_nat [0..<20], bs_combos = [''c1'']\<rparr>"

definition demo_load :: "real LoadOptions" where
  "demo_load = \<lparr>lo_steps = [\<lparr>st_ratePerSec = 50, st_seconds = 600\<rparr>], lo_followUpRatio = 1 / 2, lo_blend = TARGET_BLEND, lo_sweep = DESIGN_SWEEP,
     lo_maxInFlight = 0, lo_targetHardware = True, lo_seed = 1, lo_runId = ''load''\<rparr>"

theorem runLoad_accounts_witness:
  "\<exists>holds follow s rp. load_plans ln demo_load = Some (holds, follow) \<and> session_run demo_bench 1 (session_options demo_load) holds follow s
    \<and> runLoad ln demo_bench Http demo_load s sweep_stats_start 0 0 held_db = Some rp \<and> length (rp_records rp) = length holds \<and> rp_overlaps rp = 0"
proof -
  let ?steps = "\<lambda>r. [\<lparr>st_ratePerSec = r, st_seconds = 600\<rparr>] :: real Step list"
  have d: "double_of 600000 = (600000 :: real)" "double_of 25 = (25 :: real)" using double_int [of 600000] double_int [of 25] by simp_all
  then have w: "window_start 0 (?steps r) (Suc 0) = 600000" for r by (simp add: step_end_def)
  have fit: "\<forall>s\<in>set (?steps r). 0 \<le> st_seconds s \<and> st_ratePerSec s \<le> 2 ^ 50 \<and> st_ratePerSec s * 600000 \<le> 2 ^ 50" if "r \<le> 50" for r
    using that by auto
  obtain holds where h: "planArrivals ln (?steps 50) 2 = Some holds" "\<forall>a\<in>set holds. 0 \<le> ar_atMs a"
    using plan_from_exact [OF ln_approximates, of 600000 0 "?steps 50" 0 0 2] w fit by (auto simp: planArrivals_def)
  obtain follow where f: "planArrivals ln (?steps 25) 3 = Some follow"
    using plan_from_exact [OF ln_approximates, of 600000 0 "?steps 25" 0 0 3] w fit by (auto simp: planArrivals_def)
  have p: "load_plans ln demo_load = Some (holds, follow)" using h(1) f d(2) by (simp add: load_plans_def demo_load_def)
  obtain s where s: "session_run demo_bench 1 (session_options demo_load) holds follow s" "ls_inFlight s = []"
    "\<forall>x\<in>set (ls_records s). hr_atMs x \<in> ar_atMs ` set holds \<and> hr_doneMs x = None"
    using shed_run [of demo_bench "session_options demo_load" 1 holds follow] by (auto simp: demo_bench_def session_options_def demo_load_def)
  have t: "\<forall>x\<in>set (ls_records s). in_time x" using s(3) h(2) by (auto simp: in_time_def)
  have l: "lo_seed demo_load = 1" "lo_steps demo_load \<noteq> []" by (simp_all add: demo_load_def)
  from runLoad_accounts [OF p s(1) [folded l(1)] s(2) t l(2) reachable.step [OF demo_step] order_refl, of Http sweep_stats_start 0]
  obtain rp where rp: "runLoad ln demo_bench Http demo_load s sweep_stats_start 0 0 held_db = Some rp" "mset (map hr_seq (rp_records rp)) = mset (map ar_seq holds)" "rp_overlaps rp = 0"
    by blast
  then have "length (rp_records rp) = length holds" using mset_eq_length [OF rp(2)] by simp
  with p s(1) rp show ?thesis by blast
qed

definition slow_holds :: "rat HoldRecord list" where
  "slow_holds = replicate 60 (demo_record 0 0 (Some 200) ''ok'')"

definition target_step :: "rat Step" where
  "target_step = \<lparr>st_ratePerSec = 50, st_seconds = 600\<rparr>"

lemma slow_samples: "samples (replicate n (demo_record 0 0 (Some 200) ''ok'')) hr_e2eMs hr_e2eCensored = replicate n \<lparr>sm_ms = 200, sm_censored = False\<rparr>"
  by (induction n) (simp_all add: samples_def demo_record_def classify_def)

lemma sort_replicate: "sort (replicate n x) = replicate n x"
  by (induction n) (simp_all add: insort_is_Cons)

theorem targets_mean_witness:
  "tv_verdict (evaluateTargets Http (summarizeStep 0 target_step 0 slow_holds []) 0 True TARGET_WORKLOAD) = V_missed
   \<and> (\<exists>(ss, p, l)\<in>set (judged Http slow_holds). \<forall>xs. completes ss xs \<longrightarrow> l < sort xs ! rank p (length ss))"
proof -
  let ?q = "quantile (samples slow_holds hr_e2eMs hr_e2eCensored) 95"
  have f: "slow_holds = filter (\<lambda>x. hr_step x = 0) slow_holds" by (simp add: slow_holds_def demo_record_def)
  have "(samples slow_holds hr_e2eMs hr_e2eCensored, 95, 150) \<in> set (judged Http slow_holds)" by (simp add: judged_def)
  moreover have "tc_status (bounded [] Scope_http ?q 150 None) = Missed"
    unfolding slow_holds_def slow_samples by (simp add: quantile_def Let_def sort_replicate rank_def bounded_def)
  ultimately have "Missed \<in> set (target_statuses Http slow_holds 0)" using target_statuses_mem(1) [of _ 95 150 Http slow_holds 0] by metis
  then have m: "tv_verdict (evaluateTargets Http (summarizeStep 0 target_step 0 slow_holds []) 0 True TARGET_WORKLOAD) = V_missed"
    unfolding verdict_statuses(2) measured_statuses [OF refl f] by simp
  have "\<not> length slow_holds < 1000 * failed_holds slow_holds"
    by (simp add: slow_holds_def demo_record_def failed_holds_def count_if_def isError_def classify_def)
  with targets_mean [OF refl f refl, of Http target_step 0 "[]" 0 True TARGET_WORKLOAD] m show ?thesis by simp
qed

end
