(* ===== verification/HarnessRace.thy ===== *)
theory HarnessRace
  imports HoldDecides HarnessObserve HarnessArrivals HarnessLoad
begin

text \<open>
  The race (apps/harness/src/race.ts): n holds of distinct actors for one unit and one slot, released together. What a hold
  leaves alone, what occupies a unit over a slot, and that such a race has one winner.
\<close>

section \<open>What a hold leaves alone\<close>

lemma keeps_claim [keeping]: "keeps units (claim_key cx v a k h)" "keeps venues (claim_key cx v a k h)" "keeps blackouts (claim_key cx v a k h)"
  "keeps units (store_response v a k out)" "keeps venues (store_response v a k out)" "keeps blackouts (store_response v a k out)"
  by (rule keepsI; auto simp: claim_key_def store_response_def tx_eqs rbind_eq_Inr split: if_splits)+

definition configuration :: "db \<Rightarrow> VenueRow list \<times> UnitRow list \<times> ComboRow list \<times> BlackoutRow list" where
  "configuration d = (venues d, units d, combos d, blackouts d)"

lemma keeps_configuration_attempt: "keeps venues (attemptHold env i hash n)" "keeps units (attemptHold env i hash n)"
  "keeps combos (attemptHold env i hash n)" "keeps blackouts (attemptHold env i hash n)"
proof -
  have "keeps venues (claim_or_replay env i hash n during)" "keeps units (claim_or_replay env i hash n during)"
    "keeps combos (claim_or_replay env i hash n during)" "keeps blackouts (claim_or_replay env i hash n during)" for during
    unfolding claim_or_replay_def hold_claimed_def hold_units_def settle_booking_def storeOutcome_def clear_overlap_def expire_one_def book_def Let_def
    by (intro keeping)+
  then show "keeps venues (attemptHold env i hash n)" "keeps units (attemptHold env i hash n)"
    "keeps combos (attemptHold env i hash n)" "keeps blackouts (attemptHold env i hash n)"
    by (auto simp: keeps_def preserves_def attemptHold_def split: option.splits)
qed

lemma hold_configuration: "hold env i d = Inr (x, d') \<Longrightarrow> configuration d' = configuration d"
  by (elim hold_result) (simp add: configuration_def keepsD [OF keeps_configuration_attempt(1)] keepsD [OF keeps_configuration_attempt(2)]
    keepsD [OF keeps_configuration_attempt(3)] keepsD [OF keeps_configuration_attempt(4)])

text \<open>A key nobody claimed stays unclaimed by holds under other keys.\<close>

definition unclaimed :: "string \<Rightarrow> string \<Rightarrow> string \<Rightarrow> db \<Rightarrow> bool" where
  "unclaimed v a k d \<longleftrightarrow> idem_row d v a k = None"

lemma unclaimed_keeps [preserved]: "keeps idempotency m \<Longrightarrow> preserves (unclaimed v a k) m"
  by (auto simp: keeps_def preserves_def unclaimed_def idem_row_def)

lemma unclaimed_claim: "(v', a', k') \<noteq> (v, a, k) \<Longrightarrow> preserves (unclaimed v a k) (claim_key cx v' a' k' h)"
  by (auto simp: preserves_def unclaimed_def idem_row_def claim_key_def find_None_iff rbind_eq_Inr split: if_splits)

lemma unclaimed_store: "preserves (unclaimed v a k) (storeOutcome i out)"
  by (rule preservesI) (auto simp: unclaimed_def idem_row_def find_None_iff dest!: storeOutcome_eq(3))

lemma unclaimed_claimed: "preserves (unclaimed v a k) (hold_claimed env n cx i during)"
proof (rule preservesI)
  fix d out d' assume u: "unclaimed v a k d" and h: "hold_claimed env n cx i during d = Inr (out, d')"
  then obtain d1 where "idempotency d1 = idempotency d" "storeOutcome i out d1 = Inr (out, d')"
    using ends_stored_claimed [of i env n cx during] unfolding ends_stored_def by blast
  with preservesD [OF unclaimed_store, of v a k d1] u show "unclaimed v a k d'" by (simp add: unclaimed_def idem_row_def)
qed

lemma hold_unclaimed:
  assumes "hold env i d = Inr (x, d')" and "(hi_venueId i, hi_actor i, hi_idempotencyKey i) \<noteq> (v, a, k)" and "unclaimed v a k d"
  shows "unclaimed v a k d'"
proof -
  have "preserves (unclaimed v a k) (claim_or_replay env i hash n during)" for hash n during
    unfolding claim_or_replay_def Let_def
    by (intro preserves_tbind preserves_if preserves_tthen preserves_case_sum preserves_basic unclaimed_claim [OF assms(2)] unclaimed_claimed unclaimed_keeps keeping)
  then have "preserves (unclaimed v a k) (attemptHold env i hash n)" for hash n
    by (auto simp: preserves_def attemptHold_def split: option.splits)
  with assms(1,3) show ?thesis by (elim hold_result) (auto dest: preservesD)
qed

section \<open>One unit and one slot\<close>

text \<open>The reservations that occupy a unit over a range, and what the unit rows show of them.\<close>

definition occupiers :: "db \<Rightarrow> string \<Rightarrow> range \<Rightarrow> ReservationRow set" where
  "occupiers d u during = {r \<in> set (reservations d). \<not> released (r_status r) \<and> u \<in> set (members_of d (r_assignment r)) \<and> overlaps (r_during r) during}"

lemma occupier_of_row:
  assumes I: "inv T {} d" and ru: "ru \<in> set (unit_rows d)" "ru_active ru" "overlaps (ru_during ru) during"
  shows "\<exists>r\<in>occupiers d (ru_unit ru) during. r_id r = ru_reservation ru"
proof -
  from I ru(1) obtain r where r: "r \<in> set (reservations d)" "r_id r = ru_reservation ru" "row_in_sync ru r" by (auto simp: inv_def sync_ok_def)
  from I r(1) have "membership_ok d r" by (auto simp: inv_def members_ok_def)
  then have "set (map ru_unit (rows_of d (r_id r))) = set (members_of d (r_assignment r))" unfolding membership_ok_def by (metis set_sort)
  moreover have "ru_unit ru \<in> set (map ru_unit (rows_of d (r_id r)))" using ru(1) r(2) by (auto simp: rows_of_def)
  ultimately show ?thesis using r ru by (auto simp: occupiers_def row_in_sync_def)
qed

lemma row_of_occupier:
  assumes I: "inv T {} d" and r: "r \<in> occupiers d u during"
  shows "\<exists>ru\<in>set (unit_rows d). ru_reservation ru = r_id r \<and> ru_unit ru = u \<and> ru_active ru \<and> ru_venue ru = r_venue r \<and> ru_during ru = r_during r"
proof -
  have mem: "r \<in> set (reservations d)" "\<not> released (r_status r)" "u \<in> set (members_of d (r_assignment r))" using r by (simp_all add: occupiers_def)
  from I mem(1) have "membership_ok d r" by (auto simp: inv_def members_ok_def)
  then have "set (map ru_unit (rows_of d (r_id r))) = set (members_of d (r_assignment r))" unfolding membership_ok_def by (metis set_sort)
  with mem(3) have "u \<in> ru_unit ` set (rows_of d (r_id r))" by simp
  then obtain ru where ru: "ru \<in> set (unit_rows d)" "ru_reservation ru = r_id r" "ru_unit ru = u" by (auto simp: rows_of_def)
  from I ru(1) obtain r' where r': "r' \<in> set (reservations d)" "r_id r' = ru_reservation ru" "row_in_sync ru r'" by (auto simp: inv_def sync_ok_def)
  then have "r' = r" using distinct_key_eq [of r_id "reservations d" r' r] I mem(1) ru(2) by (auto simp: inv_def ids_ok_def)
  with r'(3) mem(2) ru show ?thesis by (auto simp: row_in_sync_def)
qed

lemma OVERLAP_occupiers:
  assumes "inv T {} d"
  shows "set (OVERLAP_SQL cx d [u] during) \<subseteq> r_id ` occupiers d u during"
proof
  fix rid assume "rid \<in> set (OVERLAP_SQL cx d [u] during)"
  then obtain ru where "ru \<in> set (unit_rows d)" "ru_active ru" "ru_unit ru = u" "overlaps (ru_during ru) during" "rid = ru_reservation ru"
    by (auto simp: OVERLAP_SQL_def occupancy_def)
  with occupier_of_row [OF assms, of ru during] show "rid \<in> r_id ` occupiers d u during" by force
qed

section \<open>A hold on a unit and slot at most one reservation occupies\<close>

lemma replaced_occupiers:
  assumes I: "inv T {} d" and combos: "combos d' = combos d" and r: "reservations d' = replace_rows expired_row (dead_rows cx d us during') (reservations d)"
    and o: "\<And>w. w \<in> occupiers d u during \<Longrightarrow> \<not> dead (cx_now cx) w"
  shows "occupiers d' u during = occupiers d u during"
proof -
  have e: "reservations d' = map (\<lambda>r. if r \<in> set (dead_rows cx d us during') then expired_row r else r) (reservations d)"
    unfolding r by (rule replace_dead_rows) (use I in \<open>simp add: inv_def\<close>)
  have m: "members_of d' a = members_of d a" for a unfolding members_of_def combos ..
  have "dead (cx_now cx) x" if "x \<in> set (dead_rows cx d us during')" for x using that by (simp add: dead_rows_def)
  then have k: "x \<notin> set (dead_rows cx d us during')" if "x \<in> occupiers d u during" for x using o that by blast
  have "released (r_status (expired_row x))" for x by (simp add: expired_row_def released_def)
  then show ?thesis using k unfolding occupiers_def m e by (auto simp: image_iff split: if_splits)
qed

text \<open>A request for one unit that nothing but a reservation on its slot can refuse.\<close>

definition admissible :: "env \<Rightarrow> HoldInput \<Rightarrow> range \<Rightarrow> string \<Rightarrow> db \<Rightarrow> bool" where
  "admissible env i during u d \<longleftrightarrow> \<not> hi_enforceSchedule i \<and> hi_assignment i = \<lparr>a_kind = Unit, a_id = u\<rparr> \<and> lower u = u
     \<and> (\<exists>x. find_unit d u (hi_venueId i) = Some x \<and> u_active x \<and> u_capacity_min x \<le> hi_partySize i \<and> hi_partySize i \<le> u_capacity_max x)
     \<and> 1 \<le> hi_partySize i \<and> 300000 \<le> snd during - fst during \<and> snd during - fst during \<le> 43200000
     \<and> (\<exists>v. find_venue d (hi_venueId i) = Some v \<and> 1 \<le> v_max_live_holds_per_actor v)
     \<and> (\<forall>b\<in>set (blackouts d). b_venue b = hi_venueId i \<longrightarrow> b_active b \<longrightarrow> \<not> overlaps (b_during b) during)
     \<and> (\<forall>r\<in>set (reservations d). r_created_by r \<noteq> hi_actor i)"

lemma admissible_verdict:
  assumes A: "admissible env i during u d" and few: "length (OVERLAP_SQL (hold_session env i) d [u] during) \<le> 1"
  shows "hold_verdict env i during d = (if blocked (hold_session env i) d [u] during then Some Hold_conflict else None)"
    and "resolveAssignment d i = Some ([u], True)"
proof -
  note One_nat_def [simp del]
  obtain x v where x: "find_unit d u (hi_venueId i) = Some x" "u_active x" "u_capacity_min x \<le> hi_partySize i" "hi_partySize i \<le> u_capacity_max x"
    and v: "find_venue d (hi_venueId i) = Some v" "1 \<le> v_max_live_holds_per_actor v" using A by (auto simp: admissible_def)
  have "u_id x = u" using x(1) by (auto simp: find_unit_def dest: find_Some_D)
  then show r: "resolveAssignment d i = Some ([u], True)" using x A by (simp add: resolveAssignment_def admissible_def sortUnitIds_def)
  have live: "LIVE_HOLDS_SQL (hold_session env i) d (hi_venueId i) (hi_actor i) = 0"
    using A by (auto simp: LIVE_HOLDS_SQL_def admissible_def filter_empty_conv)
  have ins: "insert_verdict d (new_reservation i (e_uuid env 1) during e) = None" for e
    using A x by (simp add: insert_verdict_def admissible_def outside_blackouts_def assignment_facts_def)
  have cap: "\<not> v_max_live_holds_per_actor v \<le> 0" using v(2) by simp
  show "hold_verdict env i during d = (if blocked (hold_session env i) d [u] during then Some Hold_conflict else None)"
    using A few by (simp add: hold_verdict_def Let_def r venue_limits_def v cap live ins BOUNDS_overlapSet_def admissible_def)
qed

definition hold_ready :: "instant \<Rightarrow> env \<Rightarrow> HoldInput \<Rightarrow> range \<Rightarrow> string \<Rightarrow> db \<Rightarrow> bool" where
  "hold_ready T env i during u d \<longleftrightarrow> inv T {} d \<and> (\<forall>m. e_now env m \<le> T) \<and> deferred d = [] \<and> tidy_ids d \<and> hi_actor i \<noteq> [] \<and> request_row d i = None
     \<and> e_fault env 1 = None \<and> e_uuid env 1 \<notin> r_id ` set (reservations d) \<and> rangeLiteral (hi_startsAt i) (hi_durationMinutes i) = Some during
     \<and> admissible env i during u d"

lemma hold_free_slot:
  assumes R: "hold_ready T env i during u d" and free: "occupiers d u during = {}" and v: "find_venue d (hi_venueId i) = Some venue"
  shows "\<exists>rc t d'. hold env i d = Inr (HoldOk rc t False, d')
    \<and> reservations d' = reservations d @ [new_reservation i (e_uuid env 1) during (e_now env 1 + v_hold_ttl_seconds venue * 1000)]"
proof -
  let ?cx = "hold_session env i"
  have I: "inv T {} d" and A: "admissible env i during u d" using R by (simp_all add: hold_ready_def)
  have none: "OVERLAP_SQL ?cx d [u] during = []" using OVERLAP_occupiers [OF I, of ?cx u during] free by simp
  have "\<not> blocked ?cx d [u] during" using occupier_of_row [OF I, of _ during] free by (auto simp: blocked_def)
  with admissible_verdict [OF A] none have V: "hold_verdict env i during d = None" "resolveAssignment d i = Some ([u], True)" by simp_all
  have dr: "dead_rows ?cx d [u] during = []" by (simp add: dead_rows_def none)
  have "fst during \<le> snd during" using A by (auto simp: admissible_def)
  with hold_answers [of T d env i venue during] R v V obtain us rc t d' where h: "hold env i d = Inr (HoldOk rc t False, d')" "resolveAssignment d i = Some (us, True)"
    "reservations d' = replace_rows expired_row (dead_rows ?cx d us during) (reservations d)
        @ [new_reservation i (e_uuid env 1) during (e_now env 1 + v_hold_ttl_seconds venue * 1000)]"
    by (auto simp: hold_ready_def)
  with V(2) dr have "reservations d' = reservations d @ [new_reservation i (e_uuid env 1) during (e_now env 1 + v_hold_ttl_seconds venue * 1000)]"
    by (simp add: replace_rows_def)
  with h(1) show ?thesis by blast
qed

lemma hold_taken_slot:
  assumes R: "hold_ready T env i during u d" and taken: "occupiers d u during = {w}" and alive: "\<not> dead (e_now env 1) w" and vis: "r_venue w = hi_venueId i"
  shows "\<exists>m d' us during'. hold env i d = Inr (HoldRefused Hold_conflict m False, d') \<and> occupiers d' u during = {w}
    \<and> (reservations d' = reservations d \<or> reservations d' = replace_rows expired_row (dead_rows (hold_session env i) d us during') (reservations d))"
proof -
  let ?cx = "hold_session env i"
  have I: "inv T {} d" and A: "admissible env i during u d" using R by (simp_all add: hold_ready_def)
  obtain venue where v: "find_venue d (hi_venueId i) = Some venue" using A by (auto simp: admissible_def)
  have now: "cx_now ?cx = e_now env 1" by (simp add: hold_session_def)
  have "set (OVERLAP_SQL ?cx d [u] during) \<subseteq> {r_id w}" using OVERLAP_occupiers [OF I, of ?cx u during] taken by simp
  moreover have "distinct (OVERLAP_SQL ?cx d [u] during)" by (simp add: OVERLAP_SQL_def)
  ultimately have few: "length (OVERLAP_SQL ?cx d [u] during) \<le> 1" using card_mono [of "{r_id w}" "set (OVERLAP_SQL ?cx d [u] during)"] by (simp add: distinct_card)
  have w: "w \<in> occupiers d u during" using taken by simp
  obtain ru where ru: "ru \<in> set (unit_rows d)" "ru_reservation ru = r_id w" "ru_unit ru = u" "ru_active ru" "ru_during ru = r_during w"
    using row_of_occupier [OF I w] by blast
  have "r = w" if "r \<in> set (reservations d)" "r_id r = r_id w" for r
    using distinct_key_eq [of r_id "reservations d" r w] I that w by (auto simp: inv_def ids_ok_def occupiers_def)
  then have "\<not> (\<exists>r\<in>set (reservations d). r_id r = ru_reservation ru \<and> visible ?cx (r_venue r) \<and> dead (cx_now ?cx) r)" using alive ru(2) unfolding now by metis
  moreover have "ru_active ru \<and> ru_unit ru \<in> set [u] \<and> overlaps (ru_during ru) during" using ru w by (simp add: occupiers_def)
  ultimately have "blocked ?cx d [u] during" using ru(1) unfolding blocked_def by blast
  with admissible_verdict(1) [OF A few] have V: "hold_verdict env i during d = Some Hold_conflict" by simp
  have "fst during \<le> snd during" "Hold_conflict \<in> set STORED_OUTCOMES" using A by (auto simp: admissible_def STORED_OUTCOMES_def)
  with hold_answers [of T d env i venue during] R v V obtain m d' us during' where h: "hold env i d = Inr (HoldRefused Hold_conflict m False, d')"
    "reservations d' = reservations d \<or> reservations d' = replace_rows expired_row (dead_rows ?cx d us during') (reservations d)"
    unfolding hold_ready_def by (simp only: option.case if_True) blast
  have c: "combos d' = combos d" using hold_configuration [OF h(1)] by (simp add: configuration_def)
  have "occupiers d' u during = {w}"
    using h(2)
  proof
    assume "reservations d' = reservations d"
    moreover have "members_of d' a = members_of d a" for a unfolding members_of_def c ..
    ultimately show ?thesis using taken by (simp add: occupiers_def)
  next
    assume r: "reservations d' = replace_rows expired_row (dead_rows ?cx d us during') (reservations d)"
    have "occupiers d' u during = occupiers d u during" by (rule replaced_occupiers [OF I c r]) (use alive now taken in auto)
    with taken show ?thesis by simp
  qed
  with h show ?thesis by blast
qed

section \<open>The race\<close>

definition race_from :: instant where "race_from = 2366910000000"

definition race_during :: range where "race_during = (race_from, race_from + 90 * 60000)"

definition race_actor :: "nat \<Rightarrow> string" where "race_actor k = ''race:'' @ show_nat k"

definition race_input :: "BenchSeed \<Rightarrow> nat \<Rightarrow> HoldInput" where
  "race_input seed k = \<lparr>hi_venueId = bs_venue seed, hi_actor = race_actor k, hi_traceId = ''race-'' @ show_nat k, hi_idempotencyKey = ''race-'' @ show_nat k,
     hi_partySize = 2, hi_startsAt = toISOString race_from, hi_durationMinutes = 90, hi_assignment = \<lparr>a_kind = Unit, a_id = hd (bs_units seed)\<rparr>,
     hi_externalRef = None, hi_enforceSchedule = False\<rparr>"

text \<open>
  The holds are released together and their transactions commit in some order; a hold that throws is a rejected promise. The
  counts of retries and the latencies are observations of the clock and left out.
\<close>

fun race_runs :: "(nat \<Rightarrow> env) \<Rightarrow> BenchSeed \<Rightarrow> nat list \<Rightarrow> db \<Rightarrow> (exn + HoldOutcome) list \<times> db" where
  "race_runs envs seed [] d = ([], d)"
| "race_runs envs seed (k # ks) d = (case hold (envs k) (race_input seed k) d of
      Inr (out', d') \<Rightarrow> (case race_runs envs seed ks d' of (xs, d'') \<Rightarrow> (Inr out' # xs, d''))
    | Inl e \<Rightarrow> (case race_runs envs seed ks d of (xs, d'') \<Rightarrow> (Inl e # xs, d'')))"

record RaceResult =
  rr_n :: nat
  rr_winners :: nat
  rr_conflicts :: nat
  rr_other :: "(string \<times> nat) list"
  rr_overlaps :: nat

text \<open>\<open>d.hold\<close> is the handle's: what it throws is a \<open>DastarError\<close>, which always has a code.\<close>

definition thrown_code :: "exn \<Rightarrow> string" where
  "thrown_code e = code_text (code (asDastarError e))"

definition other_code :: "exn + HoldOutcome \<Rightarrow> string option" where
  "other_code s = (case s of Inl e \<Rightarrow> Some (''thrown:'' @ thrown_code e)
    | Inr (HoldOk _ _ _) \<Rightarrow> None
    | Inr (HoldRefused c _ _) \<Rightarrow> if c = Hold_conflict then None else Some (code_text c))"

definition race_result :: "nat \<Rightarrow> (exn + HoldOutcome) list \<Rightarrow> db \<Rightarrow> RaceResult" where
  "race_result n answers d = \<lparr>rr_n = n,
     rr_winners = count_if (\<lambda>s. case s of Inr (HoldOk _ _ _) \<Rightarrow> True | _ \<Rightarrow> False) answers,
     rr_conflicts = count_if (\<lambda>s. case s of Inr (HoldRefused c _ _) \<Rightarrow> c = Hold_conflict | _ \<Rightarrow> False) answers,
     rr_other = count_codes (List.map_filter other_code answers), rr_overlaps = overlapPairs d\<rparr>"

definition runRace :: "(nat \<Rightarrow> env) \<Rightarrow> BenchSeed \<Rightarrow> nat \<Rightarrow> nat list \<Rightarrow> db \<Rightarrow> RaceResult" where
  "runRace envs seed n order d = (case race_runs envs seed order d of (answers, d') \<Rightarrow> race_result n answers d')"

lemma race_range: "rangeLiteral (toISOString race_from) 90 = Some race_during"
  by code_simp

lemma race_input_sel [simp]:
  "hi_venueId (race_input seed k) = bs_venue seed" "hi_actor (race_input seed k) = race_actor k" "hi_idempotencyKey (race_input seed k) = ''race-'' @ show_nat k"
  "hi_startsAt (race_input seed k) = toISOString race_from" "hi_durationMinutes (race_input seed k) = 90"
  "hi_assignment (race_input seed k) = \<lparr>a_kind = Unit, a_id = hd (bs_units seed)\<rparr>" "hi_partySize (race_input seed k) = 2" "\<not> hi_enforceSchedule (race_input seed k)"
  by (simp_all add: race_input_def)

lemma race_actor_inj: "race_actor j = race_actor k \<longleftrightarrow> j = k"
  using show_nat_inj by (auto simp: race_actor_def)

text \<open>After one hold the others stay ready.\<close>

lemma stays_ready:
  assumes h: "hold env i d = Inr (out', d')" and R: "hold_ready T env i during u d" and R': "hold_ready T env' i' during u d"
    and v: "hi_venueId i' = hi_venueId i" and ids: "\<And>r. r \<in> set (reservations d') \<Longrightarrow> r_id r \<in> r_id ` set (reservations d) \<or> r_id r = e_uuid env 1"
    and actors: "\<And>r. r \<in> set (reservations d') \<Longrightarrow> r_created_by r \<in> r_created_by ` set (reservations d) \<or> r_created_by r = hi_actor i"
    and other: "hi_actor i' \<noteq> hi_actor i" "e_uuid env' 1 \<noteq> e_uuid env 1"
  shows "hold_ready T env' i' during u d'"
proof -
  have c: "venues d' = venues d" "units d' = units d" "combos d' = combos d" "blackouts d' = blackouts d"
    using hold_configuration [OF h] by (simp_all add: configuration_def)
  have I: "inv T {} d'" using preservesD [OF preserves_hold _ h, of T] R by (simp add: hold_ready_def)
  have "deferred d' = []" using hold_keeps [OF h preserves_attemptHold, of T] R by (simp add: hold_ready_def)
  moreover have "unclaimed (hi_venueId i') (hi_actor i') (hi_idempotencyKey i') d'"
    by (rule hold_unclaimed [OF h]) (use R' other(1) in \<open>auto simp: hold_ready_def unclaimed_def request_row_def\<close>)
  moreover have "e_uuid env' 1 \<notin> r_id ` set (reservations d')" using R' ids other(2) by (fastforce simp: hold_ready_def)
  moreover have "admissible env' i' during u d'"
    using R' actors other(1) by (fastforce simp: hold_ready_def admissible_def find_unit_def find_venue_def c)
  moreover have "tidy_ids d'" using R' by (simp add: hold_ready_def tidy_ids_def c)
  ultimately show ?thesis using R' I unfolding hold_ready_def by (simp add: unclaimed_def request_row_def)
qed

definition race_ready :: "instant \<Rightarrow> (nat \<Rightarrow> env) \<Rightarrow> BenchSeed \<Rightarrow> nat set \<Rightarrow> db \<Rightarrow> bool" where
  "race_ready T envs seed K d \<longleftrightarrow> (\<forall>k\<in>K. hold_ready T (envs k) (race_input seed k) race_during (hd (bs_units seed)) d)
     \<and> inj_on (\<lambda>k. e_uuid (envs k) 1) K"

lemma race_stays_ready:
  assumes R: "race_ready T envs seed (insert k K) d" and k: "k \<notin> K" and h: "hold (envs k) (race_input seed k) d = Inr (out', d')"
    and ids: "\<And>r. r \<in> set (reservations d') \<Longrightarrow> r_id r \<in> r_id ` set (reservations d) \<or> r_id r = e_uuid (envs k) 1"
    and actors: "\<And>r. r \<in> set (reservations d') \<Longrightarrow> r_created_by r \<in> r_created_by ` set (reservations d) \<or> r_created_by r = race_actor k"
  shows "race_ready T envs seed K d'"
  unfolding race_ready_def
proof (intro conjI ballI)
  show "inj_on (\<lambda>k. e_uuid (envs k) 1) K" using R by (auto simp: race_ready_def inj_on_def)
  fix j assume j: "j \<in> K"
  show "hold_ready T (envs j) (race_input seed j) race_during (hd (bs_units seed)) d'"
  proof (rule stays_ready [OF h])
    show "hold_ready T (envs k) (race_input seed k) race_during (hd (bs_units seed)) d" "hold_ready T (envs j) (race_input seed j) race_during (hd (bs_units seed)) d"
      using R j by (simp_all add: race_ready_def)
    show "hi_actor (race_input seed j) \<noteq> hi_actor (race_input seed k)" using j k by (auto simp: race_actor_inj)
    show "e_uuid (envs j) 1 \<noteq> e_uuid (envs k) 1" using R j k by (auto simp: race_ready_def inj_on_def)
  qed (use ids actors in auto)
qed

lemma replaced_fields:
  "x \<in> set (replace_rows expired_row rows rs) \<Longrightarrow> r_id x \<in> r_id ` set rs \<and> r_created_by x \<in> r_created_by ` set rs"
proof -
  assume "x \<in> set (replace_rows expired_row rows rs)"
  then obtain y where "y \<in> set rs" "x = y \<or> x = expired_row y" by (auto simp: replace_rows_def)
  moreover have "r_id (expired_row y) = r_id y" "r_created_by (expired_row y) = r_created_by y" by (simp_all add: expired_row_def)
  ultimately show ?thesis by (metis imageI)
qed

definition lost :: "exn + HoldOutcome \<Rightarrow> bool" where
  "lost s \<longleftrightarrow> (case s of Inr (HoldRefused c _ _) \<Rightarrow> c = Hold_conflict | _ \<Rightarrow> False)"

lemma lost_answers:
  assumes "list_all lost answers"
  shows "filter (\<lambda>s. case s of Inr (HoldOk _ _ _) \<Rightarrow> True | _ \<Rightarrow> False) answers = []" "filter lost answers = answers" "List.map_filter other_code answers = []"
  using assms by (induction answers) (auto simp: lost_def other_code_def List.map_filter_simps split: sum.splits HoldOutcome.splits)

lemma race_losers:
  assumes "inv T {} d" and "distinct ks" and "race_ready T envs seed (set ks) d" and "occupiers d (hd (bs_units seed)) race_during = {w}"
    and "r_venue w = bs_venue seed" and "\<forall>k\<in>set ks. \<not> dead (e_now (envs k) 1) w"
  shows "\<exists>answers d'. race_runs envs seed ks d = (answers, d') \<and> list_all lost answers \<and> length answers = length ks \<and> inv T {} d'"
  using assms
proof (induction ks arbitrary: d)
  case (Cons k ks)
  let ?u = "hd (bs_units seed)"
  have R: "hold_ready T (envs k) (race_input seed k) race_during ?u d" using Cons.prems(3) by (simp add: race_ready_def)
  have "\<not> dead (e_now (envs k) 1) w" "r_venue w = hi_venueId (race_input seed k)" using Cons.prems(5,6) by simp_all
  from hold_taken_slot [OF R Cons.prems(4) this] obtain m d' us during' where h: "hold (envs k) (race_input seed k) d = Inr (HoldRefused Hold_conflict m False, d')" "occupiers d' ?u race_during = {w}"
    "reservations d' = reservations d \<or> reservations d' = replace_rows expired_row (dead_rows (hold_session (envs k) (race_input seed k)) d us during') (reservations d)"
    by blast
  have f: "r_id r \<in> r_id ` set (reservations d) \<and> r_created_by r \<in> r_created_by ` set (reservations d)" if "r \<in> set (reservations d')" for r
    using h(3) that replaced_fields by auto
  have "race_ready T envs seed (set ks) d'"
    by (rule race_stays_ready [where envs = envs and seed = seed and k = k, OF _ _ h(1)]) (use Cons.prems(2,3) f in auto)
  moreover have "inv T {} d'" using preservesD [OF preserves_hold Cons.prems(1) h(1)] R by (simp add: hold_ready_def)
  ultimately obtain answers d'' where "race_runs envs seed ks d' = (answers, d'')" "list_all lost answers" "length answers = length ks" "inv T {} d''"
    using Cons.IH [of d'] Cons.prems(2,5,6) h(2) by auto
  moreover have "lost (Inr (HoldRefused Hold_conflict m False))" by (simp add: lost_def)
  ultimately show ?case using h(1) by simp
qed simp

text \<open>What the database and the environments of a race are like: a free, active unit for two, and no clock past the first expiry.\<close>

definition race_clocks :: "(nat \<Rightarrow> env) \<Rightarrow> nat \<Rightarrow> int \<Rightarrow> bool" where
  "race_clocks envs n ttl \<longleftrightarrow> (\<forall>j<n. \<forall>k<n. e_now (envs k) 1 < e_now (envs j) 1 + ttl * 1000)"

text \<open>
  C38: holds of distinct actors for one free unit and one slot, run together, have exactly one winner in whatever order they
  commit: the first; every other is a conflict, none throws, and no two active rows of a unit overlap afterwards.
\<close>

theorem runRace_one_winner:
  assumes I: "inv T {} d" and R: "race_ready T envs seed {..<n} d" and free: "occupiers d (hd (bs_units seed)) race_during = {}"
    and v: "find_venue d (bs_venue seed) = Some venue" and clocks: "race_clocks envs n (v_hold_ttl_seconds venue)"
    and order: "distinct order" "set order = {..<n}" "0 < n"
  shows "runRace envs seed n order d = \<lparr>rr_n = n, rr_winners = 1, rr_conflicts = n - 1, rr_other = [], rr_overlaps = 0\<rparr>"
proof -
  let ?u = "hd (bs_units seed)"
  have len: "length order = n" using distinct_card [OF order(1)] order(2) by simp
  then obtain k ks where o: "order = k # ks" using order(3) by (cases order) auto
  have k: "k < n" "k \<notin> set ks" "distinct ks" "{..<n} = insert k (set ks)" using order(1,2) o by auto
  have Rk: "hold_ready T (envs k) (race_input seed k) race_during ?u d" using R k(1) by (simp add: race_ready_def)
  define w where "w = new_reservation (race_input seed k) (e_uuid (envs k) 1) race_during (e_now (envs k) 1 + v_hold_ttl_seconds venue * 1000)"
  obtain rc t d' where h: "hold (envs k) (race_input seed k) d = Inr (HoldOk rc t False, d')" "reservations d' = reservations d @ [w]"
    using hold_free_slot [OF Rk free, of venue] v by (auto simp: w_def)
  have I': "inv T {} d'" using preservesD [OF preserves_hold I h(1)] Rk by (simp add: hold_ready_def)
  have c: "combos d' = combos d" using hold_configuration [OF h(1)] by (simp add: configuration_def)
  have m: "members_of d' a = members_of d a" for a unfolding members_of_def c ..
  have "w \<in> occupiers d' ?u race_during"
    by (simp add: occupiers_def h(2) w_def members_of_def released_def overlaps_def race_during_def)
  moreover have "occupiers d' ?u race_during \<subseteq> insert w (occupiers d ?u race_during)" by (auto simp: occupiers_def h(2) m)
  ultimately have occ: "occupiers d' ?u race_during = {w}" using free by auto
  have ready: "race_ready T envs seed (set ks) d'"
    by (rule race_stays_ready [where envs = envs and seed = seed and k = k, OF _ k(2) h(1)]) (use R k(4) in \<open>auto simp: h(2) w_def\<close>)
  have alive: "\<forall>j\<in>set ks. \<not> dead (e_now (envs j) 1) w"
    using clocks k order(2) o by (auto simp: race_clocks_def w_def dead_def not_le)
  have "r_venue w = bs_venue seed" by (simp add: w_def)
  from race_losers [OF I' k(3) ready occ this alive] obtain answers d'' where L: "race_runs envs seed ks d' = (answers, d'')" "list_all lost answers" "length answers = length ks" "inv T {} d''"
    by blast
  note lost_answers [OF L(2)]
  then show ?thesis
    using L o h(1) len observed_clean(1) [OF L(4)] by (simp add: runRace_def race_result_def count_if_def lost_def [abs_def] List.map_filter_simps other_code_def count_codes_def)
qed

definition race_envs :: "nat \<Rightarrow> env" where "race_envs k = demo_env (int k) (''r'' @ show_nat k)"

definition race_seed :: BenchSeed where "race_seed = \<lparr>bs_venue = ''v'', bs_units = [''a''], bs_combos = []\<rparr>"

theorem runRace_one_winner_witness:
  "runRace race_envs race_seed 3 [2, 0, 1] demo_db = \<lparr>rr_n = 3, rr_winners = 1, rr_conflicts = 2, rr_other = [], rr_overlaps = 0\<rparr>"
proof -
  note One_nat_def [simp del]
  have I: "inv 3 {} demo_db" by (rule demo_db_inv)
  have l: "lower ''a'' = ''a''" "lower ''b'' = ''b''" "lower ''c'' = ''c''" by code_simp+
  have u: "find_unit demo_db ''a'' ''v'' = Some (demo_unit ''a'')" by (simp add: demo_db_def find_unit_def demo_unit_def)
  have v: "find_venue demo_db ''v'' = Some demo_venue" by (simp add: find_venue_def demo_db_def demo_venue_def)
  have "hold_ready 3 (race_envs k) (race_input race_seed k) race_during ''a'' demo_db" if "k < 3" for k
    using I that race_range l
    by (simp add: hold_ready_def race_envs_def demo_env_def admissible_def race_seed_def race_actor_def u v)
       (simp add: demo_db_def demo_unit_def demo_venue_def race_during_def request_row_def idem_row_def tidy_ids_def demo_combo_def)
  then have R: "race_ready 3 race_envs race_seed {..<3} demo_db"
    by (auto simp: race_ready_def race_seed_def inj_on_def race_envs_def demo_env_def dest: show_nat_inj)
  have f: "occupiers demo_db (hd (bs_units race_seed)) race_during = {}" by (simp add: occupiers_def demo_db_def)
  have c: "race_clocks race_envs 3 (v_hold_ttl_seconds demo_venue)" by (auto simp: race_clocks_def race_envs_def demo_env_def demo_venue_def)
  have s: "bs_venue race_seed = ''v''" by (simp add: race_seed_def)
  have o: "distinct [2, 0, 1 :: nat]" "set [2, 0, 1 :: nat] = {..<3}" by auto
  from runRace_one_winner [OF I R f _ c o] v s show ?thesis by simp
qed

end
