(* ===== verification/HarnessUnderLoad.thy ===== *)
theory HarnessUnderLoad
  imports HarnessLoad Migrate
begin

text \<open>
  Migrations under load (apps/harness/src/migrate-under-load.ts): the fixtures and the loop that applies them through the runner
  of Migrate, the windows of traffic around each, and the verdict. The runner tries every fixture; what a pass says of the
  requests of the run.
\<close>

section \<open>The fixtures\<close>

datatype FixtureKind = Live_safe | Blocks

text \<open>The fixture whose text is a definition read from the database has \<open>None\<close>.\<close>

record Fixture =
  fx_file :: string
  fx_kind :: FixtureKind
  fx_header :: string
  fx_sql :: "string option"

definition TX :: string where "TX = ''-- transaction: yes'' @ [CHR 0x0A]"

definition impact_line :: "string \<Rightarrow> string" where "impact_line i = ''-- impact: '' @ i @ [CHR 0x0A]"

definition FIXTURES :: "Fixture list" where
  "FIXTURES =
    [\<lparr>fx_file = ''9001_bench_nullable_column.sql'', fx_kind = Live_safe, fx_header = TX @ impact_line ''instant-exclusive'',
       fx_sql = Some ''alter table dastar.reservation add column bench_note text;''\<rparr>,
     \<lparr>fx_file = ''9002_bench_concurrent_index.sql'', fx_kind = Live_safe, fx_header = ''-- transaction: no'' @ [CHR 0x0A] @ impact_line ''long-nonblocking'',
       fx_sql = Some ''create index concurrently if not exists reservation_bench_created_idx on dastar.reservation using btree (created_at);''\<rparr>,
     \<lparr>fx_file = ''9003_bench_replace_trigger_function.sql'', fx_kind = Live_safe, fx_header = TX @ impact_line ''instant-exclusive'', fx_sql = None\<rparr>,
     \<lparr>fx_file = ''9004_bench_not_valid_constraint.sql'', fx_kind = Live_safe, fx_header = TX @ impact_line ''instant-exclusive'',
       fx_sql = Some ''alter table dastar.reservation add constraint bench_party_positive check (party_size >= 1) not valid;''\<rparr>,
     \<lparr>fx_file = ''9005_bench_validate_constraint.sql'', fx_kind = Live_safe, fx_header = TX @ impact_line ''long-nonblocking'',
       fx_sql = Some ''alter table dastar.reservation validate constraint bench_party_positive;''\<rparr>,
     \<lparr>fx_file = ''9006_bench_plain_index.sql'', fx_kind = Blocks, fx_header = TX @ impact_line ''long-blocks-writes'',
       fx_sql = Some ''create index reservation_bench_plain_idx on dastar.reservation using btree (party_size);''\<rparr>,
     \<lparr>fx_file = ''9007_bench_table_rewrite.sql'', fx_kind = Blocks, fx_header = TX @ impact_line ''long-blocks-all'',
       fx_sql = Some ''alter table dastar.reservation add column bench_rand double precision default random();''\<rparr>]"

text \<open>The file a fixture is written to; \<open>def\<close> is what \<open>pg_get_functiondef\<close> says.\<close>

definition fixture_text :: "string \<Rightarrow> Fixture \<Rightarrow> string" where
  "fixture_text def f = fx_header f @ (case fx_sql f of Some sql \<Rightarrow> sql | None \<Rightarrow> def @ '';'') @ [CHR 0x0A]"

definition write_file :: "string \<Rightarrow> string \<Rightarrow> (string \<times> string) list \<Rightarrow> (string \<times> string) list" where
  "write_file f content dir = filter (\<lambda>(g, _). g \<noteq> f) dir @ [(f, content)]"

record 'v MigrationEntry =
  me_file :: string
  me_kind :: FixtureKind
  me_attempts :: nat
  me_startedAtMs :: 'v
  me_durationMs :: 'v
  me_error :: "string option"

definition error_message :: "migrate_error \<Rightarrow> string" where
  "error_message e = (case e of migrate_error.Refused m \<Rightarrow> m | Sql_error _ m \<Rightarrow> m)"

text \<open>
  The loop over the fixtures, on the directory with the shipped files. What the clock and \<open>onAttempt\<close> say of file \<open>k\<close> is
  given: when it started, how long it took, and its attempts.
\<close>

fun run_fixtures :: "'s server \<Rightarrow> (string \<Rightarrow> string) \<Rightarrow> string \<Rightarrow> string \<Rightarrow> (nat \<Rightarrow> 'v \<times> 'v \<times> nat) \<Rightarrow> nat \<Rightarrow> Fixture list \<Rightarrow> (string \<times> string) list \<Rightarrow> 's mstate
    \<Rightarrow> 'v MigrationEntry list \<times> 's mstate" where
  "run_fixtures sv sha def lockTimeout seen k [] dir s = ([], s)"
| "run_fixtures sv sha def lockTimeout seen k (f # fs) dir s = (let dir' = write_file (fx_file f) (fixture_text def f) dir; (startedAt, took, n) = seen k in
     case migrate sv \<lparr>mo_allowBlocking = (fx_kind f = Blocks), mo_lockTimeout = lockTimeout, mo_maxAttempts = mo_maxAttempts default_migrate_options\<rparr> (readMigrationFiles sha dir') s of
       (Inl e, s') \<Rightarrow> ([\<lparr>me_file = fx_file f, me_kind = fx_kind f, me_attempts = n, me_startedAtMs = startedAt, me_durationMs = took, me_error = Some (error_message e)\<rparr>], s')
     | (Inr _, s') \<Rightarrow> (case run_fixtures sv sha def lockTimeout seen (k + 1) fs dir' s' of
         (es, s'') \<Rightarrow> (\<lparr>me_file = fx_file f, me_kind = fx_kind f, me_attempts = n, me_startedAtMs = startedAt, me_durationMs = took, me_error = None\<rparr> # es, s'')))"

section \<open>Windows\<close>

definition request_failed :: "'v HoldRecord \<Rightarrow> bool" where
  "request_failed x \<longleftrightarrow> hr_cls x \<noteq> C_ok \<and> hr_cls x \<noteq> C_conflict"

record 'v WindowStats =
  ws_requests :: nat
  ws_errors :: nat
  ws_errorsByCode :: "(string \<times> nat) list"
  ws_e2eMs :: "'v Dist"
  ws_unitLockMs :: "'v Dist"
  ws_transactionMs :: "'v Dist"

definition windowStats :: "'v::linorder HoldRecord list \<Rightarrow> 'v WindowStats" where
  "windowStats rs = \<lparr>ws_requests = length rs, ws_errors = count_if request_failed rs, ws_errorsByCode = count_codes (map hr_code (filter request_failed rs)),
     ws_e2eMs = dist (samples rs hr_e2eMs hr_e2eCensored),
     ws_unitLockMs = dist (samples rs (\<lambda>x. ph_unitLockMs (hr_phases x)) (\<lambda>x. ph_unitLockCensored (hr_phases x))),
     ws_transactionMs = dist (samples rs (\<lambda>x. ph_transactionMs (hr_phases x)) (\<lambda>_. False))\<rparr>"

definition overlapping :: "'v::linorder HoldRecord list \<Rightarrow> 'v \<Rightarrow> 'v \<Rightarrow> 'v HoldRecord list" where
  "overlapping rs fromMs toMs = filter (\<lambda>x. hr_startedMs x < toMs \<and> (case hr_doneMs x of None \<Rightarrow> fromMs \<le> hr_startedMs x | Some t \<Rightarrow> fromMs < t)) rs"

definition startedWithin :: "'v::linorder HoldRecord list \<Rightarrow> 'v \<Rightarrow> 'v \<Rightarrow> 'v HoldRecord list" where
  "startedWithin rs fromMs toMs = filter (\<lambda>x. fromMs \<le> hr_startedMs x \<and> hr_startedMs x < toMs) rs"

record 'v MigrationWindow =
  mw_entry :: "'v MigrationEntry"
  mw_affected :: "'v WindowStats"
  mw_recovery :: "'v WindowStats"

definition entry_end :: "'v::plus MigrationEntry \<Rightarrow> 'v" where
  "entry_end m = me_startedAtMs m + me_durationMs m"

definition next_start :: "'v::linordered_field \<Rightarrow> 'v MigrationEntry \<Rightarrow> 'v MigrationEntry list \<Rightarrow> 'v" where
  "next_start gapSeconds m later = (case later of [] \<Rightarrow> entry_end m + gapSeconds * 1000 | m' # _ \<Rightarrow> me_startedAtMs m')"

text \<open>The two windows of each migration. A request is one of the run by its number, so a record stands for the object.\<close>

definition affected_by :: "'v::linordered_field HoldRecord list \<Rightarrow> 'v MigrationEntry \<Rightarrow> 'v HoldRecord list" where
  "affected_by rs m = overlapping rs (me_startedAtMs m) (entry_end m)"

definition recovering_from :: "'v::linordered_field \<Rightarrow> 'v HoldRecord list \<Rightarrow> 'v MigrationEntry \<Rightarrow> 'v MigrationEntry list \<Rightarrow> 'v HoldRecord list" where
  "recovering_from gapSeconds rs m later = filter (\<lambda>x. x \<notin> set (affected_by rs m)) (startedWithin rs (entry_end m) (next_start gapSeconds m later))"

fun windows :: "'v::linordered_field \<Rightarrow> 'v HoldRecord list \<Rightarrow> 'v MigrationEntry list \<Rightarrow> 'v MigrationWindow list \<times> 'v HoldRecord set" where
  "windows gapSeconds rs [] = ([], {})"
| "windows gapSeconds rs (m # later) = (let affected = affected_by rs m; recovery = recovering_from gapSeconds rs m later; (ws, counted) = windows gapSeconds rs later in
     (\<lparr>mw_entry = m, mw_affected = windowStats affected, mw_recovery = windowStats recovery\<rparr> # ws, set affected \<union> set recovery \<union> counted))"

section \<open>The verdict\<close>

datatype RunVerdict = Run_pass | Run_fail | Run_inconclusive | Run_invalid

definition MIN_AFFECTED :: nat where "MIN_AFFECTED = 5"
definition MIN_BASELINE :: nat where "MIN_BASELINE = 60"

datatype 'v UnderReason =
    Short_baseline nat
  | Baseline_failed nat "(string \<times> nat) list"
  | Under_sweeper_errors nat
  | Under_sweeper_idle
  | Not_attributed nat
  | Only_ran nat nat
  | Not_applied string string
  | Failed_in_flight string nat nat "(string \<times> nat) list"
  | Failed_after string nat nat "(string \<times> nat) list"
  | Thin_evidence string nat 'v

record 'v UnderRun =
  ur_baseline :: "'v WindowStats"
  ur_migrations :: "'v MigrationWindow list"
  ur_fixtures :: nat
  ur_sweepErrors :: nat
  ur_sweepTicks :: nat
  ur_errorsOutsideWindows :: nat

definition window_failures :: "'v MigrationWindow \<Rightarrow> 'v UnderReason list" where
  "window_failures m = (let e = mw_entry m; a = mw_affected m; r = mw_recovery m in
     (case me_error e of Some t \<Rightarrow> [Not_applied (me_file e) t] | None \<Rightarrow> [])
     @ (if 0 < ws_errors a then [Failed_in_flight (me_file e) (ws_errors a) (ws_requests a) (ws_errorsByCode a)] else [])
     @ (if 0 < ws_errors r then [Failed_after (me_file e) (ws_errors r) (ws_requests r) (ws_errorsByCode r)] else []))"

definition judgeUnderLoad :: "'v UnderRun \<Rightarrow> RunVerdict \<times> 'v UnderReason list" where
  "judgeUnderLoad run = (let
     invalid = (if ws_requests (ur_baseline run) < MIN_BASELINE then [Short_baseline (ws_requests (ur_baseline run))] else [])
       @ (if 0 < ws_errors (ur_baseline run) then [Baseline_failed (ws_errors (ur_baseline run)) (ws_errorsByCode (ur_baseline run))] else [])
       @ (if 0 < ur_sweepErrors run then [Under_sweeper_errors (ur_sweepErrors run)] else [])
       @ (if ur_sweepTicks run = 0 then [Under_sweeper_idle] else [])
       @ (if 0 < ur_errorsOutsideWindows run then [Not_attributed (ur_errorsOutsideWindows run)] else []);
     liveSafe = filter (\<lambda>m. me_kind (mw_entry m) = Live_safe) (ur_migrations run);
     failures = (if length liveSafe < ur_fixtures run then [Only_ran (length liveSafe) (ur_fixtures run)] else []) @ concat (map window_failures liveSafe);
     thin = filter (\<lambda>m. ws_requests (mw_affected m) < MIN_AFFECTED) liveSafe in
     if invalid \<noteq> [] then (Run_invalid, invalid)
     else if failures \<noteq> [] then (Run_fail, failures)
     else if thin \<noteq> [] then (Run_inconclusive, map (\<lambda>m. Thin_evidence (me_file (mw_entry m)) (ws_requests (mw_affected m)) (me_durationMs (mw_entry m))) thin)
     else (Run_pass, []))"

section \<open>The report\<close>

record 'v UnderReport =
  um_baseline :: "'v WindowStats"
  um_wholeRun :: "'v WindowStats"
  um_errorsOutsideWindows :: nat
  um_migrations :: "'v MigrationWindow list"
  um_thinEvidence :: "string list"
  um_fixturesApplied :: bool
  um_underLoad :: "RunVerdict \<times> 'v UnderReason list"

definition baseline_of :: "'v::linordered_field \<Rightarrow> 'v MigrationEntry list \<Rightarrow> 'v HoldRecord list \<Rightarrow> 'v HoldRecord list" where
  "baseline_of baselineSeconds entries rs = (let firstStart = (case entries of [] \<Rightarrow> baselineSeconds * 1000 | m # _ \<Rightarrow> me_startedAtMs m) in
     filter (\<lambda>x. 1000 \<le> hr_startedMs x \<and> (case hr_doneMs x of None \<Rightarrow> False | Some t \<Rightarrow> t < firstStart)) rs)"

definition under_load_report :: "'v::linordered_field \<Rightarrow> 'v \<Rightarrow> 'v MigrationEntry list \<Rightarrow> 'v HoldRecord list \<Rightarrow> SweepStats \<Rightarrow> 'v UnderReport" where
  "under_load_report baselineSeconds gapSeconds entries rs sweep = (let
     (migrations, counted) = windows gapSeconds rs entries;
     baseline = windowStats (baseline_of baselineSeconds entries rs);
     outside = count_if (\<lambda>x. request_failed x \<and> x \<notin> counted) rs in
     \<lparr>um_baseline = baseline, um_wholeRun = windowStats rs, um_errorsOutsideWindows = outside, um_migrations = migrations,
      um_thinEvidence = map (\<lambda>m. me_file (mw_entry m)) (filter (\<lambda>m. me_kind (mw_entry m) = Live_safe \<and> ws_requests (mw_affected m) < MIN_AFFECTED) migrations),
      um_fixturesApplied = (length migrations = length FIXTURES \<and> list_all (\<lambda>m. me_error (mw_entry m) = None) migrations),
      um_underLoad = judgeUnderLoad \<lparr>ur_baseline = baseline, ur_migrations = migrations, ur_fixtures = length (filter (\<lambda>f. fx_kind f = Live_safe) FIXTURES),
        ur_sweepErrors = ss_errors sweep, ur_sweepTicks = ss_ticks sweep, ur_errorsOutsideWindows = outside\<rparr>\<rparr>)"

definition runMigrateUnderLoad :: "'s server \<Rightarrow> (string \<Rightarrow> string) \<Rightarrow> string \<Rightarrow> string \<Rightarrow> (nat \<Rightarrow> 'v \<times> 'v \<times> nat) \<Rightarrow> (string \<times> string) list \<Rightarrow> 's mstate
    \<Rightarrow> 'v::linordered_field \<Rightarrow> 'v \<Rightarrow> 'v HoldRecord list \<Rightarrow> SweepStats \<Rightarrow> 'v UnderReport" where
  "runMigrateUnderLoad sv sha def lockTimeout seen shipped s baselineSeconds gapSeconds rs sweep =
     under_load_report baselineSeconds gapSeconds (fst (run_fixtures sv sha def lockTimeout seen 0 FIXTURES (filter (\<lambda>(f, _). migration_name f) shipped) s)) rs sweep"

section \<open>What the runner says of the fixtures\<close>

definition fixture_migration :: "(string \<Rightarrow> string) \<Rightarrow> string \<Rightarrow> Fixture \<Rightarrow> MigrationFile" where
  "fixture_migration sha def f = \<lparr>mf_version = version_digits (take 4 (fx_file f)), mf_file = fx_file f, mf_sql = fixture_text def f, mf_checksum = sha (fixture_text def f)\<rparr>"

lemma fixture_names: "list_all (\<lambda>f. migration_name (fx_file f)) FIXTURES"
  by code_simp

lemma fixture_index: "parseConcurrentIndex ''9002_bench_concurrent_index.sql'' (fixture_text def (FIXTURES ! 1)) =
   Inr (Create_index ''dastar'' ''reservation_bench_created_idx'' ''reservation''
     ''create index reservation_bench_created_idx on dastar.reservation using btree (created_at)'')"
  unfolding fixture_text_def by code_simp

lemma fixture_headers: "map (\<lambda>f. parseHeader (fx_file f) (fixture_text def f)) FIXTURES =
   map Inr [\<lparr>hd_transaction = True, hd_impact = Instant_exclusive\<rparr>, \<lparr>hd_transaction = False, hd_impact = Long_nonblocking\<rparr>,
     \<lparr>hd_transaction = True, hd_impact = Instant_exclusive\<rparr>, \<lparr>hd_transaction = True, hd_impact = Instant_exclusive\<rparr>,
     \<lparr>hd_transaction = True, hd_impact = Long_nonblocking\<rparr>, \<lparr>hd_transaction = True, hd_impact = Long_blocks_writes\<rparr>,
     \<lparr>hd_transaction = True, hd_impact = Long_blocks_all\<rparr>]"
  by (simp add: FIXTURES_def fixture_text_def TX_def impact_line_def parseHeader_def header_here_def after_prefix_def impacts_def at_line_end_def line_end_def js_space_def)

text \<open>Every fixture passes the checks of the runner as the run calls it: it is tried, in a block or by the restricted mode.\<close>

definition fixture_effect :: "'s server \<Rightarrow> string \<Rightarrow> (string \<Rightarrow> string) \<Rightarrow> string \<Rightarrow> Fixture \<Rightarrow> 's effect" where
  "fixture_effect sv lockTimeout sha def f = (if fx_file f = ''9002_bench_concurrent_index.sql''
     then applyConcurrent sv lockTimeout (fixture_migration sha def f) (Create_index ''dastar'' ''reservation_bench_created_idx'' ''reservation''
       ''create index reservation_bench_created_idx on dastar.reservation using btree (created_at)'')
     else in_block sv lockTimeout (fixture_migration sha def f))"

definition fixture_headers_expected :: "Header list" where
  "fixture_headers_expected = [\<lparr>hd_transaction = True, hd_impact = Instant_exclusive\<rparr>, \<lparr>hd_transaction = False, hd_impact = Long_nonblocking\<rparr>,
     \<lparr>hd_transaction = True, hd_impact = Instant_exclusive\<rparr>, \<lparr>hd_transaction = True, hd_impact = Instant_exclusive\<rparr>,
     \<lparr>hd_transaction = True, hd_impact = Long_nonblocking\<rparr>, \<lparr>hd_transaction = True, hd_impact = Long_blocks_writes\<rparr>,
     \<lparr>hd_transaction = True, hd_impact = Long_blocks_all\<rparr>]"

lemma fixture_shapes: "list_all2 (\<lambda>f h. (blocking (hd_impact h) \<longleftrightarrow> fx_kind f = Blocks) \<and> (hd_transaction h \<longleftrightarrow> fx_file f \<noteq> ''9002_bench_concurrent_index.sql''))
    FIXTURES fixture_headers_expected"
  by (simp add: FIXTURES_def fixture_headers_expected_def blocking_def)

lemma fixture_header:
  assumes "f \<in> set FIXTURES"
  obtains h where "parseHeader (fx_file f) (fixture_text def f) = Inr h" "blocking (hd_impact h) \<longleftrightarrow> fx_kind f = Blocks"
    "hd_transaction h \<longleftrightarrow> fx_file f \<noteq> ''9002_bench_concurrent_index.sql''"
proof -
  obtain k where k: "k < length FIXTURES" "f = FIXTURES ! k" using assms by (auto simp: in_set_conv_nth)
  have "map (\<lambda>f. parseHeader (fx_file f) (fixture_text def f)) FIXTURES ! k = map Inr fixture_headers_expected ! k"
    unfolding fixture_headers fixture_headers_expected_def ..
  moreover have "k < length fixture_headers_expected" using k(1) list_all2_lengthD [OF fixture_shapes] by simp
  ultimately have "parseHeader (fx_file f) (fixture_text def f) = Inr (fixture_headers_expected ! k)" using k by simp
  with that show thesis using list_all2_nthD [OF fixture_shapes k(1)] k(2) by blast
qed

lemma fixture_index_text: "f \<in> set FIXTURES \<Longrightarrow> fx_file f = ''9002_bench_concurrent_index.sql'' \<Longrightarrow> f = FIXTURES ! 1"
proof -
  have "list_all (\<lambda>f. fx_file f = ''9002_bench_concurrent_index.sql'' \<longrightarrow> f = FIXTURES ! 1) FIXTURES" by (simp add: FIXTURES_def)
  then show "f \<in> set FIXTURES \<Longrightarrow> fx_file f = ''9002_bench_concurrent_index.sql'' \<Longrightarrow> f = FIXTURES ! 1" unfolding list_all_iff by blast
qed

lemma fixtures_tried:
  assumes f: "f \<in> set FIXTURES"
  shows "apply_file sv \<lparr>mo_allowBlocking = (fx_kind f = Blocks), mo_lockTimeout = lt, mo_maxAttempts = n\<rparr> (fixture_migration sha def f) s =
    attempts (fixture_effect sv lt sha def f) n 1 s"
proof -
  obtain h where h: "parseHeader (fx_file f) (fixture_text def f) = Inr h" "blocking (hd_impact h) \<longleftrightarrow> fx_kind f = Blocks"
    "hd_transaction h \<longleftrightarrow> fx_file f \<noteq> ''9002_bench_concurrent_index.sql''" using fixture_header [OF f] .
  have m: "mf_file (fixture_migration sha def f) = fx_file f" "mf_sql (fixture_migration sha def f) = fixture_text def f" by (simp_all add: fixture_migration_def)
  show ?thesis
  proof (cases "fx_file f = ''9002_bench_concurrent_index.sql''")
    case True
    with fixture_index [of def] fixture_index_text [OF f True] h m show ?thesis by (simp add: apply_file_def applyWithRetry_def fixture_effect_def)
  next
    case False
    with h m show ?thesis by (simp add: apply_file_def applyWithRetry_def fixture_effect_def)
  qed
qed

section \<open>What a pass says\<close>

text \<open>A request that was in flight during a migration, or started before the next one.\<close>

definition in_flight :: "'v::linordered_field MigrationEntry \<Rightarrow> 'v HoldRecord \<Rightarrow> bool" where
  "in_flight m x \<longleftrightarrow> hr_startedMs x < entry_end m \<and> (case hr_doneMs x of None \<Rightarrow> me_startedAtMs m \<le> hr_startedMs x | Some t \<Rightarrow> me_startedAtMs m < t)"

definition met :: "'v::linordered_field \<Rightarrow> 'v MigrationEntry \<Rightarrow> 'v MigrationEntry list \<Rightarrow> 'v HoldRecord \<Rightarrow> bool" where
  "met gapSeconds m later x \<longleftrightarrow> in_flight m x \<or> entry_end m \<le> hr_startedMs x \<and> hr_startedMs x < next_start gapSeconds m later"

definition window_of :: "'v::linordered_field \<Rightarrow> 'v HoldRecord list \<Rightarrow> 'v MigrationEntry \<Rightarrow> 'v MigrationEntry list \<Rightarrow> 'v MigrationWindow" where
  "window_of gapSeconds rs m later = \<lparr>mw_entry = m, mw_affected = windowStats (affected_by rs m), mw_recovery = windowStats (recovering_from gapSeconds rs m later)\<rparr>"

fun with_later :: "'a list \<Rightarrow> ('a \<times> 'a list) list" where
  "with_later [] = []"
| "with_later (m # ms) = (m, ms) # with_later ms"

lemma map_fst_with_later: "map fst (with_later ms) = ms"
  by (induction ms) simp_all

lemma in_window: "set (affected_by rs m) \<union> set (recovering_from gap rs m later) = {x \<in> set rs. met gap m later x}"
  by (auto simp: affected_by_def recovering_from_def overlapping_def startedWithin_def met_def in_flight_def)

lemma windows_eq: "windows gap rs ms = (map (\<lambda>(m, later). window_of gap rs m later) (with_later ms),
    {x \<in> set rs. \<exists>(m, later)\<in>set (with_later ms). met gap m later x})"
proof (induction ms)
  case (Cons m ms)
  have "{x \<in> set rs. \<exists>(m', later)\<in>set (with_later (m # ms)). met gap m' later x} =
    {x \<in> set rs. met gap m ms x} \<union> {x \<in> set rs. \<exists>(m', later)\<in>set (with_later ms). met gap m' later x}" by auto
  then show ?case using Cons by (simp add: Let_def window_of_def in_window del: Un_iff)
qed simp

lemma windowStats_counts [simp]: "ws_requests (windowStats rs) = length rs" "ws_errors (windowStats rs) = 0 \<longleftrightarrow> (\<forall>x\<in>set rs. \<not> request_failed x)"
  by (simp_all add: windowStats_def count_if_def filter_empty_conv)

lemma judge_pass:
  "fst (judgeUnderLoad run) = Run_pass \<longleftrightarrow> MIN_BASELINE \<le> ws_requests (ur_baseline run) \<and> ws_errors (ur_baseline run) = 0 \<and> ur_sweepErrors run = 0
     \<and> 0 < ur_sweepTicks run \<and> ur_errorsOutsideWindows run = 0
     \<and> ur_fixtures run \<le> length (filter (\<lambda>m. me_kind (mw_entry m) = Live_safe) (ur_migrations run))
     \<and> (\<forall>m\<in>set (ur_migrations run). me_kind (mw_entry m) = Live_safe \<longrightarrow> me_error (mw_entry m) = None \<and> ws_errors (mw_affected m) = 0
         \<and> ws_errors (mw_recovery m) = 0 \<and> MIN_AFFECTED \<le> ws_requests (mw_affected m))"
proof -
  have f: "window_failures m = [] \<longleftrightarrow> me_error (mw_entry m) = None \<and> ws_errors (mw_affected m) = 0 \<and> ws_errors (mw_recovery m) = 0" for m :: "'a MigrationWindow"
    by (auto simp: window_failures_def Let_def split: option.splits)
  show ?thesis by (auto simp: judgeUnderLoad_def Let_def f filter_empty_conv not_less)
qed

text \<open>The five live-safe fixtures of the seven.\<close>

lemma live_safe_fixtures: "length (filter (\<lambda>f. fx_kind f = Live_safe) FIXTURES) = 5"
  by (simp add: FIXTURES_def)

text \<open>
  C39: a run of migrations under load passes exactly when the baseline is long enough and clean, the sweeper ran clean, all five
  live-safe migrations applied with enough requests in flight, and every request that failed at all met one of the blocking
  migrations and none of the live-safe ones.
\<close>

theorem underLoad_pass:
  "fst (um_underLoad (under_load_report baselineSeconds gap entries rs sweep)) = Run_pass \<longleftrightarrow>
     60 \<le> length (baseline_of baselineSeconds entries rs) \<and> (\<forall>x\<in>set (baseline_of baselineSeconds entries rs). \<not> request_failed x)
     \<and> ss_errors sweep = 0 \<and> 0 < ss_ticks sweep \<and> 5 \<le> length (filter (\<lambda>m. me_kind m = Live_safe) entries)
     \<and> (\<forall>m\<in>set entries. me_kind m = Live_safe \<longrightarrow> me_error m = None \<and> 5 \<le> length (filter (in_flight m) rs))
     \<and> (\<forall>x\<in>set rs. request_failed x \<longrightarrow> (\<forall>(m, later)\<in>set (with_later entries). met gap m later x \<longrightarrow> me_kind m = Blocks)
          \<and> (\<exists>(m, later)\<in>set (with_later entries). met gap m later x))"
proof -
  have a: "affected_by rs m = filter (in_flight m) rs" for m unfolding affected_by_def overlapping_def in_flight_def ..
  have kinds: "length (filter (\<lambda>w. me_kind (mw_entry w) = Live_safe) (map (\<lambda>(m, later). window_of gap rs m later) (with_later entries)))
      = length (filter (\<lambda>m. me_kind m = Live_safe) entries)"
    using arg_cong [OF map_fst_with_later [of entries], of "\<lambda>xs. length (filter (\<lambda>m. me_kind m = Live_safe) xs)"]
    by (simp add: filter_map comp_def split_def window_of_def)
  have live: "me_kind m = Blocks \<longleftrightarrow> me_kind m \<noteq> Live_safe" for m :: "'a MigrationEntry" by (cases "me_kind m") auto
  have in_entries: "(\<forall>p\<in>set (with_later entries). Q (fst p)) \<longleftrightarrow> (\<forall>m\<in>set entries. Q m)" for Q
    by (metis (mono_tags) map_fst_with_later in_set_conv_nth length_map nth_map nth_mem)
  have clear: "(\<forall>x\<in>set (affected_by rs m). \<not> request_failed x) \<and> (\<forall>x\<in>set (recovering_from gap rs m later). \<not> request_failed x)
      \<longleftrightarrow> (\<forall>x\<in>set rs. request_failed x \<longrightarrow> \<not> met gap m later x)" for m later
    using in_window [of rs m gap later] by blast
  let ?bl = "baseline_of baselineSeconds entries rs" and ?ps = "with_later entries"
  let ?counted = "{x \<in> set rs. \<exists>(m, later)\<in>set ?ps. met gap m later x}"
  have outside: "count_if (\<lambda>x. request_failed x \<and> x \<notin> ?counted) rs = 0 \<longleftrightarrow> (\<forall>x\<in>set rs. request_failed x \<longrightarrow> (\<exists>(m, later)\<in>set ?ps. met gap m later x))"
    by (auto simp: count_if_def filter_empty_conv)
  have clean: "ws_errors (windowStats ?bl) = 0 \<longleftrightarrow> (\<forall>x\<in>set ?bl. \<not> request_failed x)"
    by simp
  let ?ws = "map (\<lambda>(m, later). window_of gap rs m later) ?ps"
  have R: "um_underLoad (under_load_report baselineSeconds gap entries rs sweep) = judgeUnderLoad \<lparr>ur_baseline = windowStats ?bl, ur_migrations = ?ws,
      ur_fixtures = 5, ur_sweepErrors = ss_errors sweep, ur_sweepTicks = ss_ticks sweep,
      ur_errorsOutsideWindows = count_if (\<lambda>x. request_failed x \<and> x \<notin> ?counted) rs\<rparr>"
    by (simp only: under_load_report_def windows_eq Let_def prod.case live_safe_fixtures UnderReport.select_convs)
  have each: "(\<forall>w\<in>set ?ws. me_kind (mw_entry w) = Live_safe \<longrightarrow> me_error (mw_entry w) = None \<and> ws_errors (mw_affected w) = 0
        \<and> ws_errors (mw_recovery w) = 0 \<and> MIN_AFFECTED \<le> ws_requests (mw_affected w))
      \<longleftrightarrow> (\<forall>p\<in>set ?ps. me_kind (fst p) = Live_safe \<longrightarrow> me_error (fst p) = None \<and> (\<forall>x\<in>set rs. request_failed x \<longrightarrow> \<not> met gap (fst p) (snd p) x) \<and> 5 \<le> length (affected_by rs (fst p)))"
    by (simp add: split_def window_of_def MIN_AFFECTED_def clear [symmetric] conj_assoc)
  have "fst (um_underLoad (under_load_report baselineSeconds gap entries rs sweep)) = Run_pass \<longleftrightarrow>
     60 \<le> length ?bl \<and> (\<forall>x\<in>set ?bl. \<not> request_failed x) \<and> ss_errors sweep = 0 \<and> 0 < ss_ticks sweep
     \<and> (\<forall>x\<in>set rs. request_failed x \<longrightarrow> (\<exists>(m, later)\<in>set ?ps. met gap m later x)) \<and> 5 \<le> length (filter (\<lambda>m. me_kind m = Live_safe) entries)
     \<and> (\<forall>p\<in>set ?ps. me_kind (fst p) = Live_safe \<longrightarrow> me_error (fst p) = None \<and> (\<forall>x\<in>set rs. request_failed x \<longrightarrow> \<not> met gap (fst p) (snd p) x) \<and> 5 \<le> length (affected_by rs (fst p)))"
    unfolding R judge_pass UnderRun.select_convs outside clean kinds each MIN_BASELINE_def by (auto simp: windowStats_counts(1))
  also have "\<dots> \<longleftrightarrow> 60 \<le> length ?bl \<and> (\<forall>x\<in>set ?bl. \<not> request_failed x) \<and> ss_errors sweep = 0 \<and> 0 < ss_ticks sweep
     \<and> 5 \<le> length (filter (\<lambda>m. me_kind m = Live_safe) entries)
     \<and> (\<forall>p\<in>set ?ps. me_kind (fst p) = Live_safe \<longrightarrow> me_error (fst p) = None \<and> 5 \<le> length (filter (in_flight (fst p)) rs))
     \<and> (\<forall>x\<in>set rs. request_failed x \<longrightarrow> (\<forall>(m, later)\<in>set ?ps. met gap m later x \<longrightarrow> me_kind m = Blocks)
          \<and> (\<exists>(m, later)\<in>set ?ps. met gap m later x))"
    unfolding split_def a live by blast
  finally show ?thesis
    using in_entries [of "\<lambda>m. me_kind m = Live_safe \<longrightarrow> me_error m = None \<and> 5 \<le> length (filter (in_flight m) rs)"] by simp
qed

definition demo_entry :: "Fixture \<Rightarrow> rat \<Rightarrow> rat MigrationEntry" where
  "demo_entry f t = \<lparr>me_file = fx_file f, me_kind = fx_kind f, me_attempts = 1, me_startedAtMs = t, me_durationMs = 100, me_error = None\<rparr>"

definition demo_entries :: "rat MigrationEntry list" where
  "demo_entries = map (\<lambda>(f, t). demo_entry f t) (zip FIXTURES [10000, 20000, 30000, 40000, 50000, 60000, 70000])"

text \<open>Sixty requests before the first migration, five in flight during each of the first five, and one that fails during the sixth.\<close>

definition request_at :: "rat \<Rightarrow> string \<Rightarrow> rat HoldRecord" where
  "request_at t c = (demo_record 0 t (Some 50) c)\<lparr>hr_doneMs := Some (t + 50)\<rparr>"

definition demo_requests :: "rat HoldRecord list" where
  "demo_requests = replicate 60 (request_at 2000 ''ok'') @ replicate 5 (request_at 9990 ''ok'') @ replicate 5 (request_at 19990 ''hold_conflict'')
     @ replicate 5 (request_at 30010 ''ok'') @ replicate 5 (request_at 40010 ''ok'') @ replicate 5 (request_at 50010 ''ok'') @ [request_at 60010 ''timeout'']"

lemma request_at_sel [simp]: "hr_startedMs (request_at t c) = t" "hr_doneMs (request_at t c) = Some (t + 50)"
  "request_failed (request_at t c) \<longleftrightarrow> c \<noteq> ''ok'' \<and> c \<noteq> ''hold_conflict''"
  by (simp_all add: request_at_def demo_record_def request_failed_def classify_def)

theorem underLoad_pass_witness:
  "fst (um_underLoad (under_load_report 10 1 demo_entries demo_requests (sweep_stats_start\<lparr>ss_ticks := 9\<rparr>))) = Run_pass"
proof -
  note One_nat_def [simp del]
  let ?es = "[demo_entry (FIXTURES ! 0) 10000, demo_entry (FIXTURES ! 1) 20000, demo_entry (FIXTURES ! 2) 30000, demo_entry (FIXTURES ! 3) 40000,
    demo_entry (FIXTURES ! 4) 50000, demo_entry (FIXTURES ! 5) 60000, demo_entry (FIXTURES ! 6) 70000]"
  have e: "demo_entries = ?es" by (simp add: demo_entries_def FIXTURES_def)
  have k: "fx_kind (FIXTURES ! 0) = Live_safe" "fx_kind (FIXTURES ! 1) = Live_safe" "fx_kind (FIXTURES ! 2) = Live_safe" "fx_kind (FIXTURES ! 3) = Live_safe"
    "fx_kind (FIXTURES ! 4) = Live_safe" "fx_kind (FIXTURES ! 5) = Blocks" "fx_kind (FIXTURES ! 6) = Blocks"
    by (simp_all add: FIXTURES_def)
  have sel: "me_startedAtMs (demo_entry f t) = t" "entry_end (demo_entry f t) = t + 100" "me_kind (demo_entry f t) = fx_kind f" "me_error (demo_entry f t) = None" for f t
    by (simp_all add: demo_entry_def entry_end_def)
  have b: "baseline_of 10 ?es demo_requests = replicate 60 (request_at 2000 ''ok'')"
    by (simp add: baseline_of_def demo_requests_def sel)
  have f: "5 \<le> length (filter (in_flight m) demo_requests)" if "m \<in> set (take 5 ?es)" for m
    using that by (auto simp: in_flight_def demo_requests_def sel)
  have one: "x = request_at 60010 ''timeout''" if "x \<in> set demo_requests" "request_failed x" for x using that by (auto simp: demo_requests_def)
  have met: "\<forall>(m, later)\<in>set (with_later ?es). met 1 m later (request_at 60010 ''timeout'') \<longrightarrow> me_kind m = Blocks"
    "\<exists>(m, later)\<in>set (with_later ?es). met 1 m later (request_at 60010 ''timeout'')"
    by (simp_all add: met_def in_flight_def sel next_start_def k)
  have live: "\<forall>m\<in>set ?es. me_kind m = Live_safe \<longrightarrow> me_error m = None \<and> 5 \<le> length (filter (in_flight m) demo_requests)"
    using f by (simp add: sel k)
  have n: "5 \<le> length (filter (\<lambda>m. me_kind m = Live_safe) ?es)" by (simp add: sel k)
  show ?thesis
    unfolding underLoad_pass e b
    by (intro conjI live n ballI impI) (use one met in \<open>auto simp: sweep_stats_start_def\<close>)
qed

end
