(* ===== verification/Spec2Isabelle.thy ===== *)
theory Spec2Isabelle
  imports CoreAvailability HoldProperties DbConfigInvariant CmdLifecycle LifecycleProperties WorkerProperties
    ReadProperties ClientSync AdminProperties ApiApp ApiProperties System Migrate HoldDecides HarnessStats HarnessArrivals
    HarnessObserve HarnessLoad HarnessTargets HarnessRace HarnessUnderLoad
begin

text \<open>
  dastar is a reservation engine over Postgres: \<open>packages/core\<close> computes what is bookable, \<open>packages/db\<close> runs the
  commands as transactions against a schema whose triggers and constraints hold the rules, \<open>packages/worker\<close> expires holds
  and purges what is old, \<open>apps/api\<close> serves all of it over HTTP, \<open>packages/client\<close> holds the types its callers compile
  against, and \<open>apps/harness\<close> loads and judges the whole. This development models them from the core outwards; each theory
  names the files it models, and a definition has the name its source has.

  \<^bold>\<open>The parts and how they meet.\<close> A command is a function of an environment (clocks, the hash, zones, fresh ids, the
  statements other transactions let through) and of the database, a record of the tables; it returns its answer, or the
  error it throws, with the next database. It reads and writes only through the operations of \<open>DbTables\<close> and
  \<open>DbTriggers\<close>, which do what the schema's triggers, constraints and row-level policies do, so every rule the repository
  leaves to the database is checked at the write. A transaction that fails returns the database it began with. The worker
  repeats two commands; the API's handlers call the commands with what a request carries and render what comes back;
  \<open>System\<close> interleaves all of it as steps on one database under one clock.

  \<^bold>\<open>Theories, by part.\<close>
  \<^item> Shared: \<open>Prelude\<close> (results as sums, ranges, the rule collections), \<open>JsDate\<close> (time values, \<open>toISOString\<close> and
    parsing), \<open>JsDouble\<close> (rounding to the nearest double, as a function on an ordered field, with what overflows at
    Infinity), \<open>JsNumber\<close> (\<open>Number(text)\<close>: the exact value of the numeral, then rounded), \<open>Json\<close> and \<open>JsonValue\<close> (\<open>JSON.stringify\<close> and Postgres's refusal of NUL).
  \<^item> \<open>packages/core/src\<close>: \<open>CoreErrors\<close> (\<open>errors.ts\<close>, \<open>bounds.ts\<close>), \<open>CoreReservation\<close> (\<open>reservation.ts\<close>,
    \<open>units.ts\<close>), \<open>CoreAvailability\<close> (\<open>availability.ts\<close>, with a locale for what a ranking strategy owes).
  \<^item> \<open>packages/db\<close>, state: \<open>DbTables\<close>, \<open>DbTriggers\<close> (the migrations' tables, triggers, constraints, policies),
    \<open>DbErrors\<close> (\<open>errors.ts\<close>), \<open>DbInvariant\<close> and \<open>DbConfigInvariant\<close> (the invariants, and that every write keeps them).
  \<^item> \<open>packages/db/src/commands\<close>: \<open>CmdHold\<close>, \<open>CmdLifecycle\<close>, \<open>CmdWorker\<close> over \<open>DbBatch\<close>, \<open>CmdReads\<close> over
    \<open>DbPeriods\<close>, \<open>CmdAdmin\<close>, \<open>CmdAdminUnits\<close>, \<open>CmdAdminCalendar\<close>; their properties in \<open>HoldProperties\<close>,
    \<open>LifecycleOutcomes\<close>, \<open>LifecycleProperties\<close>, \<open>WorkerProperties\<close>, \<open>ReadProperties\<close>, \<open>AdminStranding\<close>,
    \<open>AdminSettled\<close>, \<open>AdminProperties\<close>. \<open>Demo\<close> is the venue the witnesses run on.
  \<^item> \<open>packages/db/src/handle.ts\<close>: \<open>Handle\<close>, a call's deadline, grace, rollback probe, cancel request and the fate of
    its connection. \<open>packages/db/src/migrate.ts\<close>: \<open>Migrate\<close>.
  \<^item> \<open>packages/worker/src\<close>: \<open>Worker\<close> (both loops, the configuration).
  \<^item> \<open>apps/api/src\<close>: \<open>WireTypes\<close> and \<open>ApiSchemas\<close> (\<open>schemas.ts\<close>), \<open>ApiProblem\<close>, \<open>ApiAuth\<close>, \<open>ApiRoutes\<close>,
    \<open>ApiHandlers\<close>, \<open>ApiAdmin\<close>, \<open>ApiApp\<close>; \<open>ApiProperties\<close>.
  \<^item> \<open>packages/client/src/schema.ts\<close>: \<open>ClientSchema\<close>; \<open>ClientSync\<close> proves it the document of the routes.
  \<^item> \<open>apps/harness/src\<close>: \<open>HarnessStats\<close> (\<open>stats.ts\<close>), \<open>HarnessArrivals\<close> (\<open>rng.ts\<close>, \<open>schedule.ts\<close>, \<open>workload.ts\<close>; the plan's
    times are doubles), \<open>HarnessObserve\<close> (\<open>observe.ts\<close>), \<open>HarnessLoad\<close> and \<open>HarnessTargets\<close> (\<open>load.ts\<close>: a session, its summaries
    and its validity; the targets and \<open>runLoad\<close>), \<open>HarnessRace\<close> (\<open>race.ts\<close>), \<open>HarnessUnderLoad\<close> (\<open>migrate-under-load.ts\<close>).
  \<^item> The composition: \<open>BookingCalendar\<close> (the specification) and \<open>System\<close>.

  \<^bold>\<open>What the lemmas show.\<close> \<open>DbInvariant\<close> states the design's invariants as one predicate \<open>inv T\<close> of a bound on the clock
  (no unit twice at once, live reservations fitted and outside blackouts, a history that replays to each row, tokens and
  statuses that agree) and proves them of each kind of write; the command theories reduce each command to those writes, so
  that \<open>System\<close> has them of every reachable state. Beside them every command has its exact outcome, branch by branch,
  errors included. \<open>AdminStranding\<close> is the contract of a forced write as a locale, interpreted by the four writes that can
  strand a reservation; \<open>ReadProperties\<close> has the snapshot store's contract the same way, and \<open>System\<close> the simulation
  that turns a step of the database into a step of the calendar. \<open>ApiProperties\<close> carries the commands' errors to the
  responses the client's types declare. The harness theories say what a verdict of the harness is worth: what a target
  met or missed means for the samples it saw, that an accounting loses no request, and that a race over the model's own
  \<open>hold\<close> has one winner.

  \<^bold>\<open>Bounds and fuel.\<close> Loops are recursions with a measure, or return because of one: the grid of start times, the retry of
  a hold and of a migration (bounded by its attempts), the batches of a tick (bounded by the rows due, the venues, or
  the batches allowed). There is no fuel in a statement that something returns. The plan of arrivals is a loop that ends
  only because the generator passes through a state with a gap large enough for the rounded clock to move on, which
  holds for the rates and lengths \<open>plan_fits\<close> names and not for all. Times are milliseconds, integers as
  Postgres and \<open>Date\<close> hold them; a unit's capacities are refused beyond an \<open>int4\<close>, the other integer columns take what the
  callers' schemas bound. Strings are 8-bit except in \<open>Json\<close>, where they are the 16-bit units of JavaScript.

  \<^bold>\<open>Parameters.\<close> SHA-256 and the random bytes of secrets and ids (the theorems that need them apart say so by hypotheses:
  fresh ids, a hash without the one collision); the wall clock of each statement, never running back within a transaction;
  the zones of Postgres; what a lock or a serialization failure of another transaction does to a statement; which rows
  another transaction holds locked; \<open>Math.log\<close>, which JavaScript leaves to the implementation (near enough to the
  logarithm); zod's and the router's verdict on a request; the server's answers in \<open>Handle\<close> and \<open>Migrate\<close>.

  \<^bold>\<open>Not modelled.\<close> Sockets, timers, signals and logs; the start of the processes (\<open>server.ts\<close>, \<open>main.ts\<close>) and the command
  lines that only print; the static pages of the documentation; roles and grants; the outbox's publisher, which the
  repository does not contain; row locks as waiting (the venue and unit locks make a write one step here, the
  interleavings that remain are the steps of \<open>System\<close>).
\<close>

end
